(* ===== verification/Prelude.thy ===== *)
theory Prelude
  imports Main
begin

text \<open>
  Shared vocabulary of the development: bytes and byte strings, Go's error values, big-endian
  integers as they stand in frame headers, two's complement wrap-around, and the generic list and
  option lemmas the component theories use.

  A Go \<open>byte\<close> is an Isabelle \<open>char\<close> (256 values), so a Go \<open>string\<close> and a \<open>[]byte\<close> are both a
  \<open>char list\<close> and a literal such as \<open>''OK''\<close> is the bytes the program sends.
\<close>

named_theorems io_simps \<open>evaluation of the stream operations on concrete states\<close>
named_theorems frame_simps \<open>decoding of the frames the sessions write\<close>

section \<open>Bytes and byte strings\<close>

type_synonym byte = char
type_synonym bytes = "char list"

abbreviation newline :: byte where
  "newline \<equiv> CHR 0x0A"

definition nl :: bytes where
  "nl = [newline]"

section \<open>Errors\<close>

text \<open>
  The sentinel errors of package \<open>io\<close> are constructors because the code compares or returns them
  by identity; every other error is its message. \<open>wrap_err\<close> is \<open>fmt.Errorf("...: %w", err)\<close>.
\<close>

datatype err =
    EOF
  | ErrUnexpectedEOF
  | ErrClosedPipe
  | ErrShortWrite
  | ErrShortBuffer
  | ErrNoProgress
  | Err string

fun err_msg :: "err \<Rightarrow> string" where
  "err_msg EOF = ''EOF''"
| "err_msg ErrUnexpectedEOF = ''unexpected EOF''"
| "err_msg ErrClosedPipe = ''io: read/write on closed pipe''"
| "err_msg ErrShortWrite = ''short write''"
| "err_msg ErrShortBuffer = ''short buffer''"
| "err_msg ErrNoProgress = ''multiple Read calls return no data or error''"
| "err_msg (Err s) = s"

definition wrap_err :: "string \<Rightarrow> err \<Rightarrow> err" where
  "wrap_err ctx e = Err (ctx @ '': '' @ err_msg e)"

section \<open>Machine integers\<close>

text \<open>\<open>wrap64\<close> is the value an \<open>int64\<close> holds after an operation whose exact result is its argument.\<close>

definition wrap64 :: "int \<Rightarrow> int" where
  "wrap64 x = (x + 2 ^ 63) mod 2 ^ 64 - 2 ^ 63"

definition in_int64 :: "int \<Rightarrow> bool" where
  "in_int64 x \<longleftrightarrow> - (2 ^ 63) \<le> x \<and> x < 2 ^ 63"

lemma wrap64_id [simp]: "in_int64 x \<Longrightarrow> wrap64 x = x"
  by (simp add: wrap64_def in_int64_def)

lemma wrap64_range [simp]: "in_int64 (wrap64 x)"
proof -
  have "0 \<le> (x + 2 ^ 63) mod 2 ^ 64" "(x + 2 ^ 63) mod 2 ^ 64 < 2 ^ 64"
    by (simp_all add: pos_mod_bound)
  then show ?thesis by (simp add: wrap64_def in_int64_def)
qed

section \<open>Big-endian integers\<close>

lemma of_char_less_256: "(of_char b :: nat) < 256"
  using nat_of_char_less_256 by simp

text \<open>
  \<open>binary.BigEndian.PutUint16\<close>, \<open>PutUint32\<close>, \<open>PutUint64\<close> and their readers. The conversion
  \<open>uintN(n)\<close> at the call site wraps, which \<open>be_put\<close> does because \<open>char_of\<close> takes its argument
  modulo 256.
\<close>

fun be_put :: "nat \<Rightarrow> nat \<Rightarrow> bytes" where
  "be_put 0 n = []"
| "be_put (Suc k) n = be_put k (n div 256) @ [char_of n]"

fun be_get_acc :: "nat \<Rightarrow> bytes \<Rightarrow> nat" where
  "be_get_acc a [] = a"
| "be_get_acc a (b # bs) = be_get_acc (a * 256 + of_char b) bs"

definition be_get :: "bytes \<Rightarrow> nat" where
  "be_get bs = be_get_acc 0 bs"

abbreviation put_u16 :: "nat \<Rightarrow> bytes" where
  "put_u16 \<equiv> be_put 2"

abbreviation put_u32 :: "nat \<Rightarrow> bytes" where
  "put_u32 \<equiv> be_put 4"

abbreviation put_u64 :: "nat \<Rightarrow> bytes" where
  "put_u64 \<equiv> be_put 8"

lemma length_be_put [simp]: "length (be_put k n) = k"
  by (induction k arbitrary: n) simp_all

lemma be_get_acc_append [simp]: "be_get_acc a (xs @ ys) = be_get_acc (be_get_acc a xs) ys"
  by (induction xs arbitrary: a) simp_all

lemma be_get_snoc: "be_get (bs @ [b]) = be_get bs * 256 + of_char b"
  by (simp add: be_get_def)

lemma be_get_be_put: "be_get (be_put k n) = n mod 256 ^ k"
proof (induction k arbitrary: n)
  case 0
  then show ?case by (simp add: be_get_def)
next
  case (Suc k)
  have "be_get (be_put (Suc k) n) = (n div 256) mod 256 ^ k * 256 + n mod 256"
    by (simp add: be_get_snoc Suc.IH)
  also have "\<dots> = n mod (256 * 256 ^ k)"
    by (metis mod_mult2_eq mult.commute)
  finally show ?case by simp
qed

lemma be_put_Nil_iff [simp]: "be_put k n = [] \<longleftrightarrow> k = 0"
  using length_be_put [of k n] by (metis length_0_conv)

lemma be_put_be_get: "be_put (length bs) (be_get bs) = bs"
proof (induction bs rule: rev_induct)
  case Nil
  then show ?case by simp
next
  case (snoc b bs)
  have "(of_char b :: nat) < 256" by (rule of_char_less_256)
  then have "(be_get bs * 256 + of_char b) div 256 = be_get bs" by simp
  moreover have "char_of (be_get bs * 256 + of_char b) = b"
    by (metis char_of_char char_of_mod_256 mod_mult_self3 of_char_mod_256)
  ultimately show ?case using snoc by (simp add: be_get_snoc)
qed

lemma be_get_put_u16 [simp]: "n < 65536 \<Longrightarrow> be_get (put_u16 n) = n"
  by (simp add: be_get_be_put)

lemma be_get_put_u32 [simp]: "n < 4294967296 \<Longrightarrow> be_get (put_u32 n) = n"
  by (simp add: be_get_be_put)

lemma be_get_acc_bound: "be_get_acc a bs < (a + 1) * 256 ^ length bs"
proof (induction bs arbitrary: a)
  case Nil
  then show ?case by simp
next
  case (Cons b bs)
  have "of_char b + 1 \<le> (256 :: nat)"
    by (metis Suc_eq_plus1 Suc_leI of_char_less_256)
  then have "a * 256 + of_char b + 1 \<le> (a + 1) * (256 :: nat)" by simp
  then have "(a * 256 + of_char b + 1) * 256 ^ length bs \<le> (a + 1) * 256 * (256 :: nat) ^ length bs"
    by (rule mult_right_mono) simp
  with Cons.IH [of "a * 256 + of_char b"]
  have "be_get_acc (a * 256 + of_char b) bs < (a + 1) * 256 * 256 ^ length bs"
    by (rule order.strict_trans2)
  then show ?case by (simp add: algebra_simps)
qed

lemma be_get_bound: "be_get bs < 256 ^ length bs"
  using be_get_acc_bound [of 0 bs] by (simp add: be_get_def)

section \<open>Lists and options\<close>

lemma take_append_le [simp]: "length xs = k \<Longrightarrow> take k (xs @ ys) = xs"
  by simp

lemma drop_append_le [simp]: "length xs = k \<Longrightarrow> drop k (xs @ ys) = ys"
  by simp

lemma append_take_eq: "xs = ys @ zs \<Longrightarrow> k \<le> length ys \<Longrightarrow> take k xs = take k ys"
  by simp

text \<open>Finite maps that are inspected key by key are association lists without duplicate keys.\<close>

fun alist_put :: "'k \<Rightarrow> 'v \<Rightarrow> ('k \<times> 'v) list \<Rightarrow> ('k \<times> 'v) list" where
  "alist_put k v [] = [(k, v)]"
| "alist_put k v ((k', v') # m) = (if k = k' then (k, v) # m else (k', v') # alist_put k v m)"

lemma map_of_alist_put [simp]: "map_of (alist_put k v m) = (map_of m)(k \<mapsto> v)"
  by (induction m) auto

lemma keys_alist_put: "fst ` set (alist_put k v m) = insert k (fst ` set m)"
  by (induction m) force+

lemma distinct_alist_put [simp]:
  "distinct (map fst m) \<Longrightarrow> distinct (map fst (alist_put k v m))"
proof (induction m)
  case Nil
  then show ?case by simp
next
  case (Cons a m)
  then show ?case by (cases a) (auto simp: keys_alist_put dest!: arg_cong [where f = "\<lambda>A. A"])
qed

end
