(* ===== verification/GoStrings.thy ===== *)
theory GoStrings
  imports Prelude
begin

text \<open>
  The functions of Go's \<open>strings\<close>, \<open>strconv\<close> and \<open>fmt\<close> packages that the repository uses to
  parse and print its text protocols and settings.

  White space is \<open>unicode.IsSpace\<close> over the UTF-8 bytes of the string: the six ASCII blanks and
  the encodings of U+0085, U+00A0, U+1680, U+2000 to U+200A, U+2028, U+2029, U+202F, U+205F and
  U+3000. No lead byte of those encodings is a continuation byte, so looking at the bytes agrees
  with looking at the runes, invalid encodings included.

  Case mapping covers ASCII and the four runes whose image is an ASCII letter. All other runes map
  to runes outside ASCII and are left alone: the code compares every mapped string with ASCII
  constants or with an ASCII pattern, where the difference cannot show.
\<close>

section \<open>White space\<close>

definition is_space1 :: "byte \<Rightarrow> bool" where
  "is_space1 c \<longleftrightarrow>
     c = CHR 0x09 \<or> c = CHR 0x0A \<or> c = CHR 0x0B \<or> c = CHR 0x0C \<or> c = CHR 0x0D \<or> c = CHR 0x20"

definition is_space2 :: "byte \<Rightarrow> byte \<Rightarrow> bool" where
  "is_space2 c d \<longleftrightarrow> c = CHR 0xC2 \<and> (d = CHR 0x85 \<or> d = CHR 0xA0)"

definition is_space3 :: "byte \<Rightarrow> byte \<Rightarrow> byte \<Rightarrow> bool" where
  "is_space3 c d e \<longleftrightarrow>
     c = CHR 0xE1 \<and> d = CHR 0x9A \<and> e = CHR 0x80 \<or>
     c = CHR 0xE2 \<and> d = CHR 0x80 \<and>
       (0x80 \<le> (of_char e :: nat) \<and> (of_char e :: nat) \<le> 0x8A \<or>
        e = CHR 0xA8 \<or> e = CHR 0xA9 \<or> e = CHR 0xAF) \<or>
     c = CHR 0xE2 \<and> d = CHR 0x81 \<and> e = CHR 0x9F \<or>
     c = CHR 0xE3 \<and> d = CHR 0x80 \<and> e = CHR 0x80"

text \<open>The number of bytes of the white-space rune a string starts with; 0 if it starts with none.\<close>

fun space_len :: "bytes \<Rightarrow> nat" where
  "space_len [] = 0"
| "space_len [c] = (if is_space1 c then 1 else 0)"
| "space_len [c, d] = (if is_space1 c then 1 else if is_space2 c d then 2 else 0)"
| "space_len (c # d # e # s) =
     (if is_space1 c then 1 else if is_space2 c d then 2 else if is_space3 c d e then 3 else 0)"

text \<open>The same at the end of a string, given reversed.\<close>

fun rspace_len :: "bytes \<Rightarrow> nat" where
  "rspace_len [] = 0"
| "rspace_len [c] = (if is_space1 c then 1 else 0)"
| "rspace_len [d, c] = (if is_space1 d then 1 else if is_space2 c d then 2 else 0)"
| "rspace_len (e # d # c # s) =
     (if is_space1 e then 1 else if is_space2 d e then 2 else if is_space3 c d e then 3 else 0)"

function trim_left :: "bytes \<Rightarrow> bytes" where
  "trim_left s = (if space_len s = 0 \<or> s = [] then s else trim_left (drop (space_len s) s))"
  by pat_completeness auto
termination
  by (relation "measure length") auto

function rtrim :: "bytes \<Rightarrow> bytes" where
  "rtrim s = (if rspace_len s = 0 \<or> s = [] then s else rtrim (drop (rspace_len s) s))"
  by pat_completeness auto
termination
  by (relation "measure length") auto

declare trim_left.simps [simp del]
declare rtrim.simps [simp del]

text \<open>\<open>strings.TrimSpace\<close>.\<close>

definition trim_space :: "bytes \<Rightarrow> bytes" where
  "trim_space s = rev (rtrim (rev (trim_left s)))"

text \<open>\<open>strings.Fields\<close>: the maximal runs of non-space bytes.\<close>

function fields_acc :: "bytes \<Rightarrow> bytes \<Rightarrow> bytes list" where
  "fields_acc cur [] = (if cur = [] then [] else [rev cur])"
| "fields_acc cur (c # s) =
     (if space_len (c # s) = 0 then fields_acc (c # cur) s
      else (if cur = [] then [] else [rev cur]) @
           fields_acc [] (drop (space_len (c # s)) (c # s)))"
  by pat_completeness auto
termination
  by (relation "measure (\<lambda>(cur, s). length s)") auto

definition go_fields :: "bytes \<Rightarrow> bytes list" where
  "go_fields s = fields_acc [] s"

section \<open>Prefixes, separators and case\<close>

definition has_prefix :: "bytes \<Rightarrow> bytes \<Rightarrow> bool" where
  "has_prefix s p \<longleftrightarrow> take (length p) s = p"

definition trim_prefix :: "bytes \<Rightarrow> bytes \<Rightarrow> bytes" where
  "trim_prefix s p = (if has_prefix s p then drop (length p) s else s)"

text \<open>\<open>strings.Split\<close> with a separator of one byte.\<close>

fun go_split :: "byte \<Rightarrow> bytes \<Rightarrow> bytes list" where
  "go_split sep [] = [[]]"
| "go_split sep (c # s) =
     (if c = sep then [] # go_split sep s
      else case go_split sep s of [] \<Rightarrow> [[c]] | w # ws \<Rightarrow> (c # w) # ws)"

text \<open>\<open>strings.LastIndex\<close> and \<open>strings.Index\<close> with a separator of one byte: the two parts around it.\<close>

fun cut_first :: "byte \<Rightarrow> bytes \<Rightarrow> (bytes \<times> bytes) option" where
  "cut_first sep [] = None"
| "cut_first sep (c # s) =
     (if c = sep then Some ([], s)
      else map_option (\<lambda>(a, b). (c # a, b)) (cut_first sep s))"

definition cut_last :: "byte \<Rightarrow> bytes \<Rightarrow> (bytes \<times> bytes) option" where
  "cut_last sep s = map_option (\<lambda>(a, b). (rev b, rev a)) (cut_first sep (rev s))"

definition upper1 :: "byte \<Rightarrow> byte" where
  "upper1 c =
     (let n = of_char c :: nat in if 97 \<le> n \<and> n \<le> 122 then char_of (n - 32) else c)"

definition lower1 :: "byte \<Rightarrow> byte" where
  "lower1 c =
     (let n = of_char c :: nat in if 65 \<le> n \<and> n \<le> 90 then char_of (n + 32) else c)"

text \<open>U+0131 (dotless i) and U+017F (long s) have ASCII upper-case letters.\<close>

fun to_upper :: "bytes \<Rightarrow> bytes" where
  "to_upper (c # d # s) =
     (if c = CHR 0xC4 \<and> d = CHR 0xB1 then CHR ''I'' # to_upper s
      else if c = CHR 0xC5 \<and> d = CHR 0xBF then CHR ''S'' # to_upper s
      else upper1 c # to_upper (d # s))"
| "to_upper [c] = [upper1 c]"
| "to_upper [] = []"

text \<open>U+0130 (dotted capital I) and U+212A (Kelvin sign) have ASCII lower-case letters.\<close>

fun to_lower :: "bytes \<Rightarrow> bytes" where
  "to_lower (c # d # s) =
     (if c = CHR 0xC4 \<and> d = CHR 0xB0 then CHR ''i'' # to_lower s
      else if c = CHR 0xE2 \<and> d = CHR 0x84 \<and> take 1 s = [CHR 0xAA]
        then CHR ''k'' # to_lower (drop 1 s)
      else lower1 c # to_lower (d # s))"
| "to_lower [c] = [lower1 c]"
| "to_lower [] = []"

section \<open>Decimal numbers\<close>

definition is_digit :: "byte \<Rightarrow> bool" where
  "is_digit c \<longleftrightarrow> 48 \<le> (of_char c :: nat) \<and> (of_char c :: nat) \<le> 57"

definition digit_val :: "byte \<Rightarrow> nat" where
  "digit_val c = of_char c - 48"

definition digit :: "nat \<Rightarrow> byte" where
  "digit d = char_of (48 + d)"

fun dec_of_nat :: "nat \<Rightarrow> bytes" where
  "dec_of_nat n = (if n < 10 then [digit n] else dec_of_nat (n div 10) @ [digit (n mod 10)])"

declare dec_of_nat.simps [simp del]

text \<open>\<open>strconv.Itoa\<close>, and the verb \<open>%d\<close>.\<close>

definition itoa :: "int \<Rightarrow> bytes" where
  "itoa i = (if i < 0 then CHR ''-'' # dec_of_nat (nat (- i)) else dec_of_nat (nat i))"

fun dec_val_acc :: "nat \<Rightarrow> bytes \<Rightarrow> nat" where
  "dec_val_acc a [] = a"
| "dec_val_acc a (c # s) = dec_val_acc (a * 10 + digit_val c) s"

definition dec_val :: "bytes \<Rightarrow> nat" where
  "dec_val s = dec_val_acc 0 s"

text \<open>
  \<open>strconv.Atoi\<close> (and \<open>ParseInt(s, 10, 64)\<close>) on a 64-bit platform: an optional sign and at least
  one digit, and a value that fits \<open>int64\<close>; anything else is an error.
\<close>

definition atoi :: "bytes \<Rightarrow> int option" where
  "atoi s =
     (let neg = (take 1 s = ''-'');
          body = (if take 1 s = ''-'' \<or> take 1 s = ''+'' then drop 1 s else s);
          v = int (dec_val body)
      in if body = [] \<or> \<not> list_all is_digit body then None
         else if neg then (if v \<le> 2 ^ 63 then Some (- v) else None)
         else (if v < 2 ^ 63 then Some v else None))"

section \<open>Quoting\<close>

definition hex_digit :: "nat \<Rightarrow> byte" where
  "hex_digit d = (if d < 10 then char_of (48 + d) else char_of (87 + d))"

definition quote_byte :: "byte \<Rightarrow> bytes" where
  "quote_byte c =
     (if c = CHR 0x22 then [CHR 0x5C, CHR 0x22]
      else if c = CHR 0x5C then [CHR 0x5C, CHR 0x5C]
      else if c = CHR 0x07 then [CHR 0x5C, CHR ''a'']
      else if c = CHR 0x08 then [CHR 0x5C, CHR ''b'']
      else if c = CHR 0x0C then [CHR 0x5C, CHR ''f'']
      else if c = CHR 0x0A then [CHR 0x5C, CHR ''n'']
      else if c = CHR 0x0D then [CHR 0x5C, CHR ''r'']
      else if c = CHR 0x09 then [CHR 0x5C, CHR ''t'']
      else if c = CHR 0x0B then [CHR 0x5C, CHR ''v'']
      else let n = of_char c :: nat in
        if n < 32 \<or> n = 127
        then [CHR 0x5C, CHR ''x'', hex_digit (n div 16), hex_digit (n mod 16)]
        else [c])"

text \<open>The verb \<open>%q\<close> (\<open>strconv.Quote\<close>); bytes outside ASCII are printed as they are.\<close>

definition go_quote :: "bytes \<Rightarrow> bytes" where
  "go_quote s = [CHR 0x22] @ concat (map quote_byte s) @ [CHR 0x22]"

section \<open>Lemmas\<close>

subsection \<open>Plain words\<close>

text \<open>
  A byte is plain when it is ASCII and not white space; the tokens the program prints into its
  text lines consist of plain bytes.
\<close>

definition plain_byte :: "byte \<Rightarrow> bool" where
  "plain_byte c \<longleftrightarrow> 32 < (of_char c :: nat) \<and> (of_char c :: nat) < 127"

lemma plain_not_space1: "plain_byte c \<Longrightarrow> \<not> is_space1 c"
  by (auto simp: plain_byte_def is_space1_def)

lemma plain_not_space2: "plain_byte c \<Longrightarrow> \<not> is_space2 c d"
  by (auto simp: plain_byte_def is_space2_def)

lemma plain_not_space2': "plain_byte d \<Longrightarrow> \<not> is_space2 c d"
  by (auto simp: plain_byte_def is_space2_def)

lemma plain_not_space3: "plain_byte c \<Longrightarrow> \<not> is_space3 c d e"
  by (auto simp: plain_byte_def is_space3_def)

lemma plain_not_space3': "plain_byte e \<Longrightarrow> \<not> is_space3 c d e"
  by (auto simp: plain_byte_def is_space3_def)

lemmas plain_not_space =
  plain_not_space1 plain_not_space2 plain_not_space2' plain_not_space3 plain_not_space3'

lemma space_len_plain [simp]: "plain_byte c \<Longrightarrow> space_len (c # s) = 0"
  by (cases s rule: space_len.cases; cases "tl s") (auto simp: plain_not_space neq_Nil_conv)

lemma rspace_len_plain [simp]: "plain_byte c \<Longrightarrow> rspace_len (c # s) = 0"
  by (cases s rule: space_len.cases; cases "tl s") (auto simp: plain_not_space neq_Nil_conv)

lemma space_len_blank [simp]: "is_space1 c \<Longrightarrow> space_len (c # s) = 1"
  by (cases s rule: space_len.cases; cases "tl s") (auto simp: neq_Nil_conv)

lemma rspace_len_blank [simp]: "is_space1 c \<Longrightarrow> rspace_len (c # s) = 1"
  by (cases s rule: space_len.cases; cases "tl s") (auto simp: neq_Nil_conv)

lemma space1_blank [simp]: "is_space1 (CHR '' '')" "is_space1 newline"
  by (simp_all add: is_space1_def)

lemma trim_left_plain [simp]: "plain_byte c \<Longrightarrow> trim_left (c # s) = c # s"
  by (simp add: trim_left.simps)

lemma trim_left_Nil [simp]: "trim_left [] = []"
  by (simp add: trim_left.simps)

lemma rtrim_plain [simp]: "plain_byte c \<Longrightarrow> rtrim (c # s) = c # s"
  by (simp add: rtrim.simps)

lemma rtrim_blank [simp]: "is_space1 c \<Longrightarrow> rtrim (c # s) = rtrim s"
  by (subst rtrim.simps) simp

lemma rtrim_Nil [simp]: "rtrim [] = []"
  by (simp add: rtrim.simps)

lemma trim_space_plain_ends:
  "plain_byte c \<Longrightarrow> plain_byte d \<Longrightarrow> trim_space (c # s @ [d]) = c # s @ [d]"
  by (simp add: trim_space_def)

lemma trim_space_plain_nl:
  "plain_byte c \<Longrightarrow> plain_byte d \<Longrightarrow> trim_space (c # s @ [d, newline]) = c # s @ [d]"
  by (simp add: trim_space_def)

lemma fields_acc_plain:
  "list_all plain_byte w \<Longrightarrow> fields_acc cur (w @ s) = fields_acc (rev w @ cur) s"
  by (induction w arbitrary: cur) simp_all

lemma fields_acc_blank:
  "is_space1 c \<Longrightarrow> cur \<noteq> [] \<Longrightarrow> fields_acc cur (c # s) = rev cur # fields_acc [] s"
  by simp

lemma go_fields_word:
  "list_all plain_byte w \<Longrightarrow> w \<noteq> [] \<Longrightarrow> go_fields w = [w]"
  using fields_acc_plain [of w "[]" "[]"] by (simp add: go_fields_def)

lemma go_fields_word_blank:
  "list_all plain_byte w \<Longrightarrow> w \<noteq> [] \<Longrightarrow> is_space1 c \<Longrightarrow>
     go_fields (w @ c # s) = w # go_fields s"
  by (simp add: go_fields_def fields_acc_plain del: fields_acc.simps add: fields_acc_blank)

text \<open>A line of text starts with a printable character and ends with one.\<close>

definition solid :: "bytes \<Rightarrow> bool" where
  "solid s \<longleftrightarrow> s \<noteq> [] \<and> plain_byte (hd s) \<and> plain_byte (last s)"

lemma trim_space_solid: "solid s \<Longrightarrow> trim_space s = s" "solid s \<Longrightarrow> trim_space (s @ nl) = s"
proof -
  assume h: "solid s"
  then obtain c s1 where c: "s = c # s1" "plain_byte c" by (cases s) (auto simp: solid_def)
  have l: "rev s = last s # rev (butlast s)" using h
    by (metis append_butlast_last_id rev.simps(2) rev_rev_ident solid_def rev_append
        append_Cons append_Nil rev.simps(1))
  have l2: "rtrim (last s # rev (butlast s)) = last s # rev (butlast s)"
    by (rule rtrim_plain) (use h in \<open>simp add: solid_def\<close>)
  have t: "trim_left s = s" "trim_left (s @ nl) = s @ nl" using c by simp_all
  have r: "rtrim (rev s) = rev s" by (simp only: l l2)
  show "trim_space s = s" using t r by (simp add: trim_space_def)
  have "rtrim (rev (s @ nl)) = rev s" using r by (simp add: nl_def)
  with t show "trim_space (s @ nl) = s" by (simp add: trim_space_def)
qed

lemma solid_append: "solid s \<Longrightarrow> solid t \<Longrightarrow> solid (s @ u @ t)"
  by (auto simp: solid_def hd_append)

lemma solid_plain: "list_all plain_byte s \<Longrightarrow> s \<noteq> [] \<Longrightarrow> solid s"
  by (cases s) (auto simp: solid_def list_all_iff)

subsection \<open>Prefixes\<close>

lemma has_prefix_append [simp]: "has_prefix (p @ s) p"
  by (simp add: has_prefix_def)

lemma has_prefix_iff: "has_prefix s p \<longleftrightarrow> (\<exists>t. s = p @ t)"
  by (metis append_take_drop_id has_prefix_append has_prefix_def)

subsection \<open>Numbers\<close>

lemma digit_props [simp]:
  "d < 10 \<Longrightarrow> is_digit (digit d)" "d < 10 \<Longrightarrow> digit_val (digit d) = d"
  "d < 10 \<Longrightarrow> plain_byte (digit d)"
  by (simp_all add: is_digit_def digit_def digit_val_def plain_byte_def)

lemma dec_val_acc_append [simp]: "dec_val_acc a (s @ t) = dec_val_acc (dec_val_acc a s) t"
  by (induction s arbitrary: a) simp_all

lemma dec_val_dec_of_nat [simp]: "dec_val (dec_of_nat n) = n"
proof (induction n rule: dec_of_nat.induct)
  case (1 n)
  show ?case
  proof (cases "n < 10")
    case True
    then show ?thesis by (simp add: dec_of_nat.simps dec_val_def)
  next
    case False
    with 1 have "dec_val_acc 0 (dec_of_nat (n div 10)) = n div 10"
      by (simp add: dec_val_def)
    with False show ?thesis
      by (subst dec_of_nat.simps) (simp add: dec_val_def)
  qed
qed

lemma list_all_dec_of_nat:
  "list_all is_digit (dec_of_nat n) \<and> list_all plain_byte (dec_of_nat n) \<and> dec_of_nat n \<noteq> []"
proof (induction n rule: dec_of_nat.induct)
  case (1 n)
  show ?case
  proof (cases "n < 10")
    case True
    then show ?thesis by (simp add: dec_of_nat.simps)
  next
    case False
    with 1 show ?thesis by (subst (1 2 3) dec_of_nat.simps) simp
  qed
qed

lemma dec_of_nat_simps [simp]:
  "list_all is_digit (dec_of_nat n)" "list_all plain_byte (dec_of_nat n)" "dec_of_nat n \<noteq> []"
  using list_all_dec_of_nat by blast+

lemma is_digit_not_sign: "is_digit c \<Longrightarrow> c \<noteq> CHR ''-'' \<and> c \<noteq> CHR ''+''"
  by (auto simp: is_digit_def)

lemma dec_of_nat_no_sign [simp]:
  "take (Suc 0) (dec_of_nat n) \<noteq> ''-''" "take (Suc 0) (dec_of_nat n) \<noteq> ''+''"
  "dec_of_nat n \<noteq> ''-''" "dec_of_nat n \<noteq> ''+''"
  using list_all_dec_of_nat [of n] is_digit_not_sign by (cases "dec_of_nat n"; force)+

lemma itoa_plain [simp]: "list_all plain_byte (itoa i)" "itoa i \<noteq> []"
  by (simp_all add: itoa_def plain_byte_def)

text \<open>Printing a machine integer and parsing it back gives the same integer.\<close>

lemma atoi_itoa [simp]: "in_int64 i \<Longrightarrow> atoi (itoa i) = Some i"
  by (auto simp: atoi_def itoa_def in_int64_def Let_def)

lemma atoi_range: "atoi s = Some i \<Longrightarrow> in_int64 i"
  by (auto simp: atoi_def Let_def in_int64_def split: if_splits)

end
