(* ===== verification/GoDuration.thy ===== *)
theory GoDuration
  imports GoStrings
begin

text \<open>
  \<open>time.Duration\<close> as text: \<open>Duration.String\<close> and \<open>time.ParseDuration\<close>, which the OBFS line and
  the settings use. A duration is its number of nanoseconds, an \<open>int\<close> in the range of \<open>int64\<close>.

  \<open>ParseDuration\<close> adds a fraction in \<open>float64\<close>; the model divides exactly. The two agree whenever
  the fraction has no more digits than the unit has decimal places in nanoseconds, which covers
  every string \<open>Duration.String\<close> prints.

  The main lemma is that parsing what was printed gives the same duration.
\<close>

type_synonym duration = int

definition Millisecond :: duration where
  "Millisecond = 1000000"

definition Second :: duration where
  "Second = 1000000000"

definition Minute :: duration where
  "Minute = 60000000000"

section \<open>Printing\<close>

fun fmt_frac_loop :: "nat \<Rightarrow> nat \<Rightarrow> bool \<Rightarrow> bytes \<Rightarrow> bool \<times> bytes \<times> nat" where
  "fmt_frac_loop 0 v pr acc = (pr, acc, v)"
| "fmt_frac_loop (Suc i) v pr acc =
     (let d = v mod 10; pr' = (pr \<or> d \<noteq> 0)
      in fmt_frac_loop i (v div 10) pr' (if pr' then digit d # acc else acc))"

text \<open>\<open>fmtFrac\<close>: the fraction \<open>v / 10 ^ prec\<close> without trailing zeros, and what is left of \<open>v\<close>.\<close>

definition fmt_frac :: "nat \<Rightarrow> nat \<Rightarrow> bytes \<times> nat" where
  "fmt_frac v prec =
     (case fmt_frac_loop prec v False [] of
        (pr, acc, v') \<Rightarrow> (if pr then CHR ''.'' # acc else [], v'))"

definition micro_s :: bytes where
  "micro_s = [CHR 0xC2, CHR 0xB5, CHR ''s'']"

definition sub_second :: "nat \<Rightarrow> nat \<Rightarrow> bytes \<Rightarrow> bytes" where
  "sub_second u prec unit = (case fmt_frac u prec of (f, v) \<Rightarrow> dec_of_nat v @ f @ unit)"

definition hms :: "nat \<Rightarrow> bytes" where
  "hms u =
     (case fmt_frac u 9 of (f, v) \<Rightarrow>
        let secs = dec_of_nat (v mod 60) @ f @ ''s''; m = v div 60
        in if m = 0 then secs
           else let mins = dec_of_nat (m mod 60) @ ''m''; h = m div 60
             in if h = 0 then mins @ secs else dec_of_nat h @ ''h'' @ mins @ secs)"

definition dur_string :: "duration \<Rightarrow> bytes" where
  "dur_string d =
     (let u = nat \<bar>d\<bar>;
          s = (if u < 1000000000 then
                 if u = 0 then ''0s''
                 else if u < 1000 then sub_second u 0 ''ns''
                 else if u < 1000000 then sub_second u 3 micro_s
                 else sub_second u 6 ''ms''
               else hms u)
      in if d < 0 then CHR ''-'' # s else s)"

section \<open>Parsing\<close>

fun leading_int :: "nat \<Rightarrow> bytes \<Rightarrow> (nat \<times> bytes) option" where
  "leading_int x [] = Some (x, [])"
| "leading_int x (c # s) =
     (if is_digit c then
        if x > 2 ^ 63 div 10 then None
        else let x' = x * 10 + digit_val c in if x' > 2 ^ 63 then None else leading_int x' s
      else Some (x, c # s))"

fun leading_fraction :: "nat \<Rightarrow> nat \<Rightarrow> bool \<Rightarrow> bytes \<Rightarrow> nat \<times> nat \<times> bytes" where
  "leading_fraction x scale over [] = (x, scale, [])"
| "leading_fraction x scale over (c # s) =
     (if is_digit c then
        if over \<or> x > (2 ^ 63 - 1) div 10 \<or> x * 10 + digit_val c > 2 ^ 63
        then leading_fraction x scale True s
        else leading_fraction (x * 10 + digit_val c) (scale * 10) False s
      else (x, scale, c # s))"

definition unit_map :: "bytes \<Rightarrow> nat option" where
  "unit_map u =
     (if u = ''ns'' then Some 1
      else if u = ''us'' \<or> u = micro_s \<or> u = [CHR 0xCE, CHR 0xBC, CHR ''s''] then Some 1000
      else if u = ''ms'' then Some 1000000
      else if u = ''s'' then Some 1000000000
      else if u = ''m'' then Some 60000000000
      else if u = ''h'' then Some 3600000000000
      else None)"

definition unit_char :: "byte \<Rightarrow> bool" where
  "unit_char c \<longleftrightarrow> c \<noteq> CHR ''.'' \<and> \<not> is_digit c"

text \<open>One round of the loop: the digits, the fraction and the unit at the front of the string.\<close>

definition dur_term :: "bytes \<Rightarrow> (nat \<times> bytes) option" where
  "dur_term s =
     (if s = [] \<or> \<not> (hd s = CHR ''.'' \<or> is_digit (hd s)) then None
      else case leading_int 0 s of None \<Rightarrow> None
      | Some (v, s1) \<Rightarrow>
        let pre = (length s \<noteq> length s1);
            dot = (take 1 s1 = ''.'');
            (f, scale, s2) = (if dot then leading_fraction 0 1 False (drop 1 s1) else (0, 1, s1));
            post = (dot \<and> length s2 \<noteq> length (drop 1 s1));
            u = takeWhile unit_char s2;
            s3 = dropWhile unit_char s2
        in if \<not> pre \<and> \<not> post then None
           else if u = [] then None
           else case unit_map u of None \<Rightarrow> None
           | Some unit \<Rightarrow>
             if v > 2 ^ 63 div unit then None
             else let w = v * unit + (f * unit) div scale
               in if w > 2 ^ 63 then None else Some (w, s3))"

lemma leading_int_length: "leading_int x s = Some (v, t) \<Longrightarrow> length t \<le> length s"
  by (induction x s rule: leading_int.induct) (auto simp: Let_def split: if_splits)

lemma leading_fraction_length:
  "leading_fraction x sc ov s = (f, sc', t) \<Longrightarrow> length t \<le> length s"
  by (induction x sc ov s rule: leading_fraction.induct) (auto split: if_splits)

lemma dropWhile_shorter: "takeWhile P s \<noteq> [] \<Longrightarrow> length (dropWhile P s) < length s"
  using takeWhile_dropWhile_id [of P s] by (metis length_append length_greater_0_conv less_add_same_cancel2)

lemma dur_term_shorter: "dur_term s = Some (w, t) \<Longrightarrow> length t < length s"
proof -
  assume h: "dur_term s = Some (w, t)"
  then obtain v s1 where v: "leading_int 0 s = Some (v, s1)"
    by (auto simp: dur_term_def split: if_splits option.splits)
  obtain f sc s2 where
    f: "(if take 1 s1 = ''.'' then leading_fraction 0 1 False (drop 1 s1) else (0, 1, s1)) = (f, sc, s2)"
    by (cases "if take 1 s1 = ''.'' then leading_fraction 0 1 False (drop 1 s1) else (0, 1, s1)") auto
  from h v f have t: "t = dropWhile unit_char s2" "takeWhile unit_char s2 \<noteq> []"
    by (auto simp: dur_term_def Let_def split: if_splits option.splits)
  from f have "length s2 \<le> length s1"
    by (auto split: if_splits dest!: leading_fraction_length)
  with leading_int_length [OF v] dropWhile_shorter [OF t(2)] t(1) show ?thesis by simp
qed

function dur_loop :: "nat \<Rightarrow> bytes \<Rightarrow> nat option" where
  "dur_loop d s =
     (if s = [] then Some d
      else case dur_term s of None \<Rightarrow> None
      | Some (w, t) \<Rightarrow> if d + w > 2 ^ 63 then None else dur_loop (d + w) t)"
  by pat_completeness auto
termination
  by (relation "measure (\<lambda>(d, s). length s)") (auto dest: dur_term_shorter)

declare dur_loop.simps [simp del]

definition parse_duration :: "bytes \<Rightarrow> duration option" where
  "parse_duration str =
     (let neg = (take 1 str = ''-'');
          s = (if take 1 str = ''-'' \<or> take 1 str = ''+'' then drop 1 str else str)
      in if s = ''0'' then Some 0
         else if s = [] then None
         else case dur_loop 0 s of None \<Rightarrow> None
           | Some d \<Rightarrow>
             if neg then Some (- int d)
             else if d > 2 ^ 63 - 1 then None else Some (int d))"

section \<open>Parsing what was printed\<close>

definition no_digit_first :: "bytes \<Rightarrow> bool" where
  "no_digit_first r \<longleftrightarrow> (case r of [] \<Rightarrow> True | c # _ \<Rightarrow> \<not> is_digit c)"

lemma dec_val_acc_ge: "a \<le> dec_val_acc a ds"
proof (induction ds arbitrary: a)
  case Nil
  then show ?case by simp
next
  case (Cons c ds)
  have "a \<le> a * 10 + digit_val c" by simp
  also have "\<dots> \<le> dec_val_acc (a * 10 + digit_val c) ds" by (rule Cons.IH)
  finally show ?case by simp
qed

lemma leading_int_digits:
  "list_all is_digit ds \<Longrightarrow> dec_val_acc a ds \<le> 2 ^ 63 \<Longrightarrow> no_digit_first r \<Longrightarrow>
     leading_int a (ds @ r) = Some (dec_val_acc a ds, r)"
proof (induction ds arbitrary: a)
  case Nil
  then show ?case by (cases r) (simp_all add: no_digit_first_def)
next
  case (Cons c ds)
  have "a * 10 + digit_val c \<le> 2 ^ 63"
    using Cons.prems(2) dec_val_acc_ge [of "a * 10 + digit_val c" ds] by simp
  moreover from this have "a \<le> 2 ^ 63 div 10" by simp
  ultimately show ?case using Cons by (simp add: Let_def)
qed

lemma leading_fraction_digits:
  "list_all is_digit ds \<Longrightarrow> dec_val_acc a ds < 10 ^ 9 \<Longrightarrow> no_digit_first r \<Longrightarrow>
     leading_fraction a sc False (ds @ r) = (dec_val_acc a ds, sc * 10 ^ length ds, r)"
proof (induction ds arbitrary: a sc)
  case Nil
  then show ?case by (cases r) (simp_all add: no_digit_first_def)
next
  case (Cons c ds)
  have "a * 10 + digit_val c < 10 ^ 9"
    using Cons.prems(2) dec_val_acc_ge [of "a * 10 + digit_val c" ds] by simp
  moreover from this have "a < 10 ^ 9" by simp
  ultimately show ?case using Cons by (simp add: mult.assoc)
qed

text \<open>What the fraction printer leaves: its digits, read as a number, are the fraction.\<close>

lemma mod_step: "(v div 10) mod 10 ^ i * 10 + v mod 10 = v mod 10 ^ Suc i" for v :: nat
  by (metis mod_mult2_eq mult.commute power_Suc add.commute)

lemma fmt_frac_loop_print:
  "fmt_frac_loop i v True acc = (pr, ds, v') \<Longrightarrow> list_all is_digit acc \<Longrightarrow>
     pr \<and> v' = v div 10 ^ i \<and> length ds = i + length acc \<and> list_all is_digit ds \<and>
     dec_val_acc a ds = dec_val_acc (a * 10 ^ i + v mod 10 ^ i) acc"
proof (induction i arbitrary: v acc)
  case 0
  then show ?case by simp
next
  case (Suc i)
  have d: "v mod 10 < 10" by simp
  from Suc.prems have
    "fmt_frac_loop i (v div 10) True (digit (v mod 10) # acc) = (pr, ds, v')" by (simp add: Let_def)
  from Suc.IH [OF this] Suc.prems(2) d have
    "pr \<and> v' = v div 10 div 10 ^ i \<and> length ds = i + length (digit (v mod 10) # acc) \<and>
     list_all is_digit ds \<and>
     dec_val_acc a ds = dec_val_acc (a * 10 ^ i + v div 10 mod 10 ^ i) (digit (v mod 10) # acc)"
    by simp
  moreover have "dec_val_acc (a * 10 ^ i + v div 10 mod 10 ^ i) (digit (v mod 10) # acc) =
      dec_val_acc (a * 10 ^ Suc i + v mod 10 ^ Suc i) acc"
  proof -
    have "(a * 10 ^ i + v div 10 mod 10 ^ i) * 10 + v mod 10 = a * 10 ^ Suc i + v mod 10 ^ Suc i"
      using mod_step [of v i] by (simp add: algebra_simps)
    then show ?thesis using d by (simp only: dec_val_acc.simps digit_props(2))
  qed
  ultimately show ?case by (simp del: dec_val_acc.simps add: div_mult2_eq)
qed

lemma fmt_frac_loop_start:
  "fmt_frac_loop i v False [] = (pr, ds, v') \<Longrightarrow>
     v' = v div 10 ^ i \<and> list_all is_digit ds \<and> (pr \<longleftrightarrow> ds \<noteq> []) \<and> length ds \<le> i \<and>
     dec_val ds * 10 ^ (i - length ds) = v mod 10 ^ i"
proof (induction i arbitrary: v)
  case 0
  then show ?case by (simp add: dec_val_def)
next
  case (Suc i)
  show ?case
  proof (cases "v mod 10 = 0")
    case True
    with Suc.prems have "fmt_frac_loop i (v div 10) False [] = (pr, ds, v')" by (simp add: Let_def)
    from Suc.IH [OF this] have
      h: "v' = v div 10 div 10 ^ i" "list_all is_digit ds" "pr \<longleftrightarrow> ds \<noteq> []" "length ds \<le> i"
      "dec_val ds * 10 ^ (i - length ds) = v div 10 mod 10 ^ i" by auto
    have "dec_val ds * 10 ^ (Suc i - length ds) = (v div 10 mod 10 ^ i) * 10"
      using h(4,5) by (simp add: Suc_diff_le)
    also have "\<dots> = v mod 10 ^ Suc i" using mod_step [of v i] True by simp
    finally show ?thesis using h by (simp add: div_mult2_eq)
  next
    case False
    have d: "v mod 10 < 10" by simp
    from Suc.prems False have
      "fmt_frac_loop i (v div 10) True [digit (v mod 10)] = (pr, ds, v')" by (simp add: Let_def)
    from fmt_frac_loop_print [OF this, of 0] d have
      h: "pr" "v' = v div 10 div 10 ^ i" "length ds = Suc i" "list_all is_digit ds"
      "dec_val_acc 0 ds = v div 10 mod 10 ^ i * 10 + v mod 10" by simp_all
    with mod_step [of v i] show ?thesis by (auto simp: dec_val_def div_mult2_eq)
  qed
qed

text \<open>One printed term \<open>digits [. fraction] unit\<close> parses to its value.\<close>

definition unit_word :: "bytes \<Rightarrow> bool" where
  "unit_word u \<longleftrightarrow> u \<noteq> [] \<and> list_all unit_char u"

lemma takeWhile_unit:
  "unit_word u \<Longrightarrow> r = [] \<or> \<not> unit_char (hd r) \<Longrightarrow>
     takeWhile unit_char (u @ r) = u \<and> dropWhile unit_char (u @ r) = r"
  by (cases r) (auto simp: unit_word_def list_all_iff)

lemma hd_dec_of_nat [simp]: "is_digit (hd (dec_of_nat v))"
  using dec_of_nat_simps(1,3) [of v] by (cases "dec_of_nat v") auto

lemma dur_term_printed:
  assumes v: "v \<le> 2 ^ 63 div unit" and u: "unit_word u" "unit_map u = Some unit"
    and r: "r = [] \<or> is_digit (hd r)"
    and f: "fmt_frac_loop prec v0 False [] = (pr, ds, v1)" and prec: "prec \<le> 9"
    and unit: "pr \<longrightarrow> unit = 10 ^ prec"
    and w: "v * unit + (if pr then v0 mod 10 ^ prec else 0) \<le> 2 ^ 63"
  shows "dur_term (dec_of_nat v @ (if pr then CHR ''.'' # ds else []) @ u @ r) =
           Some (v * unit + (if pr then v0 mod 10 ^ prec else 0), r)"
proof -
  have unit0: "0 < unit" using u(2) by (auto simp: unit_map_def split: if_splits)
  have v63: "v \<le> 2 ^ 63"
    using v by (meson div_le_dividend order_trans)
  have nd: "no_digit_first (u @ r)"
    using u(1) by (cases u) (auto simp: no_digit_first_def unit_word_def unit_char_def)
  have ndot: "take (Suc 0) (u @ r) \<noteq> ''.''"
    using u(1) by (cases u) (auto simp: unit_word_def unit_char_def)
  have une: "u \<noteq> []" using u(1) by (simp add: unit_word_def)
  have tw: "takeWhile unit_char (u @ r) = u \<and> dropWhile unit_char (u @ r) = r"
    using takeWhile_unit [OF u(1)] r by (auto simp: unit_char_def)
  note fr = fmt_frac_loop_start [OF f]
  have li: "no_digit_first s \<Longrightarrow> leading_int 0 (dec_of_nat v @ s) = Some (v, s)" for s
    using leading_int_digits [of "dec_of_nat v" 0 s] v63
    by (simp add: dec_val_def [symmetric])
  show ?thesis
  proof (cases pr)
    case False
    with li [OF nd] tw une u(2) v w ndot show ?thesis
      by (simp add: dur_term_def Let_def hd_append del: power_numeral)
  next
    case True
    have "dec_val ds \<le> v0 mod 10 ^ prec"
      using fr by (metis le_add1 mult.right_neutral nat_mult_le_cancel_disj one_le_numeral one_le_power)
    also have "\<dots> < 10 ^ prec" by simp
    also have "(10 :: nat) ^ prec \<le> 10 ^ 9" using prec by (simp only: power_increasing)
    finally have lf: "leading_fraction 0 1 False (ds @ u @ r) = (dec_val ds, 10 ^ length ds, u @ r)"
      using leading_fraction_digits [of ds 0 "u @ r" 1] fr nd by (simp add: dec_val_def)
    have "dec_val ds * unit = v0 mod 10 ^ prec * 10 ^ length ds"
      using fr unit True by (metis (no_types) le_add_diff_inverse2 mult.assoc power_add)
    then have fdiv: "dec_val ds * unit div 10 ^ length ds = v0 mod 10 ^ prec" by simp
    have nd2: "no_digit_first (CHR ''.'' # ds @ u @ r)"
      by (simp add: no_digit_first_def is_digit_def)
    from li [OF nd2] lf tw une u(2) v w fdiv True show ?thesis
      by (simp add: dur_term_def Let_def hd_append del: power_numeral)
  qed
qed

lemma unit_words [simp]:
  "unit_word ''ns''" "unit_word micro_s" "unit_word ''ms''" "unit_word ''s''"
  "unit_word ''m''" "unit_word ''h''"
  by (simp_all add: unit_word_def unit_char_def is_digit_def micro_s_def)

lemma unit_map_words [simp]:
  "unit_map ''ns'' = Some 1" "unit_map micro_s = Some 1000" "unit_map ''ms'' = Some 1000000"
  "unit_map ''s'' = Some 1000000000" "unit_map ''m'' = Some 60000000000"
  "unit_map ''h'' = Some 3600000000000"
  by (simp_all add: unit_map_def micro_s_def)

lemma dur_loop_step:
  "dur_term s = Some (w, t) \<Longrightarrow> d + w \<le> 2 ^ 63 \<Longrightarrow> dur_loop d s = dur_loop (d + w) t"
  by (subst dur_loop.simps) (auto simp: dur_term_def)

lemma dur_loop_Nil [simp]: "dur_loop d [] = Some d"
  by (simp add: dur_loop.simps)

text \<open>A last term with a fraction, after \<open>d\<close> nanoseconds were read.\<close>

lemma dur_loop_frac:
  assumes u: "unit_word u" "unit_map u = Some (10 ^ prec)" and prec: "prec \<le> 9"
    and f: "fmt_frac v0 prec = (fs, v1)" and w: "d + v * 10 ^ prec + v0 mod 10 ^ prec \<le> 2 ^ 63"
  shows "dur_loop d (dec_of_nat v @ fs @ u) = Some (d + v * 10 ^ prec + v0 mod 10 ^ prec)"
proof -
  obtain pr ds v2 where l: "fmt_frac_loop prec v0 False [] = (pr, ds, v2)"
    by (cases "fmt_frac_loop prec v0 False []") auto
  with f have fs: "fs = (if pr then CHR ''.'' # ds else [])" by (auto simp: fmt_frac_def)
  have z: "\<not> pr \<Longrightarrow> v0 mod 10 ^ prec = 0"
    using fmt_frac_loop_start [OF l] by (auto simp: dec_val_def)
  have "v * 10 ^ prec \<le> 2 ^ 63" using w by simp
  then have v: "v \<le> 2 ^ 63 div 10 ^ prec" by (simp add: less_eq_div_iff_mult_less_eq)
  have "dur_term (dec_of_nat v @ fs @ u @ []) = Some (v * 10 ^ prec + v0 mod 10 ^ prec, [])"
    unfolding fs using dur_term_printed [OF v u(1) u(2) _ l prec, of "[]"] w z by auto
  then show ?thesis using w by (simp add: dur_loop_step add.assoc)
qed

lemma dur_loop_whole:
  assumes u: "unit_word u" "unit_map u = Some unit" and r: "is_digit (hd r)" and w: "d + v * unit \<le> 2 ^ 63"
  shows "dur_loop d (dec_of_nat v @ u @ r) = dur_loop (d + v * unit) r"
proof -
  have "0 < unit" using u(2) by (auto simp: unit_map_def split: if_splits)
  moreover have "v * unit \<le> 2 ^ 63" using w by simp
  ultimately have v: "v \<le> 2 ^ 63 div unit" by (simp add: less_eq_div_iff_mult_less_eq)
  have "dur_term (dec_of_nat v @ u @ r) = Some (v * unit, r)"
    using dur_term_printed [OF v u, of r 0 0 False "[]" 0] r w by simp
  then show ?thesis using w by (simp add: dur_loop_step)
qed

lemma fmt_frac_rest: "snd (fmt_frac v prec) = v div 10 ^ prec"
  using fmt_frac_loop_start [of prec v]
  by (cases "fmt_frac_loop prec v False []") (simp add: fmt_frac_def)

lemma dur_loop_sub_second:
  assumes "unit_word u" "unit_map u = Some (10 ^ prec)" "prec \<le> 9" "n \<le> 2 ^ 63"
  shows "dur_loop 0 (sub_second n prec u) = Some n"
proof -
  obtain fs v where f: "fmt_frac n prec = (fs, v)" by (cases "fmt_frac n prec") auto
  then have v: "v = n div 10 ^ prec" using fmt_frac_rest [of n prec] by simp
  have "v * 10 ^ prec + n mod 10 ^ prec = n"
    unfolding v by (rule div_mult_mod_eq)
  with dur_loop_frac [OF assms(1-3) f, of 0 v] assms(4) show ?thesis
    by (simp add: sub_second_def f)
qed

lemma dur_loop_hms:
  assumes n: "n \<le> 2 ^ 63"
  shows "dur_loop 0 (hms n) = Some n"
proof -
  obtain fs v where f: "fmt_frac n 9 = (fs, v)" by (cases "fmt_frac n 9") auto
  then have v: "v = n div 10 ^ 9" using fmt_frac_rest [of n 9] by simp
  define m where "m = v div 60"
  define h where "h = m div 60"
  have nv: "n = v * 1000000000 + n mod 1000000000" by (simp add: v)
  have vm: "v = m * 60 + v mod 60" by (simp add: m_def)
  have mh: "m = h * 60 + m mod 60" by (simp add: h_def)
  define secs where "secs = dec_of_nat (v mod 60) @ fs @ ''s''"
  have dsecs: "is_digit (hd secs)" by (simp add: secs_def)
  have s: "d + v mod 60 * 1000000000 + n mod 1000000000 \<le> 2 ^ 63 \<Longrightarrow>
      dur_loop d secs = Some (d + v mod 60 * 1000000000 + n mod 1000000000)" for d
    using dur_loop_frac [of "''s''" 9 n fs v d "v mod 60"] f by (simp add: secs_def)
  have ms: "dur_loop d (dec_of_nat (m mod 60) @ ''m'' @ secs) =
      dur_loop (d + m mod 60 * 60000000000) secs" if "d + m mod 60 * 60000000000 \<le> 2 ^ 63" for d
    using dur_loop_whole [of "''m''" 60000000000 secs d "m mod 60"] dsecs that by simp
  have hs: "dur_loop 0 (dec_of_nat h @ ''h'' @ dec_of_nat (m mod 60) @ ''m'' @ secs) =
      dur_loop (h * 3600000000000) (dec_of_nat (m mod 60) @ ''m'' @ secs)"
    if "h * 3600000000000 \<le> 2 ^ 63"
    using dur_loop_whole [of "''h''" 3600000000000 "dec_of_nat (m mod 60) @ ''m'' @ secs" 0 h] that
    by simp
  have total: "n = h * 3600000000000 + m mod 60 * 60000000000 + v mod 60 * 1000000000 +
      n mod 1000000000"
    using nv vm mh by linarith
  have le: "h * 3600000000000 + m mod 60 * 60000000000 + v mod 60 * 1000000000 +
      n mod 1000000000 \<le> 2 ^ 63"
    using n total by simp
  have "dur_loop 0 (hms n) = Some (h * 3600000000000 + m mod 60 * 60000000000 +
      v mod 60 * 1000000000 + n mod 1000000000)"
  proof (cases "m = 0")
    case True
    then have "h = 0" by (simp add: h_def)
    with True s [of 0] le show ?thesis by (simp add: hms_def f secs_def m_def Let_def)
  next
    case m0: False
    show ?thesis
    proof (cases "h = 0")
      case True
      with m0 have "hms n = dec_of_nat (m mod 60) @ ''m'' @ secs"
        by (simp add: hms_def f secs_def m_def h_def Let_def)
      with True ms [of 0] s [of "m mod 60 * 60000000000"] le show ?thesis by simp
    next
      case False
      with m0 have "hms n = dec_of_nat h @ ''h'' @ dec_of_nat (m mod 60) @ ''m'' @ secs"
        by (simp add: hms_def f secs_def m_def h_def Let_def)
      with hs ms [of "h * 3600000000000"]
        s [of "h * 3600000000000 + m mod 60 * 60000000000"] le show ?thesis by simp
    qed
  qed
  with total show ?thesis by simp
qed

lemma dec_of_nat_first: "\<exists>c t. dec_of_nat n = c # t \<and> is_digit c"
  using dec_of_nat_simps(1,3) [of n] by (cases "dec_of_nat n") auto

lemma hms_first: "\<exists>c t. hms n = c # t \<and> is_digit c"
proof -
  have "\<exists>c t. dec_of_nat k @ r = c # t \<and> is_digit c" for k r
    using dec_of_nat_first [of k] by auto
  then show ?thesis by (auto simp: hms_def Let_def split: prod.splits)
qed

lemma sub_second_first: "\<exists>c t. sub_second n p u = c # t \<and> is_digit c"
  using dec_of_nat_first [of "snd (fmt_frac n p)"] by (auto simp: sub_second_def split: prod.splits)

lemma dur_string_pos_first: "0 \<le> d \<Longrightarrow> \<exists>c t. dur_string d = c # t \<and> is_digit c"
  using hms_first sub_second_first by (auto simp: dur_string_def Let_def is_digit_def)

lemma dur_loop_zero: "dur_loop 0 ''0s'' = Some 0"
proof -
  have "dec_of_nat 0 = ''0''" by code_simp
  moreover have "fmt_frac 0 9 = ([], 0)" by code_simp
  ultimately show ?thesis using dur_loop_frac [of "''s''" 9 0 "[]" 0 0 0] by simp
qed

lemma dur_loop_dur_string:
  assumes "0 \<le> d" "d < 2 ^ 63"
  shows "dur_loop 0 (dur_string d) = Some (nat d)"
proof -
  have n: "nat d \<le> 2 ^ 63" using assms by simp
  show ?thesis
    using assms n dur_loop_hms [OF n] dur_loop_zero
      dur_loop_sub_second [of "''ns''" 0 "nat d"] dur_loop_sub_second [of micro_s 3 "nat d"]
      dur_loop_sub_second [of "''ms''" 6 "nat d"]
    by (simp add: dur_string_def Let_def)
qed

lemma dur_string_not_0: "0 \<le> d \<Longrightarrow> dur_string d \<noteq> ''0''"
proof
  assume "0 \<le> d" "dur_string d = ''0''"
  moreover have "dur_term ''0'' = None"
    by (simp add: dur_term_def Let_def is_digit_def digit_val_def)
  ultimately show False
  proof -
    have "dur_string d \<noteq> ''0''"
      unfolding dur_string_def sub_second_def hms_def micro_s_def
      by (auto simp: Let_def split: prod.splits simp: append_eq_Cons_conv)
    with \<open>dur_string d = ''0''\<close> show False by simp
  qed
qed

theorem parse_dur_string:
  assumes "0 \<le> d" "d < 2 ^ 63"
  shows "parse_duration (dur_string d) = Some d"
proof -
  obtain c t where c: "dur_string d = c # t" "is_digit c" using dur_string_pos_first [OF assms(1)] by blast
  with is_digit_not_sign have "c \<noteq> CHR ''-''" "c \<noteq> CHR ''+''" by blast+
  with c dur_loop_dur_string [OF assms] dur_string_not_0 [OF assms(1)] assms show ?thesis
    by (auto simp: parse_duration_def Let_def)
qed

text \<open>The bytes of a printed duration: ASCII apart from the micro sign, and no white space.\<close>

definition token_byte :: "byte \<Rightarrow> bool" where
  "token_byte c \<longleftrightarrow> plain_byte c \<or> c = CHR 0xC2 \<or> c = CHR 0xB5"

lemma token_plain [simp]: "plain_byte c \<Longrightarrow> token_byte c"
  by (simp add: token_byte_def)

lemma list_all_token_plain [simp]: "list_all plain_byte s \<Longrightarrow> list_all token_byte s"
  by (auto simp: list_all_iff)

lemma digits_plain: "list_all is_digit s \<Longrightarrow> list_all plain_byte s"
  by (auto simp: list_all_iff is_digit_def plain_byte_def)

lemma fmt_frac_plain: "fmt_frac v p = (f, r) \<Longrightarrow> list_all plain_byte f"
proof -
  assume h: "fmt_frac v p = (f, r)"
  obtain pr ds v' where l: "fmt_frac_loop p v False [] = (pr, ds, v')"
    by (cases "fmt_frac_loop p v False []") auto
  from fmt_frac_loop_start [OF l] have "list_all is_digit ds" by simp
  from digits_plain [OF this] h l show ?thesis
    by (auto simp: fmt_frac_def plain_byte_def)
qed

lemma sub_second_token: "list_all token_byte u \<Longrightarrow> list_all token_byte (sub_second n p u)"
  by (auto simp: sub_second_def split: prod.splits dest!: fmt_frac_plain)

lemma hms_token: "list_all token_byte (hms n)"
proof -
  obtain f v where f: "fmt_frac n 9 = (f, v)" by (cases "fmt_frac n 9") auto
  have "list_all token_byte f" using fmt_frac_plain [OF f] by simp
  then show ?thesis by (simp add: hms_def f Let_def plain_byte_def)
qed

lemma dur_string_token [simp]: "list_all token_byte (dur_string d)"
proof -
  have u: "list_all token_byte ''ns''" "list_all token_byte ''ms''" "list_all token_byte micro_s"
    "list_all token_byte ''0s''" "token_byte (CHR ''-'')"
    by (simp_all add: token_byte_def plain_byte_def micro_s_def)
  show ?thesis
    using sub_second_token [OF u(1)] sub_second_token [OF u(2)] sub_second_token [OF u(3)] hms_token u
    by (simp add: dur_string_def Let_def)
qed

end
