(* ===== verification/GoIO.thy ===== *)
theory GoIO
  imports Prelude
begin

text \<open>
  Byte streams: what the code uses of \<open>io.Reader\<close>, \<open>io.Writer\<close>, \<open>io.ReadFull\<close>, \<open>io.Copy\<close> and
  \<open>bufio.Reader\<close>.

  A reader is a function from the state of the stream and the size of the caller's buffer to the
  bytes delivered, the error and the next state; its value \<open>None\<close> means that the call never
  returns, because the peer stays silent or because the code loops. A writer returns the count, the
  error and the next state.

  \<open>wire\<close> is the network end of a stream: the peer's bytes cut into the segments the network
  happens to deliver, what happens after the last of them, everything written so far, and the
  timeout of a deadline that is set on it (time itself is not modelled).

  The locale \<open>byte_stream\<close> is the contract of a readable stream: as long as unread content is
  left, a read with a non-empty buffer returns without error and delivers a prefix of it. Every
  session of the repository that wraps a stream is shown to keep that contract, so the results of
  this theory on \<open>io.ReadFull\<close> and \<open>bufio.Reader\<close> hold for all of them.
\<close>

type_synonym 's reader = "'s \<Rightarrow> nat \<Rightarrow> (bytes \<times> err option \<times> 's) option"
type_synonym 's writer = "'s \<Rightarrow> bytes \<Rightarrow> nat \<times> err option \<times> 's"

section \<open>The network end of a stream\<close>

record wire =
  rx :: "bytes list"
  rx_end :: "err option"
  tx :: bytes
  tx_room :: "nat option"
  closed :: bool
  deadline :: "int option"

definition err_closed_stream :: err where
  "err_closed_stream = Err ''use of closed network connection''"

definition err_write_failed :: err where
  "err_write_failed = Err ''write failed''"

text \<open>An exhausted wire returns \<open>rx_end\<close>; \<open>rx_end = None\<close> is a peer that stays silent.\<close>

definition wire_read :: "wire reader" where
  "wire_read w n =
     (if closed w then Some ([], Some err_closed_stream, w)
      else if n = 0 then Some ([], None, w)
      else case rx w of
        [] \<Rightarrow> (case rx_end w of None \<Rightarrow> None | Some e \<Rightarrow> Some ([], Some e, w))
      | seg # segs \<Rightarrow>
          Some (take n seg, None,
            w\<lparr>rx := (if length seg \<le> n then segs else drop n seg # segs)\<rparr>))"

text \<open>\<open>tx_room\<close> bounds the number of further writes the network accepts, if it is bounded at all.\<close>

definition wire_write :: "wire writer" where
  "wire_write w bs =
     (if closed w then (0, Some err_closed_stream, w)
      else case tx_room w of
        None \<Rightarrow> (length bs, None, w\<lparr>tx := tx w @ bs\<rparr>)
      | Some 0 \<Rightarrow> (0, Some err_write_failed, w)
      | Some (Suc k) \<Rightarrow> (length bs, None, w\<lparr>tx := tx w @ bs, tx_room := Some k\<rparr>))"

definition wire_close :: "wire \<Rightarrow> wire" where
  "wire_close w = w\<lparr>closed := True\<rparr>"

definition wire_of :: "bytes list \<Rightarrow> err option \<Rightarrow> wire" where
  "wire_of segs e =
     \<lparr>rx = segs, rx_end = e, tx = [], tx_room = None, closed = False, deadline = None\<rparr>"

section \<open>io.ReadFull and io.ReadAtLeast\<close>

definition at_least_err :: "bytes \<Rightarrow> nat \<Rightarrow> err \<Rightarrow> err option" where
  "at_least_err got least e =
     (if least \<le> length got then None
      else if got \<noteq> [] \<and> e = EOF then Some ErrUnexpectedEOF
      else Some e)"

partial_function (option) read_loop ::
  "'s reader \<Rightarrow> 's \<Rightarrow> nat \<Rightarrow> nat \<Rightarrow> bytes \<Rightarrow> (bytes \<times> err option \<times> 's) option"
where
  "read_loop rd s least cap acc =
     (if length acc < least then
        case rd s (cap - length acc) of
          None \<Rightarrow> None
        | Some (bs, e, s') \<Rightarrow>
            (case e of
               None \<Rightarrow> read_loop rd s' least cap (acc @ bs)
             | Some x \<Rightarrow> Some (acc @ bs, at_least_err (acc @ bs) least x, s'))
      else Some (acc, None, s))"

definition read_at_least :: "'s reader \<Rightarrow> 's \<Rightarrow> nat \<Rightarrow> nat \<Rightarrow> (bytes \<times> err option \<times> 's) option" where
  "read_at_least rd s cap least = read_loop rd s least cap []"

definition read_full :: "'s reader \<Rightarrow> 's \<Rightarrow> nat \<Rightarrow> (bytes \<times> err option \<times> 's) option" where
  "read_full rd s k = read_at_least rd s k k"

section \<open>bufio.Reader\<close>

record 's bufrd =
  b_src :: 's
  b_buf :: bytes
  b_err :: "err option"

definition bufio_size :: nat where
  "bufio_size = 4096"

definition new_bufrd :: "'s \<Rightarrow> 's bufrd" where
  "new_bufrd s = \<lparr>b_src = s, b_buf = [], b_err = None\<rparr>"

text \<open>\<open>fill\<close>: one read into the free part of the buffer, repeated at most 100 times while it is empty.\<close>

fun bufio_fill :: "nat \<Rightarrow> 's reader \<Rightarrow> 's bufrd \<Rightarrow> 's bufrd option" where
  "bufio_fill 0 rd b = Some (b\<lparr>b_err := Some ErrNoProgress\<rparr>)"
| "bufio_fill (Suc k) rd b =
     (case rd (b_src b) (bufio_size - length (b_buf b)) of
        None \<Rightarrow> None
      | Some (bs, e, s') \<Rightarrow>
          let b' = b\<lparr>b_src := s', b_buf := b_buf b @ bs\<rparr>
          in case e of
               Some x \<Rightarrow> Some (b'\<lparr>b_err := Some x\<rparr>)
             | None \<Rightarrow> if bs \<noteq> [] then Some b' else bufio_fill k rd b')"

text \<open>\<open>ReadString('\n')\<close>.\<close>

partial_function (option) read_string ::
  "'s reader \<Rightarrow> 's bufrd \<Rightarrow> bytes \<Rightarrow> (bytes \<times> err option \<times> 's bufrd) option"
where
  "read_string rd b acc =
     (if newline \<in> set (b_buf b) then
        let l = takeWhile (\<lambda>c. c \<noteq> newline) (b_buf b) @ [newline]
        in Some (acc @ l, None, b\<lparr>b_buf := drop (length l) (b_buf b)\<rparr>)
      else case b_err b of
        Some e \<Rightarrow> Some (acc @ b_buf b, Some e, b\<lparr>b_buf := [], b_err := None\<rparr>)
      | None \<Rightarrow>
          if bufio_size \<le> length (b_buf b) then read_string rd (b\<lparr>b_buf := []\<rparr>) (acc @ b_buf b)
          else (case bufio_fill 100 rd b of None \<Rightarrow> None | Some b' \<Rightarrow> read_string rd b' acc))"

definition read_line :: "'s reader \<Rightarrow> 's bufrd \<Rightarrow> (bytes \<times> err option \<times> 's bufrd) option" where
  "read_line rd b = read_string rd b []"

text \<open>\<open>ReadByte\<close>.\<close>

definition take_byte :: "'s bufrd \<Rightarrow> (err + byte) \<times> 's bufrd" where
  "take_byte b =
     (case b_buf b of
        c # cs \<Rightarrow> (Inr c, b\<lparr>b_buf := cs\<rparr>)
      | [] \<Rightarrow> (Inl (case b_err b of Some e \<Rightarrow> e | None \<Rightarrow> ErrNoProgress), b\<lparr>b_err := None\<rparr>))"

definition read_byte :: "'s reader \<Rightarrow> 's bufrd \<Rightarrow> ((err + byte) \<times> 's bufrd) option" where
  "read_byte rd b =
     (if b_buf b = [] \<and> b_err b = None then map_option take_byte (bufio_fill 100 rd b)
      else Some (take_byte b))"

text \<open>\<open>Read\<close>: from the buffer; through it when it is empty and the caller's buffer is smaller.\<close>

definition bufio_read :: "'s reader \<Rightarrow> 's bufrd reader" where
  "bufio_read rd b n =
     (if n = 0 then
        (if b_buf b \<noteq> [] then Some ([], None, b) else Some ([], b_err b, b\<lparr>b_err := None\<rparr>))
      else if b_buf b \<noteq> [] then Some (take n (b_buf b), None, b\<lparr>b_buf := drop n (b_buf b)\<rparr>)
      else case b_err b of
        Some e \<Rightarrow> Some ([], Some e, b\<lparr>b_err := None\<rparr>)
      | None \<Rightarrow>
          if bufio_size \<le> n then
            (case rd (b_src b) n of None \<Rightarrow> None
             | Some (bs, e, s') \<Rightarrow> Some (bs, e, b\<lparr>b_src := s'\<rparr>))
          else
            (case rd (b_src b) bufio_size of None \<Rightarrow> None
             | Some (bs, e, s') \<Rightarrow>
                 if bs = [] then Some ([], e, b\<lparr>b_src := s'\<rparr>)
                 else Some (take n bs, None, b\<lparr>b_src := s', b_buf := drop n bs, b_err := e\<rparr>)))"

section \<open>io.Copy\<close>

definition copy_buf_size :: nat where
  "copy_buf_size = 32768"

text \<open>One round of \<open>io.Copy\<close>: \<open>Inl\<close> is its return value, \<open>Inr\<close> the state for the next round.\<close>

definition copy_round ::
  "'s reader \<Rightarrow> 'd writer \<Rightarrow> 's \<Rightarrow> 'd \<Rightarrow> nat \<Rightarrow> (((nat \<times> err option) + nat) \<times> 's \<times> 'd) option"
where
  "copy_round rd wr s d n =
     (case rd s copy_buf_size of
        None \<Rightarrow> None
      | Some (bs, e, s') \<Rightarrow>
          let (nw, ew, d') = (if bs \<noteq> [] then wr d bs else (0, None, d)); n' = n + nw
          in if ew \<noteq> None then Some (Inl (n', ew), s', d')
             else if nw \<noteq> length bs then Some (Inl (n', Some ErrShortWrite), s', d')
             else case e of
               None \<Rightarrow> Some (Inr n', s', d')
             | Some EOF \<Rightarrow> Some (Inl (n', None), s', d')
             | Some x \<Rightarrow> Some (Inl (n', Some x), s', d'))"

partial_function (option) io_copy ::
  "'s reader \<Rightarrow> 'd writer \<Rightarrow> 's \<Rightarrow> 'd \<Rightarrow> nat \<Rightarrow> (nat \<times> err option \<times> 's \<times> 'd) option"
where
  "io_copy rd wr s d n =
     (case copy_round rd wr s d n of
        None \<Rightarrow> None
      | Some (Inl (n', e), s', d') \<Rightarrow> Some (n', e, s', d')
      | Some (Inr n', s', d') \<Rightarrow> io_copy rd wr s' d' n')"

section \<open>The contract of a readable stream\<close>

locale byte_stream =
  fixes rd :: "'s reader"
    and content :: "'s \<Rightarrow> bytes"
    and ok :: "'s \<Rightarrow> bool"
    and work :: "'s \<Rightarrow> nat"
  assumes read_content:
    "ok s \<Longrightarrow> 0 < n \<Longrightarrow> content s \<noteq> [] \<Longrightarrow>
       \<exists>bs s'. rd s n = Some (bs, None, s') \<and> content s = bs @ content s' \<and>
         length bs \<le> n \<and> ok s' \<and> work s' < work s"
begin

lemma read_loop_content:
  assumes "ok s" "least \<le> length acc + length (content s)" "least \<le> cap"
  shows "\<exists>bs s'. read_loop rd s least cap acc = Some (acc @ bs, None, s') \<and>
           content s = bs @ content s' \<and> ok s' \<and> least \<le> length (acc @ bs) \<and>
           (length acc \<le> cap \<longrightarrow> length (acc @ bs) \<le> cap)"
  using assms
proof (induction "work s" arbitrary: s acc rule: less_induct)
  case less
  show ?case
  proof (cases "length acc < least")
    case False
    then show ?thesis using less.prems by (subst read_loop.simps) auto
  next
    case True
    with less.prems have "0 < cap - length acc" "content s \<noteq> []" by auto
    with read_content [OF less.prems(1)] obtain bs s' where r:
      "rd s (cap - length acc) = Some (bs, None, s')" "content s = bs @ content s'"
      "length bs \<le> cap - length acc" "ok s'" "work s' < work s" by blast
    with less.prems have "least \<le> length (acc @ bs) + length (content s')" by simp
    from less.hyps [OF r(5) r(4) this less.prems(3)] obtain bs2 s2 where
      "read_loop rd s' least cap (acc @ bs) = Some ((acc @ bs) @ bs2, None, s2)"
      "content s' = bs2 @ content s2" "ok s2" "least \<le> length ((acc @ bs) @ bs2)"
      "length (acc @ bs) \<le> cap \<longrightarrow> length ((acc @ bs) @ bs2) \<le> cap" by blast
    with r True less.prems(3) show ?thesis by (subst read_loop.simps) auto
  qed
qed

text \<open>\<open>io.ReadFull\<close> of \<open>k\<close> bytes returns exactly the next \<open>k\<close> bytes of the content.\<close>

lemma read_full_content:
  assumes "ok s" "k \<le> length (content s)"
  shows "\<exists>s'. read_full rd s k = Some (take k (content s), None, s') \<and>
           content s' = drop k (content s) \<and> ok s'"
proof -
  from read_loop_content [OF assms(1), of k "[]" k] assms(2) obtain bs s' where
    "read_loop rd s k k [] = Some (bs, None, s')" "content s = bs @ content s'" "ok s'"
    "k \<le> length bs" "length bs \<le> k" by auto
  then show ?thesis by (simp add: read_full_def read_at_least_def)
qed

lemma read_full_append:
  assumes "ok s" "content s = xs @ ys"
  shows "\<exists>s'. read_full rd s (length xs) = Some (xs, None, s') \<and> content s' = ys \<and> ok s'"
  using read_full_content [OF assms(1), of "length xs"] assms(2) by simp

text \<open>A \<open>bufio.Reader\<close> on the stream holds its buffer and whatever the stream still has.\<close>

definition buf_content :: "'s bufrd \<Rightarrow> bytes" where
  "buf_content b = b_buf b @ content (b_src b)"

definition buf_ok :: "'s bufrd \<Rightarrow> bool" where
  "buf_ok b \<longleftrightarrow> ok (b_src b) \<and> b_err b = None \<and> length (b_buf b) \<le> bufio_size"

definition buf_work :: "'s bufrd \<Rightarrow> nat" where
  "buf_work b = work (b_src b) * 5000 + length (b_buf b)"

text \<open>A buffered reader keeps the contract of the stream it reads from.\<close>

lemma buffered: "byte_stream (bufio_read rd) buf_content buf_ok buf_work"
proof unfold_locales
  fix b and n :: nat
  assume h: "buf_ok b" "0 < n" "buf_content b \<noteq> []"
  show "\<exists>bs b'. bufio_read rd b n = Some (bs, None, b') \<and> buf_content b = bs @ buf_content b' \<and>
      length bs \<le> n \<and> buf_ok b' \<and> buf_work b' < buf_work b"
  proof (cases "b_buf b = []")
    case False
    with h show ?thesis by (auto simp: bufio_read_def buf_content_def buf_ok_def buf_work_def)
  next
    case True
    define m where "m = (if bufio_size \<le> n then n else bufio_size)"
    have "0 < m" using h(2) by (simp add: m_def)
    with h True read_content [of "b_src b" m] obtain bs s' where r:
      "rd (b_src b) m = Some (bs, None, s')" "content (b_src b) = bs @ content s'"
      "length bs \<le> m" "ok s'" "work s' < work (b_src b)"
      by (auto simp: buf_content_def buf_ok_def)
    show ?thesis
    proof (cases "bufio_size \<le> n")
      case True
      with h r \<open>b_buf b = []\<close> show ?thesis
        by (auto simp: bufio_read_def buf_content_def buf_ok_def buf_work_def m_def)
    next
      case False
      from r(5) have "work s' * 5000 + 5000 \<le> work (b_src b) * 5000" by linarith
      with False h r \<open>b_buf b = []\<close> show ?thesis
        by (auto simp: bufio_read_def buf_content_def buf_ok_def buf_work_def m_def bufio_size_def)
    qed
  qed
qed

end

text \<open>
  A live stream delivers at least one byte per successful read; then filling a buffered reader
  takes one read, and reading a line delivers the line.
\<close>

locale live_stream = byte_stream +
  assumes read_nonempty:
    "ok s \<Longrightarrow> 0 < n \<Longrightarrow> content s \<noteq> [] \<Longrightarrow> rd s n = Some (bs, e, s') \<Longrightarrow> bs \<noteq> []"
begin

lemma fill_content:
  assumes "buf_ok b" "length (b_buf b) < bufio_size" "content (b_src b) \<noteq> []"
  shows "\<exists>b'. bufio_fill 100 rd b = Some b' \<and> buf_content b' = buf_content b \<and> buf_ok b' \<and>
           work (b_src b') < work (b_src b)"
proof -
  have n: "0 < bufio_size - length (b_buf b)" using assms(2) by simp
  from assms read_content [OF _ n, of "b_src b"] obtain bs s' where r:
    "rd (b_src b) (bufio_size - length (b_buf b)) = Some (bs, None, s')"
    "content (b_src b) = bs @ content s'" "length bs \<le> bufio_size - length (b_buf b)" "ok s'"
    "work s' < work (b_src b)" by (auto simp: buf_ok_def)
  have "bs \<noteq> []" using read_nonempty [OF _ n _ r(1)] assms by (simp add: buf_ok_def)
  moreover have hundred: "(100 :: nat) = Suc 99" by simp
  ultimately have "bufio_fill 100 rd b = Some (b\<lparr>b_src := s', b_buf := b_buf b @ bs\<rparr>)"
    unfolding hundred bufio_fill.simps using r by (simp add: Let_def)
  with r assms show ?thesis by (auto simp: buf_content_def buf_ok_def)
qed

lemma read_string_content:
  assumes "buf_ok b" "buf_content b = l @ newline # rest" "newline \<notin> set l"
  shows "\<exists>b'. read_string rd b acc = Some (acc @ l @ [newline], None, b') \<and>
           buf_content b' = rest \<and> buf_ok b'"
  using assms
proof (induction "work (b_src b) * 2 + (if bufio_size \<le> length (b_buf b) then 1 else 0)"
    arbitrary: b l acc rule: less_induct)
  case less
  show ?case
  proof (cases "newline \<in> set (b_buf b)")
    case True
    then obtain l1 l2 where l: "b_buf b = l1 @ newline # l2" "newline \<notin> set l1"
      by (meson split_list_first)
    with less.prems(2,3) have "l1 = l" "l2 @ content (b_src b) = rest"
      by (auto simp: buf_content_def append_eq_append_conv2 append_eq_Cons_conv Cons_eq_append_conv)
    moreover from l(2) have "\<And>x. x \<in> set l1 \<Longrightarrow> x \<noteq> newline" by blast
    with l(1) have "takeWhile (\<lambda>c. c \<noteq> newline) (b_buf b) = l1" by simp
    ultimately show ?thesis using True l less.prems(1)
      by (subst read_string.simps) (auto simp: buf_content_def buf_ok_def)
  next
    case False
    have noerr: "b_err b = None" using less.prems(1) by (simp add: buf_ok_def)
    from False less.prems(2,3) obtain l' where l': "l = b_buf b @ l'"
      "content (b_src b) = l' @ newline # rest"
      by (auto simp: buf_content_def append_eq_append_conv2 Cons_eq_append_conv append_eq_Cons_conv)
    show ?thesis
    proof (cases "bufio_size \<le> length (b_buf b)")
      case True
      define b0 where "b0 = b\<lparr>b_buf := []\<rparr>"
      have "buf_ok b0" "buf_content b0 = l' @ newline # rest" "newline \<notin> set l'"
        "work (b_src b0) * 2 + (if bufio_size \<le> length (b_buf b0) then 1 else 0) <
         work (b_src b) * 2 + (if bufio_size \<le> length (b_buf b) then 1 else 0)"
        using less.prems l' True by (auto simp: b0_def buf_ok_def buf_content_def bufio_size_def)
      from less.hyps [OF this(4) this(1-3), of "acc @ b_buf b"] False noerr True l'(1)
      show ?thesis by (subst read_string.simps) (auto simp: b0_def)
    next
      case small: False
      with less.prems(1) l'(2) fill_content [of b] obtain b' where b':
        "bufio_fill 100 rd b = Some b'" "buf_content b' = buf_content b" "buf_ok b'"
        "work (b_src b') < work (b_src b)" by auto
      then have "work (b_src b') * 2 + (if bufio_size \<le> length (b_buf b') then 1 else 0) <
         work (b_src b) * 2 + (if bufio_size \<le> length (b_buf b) then 1 else 0)" by auto
      from less.hyps [OF this b'(3) _ less.prems(3), of acc] b' less.prems(2) False noerr small
      show ?thesis by (subst read_string.simps) simp
    qed
  qed
qed

lemma read_line_content:
  assumes "ok s" "content s = l @ newline # rest" "newline \<notin> set l"
  shows "\<exists>b'. read_line rd (new_bufrd s) = Some (l @ [newline], None, b') \<and>
           b_buf b' @ content (b_src b') = rest \<and> buf_ok b'"
  using read_string_content [of "new_bufrd s" l rest "[]"] assms
  by (simp add: read_line_def buf_content_def buf_ok_def new_bufrd_def)

end

text \<open>
  The wire keeps the contract: its content is what its segments concatenate to. The number of
  bytes and segments left bounds the number of reads.
\<close>

definition wire_content :: "wire \<Rightarrow> bytes" where
  "wire_content w = concat (rx w)"

definition wire_ok :: "wire \<Rightarrow> bool" where
  "wire_ok w \<longleftrightarrow> \<not> closed w"

definition wire_work :: "wire \<Rightarrow> nat" where
  "wire_work w = length (concat (rx w)) + length (rx w)"

interpretation wirestream: byte_stream wire_read wire_content wire_ok wire_work
proof unfold_locales
  fix w :: wire and n :: nat
  assume h: "wire_ok w" "0 < n" "wire_content w \<noteq> []"
  then obtain seg segs where "rx w = seg # segs"
    by (cases "rx w") (auto simp: wire_content_def)
  with h show "\<exists>bs s'. wire_read w n = Some (bs, None, s') \<and>
      wire_content w = bs @ wire_content s' \<and> length bs \<le> n \<and> wire_ok s' \<and>
      wire_work s' < wire_work w"
    by (auto simp: wire_read_def wire_content_def wire_ok_def wire_work_def)
qed

definition wire_live :: "wire \<Rightarrow> bool" where
  "wire_live w \<longleftrightarrow> \<not> closed w \<and> [] \<notin> set (rx w)"

interpretation net: live_stream wire_read wire_content wire_live wire_work
proof unfold_locales
  fix w :: wire and n :: nat
  assume h: "wire_live w" "0 < n" "wire_content w \<noteq> []"
  then obtain seg segs where rx: "rx w = seg # segs"
    by (cases "rx w") (auto simp: wire_content_def)
  have "[] \<notin> set (drop n seg # segs)" if "\<not> length seg \<le> n"
    using that h rx by (auto simp: wire_live_def)
  with h rx show "\<exists>bs s'. wire_read w n = Some (bs, None, s') \<and>
      wire_content w = bs @ wire_content s' \<and> length bs \<le> n \<and> wire_live s' \<and>
      wire_work s' < wire_work w"
    by (auto simp: wire_read_def wire_content_def wire_live_def wire_work_def)
next
  fix w :: wire and n bs e s'
  assume "wire_live w" "0 < n" "wire_content w \<noteq> []" "wire_read w n = Some (bs, e, s')"
  then show "bs \<noteq> []"
    by (auto simp: wire_read_def wire_live_def wire_content_def split: list.splits)
qed

section \<open>The contract of a writable stream\<close>

text \<open>The results of a sequence of writes, and the state after them.\<close>

fun send_all :: "'s writer \<Rightarrow> 's \<Rightarrow> bytes list \<Rightarrow> (nat \<times> err option) list \<times> 's" where
  "send_all wr s [] = ([], s)"
| "send_all wr s (m # ms) =
     (case wr s m of (n, e, s1) \<Rightarrow>
        case send_all wr s1 ms of (rs, s2) \<Rightarrow> ((n, e) # rs, s2))"

text \<open>
  A sink accepts every write in full and appends it to what was sent; the sessions refine their
  own writes to it.
\<close>

locale byte_sink =
  fixes wr :: "'s writer"
    and sent :: "'s \<Rightarrow> bytes"
    and up :: "'s \<Rightarrow> bool"
  assumes write_sent:
    "up s \<Longrightarrow> \<exists>s'. wr s bs = (length bs, None, s') \<and> sent s' = sent s @ bs \<and> up s'"
begin

lemma sent_send_all:
  "up s \<Longrightarrow> send_all wr s ms = (rs, s') \<Longrightarrow>
     rs = map (\<lambda>m. (length m, None)) ms \<and> sent s' = sent s @ concat ms \<and> up s'"
proof (induction ms arbitrary: s rs)
  case Nil
  then show ?case by simp
next
  case (Cons m ms)
  from write_sent [OF Cons.prems(1)] obtain s1 where
    s1: "wr s m = (length m, None, s1)" "sent s1 = sent s @ m" "up s1" by blast
  obtain rs1 where "send_all wr s1 ms = (rs1, s')" "rs = (length m, None) # rs1"
    using Cons.prems(2) s1(1) by (auto split: prod.splits)
  with Cons.IH [OF s1(3)] s1(2) show ?case by simp
qed

end

definition wire_up :: "wire \<Rightarrow> bool" where
  "wire_up w \<longleftrightarrow> \<not> closed w \<and> tx_room w = None"

interpretation wiresink: byte_sink wire_write tx wire_up
  by unfold_locales (auto simp: wire_write_def wire_up_def)

section \<open>Evaluation of concrete runs\<close>

lemmas read_loop_unfold = read_loop.simps
lemmas read_string_unfold = read_string.simps

lemma bufio_fill_numeral [io_simps]:
  "bufio_fill (numeral k) rd b =
     (case rd (b_src b) (bufio_size - length (b_buf b)) of
        None \<Rightarrow> None
      | Some (bs, e, s') \<Rightarrow>
          let b' = b\<lparr>b_src := s', b_buf := b_buf b @ bs\<rparr>
          in case e of
               Some x \<Rightarrow> Some (b'\<lparr>b_err := Some x\<rparr>)
             | None \<Rightarrow> if bs \<noteq> [] then Some b' else bufio_fill (pred_numeral k) rd b')"
  unfolding numeral_eq_Suc by (rule bufio_fill.simps)

declare wire_read_def [io_simps]
declare wire_write_def [io_simps]
declare wire_close_def [io_simps]
declare wire_of_def [io_simps]
declare read_full_def [io_simps]
declare read_at_least_def [io_simps]
declare read_line_def [io_simps]
declare read_byte_def [io_simps]
declare take_byte_def [io_simps]
declare bufio_read_def [io_simps]
declare new_bufrd_def [io_simps]
declare bufio_size_def [io_simps]
declare copy_round_def [io_simps]
declare copy_buf_size_def [io_simps]
declare at_least_err_def [io_simps]

end
