(* ===== verification/Framing.thy ===== *)
theory Framing
  imports GoIO
begin

text \<open>
  What the framed sessions of the repository share: the source of random numbers, the abstract
  view of a sequence of frames, and the contract of a session that hands out the payloads of the
  frames it reads from an underlying stream.

  \<open>framed_session\<close> asks two things of a session's \<open>Read\<close>: bytes left over from the last frame
  are delivered first, and otherwise the next frame is taken off the stream and delivered. From
  these it follows once and for all that the session is itself a readable stream whose content is
  the concatenation of the payloads.
\<close>

section \<open>Random numbers\<close>

text \<open>
  A \<open>rand.Rand\<close> is the sequence of values it will draw. Every sequence of results of \<open>Intn\<close> is
  that of some source.
\<close>

record rng =
  rng_src :: "nat \<Rightarrow> nat"
  rng_pos :: nat

definition intn :: "nat \<Rightarrow> rng \<Rightarrow> nat \<times> rng" where
  "intn n g = (rng_src g (rng_pos g) mod n, g\<lparr>rng_pos := Suc (rng_pos g)\<rparr>)"

fun rand_bytes :: "nat \<Rightarrow> rng \<Rightarrow> bytes \<times> rng" where
  "rand_bytes 0 g = ([], g)"
| "rand_bytes (Suc k) g =
     (case intn 256 g of (b, g1) \<Rightarrow> (case rand_bytes k g1 of (bs, g2) \<Rightarrow> (char_of b # bs, g2)))"

definition rng_of :: "(nat \<Rightarrow> nat) \<Rightarrow> rng" where
  "rng_of f = \<lparr>rng_src = f, rng_pos = 0\<rparr>"

lemma intn_less: "0 < n \<Longrightarrow> fst (intn n g) < n"
  by (simp add: intn_def)

lemma length_rand_bytes [simp]: "length (fst (rand_bytes k g)) = k"
  by (induction k arbitrary: g) (simp_all split: prod.splits add: prod_eq_iff)

section \<open>Sequences of frames\<close>

text \<open>
  A splitter takes the first frame off a byte string: its payload and the bytes behind it.
  \<open>deframe\<close> is the concatenation of all payloads, \<open>framed\<close> says that the string consists of
  complete frames.
\<close>

type_synonym splitter = "bytes \<Rightarrow> (bytes \<times> bytes) option"

function deframe :: "splitter \<Rightarrow> bytes \<Rightarrow> bytes" where
  "deframe sp bs =
     (case sp bs of None \<Rightarrow> []
      | Some (p, r) \<Rightarrow> if length r < length bs then p @ deframe sp r else [])"
  by pat_completeness auto
termination
  by (relation "measure (\<lambda>(sp, bs). length bs)") auto

declare deframe.simps [simp del]

lemma deframe_None: "sp bs = None \<Longrightarrow> deframe sp bs = []"
  by (simp add: deframe.simps)

lemma deframe_Some: "sp bs = Some (p, r) \<Longrightarrow> length r < length bs \<Longrightarrow> deframe sp bs = p @ deframe sp r"
  by (subst deframe.simps) simp

text \<open>
  \<open>frame_of sp p f\<close>: in front of any other bytes, the bytes \<open>f\<close> contribute the payload \<open>p\<close>. One
  complete frame does; so does a frame the reader skips, with the empty payload.
\<close>

definition frame_of :: "splitter \<Rightarrow> bytes \<Rightarrow> bytes \<Rightarrow> bool" where
  "frame_of sp p f \<longleftrightarrow> (\<forall>r. deframe sp (f @ r) = p @ deframe sp r)"

lemma frame_of_deframe: "frame_of sp p f \<Longrightarrow> deframe sp (f @ r) = p @ deframe sp r"
  by (simp add: frame_of_def)

lemma frame_ofI: "f \<noteq> [] \<Longrightarrow> (\<And>r. sp (f @ r) = Some (p, r)) \<Longrightarrow> frame_of sp p f"
  by (simp add: frame_of_def deframe_Some)

lemma frame_of_append: "frame_of sp p f \<Longrightarrow> frame_of sp q g \<Longrightarrow> frame_of sp (p @ q) (f @ g)"
  by (simp add: frame_of_def)

lemma deframe_frames:
  "list_all2 (frame_of sp) ps fs \<Longrightarrow> deframe sp (concat fs @ r) = concat ps @ deframe sp r"
  by (induction ps fs rule: list_all2_induct) (simp_all add: frame_of_deframe)

section \<open>The contract of a framed session\<close>

locale framed_session = byte_stream rd content ok work
  for rd :: "'s reader"
    and content :: "'s \<Rightarrow> bytes"
    and ok :: "'s \<Rightarrow> bool"
    and work :: "'s \<Rightarrow> nat" +
  fixes session_read :: "('c \<times> 's) reader"
    and buffered :: "'c \<Rightarrow> bytes"
    and good :: "'c \<Rightarrow> bool"
    and split :: splitter
  assumes split_shrinks: "split bs = Some (p, r) \<Longrightarrow> length p + length r < length bs"
    and read_buffered:
      "good c \<Longrightarrow> buffered c \<noteq> [] \<Longrightarrow>
         \<exists>c'. session_read (c, s) n = Some (take n (buffered c), None, (c', s)) \<and>
           good c' \<and> buffered c' = drop n (buffered c)"
    and read_frame:
      "good c \<Longrightarrow> ok s \<Longrightarrow> buffered c = [] \<Longrightarrow> split (content s) = Some (p, r) \<Longrightarrow>
         \<exists>c' s'. session_read (c, s) n = Some (take n p, None, (c', s')) \<and>
           good c' \<and> buffered c' = drop n p \<and> ok s' \<and> content s' = r"
begin

definition payload :: "'c \<times> 's \<Rightarrow> bytes" where
  "payload = (\<lambda>(c, s). buffered c @ deframe split (content s))"

definition session_ok :: "'c \<times> 's \<Rightarrow> bool" where
  "session_ok = (\<lambda>(c, s). good c \<and> ok s)"

definition session_work :: "'c \<times> 's \<Rightarrow> nat" where
  "session_work = (\<lambda>(c, s). length (buffered c) + length (content s))"

lemma session_stream: "byte_stream session_read payload session_ok session_work"
proof unfold_locales
  fix cs :: "'c \<times> 's" and n :: nat
  obtain c s where cs: "cs = (c, s)" by (cases cs)
  assume h: "session_ok cs" "0 < n" "payload cs \<noteq> []"
  then have g: "good c" "ok s" by (simp_all add: session_ok_def cs)
  show "\<exists>bs s'. session_read cs n = Some (bs, None, s') \<and> payload cs = bs @ payload s' \<and>
      length bs \<le> n \<and> session_ok s' \<and> session_work s' < session_work cs"
  proof (cases "buffered c = []")
    case False
    from read_buffered [OF g(1) False] obtain c' where
      "session_read (c, s) n = Some (take n (buffered c), None, (c', s))" "good c'"
      "buffered c' = drop n (buffered c)" by blast
    with g h(2) False show ?thesis
      by (auto simp: cs payload_def session_ok_def session_work_def)
  next
    case True
    with h(3) have "deframe split (content s) \<noteq> []" by (simp add: payload_def cs)
    then obtain p r where sp: "split (content s) = Some (p, r)"
      by (cases "split (content s)") (auto simp: deframe_None)
    note shr = split_shrinks [OF sp]
    from read_frame [OF g True sp] obtain c' s' where
      "session_read (c, s) n = Some (take n p, None, (c', s'))" "good c'"
      "buffered c' = drop n p" "ok s'" "content s' = r" by blast
    moreover have "deframe split (content s) = p @ deframe split r"
      using deframe_Some [of split, OF sp] shr by simp
    moreover have "length (drop n p) + length r < length (content s)" using shr by simp
    ultimately show ?thesis using True
      by (auto simp: cs payload_def session_ok_def session_work_def)
  qed
qed

text \<open>
  When the stream carries the frames of the messages \<open>ps\<close>, in whatever segments, reading \<open>k\<close>
  bytes through the session gives the first \<open>k\<close> bytes of the concatenated messages.
\<close>

lemma read_messages:
  assumes "good c" "ok s" "buffered c = []" "content s = concat fs"
    and "list_all2 (frame_of split) ps fs" and "k \<le> length (concat ps)"
  shows "\<exists>cs'. read_full session_read (c, s) k = Some (take k (concat ps), None, cs') \<and>
           payload cs' = drop k (concat ps) @ deframe split [] \<and> session_ok cs'"
proof -
  have pl: "payload (c, s) = concat ps @ deframe split []"
    using deframe_frames [OF assms(5), of "[]"] assms(3,4) by (simp add: payload_def)
  have so: "session_ok (c, s)" using assms by (simp add: session_ok_def)
  have "k \<le> length (payload (c, s))" using assms(6) pl by simp
  from byte_stream.read_full_content [OF session_stream so this] pl assms(6) show ?thesis by auto
qed

end

text \<open>
  The writing side: a session that turns every acceptable message into one frame on a sink. The
  configuration \<open>c\<close> of the session may change from write to write as long as it stays \<open>fit\<close>.
\<close>

locale framing_writer = byte_sink wr sent up
  for wr :: "'s writer" and sent :: "'s \<Rightarrow> bytes" and up :: "'s \<Rightarrow> bool" +
  fixes session_write :: "('c \<times> 's) writer"
    and fit :: "'c \<Rightarrow> bool"
    and fits :: "bytes \<Rightarrow> bool"
    and split :: splitter
  assumes write_frame:
    "up s \<Longrightarrow> fit c \<Longrightarrow> fits p \<Longrightarrow>
       \<exists>f c' s'. session_write (c, s) p = (length p, None, (c', s')) \<and> frame_of split p f \<and>
         sent s' = sent s @ f \<and> up s' \<and> fit c'"
begin

lemma send_all_frames:
  assumes "up s" "fit c" "list_all fits ms" "send_all session_write (c, s) ms = (rs, (c', s'))"
  shows "rs = map (\<lambda>m. (length m, None)) ms \<and>
    (\<exists>fs. list_all2 (frame_of split) ms fs \<and> sent s' = sent s @ concat fs)"
  using assms
proof (induction ms arbitrary: c s rs)
  case Nil
  then show ?case by (auto intro: exI [of _ "[]"])
next
  case (Cons m ms)
  from write_frame [OF Cons.prems(1,2), of m] Cons.prems(3) obtain f c1 s1 where
    w: "session_write (c, s) m = (length m, None, (c1, s1))" "frame_of split m f"
    "sent s1 = sent s @ f" "up s1" "fit c1" by auto
  with Cons.prems(4) obtain rs1 where
    r: "send_all session_write (c1, s1) ms = (rs1, (c', s'))" "rs = (length m, None) # rs1"
    by (auto split: prod.splits)
  from Cons.IH [OF w(4,5) _ r(1)] Cons.prems(3) obtain fs where
    "rs1 = map (\<lambda>m. (length m, None)) ms" "list_all2 (frame_of split) ms fs"
    "sent s' = sent s1 @ concat fs" by auto
  with w r(2) show ?case by (intro conjI exI [of _ "f # fs"]) auto
qed

end

section \<open>Evaluation of concrete runs\<close>

declare intn_def [io_simps]
declare rng_of_def [io_simps]

end
