(* ===== verification/Padding.thy ===== *)
theory Padding
  imports Framing
begin

text \<open>
  \<open>hypernet/core/network/obfuscate\<close>: the padding and delay wrappers around a stream
  (\<open>padding.go\<close>, \<open>delay.go\<close>) and the rotation of browser fingerprints (\<open>utls.go\<close>).

  \<open>PaddingConn\<close> turns every \<open>Write\<close> into a frame of payload and random padding; \<open>Read\<close> strips
  the padding. The wrapper is polymorphic in the stream below it. It is interpreted as a framed
  session, which gives the round trip over a network that cuts the bytes arbitrarily.
\<close>

section \<open>PaddingConn\<close>

record padding =
  PaddingMin :: int
  PaddingMax :: int
  pad_rng :: rng
  readBuf :: bytes
  readOff :: nat

definition new_padding :: "int \<Rightarrow> int \<Rightarrow> rng \<Rightarrow> padding" where
  "new_padding pmin pmax g =
     (let (pmin, pmax) = (if pmax \<le> 0 then (0, 0) else (pmin, pmax));
          pmin = (if pmin > pmax then pmax else pmin)
      in \<lparr>PaddingMin = pmin, PaddingMax = pmax, pad_rng = g, readBuf = [], readOff = 0\<rparr>)"

definition max_padding_bytes :: int where
  "max_padding_bytes = 512"

definition next_padding_len :: "padding \<Rightarrow> nat \<times> padding" where
  "next_padding_len c =
     (if PaddingMax c \<le> 0 then (0, c)
      else let lo = (if PaddingMin c < 0 then 0 else PaddingMin c);
               hi = (if PaddingMax c > max_padding_bytes then max_padding_bytes else PaddingMax c)
        in if lo \<ge> hi then (nat lo, c)
           else case intn (nat (hi - lo + 1)) (pad_rng c) of
             (x, g) \<Rightarrow> (nat lo + x, c\<lparr>pad_rng := g\<rparr>))"

definition padding_write ::
  "'s writer \<Rightarrow> padding \<times> 's \<Rightarrow> bytes \<Rightarrow> nat \<times> err option \<times> padding \<times> 's"
where
  "padding_write wr cs p =
     (case cs of (c, s) \<Rightarrow>
        case next_padding_len c of (padLen, c1) \<Rightarrow>
          if PaddingMax c \<le> 0 \<or> length p > 0xffff
          then (case wr s p of (_, e, s') \<Rightarrow> (length p, e, c1, s'))
          else case rand_bytes padLen (pad_rng c1) of (pad, g) \<Rightarrow>
            let buf = put_u16 (length p) @ p @ put_u16 padLen @ pad; c2 = c1\<lparr>pad_rng := g\<rparr>
            in case wr s buf of (_, e, s') \<Rightarrow>
                 if e \<noteq> None then (0, e, c2, s') else (length p, None, c2, s'))"

text \<open>The padding behind a payload: its length and, errors ignored, its bytes.\<close>

definition skip_padding :: "'s reader \<Rightarrow> 's \<Rightarrow> (err option \<times> 's) option" where
  "skip_padding rd s =
     (case read_full rd s 2 of
        None \<Rightarrow> None
      | Some (_, Some e, s1) \<Rightarrow> Some (Some e, s1)
      | Some (hdr, None, s1) \<Rightarrow>
          if be_get hdr > 0 then
            (case read_full rd s1 (be_get hdr) of
               None \<Rightarrow> None
             | Some (_, _, s2) \<Rightarrow> Some (None, s2))
          else Some (None, s1))"

text \<open>
  When the payload cannot be read in full, the buffer already allocated for it stays in place:
  the bytes that did arrive, followed by zeros.
\<close>

definition padding_read :: "'s reader \<Rightarrow> (padding \<times> 's) reader" where
  "padding_read rd cs n =
     (case cs of (c, s) \<Rightarrow>
      if PaddingMax c \<le> 0 then
        (case rd s n of None \<Rightarrow> None | Some (bs, e, s') \<Rightarrow> Some (bs, e, (c, s')))
      else if readOff c < length (readBuf c) then
        (let out = take n (drop (readOff c) (readBuf c));
             off = readOff c + length out;
             c' = (if off \<ge> length (readBuf c) then c\<lparr>readBuf := [], readOff := 0\<rparr>
                   else c\<lparr>readOff := off\<rparr>)
         in Some (out, None, (c', s)))
      else case read_full rd s 2 of
        None \<Rightarrow> None
      | Some (_, Some e, s1) \<Rightarrow> Some ([], Some e, (c, s1))
      | Some (hdr, None, s1) \<Rightarrow>
          if be_get hdr = 0 then
            (case skip_padding rd s1 of
               None \<Rightarrow> None
             | Some (e, s2) \<Rightarrow> Some ([], e, (c, s2)))
          else (case read_full rd s1 (be_get hdr) of
            None \<Rightarrow> None
          | Some (got, Some e, s2) \<Rightarrow>
              Some ([], Some e,
                (c\<lparr>readBuf := got @ replicate (be_get hdr - length got) (CHR 0x00)\<rparr>, s2))
          | Some (pl, None, s2) \<Rightarrow>
              (case skip_padding rd s2 of
                 None \<Rightarrow> None
               | Some (Some e, s3) \<Rightarrow> Some ([], Some e, (c\<lparr>readBuf := pl\<rparr>, s3))
               | Some (None, s3) \<Rightarrow>
                   Some (take n pl, None, (c\<lparr>readBuf := drop n pl, readOff := 0\<rparr>, s3)))))"

section \<open>DelayConn\<close>

text \<open>\<open>slept\<close> records the sleeps, in nanoseconds; the wrapper changes nothing else.\<close>

record delay =
  DelayMin :: int
  DelayMax :: int
  delay_rng :: rng
  slept :: "int list"

definition new_delay :: "int \<Rightarrow> int \<Rightarrow> rng \<Rightarrow> delay" where
  "new_delay dmin dmax g =
     (let (dmin, dmax) = (if dmax \<le> 0 then (0, 0) else (dmin, dmax));
          dmin = (if dmin > dmax then dmax else dmin)
      in \<lparr>DelayMin = dmin, DelayMax = dmax, delay_rng = g, slept = []\<rparr>)"

definition delay_write ::
  "'s writer \<Rightarrow> delay \<times> 's \<Rightarrow> bytes \<Rightarrow> nat \<times> err option \<times> delay \<times> 's"
where
  "delay_write wr cs p =
     (case cs of (c, s) \<Rightarrow>
        let c1 =
          (if DelayMax c > 0 then
             let (d, g) =
               (if DelayMax c > DelayMin c
                then case intn (nat (DelayMax c - DelayMin c + 1)) (delay_rng c) of
                  (x, g) \<Rightarrow> (DelayMin c + int x, g)
                else (DelayMin c, delay_rng c))
             in c\<lparr>delay_rng := g, slept := (if d > 0 then slept c @ [d] else slept c)\<rparr>
           else c)
        in case wr s p of (n, e, s') \<Rightarrow> (n, e, c1, s'))"

definition delay_read :: "'s reader \<Rightarrow> (delay \<times> 's) reader" where
  "delay_read rd cs n =
     (case cs of (c, s) \<Rightarrow>
        case rd s n of None \<Rightarrow> None | Some (bs, e, s') \<Rightarrow> Some (bs, e, (c, s')))"

section \<open>Browser fingerprints\<close>

datatype hello_id = HelloChrome_Auto | HelloFirefox_Auto | HelloIOS_Auto

definition browserClientHelloIDs :: "hello_id list" where
  "browserClientHelloIDs = [HelloChrome_Auto, HelloFirefox_Auto, HelloIOS_Auto]"

text \<open>The counter \<open>randFingerIndex\<close> is the state.\<close>

definition RandomClientHelloID :: "nat \<Rightarrow> hello_id \<times> nat" where
  "RandomClientHelloID idx =
     (browserClientHelloIDs ! (idx mod length browserClientHelloIDs), Suc idx)"

section \<open>The frames\<close>

definition pad_frame :: "bytes \<Rightarrow> bytes \<Rightarrow> bytes" where
  "pad_frame p pad = put_u16 (length p) @ p @ put_u16 (length pad) @ pad"

text \<open>What \<open>Read\<close> takes off a stream of frames.\<close>

definition pad_split :: splitter where
  "pad_split bs =
     (let n = be_get (take 2 bs); r = drop (2 + n) bs; m = be_get (take 2 r)
      in if length bs < 2 + n + 2 + m then None
         else Some (take n (drop 2 bs), drop (2 + m) r))"

lemma pad_split_shrinks: "pad_split bs = Some (p, r) \<Longrightarrow> length p + length r < length bs"
  by (auto simp: pad_split_def Let_def split: if_splits)

lemma pad_split_frame:
  assumes "length p < 65536" "length pad < 65536"
  shows "pad_split (pad_frame p pad @ r) = Some (p, r)"
proof -
  have "take 2 (pad_frame p pad @ r) = put_u16 (length p)"
    "drop (2 + length p) (pad_frame p pad @ r) = put_u16 (length pad) @ pad @ r"
    "drop 2 (pad_frame p pad @ r) = p @ put_u16 (length pad) @ pad @ r"
    by (simp_all add: pad_frame_def)
  with assms show ?thesis by (simp add: pad_split_def Let_def pad_frame_def)
qed

lemma frame_of_pad: "length p < 65536 \<Longrightarrow> length pad < 65536 \<Longrightarrow> frame_of pad_split p (pad_frame p pad)"
  by (rule frame_ofI) (simp_all add: pad_split_frame, simp add: pad_frame_def)

section \<open>PaddingConn is a framed session\<close>

definition pad_buffered :: "padding \<Rightarrow> bytes" where
  "pad_buffered c = drop (readOff c) (readBuf c)"

definition pad_good :: "padding \<Rightarrow> bool" where
  "pad_good c \<longleftrightarrow> 0 < PaddingMax c \<and> (readBuf c = [] \<longrightarrow> readOff c = 0)"

context byte_stream
begin

lemma skip_padding_content:
  assumes "ok s" "content s = put_u16 m @ pad @ r" "length pad = m" "m < 65536"
  shows "\<exists>s'. skip_padding rd s = Some (None, s') \<and> ok s' \<and> content s' = r"
proof -
  from read_full_append [OF assms(1,2)] obtain s1 where s1:
    "read_full rd s 2 = Some (put_u16 m, None, s1)" "content s1 = pad @ r" "ok s1" by auto
  from read_full_append [OF s1(3,2)] obtain s2 where
    "read_full rd s1 m = Some (pad, None, s2)" "content s2 = r" "ok s2" using assms(3) by auto
  with s1 assms show ?thesis by (auto simp: skip_padding_def)
qed

lemma split_two: "2 + n \<le> length bs \<Longrightarrow> bs = take 2 bs @ take n (drop 2 bs) @ drop (2 + n) bs"
  by (metis append_assoc append_take_drop_id take_add)

lemma padding_framed:
  "framed_session rd content ok work (padding_read rd) pad_buffered pad_good pad_split"
proof unfold_locales
  show "pad_split bs = Some (p, r) \<Longrightarrow> length p + length r < length bs" for bs p r
    by (rule pad_split_shrinks)
next
  fix c :: padding and n :: nat and s :: 's
  assume "pad_good c" "pad_buffered c \<noteq> []"
  then show "\<exists>c'. padding_read rd (c, s) n = Some (take n (pad_buffered c), None, (c', s)) \<and>
      pad_good c' \<and> pad_buffered c' = drop n (pad_buffered c)"
    by (auto simp: padding_read_def pad_good_def pad_buffered_def Let_def add.commute
        split: if_splits)
next
  fix c :: padding and s :: 's and n :: nat and p r
  assume h: "pad_good c" "ok s" "pad_buffered c = []" "pad_split (content s) = Some (p, r)"
  define hdr where "hdr = take 2 (content s)"
  define rest where "rest = drop (2 + be_get hdr) (content s)"
  define m where "m = be_get (take 2 rest)"
  from h(4) have len: "2 + be_get hdr + 2 + m \<le> length (content s)"
    and p: "p = take (be_get hdr) (drop 2 (content s))" and r: "r = drop (2 + m) rest"
    by (auto simp: pad_split_def Let_def hdr_def rest_def m_def split: if_splits)
  have cs: "content s = hdr @ p @ rest"
    using split_two [of "be_get hdr" "content s"] len by (simp add: hdr_def p rest_def)
  have rest: "rest = take 2 rest @ take m (drop 2 rest) @ r"
    using split_two [of m rest] len by (simp add: r rest_def)
  have lens: "length hdr = 2" "length p = be_get hdr" "length (take 2 rest) = 2"
    "length (take m (drop 2 rest)) = m"
    using len by (simp_all add: hdr_def p rest_def)
  have m: "m < 65536" using be_get_bound [of "take 2 rest"] lens(3) by (simp add: m_def)
  have "take 2 rest = put_u16 m"
    using be_put_be_get [of "take 2 rest"] lens(3) by (simp add: m_def)
  with rest have rest': "rest = put_u16 m @ take m (drop 2 rest) @ r" by simp
  from read_full_append [OF h(2) cs] lens(1) obtain s1 where s1:
    "read_full rd s 2 = Some (hdr, None, s1)" "content s1 = p @ rest" "ok s1" by auto
  have empty: "\<not> readOff c < length (readBuf c)" "0 < PaddingMax c"
    using h(1,3) by (auto simp: pad_buffered_def pad_good_def)
  show "\<exists>c' s'. padding_read rd (c, s) n = Some (take n p, None, (c', s')) \<and>
      pad_good c' \<and> pad_buffered c' = drop n p \<and> ok s' \<and> content s' = r"
  proof (cases "be_get hdr = 0")
    case True
    with lens(2) s1(2) rest' have c1: "content s1 = put_u16 m @ take m (drop 2 rest) @ r" by simp
    from skip_padding_content [OF s1(3) c1 lens(4) m] obtain s2 where
      "skip_padding rd s1 = Some (None, s2)" "ok s2" "content s2 = r" by blast
    with True s1 empty h lens(2) show ?thesis by (auto simp: padding_read_def)
  next
    case False
    from read_full_append [OF s1(3,2)] lens(2) obtain s2 where s2:
      "read_full rd s1 (be_get hdr) = Some (p, None, s2)" "content s2 = rest" "ok s2" by auto
    from s2(2) rest' have c2: "content s2 = put_u16 m @ take m (drop 2 rest) @ r" by simp
    from skip_padding_content [OF s2(3) c2 lens(4) m] obtain s3 where
      "skip_padding rd s2 = Some (None, s3)" "ok s3" "content s3 = r" by blast
    with False s1 s2 empty show ?thesis
      by (auto simp: padding_read_def pad_good_def pad_buffered_def)
  qed
qed

end

interpretation pad_wire:
  framed_session wire_read wire_content wire_ok wire_work
    "padding_read wire_read" pad_buffered pad_good pad_split
  by (rule wirestream.padding_framed)

section \<open>What PaddingConn writes\<close>

lemma next_padding_len_frame:
  "next_padding_len c = (k, c') \<Longrightarrow>
     PaddingMax c' = PaddingMax c \<and> PaddingMin c' = PaddingMin c \<and>
     readBuf c' = readBuf c \<and> readOff c' = readOff c"
  by (auto simp: next_padding_len_def Let_def split: if_splits prod.splits)

lemma next_padding_len_bound:
  assumes k: "next_padding_len c = (k, c')"
  shows "int k \<le> max max_padding_bytes (PaddingMin c)"
proof -
  define lo where "lo = (if PaddingMin c < 0 then 0 else PaddingMin c)"
  define hi where "hi = (if PaddingMax c > max_padding_bytes then max_padding_bytes else PaddingMax c)"
  have lo: "0 \<le> lo" "lo \<le> max max_padding_bytes (PaddingMin c)"
    by (auto simp: lo_def max_padding_bytes_def)
  have hi: "hi \<le> max_padding_bytes" by (auto simp: hi_def)
  consider "PaddingMax c \<le> 0" | "0 < PaddingMax c" "hi \<le> lo" | "0 < PaddingMax c" "lo < hi"
    by linarith
  then show ?thesis
  proof cases
    case 1
    with k show ?thesis by (simp add: next_padding_len_def max_padding_bytes_def)
  next
    case 2
    with k have "k = nat lo"
      by (simp add: next_padding_len_def Let_def lo_def [symmetric] hi_def [symmetric])
    with lo show ?thesis by simp
  next
    case 3
    obtain x g where x: "intn (nat (hi - lo + 1)) (pad_rng c) = (x, g)" by fastforce
    have "x < nat (hi - lo + 1)" using intn_less [of "nat (hi - lo + 1)" "pad_rng c"] x 3 by simp
    moreover have "k = nat lo + x"
      using k 3 x by (simp add: next_padding_len_def Let_def lo_def [symmetric] hi_def [symmetric])
    ultimately show ?thesis using lo hi by linarith
  qed
qed

definition pad_fit :: "padding \<Rightarrow> bool" where
  "pad_fit c \<longleftrightarrow> 0 < PaddingMax c \<and> PaddingMin c < 65536"

definition fits_u16 :: "bytes \<Rightarrow> bool" where
  "fits_u16 p \<longleftrightarrow> length p < 65536"

context byte_sink
begin

lemma padding_framing:
  "framing_writer wr sent up (padding_write wr) pad_fit fits_u16 pad_split"
proof unfold_locales
  fix s :: 's and c :: padding and p :: bytes
  assume h: "up s" "pad_fit c" "fits_u16 p"
  obtain k c1 where k: "next_padding_len c = (k, c1)" by fastforce
  note kb = next_padding_len_frame [OF k] next_padding_len_bound [OF k]
  obtain pad g where pad: "rand_bytes k (pad_rng c1) = (pad, g)" by fastforce
  then have lp: "length pad = k" using length_rand_bytes [of k "pad_rng c1"] by simp
  have k16: "k < 65536" using kb h(2) by (auto simp: max_padding_bytes_def pad_fit_def)
  from write_sent [OF h(1), of "pad_frame p pad"] obtain s' where
    "wr s (pad_frame p pad) = (length (pad_frame p pad), None, s')"
    "sent s' = sent s @ pad_frame p pad" "up s'" by blast
  with k kb pad lp k16 h frame_of_pad [of p pad]
  show "\<exists>f c' s'. padding_write wr (c, s) p = (length p, None, (c', s')) \<and>
      frame_of pad_split p f \<and> sent s' = sent s @ f \<and> up s' \<and> pad_fit c'"
    by (intro exI [of _ "pad_frame p pad"])
      (auto simp: padding_write_def Let_def pad_frame_def pad_fit_def fits_u16_def)
qed

end

interpretation pad_wire_writer:
  framing_writer wire_write tx wire_up "padding_write wire_write" pad_fit fits_u16 pad_split
  by (rule wiresink.padding_framing)

section \<open>Properties\<close>

text \<open>
  C28: what is written through a \<open>PaddingConn\<close> comes back through a \<open>PaddingConn\<close>. For messages
  of at most 65535 bytes, every \<open>Write\<close> reports the whole message and no error; and when the
  bytes written reach the other side in any segmentation, \<open>io.ReadFull\<close> of any \<open>k\<close> bytes up to
  the total length returns the first \<open>k\<close> bytes of the concatenated messages, with all padding
  removed.
\<close>

theorem padding_roundtrip:
  assumes "0 < PaddingMax cw" "PaddingMin cw < 65536"
    and "0 < PaddingMax cr" "readBuf cr = []" "readOff cr = 0"
    and "\<forall>m\<in>set ms. length m \<le> 0xffff"
    and "\<not> closed w" "tx_room w = None" "tx w = []"
    and "send_all (padding_write wire_write) (cw, w) ms = (rs, (cw', w'))"
    and "concat (rx r) = tx w'" "\<not> closed r"
    and "k \<le> length (concat ms)"
  shows "rs = map (\<lambda>m. (length m, None)) ms \<and>
    (\<exists>st. read_full (padding_read wire_read) (cr, r) k = Some (take k (concat ms), None, st))"
proof -
  have "wire_up w" "pad_fit cw" "list_all fits_u16 ms"
    using assms by (auto simp: wire_up_def pad_fit_def fits_u16_def list_all_iff)
  from pad_wire_writer.send_all_frames [OF this assms(10)] assms(9) obtain fs where
    "rs = map (\<lambda>m. (length m, None)) ms" "list_all2 (frame_of pad_split) ms fs" "tx w' = concat fs"
    by auto
  moreover have "pad_good cr" "wire_ok r" "pad_buffered cr = []"
    using assms by (simp_all add: pad_good_def wire_ok_def pad_buffered_def)
  ultimately show ?thesis
    using pad_wire.read_messages [of cr r fs ms k] assms(11,13) by (auto simp: wire_content_def)
qed

definition wit_pad :: padding where
  "wit_pad = new_padding 1 3 (rng_of (\<lambda>i. i + 5))"

lemma padding_roundtrip_witness:
  "\<exists>rs cw' w' st. send_all (padding_write wire_write) (wit_pad, wire_of [] (Some EOF))
       [''hello'', '''', ''world''] = (rs, (cw', w')) \<and>
     rs = [(5, None), (0, None), (5, None)] \<and>
     read_full (padding_read wire_read)
       (wit_pad, wire_of [take 3 (tx w'), drop 3 (tx w')] (Some EOF)) 10 =
         Some (''helloworld'', None, st)"
proof -
  obtain rs cw' w' where s: "send_all (padding_write wire_write) (wit_pad, wire_of [] (Some EOF))
       [''hello'', '''', ''world''] = (rs, (cw', w'))"
    by (metis prod_cases3)
  have "rs = map (\<lambda>m. (length m, None)) [''hello'', '''', ''world''] \<and>
    (\<exists>st. read_full (padding_read wire_read)
       (wit_pad, wire_of [take 3 (tx w'), drop 3 (tx w')] (Some EOF)) 10 =
       Some (take 10 (concat [''hello'', '''', ''world'']), None, st))"
    by (rule padding_roundtrip [OF _ _ _ _ _ _ _ _ _ s])
      (simp_all add: wit_pad_def new_padding_def wire_of_def)
  with s show ?thesis by auto
qed

text \<open>
  The length of the padding of one frame never exceeds the larger of \<open>MaxPaddingBytes\<close> and
  the configured minimum. The comments promise the bound \<open>MaxPaddingBytes\<close> itself, which a
  minimum above 512 breaks.
\<close>

theorem padding_len_bound:
  "int (fst (next_padding_len c)) \<le> max max_padding_bytes (PaddingMin c) \<and>
   fst (next_padding_len (new_padding 600 700 g)) = 600"
  using next_padding_len_bound [of c]
  by (cases "next_padding_len c")
    (simp add: next_padding_len_def new_padding_def max_padding_bytes_def)

end
