(* ===== verification/ProtoIface.thy ===== *)
theory ProtoIface
  imports GoIO GoStrings
begin

text \<open>
  \<open>hypernet/services/proxy/protoiface\<close>: the data every protocol adapter works with. A value of
  type \<open>any\<close> in \<open>Config.Raw\<close> is a tagged value (of the types the code does not look at, only the
  printed form is kept); a nil map is \<open>None\<close>.

  A protocol works on an \<open>io.ReadWriteCloser\<close>: \<open>rwc\<close> collects the operations of such a stream,
  \<open>s_deadline\<close> being \<open>SetDeadline\<close>, which does nothing on streams that have no such method.
\<close>

datatype any_val = AString string | AInt int | ABool bool | AOther string

record 's rwc =
  s_read :: "'s reader"
  s_write :: "'s writer"
  s_deadline :: "int \<Rightarrow> 's \<Rightarrow> 's"
  s_close :: "'s \<Rightarrow> 's"

definition wire_rwc :: "wire rwc" where
  "wire_rwc =
     \<lparr>s_read = wire_read, s_write = wire_write, s_deadline = (\<lambda>d w. w\<lparr>deadline := Some d\<rparr>),
      s_close = wire_close\<rparr>"

text \<open>\<open>io.WriteString\<close> as the code uses it: only the error and the state matter.\<close>

definition write_string :: "'s rwc \<Rightarrow> 's \<Rightarrow> bytes \<Rightarrow> err option \<times> 's" where
  "write_string io s bs = snd (s_write io s bs)"

lemma write_string_wire [io_simps]:
  "write_string wire_rwc w bs = snd (wire_write w bs)"
  by (simp add: write_string_def wire_rwc_def)

record Features =
  f_transports :: "string list"
  f_mux :: bool
  f_encryption :: string
  f_obfuscation :: bool
  f_description :: string
  f_experimental :: bool

record Config =
  Token :: string
  Timeout :: int
  Transport :: string
  CfgPaddingMin :: int
  CfgPaddingMax :: int
  CfgWriteDelayMin :: int
  CfgWriteDelayMax :: int
  UseUTLS :: bool
  Raw :: "(string \<times> any_val) list option"

text \<open>Reading \<open>cfg.Raw[key]\<close>; a nil map reads like an empty one.\<close>

definition raw_get :: "Config \<Rightarrow> string \<Rightarrow> any_val option" where
  "raw_get cfg key = (case Raw cfg of None \<Rightarrow> None | Some m \<Rightarrow> map_of m key)"

text \<open>\<open>fmt.Sprint\<close> of a map entry.\<close>

definition sprint_any :: "any_val option \<Rightarrow> bytes" where
  "sprint_any v =
     (case v of
        None \<Rightarrow> ''<nil>''
      | Some (AString s) \<Rightarrow> s
      | Some (AInt i) \<Rightarrow> itoa i
      | Some (ABool b) \<Rightarrow> (if b then ''true'' else ''false'')
      | Some (AOther s) \<Rightarrow> s)"

definition role_config :: "string \<Rightarrow> int \<Rightarrow> string \<Rightarrow> Config" where
  "role_config token timeout role =
     \<lparr>Token = token, Timeout = timeout, Transport = '''', CfgPaddingMin = 0, CfgPaddingMax = 0,
      CfgWriteDelayMin = 0, CfgWriteDelayMax = 0, UseUTLS = False,
      Raw = Some [(''role'', AString role)]\<rparr>"

end
