(* ===== verification/Plain.thy ===== *)
theory Plain
  imports Padding ProtoIface GoDuration
begin

text \<open>
  \<open>pkg/protoadapters/plain\<close> (and its identical copy under \<open>hypernet/services/proxy/adapters\<close>):
  the settings of the plain adapter and its obfuscating session, which frames every write with
  random padding and interleaves dummy frames.
\<close>

section \<open>Settings\<close>

record obfs_settings =
  enabled :: bool
  maxPadding :: int
  maxJitter :: int
  dummyMinDelay :: int
  dummyMaxDelay :: int

definition default_obfs_settings :: obfs_settings where
  "default_obfs_settings =
     \<lparr>enabled = True, maxPadding = 64, maxJitter = 10 * Millisecond,
      dummyMinDelay = 500 * Millisecond, dummyMaxDelay = 1500 * Millisecond\<rparr>"

definition no_obfs_settings :: obfs_settings where
  "no_obfs_settings =
     \<lparr>enabled = False, maxPadding = 0, maxJitter = 0, dummyMinDelay = 0, dummyMaxDelay = 0\<rparr>"

definition raw_int :: "Config \<Rightarrow> string \<Rightarrow> int option" where
  "raw_int cfg key = (case raw_get cfg key of Some (AInt v) \<Rightarrow> Some v | _ \<Rightarrow> None)"

text \<open>\<open>time.Duration(v) * time.Millisecond\<close> wraps at 64 bits.\<close>

definition ms_of :: "int \<Rightarrow> int" where
  "ms_of v = wrap64 (v * Millisecond)"

text \<open>The end of \<open>parseObfsSettings\<close>: the two dummy delays, as the configuration gives them.\<close>

definition set_dummy_delays :: "int option \<Rightarrow> int option \<Rightarrow> obfs_settings \<Rightarrow> obfs_settings" where
  "set_dummy_delays minOpt maxOpt s =
     (let minDummy = (case minOpt of Some v \<Rightarrow> if v > 0 then ms_of v else 0 | None \<Rightarrow> 0);
          (s, maxDummy) =
            (case maxOpt of
               Some v \<Rightarrow> if v \<le> 0 then (s\<lparr>dummyMinDelay := 0, dummyMaxDelay := 0\<rparr>, 0)
                         else (s, ms_of v)
             | None \<Rightarrow> (s, 0))
      in if maxDummy > 0 then
           let minDummy = (if minDummy \<le> 0 \<or> minDummy > maxDummy then maxDummy div 2 else minDummy)
           in s\<lparr>dummyMinDelay := minDummy, dummyMaxDelay := maxDummy\<rparr>
         else s)"

definition parse_obfs_settings :: "Config option \<Rightarrow> obfs_settings" where
  "parse_obfs_settings cfg =
     (case cfg of None \<Rightarrow> default_obfs_settings
      | Some cfg \<Rightarrow>
        if Raw cfg = None \<or> Raw cfg = Some [] then default_obfs_settings
        else if raw_get cfg ''obfs_enabled'' = Some (ABool False) then no_obfs_settings
        else
          let s0 = default_obfs_settings;
              s1 = (case raw_int cfg ''obfs_padding_max_bytes'' of
                      Some v \<Rightarrow> if v > 0 then s0\<lparr>maxPadding := v\<rparr> else s0 | None \<Rightarrow> s0);
              s2 = (case raw_int cfg ''obfs_jitter_max_ms'' of
                      Some v \<Rightarrow> if v > 0 then s1\<lparr>maxJitter := ms_of v\<rparr> else s1 | None \<Rightarrow> s1)
          in set_dummy_delays (raw_int cfg ''obfs_dummy_min_ms'')
               (raw_int cfg ''obfs_dummy_max_ms'') s2)"

section \<open>The session\<close>

record obfs_session =
  o_set :: obfs_settings
  o_closed :: bool
  pending :: bytes
  o_rng :: rng

definition new_obfs_session :: "obfs_settings \<Rightarrow> rng \<Rightarrow> obfs_session" where
  "new_obfs_session set0 g = \<lparr>o_set = set0, o_closed = False, pending = [], o_rng = g\<rparr>"

text \<open>
  \<open>Handshake\<close> and \<open>Wrap\<close>: \<open>None\<close> is the stream returned as it is. A session starts its dummy
  traffic when \<open>dummyMaxDelay\<close> is positive.
\<close>

definition plain_handshake :: "Config option \<Rightarrow> rng \<Rightarrow> obfs_session option" where
  "plain_handshake cfg g =
     (let settings = parse_obfs_settings cfg
      in if \<not> enabled settings then None else Some (new_obfs_session settings g))"

definition plain_features :: Features where
  "plain_features =
     \<lparr>f_transports = [''tcp''], f_mux = False, f_encryption = ''none'', f_obfuscation = True,
      f_description = ''plain adapter with optional padding/jitter obfuscation'',
      f_experimental = False\<rparr>"

definition plain_default_config :: Config where
  "plain_default_config =
     \<lparr>Token = '''', Timeout = 5 * Second, Transport = '''', CfgPaddingMin = 0, CfgPaddingMax = 0,
      CfgWriteDelayMin = 0, CfgWriteDelayMax = 0, UseUTLS = False, Raw = Some []\<rparr>"

definition obfs_frame :: "bytes \<Rightarrow> bytes \<Rightarrow> bytes" where
  "obfs_frame p pad = put_u16 (length p) @ put_u16 (length pad) @ p @ pad"

text \<open>\<open>Write\<close>; the draw for the jitter only delays the frame.\<close>

definition obfs_write :: "'s writer \<Rightarrow> (obfs_session \<times> 's) writer" where
  "obfs_write wr cs p =
     (case cs of (c, s) \<Rightarrow>
      if o_closed c then (0, Some ErrClosedPipe, (c, s))
      else
        let p = (if length p > 0xFFFF then take 0xFFFF p else p); userLen = length p;
            (padLen, g1) =
              (if maxPadding (o_set c) > 0 then
                 case intn (nat (maxPadding (o_set c) + 1)) (o_rng c) of
                   (k, g) \<Rightarrow> (if k > 0xFFFF then 0xFFFF else k, g)
               else (0, o_rng c));
            g2 = (if maxJitter (o_set c) > 0 then snd (intn (nat (maxJitter (o_set c))) g1) else g1);
            (pad, g3) = rand_bytes padLen g2;
            frame = put_u16 userLen @ put_u16 padLen @ p @ pad;
            c' = c\<lparr>o_rng := g3\<rparr>
        in case wr s frame of (n, e, s') \<Rightarrow>
             if e \<noteq> None then (0, e, (c', s'))
             else if n < 4 then (0, Some ErrShortWrite, (c', s'))
             else (userLen, None, (c', s')))"

text \<open>The loop of \<open>Read\<close>: the payload of the next frame that has one.\<close>

partial_function (option) obfs_next :: "'s reader \<Rightarrow> 's \<Rightarrow> (bytes \<times> err option \<times> 's) option" where
  "obfs_next rd s =
     (case read_full rd s 4 of
        None \<Rightarrow> None
      | Some (hdr, e, s1) \<Rightarrow>
          if e \<noteq> None then Some ([], e, s1)
          else let userLen = be_get (take 2 hdr); padLen = be_get (drop 2 hdr)
            in if userLen + padLen = 0 then obfs_next rd s1
               else (case read_full rd s1 (userLen + padLen) of
                   None \<Rightarrow> None
                 | Some (buf, e2, s2) \<Rightarrow>
                     if e2 \<noteq> None then Some ([], e2, s2)
                     else if userLen = 0 then obfs_next rd s2
                     else Some (take userLen buf, None, s2)))"

definition obfs_read :: "'s reader \<Rightarrow> (obfs_session \<times> 's) reader" where
  "obfs_read rd cs n =
     (case cs of (c, s) \<Rightarrow>
      if o_closed c then Some ([], Some EOF, (c, s))
      else if pending c \<noteq> [] then
        Some (take n (pending c), None, (c\<lparr>pending := drop n (pending c)\<rparr>, s))
      else case obfs_next rd s of
        None \<Rightarrow> None
      | Some (pl, e, s') \<Rightarrow>
          if e \<noteq> None then Some ([], e, (c, s'))
          else if length pl \<le> n then Some (pl, None, (c, s'))
          else Some (take n pl, None, (c\<lparr>pending := pending c @ drop n pl\<rparr>, s')))"

definition obfs_close :: "obfs_session \<Rightarrow> obfs_session \<times> bool" where
  "obfs_close c = (if o_closed c then (c, False) else (c\<lparr>o_closed := True\<rparr>, True))"

text \<open>
  One round of \<open>runDummy\<close>: the time slept, and the dummy frame written unless the session was
  closed meanwhile. \<open>None\<close> ends the loop.
\<close>

definition dummy_round ::
  "'s writer \<Rightarrow> obfs_session \<times> 's \<Rightarrow> (int \<times> obfs_session \<times> 's) option"
where
  "dummy_round wr cs =
     (case cs of (c, s) \<Rightarrow>
        let lo = dummyMinDelay (o_set c); hi = dummyMaxDelay (o_set c)
        in if hi \<le> 0 \<or> o_closed c then None
           else
             let (sleep, g1) = (if hi - lo > 0 then case intn (nat (hi - lo)) (o_rng c) of
                                  (x, g) \<Rightarrow> (lo + int x, g) else (lo, o_rng c));
                 (padLen, g2) =
                   (if maxPadding (o_set c) > 0 then
                      case intn (nat (maxPadding (o_set c))) g1 of
                        (k, g) \<Rightarrow> (if 1 + k > 0xFFFF then 0xFFFF else 1 + k, g)
                    else (1, g1));
                 (pad, g3) = rand_bytes padLen g2;
                 frame = put_u16 0 @ put_u16 padLen @ pad
             in Some (sleep, c\<lparr>o_rng := g3\<rparr>, snd (snd (wr s frame))))"

section \<open>The frames\<close>

function obfs_split :: splitter where
  "obfs_split bs =
     (let u = be_get (take 2 bs); m = be_get (take 2 (drop 2 bs)); r = drop 4 bs
      in if length bs < 4 \<or> length r < u + m then None
         else if u = 0 then obfs_split (drop m r)
         else Some (take u r, drop (u + m) r))"
  by pat_completeness auto
termination
  by (relation "measure length") auto

declare obfs_split.simps [simp del]

lemma obfs_split_shrinks: "obfs_split bs = Some (p, r) \<Longrightarrow> length p + length r < length bs"
proof (induction bs rule: obfs_split.induct)
  case (1 bs)
  define u where "u = be_get (take 2 bs)"
  define m where "m = be_get (take 2 (drop 2 bs))"
  define q where "q = drop 4 bs"
  from "1.prems" have len: "4 \<le> length bs" "u + m \<le> length q"
    by (auto simp: obfs_split.simps [of bs] Let_def u_def m_def q_def split: if_splits)
  show ?case
  proof (cases "u = 0")
    case True
    with "1.prems" len have "obfs_split (drop m q) = Some (p, r)"
      by (simp add: obfs_split.simps [of bs] Let_def u_def m_def q_def)
    with "1.IH" [OF refl refl refl] len True have "length p + length r < length (drop m q)"
      by (simp add: u_def m_def q_def)
    also have "\<dots> \<le> length bs" by (simp add: q_def)
    finally show ?thesis .
  next
    case False
    with "1.prems" len have "p = take u q" "r = drop (u + m) q"
      by (auto simp: obfs_split.simps [of bs] Let_def u_def m_def q_def)
    with len show ?thesis by (simp add: q_def)
  qed
qed

lemma obfs_split_frame:
  assumes "length p < 65536" "length pad < 65536"
  shows "obfs_split (obfs_frame p pad @ r) = (if p = [] then obfs_split r else Some (p, r))"
proof -
  have "take 2 (obfs_frame p pad @ r) = put_u16 (length p)"
    "take 2 (drop 2 (obfs_frame p pad @ r)) = put_u16 (length pad)"
    "drop 4 (obfs_frame p pad @ r) = p @ pad @ r"
    by (simp_all add: obfs_frame_def)
  with assms show ?thesis
    by (simp add: obfs_split.simps [of "obfs_frame p pad @ r"] Let_def) (simp add: obfs_frame_def)
qed

lemma frame_of_obfs:
  assumes "length p < 65536" "length pad < 65536"
  shows "frame_of obfs_split p (obfs_frame p pad)"
proof (cases "p = []")
  case False
  then show ?thesis
    by (intro frame_ofI) (simp_all add: obfs_split_frame assms, simp add: obfs_frame_def)
next
  case True
  have "deframe obfs_split (obfs_frame [] pad @ r) = deframe obfs_split r" for r
  proof (cases "obfs_split r")
    case None
    with assms(2) show ?thesis by (simp add: deframe_None obfs_split_frame)
  next
    case (Some pr)
    then obtain q t where pr: "obfs_split r = Some (q, t)" by (cases pr) auto
    note s = obfs_split_shrinks [OF this]
    from pr assms(2) have "obfs_split (obfs_frame [] pad @ r) = Some (q, t)"
      by (simp add: obfs_split_frame)
    from deframe_Some [of obfs_split, OF this] deframe_Some [of obfs_split, OF pr] s show ?thesis by simp
  qed
  with True show ?thesis by (simp add: frame_of_def)
qed

section \<open>The session is a framed session\<close>

definition obfs_good :: "obfs_session \<Rightarrow> bool" where
  "obfs_good c \<longleftrightarrow> \<not> o_closed c"

context byte_stream
begin

lemma obfs_next_content:
  assumes "ok s" "obfs_split (content s) = Some (p, r)"
  shows "\<exists>s'. obfs_next rd s = Some (p, None, s') \<and> ok s' \<and> content s' = r"
  using assms
proof (induction "length (content s)" arbitrary: s rule: less_induct)
  case less
  define hdr where "hdr = take 4 (content s)"
  define u where "u = be_get (take 2 hdr)"
  define m where "m = be_get (drop 2 hdr)"
  define q where "q = drop 4 (content s)"
  have hd2: "take 2 (content s) = take 2 hdr" "take 2 (drop 2 (content s)) = drop 2 hdr"
    by (simp_all add: hdr_def drop_take)
  from less.prems(2) have len: "4 \<le> length (content s)" "u + m \<le> length q"
    by (auto simp: obfs_split.simps [of "content s"] Let_def u_def m_def q_def hd2 split: if_splits)
  from read_full_content [OF less.prems(1) len(1)] obtain s1 where s1:
    "read_full rd s 4 = Some (hdr, None, s1)" "content s1 = q" "ok s1"
    by (auto simp: hdr_def q_def)
  show ?case
  proof (cases "u + m = 0")
    case True
    with less.prems(2) len have sp: "obfs_split (content s1) = Some (p, r)"
      by (simp add: obfs_split.simps [of "content s"] Let_def u_def m_def q_def hd2 s1(2))
    have "length (content s1) < length (content s)" using len s1(2) by (simp add: q_def)
    from less.hyps [OF this s1(3) sp] True s1 show ?thesis
      by (subst obfs_next.simps) (simp add: u_def m_def)
  next
    case nz: False
    from read_full_content [OF s1(3), of "u + m"] len s1(2) obtain s2 where s2:
      "read_full rd s1 (u + m) = Some (take (u + m) q, None, s2)" "content s2 = drop (u + m) q"
      "ok s2" by auto
    show ?thesis
    proof (cases "u = 0")
      case True
      with less.prems(2) len have sp: "obfs_split (content s2) = Some (p, r)"
        by (simp add: obfs_split.simps [of "content s"] Let_def u_def m_def q_def hd2 s2(2))
      have "length (content s2) < length (content s)" using len s2(2) by (simp add: q_def)
      from less.hyps [OF this s2(3) sp] True nz s1 s2 show ?thesis
        by (subst obfs_next.simps) (simp add: u_def m_def)
    next
      case False
      with less.prems(2) len have "p = take u q" "r = drop (u + m) q"
        by (auto simp: obfs_split.simps [of "content s"] Let_def u_def m_def q_def hd2)
      with False nz s1 s2 show ?thesis
        by (subst obfs_next.simps) (simp add: u_def [symmetric] m_def [symmetric] Let_def)
    qed
  qed
qed

lemma obfs_framed:
  "framed_session rd content ok work (obfs_read rd) pending obfs_good obfs_split"
proof unfold_locales
  show "obfs_split bs = Some (p, r) \<Longrightarrow> length p + length r < length bs" for bs p r
    by (rule obfs_split_shrinks)
next
  fix c :: obfs_session and n :: nat and s :: 's
  assume "obfs_good c" "pending c \<noteq> []"
  then show "\<exists>c'. obfs_read rd (c, s) n = Some (take n (pending c), None, (c', s)) \<and>
      obfs_good c' \<and> pending c' = drop n (pending c)"
    by (simp add: obfs_read_def obfs_good_def)
next
  fix c :: obfs_session and s :: 's and n :: nat and p r
  assume h: "obfs_good c" "ok s" "pending c = []" "obfs_split (content s) = Some (p, r)"
  from obfs_next_content [OF h(2,4)] obtain s' where
    "obfs_next rd s = Some (p, None, s')" "ok s'" "content s' = r" by blast
  with h show "\<exists>c' s'. obfs_read rd (c, s) n = Some (take n p, None, (c', s')) \<and>
      obfs_good c' \<and> pending c' = drop n p \<and> ok s' \<and> content s' = r"
    by (auto simp: obfs_read_def obfs_good_def)
qed

end

interpretation obfs_wire:
  framed_session wire_read wire_content wire_ok wire_work
    "obfs_read wire_read" pending obfs_good obfs_split
  by (rule wirestream.obfs_framed)

context byte_sink
begin

lemma obfs_framing:
  "framing_writer wr sent up (obfs_write wr) obfs_good fits_u16 obfs_split"
proof unfold_locales
  fix s :: 's and c :: obfs_session and p :: bytes
  assume h: "up s" "obfs_good c" "fits_u16 p"
  obtain k0 g1 where k0: "(if maxPadding (o_set c) > 0 then
                 case intn (nat (maxPadding (o_set c) + 1)) (o_rng c) of
                   (k, g) \<Rightarrow> (if k > 0xFFFF then 0xFFFF else k, g)
               else (0, o_rng c)) = (k0, g1)" by fastforce
  then have k16: "k0 < 65536" by (auto split: if_splits prod.splits)
  define g2 where
    "g2 = (if maxJitter (o_set c) > 0 then snd (intn (nat (maxJitter (o_set c))) g1) else g1)"
  obtain pad g3 where pad: "rand_bytes k0 g2 = (pad, g3)" by fastforce
  then have lp: "length pad = k0" using length_rand_bytes [of k0 g2] by simp
  from write_sent [OF h(1), of "obfs_frame p pad"] obtain s' where
    "wr s (obfs_frame p pad) = (length (obfs_frame p pad), None, s')"
    "sent s' = sent s @ obfs_frame p pad" "up s'" by blast
  with k0 pad lp k16 h frame_of_obfs [of p pad]
  show "\<exists>f c' s'. obfs_write wr (c, s) p = (length p, None, (c', s')) \<and>
      frame_of obfs_split p f \<and> sent s' = sent s @ f \<and> up s' \<and> obfs_good c'"
    by (intro exI [of _ "obfs_frame p pad"])
      (auto simp: obfs_write_def Let_def obfs_frame_def obfs_good_def fits_u16_def g2_def [symmetric])
qed

text \<open>A dummy frame adds nothing to the payload.\<close>

lemma dummy_round_frame:
  assumes "up s" "dummy_round wr (c, s) = Some (d, c', s')"
  shows "\<exists>f. sent s' = sent s @ f \<and> frame_of obfs_split [] f \<and> up s'"
proof -
  from assms(2) obtain k g where
    k: "k < 65536" "s' = snd (snd (wr s (obfs_frame [] (fst (rand_bytes k g)))))"
  proof -
    assume *: "\<And>k g. k < 65536 \<Longrightarrow> s' = snd (snd (wr s (obfs_frame [] (fst (rand_bytes k g))))) \<Longrightarrow> thesis"
    obtain sl g1 where a: "(if dummyMaxDelay (o_set c) - dummyMinDelay (o_set c) > 0
        then case intn (nat (dummyMaxDelay (o_set c) - dummyMinDelay (o_set c))) (o_rng c) of
               (x, g) \<Rightarrow> (dummyMinDelay (o_set c) + int x, g)
        else (dummyMinDelay (o_set c), o_rng c)) = (sl, g1)" by fastforce
    obtain k g2 where b: "(if maxPadding (o_set c) > 0 then
          case intn (nat (maxPadding (o_set c))) g1 of
            (k, g) \<Rightarrow> (if 1 + k > 0xFFFF then 0xFFFF else 1 + k, g)
        else (1, g1)) = (k, g2)" by fastforce
    then have "k < 65536" by (auto split: if_splits prod.splits)
    with a b assms(2) show thesis
      by (intro * [of k g2])
        (auto simp: dummy_round_def Let_def obfs_frame_def split: if_splits prod.splits)
  qed
  from write_sent [OF assms(1), of "obfs_frame [] (fst (rand_bytes k g))"] k
    frame_of_obfs [of "[]" "fst (rand_bytes k g)"] show ?thesis by auto
qed

end

interpretation obfs_wire_writer:
  framing_writer wire_write tx wire_up "obfs_write wire_write" obfs_good fits_u16 obfs_split
  by (rule wiresink.obfs_framing)

section \<open>Properties\<close>

text \<open>
  The writing side of a connection with its dummy traffic: user messages and rounds of \<open>runDummy\<close>
  in any order (both take the lock \<open>wmu\<close> around the write of their frame).
\<close>

datatype obfs_action = Message bytes | DummyTick

fun obfs_run :: "'s writer \<Rightarrow> obfs_session \<times> 's \<Rightarrow> obfs_action list \<Rightarrow> obfs_session \<times> 's" where
  "obfs_run wr cs [] = cs"
| "obfs_run wr cs (Message m # as) = obfs_run wr (snd (snd (obfs_write wr cs m))) as"
| "obfs_run wr cs (DummyTick # as) =
     (case dummy_round wr cs of None \<Rightarrow> obfs_run wr cs as | Some (d, cs') \<Rightarrow> obfs_run wr cs' as)"

fun user_data :: "obfs_action list \<Rightarrow> bytes" where
  "user_data [] = []"
| "user_data (Message m # as) = m @ user_data as"
| "user_data (DummyTick # as) = user_data as"

lemma dummy_round_good:
  assumes "dummy_round wr (c, s) = Some (d, c', s')"
  shows "obfs_good c'"
proof -
  have "\<not> o_closed c \<and> (\<exists>g. c' = c\<lparr>o_rng := g\<rparr>)"
    using assms unfolding dummy_round_def Let_def
    by (simp split: if_split_asm prod.split_asm; (elim conjE)?; blast)
  then show ?thesis by (auto simp: obfs_good_def)
qed

lemma obfs_run_frames:
  assumes "wire_up w" "obfs_good c" "\<forall>m. Message m \<in> set as \<longrightarrow> fits_u16 m"
    and "obfs_run wire_write (c, w) as = (c', w')"
  shows "\<exists>f. tx w' = tx w @ f \<and> frame_of obfs_split (user_data as) f"
  using assms
proof (induction as arbitrary: c w)
  case Nil
  then show ?case by (simp add: frame_of_def)
next
  case (Cons a as)
  have step: "\<exists>f c1 w1. obfs_run wire_write (c, w) (a # as) = obfs_run wire_write (c1, w1) as \<and>
      tx w1 = tx w @ f \<and> frame_of obfs_split (user_data [a]) f \<and> wire_up w1 \<and> obfs_good c1"
  proof (cases a)
    case (Message m)
    with Cons.prems(3) have "fits_u16 m" by simp
    from obfs_wire_writer.write_frame [OF Cons.prems(1,2) this] obtain f c1 w1 where
      "obfs_write wire_write (c, w) m = (length m, None, (c1, w1))" "frame_of obfs_split m f"
      "tx w1 = tx w @ f" "wire_up w1" "obfs_good c1" by blast
    with Message show ?thesis by (intro exI [of _ f] exI [of _ c1] exI [of _ w1]) simp
  next
    case DummyTick
    show ?thesis
    proof (cases "dummy_round wire_write (c, w)")
      case None
      with DummyTick Cons.prems(1,2) show ?thesis
        by (intro exI [of _ "[]"] exI [of _ c] exI [of _ w]) (simp add: frame_of_def)
    next
      case (Some r)
      then obtain d c1 w1 where r: "dummy_round wire_write (c, w) = Some (d, c1, w1)" by (cases r) auto
      with wiresink.dummy_round_frame [OF Cons.prems(1) r] dummy_round_good [OF r] DummyTick
      show ?thesis by auto
    qed
  qed
  then obtain f c1 w1 where s: "obfs_run wire_write (c, w) (a # as) = obfs_run wire_write (c1, w1) as"
    "tx w1 = tx w @ f" "frame_of obfs_split (user_data [a]) f" "wire_up w1" "obfs_good c1" by blast
  with Cons.IH [of w1 c1] Cons.prems obtain g where
    g: "tx w' = tx w1 @ g" "frame_of obfs_split (user_data as) g" by auto
  have "user_data (a # as) = user_data [a] @ user_data as" by (cases a) simp_all
  with s g frame_of_append [OF s(3) g(2)] show ?case by auto
qed

text \<open>
  C29: dummy traffic and padding are invisible to the reader of a plain session. Whatever dummy
  rounds are interleaved with the user's writes of at most 65535 bytes, and however the network
  segments the bytes, reading \<open>k\<close> bytes through the peer's session returns the first \<open>k\<close> bytes of
  what the user wrote.
\<close>

theorem plain_roundtrip:
  assumes "\<not> o_closed cw" "\<not> o_closed cr" "pending cr = []"
    and "\<forall>m. Message m \<in> set as \<longrightarrow> length m \<le> 0xffff"
    and "\<not> closed w" "tx_room w = None" "tx w = []"
    and "obfs_run wire_write (cw, w) as = (cw', w')"
    and "concat (rx r) = tx w'" "\<not> closed r" "k \<le> length (user_data as)"
  shows "\<exists>st. read_full (obfs_read wire_read) (cr, r) k = Some (take k (user_data as), None, st)"
proof -
  have "wire_up w" "obfs_good cw" "\<forall>m. Message m \<in> set as \<longrightarrow> fits_u16 m"
    using assms(1,4,5,6) by (auto simp: wire_up_def obfs_good_def fits_u16_def)
  from obfs_run_frames [OF this assms(8)] assms(7,9) obtain f where
    f: "wire_content r = concat [f]" "list_all2 (frame_of obfs_split) [user_data as] [f]"
    by (auto simp: wire_content_def)
  have "obfs_good cr" "wire_ok r" using assms by (simp_all add: obfs_good_def wire_ok_def)
  from obfs_wire.read_messages [OF this assms(3) f, of k] assms(11) show ?thesis by auto
qed

definition wit_obfs :: obfs_session where
  "wit_obfs = new_obfs_session default_obfs_settings (rng_of (\<lambda>i. i + 3))"

lemma plain_roundtrip_witness:
  "\<exists>cw' w' st.
     obfs_run wire_write (wit_obfs, wire_of [] (Some EOF))
       [DummyTick, Message ''he'', DummyTick, Message ''llo''] = (cw', w') \<and>
     read_full (obfs_read wire_read) (wit_obfs, wire_of [take 7 (tx w'), drop 7 (tx w')] (Some EOF)) 5 =
       Some (''hello'', None, st)"
proof -
  let ?as = "[DummyTick, Message ''he'', DummyTick, Message ''llo'']"
  obtain cw' w' where s: "obfs_run wire_write (wit_obfs, wire_of [] (Some EOF)) ?as = (cw', w')"
    by fastforce
  have "\<exists>st. read_full (obfs_read wire_read)
      (wit_obfs, wire_of [take 7 (tx w'), drop 7 (tx w')] (Some EOF)) 5 =
      Some (take 5 (user_data ?as), None, st)"
    by (rule plain_roundtrip [OF _ _ _ _ _ _ _ s])
      (auto simp: wit_obfs_def new_obfs_session_def wire_of_def)
  with s show ?thesis by auto
qed

definition delays_ok :: "obfs_settings \<Rightarrow> bool" where
  "delays_ok s \<longleftrightarrow> 0 \<le> dummyMinDelay s \<and> dummyMinDelay s \<le> dummyMaxDelay s \<and>
     (enabled s \<or> s = no_obfs_settings)"

lemma delays_ok_dummy:
  assumes "enabled s" "delays_ok s"
  shows "delays_ok (set_dummy_delays mn mx s)"
proof -
  have half: "0 < m \<Longrightarrow> 0 \<le> m div 2 \<and> m div 2 \<le> m" for m :: int by simp
  show ?thesis
    using assms half [of "ms_of (the mx)"]
    by (cases mn; cases mx) (auto simp: set_dummy_delays_def delays_ok_def Let_def)
qed

lemma delays_ok_updates:
  "delays_ok s \<Longrightarrow> enabled s \<Longrightarrow> delays_ok (s\<lparr>maxPadding := p\<rparr>)"
  "delays_ok s \<Longrightarrow> enabled s \<Longrightarrow> delays_ok (s\<lparr>maxJitter := j\<rparr>)"
  by (simp_all add: delays_ok_def)

lemma delays_ok_constants: "delays_ok default_obfs_settings" "delays_ok no_obfs_settings"
  by (simp_all add: delays_ok_def default_obfs_settings_def no_obfs_settings_def Millisecond_def)

lemma enabled_default: "enabled default_obfs_settings"
  by (simp add: default_obfs_settings_def)

text \<open>
  Whatever \<open>Config.Raw\<close> holds, the settings the plain adapter derives from it keep the delays
  of the dummy traffic ordered and non-negative, and a positive upper delay (which starts the
  dummy traffic) only occurs when the obfuscation is enabled.
\<close>

theorem obfs_settings_ordered:
  "let s = parse_obfs_settings cfg
   in 0 \<le> dummyMinDelay s \<and> dummyMinDelay s \<le> dummyMaxDelay s \<and>
      (enabled s \<or> s = no_obfs_settings) \<and> (plain_handshake cfg g = None \<longleftrightarrow> \<not> enabled s)"
proof -
  have "delays_ok (parse_obfs_settings cfg)"
    unfolding parse_obfs_settings_def Let_def
    by (auto intro!: delays_ok_dummy delays_ok_updates
        simp: delays_ok_constants enabled_default split: option.splits)
  then show ?thesis by (simp add: Let_def plain_handshake_def delays_ok_def)
qed

end
