(* ===== verification/ObfsNegotiate.thy ===== *)
theory ObfsNegotiate
  imports GoDuration
begin

text \<open>
  \<open>hypernet/services/proxy/server/obfs_negotiate.go\<close>: the line
  \<open>OBFS <pmin> <pmax> <dmin> <dmax>\<close> in which client and server agree on the obfuscation of a
  stream. The lemmas show that a printed line parses back, that a parsed line is well formed, and
  what the server's limits make of a request.
\<close>

section \<open>The line\<close>

definition obfs_prefix :: bytes where
  "obfs_prefix = ''OBFS ''"

record ObfsParams =
  PMin :: int
  PMax :: int
  WDMin :: duration
  WDMax :: duration

definition FormatObfsLine :: "ObfsParams \<Rightarrow> bytes" where
  "FormatObfsLine p =
     (let dmin = (if WDMin p > 0 then dur_string (WDMin p) else ''0'');
          dmax = (if WDMax p > 0 then dur_string (WDMax p) else ''0'')
      in obfs_prefix @ itoa (PMin p) @ '' '' @ itoa (PMax p) @ '' '' @ dmin @ '' '' @ dmax @ nl)"

definition parse_int :: "bytes \<Rightarrow> int option" where
  "parse_int s = atoi s"

definition ParseObfsLine :: "bytes \<Rightarrow> ObfsParams option" where
  "ParseObfsLine line0 =
     (let line = trim_space line0
      in if \<not> has_prefix line obfs_prefix then None
         else
           let rest = trim_space (drop (length obfs_prefix) line)
           in case go_fields rest of
                [p0, p1, p2, p3] \<Rightarrow>
                  (case parse_int p0 of
                     None \<Rightarrow> None
                   | Some pmin \<Rightarrow>
                       (case parse_int p1 of
                          None \<Rightarrow> None
                        | Some pmax \<Rightarrow>
                            if pmin < 0 \<or> pmax < 0 \<or> pmin > pmax then None
                            else (case parse_duration p2 of
                                None \<Rightarrow> None
                              | Some dmin \<Rightarrow>
                                  if dmin < 0 then None
                                  else (case parse_duration p3 of
                                      None \<Rightarrow> None
                                    | Some dmax \<Rightarrow>
                                        if dmax < 0 \<or> dmax < dmin then None
                                        else Some \<lparr>PMin = pmin, PMax = pmax,
                                                   WDMin = dmin, WDMax = dmax\<rparr>))))
              | _ \<Rightarrow> None)"

section \<open>Agreement\<close>

text \<open>The limits of the server (\<open>SetObfuscation\<close>) are parameters of the same shape.\<close>

definition AgreeObfs :: "ObfsParams \<Rightarrow> ObfsParams \<Rightarrow> ObfsParams" where
  "AgreeObfs s client =
     (let a = client;
          a = (if PMax s \<le> 0 then a\<lparr>PMin := 0, PMax := 0\<rparr>
               else
                 let a = (if PMax a > PMax s then a\<lparr>PMax := PMax s\<rparr> else a);
                     a = (if PMin a > PMax a then a\<lparr>PMin := PMax a\<rparr> else a)
                 in if PMin a < PMin s then a\<lparr>PMin := PMin s\<rparr> else a)
      in if WDMax s \<le> 0 then a\<lparr>WDMin := 0, WDMax := 0\<rparr>
         else
           let a = (if WDMax a > WDMax s then a\<lparr>WDMax := WDMax s\<rparr> else a);
               a = (if WDMin a > WDMax a then a\<lparr>WDMin := WDMax a\<rparr> else a)
           in if WDMin a < WDMin s then a\<lparr>WDMin := WDMin s\<rparr> else a)"

section \<open>Parsing back what was printed\<close>

text \<open>The parameters a line can carry: ordered, non-negative, and of the machine's width.\<close>

definition obfs_valid :: "ObfsParams \<Rightarrow> bool" where
  "obfs_valid p \<longleftrightarrow>
     0 \<le> PMin p \<and> PMin p \<le> PMax p \<and> PMax p < 2 ^ 63 \<and>
     0 \<le> WDMin p \<and> WDMin p \<le> WDMax p \<and> WDMax p < 2 ^ 63"

lemma token_word_start:
  assumes "token_byte c" "s = [] \<or> token_byte (hd s) \<or> hd s = CHR '' ''"
  shows "space_len (c # s) = 0"
proof (cases "plain_byte c")
  case True
  then show ?thesis by simp
next
  case False
  then have c: "c = CHR 0xC2 \<or> c = CHR 0xB5" using assms(1) by (simp add: token_byte_def)
  have "\<not> is_space2 c d" if "token_byte d \<or> d = CHR '' ''" for d
    using that by (auto simp: is_space2_def token_byte_def plain_byte_def)
  moreover have "\<not> is_space3 c d e" for d e using c by (auto simp: is_space3_def)
  moreover have "\<not> is_space1 c" using c by (auto simp: is_space1_def)
  ultimately show ?thesis using assms(2)
    by (cases s; cases "tl s") (auto simp: neq_Nil_conv)
qed

lemma fields_acc_token:
  assumes "list_all token_byte w" "s = [] \<or> hd s = CHR '' ''"
  shows "fields_acc cur (w @ s) = fields_acc (rev w @ cur) s"
  using assms
proof (induction w arbitrary: cur)
  case Nil
  then show ?case by simp
next
  case (Cons c w)
  then have "w @ s = [] \<or> token_byte (hd (w @ s)) \<or> hd (w @ s) = CHR '' ''"
    by (cases w) auto
  with Cons token_word_start [of c "w @ s"] show ?case by simp
qed

lemma go_fields_token:
  assumes "list_all token_byte w" "w \<noteq> []"
  shows "go_fields w = [w]" "go_fields (w @ CHR '' '' # s) = w # go_fields s"
proof -
  show "go_fields w = [w]"
    using fields_acc_token [of w "[]" "[]"] assms by (simp add: go_fields_def)
  show "go_fields (w @ CHR '' '' # s) = w # go_fields s"
    using fields_acc_token [of w "CHR '' '' # s" "[]"] fields_acc_blank [of "CHR '' ''" "rev w" s] assms
    by (simp add: go_fields_def del: fields_acc.simps)
qed

lemma sub_second_ends: "\<exists>a. sub_second u p w = dec_of_nat a @ fst (fmt_frac u p) @ w"
  by (cases "fmt_frac u p") (auto simp: sub_second_def)

lemma last_dur_string: "0 \<le> d \<Longrightarrow> dur_string d \<noteq> [] \<and> last (dur_string d) = CHR ''s''"
  by (auto simp: dur_string_def Let_def sub_second_def hms_def micro_s_def split: prod.splits)

lemma hd_dec_digit: "plain_byte (hd (dec_of_nat n @ s))"
  using dec_of_nat_simps(2,3) [of n] by (cases "dec_of_nat n") auto

lemma solid_dur_string:
  assumes "0 \<le> d"
  shows "solid (dur_string d)"
proof -
  have "plain_byte (hd (dur_string d))"
    using assms hd_dec_digit
    by (auto simp: dur_string_def Let_def sub_second_def hms_def plain_byte_def split: prod.splits)
  with last_dur_string [OF assms] show ?thesis by (simp add: solid_def plain_byte_def)
qed

text \<open>The printed form of a duration in the line, with its special case for zero.\<close>

definition dur_field :: "duration \<Rightarrow> bytes" where
  "dur_field d = (if d > 0 then dur_string d else ''0'')"

lemma dur_field_props:
  assumes "0 \<le> d" "d < 2 ^ 63"
  shows "list_all token_byte (dur_field d)" "dur_field d \<noteq> []" "solid (dur_field d)"
    "parse_duration (dur_field d) = Some d"
proof -
  have z: "parse_duration ''0'' = Some 0" by (simp add: parse_duration_def Let_def)
  have zs: "solid ''0''" "list_all token_byte ''0''"
    by (simp_all add: solid_def plain_byte_def)
  show "list_all token_byte (dur_field d)" using zs by (simp add: dur_field_def)
  show "dur_field d \<noteq> []" using last_dur_string [OF assms(1)] by (simp add: dur_field_def)
  show "solid (dur_field d)" using zs solid_dur_string [OF assms(1)] by (simp add: dur_field_def)
  show "parse_duration (dur_field d) = Some d"
    using z parse_dur_string [OF assms] assms by (auto simp: dur_field_def)
qed

lemma parse_format_obfs:
  assumes "obfs_valid p"
  shows "ParseObfsLine (FormatObfsLine p) = Some p"
proof -
  define d0 where "d0 = dur_field (WDMin p)"
  define d1 where "d1 = dur_field (WDMax p)"
  have ranges: "0 \<le> WDMin p" "WDMin p < 2 ^ 63" "0 \<le> WDMax p" "WDMax p < 2 ^ 63"
    "in_int64 (PMin p)" "in_int64 (PMax p)"
    using assms by (auto simp: obfs_valid_def in_int64_def)
  note d0 = dur_field_props [OF ranges(1,2), folded d0_def]
  note d1 = dur_field_props [OF ranges(3,4), folded d1_def]
  define body where
    "body = itoa (PMin p) @ '' '' @ itoa (PMax p) @ '' '' @ d0 @ '' '' @ d1"
  have line: "FormatObfsLine p = (obfs_prefix @ body) @ nl"
    by (simp add: FormatObfsLine_def body_def d0_def d1_def dur_field_def Let_def)
  have sb: "solid body"
    unfolding body_def using solid_append [OF solid_plain [OF itoa_plain], of d1] d1(3)
    by (metis append_assoc)
  have "solid (''OBFS'' @ '' '' @ body)"
    by (rule solid_append [OF _ sb]) (simp add: solid_def plain_byte_def)
  then have so: "solid (obfs_prefix @ body)" by (simp add: obfs_prefix_def)
  have tl: "trim_space (FormatObfsLine p) = obfs_prefix @ body"
    unfolding line by (rule trim_space_solid(2) [OF so])
  have f: "go_fields body = [itoa (PMin p), itoa (PMax p), d0, d1]"
    using d0 d1 by (simp add: body_def go_fields_token)
  show ?thesis
    using assms f d0(4) d1(4) ranges
    by (simp add: ParseObfsLine_def tl trim_space_solid(1) [OF sb]
        Let_def parse_int_def obfs_valid_def)
qed

lemma dur_loop_bound: "dur_loop d s = Some r \<Longrightarrow> d \<le> 2 ^ 63 \<Longrightarrow> r \<le> 2 ^ 63"
proof (induction d s rule: dur_loop.induct)
  case (1 d s)
  show ?case
  proof (cases "s = []")
    case True
    with 1 show ?thesis by (simp add: dur_loop.simps)
  next
    case False
    with 1(2) obtain w t where t: "dur_term s = Some (w, t)" "\<not> d + w > 2 ^ 63"
      "dur_loop (d + w) t = Some r"
      by (subst (asm) dur_loop.simps) (auto split: option.splits if_splits)
    show ?thesis by (rule 1(1) [OF False t(1) refl t(2,3)]) (use t(2) in simp)
  qed
qed

lemma parse_duration_range: "parse_duration s = Some d \<Longrightarrow> in_int64 d"
  by (auto simp: parse_duration_def Let_def in_int64_def dest!: dur_loop_bound
      split: if_splits option.splits)

lemma parse_obfs_valid:
  assumes "ParseObfsLine line = Some p"
  shows "obfs_valid p"
proof -
  let ?ws = "go_fields (trim_space (drop (length obfs_prefix) (trim_space line)))"
  have "\<exists>p0 p1 p2 p3. ?ws = [p0, p1, p2, p3]"
    using assms by (auto simp: ParseObfsLine_def Let_def split: if_splits list.splits)
  then obtain p0 p1 p2 p3 where w: "?ws = [p0, p1, p2, p3]" by blast
  from assms w show ?thesis
    by (auto simp: ParseObfsLine_def Let_def parse_int_def obfs_valid_def in_int64_def
        dest!: atoi_range parse_duration_range split: if_splits option.splits)
qed

section \<open>What the limits of the server do\<close>

text \<open>
  The limits are consistent when their bounds are ordered. \<open>limits_fit\<close> is the case the clamping
  code handles: the maximum the client asks for is not below the minimum of the server.
\<close>

definition limits_ok :: "ObfsParams \<Rightarrow> bool" where
  "limits_ok s \<longleftrightarrow> PMin s \<le> PMax s \<and> PMax s < 2 ^ 63 \<and> WDMin s \<le> WDMax s \<and> WDMax s < 2 ^ 63"

definition limits_fit :: "ObfsParams \<Rightarrow> ObfsParams \<Rightarrow> bool" where
  "limits_fit s c \<longleftrightarrow> (0 < PMax s \<longrightarrow> PMin s \<le> PMax c) \<and> (0 < WDMax s \<longrightarrow> WDMin s \<le> WDMax c)"

text \<open>The agreement is the same clamping, done separately on the padding and on the delays.\<close>

definition clamp_range :: "int \<Rightarrow> int \<Rightarrow> int \<Rightarrow> int \<Rightarrow> int \<times> int" where
  "clamp_range smin smax cmin cmax =
     (if smax \<le> 0 then (0, 0) else (max smin (min cmin (min cmax smax)), min cmax smax))"

lemma AgreeObfs_clamp:
  "AgreeObfs s c =
     (case clamp_range (PMin s) (PMax s) (PMin c) (PMax c) of (pmin, pmax) \<Rightarrow>
      case clamp_range (WDMin s) (WDMax s) (WDMin c) (WDMax c) of (wmin, wmax) \<Rightarrow>
        \<lparr>PMin = pmin, PMax = pmax, WDMin = wmin, WDMax = wmax\<rparr>)"
  by (cases c) (auto simp: AgreeObfs_def clamp_range_def Let_def min_def max_def)

lemma clamp_range_ordered:
  assumes "0 \<le> cmin" "cmin \<le> cmax" "0 < smax \<longrightarrow> smin \<le> cmax" "smin \<le> smax"
    and "clamp_range smin smax cmin cmax = (lo, hi)"
  shows "0 \<le> lo \<and> lo \<le> hi \<and> hi \<le> max 0 smax"
  using assms by (auto simp: clamp_range_def min_def max_def split: if_splits)

lemma AgreeObfs_valid:
  assumes "obfs_valid c" "limits_ok s" "limits_fit s c"
  shows "obfs_valid (AgreeObfs s c)"
proof -
  obtain pl ph where p: "clamp_range (PMin s) (PMax s) (PMin c) (PMax c) = (pl, ph)" by fastforce
  obtain wl wh where w: "clamp_range (WDMin s) (WDMax s) (WDMin c) (WDMax c) = (wl, wh)" by fastforce
  show ?thesis
    using clamp_range_ordered [OF _ _ _ _ p] clamp_range_ordered [OF _ _ _ _ w] assms
    by (auto simp: AgreeObfs_clamp p w obfs_valid_def limits_ok_def limits_fit_def)
qed

section \<open>Properties\<close>

text \<open>
  The negotiation line is lossless. Formatting parameters that are ordered, non-negative and
  within 64 bits, and parsing the line, gives the same parameters; and every line the parser
  accepts, from whatever peer, carries only such parameters.
\<close>

theorem obfs_line_roundtrip:
  "(obfs_valid p \<longrightarrow> ParseObfsLine (FormatObfsLine p) = Some p) \<and>
   (ParseObfsLine line = Some q \<longrightarrow> obfs_valid q \<and> ParseObfsLine (FormatObfsLine q) = Some q)"
  using parse_format_obfs parse_obfs_valid by blast

lemma obfs_line_roundtrip_witness:
  "obfs_valid \<lparr>PMin = 16, PMax = 64, WDMin = 0, WDMax = 1500 * Millisecond\<rparr> \<and>
   ParseObfsLine (FormatObfsLine \<lparr>PMin = 16, PMax = 64, WDMin = 0, WDMax = 1500 * Millisecond\<rparr>) =
     Some \<lparr>PMin = 16, PMax = 64, WDMin = 0, WDMax = 1500 * Millisecond\<rparr>"
proof -
  have v: "obfs_valid \<lparr>PMin = 16, PMax = 64, WDMin = 0, WDMax = 1500 * Millisecond\<rparr>"
    by (simp add: obfs_valid_def Millisecond_def)
  with obfs_line_roundtrip [of "\<lparr>PMin = 16, PMax = 64, WDMin = 0, WDMax = 1500 * Millisecond\<rparr>"
      "FormatObfsLine \<lparr>PMin = 16, PMax = 64, WDMin = 0, WDMax = 1500 * Millisecond\<rparr>"
      "\<lparr>PMin = 16, PMax = 64, WDMin = 0, WDMax = 1500 * Millisecond\<rparr>"]
  show ?thesis by blast
qed

text \<open>
  C32: with consistent limits, and a client whose maxima are not below the server's minima, the
  agreed parameters never exceed the limits of the server nor the maxima of the client, and the
  reply line parses on the client's side to exactly what the server applies.
\<close>

theorem agree_obfs_consistent:
  assumes "ParseObfsLine line = Some c" "limits_ok s" "limits_fit s c"
  shows "ParseObfsLine (FormatObfsLine (AgreeObfs s c)) = Some (AgreeObfs s c) \<and>
    PMax (AgreeObfs s c) \<le> max 0 (min (PMax s) (PMax c)) \<and>
    WDMax (AgreeObfs s c) \<le> max 0 (min (WDMax s) (WDMax c)) \<and>
    (0 < PMax s \<longrightarrow> PMin s \<le> PMin (AgreeObfs s c)) \<and>
    (0 < WDMax s \<longrightarrow> WDMin s \<le> WDMin (AgreeObfs s c))"
proof -
  have "ParseObfsLine (FormatObfsLine (AgreeObfs s c)) = Some (AgreeObfs s c)"
    using parse_format_obfs AgreeObfs_valid [OF parse_obfs_valid [OF assms(1)] assms(2,3)] by blast
  moreover have "0 \<le> PMax c" "0 \<le> WDMax c"
    using parse_obfs_valid [OF assms(1)] by (auto simp: obfs_valid_def)
  ultimately show ?thesis by (auto simp: AgreeObfs_clamp clamp_range_def)
qed

definition wit_client :: ObfsParams where
  "wit_client = \<lparr>PMin = 0, PMax = 128, WDMin = 0, WDMax = 20 * Millisecond\<rparr>"

definition wit_server :: ObfsParams where
  "wit_server = \<lparr>PMin = 8, PMax = 64, WDMin = 0, WDMax = 0\<rparr>"

lemma agree_obfs_consistent_witness:
  "AgreeObfs wit_server wit_client = \<lparr>PMin = 8, PMax = 64, WDMin = 0, WDMax = 0\<rparr> \<and>
   ParseObfsLine (FormatObfsLine (AgreeObfs wit_server wit_client)) =
     Some (AgreeObfs wit_server wit_client)"
proof -
  have "obfs_valid wit_client" by (simp add: obfs_valid_def wit_client_def Millisecond_def)
  then have p: "ParseObfsLine (FormatObfsLine wit_client) = Some wit_client"
    by (rule parse_format_obfs)
  have "limits_ok wit_server" "limits_fit wit_server wit_client"
    by (simp_all add: limits_ok_def limits_fit_def wit_server_def wit_client_def)
  from agree_obfs_consistent [OF p this] show ?thesis
    by (simp add: AgreeObfs_def wit_server_def wit_client_def)
qed

text \<open>
  The clamping is not enough when the client's maximum is below the server's minimum: the
  server then answers with a minimum above the maximum, a line its own parser, which the client
  uses, rejects, although request and limits are both well formed.
\<close>

theorem agree_obfs_unparsable:
  "\<exists>s c. obfs_valid c \<and> obfs_valid s \<and> ParseObfsLine (FormatObfsLine c) = Some c \<and>
     0 < PMax (AgreeObfs s c) \<and> PMax (AgreeObfs s c) < PMin (AgreeObfs s c) \<and>
     ParseObfsLine (FormatObfsLine (AgreeObfs s c)) \<noteq> Some (AgreeObfs s c)"
proof (intro exI conjI)
  let ?s = "\<lparr>PMin = 32, PMax = 64, WDMin = 0, WDMax = 0\<rparr>"
  let ?c = "\<lparr>PMin = 4, PMax = 16, WDMin = 0, WDMax = 0\<rparr>"
  show "obfs_valid ?c" "obfs_valid ?s" by (simp_all add: obfs_valid_def)
  then show "ParseObfsLine (FormatObfsLine ?c) = Some ?c" by (intro parse_format_obfs)
  show "0 < PMax (AgreeObfs ?s ?c)" "PMax (AgreeObfs ?s ?c) < PMin (AgreeObfs ?s ?c)"
    by (simp_all add: AgreeObfs_def)
  have "\<not> obfs_valid (AgreeObfs ?s ?c)" by (simp add: AgreeObfs_def obfs_valid_def)
  with parse_obfs_valid show "ParseObfsLine (FormatObfsLine (AgreeObfs ?s ?c)) \<noteq> Some (AgreeObfs ?s ?c)"
    by blast
qed

end
