(* ===== verification/CryptoIface.thy ===== *)
theory CryptoIface
  imports Framing
begin

text \<open>
  The cryptography the adapters call is not part of the repository: the ciphers, digests and the
  operating system's random source are parameters. What the code relies on is that opening a
  sealed message gives it back and that a ciphertext is 16 bytes longer than its plaintext
  (\<open>aead_ok\<close>, as \<open>crypto/cipher\<close> and \<open>chacha20poly1305\<close> document it).
\<close>

text \<open>Key, nonce and plaintext or ciphertext; there are no additional data anywhere in the code.\<close>

record aead =
  seal :: "bytes \<Rightarrow> bytes \<Rightarrow> bytes \<Rightarrow> bytes"
  unseal :: "bytes \<Rightarrow> bytes \<Rightarrow> bytes \<Rightarrow> bytes option"

definition aead_ok :: "aead \<Rightarrow> bool" where
  "aead_ok a \<longleftrightarrow>
     (\<forall>k n p. unseal a k n (seal a k n p) = Some p) \<and>
     (\<forall>k n p. length (seal a k n p) = length p + 16) \<and>
     (\<forall>k n c p. unseal a k n c = Some p \<longrightarrow> length c = length p + 16)"

lemma aead_okD:
  assumes "aead_ok a"
  shows "unseal a k n (seal a k n p) = Some p" "length (seal a k n p) = length p + 16"
    "unseal a k n c = Some q \<Longrightarrow> length c = length q + 16"
  using assms by (auto simp: aead_ok_def)

text \<open>The digests: SHA-256, MD5 and HMAC-MD5 (key, message).\<close>

record digests =
  sha256 :: "bytes \<Rightarrow> bytes"
  md5 :: "bytes \<Rightarrow> bytes"
  hmac_md5 :: "bytes \<Rightarrow> bytes \<Rightarrow> bytes"

text \<open>\<open>crypto/rand.Read\<close>: \<open>None\<close> is a source that fails.\<close>

definition err_auth :: err where
  "err_auth = Err ''cipher: message authentication failed''"

definition err_entropy :: err where
  "err_entropy = Err ''rand: no entropy''"

definition crypto_rand :: "nat \<Rightarrow> rng option \<Rightarrow> (err + bytes) \<times> rng option" where
  "crypto_rand k src =
     (case src of
        None \<Rightarrow> (Inl err_entropy, None)
      | Some g \<Rightarrow> (case rand_bytes k g of (bs, g') \<Rightarrow> (Inr bs, Some g')))"

text \<open>A cipher of the documented shape, to show that the hypotheses can be met.\<close>

definition tag_aead :: aead where
  "tag_aead =
     \<lparr>seal = (\<lambda>k n p. rev p @ replicate 16 (CHR 0x2A)),
      unseal = (\<lambda>k n c. if 16 \<le> length c \<and> drop (length c - 16) c = replicate 16 (CHR 0x2A)
                        then Some (rev (take (length c - 16) c)) else None)\<rparr>"

lemma tag_aead_ok: "aead_ok tag_aead"
  by (auto simp: aead_ok_def tag_aead_def split: if_splits)

end
