(* ===== verification/Shadowsocks.thy ===== *)
theory Shadowsocks
  imports CryptoIface Padding ProtoIface GoStrings
begin

text \<open>
  \<open>pkg/protoadapters/shadowsocks\<close>: every write becomes one sealed frame
  \<open>[nonce 12][length 2][ciphertext]\<close>, and a read opens the next frame and buffers what the caller
  does not take. The session keeps the contract of a framed session, for every cipher that opens
  what it sealed.
\<close>

section \<open>The session\<close>

record ssAEAD =
  ss_key :: bytes
  ss_buf :: bytes
  ss_off :: nat
  ss_rand :: "rng option"

definition nonceSize :: nat where
  "nonceSize = 12"

definition derive_key :: "digests \<Rightarrow> bytes \<Rightarrow> bytes" where
  "derive_key d password = sha256 d password"

definition new_ssAEAD :: "digests \<Rightarrow> rng option \<Rightarrow> bytes \<Rightarrow> ssAEAD" where
  "new_ssAEAD d g password =
     \<lparr>ss_key = derive_key d password, ss_buf = [], ss_off = 0, ss_rand = g\<rparr>"

text \<open>\<open>Handshake\<close> sends nothing: it checks the configuration and wraps the stream.\<close>

definition ss_handshake ::
  "digests \<Rightarrow> rng option \<Rightarrow> Config option \<Rightarrow> err + ssAEAD"
where
  "ss_handshake d g cfg =
     (case cfg of
        None \<Rightarrow> Inl (Err ''shadowsocks: missing config'')
      | Some cfg \<Rightarrow>
          let password = trim_space (Token cfg)
          in if password = [] then Inl (Err ''shadowsocks: empty password/token'')
             else case raw_get cfg ''role'' of
               None \<Rightarrow> Inl (Err (''shadowsocks: missing role in config.Raw['' @ go_quote ''role'' @ '']''))
             | Some (AString role) \<Rightarrow>
                 if role \<noteq> ''client'' \<and> role \<noteq> ''server''
                 then Inl (Err (''shadowsocks: role must be '' @ go_quote ''client'' @ '' or '' @ go_quote ''server''))
                 else Inr (new_ssAEAD d g password)
             | Some _ \<Rightarrow> Inl (Err ''shadowsocks: role must be string''))"

text \<open>\<open>Wrap\<close>: \<open>None\<close> is the connection returned as it is.\<close>

definition ss_wrap :: "digests \<Rightarrow> rng option \<Rightarrow> Config option \<Rightarrow> ssAEAD option" where
  "ss_wrap d g cfg =
     (case cfg of
        None \<Rightarrow> None
      | Some cfg \<Rightarrow>
          if trim_space (Token cfg) = [] then None
          else Some (new_ssAEAD d g (trim_space (Token cfg))))"

definition ss_features :: Features where
  "ss_features =
     \<lparr>f_transports = [''tcp''], f_mux = False, f_encryption = ''AES-256-GCM (AEAD)'',
      f_obfuscation = True,
      f_description = ''Shadowsocks with AES-256-GCM, password-based key derivation'',
      f_experimental = False\<rparr>"

definition ss_write :: "aead \<Rightarrow> 's writer \<Rightarrow> (ssAEAD \<times> 's) writer" where
  "ss_write a wr cs p =
     (case cs of (c, s) \<Rightarrow>
        if p = [] then (0, None, (c, s))
        else case crypto_rand nonceSize (ss_rand c) of
          (Inl e, g) \<Rightarrow> (0, Some e, (c\<lparr>ss_rand := g\<rparr>, s))
        | (Inr nonce, g) \<Rightarrow>
            let c1 = c\<lparr>ss_rand := g\<rparr>; ct = seal a (ss_key c) nonce p
            in if length ct > 0xFFFF then (0, Some ErrShortWrite, (c1, s))
               else case wr s (nonce @ put_u16 (length ct)) of
                 (_, Some e, s1) \<Rightarrow> (0, Some e, (c1, s1))
               | (_, None, s1) \<Rightarrow>
                   (case wr s1 ct of
                      (_, Some e, s2) \<Rightarrow> (0, Some e, (c1, s2))
                    | (_, None, s2) \<Rightarrow> (length p, None, (c1, s2))))"

definition ss_deliver :: "ssAEAD \<Rightarrow> nat \<Rightarrow> bytes \<times> ssAEAD" where
  "ss_deliver c n =
     (let out = take n (drop (ss_off c) (ss_buf c)); off = ss_off c + length out
      in (out, if off \<ge> length (ss_buf c) then c\<lparr>ss_buf := [], ss_off := 0\<rparr>
               else c\<lparr>ss_off := off\<rparr>))"

definition ss_read :: "aead \<Rightarrow> 's reader \<Rightarrow> (ssAEAD \<times> 's) reader" where
  "ss_read a rd cs n =
     (case cs of (c, s) \<Rightarrow>
        if ss_off c < length (ss_buf c)
        then (case ss_deliver c n of (out, c') \<Rightarrow> Some (out, None, (c', s)))
        else case read_full rd s (nonceSize + 2) of
          None \<Rightarrow> None
        | Some (_, Some e, s1) \<Rightarrow> Some ([], Some e, (c, s1))
        | Some (header, None, s1) \<Rightarrow>
            let payloadLen = be_get (drop nonceSize header)
            in if payloadLen = 0 \<or> payloadLen > 0xFFFF then Some ([], Some EOF, (c, s1))
               else case read_full rd s1 payloadLen of
                 None \<Rightarrow> None
               | Some (_, Some e, s2) \<Rightarrow> Some ([], Some e, (c, s2))
               | Some (ct, None, s2) \<Rightarrow>
                   (case unseal a (ss_key c) (take nonceSize header) ct of
                      None \<Rightarrow> Some ([], Some err_auth, (c, s2))
                    | Some plain \<Rightarrow>
                        (case ss_deliver (c\<lparr>ss_buf := plain, ss_off := 0\<rparr>) n of
                           (out, c') \<Rightarrow> Some (out, None, (c', s2)))))"

section \<open>Its frames\<close>

definition ss_frame :: "aead \<Rightarrow> bytes \<Rightarrow> bytes \<Rightarrow> bytes \<Rightarrow> bytes" where
  "ss_frame a k nonce p = nonce @ put_u16 (length (seal a k nonce p)) @ seal a k nonce p"

definition ss_split :: "aead \<Rightarrow> bytes \<Rightarrow> splitter" where
  "ss_split a k bs =
     (let n = be_get (take 2 (drop 12 bs))
      in if length bs < 14 + n \<or> n = 0 then None
         else case unseal a k (take 12 bs) (take n (drop 14 bs)) of
           None \<Rightarrow> None
         | Some p \<Rightarrow> Some (p, drop (14 + n) bs))"

lemma ss_split_shrinks:
  assumes "aead_ok a" "ss_split a k bs = Some (p, r)"
  shows "length p + length r < length bs"
proof -
  define n where "n = be_get (take 2 (drop 12 bs))"
  from assms(2) have h: "14 + n \<le> length bs" "unseal a k (take 12 bs) (take n (drop 14 bs)) = Some p"
    "r = drop (14 + n) bs"
    by (auto simp: ss_split_def Let_def n_def [symmetric] split: if_splits option.splits)
  from aead_okD(3) [OF assms(1) h(2)] h(1) have "n = length p + 16" by simp
  with h show ?thesis by simp
qed

lemma ss_split_frame:
  assumes "aead_ok a" "length nonce = 12" "length p + 16 < 65536"
  shows "ss_split a k (ss_frame a k nonce p @ r) = Some (p, r)"
proof -
  let ?ct = "seal a k nonce p"
  have l: "length ?ct = length p + 16" by (rule aead_okD(2) [OF assms(1)])
  have t: "take 2 (drop 12 (ss_frame a k nonce p @ r)) = put_u16 (length ?ct)"
    "take 12 (ss_frame a k nonce p @ r) = nonce"
    "drop 14 (ss_frame a k nonce p @ r) = ?ct @ r"
    using assms(2) by (simp_all add: ss_frame_def)
  have len: "length (ss_frame a k nonce p @ r) = 14 + length ?ct + length r"
    using assms(2) by (simp add: ss_frame_def)
  have d: "drop (14 + (length p + 16)) (ss_frame a k nonce p @ r) = r"
    using t(3) l by (metis append_eq_conv_conj drop_drop add.commute)
  show ?thesis
    unfolding ss_split_def Let_def t len
    using assms(3) l d aead_okD(1) [OF assms(1), of k nonce p] by simp
qed

definition ss_buffered :: "ssAEAD \<Rightarrow> bytes" where
  "ss_buffered c = drop (ss_off c) (ss_buf c)"

lemma ss_deliver_buffered:
  "ss_deliver c n = (out, c') \<Longrightarrow>
     out = take n (ss_buffered c) \<and> ss_buffered c' = drop n (ss_buffered c) \<and> ss_key c' = ss_key c"
  by (auto simp: ss_deliver_def ss_buffered_def Let_def add.commute split: if_splits)

context byte_stream
begin

lemma ss_framed:
  assumes a: "aead_ok a"
  shows "framed_session rd content ok work (ss_read a rd) ss_buffered
    (\<lambda>c. ss_key c = k) (ss_split a k)"
proof unfold_locales
  show "ss_split a k bs = Some (p, r) \<Longrightarrow> length p + length r < length bs" for bs p r
    by (rule ss_split_shrinks [OF a])
next
  fix c :: ssAEAD and n :: nat and s :: 's
  assume h: "ss_key c = k" "ss_buffered c \<noteq> []"
  obtain out c' where d: "ss_deliver c n = (out, c')" by fastforce
  with h ss_deliver_buffered [OF d]
  show "\<exists>c'. ss_read a rd (c, s) n = Some (take n (ss_buffered c), None, (c', s)) \<and>
      ss_key c' = k \<and> ss_buffered c' = drop n (ss_buffered c)"
    by (auto simp: ss_read_def ss_buffered_def)
next
  fix c :: ssAEAD and s :: 's and n :: nat and p r
  assume h: "ss_key c = k" "ok s" "ss_buffered c = []" "ss_split a k (content s) = Some (p, r)"
  define m where "m = be_get (take 2 (drop 12 (content s)))"
  from h(4) have sp: "14 + m \<le> length (content s)" "m \<noteq> 0"
    "unseal a k (take 12 (content s)) (take m (drop 14 (content s))) = Some p"
    "r = drop (14 + m) (content s)"
    by (auto simp: ss_split_def Let_def m_def [symmetric] split: if_splits option.splits)
  have m: "m < 65536" using be_get_bound [of "take 2 (drop 12 (content s))"] sp(1)
    by (simp add: m_def)
  from read_full_content [OF h(2), of 14] sp(1) obtain s1 where
    s1: "read_full rd s 14 = Some (take 14 (content s), None, s1)"
    "content s1 = drop 14 (content s)" "ok s1" by auto
  have "m \<le> length (content s1)" using sp(1) s1(2) by simp
  from read_full_content [OF s1(3) this] s1(2) obtain s2 where
    s2: "read_full rd s1 m = Some (take m (drop 14 (content s)), None, s2)"
    "content s2 = r" "ok s2" using sp(4) by (auto simp: add.commute)
  have hd: "drop 12 (take 14 (content s)) = take 2 (drop 12 (content s))"
    "take 12 (take 14 (content s)) = take 12 (content s)"
    by (simp_all add: drop_take)
  obtain out c' where d: "ss_deliver (c\<lparr>ss_buf := p, ss_off := 0\<rparr>) n = (out, c')" by fastforce
  from ss_deliver_buffered [OF d] h(1) have "out = take n p" "ss_buffered c' = drop n p" "ss_key c' = k"
    by (simp_all add: ss_buffered_def)
  moreover have "\<not> ss_off c < length (ss_buf c)" using h(3) by (simp add: ss_buffered_def)
  ultimately show "\<exists>c' s'. ss_read a rd (c, s) n = Some (take n p, None, (c', s')) \<and>
      ss_key c' = k \<and> ss_buffered c' = drop n p \<and> ok s' \<and> content s' = r"
    using s1 s2 m sp(2,3) h(1) d
    by (auto simp: ss_read_def nonceSize_def hd m_def [symmetric] Let_def)
qed

end

definition ss_fit :: "bytes \<Rightarrow> ssAEAD \<Rightarrow> bool" where
  "ss_fit k c \<longleftrightarrow> ss_key c = k \<and> ss_rand c \<noteq> None"

definition ss_fits :: "bytes \<Rightarrow> bool" where
  "ss_fits p \<longleftrightarrow> length p + 16 < 65536"

context byte_sink
begin

lemma ss_framing:
  assumes a: "aead_ok a"
  shows "framing_writer wr sent up (ss_write a wr) (ss_fit k) ss_fits (ss_split a k)"
proof unfold_locales
  fix s :: 's and c :: ssAEAD and p :: bytes
  assume h: "up s" "ss_fit k c" "ss_fits p"
  show "\<exists>f c' s'. ss_write a wr (c, s) p = (length p, None, (c', s')) \<and>
      frame_of (ss_split a k) p f \<and> sent s' = sent s @ f \<and> up s' \<and> ss_fit k c'"
  proof (cases "p = []")
    case True
    with h show ?thesis
      by (intro exI [of _ "[]"] exI [of _ c] exI [of _ s]) (simp add: ss_write_def frame_of_def)
  next
    case False
    from h(2) obtain g where g: "ss_rand c = Some g" by (auto simp: ss_fit_def)
    obtain nonce g' where r: "rand_bytes 12 g = (nonce, g')" by fastforce
    then have ln: "length nonce = 12" using length_rand_bytes [of 12 g] by simp
    let ?ct = "seal a k nonce p"
    have lc: "length ?ct = length p + 16" by (rule aead_okD(2) [OF a])
    from write_sent [OF h(1), of "nonce @ put_u16 (length ?ct)"] obtain s1 where
      s1: "wr s (nonce @ put_u16 (length ?ct)) = (14, None, s1)"
      "sent s1 = sent s @ nonce @ put_u16 (length ?ct)" "up s1" using ln by auto
    from write_sent [OF s1(3), of ?ct] obtain s2 where
      s2: "wr s1 ?ct = (length ?ct, None, s2)" "sent s2 = sent s1 @ ?ct" "up s2" by blast
    have "frame_of (ss_split a k) p (ss_frame a k nonce p)"
      using ss_split_frame [OF a ln] h(3) ln
      by (intro frame_ofI) (auto simp: ss_frame_def ss_fits_def)
    with s1 s2 h False g r lc show ?thesis
      by (intro exI [of _ "ss_frame a k nonce p"] exI [of _ "c\<lparr>ss_rand := Some g'\<rparr>"] exI [of _ s2])
        (simp add: ss_write_def crypto_rand_def nonceSize_def ss_fit_def ss_fits_def ss_frame_def Let_def)
  qed
qed

end

section \<open>Properties\<close>

text \<open>
  C31: two shadowsocks sessions with the same password understand each other. For every cipher that
  opens what it sealed, messages of at most 65519 bytes are each written in full without error,
  and the peer reads back exactly their concatenation, however the network cuts the frames.
\<close>

theorem shadowsocks_roundtrip:
  assumes "aead_ok a" "ss_rand cw \<noteq> None" "ss_key cr = ss_key cw" "ss_buf cr = []"
    and "\<forall>m\<in>set ms. length m \<le> 0xFFFF - 16"
    and "\<not> closed w" "tx_room w = None" "tx w = []"
    and "send_all (ss_write a wire_write) (cw, w) ms = (rs, (cw', w'))"
    and "concat (rx r) = tx w'" "\<not> closed r" "k \<le> length (concat ms)"
  shows "rs = map (\<lambda>m. (length m, None)) ms \<and>
    (\<exists>st. read_full (ss_read a wire_read) (cr, r) k = Some (take k (concat ms), None, st))"
proof -
  have "wire_up w" "ss_fit (ss_key cw) cw" "list_all ss_fits ms"
    using assms(2,5-7) by (auto simp: wire_up_def ss_fit_def ss_fits_def list_all_iff)
  from framing_writer.send_all_frames [OF wiresink.ss_framing [OF assms(1)] this assms(9)] assms(8)
  obtain fs where fs: "rs = map (\<lambda>m. (length m, None)) ms"
    "list_all2 (frame_of (ss_split a (ss_key cw))) ms fs" "tx w' = concat fs" by auto
  have "wire_ok r" "ss_buffered cr = []" "wire_content r = concat fs"
    using assms fs(3) by (simp_all add: wire_ok_def ss_buffered_def wire_content_def)
  from framed_session.read_messages [OF wirestream.ss_framed [OF assms(1)] assms(3) this fs(2) assms(12)]
    fs(1) show ?thesis by auto
qed

definition wit_ss :: ssAEAD where
  "wit_ss = \<lparr>ss_key = ''k'', ss_buf = [], ss_off = 0, ss_rand = Some (rng_of (\<lambda>i. i))\<rparr>"

lemma shadowsocks_roundtrip_witness:
  "\<exists>rs cw' w' st. send_all (ss_write tag_aead wire_write) (wit_ss, wire_of [] (Some EOF))
       [''GET /'', ''x''] = (rs, (cw', w')) \<and> rs = [(5, None), (1, None)] \<and>
     read_full (ss_read tag_aead wire_read)
       (wit_ss, wire_of [take 9 (tx w'), drop 9 (tx w')] (Some EOF)) 6 = Some (''GET /x'', None, st)"
proof -
  obtain rs cw' w' where s: "send_all (ss_write tag_aead wire_write) (wit_ss, wire_of [] (Some EOF))
       [''GET /'', ''x''] = (rs, (cw', w'))" by (metis prod_cases3)
  have "rs = map (\<lambda>m. (length m, None)) [''GET /'', ''x''] \<and>
    (\<exists>st. read_full (ss_read tag_aead wire_read)
       (wit_ss, wire_of [take 9 (tx w'), drop 9 (tx w')] (Some EOF)) 6 =
       Some (take 6 (concat [''GET /'', ''x'']), None, st))"
    by (rule shadowsocks_roundtrip [OF tag_aead_ok _ _ _ _ _ _ _ s])
      (simp_all add: wit_ss_def wire_of_def)
  with s show ?thesis by auto
qed

end
