(* ===== verification/Hysteria2.thy ===== *)
theory Hysteria2
  imports CryptoIface Padding ProtoIface
begin

text \<open>
  \<open>pkg/protoadapters/hysteria2\<close>: a write is cut into chunks of at most 16 KiB, each sealed together
  with random padding into a frame \<open>[length 4][nonce 12][ciphertext]\<close>. A read opens one frame and
  hands the caller the first bytes of payload and padding, without keeping the rest. So the session
  is not a framed session: the theorems state exactly what a reader gets.
\<close>

record h2_session =
  h2_key :: bytes
  h2_closed :: bool
  sendCtr :: nat
  h2_rng :: rng

definition h2NonceSize :: nat where
  "h2NonceSize = 12"

definition h2HeaderSize :: nat where
  "h2HeaderSize = 4 + h2NonceSize"

definition h2MaxPayload :: nat where
  "h2MaxPayload = 16 * 1024"

definition h2MaxPadBytes :: nat where
  "h2MaxPadBytes = 512"

definition new_h2_session :: "digests \<Rightarrow> rng \<Rightarrow> bytes \<Rightarrow> h2_session" where
  "new_h2_session d g token =
     \<lparr>h2_key = sha256 d token, h2_closed = False, sendCtr = 0, h2_rng = g\<rparr>"

definition h2_handshake :: "digests \<Rightarrow> rng \<Rightarrow> Config option \<Rightarrow> err + h2_session" where
  "h2_handshake d g cfg =
     (case cfg of
        None \<Rightarrow> Inl (Err ''hysteria2: missing config'')
      | Some cfg \<Rightarrow> Inr (new_h2_session d g (Token cfg)))"

definition h2_features :: Features where
  "h2_features =
     \<lparr>f_transports = [''quic'', ''tcp''], f_mux = True, f_encryption = ''aes-256-gcm'',
      f_obfuscation = True,
      f_description = ''Hysteria2-like encrypted framing session over QUIC/TCP'',
      f_experimental = True\<rparr>"

text \<open>\<open>Close\<close>: whether the stream below has to be closed.\<close>

definition h2_close :: "h2_session \<Rightarrow> h2_session \<times> bool" where
  "h2_close c = (if h2_closed c then (c, False) else (c\<lparr>h2_closed := True\<rparr>, True))"

section \<open>Write\<close>

definition h2_nonce :: "nat \<Rightarrow> bytes" where
  "h2_nonce ctr = replicate 4 (CHR 0x00) @ put_u64 ctr"

definition h2_frame :: "aead \<Rightarrow> bytes \<Rightarrow> nat \<Rightarrow> bytes \<Rightarrow> bytes" where
  "h2_frame a k ctr payload =
     put_u32 (length (seal a k (h2_nonce ctr) payload)) @ h2_nonce ctr @
     seal a k (h2_nonce ctr) payload"

text \<open>One chunk: the error of the two writes, and the state behind them.\<close>

definition h2_write_chunk ::
  "aead \<Rightarrow> 's writer \<Rightarrow> h2_session \<times> 's \<Rightarrow> bytes \<Rightarrow> err option \<times> h2_session \<times> 's"
where
  "h2_write_chunk a wr cs chunk =
     (case cs of (c, s) \<Rightarrow>
        case intn (h2MaxPadBytes + 1) (h2_rng c) of (padLen, g1) \<Rightarrow>
        case rand_bytes padLen g1 of (pad, g2) \<Rightarrow>
          let nonce = h2_nonce (sendCtr c);
              c1 = c\<lparr>h2_rng := g2, sendCtr := (sendCtr c + 1) mod 2 ^ 64\<rparr>;
              ct = seal a (h2_key c) nonce (chunk @ pad)
          in case wr s (put_u32 (length ct) @ nonce) of
               (_, Some e, s1) \<Rightarrow> (Some e, c1, s1)
             | (_, None, s1) \<Rightarrow>
                 (case wr s1 ct of (_, e, s2) \<Rightarrow> (e, c1, s2)))"

function h2_write_loop ::
  "aead \<Rightarrow> 's writer \<Rightarrow> h2_session \<times> 's \<Rightarrow> nat \<Rightarrow> bytes \<Rightarrow> nat \<times> err option \<times> h2_session \<times> 's"
where
  "h2_write_loop a wr cs written p =
     (if p = [] then (written, None, cs)
      else let chunk = take h2MaxPayload p
        in case h2_write_chunk a wr cs chunk of
             (Some e, cs1) \<Rightarrow> (written, Some e, cs1)
           | (None, cs1) \<Rightarrow>
               h2_write_loop a wr cs1 (written + length chunk) (drop (length chunk) p))"
  by pat_completeness auto
termination
  by (relation "measure (\<lambda>(a, wr, cs, written, p). length p)") (auto simp: h2MaxPayload_def)

declare h2_write_loop.simps [simp del]

definition h2_write :: "aead \<Rightarrow> 's writer \<Rightarrow> (h2_session \<times> 's) writer" where
  "h2_write a wr cs p =
     (if h2_closed (fst cs) then (0, Some ErrClosedPipe, cs) else h2_write_loop a wr cs 0 p)"

section \<open>Read\<close>

definition h2_read :: "aead \<Rightarrow> 's reader \<Rightarrow> (h2_session \<times> 's) reader" where
  "h2_read a rd cs n =
     (case cs of (c, s) \<Rightarrow>
        if h2_closed c then Some ([], Some EOF, (c, s))
        else case read_full rd s h2HeaderSize of
          None \<Rightarrow> None
        | Some (_, Some e, s1) \<Rightarrow> Some ([], Some e, (c, s1))
        | Some (header, None, s1) \<Rightarrow>
            let ctLen = be_get (take 4 header)
            in if ctLen = 0 then Some ([], None, (c, s1))
               else case read_full rd s1 ctLen of
                 None \<Rightarrow> None
               | Some (_, Some e, s2) \<Rightarrow> Some ([], Some e, (c, s2))
               | Some (ct, None, s2) \<Rightarrow>
                   (case unseal a (h2_key c) (drop 4 header) ct of
                      None \<Rightarrow> Some ([], Some err_auth, (c, s2))
                    | Some plain \<Rightarrow>
                        Some (if length plain \<le> n then plain else take n plain, None, (c, s2))))"

section \<open>What is written and what is read\<close>

context byte_sink
begin

lemma h2_write_chunk_frame:
  assumes "aead_ok a" "up s" "length chunk \<le> h2MaxPayload"
  shows "\<exists>pad c' s'. h2_write_chunk a wr (c, s) chunk = (None, c', s') \<and>
    sent s' = sent s @ h2_frame a (h2_key c) (sendCtr c) (chunk @ pad) \<and> up s' \<and>
    length pad = fst (intn (h2MaxPadBytes + 1) (h2_rng c)) \<and> length pad \<le> h2MaxPadBytes \<and>
    h2_key c' = h2_key c \<and> h2_closed c' = h2_closed c"
proof -
  obtain k g1 where k: "intn (h2MaxPadBytes + 1) (h2_rng c) = (k, g1)" by fastforce
  have kb: "k \<le> h2MaxPadBytes" using intn_less [of "h2MaxPadBytes + 1" "h2_rng c"] k by simp
  obtain pad g2 where r: "rand_bytes k g1 = (pad, g2)" by fastforce
  then have lp: "length pad = k" using length_rand_bytes [of k g1] by simp
  let ?n = "h2_nonce (sendCtr c)"
  let ?ct = "seal a (h2_key c) ?n (chunk @ pad)"
  from write_sent [OF assms(2), of "put_u32 (length ?ct) @ ?n"] obtain s1 n1 where
    s1: "wr s (put_u32 (length ?ct) @ ?n) = (n1, None, s1)"
    "sent s1 = sent s @ put_u32 (length ?ct) @ ?n" "up s1" by blast
  from write_sent [OF s1(3), of ?ct] obtain s2 n2 where
    s2: "wr s1 ?ct = (n2, None, s2)" "sent s2 = sent s1 @ ?ct" "up s2" by blast
  let ?c = "c\<lparr>h2_rng := g2, sendCtr := (sendCtr c + 1) mod 2 ^ 64\<rparr>"
  have "h2_write_chunk a wr (c, s) chunk = (None, ?c, s2)"
    by (simp add: h2_write_chunk_def k [simplified] r Let_def s1(1) s2(1))
  with s1 s2 lp kb k show ?thesis
    by (intro exI [of _ pad] exI [of _ ?c] exI [of _ s2]) (simp add: h2_frame_def)
qed

end

context byte_stream
begin

lemma h2_read_frame:
  assumes a: "aead_ok a" and s: "ok s" and c: "\<not> h2_closed c" "h2_key c = k"
    and f: "content s = h2_frame a k ctr pl @ r" and l: "length pl + 16 < 2 ^ 32"
  shows "\<exists>s'. h2_read a rd (c, s) n = Some (take n pl, None, (c, s')) \<and> content s' = r \<and> ok s'"
proof -
  let ?ct = "seal a k (h2_nonce ctr) pl"
  have lc: "length ?ct = length pl + 16" by (rule aead_okD(2) [OF a])
  have ln: "length (h2_nonce ctr) = 12" by (simp add: h2_nonce_def)
  let ?h = "put_u32 (length ?ct) @ h2_nonce ctr"
  have cs: "content s = ?h @ (?ct @ r)" using f by (simp add: h2_frame_def)
  from read_full_append [OF s cs] ln obtain s1 where s1:
    "read_full rd s 16 = Some (?h, None, s1)" "content s1 = ?ct @ r" "ok s1" by auto
  from read_full_append [OF s1(3,2)] obtain s2 where s2:
    "read_full rd s1 (length ?ct) = Some (?ct, None, s2)" "content s2 = r" "ok s2" by blast
  have "be_get (take 4 ?h) = length ?ct" "drop 4 ?h = h2_nonce ctr" "length ?ct \<noteq> 0"
    using l lc by simp_all
  with s1 s2 c aead_okD(1) [OF a, of k "h2_nonce ctr" pl] show ?thesis
    by (simp add: h2_read_def h2HeaderSize_def h2NonceSize_def Let_def)
qed

end

section \<open>Properties\<close>

text \<open>
  What a hysteria2 reader gets for one write of 1 to 16384 bytes: for every cipher that opens
  what it sealed, the write succeeds in full and is one frame; a read with a buffer of \<open>n\<close> bytes
  returns the first \<open>n\<close> bytes of the message followed by the random padding of the frame. A buffer
  of exactly the message's size therefore receives exactly the message, and a smaller one a proper
  prefix of it whose remainder is lost: the next read starts at the next frame.
\<close>

theorem hysteria2_message:
  assumes "aead_ok a" "\<not> h2_closed cw" "\<not> h2_closed cr" "h2_key cr = h2_key cw"
    and "0 < length m" "length m \<le> h2MaxPayload"
    and "\<not> closed w" "tx_room w = None" "tx w = []"
    and "h2_write a wire_write (cw, w) m = (n_written, e, (cw', w'))"
    and "concat (rx r) = tx w' @ next_frames" "\<not> closed r"
  shows "n_written = length m \<and> e = None \<and>
    (\<exists>pad r'. length pad = fst (intn (h2MaxPadBytes + 1) (h2_rng cw)) \<and>
       h2_read a wire_read (cr, r) n = Some (take n (m @ pad), None, (cr, r')) \<and>
       (n \<le> length m \<longrightarrow> take n (m @ pad) = take n m) \<and>
       concat (rx r') = next_frames)"
proof -
  have up: "wire_up w" using assms(7,8) by (simp add: wire_up_def)
  have ch: "take h2MaxPayload m = m" using assms(6) by simp
  from wiresink.h2_write_chunk_frame [OF assms(1) up assms(6), of cw] obtain pad c1 w1 where
    w1: "h2_write_chunk a wire_write (cw, w) m = (None, c1, w1)"
    "tx w1 = tx w @ h2_frame a (h2_key cw) (sendCtr cw) (m @ pad)"
    "length pad = fst (intn (h2MaxPadBytes + 1) (h2_rng cw))" "length pad \<le> h2MaxPadBytes" by blast
  have "h2_write a wire_write (cw, w) m = (length m, None, (c1, w1))"
    using assms(2,5) w1(1) ch by (simp add: h2_write_def h2_write_loop.simps)
  with assms(10) have wr: "n_written = length m" "e = None" "w' = w1" by simp_all
  have "wire_content r = h2_frame a (h2_key cw) (sendCtr cw) (m @ pad) @ next_frames" "wire_ok r"
    using assms(9,11,12) w1(2) wr(3) by (simp_all add: wire_content_def wire_ok_def)
  moreover have "length (m @ pad) + 16 < 2 ^ 32"
    using assms(6) w1(4) by (simp add: h2MaxPayload_def h2MaxPadBytes_def)
  ultimately obtain r' where
    "h2_read a wire_read (cr, r) n = Some (take n (m @ pad), None, (cr, r'))" "wire_content r' = next_frames"
    using wirestream.h2_read_frame [OF assms(1) _ assms(3,4)] by meson
  with w1(3) wr show ?thesis by (auto simp: wire_content_def)
qed

definition wit_h2 :: h2_session where
  "wit_h2 = \<lparr>h2_key = ''k'', h2_closed = False, sendCtr = 0, h2_rng = rng_of (\<lambda>i. 3)\<rparr>"

lemma hysteria2_message_witness:
  "\<exists>cw' w' pad r'. h2_write tag_aead wire_write (wit_h2, wire_of [] (Some EOF)) ''ping'' = (4, None, (cw', w')) \<and>
     length pad = 3 \<and>
     h2_read tag_aead wire_read (wit_h2, wire_of [tx w'] (Some EOF)) 4096 =
       Some (''ping'' @ pad, None, (wit_h2, r'))"
proof -
  obtain n e cw' w' where s:
    "h2_write tag_aead wire_write (wit_h2, wire_of [] (Some EOF)) ''ping'' = (n, e, (cw', w'))"
    by (metis prod_cases4)
  have "n = length ''ping'' \<and> e = None \<and>
    (\<exists>pad r'. length pad = fst (intn (h2MaxPadBytes + 1) (h2_rng wit_h2)) \<and>
       h2_read tag_aead wire_read (wit_h2, wire_of [tx w'] (Some EOF)) 4096 =
         Some (take 4096 (''ping'' @ pad), None, (wit_h2, r')) \<and>
       (4096 \<le> length ''ping'' \<longrightarrow> take 4096 (''ping'' @ pad) = take 4096 ''ping'') \<and>
       concat (rx r') = [])"
    by (rule hysteria2_message [OF tag_aead_ok _ _ _ _ _ _ _ _ s])
      (simp_all add: wit_h2_def wire_of_def h2MaxPayload_def)
  then obtain pad r' where
    "n = 4" "e = None" "length pad = 3"
    "h2_read tag_aead wire_read (wit_h2, wire_of [tx w'] (Some EOF)) 4096 =
       Some (take 4096 (''ping'' @ pad), None, (wit_h2, r'))"
    by (auto simp: wit_h2_def rng_of_def intn_def h2MaxPadBytes_def)
  with s show ?thesis by auto
qed

end
