(* ===== verification/IOFrame.thy ===== *)
theory IOFrame
  imports GoIO
begin

text \<open>
  What reading leaves alone. A relation that every read of a stream respects is respected by
  \<open>io.ReadFull\<close> and by everything a \<open>bufio.Reader\<close> does; on the network end, reading changes
  neither what was sent nor the deadline.
\<close>

section \<open>Relations that reading respects\<close>

lemma read_loop_rel:
  assumes step: "\<And>s n bs e s'. rd s n = Some (bs, e, s') \<Longrightarrow> R s s'"
    and "reflp R" "transp R" and h: "read_loop rd s least cap acc = Some (bs, e, s')"
  shows "R s s'"
proof -
  let ?P = "\<lambda>rd' s (l :: nat) (c :: nat) (a :: bytes) (r :: bytes \<times> err option \<times> 'a).
    rd' = rd \<longrightarrow> R s (snd (snd r))"
  have "?P rd s least cap acc (bs, e, s')"
  proof (rule read_loop.raw_induct [of ?P, OF _ h])
    fix f rd' s l c a r
    assume IH: "\<And>rd' s l c a r. f rd' s l c a = Some r \<Longrightarrow> ?P rd' s l c a r"
      and s: "(if length a < l then case rd' s (c - length a) of None \<Rightarrow> None
        | Some (bs, None, s') \<Rightarrow> f rd' s' l c (a @ bs)
        | Some (bs, Some x, s') \<Rightarrow> Some (a @ bs, at_least_err (a @ bs) l x, s')
        else Some (a, None, s)) = Some r"
    show "?P rd' s l c a r"
      using s IH assms(2,3)
      by (auto split: if_splits option.splits dest!: step intro: reflpD)
        (metis IH transpD)
  qed
  then show ?thesis by simp
qed

lemma bufio_fill_rel:
  assumes step: "\<And>s n bs e s'. rd s n = Some (bs, e, s') \<Longrightarrow> R s s'" and "reflp R" "transp R"
  shows "bufio_fill k rd b = Some b' \<Longrightarrow> R (b_src b) (b_src b')"
proof (induction k arbitrary: b)
  case 0
  with assms(2) show ?case by (auto intro: reflpD)
next
  case (Suc k)
  then obtain bs e s' where r: "rd (b_src b) (bufio_size - length (b_buf b)) = Some (bs, e, s')"
    by (auto split: option.splits)
  note s = step [OF r]
  show ?case
  proof (cases "e = None \<and> bs = []")
    case True
    with Suc.prems r have "bufio_fill k rd (b\<lparr>b_src := s', b_buf := b_buf b @ bs\<rparr>) = Some b'"
      by (simp add: Let_def)
    from Suc.IH [OF this] s assms(3) show ?thesis by (auto dest: transpD)
  next
    case False
    with Suc.prems r s show ?thesis by (auto simp: Let_def split: option.splits if_splits)
  qed
qed

lemma read_string_rel:
  assumes step: "\<And>s n bs e s'. rd s n = Some (bs, e, s') \<Longrightarrow> R s s'"
    and R: "reflp R" "transp R" and h: "read_string rd b acc = Some (l, e, b')"
  shows "R (b_src b) (b_src b')"
proof -
  let ?P = "\<lambda>rd' b (a :: bytes) (r :: bytes \<times> err option \<times> 'a bufrd).
    rd' = rd \<longrightarrow> R (b_src b) (b_src (snd (snd r)))"
  have fills: "bufio_fill k rd b = Some b' \<Longrightarrow> R (b_src b) (b_src b')" for k b b'
    by (rule bufio_fill_rel [OF step R])
  have "?P rd b acc (l, e, b')"
  proof (rule read_string.raw_induct [of ?P, OF _ h])
    fix f rd' b a r
    assume IH: "\<And>rd' b a r. f rd' b a = Some r \<Longrightarrow> ?P rd' b a r"
      and s: "(if newline \<in> set (b_buf b) then
        let l = takeWhile (\<lambda>c. c \<noteq> newline) (b_buf b) @ [newline]
        in Some (a @ l, None, b\<lparr>b_buf := drop (length l) (b_buf b)\<rparr>)
      else case b_err b of
        None \<Rightarrow>
          if bufio_size \<le> length (b_buf b) then f rd' (b\<lparr>b_buf := []\<rparr>) (a @ b_buf b)
          else (case bufio_fill 100 rd' b of None \<Rightarrow> None | Some b' \<Rightarrow> f rd' b' a)
      | Some e \<Rightarrow> Some (a @ b_buf b, Some e, b\<lparr>b_buf := [], b_err := None\<rparr>)) = Some r"
    show "?P rd' b a r"
    proof
      assume rd: "rd' = rd"
      consider (found) "newline \<in> set (b_buf b)" | (err) x where "newline \<notin> set (b_buf b)" "b_err b = Some x"
        | (full) "newline \<notin> set (b_buf b)" "b_err b = None" "bufio_size \<le> length (b_buf b)"
        | (fill) "newline \<notin> set (b_buf b)" "b_err b = None" "\<not> bufio_size \<le> length (b_buf b)"
        by (cases "b_err b") blast+
      then show "R (b_src b) (b_src (snd (snd r)))"
      proof cases
        case found
        with s R(1) show ?thesis by (auto simp: Let_def intro: reflpD)
      next
        case err
        with s R(1) show ?thesis by (auto intro: reflpD)
      next
        case full
        with s have "f rd' (b\<lparr>b_buf := []\<rparr>) (a @ b_buf b) = Some r" by simp
        from IH [OF this] rd show ?thesis by simp
      next
        case fill
        with s rd obtain b1 where b1: "bufio_fill 100 rd b = Some b1" "f rd' b1 a = Some r"
          by (auto split: option.splits)
        from IH [OF b1(2)] rd fills [OF b1(1)] R(2) show ?thesis by (auto dest: transpD)
      qed
    qed
  qed
  then show ?thesis by simp
qed

section \<open>The network end\<close>

lemma wire_read_frame:
  "wire_read w n = Some (bs, e, w') \<Longrightarrow> tx w' = tx w \<and> tx_room w' = tx_room w \<and> closed w' = closed w \<and> deadline w' = deadline w"
  by (auto simp: wire_read_def split: if_splits list.splits option.splits)

definition same_sent :: "wire \<Rightarrow> wire \<Rightarrow> bool" where
  "same_sent w w' \<longleftrightarrow> tx w' = tx w \<and> tx_room w' = tx_room w \<and> closed w' = closed w \<and> deadline w' = deadline w"

definition same_sent_buf :: "wire bufrd \<Rightarrow> wire bufrd \<Rightarrow> bool" where
  "same_sent_buf b b' \<longleftrightarrow> same_sent (b_src b) (b_src b')"

lemma same_sent_order: "reflp same_sent" "transp same_sent" "reflp same_sent_buf" "transp same_sent_buf"
  by (auto simp: same_sent_def same_sent_buf_def reflp_def transp_def)

lemma bufio_read_sent: "bufio_read wire_read b n = Some (bs, e, b') \<Longrightarrow> same_sent_buf b b'"
  by (auto simp: bufio_read_def same_sent_buf_def same_sent_def dest!: wire_read_frame
      split: if_splits option.splits)

lemma read_full_sent:
  "read_full wire_read w k = Some (bs, e, w') \<Longrightarrow> same_sent w w'"
  "read_full (bufio_read wire_read) b k = Some (bs, e, b') \<Longrightarrow> same_sent_buf b b'"
  using read_loop_rel [of wire_read same_sent w k k "[]" bs e w']
    read_loop_rel [of "bufio_read wire_read" same_sent_buf b k k "[]" bs e b']
  by (auto simp: read_full_def read_at_least_def same_sent_order same_sent_def
      dest: wire_read_frame intro: bufio_read_sent)

lemma bufio_fill_frame:
  "bufio_fill k wire_read b = Some b' \<Longrightarrow>
     tx (b_src b') = tx (b_src b) \<and> tx_room (b_src b') = tx_room (b_src b) \<and>
     closed (b_src b') = closed (b_src b) \<and> deadline (b_src b') = deadline (b_src b)"
  using bufio_fill_rel [of wire_read same_sent k b b'] same_sent_order
  by (auto simp: same_sent_def dest: wire_read_frame)

lemma read_string_frame:
  "read_string wire_read b acc = Some (l, e, b') \<Longrightarrow>
     tx (b_src b') = tx (b_src b) \<and> tx_room (b_src b') = tx_room (b_src b) \<and>
     closed (b_src b') = closed (b_src b) \<and> deadline (b_src b') = deadline (b_src b)"
  using read_string_rel [of wire_read same_sent b acc l e b'] same_sent_order
  by (auto simp: same_sent_def dest: wire_read_frame)

end
