(* ===== verification/TokenAuth.thy ===== *)
theory TokenAuth
  imports ProtoIface IOFrame
begin

text \<open>
  \<open>pkg/protoadapters/vless\<close> and \<open>pkg/protoadapters/trojan\<close>: authentication by a shared token. The
  client sends the token on a line of its own and waits for \<open>OK\<close>; the server compares the line
  with its token. The two packages differ in how they check the configuration and in the prefix of
  their error messages.

  A handshake returns its error (\<open>None\<close> for success) and the stream, which is the session. The
  buffered reader it reads the line with is dropped, and with it whatever it holds.
\<close>

section \<open>The exchange\<close>

definition token_client ::
  "bytes \<Rightarrow> 's rwc \<Rightarrow> bytes \<Rightarrow> 's \<Rightarrow> (err option \<times> 's) option"
where
  "token_client pkg io token s =
     (case write_string io s (token @ nl) of
        (Some e, s1) \<Rightarrow> Some (Some (wrap_err (pkg @ '' client: write token'') e), s1)
      | (None, s1) \<Rightarrow>
          (case read_line (s_read io) (new_bufrd s1) of
             None \<Rightarrow> None
           | Some (_, Some e, br) \<Rightarrow> Some (Some (wrap_err (pkg @ '' client: read response'') e), b_src br)
           | Some (line, None, br) \<Rightarrow>
               let line = trim_space line
               in if line \<noteq> ''OK''
                  then Some (Some (Err (pkg @ '' client: unexpected response '' @ go_quote line)), b_src br)
                  else Some (None, b_src br)))"

definition token_server ::
  "bytes \<Rightarrow> 's rwc \<Rightarrow> bytes \<Rightarrow> 's \<Rightarrow> (err option \<times> 's) option"
where
  "token_server pkg io token s =
     (case read_line (s_read io) (new_bufrd s) of
        None \<Rightarrow> None
      | Some (_, Some e, br) \<Rightarrow>
          (case write_string io (b_src br) (''ERR'' @ nl) of
             (_, s1) \<Rightarrow> Some (Some (wrap_err (pkg @ '' server: read token'') e), s1))
      | Some (line, None, br) \<Rightarrow>
          if trim_space line \<noteq> token then
            (case write_string io (b_src br) (''ERR'' @ nl) of
               (_, s1) \<Rightarrow> Some (Some (Err (pkg @ '' server: invalid token'')), s1))
          else case write_string io (b_src br) (''OK'' @ nl) of
            (Some e, s1) \<Rightarrow> Some (Some (wrap_err (pkg @ '' server: write OK'') e), s1)
          | (None, s1) \<Rightarrow> Some (None, s1))"

section \<open>The packages\<close>

definition vless_client :: "'s rwc \<Rightarrow> bytes \<Rightarrow> 's \<Rightarrow> (err option \<times> 's) option" where
  "vless_client = token_client ''vless''"

definition vless_server :: "'s rwc \<Rightarrow> bytes \<Rightarrow> 's \<Rightarrow> (err option \<times> 's) option" where
  "vless_server = token_server ''vless''"

definition trojan_client :: "'s rwc \<Rightarrow> bytes \<Rightarrow> 's \<Rightarrow> (err option \<times> 's) option" where
  "trojan_client = token_client ''trojan''"

definition trojan_server :: "'s rwc \<Rightarrow> bytes \<Rightarrow> 's \<Rightarrow> (err option \<times> 's) option" where
  "trojan_server = token_server ''trojan''"

definition vless_handshake ::
  "'s rwc \<Rightarrow> Config option \<Rightarrow> 's \<Rightarrow> (err option \<times> 's) option"
where
  "vless_handshake io cfg s =
     (case cfg of
        None \<Rightarrow> Some (Some (Err ''vless: missing config''), s)
      | Some cfg \<Rightarrow>
          (case raw_get cfg ''role'' of
             None \<Rightarrow> Some (Some (Err (''vless: missing role in config.Raw['' @ go_quote ''role'' @ '']'')), s)
           | Some (AString role) \<Rightarrow>
               let token = trim_space (Token cfg)
               in if token = [] then Some (Some (Err ''vless: empty token''), s)
                  else
                    let s = (if Timeout cfg > 0 then s_deadline io (Timeout cfg) s else s)
                    in if role = ''client'' then vless_client io token s
                       else if role = ''server'' then vless_server io token s
                       else Some (Some (Err (''vless: unknown role '' @ go_quote role)), s)
           | Some _ \<Rightarrow> Some (Some (Err ''vless: role must be string''), s)))"

definition trojan_handshake ::
  "'s rwc \<Rightarrow> Config option \<Rightarrow> 's \<Rightarrow> (err option \<times> 's) option"
where
  "trojan_handshake io cfg s =
     (case cfg of
        None \<Rightarrow> Some (Some (Err ''trojan: missing config''), s)
      | Some cfg \<Rightarrow>
          let token = trim_space (Token cfg)
          in if token = [] then Some (Some (Err ''trojan: empty token''), s)
             else
               let s = (if Timeout cfg > 0 then s_deadline io (Timeout cfg) s else s);
                   role = to_lower (trim_space (sprint_any (raw_get cfg ''role'')))
               in if role = ''client'' then trojan_client io token s
                  else if role = ''server'' then trojan_server io token s
                  else Some (Some (Err (''trojan: unknown role '' @ go_quote role)), s))"

definition vless_features :: Features where
  "vless_features =
     \<lparr>f_transports = [''tcp''], f_mux = False, f_encryption = ''none'', f_obfuscation = True,
      f_description = ''minimal VLESS-like adapter with token-based handshake'', f_experimental = True\<rparr>"

definition trojan_features :: Features where
  "trojan_features =
     \<lparr>f_transports = [''tcp'', ''tls''], f_mux = False, f_encryption = ''none'', f_obfuscation = True,
      f_description = ''minimal Trojan-like adapter with token-based handshake'', f_experimental = True\<rparr>"

section \<open>Running the exchange over a network\<close>

text \<open>Tokens as an operator writes them: printable at both ends, on one line.\<close>

definition token_ok :: "bytes \<Rightarrow> bool" where
  "token_ok t \<longleftrightarrow> solid t \<and> newline \<notin> set t"

lemma token_okD: "token_ok t \<Longrightarrow> trim_space t = t" "token_ok t \<Longrightarrow> t \<noteq> []"
  "token_ok t \<Longrightarrow> trim_space (t @ nl) = t" "token_ok t \<Longrightarrow> newline \<notin> set t"
  by (auto simp: token_ok_def trim_space_solid solid_def)

text \<open>Reading from the wire touches neither what was sent nor the state of the connection.\<close>

lemma wire_write_up:
  "wire_up w \<Longrightarrow> wire_write w bs = (length bs, None, w\<lparr>tx := tx w @ bs\<rparr>)"
  by (simp add: wire_write_def wire_up_def)

lemma wire_line:
  assumes "wire_up w" "wire_live w" "concat (rx w) = l @ newline # rest" "newline \<notin> set l"
  shows "\<exists>br. read_line wire_read (new_bufrd w) = Some (l @ nl, None, br) \<and>
    b_buf br @ concat (rx (b_src br)) = rest \<and> wire_up (b_src br) \<and> tx (b_src br) = tx w \<and>
    deadline (b_src br) = deadline w"
proof -
  from net.read_line_content [OF assms(2) _ assms(4), of rest] assms(3) obtain br where
    br: "read_line wire_read (new_bufrd w) = Some (l @ nl, None, br)"
    "b_buf br @ concat (rx (b_src br)) = rest" by (auto simp: wire_content_def nl_def)
  from read_string_frame [OF br(1) [unfolded read_line_def]] assms(1)
  have "wire_up (b_src br)" "tx (b_src br) = tx w" "deadline (b_src br) = deadline w" by (simp_all add: new_bufrd_def wire_up_def)
  with br show ?thesis by blast
qed

lemma token_server_wire:
  assumes "wire_up w" "wire_live w" "concat (rx w) = l @ newline # rest" "newline \<notin> set l"
  shows "\<exists>w'. token_server pkg wire_rwc token w =
      Some (if trim_space (l @ nl) = token then None else Some (Err (pkg @ '' server: invalid token'')), w') \<and>
    tx w' = tx w @ (if trim_space (l @ nl) = token then ''OK'' else ''ERR'') @ nl \<and> deadline w' = deadline w"
proof -
  from wire_line [OF assms] obtain br where br:
    "read_line wire_read (new_bufrd w) = Some (l @ nl, None, br)"
    "wire_up (b_src br)" "tx (b_src br) = tx w" "deadline (b_src br) = deadline w" by blast
  then show ?thesis
    by (simp add: token_server_def wire_rwc_def write_string_def wire_write_up)
qed

lemma token_client_wire:
  assumes "wire_up w" "wire_live w" "concat (rx w) = l @ newline # rest" "newline \<notin> set l"
  shows "\<exists>e w'. token_client pkg wire_rwc token w = Some (e, w') \<and>
    (e = None \<longleftrightarrow> trim_space (l @ nl) = ''OK'') \<and> tx w' = tx w @ token @ nl \<and>
    deadline w' = deadline w"
proof -
  let ?w = "w\<lparr>tx := tx w @ token @ nl\<rparr>"
  have "wire_up ?w" "wire_live ?w" "concat (rx ?w) = l @ newline # rest"
    using assms(1-3) by (simp_all add: wire_up_def wire_live_def)
  from wire_line [OF this assms(4)] obtain br where br:
    "read_line wire_read (new_bufrd ?w) = Some (l @ nl, None, br)" "tx (b_src br) = tx ?w"
    "deadline (b_src br) = deadline ?w" by blast
  then show ?thesis
    using wire_write_up [OF assms(1)] by (simp add: token_client_def wire_rwc_def write_string_def Let_def)
qed

definition token_config :: "bytes \<Rightarrow> bytes \<Rightarrow> Config" where
  "token_config role token = role_config token 5000000000 role"

text \<open>The stream with the deadline of the handshake on it.\<close>

definition armed :: "wire \<Rightarrow> wire" where
  "armed w = w\<lparr>deadline := Some 5000000000\<rparr>"

lemma armed_simps [simp]:
  "rx (armed w) = rx w" "tx (armed w) = tx w" "tx_room (armed w) = tx_room w" "closed (armed w) = closed w"
  "wire_up (armed w) = wire_up w" "wire_live (armed w) = wire_live w" "deadline (armed w) = Some 5000000000"
  by (simp_all add: armed_def wire_up_def wire_live_def)

lemma roles_lower:
  "to_lower (trim_space ''client'') = ''client''" "to_lower (trim_space ''server'') = ''server''"
proof -
  have "solid ''client''" "solid ''server''" by (simp_all add: solid_def plain_byte_def)
  then show "to_lower (trim_space ''client'') = ''client''"
    "to_lower (trim_space ''server'') = ''server''"
    by (simp_all add: trim_space_solid(1) lower1_def)
qed

lemma handshake_roles:
  assumes "hs = vless_handshake \<or> hs = trojan_handshake" "token_ok t"
  shows "\<exists>pkg. (\<forall>w. hs wire_rwc (Some (token_config ''client'' t)) w = token_client pkg wire_rwc t (armed w)) \<and>
    (\<forall>w. hs wire_rwc (Some (token_config ''server'' t)) w = token_server pkg wire_rwc t (armed w))"
proof -
  have w: "s_deadline wire_rwc 5000000000 w = armed w" "Timeout (token_config r t) = 5000000000" for w r
    by (simp_all add: wire_rwc_def armed_def token_config_def role_config_def)
  have c: "raw_get (token_config r t) ''role'' = Some (AString r)" "trim_space (Token (token_config r t)) = t"
    "trim_space (Token (token_config r t)) \<noteq> []" "t \<noteq> []" for r
    using token_okD [OF assms(2)] by (simp_all add: token_config_def role_config_def raw_get_def)
  from assms(1) show ?thesis
  proof
    assume "hs = vless_handshake"
    then show ?thesis
      by (intro exI [of _ "''vless''"]) (simp add: vless_handshake_def vless_client_def vless_server_def w c Let_def)
  next
    assume "hs = trojan_handshake"
    then show ?thesis
      by (intro exI [of _ "''trojan''"]) (simp add: trojan_handshake_def trojan_client_def trojan_server_def w c Let_def sprint_any_def roles_lower)
  qed
qed

lemma token_server_outcome:
  assumes hs: "hs = vless_handshake \<or> hs = trojan_handshake" "token_ok ts"
    and w: "wire_up w" "wire_live w" and c: "token_ok tc" "concat (rx w) = tc @ nl @ rest"
  shows "\<exists>e w'. hs wire_rwc (Some (token_config ''server'' ts)) w = Some (e, w') \<and>
    (e = None \<longleftrightarrow> tc = ts) \<and> tx w' = tx w @ (if tc = ts then ''OK'' else ''ERR'') @ nl \<and>
    deadline w' = Some 5000000000"
proof -
  from handshake_roles [OF hs] obtain p where
    sv: "\<And>w. hs wire_rwc (Some (token_config ''server'' ts)) w = token_server p wire_rwc ts (armed w)" by blast
  have "concat (rx (armed w)) = tc @ newline # rest" using c(2) by (simp add: nl_def)
  from token_server_wire [OF _ _ this token_okD(4) [OF c(1)], of p ts] w token_okD(3) [OF c(1)]
  show ?thesis by (auto simp: sv)
qed

lemma token_client_outcome:
  assumes hs: "hs = vless_handshake \<or> hs = trojan_handshake" "token_ok tc"
    and w: "wire_up w" "wire_live w" "tx w = []"
    and c: "concat (rx w) = (if tc = ts then ''OK'' else ''ERR'') @ nl"
  shows "\<exists>e w'. hs wire_rwc (Some (token_config ''client'' tc)) w = Some (e, w') \<and>
    (e = None \<longleftrightarrow> tc = ts) \<and> tx w' = tc @ nl \<and> deadline w' = Some 5000000000"
proof -
  from handshake_roles [OF hs] obtain p where
    cl: "\<And>w. hs wire_rwc (Some (token_config ''client'' tc)) w = token_client p wire_rwc tc (armed w)" by blast
  let ?l = "if tc = ts then ''OK'' else ''ERR''"
  have l: "concat (rx (armed w)) = ?l @ newline # []" "newline \<notin> set ?l" "solid ?l"
    using c by (auto simp: nl_def solid_def plain_byte_def)
  have "?l = ''OK'' \<longleftrightarrow> tc = ts" by simp
  moreover have "wire_up (armed w)" "wire_live (armed w)" using w by simp_all
  ultimately obtain e w' where
    "token_client p wire_rwc tc (armed w) = Some (e, w')" "e = None \<longleftrightarrow> tc = ts"
    "tx w' = tc @ nl" "deadline w' = Some 5000000000"
    using token_client_wire [OF _ _ l(1,2), of p tc] trim_space_solid(2) [OF l(3)] w(3) by auto
  then show ?thesis by (simp add: cl)
qed

section \<open>Properties\<close>

text \<open>
  C34: mutual outcome of the token handshake (vless and trojan). When the line the server receives is
  the client's token, the server returns, accepts exactly when the two tokens are equal, and answers
  \<open>OK\<close> or \<open>ERR\<close>; and a client that receives this answer sends its token line and succeeds in
  exactly the same case. Neither side can hang or end with a different verdict than the other.
\<close>

theorem token_handshake_agrees:
  assumes "hs = vless_handshake \<or> hs = trojan_handshake"
    and "token_ok tc" "token_ok ts"
    and "wire_up sw" "wire_live sw" "tx sw = []" "concat (rx sw) = tc @ nl @ rest"
  shows "\<exists>es sw'. hs wire_rwc (Some (token_config ''server'' ts)) sw = Some (es, sw') \<and>
    (es = None \<longleftrightarrow> tc = ts) \<and>
    (\<forall>cw. wire_up cw \<and> wire_live cw \<and> tx cw = [] \<and> concat (rx cw) = tx sw' \<longrightarrow>
      (\<exists>ec cw'. hs wire_rwc (Some (token_config ''client'' tc)) cw = Some (ec, cw') \<and>
         (ec = None \<longleftrightarrow> tc = ts) \<and> tx cw' = tc @ nl))"
proof -
  from token_server_outcome [OF assms(1,3,4,5,2,7)] obtain es sw' where
    s: "hs wire_rwc (Some (token_config ''server'' ts)) sw = Some (es, sw')" "es = None \<longleftrightarrow> tc = ts"
    "tx sw' = (if tc = ts then ''OK'' else ''ERR'') @ nl" using assms(6) by auto
  have "\<exists>ec cw'. hs wire_rwc (Some (token_config ''client'' tc)) cw = Some (ec, cw') \<and>
      (ec = None \<longleftrightarrow> tc = ts) \<and> tx cw' = tc @ nl"
    if "wire_up cw" "wire_live cw" "tx cw = []" "concat (rx cw) = tx sw'" for cw
    using token_client_outcome [OF assms(1,2) that(1-3), of ts] that(4) s(3) by auto
  with s(1,2) show ?thesis by blast
qed

lemma token_handshake_agrees_witness:
  "token_ok ''s3cret'' \<and>
   (\<exists>sw'. trojan_handshake wire_rwc (Some (token_config ''server'' ''s3cret''))
      (wire_of [''s3c'', ''ret'' @ nl] (Some EOF)) = Some (None, sw'))"
proof -
  have t: "token_ok ''s3cret''" by (simp add: token_ok_def solid_def plain_byte_def)
  from token_handshake_agrees [of trojan_handshake, OF _ t t,
      of "wire_of [''s3c'', ''ret'' @ nl] (Some EOF)" "[]"] t
  show ?thesis by (auto simp: wire_of_def wire_up_def wire_live_def nl_def)
qed

text \<open>
  The handshake arms a deadline on the stream and never clears it. On a stream that has
  deadlines, each side that accepted returns the session with the timeout of the handshake still
  running: it will cut the proxied connection.
\<close>

theorem token_deadline_stays:
  assumes "hs = vless_handshake \<or> hs = trojan_handshake" "token_ok t"
    and "wire_up sw" "wire_live sw" "concat (rx sw) = t @ nl @ rest"
    and "wire_up cw" "wire_live cw" "tx cw = []" "concat (rx cw) = ''OK'' @ nl"
  shows "(\<exists>sw'. hs wire_rwc (Some (token_config ''server'' t)) sw = Some (None, sw') \<and>
      deadline sw' = Some 5000000000) \<and>
    (\<exists>cw'. hs wire_rwc (Some (token_config ''client'' t)) cw = Some (None, cw') \<and>
      deadline cw' = Some 5000000000)"
  using token_server_outcome [OF assms(1,2,3,4,2,5)] token_client_outcome [OF assms(1,2,6,7,8), of t] assms(9)
  by auto

lemma token_deadline_stays_witness:
  "\<exists>sw'. vless_handshake wire_rwc (Some (token_config ''server'' ''tk'')) (wire_of [''tk'' @ nl] None) =
     Some (None, sw') \<and> deadline sw' = Some 5000000000"
  using token_deadline_stays [of vless_handshake "''tk''" "wire_of [''tk'' @ nl] None" "[]"
      "wire_of [''OK'' @ nl] None"]
  by (simp add: token_ok_def solid_def plain_byte_def wire_of_def wire_up_def wire_live_def nl_def)

text \<open>
  The handshake swallows what the client pipelines. When the token line and the bytes behind it
  (the proxy request, say) arrive in one segment, the server accepts the token but the bytes behind
  it are gone: the session it returns has nothing left to read.
\<close>

theorem token_server_drops_pipelined:
  assumes "hs = vless_handshake \<or> hs = trojan_handshake" "token_ok t"
    and "rx w = [t @ nl @ request]" "length (t @ nl @ request) \<le> bufio_size"
    and "\<not> closed w" "tx_room w = None"
  shows "\<exists>w'. hs wire_rwc (Some (token_config ''server'' t)) w = Some (None, w') \<and> rx w' = []"
proof -
  from handshake_roles [OF assms(1,2)] obtain pkg where
    sv: "\<And>w. hs wire_rwc (Some (token_config ''server'' t)) w = token_server pkg wire_rwc t (armed w)" by blast
  have n: "newline \<notin> set t" by (rule token_okD(4) [OF assms(2)])
  have len: "\<not> bufio_size < length (t @ nl @ request)" using assms(4) by simp
  have tw: "takeWhile (\<lambda>c. c \<noteq> newline) (t @ nl @ request) = t"
    using n by (auto simp: nl_def takeWhile_tail)
  let ?w = "armed w"
  have r1: "wire_read ?w (bufio_size - 0) = Some (t @ nl @ request, None, ?w\<lparr>rx := []\<rparr>)"
    using assms(3-5) by (simp add: wire_read_def bufio_size_def)
  have fill: "bufio_fill 100 wire_read (new_bufrd ?w) =
      Some \<lparr>b_src = ?w\<lparr>rx := []\<rparr>, b_buf = t @ nl @ request, b_err = None\<rparr>"
    using r1 by (simp add: bufio_fill_numeral new_bufrd_def nl_def)
  have "read_line wire_read (new_bufrd ?w) =
      Some (t @ nl, None, \<lparr>b_src = ?w\<lparr>rx := []\<rparr>, b_buf = request, b_err = None\<rparr>)"
    unfolding read_line_def
    by (subst read_string.simps, subst read_string.simps)
      (use fill tw in \<open>simp add: new_bufrd_def bufio_size_def Let_def nl_def\<close>)
  with assms(5,6) token_okD(3) [OF assms(2)] show ?thesis
    unfolding sv by (simp add: token_server_def wire_rwc_def write_string_def wire_write_def)
qed

lemma token_server_drops_pipelined_witness:
  "\<exists>w'. vless_handshake wire_rwc (Some (token_config ''server'' ''tk''))
     (wire_of [''tk'' @ nl @ ''TCP example.com 80'' @ nl] None) = Some (None, w') \<and> rx w' = []"
  by (rule token_server_drops_pipelined [where request = "''TCP example.com 80'' @ nl"])
    (simp_all add: token_ok_def solid_def plain_byte_def wire_of_def bufio_size_def nl_def)

end
