(* ===== verification/Vmess.thy ===== *)
theory Vmess
  imports CryptoIface TokenAuth
begin

text \<open>
  \<open>pkg/protoadapters/vmess\<close>: authentication by a user id. The client proves knowledge of the id
  with an HMAC of its clock and sends a sealed request; the server looks for a clock value within
  120 seconds of its own that explains the HMAC. The digests, the cipher and \<open>uuid.Parse\<close> are
  parameters; the clocks are arguments.
\<close>

record vmess_lib =
  v_dig :: digests
  v_aead :: aead
  parseUUID :: "bytes \<Rightarrow> err + bytes"

definition vmessCmdKeySalt :: bytes where
  "vmessCmdKeySalt = ''c48619fe-8f02-49e0-b9e9-edf763e17e21''"

definition authTimeTolerance :: int where
  "authTimeTolerance = 120"

definition deriveCmdKey :: "vmess_lib \<Rightarrow> bytes \<Rightarrow> bytes" where
  "deriveCmdKey v user =
     (let h = md5 (v_dig v) (user @ vmessCmdKeySalt); h2 = md5 (v_dig v) h in h @ h2)"

text \<open>The eight bytes of \<open>uint64(t)\<close>, and the HMAC over them.\<close>

definition unix_bytes :: "int \<Rightarrow> bytes" where
  "unix_bytes t = put_u64 (nat (t mod 2 ^ 64))"

definition auth_hash :: "vmess_lib \<Rightarrow> bytes \<Rightarrow> int \<Rightarrow> bytes" where
  "auth_hash v user t = hmac_md5 (v_dig v) user (unix_bytes t)"

text \<open>Version, command TCP, port 0, address type domain, empty address.\<close>

definition vmess_request :: bytes where
  "vmess_request = [CHR 0x01, CHR 0x01, CHR 0x00, CHR 0x00, CHR 0x02, CHR 0x00]"

section \<open>Client\<close>

type_synonym 's hs_result = "(err option \<times> rng option \<times> 's) option"

definition vmess_client_response ::
  "'s rwc \<Rightarrow> vmess_lib \<Rightarrow> bytes \<Rightarrow> rng option \<Rightarrow> 's \<Rightarrow> 's hs_result"
where
  "vmess_client_response io v cmdKey g s =
     (case read_full (bufio_read (s_read io)) (new_bufrd s) 12 of
        None \<Rightarrow> None
      | Some (_, Some e, br) \<Rightarrow> Some (Some (wrap_err ''vmess client: read response nonce'' e), g, b_src br)
      | Some (respNonce, None, br) \<Rightarrow>
          (case read_full (bufio_read (s_read io)) br 17 of
             None \<Rightarrow> None
           | Some (_, Some e, br2) \<Rightarrow> Some (Some (wrap_err ''vmess client: read response'' e), g, b_src br2)
           | Some (buf, None, br2) \<Rightarrow>
               (case unseal (v_aead v) cmdKey respNonce buf of
                  None \<Rightarrow> Some (Some (wrap_err ''vmess client: decrypt response'' err_auth), g, b_src br2)
                | Some plain \<Rightarrow>
                    if length plain < 1 \<or> plain ! 0 \<noteq> CHR 0x00
                    then Some (Some (Err ''vmess client: server rejected''), g, b_src br2)
                    else Some (None, g, b_src br2))))"

definition vmess_client ::
  "'s rwc \<Rightarrow> vmess_lib \<Rightarrow> bytes \<Rightarrow> int \<Rightarrow> rng option \<Rightarrow> 's \<Rightarrow> 's hs_result"
where
  "vmess_client io v user now g s =
     (case write_string io s (auth_hash v user now) of
        (Some e, s1) \<Rightarrow> Some (Some (wrap_err ''vmess client: write auth'' e), g, s1)
      | (None, s1) \<Rightarrow>
          let cmdKey = deriveCmdKey v user
          in case crypto_rand 12 g of
               (Inl e, g1) \<Rightarrow> Some (Some e, g1, s1)
             | (Inr nonce, g1) \<Rightarrow>
                 let ct = seal (v_aead v) cmdKey nonce vmess_request
                 in case write_string io s1 nonce of
                      (Some e, s2) \<Rightarrow> Some (Some e, g1, s2)
                    | (None, s2) \<Rightarrow>
                        (case write_string io s2 ct of
                           (Some e, s3) \<Rightarrow> Some (Some e, g1, s3)
                         | (None, s3) \<Rightarrow> vmess_client_response io v cmdKey g1 s3))"

section \<open>Server\<close>

text \<open>The loop over the tolerated clock skews, from \<open>-120\<close> upwards, stopping at the first match.\<close>

function auth_loop :: "vmess_lib \<Rightarrow> bytes \<Rightarrow> bytes \<Rightarrow> int \<Rightarrow> int \<Rightarrow> bool" where
  "auth_loop v user auth now d =
     (if d > authTimeTolerance then False
      else if auth = auth_hash v user (now + d) then True
      else auth_loop v user auth now (d + 1))"
  by pat_completeness auto
termination
  by (relation "measure (\<lambda>(v, user, auth, now, d). nat (authTimeTolerance + 1 - d))") auto

declare auth_loop.simps [simp del]

definition vmess_server_reply ::
  "'s rwc \<Rightarrow> vmess_lib \<Rightarrow> bytes \<Rightarrow> rng option \<Rightarrow> 's \<Rightarrow> 's hs_result"
where
  "vmess_server_reply io v cmdKey g s =
     (case crypto_rand 12 g of
        (Inl e, g1) \<Rightarrow> Some (Some e, g1, s)
      | (Inr respNonce, g1) \<Rightarrow>
          (case write_string io s respNonce of
             (Some e, s1) \<Rightarrow> Some (Some e, g1, s1)
           | (None, s1) \<Rightarrow>
               (case write_string io s1 (seal (v_aead v) cmdKey respNonce [CHR 0x00]) of
                  (Some e, s2) \<Rightarrow> Some (Some e, g1, s2)
                | (None, s2) \<Rightarrow> Some (None, g1, s2))))"

definition vmess_server_request ::
  "'s rwc \<Rightarrow> vmess_lib \<Rightarrow> bytes \<Rightarrow> rng option \<Rightarrow> 's \<Rightarrow> 's hs_result"
where
  "vmess_server_request io v user g s =
     (case read_full (s_read io) s 12 of
        None \<Rightarrow> None
      | Some (_, Some e, s1) \<Rightarrow> Some (Some e, g, s1)
      | Some (nonce, None, s1) \<Rightarrow>
          (case read_at_least (s_read io) s1 64 (6 + 16) of
             None \<Rightarrow> None
           | Some (_, Some e, s2) \<Rightarrow> Some (Some e, g, s2)
           | Some (buf, None, s2) \<Rightarrow>
               let cmdKey = deriveCmdKey v user
               in case unseal (v_aead v) cmdKey nonce buf of
                    None \<Rightarrow> Some (Some (wrap_err ''vmess server: decrypt request'' err_auth), g, s2)
                  | Some plain \<Rightarrow>
                      if length plain < 2 \<or> plain ! 0 \<noteq> CHR 0x01
                      then Some (Some (Err ''vmess server: invalid request''), g, s2)
                      else vmess_server_reply io v cmdKey g s2))"

definition vmess_server ::
  "'s rwc \<Rightarrow> vmess_lib \<Rightarrow> bytes \<Rightarrow> int \<Rightarrow> rng option \<Rightarrow> 's \<Rightarrow> 's hs_result"
where
  "vmess_server io v user now g s =
     (case read_full (s_read io) s 16 of
        None \<Rightarrow> None
      | Some (_, Some e, s1) \<Rightarrow> Some (Some (wrap_err ''vmess server: read auth'' e), g, s1)
      | Some (auth, None, s1) \<Rightarrow>
          if \<not> auth_loop v user auth now (- authTimeTolerance)
          then Some (Some (Err ''vmess server: auth failed''), g, s1)
          else vmess_server_request io v user g s1)"

definition vmess_handshake ::
  "'s rwc \<Rightarrow> vmess_lib \<Rightarrow> int \<Rightarrow> rng option \<Rightarrow> Config option \<Rightarrow> 's \<Rightarrow> 's hs_result"
where
  "vmess_handshake io v now g cfg s =
     (case cfg of
        None \<Rightarrow> Some (Some (Err ''vmess: missing config''), g, s)
      | Some cfg \<Rightarrow>
          (case raw_get cfg ''role'' of
             None \<Rightarrow> Some (Some (Err (''vmess: missing role in config.Raw['' @ go_quote ''role'' @ '']'')), g, s)
           | Some (AString role) \<Rightarrow>
               let token = trim_space (Token cfg)
               in if token = [] then Some (Some (Err ''vmess: empty token (UUID required)''), g, s)
                  else (case parseUUID v token of
                    Inl e \<Rightarrow> Some (Some (wrap_err ''vmess: invalid UUID'' e), g, s)
                  | Inr user \<Rightarrow>
                      let s = (if Timeout cfg > 0 then s_deadline io (Timeout cfg) s else s)
                      in if role = ''client'' then vmess_client io v user now g s
                         else if role = ''server'' then vmess_server io v user now g s
                         else Some (Some (Err (''vmess: unknown role '' @ go_quote role)), g, s))
           | Some _ \<Rightarrow> Some (Some (Err ''vmess: role must be string''), g, s)))"

definition vmess_features :: Features where
  "vmess_features =
     \<lparr>f_transports = [''tcp''], f_mux = False, f_encryption = ''VMess AEAD (ChaCha20-Poly1305)'',
      f_obfuscation = True,
      f_description = ''VMess (Xray) with UUID auth and AEAD command'',
      f_experimental = False\<rparr>"

section \<open>Lemmas\<close>

lemma auth_loop_iff:
  "auth_loop v user auth now d \<longleftrightarrow>
     (\<exists>k. d \<le> k \<and> k \<le> authTimeTolerance \<and> auth = auth_hash v user (now + k))"
proof (induction v user auth now d rule: auth_loop.induct)
  case (1 v user auth now d)
  show ?case
  proof (cases "d > authTimeTolerance")
    case True
    then show ?thesis by (subst auth_loop.simps) auto
  next
    case False
    show ?thesis
    proof (cases "auth = auth_hash v user (now + d)")
      case True
      with False show ?thesis by (subst auth_loop.simps) auto
    next
      case neq: False
      with False 1 have "auth_loop v user auth now d \<longleftrightarrow>
          (\<exists>k. d + 1 \<le> k \<and> k \<le> authTimeTolerance \<and> auth = auth_hash v user (now + k))"
        by (subst auth_loop.simps) simp
      moreover have "d \<le> k \<longleftrightarrow> d = k \<or> d + 1 \<le> k" for k by auto
      ultimately show ?thesis using neq by (metis add.commute)
    qed
  qed
qed

text \<open>The bytes a client sends.\<close>

definition vmess_hello :: "vmess_lib \<Rightarrow> bytes \<Rightarrow> int \<Rightarrow> bytes \<Rightarrow> bytes" where
  "vmess_hello v user now nonce =
     auth_hash v user now @ nonce @ seal (v_aead v) (deriveCmdKey v user) nonce vmess_request"

definition vmess_lib_ok :: "vmess_lib \<Rightarrow> bool" where
  "vmess_lib_ok v \<longleftrightarrow> aead_ok (v_aead v) \<and> (\<forall>k m. length (hmac_md5 (v_dig v) k m) = 16)"

text \<open>The two sides of an exchange that goes well.\<close>

interpretation bufwire:
  byte_stream "bufio_read wire_read" "byte_stream.buf_content wire_content"
    "byte_stream.buf_ok wire_ok" "byte_stream.buf_work wire_work"
  by (rule wirestream.buffered)

lemma vmess_client_response_ok:
  assumes v: "vmess_lib_ok v" and c: "concat (rx w) = n2 @ seal (v_aead v) key n2 [CHR 0x00]"
    and n2: "length n2 = 12" and w: "\<not> closed w"
  shows "\<exists>w'. vmess_client_response wire_rwc v key g w = Some (None, g, w') \<and> tx w' = tx w"
proof -
  have a: "aead_ok (v_aead v)" using v by (simp add: vmess_lib_ok_def)
  let ?b = "new_bufrd w"
  have b: "wirestream.buf_ok ?b" "wirestream.buf_content ?b = n2 @ seal (v_aead v) key n2 [CHR 0x00]"
    using c w by (simp_all add: wirestream.buf_ok_def wirestream.buf_content_def new_bufrd_def
        wire_ok_def wire_content_def)
  from bufwire.read_full_append [OF b] n2 obtain b1 where
    b1: "read_full (bufio_read wire_read) ?b 12 = Some (n2, None, b1)"
    "wirestream.buf_content b1 = seal (v_aead v) key n2 [CHR 0x00] @ []" "wirestream.buf_ok b1" by auto
  from bufwire.read_full_append [OF b1(3,2)] aead_okD(2) [OF a, of key n2 "[CHR 0x00]"] obtain b2 where
    b2: "read_full (bufio_read wire_read) b1 17 = Some (seal (v_aead v) key n2 [CHR 0x00], None, b2)"
    by auto
  from read_full_sent(2) [OF b1(1)] read_full_sent(2) [OF b2] have "tx (b_src b2) = tx w"
    by (simp add: same_sent_buf_def same_sent_def new_bufrd_def)
  with b1(1) b2 aead_okD(1) [OF a, of key n2 "[CHR 0x00]"] show ?thesis
    by (simp add: vmess_client_response_def wire_rwc_def)
qed

lemma vmess_client_ok:
  assumes v: "vmess_lib_ok v" and g: "g \<noteq> None" and w: "wire_up w" "tx w = []"
    and c: "concat (rx w) = n2 @ seal (v_aead v) (deriveCmdKey v user) n2 [CHR 0x00]" "length n2 = 12"
  shows "\<exists>g' w' nonce. vmess_client wire_rwc v user now g w = Some (None, g', w') \<and>
    tx w' = vmess_hello v user now nonce \<and> length nonce = 12"
proof -
  obtain g0 nonce g1 where r: "g = Some g0" "rand_bytes 12 g0 = (nonce, g1)" using g by fastforce
  then have ln: "length nonce = 12" using length_rand_bytes [of 12 g0] by simp
  let ?w = "w\<lparr>tx := vmess_hello v user now nonce\<rparr>"
  have "concat (rx ?w) = n2 @ seal (v_aead v) (deriveCmdKey v user) n2 [CHR 0x00]" "\<not> closed ?w"
    using c(1) w(1) by (simp_all add: wire_up_def)
  from vmess_client_response_ok [OF v this(1) c(2) this(2)] obtain w' where
    w': "vmess_client_response wire_rwc v (deriveCmdKey v user) (Some g1) ?w = Some (None, Some g1, w')"
    "tx w' = vmess_hello v user now nonce" by auto
  have up: "wire_up (w\<lparr>tx := t\<rparr>)" for t using w(1) by (simp add: wire_up_def)
  have ws: "write_string wire_rwc (w\<lparr>tx := t\<rparr>) bs = (None, w\<lparr>tx := t @ bs\<rparr>)"
    "write_string wire_rwc w bs = (None, w\<lparr>tx := bs\<rparr>)" for t bs
    using wire_write_up [OF up [of t]] wire_write_up [OF w(1)] w(2)
    by (simp_all add: write_string_def wire_rwc_def)
  have "vmess_client wire_rwc v user now g w = Some (None, Some g1, w')"
    using w'(1) by (simp add: vmess_client_def ws r crypto_rand_def Let_def vmess_hello_def)
  with w'(2) ln show ?thesis by blast
qed

lemma vmess_server_ok:
  assumes v: "vmess_lib_ok v" and g: "g \<noteq> None" and w: "wire_up w" "tx w = []"
    and c: "concat (rx w) = vmess_hello v user t nonce" "length nonce = 12"
    and t: "\<bar>t - now\<bar> \<le> authTimeTolerance"
  shows "\<exists>g' w' n2. vmess_server wire_rwc v user now g w = Some (None, g', w') \<and>
    tx w' = n2 @ seal (v_aead v) (deriveCmdKey v user) n2 [CHR 0x00] \<and> length n2 = 12"
proof -
  have a: "aead_ok (v_aead v)" using v by (simp add: vmess_lib_ok_def)
  let ?key = "deriveCmdKey v user" and ?auth = "auth_hash v user t"
  let ?ct = "seal (v_aead v) ?key nonce vmess_request"
  have la: "length ?auth = 16" using v by (simp add: vmess_lib_ok_def auth_hash_def)
  have lc: "length ?ct = 22" using aead_okD(2) [OF a, of ?key nonce vmess_request]
    by (simp add: vmess_request_def)
  have ok: "wire_ok w" using w(1) by (simp add: wire_up_def wire_ok_def)
  have c0: "wire_content w = ?auth @ nonce @ ?ct" using c(1) by (simp add: wire_content_def vmess_hello_def)
  from wirestream.read_full_append [OF ok c0] la obtain w1 where
    w1: "read_full wire_read w 16 = Some (?auth, None, w1)" "wire_content w1 = nonce @ ?ct" "wire_ok w1"
    by auto
  from wirestream.read_full_append [OF w1(3,2)] c(2) obtain w2 where
    w2: "read_full wire_read w1 12 = Some (nonce, None, w2)" "wire_content w2 = ?ct" "wire_ok w2" by auto
  from wirestream.read_loop_content [OF w2(3), of 22 "[]" 64] w2(2) lc obtain bs w3 where
    w3: "read_at_least wire_read w2 64 22 = Some (bs, None, w3)" "?ct = bs @ wire_content w3" "22 \<le> length bs"
    by (auto simp: read_at_least_def)
  have "length ?ct = length bs + length (wire_content w3)" using w3(2) by (metis length_append)
  with lc w3(3) have "length (wire_content w3) = 0" by linarith
  with w3(2) have bs: "bs = ?ct" by simp
  have s3: "same_sent w w3"
    using read_full_sent(1) [OF w1(1)] read_full_sent(1) [OF w2(1)]
      read_loop_rel [of wire_read same_sent w2 22 64 "[]" bs None w3] w3(1)
    by (auto simp: read_at_least_def same_sent_order same_sent_def dest: wire_read_frame)
  have "now + (t - now) = t" by simp
  then have auth: "auth_loop v user ?auth now (- authTimeTolerance)"
    unfolding auth_loop_iff using t by (intro exI [of _ "t - now"]) auto
  obtain g0 n2 g1 where r: "g = Some g0" "rand_bytes 12 g0 = (n2, g1)" using g by fastforce
  then have ln: "length n2 = 12" using length_rand_bytes [of 12 g0] by simp
  have up: "wire_up w3" "tx w3 = []" "wire_up (w3\<lparr>tx := n2\<rparr>)"
    using s3 w by (simp_all add: same_sent_def wire_up_def)
  have "vmess_server wire_rwc v user now g w =
      Some (None, Some g1, w3\<lparr>tx := n2 @ seal (v_aead v) ?key n2 [CHR 0x00]\<rparr>)"
    using w1(1) w2(1) w3(1) auth aead_okD(1) [OF a, of ?key nonce vmess_request] bs
    by (simp add: vmess_server_def vmess_server_request_def vmess_server_reply_def crypto_rand_def r
        write_string_def wire_rwc_def wire_write_up [OF up(1)] wire_write_up [OF up(3)] up(2)
        vmess_request_def [symmetric] Let_def)
      (simp add: vmess_request_def)
  with ln show ?thesis by auto
qed


section \<open>Properties\<close>

text \<open>
  A vmess client and a server with the same user id and clocks at most 120 seconds apart
  authenticate each other. For every cipher and digest of the documented shape, a server that
  receives the bytes a client sends, in whatever segments, accepts; and the client, receiving the
  server's answer, accepts as well, having sent such bytes.
\<close>

theorem vmess_handshake_agrees:
  assumes "vmess_lib_ok v" "g1 \<noteq> None" "g2 \<noteq> None"
    and "\<bar>t - now\<bar> \<le> authTimeTolerance" "length nonce = 12"
    and "wire_up sw" "tx sw = []" "concat (rx sw) = vmess_hello v user t nonce"
  shows "\<exists>g' sw'. vmess_server wire_rwc v user now g1 sw = Some (None, g', sw') \<and>
    (\<forall>cw. wire_up cw \<and> tx cw = [] \<and> concat (rx cw) = tx sw' \<longrightarrow>
      (\<exists>g'' cw' nonce'. vmess_client wire_rwc v user t g2 cw = Some (None, g'', cw') \<and>
         tx cw' = vmess_hello v user t nonce' \<and> length nonce' = 12))"
proof -
  from vmess_server_ok [OF assms(1,2,6,7,8,5,4)] obtain g' sw' n2 where
    s: "vmess_server wire_rwc v user now g1 sw = Some (None, g', sw')"
    "tx sw' = n2 @ seal (v_aead v) (deriveCmdKey v user) n2 [CHR 0x00]" "length n2 = 12" by blast
  have "\<exists>g'' cw' nonce'. vmess_client wire_rwc v user t g2 cw = Some (None, g'', cw') \<and>
      tx cw' = vmess_hello v user t nonce' \<and> length nonce' = 12"
    if "wire_up cw" "tx cw = []" "concat (rx cw) = tx sw'" for cw
    using vmess_client_ok [OF assms(1,3) that(1,2) _ s(3)] that(3) s(2) by simp
  with s(1) show ?thesis by blast
qed

definition wit_vmess :: vmess_lib where
  "wit_vmess =
     \<lparr>v_dig = \<lparr>sha256 = (\<lambda>m. m), md5 = (\<lambda>m. take 16 m),
              hmac_md5 = (\<lambda>k m. take 16 (k @ m @ replicate 16 (CHR 0x00)))\<rparr>,
      v_aead = tag_aead, parseUUID = Inr\<rparr>"

lemma wit_vmess_ok: "vmess_lib_ok wit_vmess"
proof -
  have "min a 16 + (min b (16 - a) + (16 - (a + b))) = 16" for a b :: nat by (auto simp: min_def)
  then show ?thesis by (simp add: vmess_lib_ok_def wit_vmess_def tag_aead_ok)
qed

lemma vmess_handshake_agrees_witness:
  "\<exists>g' sw'. vmess_server wire_rwc wit_vmess ''user'' 1000 (Some (rng_of (\<lambda>i. i)))
     (wire_of [vmess_hello wit_vmess ''user'' 1100 ''abcdefghijkl''] None) = Some (None, g', sw')"
proof -
  from vmess_handshake_agrees [OF wit_vmess_ok, of "Some (rng_of (\<lambda>i. i))" "Some (rng_of (\<lambda>i. i))" 1100 1000
      "''abcdefghijkl''" "wire_of [vmess_hello wit_vmess ''user'' 1100 ''abcdefghijkl''] None" "''user''"]
  show ?thesis by (auto simp: authTimeTolerance_def wire_of_def wire_up_def)
qed

text \<open>
  C33: no authentication without the user id. Over any stream, a vmess server that accepts has read
  sixteen bytes that are the HMAC, under its own user id, of a time at most 120 seconds away from its
  clock, and a request that opens under the key derived from that id and carries version 1.
\<close>

theorem vmess_server_authenticates:
  assumes "vmess_server io v user now g s = Some (None, g', s')"
  shows "\<exists>auth s1 d nonce s2 buf s3 plain.
    read_full (s_read io) s 16 = Some (auth, None, s1) \<and>
    \<bar>d\<bar> \<le> authTimeTolerance \<and> auth = auth_hash v user (now + d) \<and>
    read_full (s_read io) s1 12 = Some (nonce, None, s2) \<and>
    read_at_least (s_read io) s2 64 22 = Some (buf, None, s3) \<and>
    unseal (v_aead v) (deriveCmdKey v user) nonce buf = Some plain \<and>
    2 \<le> length plain \<and> plain ! 0 = CHR 0x01"
proof -
  from assms obtain auth s1 where a: "read_full (s_read io) s 16 = Some (auth, None, s1)"
    "auth_loop v user auth now (- authTimeTolerance)"
    "vmess_server_request io v user g s1 = Some (None, g', s')"
    by (auto simp: vmess_server_def split: option.splits if_splits)
  from a(2) obtain d where "- authTimeTolerance \<le> d" "d \<le> authTimeTolerance"
    "auth = auth_hash v user (now + d)" unfolding auth_loop_iff by blast
  then have d: "\<bar>d\<bar> \<le> authTimeTolerance" "auth = auth_hash v user (now + d)" by auto
  from a(3) obtain nonce s2 buf s3 plain where
    "read_full (s_read io) s1 12 = Some (nonce, None, s2)"
    "read_at_least (s_read io) s2 64 22 = Some (buf, None, s3)"
    "unseal (v_aead v) (deriveCmdKey v user) nonce buf = Some plain"
    "2 \<le> length plain" "plain ! 0 = CHR 0x01"
    by (auto simp: vmess_server_request_def Let_def not_less split: option.splits if_splits)
  with a(1) d show ?thesis by blast
qed

lemma vmess_server_authenticates_witness:
  "\<exists>auth s1. read_full wire_read
       (wire_of [vmess_hello wit_vmess ''user'' 1100 ''abcdefghijkl''] None) 16 = Some (auth, None, s1) \<and>
     (\<exists>d. \<bar>d\<bar> \<le> 120 \<and> auth = auth_hash wit_vmess ''user'' (1000 + d))"
proof -
  let ?w = "wire_of [vmess_hello wit_vmess ''user'' 1100 ''abcdefghijkl''] None"
  have up: "wire_up ?w" "tx ?w = []" "concat (rx ?w) = vmess_hello wit_vmess ''user'' 1100 ''abcdefghijkl''"
    "length ''abcdefghijkl'' = 12" by (simp_all add: wire_of_def wire_up_def)
  from vmess_server_ok [OF wit_vmess_ok _ up(1,2,3,4), of "Some (rng_of (\<lambda>i. i))" 1000] obtain g' w' where
    s: "vmess_server wire_rwc wit_vmess ''user'' 1000 (Some (rng_of (\<lambda>i. i))) ?w = Some (None, g', w')"
    by (auto simp: authTimeTolerance_def)
  from vmess_server_authenticates [OF s] show ?thesis
    unfolding authTimeTolerance_def wire_rwc_def by (simp only: rwc.simps) blast
qed

end
