(* ===== verification/ProtoManager.thy ===== *)
theory ProtoManager
  imports Prelude "HOL-Library.Char_ord" "HOL-Library.List_Lexorder"
begin

text \<open>
  \<open>hypernet/services/proxy/protomanager\<close>: the registry of protocol adapters and the choice of a
  common protocol and transport. An adapter is an arbitrary value together with the name its
  \<open>Name()\<close> returns; the Go map is an association list without duplicate keys, whose order the
  code never sees because it sorts the names.
\<close>

section \<open>Sorting with a comparison function\<close>

text \<open>
  The result of \<open>sort.Slice\<close> and \<open>sort.Strings\<close> on elements the comparison totally orders: there is
  only one sorted arrangement.
\<close>

fun insort_less :: "('a \<Rightarrow> 'a \<Rightarrow> bool) \<Rightarrow> 'a \<Rightarrow> 'a list \<Rightarrow> 'a list" where
  "insort_less lt x [] = [x]"
| "insort_less lt x (y # ys) = (if lt y x then y # insort_less lt x ys else x # y # ys)"

fun sort_less :: "('a \<Rightarrow> 'a \<Rightarrow> bool) \<Rightarrow> 'a list \<Rightarrow> 'a list" where
  "sort_less lt [] = []"
| "sort_less lt (x # xs) = insort_less lt x (sort_less lt xs)"

lemma set_insort_less [simp]: "set (insort_less lt x ys) = insert x (set ys)"
  by (induction ys) auto

lemma set_sort_less [simp]: "set (sort_less lt xs) = set xs"
  by (induction xs) simp_all

text \<open>A strict total order on the elements of a set.\<close>

definition total_less :: "('a \<Rightarrow> 'a \<Rightarrow> bool) \<Rightarrow> 'a set \<Rightarrow> bool" where
  "total_less lt A \<longleftrightarrow>
     (\<forall>x\<in>A. \<not> lt x x) \<and> (\<forall>x\<in>A. \<forall>y\<in>A. \<forall>z\<in>A. lt x y \<longrightarrow> lt y z \<longrightarrow> lt x z) \<and>
     (\<forall>x\<in>A. \<forall>y\<in>A. x \<noteq> y \<longrightarrow> lt x y \<or> lt y x)"

lemma total_less_mono: "total_less lt A \<Longrightarrow> B \<subseteq> A \<Longrightarrow> total_less lt B"
  unfolding total_less_def by blast

lemma sorted_insort_less:
  "total_less lt (insert x (set ys)) \<Longrightarrow> x \<notin> set ys \<Longrightarrow> sorted_wrt lt ys \<Longrightarrow>
     sorted_wrt lt (insort_less lt x ys)"
proof (induction ys)
  case Nil
  then show ?case by simp
next
  case (Cons y ys)
  have t: "total_less lt (insert x (set ys))"
    by (rule total_less_mono [OF Cons.prems(1)]) auto
  show ?case
  proof (cases "lt y x")
    case True
    have "sorted_wrt lt (insort_less lt x ys)" using Cons.IH t Cons.prems(2,3) by simp
    with True Cons.prems(3) show ?thesis by simp
  next
    case False
    then have xy: "lt x y" using Cons.prems(1,2) unfolding total_less_def by simp
    have "lt x z" if "z \<in> set ys" for z
    proof -
      have "lt y z" using Cons.prems(3) that by simp
      moreover have "x \<in> insert x (set (y # ys))" "y \<in> insert x (set (y # ys))"
        "z \<in> insert x (set (y # ys))" using that by simp_all
      ultimately show ?thesis using Cons.prems(1) xy unfolding total_less_def by blast
    qed
    with False xy Cons.prems(3) show ?thesis by simp
  qed
qed

lemma sorted_sort_less:
  "total_less lt (set xs) \<Longrightarrow> distinct xs \<Longrightarrow> sorted_wrt lt (sort_less lt xs)"
proof (induction xs)
  case Nil
  then show ?case by simp
next
  case (Cons x xs)
  then have "sorted_wrt lt (sort_less lt xs)"
    using total_less_mono [of lt "set (x # xs)" "set xs"] by auto
  with Cons.prems show ?case by (auto intro!: sorted_insort_less)
qed

lemma sorted_wrt_unique:
  assumes "total_less lt A" "set xs \<subseteq> A" "set xs = set ys" "sorted_wrt lt xs" "sorted_wrt lt ys"
  shows "xs = ys"
  using assms
proof (induction xs arbitrary: ys)
  case Nil
  then show ?case by simp
next
  case (Cons x xs)
  then obtain y ys' where ys: "ys = y # ys'" by (cases ys) auto
  have irr: "\<not> lt z z" if "z \<in> A" for z using Cons.prems(1) that by (simp add: total_less_def)
  have asym: "\<not> (lt u v \<and> lt v u)" if "u \<in> A" "v \<in> A" for u v
    using Cons.prems(1) that irr unfolding total_less_def by blast
  have A: "x \<in> A" "y \<in> A" using Cons.prems(2,3) ys by auto
  have xy: "x = y"
  proof (rule ccontr)
    assume "x \<noteq> y"
    then have "y \<in> set xs" "x \<in> set ys'" using Cons.prems(3) ys by auto
    with Cons.prems(4,5) ys have "lt x y" "lt y x" by auto
    with asym A show False by blast
  qed
  have "x \<notin> set xs" "x \<notin> set ys'" using Cons.prems(2,4,5) ys xy irr by auto
  with Cons.prems(3) ys xy have "set xs = set ys'" by auto
  with Cons.IH [OF Cons.prems(1)] Cons.prems ys xy show ?case by auto
qed

section \<open>The manager\<close>

record 'p manager =
  protocols :: "(string \<times> 'p) list"
  preferred :: "string list"
  registrationOrder :: "string list"
  defaultTransport :: string
  supportedTransports :: "string list"

definition NewManager :: "string list \<Rightarrow> 'p manager" where
  "NewManager prefs =
     \<lparr>protocols = [], preferred = prefs, registrationOrder = [], defaultTransport = '''',
      supportedTransports = []\<rparr>"

text \<open>\<open>Register\<close>: a nil adapter or an empty name changes nothing.\<close>

definition Register :: "(string \<times> 'p) option \<Rightarrow> 'p manager \<Rightarrow> 'p manager" where
  "Register arg m =
     (case arg of
        None \<Rightarrow> m
      | Some (name, p) \<Rightarrow>
          if name = '''' then m
          else m\<lparr>registrationOrder :=
                   (if map_of (protocols m) name = None then registrationOrder m @ [name]
                    else registrationOrder m),
                 protocols := alist_put name p (protocols m)\<rparr>)"

definition Get :: "'p manager \<Rightarrow> string \<Rightarrow> 'p option" where
  "Get m name = map_of (protocols m) name"

definition SetDefaultTransport :: "string \<Rightarrow> 'p manager \<Rightarrow> 'p manager" where
  "SetDefaultTransport t m = m\<lparr>defaultTransport := t\<rparr>"

definition SetSupportedTransports :: "string list \<Rightarrow> 'p manager \<Rightarrow> 'p manager" where
  "SetSupportedTransports ts m = m\<lparr>supportedTransports := ts\<rparr>"

definition SupportedTransports :: "'p manager \<Rightarrow> string list" where
  "SupportedTransports m = (if supportedTransports m \<noteq> [] then supportedTransports m else [''tcp''])"

fun first_supported :: "string set \<Rightarrow> string list \<Rightarrow> string" where
  "first_supported S [] = ''''"
| "first_supported S (t # ts) =
     (if t = '''' then first_supported S ts
      else if t \<in> S then t else first_supported S ts)"

definition ChooseCommonTransport :: "'p manager \<Rightarrow> string list \<Rightarrow> string" where
  "ChooseCommonTransport m clientPreferred =
     first_supported (set (SupportedTransports m)) clientPreferred"

definition effectivelyPreferredOrder :: "'p manager \<Rightarrow> string list" where
  "effectivelyPreferredOrder m = (if preferred m \<noteq> [] then preferred m else registrationOrder m)"

text \<open>The map \<open>priority\<close>: a name that occurs twice keeps its last index.\<close>

fun priority_from :: "nat \<Rightarrow> string list \<Rightarrow> string \<Rightarrow> nat option" where
  "priority_from i [] name = None"
| "priority_from i (n # ns) name =
     (case priority_from (Suc i) ns name of
        Some j \<Rightarrow> Some j
      | None \<Rightarrow> if n = name then Some i else None)"

definition name_less :: "string list \<Rightarrow> string \<Rightarrow> string \<Rightarrow> bool" where
  "name_less order a b =
     (case (priority_from 0 order a, priority_from 0 order b) of
        (Some i, Some j) \<Rightarrow> i < j
      | (Some i, None) \<Rightarrow> True
      | (None, Some j) \<Rightarrow> False
      | (None, None) \<Rightarrow> a < b)"

definition SupportedNames :: "'p manager \<Rightarrow> string list" where
  "SupportedNames m =
     (if protocols m = [] then []
      else let names = map fst (protocols m); order = effectivelyPreferredOrder m
        in if order = [] then sort_less (<) names else sort_less (name_less order) names)"

fun first_in :: "string set \<Rightarrow> string list \<Rightarrow> string option" where
  "first_in S [] = None"
| "first_in S (n # ns) = (if n \<in> S then Some n else first_in S ns)"

definition ChooseCommon :: "string list \<Rightarrow> string list \<Rightarrow> string option" where
  "ChooseCommon localSupported remoteSupported =
     (if localSupported = [] \<or> remoteSupported = [] then None
      else first_in (set remoteSupported) localSupported)"

section \<open>The registry's invariant\<close>

inductive mgr_step :: "'p manager \<Rightarrow> 'p manager \<Rightarrow> bool" where
  step_register: "mgr_step m (Register arg m)"
| step_default: "mgr_step m (SetDefaultTransport t m)"
| step_transports: "mgr_step m (SetSupportedTransports ts m)"

inductive_cases mgr_stepE: "mgr_step m m'"

text \<open>The managers the program can build, by their preferences.\<close>

inductive mgr_reach :: "string list \<Rightarrow> 'p manager \<Rightarrow> bool" for prefs where
  reach_new: "mgr_reach prefs (NewManager prefs)"
| reach_step: "mgr_reach prefs m \<Longrightarrow> mgr_step m m' \<Longrightarrow> mgr_reach prefs m'"

definition mgr_wf :: "'p manager \<Rightarrow> bool" where
  "mgr_wf m \<longleftrightarrow>
     distinct (map fst (protocols m)) \<and> '''' \<notin> fst ` set (protocols m) \<and>
     distinct (registrationOrder m) \<and> set (registrationOrder m) = fst ` set (protocols m)"

lemma Register_wf:
  assumes "mgr_wf m"
  shows "mgr_wf (Register arg m)"
proof (cases arg)
  case None
  with assms show ?thesis by (simp add: Register_def)
next
  case (Some np)
  obtain name p where np: "np = (name, p)" by fastforce
  show ?thesis
  proof (cases "name = ''''")
    case True
    with assms Some np show ?thesis by (simp add: Register_def)
  next
    case False
    with assms Some np show ?thesis
      by (auto simp: Register_def mgr_wf_def keys_alist_put map_of_eq_None_iff)
  qed
qed

lemma mgr_step_wf: "mgr_step m m' \<Longrightarrow> mgr_wf m \<Longrightarrow> mgr_wf m'"
  by (erule mgr_stepE)
    (simp_all add: Register_wf, simp_all add: mgr_wf_def SetDefaultTransport_def SetSupportedTransports_def)

lemma mgr_step_preferred: "mgr_step m m' \<Longrightarrow> preferred m' = preferred m"
  by (erule mgr_stepE)
    (auto simp: Register_def SetDefaultTransport_def SetSupportedTransports_def split: option.split)

lemma mgr_reach_wf: "mgr_reach prefs m \<Longrightarrow> mgr_wf m \<and> preferred m = prefs"
  by (induction rule: mgr_reach.induct)
    (simp_all add: mgr_step_wf mgr_step_preferred, simp add: NewManager_def mgr_wf_def)

section \<open>The order of the names\<close>

lemma priority_from_range:
  "priority_from i ns a = Some k \<Longrightarrow> i \<le> k \<and> k < i + length ns \<and> ns ! (k - i) = a"
proof (induction ns arbitrary: i)
  case Nil
  then show ?case by simp
next
  case (Cons n ns)
  show ?case
  proof (cases "priority_from (Suc i) ns a")
    case None
    with Cons.prems show ?thesis by (auto split: if_splits)
  next
    case (Some j)
    with Cons.prems have "j = k" by simp
    with Cons.IH [of "Suc i"] Some have h: "Suc i \<le> k" "k < Suc i + length ns" "ns ! (k - Suc i) = a"
      by simp_all
    then have "k - i = Suc (k - Suc i)" by simp
    with h show ?thesis by simp
  qed
qed

lemma priority_from_None: "priority_from i ns a = None \<longleftrightarrow> a \<notin> set ns"
proof (induction ns arbitrary: i)
  case Nil
  then show ?case by simp
next
  case (Cons n ns)
  from Cons.IH [of "Suc i"] show ?case by (cases "priority_from (Suc i) ns a") auto
qed

lemma priority_from_distinct:
  "distinct ns \<Longrightarrow> k < length ns \<Longrightarrow> priority_from i ns (ns ! k) = Some (i + k)"
proof (induction ns arbitrary: i k)
  case Nil
  then show ?case by simp
next
  case (Cons n ns)
  show ?case
  proof (cases k)
    case 0
    with Cons.prems have "priority_from (Suc i) ns n = None" by (simp add: priority_from_None)
    with 0 show ?thesis by simp
  next
    case (Suc k')
    with Cons show ?thesis by simp
  qed
qed

lemma priority_inj:
  "priority_from i ns a = Some k \<Longrightarrow> priority_from i ns b = Some k \<Longrightarrow> a = b"
  using priority_from_range by metis

lemma total_name_less: "total_less (name_less order) A"
proof -
  have "name_less order x y \<or> name_less order y x" if "x \<noteq> y" for x y
    using that priority_inj [of 0 order x _ y]
    by (auto simp: name_less_def split: option.splits) (metis linorder_neqE_nat)+
  moreover have "name_less order x z" if "name_less order x y" "name_less order y z" for x y z
    using that by (auto simp: name_less_def split: option.splits)
  moreover have "\<not> name_less order x x" for x by (simp add: name_less_def split: option.split)
  ultimately show ?thesis unfolding total_less_def by blast
qed

lemma total_string_less: "total_less (<) (A :: string set)"
  by (auto simp: total_less_def)

lemma name_less_nth:
  "distinct order \<Longrightarrow> i < j \<Longrightarrow> j < length order \<Longrightarrow> name_less order (order ! i) (order ! j)"
  by (simp add: name_less_def priority_from_distinct)

lemma sorted_name_less: "distinct order \<Longrightarrow> sorted_wrt (name_less order) order"
  by (simp add: sorted_wrt_iff_nth_less name_less_nth)

lemma preferred_then_rest:
  assumes "distinct prefs" "distinct ns"
  shows "sorted_wrt (name_less prefs)
    (filter (\<lambda>n. n \<in> S) prefs @ sort_less (<) (filter (\<lambda>n. n \<notin> set prefs) ns))"
proof -
  let ?b = "sort_less (<) (filter (\<lambda>n. n \<notin> set prefs) ns)"
  have less: "name_less prefs x y" if "x \<notin> set prefs" "y \<notin> set prefs" "x < y" for x y
  proof -
    have "priority_from 0 prefs x = None" "priority_from 0 prefs y = None"
      using that by (simp_all add: priority_from_None)
    with that(3) show ?thesis by (simp add: name_less_def)
  qed
  have "sorted_wrt (<) ?b" by (rule sorted_sort_less [OF total_string_less]) (simp add: assms(2))
  then have "sorted_wrt (name_less prefs) ?b"
    by (rule sorted_wrt_mono_rel [rotated]) (auto intro: less)
  moreover have "sorted_wrt (name_less prefs) (filter (\<lambda>n. n \<in> S) prefs)"
    using sorted_name_less [OF assms(1)] by (rule sorted_wrt_filter)
  moreover have "name_less prefs x y" if "x \<in> set prefs" "y \<notin> set prefs" for x y
    using that priority_from_None [of 0 prefs x] priority_from_None [of 0 prefs y]
    by (auto simp: name_less_def)
  ultimately show ?thesis by (simp add: sorted_wrt_append)
qed

lemma SupportedNames_sorted:
  assumes "mgr_wf m" "protocols m \<noteq> []"
  defines "lt \<equiv> name_less (effectivelyPreferredOrder m)"
  shows "set (SupportedNames m) = fst ` set (protocols m) \<and> sorted_wrt lt (SupportedNames m)"
proof -
  have d: "distinct (map fst (protocols m))" using assms(1) by (simp add: mgr_wf_def)
  have "effectivelyPreferredOrder m \<noteq> []"
    using assms(1,2) by (auto simp: effectivelyPreferredOrder_def mgr_wf_def)
  with assms(2) have "SupportedNames m = sort_less lt (map fst (protocols m))"
    by (simp add: SupportedNames_def Let_def lt_def)
  with sorted_sort_less [OF total_name_less d] show ?thesis by (simp add: lt_def)
qed

lemma set_SupportedNames: "mgr_wf m \<Longrightarrow> set (SupportedNames m) = fst ` set (protocols m)"
  using SupportedNames_sorted [of m] by (cases "protocols m = []") (auto simp: SupportedNames_def)

lemma SupportedNames_nonempty_names: "mgr_wf m \<Longrightarrow> '''' \<notin> set (SupportedNames m)"
  by (simp add: set_SupportedNames mgr_wf_def)

section \<open>Properties\<close>

text \<open>
  C35: in every manager the program can build by \<open>NewManager\<close>, \<open>Register\<close> and the setters, each
  name is registered once, no adapter has the empty name, and the registration order lists exactly
  the registered names, once each. \<open>Get\<close> finds an adapter for precisely the supported names.
\<close>

theorem manager_invariant:
  assumes "mgr_reach prefs m"
  shows "distinct (map fst (protocols m)) \<and> distinct (registrationOrder m) \<and>
    set (registrationOrder m) = set (SupportedNames m) \<and> '''' \<notin> set (SupportedNames m) \<and>
    (\<forall>n. (\<exists>p. Get m n = Some p) \<longleftrightarrow> n \<in> set (SupportedNames m))"
proof -
  have w: "mgr_wf m" using mgr_reach_wf [OF assms] by simp
  have "(\<exists>p. Get m n = Some p) \<longleftrightarrow> n \<in> fst ` set (protocols m)" for n
    using map_of_eq_None_iff [of "protocols m" n] unfolding Get_def by (metis not_None_eq)
  with w set_SupportedNames [OF w] SupportedNames_nonempty_names [OF w] show ?thesis
    by (simp add: mgr_wf_def)
qed

definition wit_manager :: "nat manager" where
  "wit_manager = Register (Some (''plain'', 2)) (Register (Some (''vless'', 1)) (NewManager []))"

lemma wit_manager_reach: "mgr_reach [] wit_manager"
  unfolding wit_manager_def
  by (rule reach_step [OF reach_step [OF reach_new step_register] step_register])

lemma manager_invariant_witness:
  "distinct (registrationOrder wit_manager) \<and> '''' \<notin> set (SupportedNames wit_manager)"
  using manager_invariant [OF wit_manager_reach] by blast

text \<open>
  The order \<open>SupportedNames\<close> returns. Without preferences it is the order of registration.
  With preferences (each name once) it is the preferred names that are registered, in the preferred
  order, followed by the other registered names in alphabetical order.
\<close>

theorem supported_names_order:
  assumes "mgr_reach prefs m"
  shows "(prefs = [] \<longrightarrow> SupportedNames m = registrationOrder m) \<and>
    (prefs \<noteq> [] \<and> distinct prefs \<longrightarrow>
       SupportedNames m = filter (\<lambda>n. n \<in> set (registrationOrder m)) prefs @
         sort_less (<) (filter (\<lambda>n. n \<notin> set prefs) (registrationOrder m)))"
proof -
  have w: "mgr_wf m" and pm: "preferred m = prefs" using mgr_reach_wf [OF assms] by simp_all
  have ro: "distinct (registrationOrder m)" "set (registrationOrder m) = fst ` set (protocols m)"
    using w by (simp_all add: mgr_wf_def)
  show ?thesis
  proof (cases "protocols m = []")
    case True
    with ro have "registrationOrder m = []" by simp
    with True show ?thesis by (simp add: SupportedNames_def)
  next
    case False
    note s = SupportedNames_sorted [OF w False]
    show ?thesis
    proof (cases "prefs = []")
      case True
      then have o: "effectivelyPreferredOrder m = registrationOrder m"
        by (simp add: effectivelyPreferredOrder_def pm)
      have "SupportedNames m = registrationOrder m"
      proof (rule sorted_wrt_unique [OF total_name_less [where A = UNIV]])
        show "set (SupportedNames m) = set (registrationOrder m)" using s ro by simp
        show "sorted_wrt (name_less (registrationOrder m)) (SupportedNames m)" using s by (simp only: o)
        show "sorted_wrt (name_less (registrationOrder m)) (registrationOrder m)"
          by (rule sorted_name_less [OF ro(1)])
      qed simp
      with True show ?thesis by simp
    next
      case np: False
      then have o: "effectivelyPreferredOrder m = prefs" by (simp add: effectivelyPreferredOrder_def pm)
      have "SupportedNames m = filter (\<lambda>n. n \<in> set (registrationOrder m)) prefs @
          sort_less (<) (filter (\<lambda>n. n \<notin> set prefs) (registrationOrder m))" if d: "distinct prefs"
      proof (rule sorted_wrt_unique [OF total_name_less [where A = UNIV]])
        show "set (SupportedNames m) = set (filter (\<lambda>n. n \<in> set (registrationOrder m)) prefs @
            sort_less (<) (filter (\<lambda>n. n \<notin> set prefs) (registrationOrder m)))" using s ro by auto
        show "sorted_wrt (name_less prefs) (SupportedNames m)" using s by (simp only: o)
      qed (simp_all only: subset_UNIV preferred_then_rest [OF d ro(1)])
      with np show ?thesis by simp
    qed
  qed
qed

lemma supported_names_order_witness: "SupportedNames wit_manager = [''vless'', ''plain'']"
proof -
  have "registrationOrder wit_manager = [''vless'', ''plain'']"
    by (simp add: wit_manager_def Register_def NewManager_def)
  with supported_names_order [OF wit_manager_reach] show ?thesis by simp
qed

end
