(* ===== verification/Negotiate.thy ===== *)
theory Negotiate
  imports ProtoManager
begin

text \<open>
  \<open>hypernet/services/proxy/protonegotiate\<close>: the exchange of one offer and one response over a
  stream of its own. The JSON encoding belongs to the standard library; a stream carries the
  decoded messages, and decoding may fail.
\<close>

record offer =
  off_protocols :: "string list"
  off_transports :: "string list"

record response =
  resp_protocols :: "string list"
  Chosen :: string
  ChosenTransport :: string

section \<open>Server\<close>

text \<open>
  \<open>HandleStream\<close>: the manager (which may be nil), the result of decoding the offer and the error of
  encoding the response. The result is the chosen protocol or the error, and the response the peer
  receives, if any.
\<close>

definition HandleStream ::
  "'p manager option \<Rightarrow> err + offer \<Rightarrow> err option \<Rightarrow> (err + string) \<times> response option"
where
  "HandleStream mgr decoded enc_err =
     (case mgr of
        None \<Rightarrow> (Inl (Err ''protocol manager is nil''), None)
      | Some mgr \<Rightarrow>
          (case decoded of
             Inl e \<Rightarrow> (Inl (wrap_err ''decode offer'' e), None)
           | Inr off \<Rightarrow>
               let localSupported = SupportedNames mgr
               in case ChooseCommon (off_protocols off) localSupported of
                    None \<Rightarrow>
                      (case enc_err of
                         Some e \<Rightarrow> (Inl (wrap_err ''encode response (no common)'' e), None)
                       | None \<Rightarrow>
                           (Inl (Err ''no common protocol''),
                            Some \<lparr>resp_protocols = localSupported, Chosen = '''', ChosenTransport = ''''\<rparr>))
                  | Some chosen \<Rightarrow>
                      let t = ChooseCommonTransport mgr (off_transports off)
                      in case enc_err of
                           Some e \<Rightarrow> (Inl (wrap_err ''encode response'' e), None)
                         | None \<Rightarrow>
                             (Inr chosen,
                              Some \<lparr>resp_protocols = localSupported, Chosen = chosen,
                                    ChosenTransport = t\<rparr>)))"

section \<open>Client\<close>

definition client_offer :: "'p manager \<Rightarrow> offer" where
  "client_offer mgr =
     \<lparr>off_protocols = SupportedNames mgr,
      off_transports = (if defaultTransport mgr \<noteq> ''''
                        then defaultTransport mgr # SupportedTransports mgr
                        else SupportedTransports mgr)\<rparr>"

fun join_space :: "string list \<Rightarrow> string" where
  "join_space [] = ''''"
| "join_space [x] = x"
| "join_space (x # xs) = x @ '' '' @ join_space xs"

text \<open>
  \<open>ClientNegotiate\<close>: whether the host is present, the result of opening the stream, and what the
  peer makes of the offer: an encoding error, or the result of decoding its response.
\<close>

definition ClientNegotiate ::
  "bool \<Rightarrow> 'p manager option \<Rightarrow> err option \<Rightarrow> (offer \<Rightarrow> err + (err + response)) \<Rightarrow>
     err + (string \<times> string)"
where
  "ClientNegotiate have_host mgr open_err peer =
     (if \<not> have_host then Inl (Err ''host is nil'')
      else case mgr of
        None \<Rightarrow> Inl (Err ''protocol manager is nil'')
      | Some mgr \<Rightarrow>
          (case open_err of
             Some e \<Rightarrow> Inl (wrap_err ''open negotiation stream'' e)
           | None \<Rightarrow>
               (case peer (client_offer mgr) of
                  Inl e \<Rightarrow> Inl (wrap_err ''encode offer'' e)
                | Inr (Inl e) \<Rightarrow>
                    if e = EOF then Inl (Err ''decode response: unexpected EOF'')
                    else Inl (wrap_err ''decode response'' e)
                | Inr (Inr resp) \<Rightarrow>
                    if Chosen resp = '''' then
                      Inl (Err (''no common protocol (remote supported=['' @
                                join_space (resp_protocols resp) @ ''])''))
                    else Inr (Chosen resp, ChosenTransport resp))))"

section \<open>Both ends\<close>

text \<open>The peer is a node running \<open>HandleStream\<close>; without a response its stream ends.\<close>

definition node_peer :: "'p manager option \<Rightarrow> offer \<Rightarrow> err + (err + response)" where
  "node_peer mgr off =
     (case snd (HandleStream mgr (Inr off) None) of
        None \<Rightarrow> Inr (Inl EOF) | Some r \<Rightarrow> Inr (Inr r))"

lemma first_in_Some:
  "first_in S ns = Some n \<longleftrightarrow> (\<exists>us vs. ns = us @ n # vs \<and> n \<in> S \<and> set us \<inter> S = {})"
proof (induction ns)
  case Nil
  then show ?case by simp
next
  case (Cons a ns)
  show ?case
  proof (cases "a \<in> S")
    case True
    then show ?thesis by (auto simp: Cons_eq_append_conv)
  next
    case False
    have "(\<exists>us vs. a # ns = us @ n # vs \<and> n \<in> S \<and> set us \<inter> S = {}) \<longleftrightarrow>
        (\<exists>us vs. ns = us @ n # vs \<and> n \<in> S \<and> set us \<inter> S = {})" (is "?L \<longleftrightarrow> ?R")
    proof
      assume ?L
      then obtain us vs where u: "a # ns = us @ n # vs" "n \<in> S" "set us \<inter> S = {}" by blast
      with False obtain us' where "us = a # us'" by (cases us) auto
      with u show ?R by auto
    next
      assume ?R
      then obtain us vs where "ns = us @ n # vs" "n \<in> S" "set us \<inter> S = {}" by blast
      with False show ?L by (intro exI [of _ "a # us"] exI [of _ vs]) simp
    qed
    with False Cons.IH show ?thesis by simp
  qed
qed

lemma first_in_None: "first_in S ns = None \<longleftrightarrow> set ns \<inter> S = {}"
  by (induction ns) auto

lemma ChooseCommon_first:
  "ChooseCommon l r = first_in (set r) l"
  by (cases "r = []") (auto simp: ChooseCommon_def first_in_None [of "{}", simplified] intro: sym)

lemma first_supported_cases:
  "first_supported S ts = '''' \<and> set ts \<inter> S \<subseteq> {''''} \<or>
   first_supported S ts \<noteq> '''' \<and> first_supported S ts \<in> S \<inter> set ts"
  by (induction ts) auto

section \<open>Properties\<close>

text \<open>
  C12: client and node agree. For any two managers the program can build, the client succeeds
  exactly when the node does, and with the same protocol: the first of the client's names, in the
  client's order, that the node supports. When they have none in common both fail. The transport
  the client learns is either none or one the client offered and the node supports.
\<close>

theorem negotiation_agrees:
  assumes "mgr_reach prefs_c mc" "mgr_reach prefs_s ms"
  shows "case ClientNegotiate True (Some mc) None (node_peer (Some ms)) of
      Inr (p, t) \<Rightarrow>
        fst (HandleStream (Some ms) (Inr (client_offer mc)) None) = Inr p \<and>
        (\<exists>us vs. SupportedNames mc = us @ p # vs \<and> p \<in> set (SupportedNames ms) \<and>
           set us \<inter> set (SupportedNames ms) = {}) \<and>
        (t = '''' \<or> t \<in> set (off_transports (client_offer mc)) \<inter> set (SupportedTransports ms))
    | Inl _ \<Rightarrow>
        fst (HandleStream (Some ms) (Inr (client_offer mc)) None) = Inl (Err ''no common protocol'') \<and>
        set (SupportedNames mc) \<inter> set (SupportedNames ms) = {}"
proof (cases "first_in (set (SupportedNames ms)) (SupportedNames mc)")
  case None
  have "off_protocols (client_offer mc) = SupportedNames mc" by (simp add: client_offer_def)
  with None have "HandleStream (Some ms) (Inr (client_offer mc)) None =
      (Inl (Err ''no common protocol''),
       Some \<lparr>resp_protocols = SupportedNames ms, Chosen = '''', ChosenTransport = ''''\<rparr>)"
    by (simp add: HandleStream_def ChooseCommon_first Let_def)
  with None show ?thesis by (simp add: ClientNegotiate_def node_peer_def first_in_None)
next
  case (Some p)
  then have p: "\<exists>us vs. SupportedNames mc = us @ p # vs \<and> p \<in> set (SupportedNames ms) \<and>
      set us \<inter> set (SupportedNames ms) = {}" by (simp add: first_in_Some)
  then have "p \<noteq> ''''"
    using SupportedNames_nonempty_names [of mc] mgr_reach_wf [OF assms(1)] by auto
  moreover have "off_protocols (client_offer mc) = SupportedNames mc" by (simp add: client_offer_def)
  with Some have "HandleStream (Some ms) (Inr (client_offer mc)) None =
      (Inr p, Some \<lparr>resp_protocols = SupportedNames ms, Chosen = p,
         ChosenTransport = ChooseCommonTransport ms (off_transports (client_offer mc))\<rparr>)"
    by (simp add: HandleStream_def ChooseCommon_first Let_def)
  ultimately show ?thesis
    using p first_supported_cases [of "set (SupportedTransports ms)" "off_transports (client_offer mc)"]
    by (auto simp: ClientNegotiate_def node_peer_def ChooseCommonTransport_def)
qed

definition wit_node :: "nat manager" where
  "wit_node =
     SetSupportedTransports [''tcp'', ''ws'']
       (Register (Some (''trojan'', 1)) (Register (Some (''plain'', 0)) (NewManager [])))"

lemma wit_node_reach: "mgr_reach [] wit_node"
  unfolding wit_node_def
  by (rule reach_step [OF reach_step [OF reach_step [OF reach_new step_register] step_register]
        step_transports])

lemma negotiation_agrees_witness:
  "\<exists>t. ClientNegotiate True (Some wit_manager) None (node_peer (Some wit_node)) = Inr (''plain'', t) \<and>
     fst (HandleStream (Some wit_node) (Inr (client_offer wit_manager)) None) = Inr ''plain''"
proof -
  have m: "SupportedNames wit_manager = [''vless'', ''plain'']"
    by (simp add: SupportedNames_def effectivelyPreferredOrder_def wit_manager_def Register_def
        NewManager_def name_less_def)
  have n: "SupportedNames wit_node = [''plain'', ''trojan'']"
    by (simp add: SupportedNames_def effectivelyPreferredOrder_def wit_node_def Register_def
        NewManager_def name_less_def SetSupportedTransports_def)
  from negotiation_agrees [OF wit_manager_reach wit_node_reach]
  show ?thesis
    by (auto simp: m n Cons_eq_append_conv append_eq_Cons_conv split: sum.splits prod.splits)
qed

end
