(* ===== verification/Tasks.thy ===== *)
theory Tasks
  imports Main
begin

text \<open>
  Two goroutines that share a state and take turns: a schedule says which of them runs next, and
  the turn of one that is blocked or has ended passes. \<open>two_tasks\<close> is the contract of a pair of
  tasks that always make progress: while work is left for a task its step succeeds, takes some of
  its work away and leaves the other's alone. Then every schedule with enough turns for each
  finishes both.
\<close>

text \<open>The turns of one task in a schedule.\<close>

definition turns :: "bool \<Rightarrow> bool list \<Rightarrow> nat" where
  "turns d sched = length (filter (\<lambda>x. x = d) sched)"

locale two_tasks =
  fixes stepA stepB :: "'s \<Rightarrow> 's option"
    and run :: "bool list \<Rightarrow> 's \<Rightarrow> 's"
    and good :: "'s \<Rightarrow> bool"
    and leftA leftB :: "'s \<Rightarrow> nat"
  assumes run_Nil: "run [] s = s"
    and run_Cons: "run (d # sched) s =
      run sched (case (if d then stepA s else stepB s) of None \<Rightarrow> s | Some s' \<Rightarrow> s')"
    and idleA: "good s \<Longrightarrow> leftA s = 0 \<Longrightarrow> stepA s = None"
    and idleB: "good s \<Longrightarrow> leftB s = 0 \<Longrightarrow> stepB s = None"
    and workA: "good s \<Longrightarrow> 0 < leftA s \<Longrightarrow>
      \<exists>s'. stepA s = Some s' \<and> good s' \<and> leftA s' < leftA s \<and> leftB s' = leftB s"
    and workB: "good s \<Longrightarrow> 0 < leftB s \<Longrightarrow>
      \<exists>s'. stepB s = Some s' \<and> good s' \<and> leftB s' < leftB s \<and> leftA s' = leftA s"
begin

lemma finishes:
  "good s \<Longrightarrow> leftA s \<le> turns True sched \<Longrightarrow> leftB s \<le> turns False sched \<Longrightarrow>
     good (run sched s) \<and> leftA (run sched s) = 0 \<and> leftB (run sched s) = 0"
proof (induction sched arbitrary: s)
  case Nil
  then show ?case by (simp add: turns_def run_Nil)
next
  case (Cons d sched)
  show ?case
  proof (cases d)
    case True
    show ?thesis
    proof (cases "leftA s = 0")
      case True
      with \<open>d\<close> idleA [OF Cons.prems(1)] Cons.IH [of s] Cons.prems show ?thesis
        by (simp add: turns_def run_Cons)
    next
      case False
      with workA [OF Cons.prems(1)] obtain s' where
        "stepA s = Some s'" "good s'" "leftA s' < leftA s" "leftB s' = leftB s" by blast
      with \<open>d\<close> Cons.IH [of s'] Cons.prems show ?thesis by (simp add: turns_def run_Cons)
    qed
  next
    case nd: False
    show ?thesis
    proof (cases "leftB s = 0")
      case True
      with nd idleB [OF Cons.prems(1)] Cons.IH [of s] Cons.prems show ?thesis
        by (simp add: turns_def run_Cons)
    next
      case False
      with workB [OF Cons.prems(1)] obtain s' where
        "stepB s = Some s'" "good s'" "leftB s' < leftB s" "leftA s' = leftA s" by blast
      with nd Cons.IH [of s'] Cons.prems show ?thesis by (simp add: turns_def run_Cons)
    qed
  qed
qed

end

end
