(* ===== verification/Pipe.thy ===== *)
theory Pipe
  imports ProtoIface Tasks IOFrame
begin

text \<open>
  The relay loops of \<open>hypernet/services/proxy/server/proxy.go\<close>: \<open>pipeBidirectional\<close> between a
  stream and a TCP target, and the two loops of \<open>handleUDPProxy\<close>.

  The two goroutines of \<open>pipeBidirectional\<close> are the two kinds of step of a transition relation: a
  round of \<open>io.Copy\<close> in one direction. A round whose read would block is not enabled. The stream the
  second goroutine writes to is the one under the buffered reader of the first.
\<close>

section \<open>pipeBidirectional\<close>

text \<open>
  \<open>up_done\<close> and \<open>down_done\<close> hold the error \<open>io.Copy\<close> returned once it has; \<open>ctr_up\<close> and
  \<open>ctr_down\<close> are the counters of the session, which are written only then.
\<close>

record 's pipe =
  upstream :: "'s bufrd"
  target :: wire
  up_n :: nat
  down_n :: nat
  up_done :: "err option option"
  down_done :: "err option option"
  ctr_up :: nat
  ctr_down :: nat

definition new_pipe :: "'s bufrd \<Rightarrow> wire \<Rightarrow> 's pipe" where
  "new_pipe b t =
     \<lparr>upstream = b, target = t, up_n = 0, down_n = 0, up_done = None, down_done = None,
      ctr_up = 0, ctr_down = 0\<rparr>"

text \<open>An error ends both directions: target and stream are closed.\<close>

definition close_both :: "'s rwc \<Rightarrow> 's pipe \<Rightarrow> 's pipe" where
  "close_both io p =
     p\<lparr>target := wire_close (target p),
       upstream := (upstream p)\<lparr>b_src := s_close io (b_src (upstream p))\<rparr>\<rparr>"

definition up_round :: "'s rwc \<Rightarrow> 's pipe \<Rightarrow> 's pipe option" where
  "up_round io p =
     (if up_done p \<noteq> None then None
      else case copy_round (bufio_read (s_read io)) wire_write (upstream p) (target p) (up_n p) of
        None \<Rightarrow> None
      | Some (Inr n, b, t) \<Rightarrow> Some (p\<lparr>upstream := b, target := t, up_n := n\<rparr>)
      | Some (Inl (n, e), b, t) \<Rightarrow>
          let p1 = p\<lparr>upstream := b, target := t, up_n := n, up_done := Some e, ctr_up := ctr_up p + n\<rparr>
          in Some (if e \<noteq> None then close_both io p1 else p1))"

definition stream_write :: "'s rwc \<Rightarrow> ('s bufrd) writer" where
  "stream_write io b bs = (case s_write io (b_src b) bs of (n, e, s) \<Rightarrow> (n, e, b\<lparr>b_src := s\<rparr>))"

definition down_round :: "'s rwc \<Rightarrow> 's pipe \<Rightarrow> 's pipe option" where
  "down_round io p =
     (if down_done p \<noteq> None then None
      else case copy_round wire_read (stream_write io) (target p) (upstream p) (down_n p) of
        None \<Rightarrow> None
      | Some (Inr n, t, b) \<Rightarrow> Some (p\<lparr>upstream := b, target := t, down_n := n\<rparr>)
      | Some (Inl (n, e), t, b) \<Rightarrow>
          let p1 = p\<lparr>upstream := b, target := t, down_n := n, down_done := Some e,
                     ctr_down := ctr_down p + n\<rparr>
          in Some (if e \<noteq> None then close_both io p1 else p1))"

inductive pipe_step :: "'s rwc \<Rightarrow> 's pipe \<Rightarrow> 's pipe \<Rightarrow> bool" for io where
  pipe_up: "up_round io p = Some p' \<Longrightarrow> pipe_step io p p'"
| pipe_down: "down_round io p = Some p' \<Longrightarrow> pipe_step io p p'"

inductive_cases pipe_stepE: "pipe_step io p p'"
inductive_simps pipe_step_iff: "pipe_step io p p'"

text \<open>\<open>wg.Wait\<close> returns when both goroutines have ended.\<close>

definition pipe_done :: "'s pipe \<Rightarrow> bool" where
  "pipe_done p \<longleftrightarrow> up_done p \<noteq> None \<and> down_done p \<noteq> None"

text \<open>A schedule says which goroutine runs next; the turn of a blocked one passes.\<close>

fun pipe_run :: "'s rwc \<Rightarrow> bool list \<Rightarrow> 's pipe \<Rightarrow> 's pipe" where
  "pipe_run io [] p = p"
| "pipe_run io (up # sched) p =
     pipe_run io sched
       (case (if up then up_round io p else down_round io p) of None \<Rightarrow> p | Some p' \<Rightarrow> p')"

lemma pipe_run_steps: "(pipe_step io)\<^sup>*\<^sup>* p (pipe_run io sched p)"
proof (induction sched arbitrary: p)
  case Nil
  then show ?case by simp
next
  case (Cons up sched)
  let ?p = "case (if up then up_round io p else down_round io p) of None \<Rightarrow> p | Some p' \<Rightarrow> p'"
  have "pipe_step io p ?p \<or> ?p = p"
    by (cases up; cases "up_round io p"; cases "down_round io p") (auto intro: pipe_step.intros)
  with Cons.IH [of ?p] show ?case by (auto intro: converse_rtranclp_into_rtranclp)
qed

section \<open>The UDP relay\<close>

text \<open>
  A connected UDP socket: the datagrams sent, how many more sends succeed, the datagrams that will
  arrive, and the error after them (\<open>None\<close> when the socket stays silent).
\<close>

record udp_conn =
  u_sent :: "bytes list"
  u_room :: "nat option"
  u_inbox :: "bytes list"
  u_end :: "err option"
  u_closed :: bool

definition maxUDPPacketSize :: nat where
  "maxUDPPacketSize = 64 * 1024"

definition udp_write :: "udp_conn \<Rightarrow> bytes \<Rightarrow> err option \<times> udp_conn" where
  "udp_write u d =
     (if u_closed u then (Some err_closed_stream, u)
      else case u_room u of
        None \<Rightarrow> (None, u\<lparr>u_sent := u_sent u @ [d]\<rparr>)
      | Some 0 \<Rightarrow> (Some err_write_failed, u)
      | Some (Suc k) \<Rightarrow> (None, u\<lparr>u_sent := u_sent u @ [d], u_room := Some k\<rparr>))"

definition udp_recv :: "udp_conn \<Rightarrow> nat \<Rightarrow> (bytes \<times> err option \<times> udp_conn) option" where
  "udp_recv u n =
     (if u_closed u then Some ([], Some err_closed_stream, u)
      else case u_inbox u of
        d # ds \<Rightarrow> Some (take n d, None, u\<lparr>u_inbox := ds\<rparr>)
      | [] \<Rightarrow> (case u_end u of None \<Rightarrow> None | Some e \<Rightarrow> Some ([], Some e, u)))"

text \<open>
  The goroutine from the stream to the socket. Its result is the state when it returns; \<open>None\<close>
  when it waits for ever.
\<close>

partial_function (option) udp_up :: "'s reader \<Rightarrow> 's \<Rightarrow> udp_conn \<Rightarrow> ('s \<times> udp_conn) option" where
  "udp_up rd s u =
     (case read_full rd s 2 of
        None \<Rightarrow> None
      | Some (_, Some e, s1) \<Rightarrow> Some (s1, u)
      | Some (lenBuf, None, s1) \<Rightarrow>
          if be_get lenBuf \<le> 0 \<or> be_get lenBuf > maxUDPPacketSize then udp_up rd s1 u
          else (case read_full rd s1 (be_get lenBuf) of
            None \<Rightarrow> None
          | Some (_, Some e, s2) \<Rightarrow> Some (s2, u)
          | Some (d, None, s2) \<Rightarrow>
              (case udp_write u d of
                 (Some e, u1) \<Rightarrow> Some (s2, u1)
               | (None, u1) \<Rightarrow> udp_up rd s2 u1)))"

text \<open>The goroutine from the socket to the stream.\<close>

partial_function (option) udp_down :: "'s writer \<Rightarrow> 's \<Rightarrow> udp_conn \<Rightarrow> ('s \<times> udp_conn) option" where
  "udp_down wr s u =
     (case udp_recv u maxUDPPacketSize of
        None \<Rightarrow> None
      | Some (_, Some e, u1) \<Rightarrow> Some (s, u1)
      | Some (d, None, u1) \<Rightarrow>
          if length d \<le> 0 then udp_down wr s u1
          else (case wr s (put_u16 (length d)) of
            (_, Some e, s1) \<Rightarrow> Some (s1, u1)
          | (_, None, s1) \<Rightarrow>
              (case wr s1 d of
                 (_, Some e, s2) \<Rightarrow> Some (s2, u1)
               | (_, None, s2) \<Rightarrow> udp_down wr s2 u1)))"

definition udp_frame :: "bytes \<Rightarrow> bytes" where
  "udp_frame d = put_u16 (length d) @ d"

section \<open>Streams that lose nothing on their own\<close>

text \<open>
  A transparent stream: a read takes its bytes off the front of what is to come, whatever it returns,
  and a write appends the bytes to what was sent or fails without sending anything.
\<close>

locale transparent =
  fixes rd :: "'s reader" and wr :: "'s writer"
    and content :: "'s \<Rightarrow> bytes" and sent :: "'s \<Rightarrow> bytes"
  assumes read_exact: "rd s n = Some (bs, e, s') \<Longrightarrow> content s = bs @ content s' \<and> sent s' = sent s"
    and write_exact: "wr s bs = (n, e, s') \<Longrightarrow> content s' = content s \<and>
      (e = None \<and> n = length bs \<and> sent s' = sent s @ bs \<or> e \<noteq> None \<and> n = 0 \<and> sent s' = sent s)"
begin

lemma bufio_read_exact:
  "bufio_read rd b n = Some (bs, e, b') \<Longrightarrow>
     b_buf b @ content (b_src b) = bs @ b_buf b' @ content (b_src b') \<and> sent (b_src b') = sent (b_src b)"
  by (auto simp: bufio_read_def append_assoc [symmetric] simp del: append_assoc
      dest!: read_exact split: if_splits option.splits)

end

interpretation wiretap: transparent wire_read wire_write wire_content tx
proof unfold_locales
  fix s :: wire and n bs e s'
  assume "wire_read s n = Some (bs, e, s')"
  then show "wire_content s = bs @ wire_content s' \<and> tx s' = tx s"
    by (auto simp: wire_read_def wire_content_def split: if_splits list.splits option.splits)
next
  fix s :: wire and n bs e s'
  assume "wire_write s bs = (n, e, s')"
  then show "wire_content s' = wire_content s \<and>
      (e = None \<and> n = length bs \<and> tx s' = tx s @ bs \<or> e \<noteq> None \<and> n = 0 \<and> tx s' = tx s)"
    by (auto simp: wire_write_def wire_content_def split: if_splits option.splits nat.splits)
qed

text \<open>
  The account of one direction: of the bytes \<open>all\<close> that were to be copied, some were delivered, some
  lost, and the rest is still to come; bytes are lost only in a direction that ended with an error.
\<close>

definition account :: "bytes \<Rightarrow> bytes \<Rightarrow> bytes \<Rightarrow> nat \<Rightarrow> err option option \<Rightarrow> nat \<Rightarrow> bool" where
  "account all delivered rest n res ctr \<longleftrightarrow>
     (\<exists>lost. all = delivered @ lost @ rest \<and> (lost \<noteq> [] \<longrightarrow> (\<exists>e. res = Some (Some e)))) \<and>
     n = length delivered \<and> ctr = (if res = None then 0 else n)"

lemma account_more:
  "account all d (bs @ rest) n None c \<Longrightarrow> account all (d @ bs) rest (n + length bs) None c"
  by (auto simp: account_def)

lemma account_end:
  "account all d rest n None c \<Longrightarrow> account all d rest n (Some r) (c + n)"
  by (auto simp: account_def)

lemma account_lose:
  "account all d (bs @ rest) n None c \<Longrightarrow> account all d rest n (Some (Some e)) (c + n)"
  by (auto simp: account_def)

text \<open>A round of \<open>io.Copy\<close> keeps the account of its direction.\<close>

lemma copy_round_account:
  assumes rd: "\<And>n bs e s'. rd s n = Some (bs, e, s') \<Longrightarrow> cont s = bs @ cont s'"
    and wr: "\<And>bs n e d'. wr d bs = (n, e, d') \<Longrightarrow>
      e = None \<and> n = length bs \<and> snt d' = snt d @ bs \<or> e \<noteq> None \<and> n = 0 \<and> snt d' = snt d"
    and acc: "account all dl (cont s) n None 0" "snt d = base @ dl"
    and r: "copy_round rd wr s d n = Some (r, s', d')"
  shows "\<exists>dl'. snt d' = base @ dl' \<and>
    (case r of
       Inr n' \<Rightarrow> account all dl' (cont s') n' None 0
     | Inl (n', e) \<Rightarrow> account all dl' (cont s') n' (Some e) n')"
proof -
  from r obtain bs e s1 where b: "rd s copy_buf_size = Some (bs, e, s1)"
    by (auto simp: copy_round_def split: option.splits)
  obtain nw ew d1 where w: "(if bs \<noteq> [] then wr d bs else (0, None, d)) = (nw, ew, d1)"
    by (metis prod_cases3)
  have w': "ew = None \<and> nw = length bs \<and> snt d1 = snt d @ bs \<or> ew \<noteq> None \<and> nw = 0 \<and> snt d1 = snt d"
    using wr [of bs nw ew d1] w by (cases "bs = []") auto
  from acc(1) rd [OF b] have a: "account all dl (bs @ cont s1) n None 0" by simp
  show ?thesis
  proof (cases ew)
    case None
    with w' have g: "nw = length bs" "snt d1 = snt d @ bs" by auto
    have m: "account all (dl @ bs) (cont s1) (n + length bs) None 0" "snt d1 = base @ dl @ bs"
      using account_more [OF a] g acc(2) by simp_all
    show ?thesis
      using r None g m(1) account_end [OF m(1)] m(2)
      by (intro exI [of _ "dl @ bs"])
        (auto simp: copy_round_def b w Let_def split: option.splits err.splits)
  next
    case (Some x)
    with w' have g: "nw = 0" "snt d1 = snt d" by auto
    show ?thesis using r Some g account_lose [OF a, of x] acc(2)
      by (intro exI [of _ dl]) (auto simp: copy_round_def b w Let_def)
  qed
qed

definition pipe_account :: "bytes \<Rightarrow> bytes \<Rightarrow> bytes \<Rightarrow> bytes \<Rightarrow> wire pipe \<Rightarrow> bool" where
  "pipe_account up_all down_all t0 s0 p \<longleftrightarrow>
     (\<exists>u. tx (target p) = t0 @ u \<and>
        account up_all u (b_buf (upstream p) @ wire_content (b_src (upstream p)))
          (up_n p) (up_done p) (ctr_up p)) \<and>
     (\<exists>d. tx (b_src (upstream p)) = s0 @ d \<and>
        account down_all d (wire_content (target p)) (down_n p) (down_done p) (ctr_down p))"

lemma wire_close_keeps [simp]: "tx (wire_close w) = tx w" "wire_content (wire_close w) = wire_content w"
  by (simp_all add: wire_close_def wire_content_def)

lemma copy_round_keeps:
  assumes "copy_round rd wr s d n = Some (r, s', d')"
    and "\<And>n bs e s'. rd s n = Some (bs, e, s') \<Longrightarrow> P s s'" "\<And>bs n e d'. wr d bs = (n, e, d') \<Longrightarrow> Q d d'"
    and "Q d d"
  shows "P s s' \<and> Q d d'"
proof -
  from assms(1) obtain bs e s1 where b: "rd s copy_buf_size = Some (bs, e, s1)"
    by (auto simp: copy_round_def split: option.splits)
  obtain nw ew d1 where w: "(if bs \<noteq> [] then wr d bs else (0, None, d)) = (nw, ew, d1)"
    by (metis prod_cases3)
  have "s' = s1 \<and> d' = d1" using assms(1) b w
    by (auto simp: copy_round_def Let_def split: if_splits option.splits err.splits)
  with assms(2) [OF b] assms(3,4) w show ?thesis by (cases "bs = []") auto
qed

lemma up_round_account:
  assumes "up_round wire_rwc p = Some p'" "pipe_account ua da kt ks p"
  shows "pipe_account ua da kt ks p'"
proof -
  from assms(1) have nd: "up_done p = None" by (auto simp: up_round_def split: if_splits)
  with assms(1) obtain r b t where
    c: "copy_round (bufio_read wire_read) wire_write (upstream p) (target p) (up_n p) = Some (r, b, t)"
    by (auto simp: up_round_def wire_rwc_def split: option.splits)
  from assms(2) nd obtain u where
    a: "account ua u (b_buf (upstream p) @ wire_content (b_src (upstream p))) (up_n p) None 0"
    "tx (target p) = kt @ u" and a3: "ctr_up p = 0"
    by (auto simp: pipe_account_def account_def)
  note acc = copy_round_account [where cont = "\<lambda>b. b_buf b @ wire_content (b_src b)" and snt = tx, OF _ _ a(1,2) c]
  have acc: "\<exists>u. tx t = kt @ u \<and> (case r of
       Inr n' \<Rightarrow> account ua u (b_buf b @ wire_content (b_src b)) n' None 0
     | Inl (n', e) \<Rightarrow> account ua u (b_buf b @ wire_content (b_src b)) n' (Some e) n')"
    by (rule acc) (use wiretap.bufio_read_exact wiretap.write_exact in \<open>simp, blast+\<close>)
  have k: "tx (b_src b) = tx (b_src (upstream p)) \<and> wire_content t = wire_content (target p)"
    by (rule copy_round_keeps [OF c, where P = "\<lambda>b b'. tx (b_src b') = tx (b_src b)"
          and Q = "\<lambda>t t'. wire_content t' = wire_content t"]) (use wiretap.bufio_read_exact wiretap.write_exact in blast)+
  show ?thesis
  proof (cases r)
    case (Inr n)
    then have "p' = p\<lparr>upstream := b, target := t, up_n := n\<rparr>"
      using assms(1) c nd by (simp add: up_round_def wire_rwc_def)
    with Inr acc k nd a3 assms(2) show ?thesis by (simp add: pipe_account_def)
  next
    case (Inl ne)
    obtain n e where ne: "ne = (n, e)" by fastforce
    let ?p = "p\<lparr>upstream := b, target := t, up_n := n, up_done := Some e, ctr_up := ctr_up p + n\<rparr>"
    have "p' = (if e \<noteq> None then close_both wire_rwc ?p else ?p)"
      using assms(1) c nd Inl ne by (cases e) (simp_all add: up_round_def wire_rwc_def Let_def)
    moreover have "pipe_account ua da kt ks ?p"
      using Inl ne acc k nd a3 assms(2) by (simp add: pipe_account_def)
    moreover have "pipe_account ua da kt ks (close_both wire_rwc q) = pipe_account ua da kt ks q" for q
      by (simp add: pipe_account_def close_both_def wire_rwc_def)
    ultimately show ?thesis by (cases e) simp_all
  qed
qed

lemma down_round_account:
  assumes "down_round wire_rwc p = Some p'" "pipe_account ua da kt ks p"
  shows "pipe_account ua da kt ks p'"
proof -
  from assms(1) have nd: "down_done p = None" by (auto simp: down_round_def split: if_splits)
  have sw: "stream_write wire_rwc b bs = (n, e, b') \<Longrightarrow>
      (\<exists>s'. wire_write (b_src b) bs = (n, e, s') \<and> b' = b\<lparr>b_src := s'\<rparr>)" for b bs n e b'
    by (cases "wire_write (b_src b) bs") (simp add: stream_write_def wire_rwc_def)
  from assms(1) nd obtain r b t where
    c: "copy_round wire_read (stream_write wire_rwc) (target p) (upstream p) (down_n p) = Some (r, t, b)"
    by (auto simp: down_round_def wire_rwc_def split: option.splits)
  from assms(2) nd obtain d where
    a: "account da d (wire_content (target p)) (down_n p) None 0"
    "tx (b_src (upstream p)) = ks @ d" and a3: "ctr_down p = 0"
    by (auto simp: pipe_account_def account_def)
  have acc: "\<exists>d. tx (b_src b) = ks @ d \<and> (case r of
       Inr n' \<Rightarrow> account da d (wire_content t) n' None 0
     | Inl (n', e) \<Rightarrow> account da d (wire_content t) n' (Some e) n')"
  proof (rule copy_round_account [where cont = wire_content and snt = "\<lambda>b. tx (b_src b)", OF _ _ a(1,2) c])
    fix bs n e b'
    assume "stream_write wire_rwc (upstream p) bs = (n, e, b')"
    from sw [OF this] obtain s' where s: "wire_write (b_src (upstream p)) bs = (n, e, s')"
      "b' = (upstream p)\<lparr>b_src := s'\<rparr>" by blast
    from wiretap.write_exact [OF s(1)] s(2)
    show "e = None \<and> n = length bs \<and> tx (b_src b') = tx (b_src (upstream p)) @ bs \<or>
        e \<noteq> None \<and> n = 0 \<and> tx (b_src b') = tx (b_src (upstream p))" by simp
  next
    fix n bs e s'
    assume "wire_read (target p) n = Some (bs, e, s')"
    from wiretap.read_exact [OF this] show "wire_content (target p) = bs @ wire_content s'" by simp
  qed
  have k: "tx t = tx (target p) \<and> (b_buf b = b_buf (upstream p) \<and>
      wire_content (b_src b) = wire_content (b_src (upstream p)))"
  proof (rule copy_round_keeps [OF c, where P = "\<lambda>t t'. tx t' = tx t"
        and Q = "\<lambda>b b'. b_buf b' = b_buf b \<and> wire_content (b_src b') = wire_content (b_src b)"])
    fix bs n e b'
    assume "stream_write wire_rwc (upstream p) bs = (n, e, b')"
    from sw [OF this] obtain s' where s: "wire_write (b_src (upstream p)) bs = (n, e, s')"
      "b' = (upstream p)\<lparr>b_src := s'\<rparr>" by blast
    from wiretap.write_exact [OF s(1)] s(2)
    show "b_buf b' = b_buf (upstream p) \<and> wire_content (b_src b') = wire_content (b_src (upstream p))"
      by simp
  next
    fix n bs e s'
    assume "wire_read (target p) n = Some (bs, e, s')"
    from wiretap.read_exact [OF this] show "tx s' = tx (target p)" by simp
  qed simp
  show ?thesis
  proof (cases r)
    case (Inr n)
    then have "p' = p\<lparr>upstream := b, target := t, down_n := n\<rparr>"
      using assms(1) c nd by (simp add: down_round_def wire_rwc_def)
    with Inr acc k nd a3 assms(2) show ?thesis by (simp add: pipe_account_def)
  next
    case (Inl ne)
    obtain n e where ne: "ne = (n, e)" by fastforce
    let ?p = "p\<lparr>upstream := b, target := t, down_n := n, down_done := Some e, ctr_down := ctr_down p + n\<rparr>"
    have "p' = (if e \<noteq> None then close_both wire_rwc ?p else ?p)"
      using assms(1) c nd Inl ne by (cases e) (simp_all add: down_round_def wire_rwc_def Let_def)
    moreover have "pipe_account ua da kt ks ?p"
      using Inl ne acc k nd a3 assms(2) by (simp add: pipe_account_def)
    moreover have "pipe_account ua da kt ks (close_both wire_rwc q) = pipe_account ua da kt ks q" for q
      by (simp add: pipe_account_def close_both_def wire_rwc_def)
    ultimately show ?thesis by (cases e) simp_all
  qed
qed

lemma pipe_step_account:
  "pipe_step wire_rwc p p' \<Longrightarrow> pipe_account ua da kt ks p \<Longrightarrow> pipe_account ua da kt ks p'"
  by (erule pipe_stepE) (auto intro: up_round_account down_round_account)

section \<open>Termination of the relay\<close>

text \<open>
  Both ends are up, and each will end its stream. \<open>up_left\<close> and \<open>down_left\<close> bound the rounds each
  goroutine still makes.
\<close>

definition ends_well :: "wire \<Rightarrow> bool" where
  "ends_well w \<longleftrightarrow> \<not> closed w \<and> tx_room w = None \<and> rx_end w = Some EOF"

definition clean :: "err option option \<Rightarrow> bool" where
  "clean r \<longleftrightarrow> r = None \<or> r = Some None"

definition pipe_good :: "wire pipe \<Rightarrow> bool" where
  "pipe_good p \<longleftrightarrow> ends_well (target p) \<and> ends_well (b_src (upstream p)) \<and>
     (b_err (upstream p) = None) \<and> clean (up_done p) \<and> clean (down_done p) \<and>
     (up_done p \<noteq> None \<longrightarrow> rx (b_src (upstream p)) = [] \<and> b_buf (upstream p) = []) \<and>
     (down_done p \<noteq> None \<longrightarrow> rx (target p) = [])"

definition up_left :: "wire pipe \<Rightarrow> nat" where
  "up_left p = (if up_done p \<noteq> None then 0
     else 1 + length (rx (b_src (upstream p))) + length (concat (rx (b_src (upstream p)))) +
          length (b_buf (upstream p)))"

definition down_left :: "wire pipe \<Rightarrow> nat" where
  "down_left p = (if down_done p \<noteq> None then 0
     else 1 + length (rx (target p)) + length (concat (rx (target p))))"

lemma ends_well_write: "ends_well w \<Longrightarrow> wire_write w bs = (length bs, None, w\<lparr>tx := tx w @ bs\<rparr>)"
  by (simp add: ends_well_def wire_write_def)

lemma ends_well_read:
  "ends_well w \<Longrightarrow> 0 < n \<Longrightarrow>
     rx w = [] \<and> wire_read w n = Some ([], Some EOF, w) \<or>
     (\<exists>bs segs. wire_read w n = Some (bs, None, w\<lparr>rx := segs\<rparr>) \<and>
        length segs + length (concat segs) < length (rx w) + length (concat (rx w)) \<and>
        length bs + length (concat segs) = length (concat (rx w)))"
  by (cases "rx w") (auto simp: ends_well_def wire_read_def)

lemma ends_well_upd [simp]:
  "ends_well (w\<lparr>tx := x\<rparr>) = ends_well w" "ends_well (w\<lparr>rx := y\<rparr>) = ends_well w"
  by (simp_all add: ends_well_def)

text \<open>One turn of the upward goroutine: it makes progress or ends, without touching the other side.\<close>

lemma up_round_progress:
  assumes g: "pipe_good p" and nd: "up_done p = None"
  shows "\<exists>p'. up_round wire_rwc p = Some p' \<and> pipe_good p' \<and> up_left p' < up_left p \<and>
    down_left p' = down_left p"
proof -
  let ?b = "upstream p" and ?t = "target p"
  have t: "ends_well ?t" and w: "ends_well (b_src ?b)" and e: "b_err ?b = None"
    and dn: "clean (down_done p)" "down_done p \<noteq> None \<longrightarrow> rx ?t = []"
    using g by (simp_all add: pipe_good_def)
  have rw: "s_read wire_rwc = wire_read" by (simp add: wire_rwc_def)
  have big: "bufio_size \<le> copy_buf_size" "copy_buf_size \<noteq> 0" "0 < copy_buf_size"
    by (simp_all add: bufio_size_def copy_buf_size_def)
  note defs = up_round_def copy_round_def rw bufio_read_def Let_def
  show ?thesis
  proof (cases "b_buf ?b = []")
    case False
    then obtain c cs where bb: "b_buf ?b = c # cs" by (cases "b_buf ?b") auto
    let ?out = "take copy_buf_size (b_buf ?b)"
    let ?p = "p\<lparr>upstream := ?b\<lparr>b_buf := drop copy_buf_size (b_buf ?b)\<rparr>,
      target := ?t\<lparr>tx := tx ?t @ ?out\<rparr>, up_n := up_n p + length ?out\<rparr>"
    have "up_round wire_rwc p = Some ?p"
      using nd False big by (simp add: defs ends_well_write [OF t])
    moreover have "pipe_good ?p" using t w e dn nd by (simp add: pipe_good_def clean_def)
    moreover have "up_left ?p < up_left p" using nd bb big by (simp add: up_left_def)
    ultimately show ?thesis by (intro exI [of _ ?p]) (simp add: down_left_def)
  next
    case empty: True
    from ends_well_read [OF w big(3)] show ?thesis
    proof
      assume h: "rx (b_src ?b) = [] \<and> wire_read (b_src ?b) copy_buf_size = Some ([], Some EOF, b_src ?b)"
      let ?p = "p\<lparr>upstream := ?b, target := ?t, up_n := up_n p, up_done := Some None,
        ctr_up := ctr_up p + up_n p\<rparr>"
      have "up_round wire_rwc p = Some ?p" using nd empty e big h by (simp add: defs)
      moreover have "pipe_good ?p" using t w e dn h empty by (simp add: pipe_good_def clean_def)
      ultimately show ?thesis using nd by (intro exI [of _ ?p]) (simp add: up_left_def down_left_def)
    next
      assume "\<exists>bs segs. wire_read (b_src ?b) copy_buf_size = Some (bs, None, (b_src ?b)\<lparr>rx := segs\<rparr>) \<and>
        length segs + length (concat segs) < length (rx (b_src ?b)) + length (concat (rx (b_src ?b))) \<and>
        length bs + length (concat segs) = length (concat (rx (b_src ?b)))"
      then obtain bs segs where h:
        "wire_read (b_src ?b) copy_buf_size = Some (bs, None, (b_src ?b)\<lparr>rx := segs\<rparr>)"
        "length segs + length (concat segs) < length (rx (b_src ?b)) + length (concat (rx (b_src ?b)))"
        by blast
      let ?p = "p\<lparr>upstream := ?b\<lparr>b_src := (b_src ?b)\<lparr>rx := segs\<rparr>\<rparr>,
        target := (if bs \<noteq> [] then ?t\<lparr>tx := tx ?t @ bs\<rparr> else ?t), up_n := up_n p + length bs\<rparr>"
      have "up_round wire_rwc p = Some ?p"
        using nd empty e big h(1) by (simp add: defs ends_well_write [OF t])
      moreover have "pipe_good ?p" using t w e dn nd by (simp add: pipe_good_def clean_def)
      moreover have "up_left ?p < up_left p" using h(2) nd empty by (simp add: up_left_def)
      ultimately show ?thesis by (intro exI [of _ ?p]) (simp add: down_left_def)
    qed
  qed
qed

lemma down_round_progress:
  assumes g: "pipe_good p" and nd: "down_done p = None"
  shows "\<exists>p'. down_round wire_rwc p = Some p' \<and> pipe_good p' \<and> down_left p' < down_left p \<and>
    up_left p' = up_left p"
proof -
  let ?b = "upstream p" and ?t = "target p"
  have t: "ends_well ?t" and w: "ends_well (b_src ?b)" and e: "b_err ?b = None"
    and un: "clean (up_done p)" "up_done p \<noteq> None \<longrightarrow> rx (b_src ?b) = [] \<and> b_buf ?b = []"
    using g by (simp_all add: pipe_good_def)
  have sw: "stream_write wire_rwc ?b bs =
      (length bs, None, ?b\<lparr>b_src := (b_src ?b)\<lparr>tx := tx (b_src ?b) @ bs\<rparr>\<rparr>)" for bs
    by (simp add: stream_write_def wire_rwc_def ends_well_write [OF w])
  have big: "0 < copy_buf_size" by (simp add: copy_buf_size_def)
  note defs = down_round_def copy_round_def Let_def
  from ends_well_read [OF t big] show ?thesis
  proof
    assume h: "rx ?t = [] \<and> wire_read ?t copy_buf_size = Some ([], Some EOF, ?t)"
    let ?p = "p\<lparr>upstream := ?b, target := ?t, down_n := down_n p, down_done := Some None,
      ctr_down := ctr_down p + down_n p\<rparr>"
    have "down_round wire_rwc p = Some ?p" using nd h by (simp add: defs)
    moreover have "pipe_good ?p" using t w e un h by (simp add: pipe_good_def clean_def)
    ultimately show ?thesis using nd by (intro exI [of _ ?p]) (simp add: up_left_def down_left_def)
  next
    assume "\<exists>bs segs. wire_read ?t copy_buf_size = Some (bs, None, ?t\<lparr>rx := segs\<rparr>) \<and>
      length segs + length (concat segs) < length (rx ?t) + length (concat (rx ?t)) \<and>
      length bs + length (concat segs) = length (concat (rx ?t))"
    then obtain bs segs where h: "wire_read ?t copy_buf_size = Some (bs, None, ?t\<lparr>rx := segs\<rparr>)"
      "length segs + length (concat segs) < length (rx ?t) + length (concat (rx ?t))" by blast
    let ?p = "p\<lparr>upstream := (if bs \<noteq> [] then ?b\<lparr>b_src := (b_src ?b)\<lparr>tx := tx (b_src ?b) @ bs\<rparr>\<rparr> else ?b),
      target := ?t\<lparr>rx := segs\<rparr>, down_n := down_n p + length bs\<rparr>"
    have "down_round wire_rwc p = Some ?p" using nd h(1) by (simp add: defs sw)
    moreover have "pipe_good ?p" using t w e un nd by (simp add: pipe_good_def clean_def)
    moreover have "down_left ?p < down_left p" using h(2) nd by (simp add: down_left_def)
    ultimately show ?thesis by (intro exI [of _ ?p]) (simp add: up_left_def)
  qed
qed

interpretation pipe_tasks: two_tasks "up_round wire_rwc" "down_round wire_rwc" "pipe_run wire_rwc"
  pipe_good up_left down_left
proof unfold_locales
  fix p :: "wire pipe"
  assume g: "pipe_good p"
  show "up_left p = 0 \<Longrightarrow> up_round wire_rwc p = None" by (simp add: up_left_def up_round_def split: if_splits)
  show "down_left p = 0 \<Longrightarrow> down_round wire_rwc p = None"
    by (simp add: down_left_def down_round_def split: if_splits)
  show "0 < up_left p \<Longrightarrow> \<exists>p'. up_round wire_rwc p = Some p' \<and> pipe_good p' \<and> up_left p' < up_left p \<and>
      down_left p' = down_left p"
    using up_round_progress [OF g] by (simp add: up_left_def split: if_splits)
  show "0 < down_left p \<Longrightarrow> \<exists>p'. down_round wire_rwc p = Some p' \<and> pipe_good p' \<and>
      down_left p' < down_left p \<and> up_left p' = up_left p"
    using down_round_progress [OF g] by (simp add: down_left_def split: if_splits)
qed simp_all

lemma pipe_run_finishes:
  "pipe_good p \<Longrightarrow> up_left p \<le> turns True sched \<Longrightarrow> down_left p \<le> turns False sched \<Longrightarrow>
     pipe_good (pipe_run wire_rwc sched p) \<and> pipe_done (pipe_run wire_rwc sched p)"
  using pipe_tasks.finishes [of p sched]
  by (auto simp: pipe_done_def up_left_def down_left_def split: if_splits)

section \<open>The framing of datagrams\<close>

context byte_stream
begin

lemma udp_up_frames:
  assumes "ok s" "content s = concat (map udp_frame ds) @ rest"
    and "\<forall>d\<in>set ds. length d \<le> 0xFFFF" "u_room u = None" "\<not> u_closed u"
  shows "\<exists>s' u'. ok s' \<and> content s' = rest \<and> udp_up rd s u = udp_up rd s' u' \<and>
    u_sent u' = u_sent u @ filter (\<lambda>d. d \<noteq> []) ds \<and> u_room u' = None \<and> \<not> u_closed u' \<and>
    u_inbox u' = u_inbox u \<and> u_end u' = u_end u"
  using assms
proof (induction ds arbitrary: s u)
  case Nil
  then show ?case by auto
next
  case (Cons d ds)
  have c: "content s = put_u16 (length d) @ (d @ concat (map udp_frame ds) @ rest)"
    using Cons.prems(2) by (simp add: udp_frame_def [of d])
  have ld: "be_get (put_u16 (length d)) = length d" "length d \<le> maxUDPPacketSize"
    using Cons.prems(3) by (auto simp: maxUDPPacketSize_def intro!: be_get_put_u16)
  from read_full_append [OF Cons.prems(1) c] obtain s1 where
    s1: "read_full rd s 2 = Some (put_u16 (length d), None, s1)"
    "content s1 = d @ concat (map udp_frame ds) @ rest" "ok s1" by auto
  show ?case
  proof (cases "d = []")
    case True
    with s1 ld have "udp_up rd s u = udp_up rd s1 u" by (subst udp_up.simps) simp
    with Cons.IH [of s1 u] Cons.prems s1 True show ?thesis by auto
  next
    case False
    from read_full_append [OF s1(3,2)] obtain s2 where
      s2: "read_full rd s1 (length d) = Some (d, None, s2)"
      "content s2 = concat (map udp_frame ds) @ rest" "ok s2" by auto
    let ?u = "u\<lparr>u_sent := u_sent u @ [d]\<rparr>"
    have "udp_up rd s u = udp_up rd s2 ?u"
      using s1(1) s2(1) ld False Cons.prems(4,5) by (subst udp_up.simps) (simp add: udp_write_def)
    with Cons.IH [of s2 ?u] Cons.prems s2 False show ?thesis by auto
  qed
qed

text \<open>The end of the stream ends the goroutine.\<close>

lemma udp_up_end:
  assumes "read_full rd s 2 = Some (bs, Some e, s')"
  shows "udp_up rd s u = Some (s', u)"
  using assms by (subst udp_up.simps) simp

end

context byte_sink
begin

lemma udp_down_frames:
  assumes "up s" "\<not> u_closed u" "u_inbox u = ds" "u_end u = Some e"
    and "\<forall>d\<in>set ds. length d \<le> 0xFFFF"
  shows "\<exists>s' u'. udp_down wr s u = Some (s', u') \<and> up s' \<and>
    sent s' = sent s @ concat (map udp_frame (filter (\<lambda>d. d \<noteq> []) ds))"
  using assms
proof (induction ds arbitrary: s u)
  case Nil
  then show ?case by (subst udp_down.simps) (simp add: udp_recv_def)
next
  case (Cons d ds)
  let ?u = "u\<lparr>u_inbox := ds\<rparr>"
  have tk: "take maxUDPPacketSize d = d" using Cons.prems(5) by (simp add: maxUDPPacketSize_def)
  have r: "udp_recv u maxUDPPacketSize = Some (d, None, ?u)"
    using Cons.prems(2,3) tk by (simp add: udp_recv_def)
  have u: "\<not> u_closed ?u" "u_inbox ?u = ds" "u_end ?u = Some e" "\<forall>d\<in>set ds. length d \<le> 0xFFFF"
    using Cons.prems by simp_all
  show ?case
  proof (cases "d = []")
    case True
    with r have "udp_down wr s u = udp_down wr s ?u" by (subst udp_down.simps) simp
    with Cons.IH [OF Cons.prems(1) u] True show ?thesis by simp
  next
    case False
    from write_sent [OF Cons.prems(1), of "put_u16 (length d)"] obtain s1 n1 where
      s1: "wr s (put_u16 (length d)) = (n1, None, s1)" "sent s1 = sent s @ put_u16 (length d)" "up s1" by blast
    from write_sent [OF s1(3), of d] obtain s2 n2 where
      s2: "wr s1 d = (n2, None, s2)" "sent s2 = sent s1 @ d" "up s2" by blast
    have "udp_down wr s u = udp_down wr s2 ?u"
      using r s1(1) s2(1) False by (subst udp_down.simps) simp
    with Cons.IH [OF s2(3) u] s1 s2 False show ?thesis by (auto simp: udp_frame_def)
  qed
qed

end

text \<open>A connection whose peer will end the stream.\<close>

definition wire_ending :: "wire \<Rightarrow> bool" where
  "wire_ending w \<longleftrightarrow> \<not> closed w \<and> rx_end w = Some EOF"

interpretation endwire: byte_stream wire_read wire_content wire_ending wire_work
proof unfold_locales
  fix w :: wire and n :: nat
  assume h: "wire_ending w" "0 < n" "wire_content w \<noteq> []"
  then obtain seg segs where "rx w = seg # segs" by (cases "rx w") (auto simp: wire_content_def)
  with h show "\<exists>bs s'. wire_read w n = Some (bs, None, s') \<and>
      wire_content w = bs @ wire_content s' \<and> length bs \<le> n \<and> wire_ending s' \<and>
      wire_work s' < wire_work w"
    by (auto simp: wire_read_def wire_content_def wire_ending_def wire_work_def)
qed

lemma wire_ending_read_full:
  assumes "wire_ending w" "wire_content w = []" "0 < n"
  shows "\<exists>e w'. read_full wire_read w n = Some ([], Some e, w')"
proof -
  have "\<exists>e w'. read_loop wire_read w n n [] = Some ([], Some e, w')"
    using assms
  proof (induction "rx w" arbitrary: w)
    case Nil
    then show ?case
      by (subst read_loop.simps) (simp add: wire_read_def wire_ending_def at_least_err_def)
  next
    case (Cons seg segs)
    let ?w = "w\<lparr>rx := segs\<rparr>"
    have "seg = []" "wire_content ?w = []" "wire_ending ?w"
      using Cons.prems(1,2) Cons.hyps(2) [symmetric] by (simp_all add: wire_content_def wire_ending_def)
    with Cons.hyps(1) [of ?w] Cons.hyps(2) [symmetric] Cons.prems(1,3) show ?case
      by (subst read_loop.simps) (simp add: wire_read_def wire_ending_def)
  qed
  then show ?thesis by (simp add: read_full_def read_at_least_def)
qed

text \<open>With both ends willing, enough turns copy everything in both directions.\<close>

lemma pipe_run_complete:
  assumes "ends_well w" "ends_well t"
    and "1 + length (rx w) + length (concat (rx w)) \<le> turns True sched"
    and "1 + length (rx t) + length (concat (rx t)) \<le> turns False sched"
  shows "let p = pipe_run wire_rwc sched (new_pipe (new_bufrd w) t) in
    pipe_done p \<and> up_done p = Some None \<and> down_done p = Some None \<and>
    tx (target p) = tx t @ concat (rx w) \<and> tx (b_src (upstream p)) = tx w @ concat (rx t) \<and>
    ctr_up p = length (concat (rx w)) \<and> ctr_down p = length (concat (rx t))"
proof -
  let ?p0 = "new_pipe (new_bufrd w) t"
  define p where "p = pipe_run wire_rwc sched ?p0"
  have "pipe_good ?p0" using assms(1,2) by (simp add: pipe_good_def new_pipe_def new_bufrd_def clean_def)
  moreover have "up_left ?p0 \<le> turns True sched" "down_left ?p0 \<le> turns False sched"
    using assms(3,4) by (simp_all add: up_left_def down_left_def new_pipe_def new_bufrd_def)
  ultimately have g: "pipe_good p" "pipe_done p" unfolding p_def by (blast dest: pipe_run_finishes)+
  then have d: "up_done p = Some None" "down_done p = Some None"
    "rx (target p) = []" "rx (b_src (upstream p)) = []" "b_buf (upstream p) = []"
    by (auto simp: pipe_good_def pipe_done_def clean_def)
  have "pipe_account (concat (rx w)) (concat (rx t)) (tx t) (tx w) p"
    unfolding p_def
  proof (rule rtranclp_induct [OF pipe_run_steps])
    show "pipe_account (concat (rx w)) (concat (rx t)) (tx t) (tx w) ?p0"
      by (simp add: pipe_account_def account_def new_pipe_def new_bufrd_def wire_content_def)
  qed (rule pipe_step_account)
  with d g(2) show ?thesis
    by (auto simp: p_def [symmetric] pipe_account_def account_def wire_content_def)
qed

section \<open>Properties\<close>

text \<open>
  C21: the TCP relay neither invents, reorders nor duplicates bytes, under every interleaving of its
  goroutines and every failure of the two connections. In each reachable state and each direction,
  what was delivered, what was lost and what is still unread concatenate to what there was to copy;
  bytes are lost only in a direction that ended with an error; and the session's counter of a
  direction is, once that direction has ended, exactly the number of bytes delivered.
\<close>

theorem pipe_preserves_bytes:
  assumes "(pipe_step wire_rwc)\<^sup>*\<^sup>* (new_pipe b t) p"
  shows "\<exists>up_sent up_lost down_sent down_lost.
    tx (target p) = tx t @ up_sent \<and>
    b_buf b @ concat (rx (b_src b)) = up_sent @ up_lost @ b_buf (upstream p) @ concat (rx (b_src (upstream p))) \<and>
    tx (b_src (upstream p)) = tx (b_src b) @ down_sent \<and>
    concat (rx t) = down_sent @ down_lost @ concat (rx (target p)) \<and>
    (up_lost = [] \<or> (\<exists>e. up_done p = Some (Some e))) \<and>
    (down_lost = [] \<or> (\<exists>e. down_done p = Some (Some e))) \<and>
    (up_done p \<noteq> None \<longrightarrow> ctr_up p = length up_sent) \<and>
    (down_done p \<noteq> None \<longrightarrow> ctr_down p = length down_sent)"
proof -
  have "pipe_account (b_buf b @ wire_content (b_src b)) (wire_content t) (tx t) (tx (b_src b)) p"
    using assms
  proof (induction rule: rtranclp_induct)
    case base
    show ?case by (simp add: pipe_account_def account_def new_pipe_def)
  next
    case (step p p')
    from pipe_step_account [OF step.hyps(2) step.IH] show ?case .
  qed
  then obtain us ds where s: "tx (target p) = tx t @ us" "tx (b_src (upstream p)) = tx (b_src b) @ ds"
    and u: "account (b_buf b @ wire_content (b_src b)) us
        (b_buf (upstream p) @ wire_content (b_src (upstream p))) (up_n p) (up_done p) (ctr_up p)"
    and d: "account (wire_content t) ds (wire_content (target p)) (down_n p) (down_done p) (ctr_down p)"
    unfolding pipe_account_def by blast
  from u obtain ul where ul: "b_buf b @ wire_content (b_src b) =
       us @ ul @ b_buf (upstream p) @ wire_content (b_src (upstream p))"
    "ul = [] \<or> (\<exists>e. up_done p = Some (Some e))" unfolding account_def by blast
  from d obtain dl where dl: "wire_content t = ds @ dl @ wire_content (target p)"
    "dl = [] \<or> (\<exists>e. down_done p = Some (Some e))" unfolding account_def by blast
  have "up_done p \<noteq> None \<longrightarrow> ctr_up p = length us" "down_done p \<noteq> None \<longrightarrow> ctr_down p = length ds"
    using u d by (simp_all add: account_def)
  with s ul dl show ?thesis unfolding wire_content_def
    by (intro exI [of _ us] exI [of _ ul] exI [of _ ds] exI [of _ dl] conjI)
qed

definition wit_client :: wire where
  "wit_client = wire_of [''GET /''] (Some EOF)"

definition wit_target :: wire where
  "wit_target = wire_of [''200 '', ''OK''] (Some EOF)"

lemma pipe_preserves_bytes_witness:
  "\<exists>up_sent up_lost.
     tx (target (pipe_run wire_rwc [True, True, False] (new_pipe (new_bufrd wit_client) wit_target))) = up_sent \<and>
     ''GET /'' = up_sent @ up_lost"
  using pipe_preserves_bytes
    [OF pipe_run_steps [of wire_rwc "new_pipe (new_bufrd wit_client) wit_target" "[True, True, False]"]]
  by (auto simp: new_bufrd_def wit_client_def wit_target_def wire_of_def)

text \<open>
  C22: the TCP relay finishes and delivers everything. When both connections accept writes and
  eventually end their streams, every schedule that gives each goroutine enough turns (one more
  than the segments and bytes it has to copy) ends with both goroutines done without error, all
  bytes of each side delivered to the other, and the counters equal to the two lengths.
\<close>

theorem pipe_completes:
  assumes "ends_well w" "ends_well t"
    and "1 + length (rx w) + length (concat (rx w)) \<le> turns True sched"
    and "1 + length (rx t) + length (concat (rx t)) \<le> turns False sched"
  shows "let p = pipe_run wire_rwc sched (new_pipe (new_bufrd w) t) in
    pipe_done p \<and> up_done p = Some None \<and> down_done p = Some None \<and>
    tx (target p) = tx t @ concat (rx w) \<and> tx (b_src (upstream p)) = tx w @ concat (rx t) \<and>
    ctr_up p = length (concat (rx w)) \<and> ctr_down p = length (concat (rx t))"
  by (rule pipe_run_complete [OF assms])

lemma pipe_completes_witness:
  "let p = pipe_run wire_rwc (replicate 7 True @ replicate 9 False) (new_pipe (new_bufrd wit_client) wit_target)
   in tx (target p) = ''GET /'' \<and> tx (b_src (upstream p)) = ''200 OK''"
proof -
  have "ends_well wit_client" "ends_well wit_target"
    "1 + length (rx wit_client) + length (concat (rx wit_client)) \<le> turns True (replicate 7 True @ replicate 9 False)"
    "1 + length (rx wit_target) + length (concat (rx wit_target)) \<le> turns False (replicate 7 True @ replicate 9 False)"
    by (simp_all add: ends_well_def wit_client_def wit_target_def wire_of_def turns_def)
  from pipe_completes [OF this] show ?thesis
    by (simp add: Let_def wit_client_def wit_target_def wire_of_def)
qed

text \<open>
  The end of the client's stream is not passed on. If the target waits for it and stays silent,
  the relay never ends, whatever the schedule and although the client has closed its side: the
  upward goroutine ends without closing the target, and the downward one stays blocked.
\<close>

theorem pipe_half_close_hangs:
  assumes "ends_well w" "\<not> closed t" "tx_room t = None" "rx t = []" "rx_end t = None"
  shows "\<not> pipe_done (pipe_run wire_rwc sched (new_pipe (new_bufrd w) t)) \<and>
    \<not> closed (target (pipe_run wire_rwc sched (new_pipe (new_bufrd w) t)))"
proof -
  define stuck where "stuck p \<longleftrightarrow> down_done p = None \<and> \<not> closed (target p) \<and> tx_room (target p) = None \<and>
    rx (target p) = [] \<and> rx_end (target p) = None \<and>
    ends_well (b_src (upstream p)) \<and> b_err (upstream p) = None" for p :: "wire pipe"
  have rw: "s_read wire_rwc = wire_read" by (simp add: wire_rwc_def)
  have cb: "copy_buf_size \<noteq> 0" "bufio_size \<le> copy_buf_size" "0 < copy_buf_size"
    by (simp_all add: copy_buf_size_def bufio_size_def)
  have down: "down_round wire_rwc p = None" if "stuck p" for p
    using that cb by (simp add: stuck_def down_round_def copy_round_def wire_read_def)
  have up: "stuck p'" if s: "stuck p" and u: "up_round wire_rwc p = Some p'" for p p'
  proof -
    have nd: "up_done p = None" using u by (auto simp: up_round_def split: if_splits)
    have wr: "wire_write (target p) bs = (length bs, None, (target p)\<lparr>tx := tx (target p) @ bs\<rparr>)" for bs
      using s by (simp add: stuck_def wire_write_def)
    have w: "ends_well (b_src (upstream p))" using s by (simp add: stuck_def)
    show ?thesis
    proof (cases "b_buf (upstream p) = []")
      case False
      with u nd s cb show ?thesis
        by (auto simp: up_round_def copy_round_def rw bufio_read_def wr stuck_def Let_def)
    next
      case True
      from ends_well_read [OF w cb(3)] True u nd s cb show ?thesis
        by (auto simp: up_round_def copy_round_def rw bufio_read_def wr stuck_def Let_def split: if_splits)
    qed
  qed
  have run: "stuck p \<Longrightarrow> stuck (pipe_run wire_rwc sched p)" for p sched
  proof (induction sched arbitrary: p)
    case Nil
    then show ?case by simp
  next
    case (Cons d sched)
    have "stuck (case (if d then up_round wire_rwc p else down_round wire_rwc p) of None \<Rightarrow> p | Some p' \<Rightarrow> p')"
      using up [OF Cons.prems] down [OF Cons.prems] Cons.prems by (auto split: option.split)
    from Cons.IH [OF this] show ?case by simp
  qed
  have "stuck (new_pipe (new_bufrd w) t)"
    using assms by (simp add: stuck_def new_pipe_def new_bufrd_def)
  from run [OF this, of sched] show ?thesis by (simp add: stuck_def pipe_done_def)
qed

lemma pipe_half_close_hangs_witness:
  "\<not> pipe_done (pipe_run wire_rwc (replicate 100 True) (new_pipe (new_bufrd wit_client) (wire_of [] None)))"
  using pipe_half_close_hangs [of wit_client "wire_of [] None" "replicate 100 True"]
  by (simp add: ends_well_def wit_client_def wire_of_def)

text \<open>
  Datagrams cross the UDP relay whole and in order. From any stream that carries framed
  datagrams of at most 65535 bytes and then ends, cut into any segments, the upward loop returns
  having sent exactly the non-empty datagrams; and the downward loop frames what the socket delivers
  such that the same loop, on the peer's side, would recover exactly the non-empty datagrams.
\<close>

theorem udp_relay_datagrams:
  assumes "\<forall>d\<in>set ds. length d \<le> 0xFFFF"
    and "concat (rx r) = concat (map udp_frame ds)" "\<not> closed r" "rx_end r = Some EOF"
    and "u_room u = None" "\<not> u_closed u" "u_sent u = []"
    and "\<not> u_closed v" "u_inbox v = ds" "u_end v = Some e"
    and "\<not> closed w" "tx_room w = None" "tx w = []"
  shows "(\<exists>r' u'. udp_up wire_read r u = Some (r', u') \<and> u_sent u' = filter (\<lambda>d. d \<noteq> []) ds) \<and>
    (\<exists>w' v'. udp_down wire_write w v = Some (w', v') \<and>
       tx w' = concat (map udp_frame (filter (\<lambda>d. d \<noteq> []) ds)))"
proof
  have r: "wire_ending r" "wire_content r = concat (map udp_frame ds) @ []"
    using assms(2-4) by (simp_all add: wire_ending_def wire_content_def)
  from endwire.udp_up_frames [OF r assms(1,5,6)] assms(7) obtain s' u' where
    s: "wire_ending s'" "wire_content s' = []" "udp_up wire_read r u = udp_up wire_read s' u'"
    "u_sent u' = filter (\<lambda>d. d \<noteq> []) ds" by auto
  from wire_ending_read_full [OF s(1,2), of 2] obtain e' s2 where
    "read_full wire_read s' 2 = Some ([], Some e', s2)" by auto
  then have "udp_up wire_read s' u' = Some (s2, u')" by (subst udp_up.simps) simp
  with s(3,4) show "\<exists>r' u'. udp_up wire_read r u = Some (r', u') \<and> u_sent u' = filter (\<lambda>d. d \<noteq> []) ds"
    by simp
next
  have "wire_up w" using assms(11,12) by (simp add: wire_up_def)
  from wiresink.udp_down_frames [OF this assms(8,9,10,1)] assms(13)
  show "\<exists>w' v'. udp_down wire_write w v = Some (w', v') \<and>
      tx w' = concat (map udp_frame (filter (\<lambda>d. d \<noteq> []) ds))" by auto
qed

definition wit_udp :: "bytes list \<Rightarrow> udp_conn" where
  "wit_udp ds = \<lparr>u_sent = [], u_room = None, u_inbox = ds, u_end = Some EOF, u_closed = False\<rparr>"

lemma udp_relay_datagrams_witness:
  "(\<exists>r' u'. udp_up wire_read (wire_of [udp_frame ''query'', udp_frame '''', udp_frame ''q2''] (Some EOF)) (wit_udp [])
      = Some (r', u') \<and> u_sent u' = [''query'', ''q2'']) \<and>
   (\<exists>w' v'. udp_down wire_write (wire_of [] None) (wit_udp [''query'', '''', ''q2'']) = Some (w', v') \<and>
      tx w' = udp_frame ''query'' @ udp_frame ''q2'')"
  using udp_relay_datagrams [of "[''query'', '''', ''q2'']"
      "wire_of [udp_frame ''query'', udp_frame '''', udp_frame ''q2''] (Some EOF)" "wit_udp []"
      "wit_udp [''query'', '''', ''q2'']" EOF "wire_of [] None"]
  by (simp add: wire_of_def wit_udp_def)

end
