(* ===== verification/ProxyServer.thy ===== *)
theory ProxyServer
  imports Pipe Plain Shadowsocks Hysteria2 Vmess ObfsNegotiate
begin

text \<open>
  \<open>hypernet/services/proxy/server/proxy.go\<close>: the node's end of the proxy protocol. The handler of a
  stream is modelled phase by phase, in the order of the code: the first bytes (obfuscation request,
  plain request or handshake data), the handshake of the negotiated protocol, the obfuscation from
  the node's own configuration, the request line, and the relay to the target.

  Each phase is a function that is polymorphic in the stream, because each phase may wrap the
  stream it hands to the next one in another session: \<open>pad_rwc\<close>, \<open>delay_rwc\<close>, \<open>prefix_rwc\<close>,
  \<open>ss_rwc\<close> and \<open>h2_rwc\<close> are the wrapped streams, and \<open>base\<close> is the network stream below them.
\<close>

section \<open>Requests\<close>

record Request =
  Proto :: string
  Host :: string
  Port :: int

definition err_invalid :: "string \<Rightarrow> err" where
  "err_invalid s = Err (''invalid proxy request: '' @ s)"

definition ParseRequest :: "bytes \<Rightarrow> err + Request" where
  "ParseRequest line0 =
     (let line = trim_space line0
      in if line = [] then Inl (err_invalid ''empty line'')
         else
           let fields = go_fields line
           in case fields of
                [f0, f1, f2] \<Rightarrow>
                  (let proto = to_upper f0
                   in if proto \<noteq> ''TCP'' \<and> proto \<noteq> ''UDP'' \<and> proto \<noteq> ''DIRECT''
                      then Inl (err_invalid (''unsupported proto '' @ go_quote proto))
                      else if f1 = [] then Inl (err_invalid ''empty host'')
                      else case atoi f2 of
                        None \<Rightarrow> Inl (err_invalid (''invalid port '' @ go_quote f2))
                      | Some port \<Rightarrow>
                          if port \<le> 0 \<or> port > 65535
                          then Inl (err_invalid (''invalid port '' @ go_quote f2))
                          else Inr \<lparr>Proto = proto, Host = f1, Port = port\<rparr>)
              | _ \<Rightarrow> Inl (err_invalid (''expected 3 fields, got '' @ itoa (int (length fields)))))"

section \<open>The server's state\<close>

type_synonym peer = string

record Server =
  vlessToken :: string
  lastChosen :: "(peer \<times> string) list"
  has_metrics :: bool
  has_host :: bool
  qualityInterval :: int
  nodeRegion :: string
  srv_obfs :: ObfsParams

definition NewServer :: Server where
  "NewServer =
     \<lparr>vlessToken = '''', lastChosen = [], has_metrics = False, has_host = False,
      qualityInterval = 0, nodeRegion = '''',
      srv_obfs = \<lparr>PMin = 0, PMax = 0, WDMin = 0, WDMax = 0\<rparr>\<rparr>"

definition SetVLESSAuthToken :: "string \<Rightarrow> Server \<Rightarrow> Server" where
  "SetVLESSAuthToken t srv = srv\<lparr>vlessToken := t\<rparr>"

definition SetMetricsStore :: "bool \<Rightarrow> Server \<Rightarrow> Server" where
  "SetMetricsStore m srv = srv\<lparr>has_metrics := m\<rparr>"

definition SetMetricsQualityInterval :: "int \<Rightarrow> Server \<Rightarrow> Server" where
  "SetMetricsQualityInterval d srv = srv\<lparr>qualityInterval := d\<rparr>"

definition SetNodeRegion :: "string \<Rightarrow> Server \<Rightarrow> Server" where
  "SetNodeRegion r srv = srv\<lparr>nodeRegion := trim_space r\<rparr>"

definition SetObfuscation :: "int \<Rightarrow> int \<Rightarrow> duration \<Rightarrow> duration \<Rightarrow> Server \<Rightarrow> Server" where
  "SetObfuscation pmin pmax dmin dmax srv =
     srv\<lparr>srv_obfs := \<lparr>PMin = pmin, PMax = pmax, WDMin = dmin, WDMax = dmax\<rparr>\<rparr>"

definition RememberChosenProtocol :: "peer \<Rightarrow> string \<Rightarrow> Server \<Rightarrow> Server" where
  "RememberChosenProtocol pid name srv =
     (if name = '''' then srv\<lparr>lastChosen := filter (\<lambda>(k, v). k \<noteq> pid) (lastChosen srv)\<rparr>
      else srv\<lparr>lastChosen := alist_put pid name (lastChosen srv)\<rparr>)"

definition lastChosenProtocol :: "peer \<Rightarrow> Server \<Rightarrow> string" where
  "lastChosenProtocol pid srv = (case map_of (lastChosen srv) pid of None \<Rightarrow> '''' | Some n \<Rightarrow> n)"

section \<open>Wrapped streams\<close>

text \<open>\<open>prefixConn\<close>.\<close>

record prefix_conn =
  pc_prefix :: bytes
  pc_off :: nat

definition prefix_read :: "'s reader \<Rightarrow> (prefix_conn \<times> 's) reader" where
  "prefix_read rd cs n =
     (case cs of (p, s) \<Rightarrow>
        if pc_off p < length (pc_prefix p) then
          let out = take n (drop (pc_off p) (pc_prefix p))
          in Some (out, None, (p\<lparr>pc_off := pc_off p + length out\<rparr>, s))
        else (case rd s n of None \<Rightarrow> None | Some (bs, e, s') \<Rightarrow> Some (bs, e, (p, s'))))"

definition under :: "('s \<Rightarrow> bytes \<Rightarrow> nat \<times> err option \<times> 's) \<Rightarrow> ('c \<times> 's) writer" where
  "under wr cs bs = (case wr (snd cs) bs of (n, e, s) \<Rightarrow> (n, e, (fst cs, s)))"

definition prefix_rwc :: "'s rwc \<Rightarrow> (prefix_conn \<times> 's) rwc" where
  "prefix_rwc io =
     \<lparr>s_read = prefix_read (s_read io), s_write = under (s_write io),
      s_deadline = (\<lambda>d s. s), s_close = (\<lambda>(c, s). (c, s_close io s))\<rparr>"

definition pad_rwc :: "'s rwc \<Rightarrow> (padding \<times> 's) rwc" where
  "pad_rwc io =
     \<lparr>s_read = padding_read (s_read io), s_write = padding_write (s_write io),
      s_deadline = (\<lambda>d s. s), s_close = (\<lambda>(c, s). (c, s_close io s))\<rparr>"

definition delay_rwc :: "'s rwc \<Rightarrow> (delay \<times> 's) rwc" where
  "delay_rwc io =
     \<lparr>s_read = delay_read (s_read io), s_write = delay_write (s_write io),
      s_deadline = (\<lambda>d s. s), s_close = (\<lambda>(c, s). (c, s_close io s))\<rparr>"

definition ss_rwc :: "aead \<Rightarrow> 's rwc \<Rightarrow> (ssAEAD \<times> 's) rwc" where
  "ss_rwc a io =
     \<lparr>s_read = ss_read a (s_read io), s_write = ss_write a (s_write io),
      s_deadline = (\<lambda>d s. s), s_close = (\<lambda>(c, s). (c, s_close io s))\<rparr>"

definition h2_rwc :: "aead \<Rightarrow> 's rwc \<Rightarrow> (h2_session \<times> 's) rwc" where
  "h2_rwc a io =
     \<lparr>s_read = h2_read a (s_read io), s_write = h2_write a (s_write io),
      s_deadline = (\<lambda>d s. s),
      s_close = (\<lambda>(c, s). case h2_close c of (c', do_close) \<Rightarrow> (c', if do_close then s_close io s else s))\<rparr>"

section \<open>The session log\<close>

text \<open>
  What a handler reports to the metrics store, in order. The times and the JSON of the payloads are
  left out; \<open>MEnd\<close> is the deferred \<open>EndSession\<close>.
\<close>

datatype mevent =
    MStart string string
  | MEvent string "(string \<times> string) list"
  | MEnd nat nat bool string

record slog =
  log_on :: bool
  log_events :: "mevent list"
  log_success :: bool
  log_reason :: string

definition new_slog :: "bool \<Rightarrow> string \<Rightarrow> string \<Rightarrow> slog" where
  "new_slog on proto region =
     \<lparr>log_on = on, log_events = (if on then [MStart proto region] else []),
      log_success = True, log_reason = ''''\<rparr>"

definition add_event :: "string \<Rightarrow> (string \<times> string) list \<Rightarrow> slog \<Rightarrow> slog" where
  "add_event kind data lg =
     (if log_on lg then lg\<lparr>log_events := log_events lg @ [MEvent kind data]\<rparr> else lg)"

definition fail_with :: "string \<Rightarrow> string \<Rightarrow> (string \<times> string) list \<Rightarrow> slog \<Rightarrow> slog" where
  "fail_with reason kind data lg =
     (if log_on lg then add_event kind data (lg\<lparr>log_reason := reason, log_success := False\<rparr>) else lg)"

definition end_session :: "nat \<Rightarrow> nat \<Rightarrow> slog \<Rightarrow> slog" where
  "end_session up down lg =
     (if log_on lg
      then lg\<lparr>log_events := log_events lg @ [MEnd up down (log_success lg) (log_reason lg)]\<rparr> else lg)"

text \<open>
  The outcome of a handler: its log, the network stream, the target connection if there was one,
  and whether the handler has returned (otherwise it is still relaying).
\<close>

record outcome =
  oc_log :: slog
  oc_stream :: wire
  oc_target :: "wire option"
  oc_udp :: "udp_conn option"
  oc_returned :: bool

definition stop :: "slog \<Rightarrow> wire \<Rightarrow> outcome" where
  "stop lg w =
     \<lparr>oc_log = end_session 0 0 lg, oc_stream = wire_close w, oc_target = None, oc_udp = None,
      oc_returned = True\<rparr>"

text \<open>
  What a handler finds in its environment: the results of dialling, the libraries, the random
  sources of the sessions it creates, the clock, and the schedule of the relay's goroutines.
\<close>

record env =
  e_dial_tcp :: "string \<Rightarrow> int \<Rightarrow> err + wire"
  e_dial_udp :: "string \<Rightarrow> int \<Rightarrow> err + udp_conn"
  e_vmess :: vmess_lib
  e_gcm :: aead
  e_digests :: digests
  e_crand :: "rng option"
  e_pad_rng :: rng
  e_delay_rng :: rng
  e_h2_rng :: rng
  e_now :: int
  e_sched :: "bool list"

section \<open>The request and the relay\<close>

definition write_buf :: "'s rwc \<Rightarrow> 's bufrd \<Rightarrow> bytes \<Rightarrow> err option \<times> 's bufrd" where
  "write_buf io b bs = (case write_string io (b_src b) bs of (e, s) \<Rightarrow> (e, b\<lparr>b_src := s\<rparr>))"

text \<open>
  \<open>handleTCPProxy\<close>: its error, the log, and the relay it ran. Without an error the relay may still
  be running.
\<close>

definition handleTCPProxy ::
  "'s rwc \<Rightarrow> env \<Rightarrow> Request \<Rightarrow> 's bufrd \<Rightarrow> slog \<Rightarrow> err option \<times> slog \<times> 's bufrd \<times> 's pipe option"
where
  "handleTCPProxy io ev req b lg =
     (case e_dial_tcp ev (Host req) (Port req) of
        Inl e \<Rightarrow>
          (case write_buf io b (''ERR dial target: '' @ err_msg e @ nl) of
             (_, b1) \<Rightarrow>
               (Some (wrap_err ''dial target'' e),
                add_event ''dial_error''
                  [(''host'', Host req), (''port'', itoa (Port req)), (''error'', err_msg e)] lg, b1, None))
      | Inr t \<Rightarrow>
          (case write_buf io b (''OK'' @ nl) of
             (Some e, b1) \<Rightarrow>
               (Some (wrap_err ''write OK'' e), add_event ''write_ok_error'' [(''error'', err_msg e)] lg,
                b1, Some ((new_pipe b1 t)\<lparr>target := wire_close t\<rparr>))
           | (None, b1) \<Rightarrow>
               let p = pipe_run io (e_sched ev) (new_pipe b1 t)
               in if pipe_done p
                  then (None, add_event ''session_closed''
                          [(''host'', Host req), (''port'', itoa (Port req))] lg,
                        upstream p, Some (p\<lparr>target := wire_close (target p)\<rparr>))
                  else (None, lg, upstream p, Some p)))"

definition tcp_outcome ::
  "('s \<Rightarrow> wire) \<Rightarrow> Request \<Rightarrow> err option \<times> slog \<times> 's bufrd \<times> 's pipe option \<Rightarrow> outcome"
where
  "tcp_outcome base req r =
     (case r of
        (Some e, lg, b, p) \<Rightarrow>
          \<lparr>oc_log = end_session 0 0
             (fail_with (''tcp_proxy_error: '' @ err_msg e) ''tcp_proxy_error''
               [(''host'', Host req), (''port'', itoa (Port req)), (''error'', err_msg e)] lg),
           oc_stream = wire_close (base (b_src b)), oc_target = map_option target p, oc_udp = None,
           oc_returned = True\<rparr>
      | (None, lg, b, Some p) \<Rightarrow>
          if pipe_done p then
            \<lparr>oc_log = end_session (ctr_up p) (ctr_down p) lg, oc_stream = wire_close (base (b_src b)),
             oc_target = Some (target p), oc_udp = None, oc_returned = True\<rparr>
          else
            \<lparr>oc_log = lg, oc_stream = base (b_src b), oc_target = Some (target p), oc_udp = None,
             oc_returned = False\<rparr>
      | (None, lg, b, None) \<Rightarrow> stop lg (base (b_src b)))"

text \<open>
  \<open>handleUDPProxy\<close>: the two loops share the stream and the socket, one reading what the other
  writes; they are run one after the other. \<open>None\<close>: a loop waits for ever, and with it the handler.
\<close>

definition handleUDPProxy ::
  "'s rwc \<Rightarrow> env \<Rightarrow> Request \<Rightarrow> 's bufrd \<Rightarrow> ('s bufrd \<times> udp_conn option) option"
where
  "handleUDPProxy io ev req b =
     (case e_dial_udp ev (Host req) (Port req) of
        Inl e \<Rightarrow> Some (snd (write_buf io b (''ERR dial udp target: '' @ err_msg e @ nl)), None)
      | Inr u \<Rightarrow>
          (case udp_up (bufio_read (s_read io)) b u of
             None \<Rightarrow> None
           | Some (b1, u1) \<Rightarrow>
               (case udp_down (s_write io) (b_src b1) u1 of
                  None \<Rightarrow> None
                | Some (s2, u2) \<Rightarrow> Some (b1\<lparr>b_src := s2\<rparr>, Some (u2\<lparr>u_closed := True\<rparr>)))))"

text \<open>The part of \<open>handleProxyStream\<close> that executes a request line.\<close>

definition serve_request ::
  "'s rwc \<Rightarrow> ('s \<Rightarrow> wire) \<Rightarrow> env \<Rightarrow> bytes \<Rightarrow> 's bufrd \<Rightarrow> slog \<Rightarrow> outcome option"
where
  "serve_request io base ev line b lg =
     (case ParseRequest line of
        Inl e \<Rightarrow>
          (case write_buf io b (''ERR '' @ err_msg e @ nl) of
             (_, b1) \<Rightarrow>
               Some (stop (fail_with (''bad_request: '' @ err_msg e) ''bad_request''
                 [(''line'', trim_space line), (''error'', err_msg e)] lg) (base (b_src b1))))
      | Inr req \<Rightarrow>
          if to_upper (Proto req) = ''TCP'' \<or> to_upper (Proto req) = ''DIRECT''
          then Some (tcp_outcome base req (handleTCPProxy io ev req b lg))
          else if to_upper (Proto req) = ''UDP'' then
            (case handleUDPProxy io ev req b of
               None \<Rightarrow> None
             | Some (b1, u) \<Rightarrow> Some ((stop lg (base (b_src b1)))\<lparr>oc_udp := u\<rparr>))
          else
            (case write_buf io b (''ERR unsupported proto'' @ nl) of
               (_, b1) \<Rightarrow> Some (stop lg (base (b_src b1)))))"

text \<open>Reading the request line; \<open>firstLine\<close> is a request that was already read.\<close>

definition request_phase ::
  "'s rwc \<Rightarrow> ('s \<Rightarrow> wire) \<Rightarrow> env \<Rightarrow> bytes \<Rightarrow> 's \<Rightarrow> slog \<Rightarrow> outcome option"
where
  "request_phase io base ev firstLine s lg =
     (if firstLine \<noteq> [] then serve_request io base ev firstLine (new_bufrd s) lg
      else case read_line (s_read io) (new_bufrd s) of
        None \<Rightarrow> None
      | Some (_, Some e, b) \<Rightarrow>
          Some (stop (fail_with (''read_request_failed: '' @ err_msg e) ''read_request_error''
            [(''error'', err_msg e)] lg) (base (b_src b)))
      | Some (line, None, b) \<Rightarrow> serve_request io base ev line b lg)"

section \<open>Obfuscation\<close>

definition delay_phase ::
  "'s rwc \<Rightarrow> ('s \<Rightarrow> wire) \<Rightarrow> env \<Rightarrow> ObfsParams \<Rightarrow> bytes \<Rightarrow> 's \<Rightarrow> slog \<Rightarrow> outcome option"
where
  "delay_phase io base ev ob firstLine s lg =
     (if WDMax ob > 0
      then request_phase (delay_rwc io) (base \<circ> snd) ev firstLine
             (new_delay (WDMin ob) (WDMax ob) (e_delay_rng ev), s) lg
      else request_phase io base ev firstLine s lg)"

text \<open>The wrappers of the node's own configuration, unless the client negotiated others.\<close>

definition obfs_phase ::
  "'s rwc \<Rightarrow> ('s \<Rightarrow> wire) \<Rightarrow> env \<Rightarrow> Server \<Rightarrow> bool \<Rightarrow> bytes \<Rightarrow> 's \<Rightarrow> slog \<Rightarrow> outcome option"
where
  "obfs_phase io base ev srv agreed firstLine s lg =
     (let ob = srv_obfs srv
      in if agreed then request_phase io base ev firstLine s lg
         else if PMax ob > 0
           then delay_phase (pad_rwc io) (base \<circ> snd) ev ob firstLine
                  (new_padding (PMin ob) (PMax ob) (e_pad_rng ev), s) lg
           else delay_phase io base ev ob firstLine s lg)"

section \<open>The handshake\<close>

definition hs_failed :: "string \<Rightarrow> err \<Rightarrow> slog \<Rightarrow> slog" where
  "hs_failed proto e =
     fail_with (proto @ ''_handshake_failed: '' @ err_msg e) ''handshake_failed''
       [(''protocol'', proto), (''error'', err_msg e)]"

definition handshake_phase ::
  "'s rwc \<Rightarrow> ('s \<Rightarrow> wire) \<Rightarrow> env \<Rightarrow> Server \<Rightarrow> string \<Rightarrow> bool \<Rightarrow> bytes \<Rightarrow> 's \<Rightarrow> slog \<Rightarrow> outcome option"
where
  "handshake_phase io base ev srv chosen agreed firstLine s lg =
     (let cfg = role_config (vlessToken srv) (5 * Second) ''server''
      in if firstLine = [] \<and> vlessToken srv \<noteq> '''' \<and> chosen = ''vless'' then
           (case vless_handshake io (Some cfg) s of
              None \<Rightarrow> None
            | Some (Some e, s1) \<Rightarrow> Some (stop (hs_failed ''vless'' e lg) (base s1))
            | Some (None, s1) \<Rightarrow> obfs_phase io base ev srv agreed firstLine s1 lg)
         else if firstLine = [] \<and> vlessToken srv \<noteq> '''' \<and> chosen = ''vmess'' then
           (case vmess_handshake io (e_vmess ev) (e_now ev) (e_crand ev) (Some cfg) s of
              None \<Rightarrow> None
            | Some (Some e, _, s1) \<Rightarrow> Some (stop (hs_failed ''vmess'' e lg) (base s1))
            | Some (None, _, s1) \<Rightarrow> obfs_phase io base ev srv agreed firstLine s1 lg)
         else if firstLine = [] \<and> vlessToken srv \<noteq> '''' \<and> chosen = ''shadowsocks'' then
           (case ss_handshake (e_digests ev) (e_crand ev) (Some cfg) of
              Inl e \<Rightarrow> Some (stop (hs_failed ''shadowsocks'' e lg) (base s))
            | Inr sess \<Rightarrow>
                obfs_phase (ss_rwc (e_gcm ev) io) (base \<circ> snd) ev srv agreed firstLine (sess, s) lg)
         else if firstLine = [] \<and> chosen = ''hysteria2'' then
           (case h2_handshake (e_digests ev) (e_h2_rng ev)
                   (Some (role_config '''' (5 * Second) ''server'')) of
              Inl e \<Rightarrow> Some (stop (hs_failed ''hysteria2'' e lg) (base s))
            | Inr sess \<Rightarrow>
                obfs_phase (h2_rwc (e_gcm ev) io) (base \<circ> snd) ev srv agreed firstLine (sess, s) lg)
         else obfs_phase io base ev srv agreed firstLine s lg)"

section \<open>The first bytes\<close>

text \<open>
  The stream after an agreed obfuscation: wrapped by what was agreed. The buffered reader the first
  line was read with is dropped.
\<close>

definition agreed_phase ::
  "env \<Rightarrow> Server \<Rightarrow> string \<Rightarrow> ObfsParams \<Rightarrow> wire \<Rightarrow> slog \<Rightarrow> outcome option"
where
  "agreed_phase ev srv chosen ob w lg =
     (let pad = new_padding (PMin ob) (PMax ob) (e_pad_rng ev);
          dly = new_delay (WDMin ob) (WDMax ob) (e_delay_rng ev)
      in if PMax ob > 0 then
           if WDMax ob > 0
           then handshake_phase (delay_rwc (pad_rwc wire_rwc)) (snd \<circ> snd) ev srv chosen True []
                  (dly, (pad, w)) lg
           else handshake_phase (pad_rwc wire_rwc) snd ev srv chosen True [] (pad, w) lg
         else if WDMax ob > 0
           then handshake_phase (delay_rwc wire_rwc) snd ev srv chosen True [] (dly, w) lg
         else handshake_phase wire_rwc (\<lambda>w. w) ev srv chosen True [] w lg)"

definition with_prefix ::
  "env \<Rightarrow> Server \<Rightarrow> string \<Rightarrow> bytes \<Rightarrow> wire \<Rightarrow> slog \<Rightarrow> outcome option"
where
  "with_prefix ev srv chosen prefix w lg =
     handshake_phase (prefix_rwc wire_rwc) snd ev srv chosen False []
       (\<lparr>pc_prefix = prefix, pc_off = 0\<rparr>, w) lg"

definition text_start :: "byte \<Rightarrow> bool" where
  "text_start c \<longleftrightarrow> c = CHR ''O'' \<or> c = CHR ''T'' \<or> c = CHR ''U'' \<or> c = CHR ''D''"

definition first_line_phase ::
  "env \<Rightarrow> Server \<Rightarrow> string \<Rightarrow> bytes \<Rightarrow> wire \<Rightarrow> slog \<Rightarrow> outcome option"
where
  "first_line_phase ev srv chosen line w lg =
     (if has_prefix line obfs_prefix then
        (case ParseObfsLine line of
           None \<Rightarrow> handshake_phase wire_rwc (\<lambda>w. w) ev srv chosen False [] w lg
         | Some clientObfs \<Rightarrow>
             let agreed = AgreeObfs (srv_obfs srv) clientObfs
             in case write_string wire_rwc w (FormatObfsLine agreed) of
                  (Some e, w1) \<Rightarrow> Some (stop lg w1)
                | (None, w1) \<Rightarrow> agreed_phase ev srv chosen agreed w1 lg)
      else if has_prefix line ''TCP '' \<or> has_prefix line ''UDP '' \<or> has_prefix line ''DIRECT ''
      then handshake_phase wire_rwc (\<lambda>w. w) ev srv chosen False line w lg
      else with_prefix ev srv chosen line w lg)"

text \<open>
  \<open>handleProxyStream\<close>: the peer, the region of the peer (from the GeoIP database), and the stream.
\<close>

definition handleProxyStream ::
  "env \<Rightarrow> Server \<Rightarrow> peer \<Rightarrow> string \<Rightarrow> wire \<Rightarrow> outcome option"
where
  "handleProxyStream ev srv pid clientRegion stream =
     (let chosen = lastChosenProtocol pid srv;
          lg = new_slog (has_metrics srv) chosen clientRegion
      in case read_byte wire_read (new_bufrd stream) of
           None \<Rightarrow> None
         | Some (Inl e, br) \<Rightarrow> handshake_phase wire_rwc (\<lambda>w. w) ev srv chosen False [] (b_src br) lg
         | Some (Inr firstByte, br) \<Rightarrow>
             if text_start firstByte then
               (case read_line wire_read br of
                  None \<Rightarrow> None
                | Some (rest, _, br2) \<Rightarrow> first_line_phase ev srv chosen (firstByte # rest) (b_src br2) lg)
             else with_prefix ev srv chosen [firstByte] (b_src br) lg)"

section \<open>Quality samples\<close>

text \<open>
  One tick of \<open>runQualityLoop\<close>: the result of the ping (\<open>None\<close> when it fails) updates the state and
  gives a sample of round-trip time, jitter and loss; the loss is the pair of failed and total pings
  whose quotient, in percent, the code reports as a float.
\<close>

record quality =
  lastRTT :: duration
  q_sent :: nat
  q_failed :: nat

record sample =
  rttMS :: int
  jitterMS :: int
  loss :: "nat \<times> nat"

definition quality_tick :: "duration option \<Rightarrow> quality \<Rightarrow> sample \<times> quality" where
  "quality_tick ping q =
     (let rtt = (case ping of None \<Rightarrow> 0 | Some d \<Rightarrow> d);
          q1 = (case ping of None \<Rightarrow> q\<lparr>q_failed := q_failed q + 1\<rparr>
                | Some _ \<Rightarrow> q\<lparr>q_sent := q_sent q + 1\<rparr>);
          jitter = (if rtt > 0 \<and> lastRTT q > 0 then \<bar>rtt - lastRTT q\<bar> div Millisecond else 0);
          q2 = (if rtt > 0 then q1\<lparr>lastRTT := rtt\<rparr> else q1)
      in (\<lparr>rttMS = (if rtt > 0 then rtt div Millisecond else 0), jitterMS = jitter,
           loss = (if q_sent q2 + q_failed q2 > 0 then (q_failed q2, q_sent q2 + q_failed q2) else (0, 1))\<rparr>, q2))"

definition quality_interval :: "int \<Rightarrow> int option" where
  "quality_interval qi = (if qi > 0 then Some (if qi < 5 * Second then 5 * Second else qi) else None)"

section \<open>Request lines\<close>

definition request_line :: "string \<Rightarrow> string \<Rightarrow> int \<Rightarrow> bytes" where
  "request_line proto host port = proto @ '' '' @ host @ '' '' @ itoa port @ nl"

definition host_ok :: "string \<Rightarrow> bool" where
  "host_ok h \<longleftrightarrow> h \<noteq> [] \<and> list_all plain_byte h"

lemma ParseRequest_line:
  assumes p: "p = ''TCP'' \<or> p = ''UDP'' \<or> p = ''DIRECT''" and h: "host_ok host"
    and port: "0 < port" "port \<le> 65535"
  shows "ParseRequest (request_line p host port) = Inr \<lparr>Proto = p, Host = host, Port = port\<rparr>"
proof -
  have pw: "list_all plain_byte p" "p \<noteq> []" "to_upper p = p"
    using p by (auto simp: plain_byte_def upper1_def)
  let ?body = "p @ '' '' @ host @ '' '' @ itoa port"
  have "solid ?body"
    using solid_append [OF solid_plain [OF pw(1,2)] solid_plain [OF itoa_plain], of "'' '' @ host @ '' ''" port]
    by simp
  from trim_space_solid(2) [OF this] have t: "trim_space (request_line p host port) = ?body"
    by (simp add: request_line_def)
  have f: "go_fields ?body = [p, host, itoa port]"
    using h pw by (simp add: go_fields_word_blank go_fields_word host_ok_def)
  have "in_int64 port" using port by (simp add: in_int64_def)
  with p pw h port f show ?thesis by (simp add: ParseRequest_def t Let_def host_ok_def)
qed

lemma ParseRequest_sound:
  assumes "ParseRequest line = Inr r"
  shows "Proto r \<in> {''TCP'', ''UDP'', ''DIRECT''} \<and> Host r \<noteq> '''' \<and> 0 < Port r \<and> Port r \<le> 65535"
proof -
  obtain ws where w: "go_fields (trim_space line) = ws" by simp
  from assms have "\<exists>f0 f1 f2. ws = [f0, f1, f2]"
    by (auto simp: ParseRequest_def Let_def w split: if_splits list.splits)
  then obtain f0 f1 f2 where ws: "go_fields (trim_space line) = [f0, f1, f2]" using w by blast
  define P where "P = to_upper f0"
  from assms have "(if P \<noteq> ''TCP'' \<and> P \<noteq> ''UDP'' \<and> P \<noteq> ''DIRECT''
      then Inl (err_invalid (''unsupported proto '' @ go_quote P))
      else if f1 = [] then Inl (err_invalid ''empty host'')
      else case atoi f2 of None \<Rightarrow> Inl (err_invalid (''invalid port '' @ go_quote f2))
        | Some port \<Rightarrow> if port \<le> 0 \<or> port > 65535 then Inl (err_invalid (''invalid port '' @ go_quote f2))
            else Inr \<lparr>Proto = P, Host = f1, Port = port\<rparr>) = Inr r"
    unfolding ParseRequest_def Let_def ws P_def [symmetric] list.case by (simp split: if_split_asm)
  then show ?thesis
    by (simp split: if_split_asm option.split_asm) auto
qed

section \<open>The first segment of a stream\<close>

lemma first_byte:
  assumes "rx w = (c # cs) # segs" "length cs < bufio_size" "\<not> closed w"
  shows "read_byte wire_read (new_bufrd w) =
    Some (Inr c, \<lparr>b_src = w\<lparr>rx := segs\<rparr>, b_buf = cs, b_err = None\<rparr>)"
  using assms
  by (simp add: read_byte_def new_bufrd_def bufio_fill_numeral wire_read_def take_byte_def bufio_size_def)

lemma buffered_line:
  assumes "b_buf b = l @ newline # r" "newline \<notin> set l"
  shows "read_line rd b = Some (l @ nl, None, b\<lparr>b_buf := r\<rparr>)"
proof -
  have "takeWhile (\<lambda>c. c \<noteq> newline) (l @ newline # r) = l" using assms(2) by (auto simp: takeWhile_tail)
  with assms(1) show ?thesis
    unfolding read_line_def by (subst read_string.simps) (simp add: Let_def nl_def)
qed

text \<open>Handshake data in one segment: all but its first byte is lost with the buffered reader.\<close>

lemma handle_binary_first:
  assumes "rx w = (c # cs) # segs" "length cs < bufio_size" "\<not> closed w" "\<not> text_start c"
  shows "handleProxyStream ev srv pid region w =
    with_prefix ev srv (lastChosenProtocol pid srv) [c] (w\<lparr>rx := segs\<rparr>)
      (new_slog (has_metrics srv) (lastChosenProtocol pid srv) region)"
  using assms by (simp add: handleProxyStream_def first_byte Let_def)

lemma handle_text_first:
  assumes "rx w = (c # l @ newline # r) # segs" "length (c # l @ newline # r) \<le> bufio_size" "\<not> closed w"
    and "text_start c" "newline \<notin> set l"
  shows "handleProxyStream ev srv pid region w =
    first_line_phase ev srv (lastChosenProtocol pid srv) (c # l @ nl) (w\<lparr>rx := segs\<rparr>)
      (new_slog (has_metrics srv) (lastChosenProtocol pid srv) region)"
proof -
  have "length (l @ newline # r) < bufio_size" using assms(2) by simp
  from first_byte [OF assms(1) this assms(3)] assms(4,5) show ?thesis
    by (simp add: handleProxyStream_def Let_def buffered_line)
qed

lemma plain_no_newline: "list_all plain_byte s \<Longrightarrow> newline \<notin> set s"
  by (auto simp: list_all_iff plain_byte_def)

lemma handshake_skipped:
  "firstLine \<noteq> [] \<Longrightarrow> handshake_phase io base ev srv chosen agreed firstLine s lg =
     obfs_phase io base ev srv agreed firstLine s lg"
  by (simp add: handshake_phase_def Let_def)

lemma obfs_off:
  "PMax (srv_obfs srv) \<le> 0 \<Longrightarrow> WDMax (srv_obfs srv) \<le> 0 \<Longrightarrow>
     obfs_phase io base ev srv agreed firstLine s lg = request_phase io base ev firstLine s lg"
  by (simp add: obfs_phase_def delay_phase_def Let_def)

lemma request_given:
  "firstLine \<noteq> [] \<Longrightarrow> request_phase io base ev firstLine s lg =
     serve_request io base ev firstLine (new_bufrd s) lg"
  by (simp add: request_phase_def)

lemma request_line_shape:
  assumes "p = ''TCP'' \<or> p = ''UDP'' \<or> p = ''DIRECT''" "host_ok host"
  shows "\<exists>c l. request_line p host port = c # l @ nl \<and> text_start c \<and> newline \<notin> set l"
    and "\<not> has_prefix (request_line p host port) obfs_prefix"
    and "has_prefix (request_line p host port) ''TCP '' \<or> has_prefix (request_line p host port) ''UDP '' \<or>
      has_prefix (request_line p host port) ''DIRECT ''"
    and "to_upper p = p"
proof -
  have h: "newline \<notin> set host" "newline \<notin> set (itoa port)"
    using plain_no_newline assms(2) by (simp_all add: host_ok_def)
  from assms(1) have p: "p \<noteq> []" "text_start (hd p)" "newline \<notin> set (tl p)" by (auto simp: text_start_def)
  with h show "\<exists>c l. request_line p host port = c # l @ nl \<and> text_start c \<and> newline \<notin> set l"
    by (intro exI [of _ "hd p"] exI [of _ "tl p @ '' '' @ host @ '' '' @ itoa port"]) (simp add: request_line_def)
  from assms(1) show "\<not> has_prefix (request_line p host port) obfs_prefix"
    by (elim disjE) (simp_all add: request_line_def has_prefix_def obfs_prefix_def)
  from assms(1) show "has_prefix (request_line p host port) ''TCP '' \<or> has_prefix (request_line p host port) ''UDP '' \<or>
      has_prefix (request_line p host port) ''DIRECT ''"
    by (elim disjE) (simp_all add: request_line_def has_prefix_def)
  from assms(1) show "to_upper p = p" by (elim disjE) (simp_all add: upper1_def)
qed

text \<open>A plain request skips the handshake, whatever protocol and token are configured.\<close>

lemma handle_request_line:
  assumes p: "p = ''TCP'' \<or> p = ''UDP'' \<or> p = ''DIRECT''" and h: "host_ok host"
    and w: "rx w = (request_line p host port @ r) # segs" "length (request_line p host port @ r) \<le> bufio_size"
      "\<not> closed w"
    and o: "PMax (srv_obfs srv) \<le> 0" "WDMax (srv_obfs srv) \<le> 0"
  shows "handleProxyStream ev srv pid region w =
    serve_request wire_rwc (\<lambda>w. w) ev (request_line p host port) (new_bufrd (w\<lparr>rx := segs\<rparr>))
      (new_slog (has_metrics srv) (lastChosenProtocol pid srv) region)"
proof -
  let ?line = "request_line p host port"
  let ?lg = "new_slog (has_metrics srv) (lastChosenProtocol pid srv) region"
  from request_line_shape(1) [OF p h] obtain c l where
    cl: "?line = c # l @ nl" "text_start c" "newline \<notin> set l" by blast
  note shape = request_line_shape(2) [OF p h, of port] request_line_shape(3) [OF p h, of port]
  have ne: "?line \<noteq> []" using cl(1) by simp
  have "handleProxyStream ev srv pid region w =
      first_line_phase ev srv (lastChosenProtocol pid srv) ?line (w\<lparr>rx := segs\<rparr>) ?lg"
    using handle_text_first [of w c l r segs ev srv pid region] w cl by (simp add: nl_def)
  also have "\<dots> = handshake_phase wire_rwc (\<lambda>w. w) ev srv (lastChosenProtocol pid srv) False ?line
      (w\<lparr>rx := segs\<rparr>) ?lg"
    using shape by (auto simp: first_line_phase_def)
  also have "\<dots> = serve_request wire_rwc (\<lambda>w. w) ev ?line (new_bufrd (w\<lparr>rx := segs\<rparr>)) ?lg"
    by (simp only: handshake_skipped [OF ne] obfs_off [OF o] request_given [OF ne])
  finally show ?thesis .
qed

lemma handle_plain_request:
  assumes p: "p = ''TCP'' \<or> p = ''DIRECT''" and h: "host_ok host" "0 < port" "port \<le> 65535"
    and w: "rx w = (request_line p host port @ r) # segs" "length (request_line p host port @ r) \<le> bufio_size"
      "\<not> closed w"
    and o: "PMax (srv_obfs srv) \<le> 0" "WDMax (srv_obfs srv) \<le> 0"
  shows "handleProxyStream ev srv pid region w =
    Some (tcp_outcome (\<lambda>w. w) \<lparr>Proto = p, Host = host, Port = port\<rparr>
      (handleTCPProxy wire_rwc ev \<lparr>Proto = p, Host = host, Port = port\<rparr> (new_bufrd (w\<lparr>rx := segs\<rparr>))
        (new_slog (has_metrics srv) (lastChosenProtocol pid srv) region)))"
proof -
  have p3: "p = ''TCP'' \<or> p = ''UDP'' \<or> p = ''DIRECT''" using p by blast
  have "to_upper p = ''TCP'' \<or> to_upper p = ''DIRECT''" using p request_line_shape(4) [OF p3 h(1)] by simp
  then show ?thesis
    by (simp add: handle_request_line [OF p3 h(1) w o] serve_request_def ParseRequest_line [OF p3 h])
qed

section \<open>The log of a session\<close>

text \<open>
  The log of a handler at work: the start first, then events only; the verdict is a failure exactly
  when a reason was recorded.
\<close>

definition log_open :: "bool \<Rightarrow> string \<Rightarrow> string \<Rightarrow> slog \<Rightarrow> bool" where
  "log_open on proto region lg \<longleftrightarrow>
     log_on lg = on \<and> (log_success lg \<longleftrightarrow> log_reason lg = '''') \<and>
     (if on then \<exists>evs. log_events lg = MStart proto region # evs \<and>
                   (\<forall>e\<in>set evs. \<exists>k d. e = MEvent k d)
      else log_events lg = [])"

definition log_closed :: "bool \<Rightarrow> string \<Rightarrow> string \<Rightarrow> slog \<Rightarrow> bool" where
  "log_closed on proto region lg \<longleftrightarrow>
     (if on then \<exists>evs up down. log_events lg = MStart proto region # evs @
                     [MEnd up down (log_success lg) (log_reason lg)] \<and>
                   (\<forall>e\<in>set evs. \<exists>k d. e = MEvent k d) \<and>
                   (log_success lg \<longleftrightarrow> log_reason lg = '''')
      else log_events lg = [])"

definition outcome_ok :: "bool \<Rightarrow> string \<Rightarrow> string \<Rightarrow> outcome option \<Rightarrow> bool" where
  "outcome_ok on proto region r \<longleftrightarrow>
     (\<forall>oc. r = Some oc \<longrightarrow>
        (if oc_returned oc then log_closed on proto region (oc_log oc) \<and> closed (oc_stream oc)
         else log_open on proto region (oc_log oc)))"

lemma log_open_new: "log_open on proto region (new_slog on proto region)"
  by (simp add: log_open_def new_slog_def)

lemma log_open_event: "log_open on p r lg \<Longrightarrow> log_open on p r (add_event k d lg)"
  by (auto simp: log_open_def add_event_def split: if_splits)

lemma log_open_fail: "log_open on p r lg \<Longrightarrow> reason \<noteq> '''' \<Longrightarrow> log_open on p r (fail_with reason k d lg)"
  by (auto simp: log_open_def add_event_def fail_with_def split: if_splits)

lemma log_closed_end: "log_open on p r lg \<Longrightarrow> log_closed on p r (end_session u d lg)"
  by (auto simp: log_open_def log_closed_def end_session_def)

lemma wire_close_closed [simp]: "closed (wire_close w)"
  by (simp add: wire_close_def)

lemma outcome_None [simp]: "outcome_ok on p r None"
  by (simp add: outcome_ok_def)

lemma outcome_stop: "log_open on p r lg \<Longrightarrow> outcome_ok on p r (Some (stop lg w))"
  by (simp add: outcome_ok_def stop_def log_closed_end)

lemma outcome_stop_udp: "log_open on p r lg \<Longrightarrow> outcome_ok on p r (Some ((stop lg w)\<lparr>oc_udp := u\<rparr>))"
  by (simp add: outcome_ok_def stop_def log_closed_end)

lemma handleTCPProxy_log:
  "log_open on p r lg \<Longrightarrow> handleTCPProxy io ev req b lg = (e, lg', b', pp) \<Longrightarrow> log_open on p r lg'"
  by (auto simp: handleTCPProxy_def Let_def log_open_event
      split: sum.splits prod.splits option.splits if_splits)

lemma outcome_tcp:
  assumes "log_open on p r lg"
  shows "outcome_ok on p r (Some (tcp_outcome base req (handleTCPProxy io ev req b lg)))"
proof -
  obtain e lg' b' pp where h: "handleTCPProxy io ev req b lg = (e, lg', b', pp)" by (metis prod_cases4)
  note l = handleTCPProxy_log [OF assms h]
  have "log_open on p r (fail_with (''tcp_proxy_error: '' @ m) k d lg')" for m k d
    by (rule log_open_fail [OF l]) simp
  then show ?thesis using l
    by (auto simp: tcp_outcome_def h outcome_ok_def stop_def log_closed_end split: option.splits)
qed

lemma outcome_serve: "log_open on p r lg \<Longrightarrow> outcome_ok on p r (serve_request io base ev line b lg)"
  by (auto simp: serve_request_def outcome_tcp
      intro!: outcome_stop outcome_stop_udp log_open_fail split: sum.split prod.split option.split)

lemma outcome_request: "log_open on p r lg \<Longrightarrow> outcome_ok on p r (request_phase io base ev fl s lg)"
  by (auto simp: request_phase_def intro!: outcome_serve outcome_stop log_open_fail
      split: prod.split option.split)

lemma outcome_delay: "log_open on p r lg \<Longrightarrow> outcome_ok on p r (delay_phase io base ev ob fl s lg)"
  by (simp add: delay_phase_def outcome_request)

lemma outcome_obfs: "log_open on p r lg \<Longrightarrow> outcome_ok on p r (obfs_phase io base ev srv ag fl s lg)"
  by (simp add: obfs_phase_def Let_def outcome_request outcome_delay)

lemma log_open_hs: "log_open on p r lg \<Longrightarrow> proto \<noteq> '''' \<Longrightarrow> log_open on p r (hs_failed proto e lg)"
  by (simp add: hs_failed_def log_open_fail)

lemma outcome_handshake:
  assumes "log_open on p r lg"
  shows "outcome_ok on p r (handshake_phase io base ev srv ch ag fl s lg)"
proof -
  have st: "outcome_ok on p r (Some (stop (hs_failed proto e lg) w))" if "proto \<noteq> ''''" for proto e w
    by (rule outcome_stop [OF log_open_hs [OF assms that]])
  note ob = outcome_obfs [OF assms]
  show ?thesis
    unfolding handshake_phase_def Let_def
    by (simp add: st ob split: option.split sum.split prod.split)
qed

lemma outcome_first_line:
  assumes "log_open on p r lg"
  shows "outcome_ok on p r (first_line_phase ev srv ch line w lg)"
  by (simp add: first_line_phase_def agreed_phase_def with_prefix_def Let_def
      outcome_handshake [OF assms] outcome_stop [OF assms] split: option.split prod.split)

lemma plain_session:
  assumes p: "p = ''TCP'' \<or> p = ''DIRECT''" and h: "host_ok host" "0 < port" "port \<le> 65535"
    and w: "rx w = request_line p host port # segs" "length (request_line p host port) \<le> bufio_size"
      "ends_well w"
    and o: "PMax (srv_obfs srv) \<le> 0" "WDMax (srv_obfs srv) \<le> 0"
    and d: "e_dial_tcp ev host port = Inr t" "ends_well t"
    and s: "1 + length segs + length (concat segs) \<le> turns True (e_sched ev)"
      "1 + length (rx t) + length (concat (rx t)) \<le> turns False (e_sched ev)"
  shows "\<exists>oc t'. handleProxyStream ev srv pid region w = Some oc \<and> oc_returned oc \<and>
    oc_target oc = Some t' \<and> tx t' = tx t @ concat segs \<and> closed t' \<and>
    tx (oc_stream oc) = tx w @ ''OK'' @ nl @ concat (rx t) \<and> closed (oc_stream oc) \<and>
    (has_metrics srv \<longrightarrow>
       log_events (oc_log oc) =
         [MStart (lastChosenProtocol pid srv) region,
          MEvent ''session_closed'' [(''host'', host), (''port'', itoa port)],
          MEnd (length (concat segs)) (length (concat (rx t))) True ''''])"
proof -
  let ?req = "\<lparr>Proto = p, Host = host, Port = port\<rparr>"
  define ok :: bytes where "ok = ''OK'' @ nl"
  let ?w = "w\<lparr>rx := segs, tx := tx w @ ok\<rparr>"
  let ?lg = "new_slog (has_metrics srv) (lastChosenProtocol pid srv) region"
  define q where "q = pipe_run wire_rwc (e_sched ev) (new_pipe (new_bufrd ?w) t)"
  have ew: "ends_well ?w" using w(3) by simp
  have "1 + length (rx ?w) + length (concat (rx ?w)) \<le> turns True (e_sched ev)" using s(1) by simp
  note run = pipe_run_complete [OF ew d(2) this s(2), unfolded Let_def, folded q_def]
  have "rx w = (request_line p host port @ []) # segs" "length (request_line p host port @ []) \<le> bufio_size"
    "\<not> closed w" using w by (simp_all add: ends_well_def)
  from handle_plain_request [OF p h this o, of ev pid region]
  have hd: "handleProxyStream ev srv pid region w =
      Some (tcp_outcome (\<lambda>w. w) ?req (handleTCPProxy wire_rwc ev ?req (new_bufrd (w\<lparr>rx := segs\<rparr>)) ?lg))" .
  have wb: "write_buf wire_rwc (new_bufrd (w\<lparr>rx := segs\<rparr>)) ok = (None, new_bufrd ?w)"
    using w(3) by (simp add: write_buf_def write_string_def wire_rwc_def new_bufrd_def wire_write_def ends_well_def)
  have tcp: "handleTCPProxy wire_rwc ev ?req (new_bufrd (w\<lparr>rx := segs\<rparr>)) ?lg =
      (None, add_event ''session_closed'' [(''host'', host), (''port'', itoa port)] ?lg, upstream q,
       Some (q\<lparr>target := wire_close (target q)\<rparr>))"
    using d(1) wb run by (simp add: handleTCPProxy_def [folded ok_def] q_def [symmetric] Let_def)
  have fin: "pipe_done (q\<lparr>target := wire_close (target q)\<rparr>)" using run by (simp add: pipe_done_def)
  show ?thesis
    unfolding hd tcp
    using run fin w(3)
    by (simp add: tcp_outcome_def end_session_def add_event_def new_slog_def wire_close_def ok_def)
qed

lemma handle_outcome:
  "outcome_ok (has_metrics srv) (lastChosenProtocol pid srv) region (handleProxyStream ev srv pid region stream)"
proof -
  note new = log_open_new [of "has_metrics srv" "lastChosenProtocol pid srv" region]
  show ?thesis
    unfolding handleProxyStream_def Let_def with_prefix_def
    by (simp add: outcome_handshake [OF new] outcome_first_line [OF new]
        split: option.split prod.split sum.split)
qed

section \<open>Properties\<close>

text \<open>
  C27: the request parser accepts what the client prints and nothing ill-formed. A printed request
  line with one of the three protocols, a host of printable characters and a port parses to exactly
  these; and every request the parser returns, for any line a peer may send, has one of the three
  protocols, a host and a port between 1 and 65535.
\<close>

theorem parse_request_correct:
  "(p \<in> {''TCP'', ''UDP'', ''DIRECT''} \<and> host_ok host \<and> 0 < port \<and> port \<le> 65535 \<longrightarrow>
      ParseRequest (request_line p host port) = Inr \<lparr>Proto = p, Host = host, Port = port\<rparr>) \<and>
   (\<forall>r. ParseRequest line = Inr r \<longrightarrow>
      Proto r \<in> {''TCP'', ''UDP'', ''DIRECT''} \<and> Host r \<noteq> '''' \<and> 0 < Port r \<and> Port r \<le> 65535)"
proof (intro conjI impI allI)
  assume "p \<in> {''TCP'', ''UDP'', ''DIRECT''} \<and> host_ok host \<and> 0 < port \<and> port \<le> 65535"
  then show "ParseRequest (request_line p host port) = Inr \<lparr>Proto = p, Host = host, Port = port\<rparr>"
    by (intro ParseRequest_line) (simp_all only: insert_iff empty_iff simp_thms)
qed (use ParseRequest_sound in blast)+

lemma parse_request_correct_witness:
  "ParseRequest (request_line ''UDP'' ''8.8.8.8'' 53) = Inr \<lparr>Proto = ''UDP'', Host = ''8.8.8.8'', Port = 53\<rparr>"
proof -
  have "host_ok ''8.8.8.8''" by (simp add: host_ok_def plain_byte_def)
  with parse_request_correct [of "''UDP''" "''8.8.8.8''" 53] show ?thesis by simp
qed

text \<open>
  C26: every session is logged completely. Whatever the client sends, whatever fails, a handler that
  returns has closed the stream, and with a metrics store its log is one start, then events, then
  exactly one end whose verdict is a failure exactly when it names a reason; a handler that still
  relays has logged its start and no end; without a store nothing is logged.
\<close>

theorem session_log_complete:
  "case handleProxyStream ev srv pid region stream of
     None \<Rightarrow> True
   | Some oc \<Rightarrow>
       (if oc_returned oc
        then log_closed (has_metrics srv) (lastChosenProtocol pid srv) region (oc_log oc) \<and> closed (oc_stream oc)
        else log_open (has_metrics srv) (lastChosenProtocol pid srv) region (oc_log oc))"
  using handle_outcome [of srv pid region ev stream] by (simp add: outcome_ok_def split: option.split)

text \<open>
  C1: a proxied TCP session, end to end. The client's request line arrives as the first segment, on
  a node without obfuscation of its own, and dialling the target succeeds; then for every schedule
  with enough turns the handler returns, the target has received exactly the bytes behind the
  request, the client exactly \<open>OK\<close> and the bytes of the target, both connections are closed, and the
  log is the start, the event of the closed session and the end with the two byte counts and success. No token is asked for: this holds for every
  configured token and negotiated protocol.
\<close>

theorem tcp_session_end_to_end:
  assumes p: "p = ''TCP'' \<or> p = ''DIRECT''" and h: "host_ok host" "0 < port" "port \<le> 65535"
    and w: "rx w = request_line p host port # segs" "length (request_line p host port) \<le> bufio_size"
      "ends_well w"
    and o: "PMax (srv_obfs srv) \<le> 0" "WDMax (srv_obfs srv) \<le> 0"
    and d: "e_dial_tcp ev host port = Inr t" "ends_well t"
    and s: "1 + length segs + length (concat segs) \<le> turns True (e_sched ev)"
      "1 + length (rx t) + length (concat (rx t)) \<le> turns False (e_sched ev)"
  shows "\<exists>oc t'. handleProxyStream ev srv pid region w = Some oc \<and> oc_returned oc \<and>
    oc_target oc = Some t' \<and> tx t' = tx t @ concat segs \<and> closed t' \<and>
    tx (oc_stream oc) = tx w @ ''OK'' @ nl @ concat (rx t) \<and> closed (oc_stream oc) \<and>
    (has_metrics srv \<longrightarrow>
       log_events (oc_log oc) =
         [MStart (lastChosenProtocol pid srv) region,
          MEvent ''session_closed'' [(''host'', host), (''port'', itoa port)],
          MEnd (length (concat segs)) (length (concat (rx t))) True ''''])"
  by (rule plain_session [OF assms])

definition wit_env :: "bool list \<Rightarrow> env" where
  "wit_env sched =
     \<lparr>e_dial_tcp = (\<lambda>h p. if h = ''example.com'' \<and> p = 80 then Inr wit_target else Inl (Err ''refused'')),
      e_dial_udp = (\<lambda>h p. Inl (Err ''refused'')), e_vmess = wit_vmess, e_gcm = tag_aead,
      e_digests = v_dig wit_vmess, e_crand = Some (rng_of (\<lambda>i. i)), e_pad_rng = rng_of (\<lambda>i. i),
      e_delay_rng = rng_of (\<lambda>i. i), e_h2_rng = rng_of (\<lambda>i. i), e_now = 1000, e_sched = sched\<rparr>"

definition wit_server_state :: Server where
  "wit_server_state =
     RememberChosenProtocol ''peer1'' ''vless''
       (SetVLESSAuthToken ''secret'' (NewServer\<lparr>has_metrics := True\<rparr>))"

lemma tcp_session_end_to_end_witness:
  "\<exists>oc t'. handleProxyStream (wit_env (replicate 7 True @ replicate 9 False)) wit_server_state ''peer1'' ''de''
       (wire_of [request_line ''TCP'' ''example.com'' 80, ''GET /''] (Some EOF)) = Some oc \<and>
     oc_target oc = Some t' \<and> tx t' = ''GET /'' \<and> tx (oc_stream oc) = ''OK'' @ nl @ ''200 OK''"
proof -
  let ?w = "wire_of [request_line ''TCP'' ''example.com'' 80, ''GET /''] (Some EOF)"
  have h: "host_ok ''example.com''" by (simp add: host_ok_def plain_byte_def)
  have i: "itoa 80 = ''80''" by code_simp
  show ?thesis
    using tcp_session_end_to_end [of "''TCP''" "''example.com''" 80 ?w "[''GET /'']" wit_server_state
        "wit_env (replicate 7 True @ replicate 9 False)" wit_target "''peer1''" "''de''"] h
    by (auto simp: wire_of_def ends_well_def wit_env_def wit_server_state_def RememberChosenProtocol_def
        SetVLESSAuthToken_def NewServer_def wit_target_def turns_def request_line_def nl_def i bufio_size_def)
qed

text \<open>
  A failed dial is reported. A plain request to a target that cannot be dialled is answered
  with one error line carrying the dialler's message; the handler returns without a target, and the
  log holds the two error events and a failed end with the same reason.
\<close>

theorem dial_failure_reported:
  assumes p: "p = ''TCP'' \<or> p = ''DIRECT''" and h: "host_ok host" "0 < port" "port \<le> 65535"
    and w: "rx w = (request_line p host port @ r) # segs" "length (request_line p host port @ r) \<le> bufio_size"
      "\<not> closed w" "tx_room w = None"
    and o: "PMax (srv_obfs srv) \<le> 0" "WDMax (srv_obfs srv) \<le> 0"
    and d: "e_dial_tcp ev host port = Inl e" and m: "has_metrics srv"
  shows "\<exists>oc d1 d2. handleProxyStream ev srv pid region w = Some oc \<and> oc_returned oc \<and>
    oc_target oc = None \<and> tx (oc_stream oc) = tx w @ ''ERR dial target: '' @ err_msg e @ nl \<and>
    log_events (oc_log oc) =
      [MStart (lastChosenProtocol pid srv) region, MEvent ''dial_error'' d1, MEvent ''tcp_proxy_error'' d2,
       MEnd 0 0 False (''tcp_proxy_error: dial target: '' @ err_msg e)]"
  unfolding handle_plain_request [OF p h w(1-3) o]
  using d m w(3,4)
  by (simp add: handleTCPProxy_def tcp_outcome_def write_buf_def write_string_def wire_rwc_def new_bufrd_def
      wire_write_def wire_close_def end_session_def fail_with_def add_event_def new_slog_def wrap_err_def)

lemma dial_failure_reported_witness:
  "\<exists>oc. handleProxyStream (wit_env []) wit_server_state ''peer1'' ''de''
       (wire_of [request_line ''TCP'' ''a.b'' 1] None) = Some oc \<and>
     tx (oc_stream oc) = ''ERR dial target: refused'' @ nl"
proof -
  let ?w = "wire_of [request_line ''TCP'' ''a.b'' 1] None"
  have h: "host_ok ''a.b''" by (simp add: host_ok_def plain_byte_def)
  have i: "itoa 1 = ''1''" by code_simp
  show ?thesis
    using dial_failure_reported [of "''TCP''" "''a.b''" 1 ?w "[]" "[]" wit_server_state "wit_env []"
        "Err ''refused''" "''peer1''" "''de''"] h
    by (auto simp: wire_of_def wit_env_def wit_server_state_def RememberChosenProtocol_def
        SetVLESSAuthToken_def NewServer_def request_line_def nl_def i bufio_size_def)
qed

text \<open>
  A client that authenticates in one segment is never served. On a node that has negotiated
  vless with the peer and has a token, a client that sends its token line, starting with any byte
  but O, T, U and D, in a single segment and then waits for the answer, waits for ever, even with
  the right token: the server looked at the first byte through a buffered reader, dropped the
  rest of the segment with it, and now waits for the end of a line that has already arrived.
\<close>

theorem vless_single_segment_deadlock:
  assumes "lastChosenProtocol pid srv = ''vless''" "vlessToken srv = t" "token_ok t"
    and "t = c # cs" "\<not> text_start c" "length (t @ nl) \<le> bufio_size"
    and "rx w = [t @ nl]" "rx_end w = None" "\<not> closed w"
  shows "handleProxyStream ev srv pid region w = None"
proof -
  let ?w = "w\<lparr>rx := []\<rparr>" and ?p = "\<lparr>pc_prefix = [c], pc_off = 0\<rparr>"
  let ?lg = "new_slog (has_metrics srv) ''vless'' region"
  have c: "c \<noteq> newline" using token_okD(4) [OF assms(3)] assms(4) by auto
  have "length (cs @ nl) < bufio_size" using assms(4,6) by simp
  from handle_binary_first [of w c "cs @ nl" "[]", OF _ this assms(9,5)] assms(1,4,7)
  have "handleProxyStream ev srv pid region w = with_prefix ev srv ''vless'' [c] ?w ?lg" by simp
  also have "\<dots> = None"
  proof -
    let ?io = "prefix_rwc wire_rwc"
    have r1: "prefix_read wire_read (?p, ?w) n = Some ([c], None, (?p\<lparr>pc_off := 1\<rparr>, ?w))" if "0 < n" for n
      using that by (simp add: prefix_read_def Let_def)
    have r2: "prefix_read wire_read (?p\<lparr>pc_off := 1\<rparr>, ?w) n = None" if "0 < n" for n
      using that assms(8,9) by (simp add: prefix_read_def wire_read_def)
    let ?b1 = "\<lparr>b_src = (?p\<lparr>pc_off := 1\<rparr>, ?w), b_buf = [c], b_err = None\<rparr>"
    have f1: "bufio_fill 100 (prefix_read wire_read) (new_bufrd (?p, ?w)) = Some ?b1"
      using r1 [of bufio_size] by (simp add: bufio_fill_numeral new_bufrd_def bufio_size_def)
    have f2: "bufio_fill 100 (prefix_read wire_read) ?b1 = None"
      using r2 [of "bufio_size - 1"] by (simp add: bufio_fill_numeral bufio_size_def)
    have "read_line (prefix_read wire_read) (new_bufrd (?p, ?w)) = None"
      unfolding read_line_def
      by (subst read_string.simps, subst read_string.simps)
        (use f1 f2 c in \<open>simp add: new_bufrd_def bufio_size_def\<close>)
    then have "vless_server ?io t (?p, ?w) = None"
      by (simp add: vless_server_def token_server_def prefix_rwc_def wire_rwc_def)
    moreover have "trim_space t = t" "t \<noteq> ''''" using token_okD [OF assms(3)] by blast+
    ultimately have "vless_handshake ?io (Some (role_config t (5 * Second) ''server'')) (?p, ?w) = None"
      by (simp add: vless_handshake_def role_config_def raw_get_def Let_def prefix_rwc_def Second_def)
    then show ?thesis
      using assms(2,4) by (simp add: with_prefix_def handshake_phase_def Let_def)
  qed
  finally show ?thesis .
qed

lemma vless_single_segment_deadlock_witness:
  "handleProxyStream (wit_env []) wit_server_state ''peer1'' ''de'' (wire_of [''secret'' @ nl] None) = None"
  by (rule vless_single_segment_deadlock [of _ _ _ "CHR ''s''" "''ecret''"])
    (simp_all add: wit_server_state_def RememberChosenProtocol_def SetVLESSAuthToken_def NewServer_def
      lastChosenProtocol_def token_ok_def solid_def plain_byte_def text_start_def bufio_size_def nl_def wire_of_def)

text \<open>
  The payload a client sends together with its request is lost: when the bytes behind the
  request line arrive in the same segment, the target never receives them. The relay runs on the
  later segments only.
\<close>

theorem pipelined_payload_lost:
  assumes p: "p = ''TCP'' \<or> p = ''DIRECT''" and h: "host_ok host" "0 < port" "port \<le> 65535"
    and w: "rx w = [request_line p host port @ data]" "length (request_line p host port @ data) \<le> bufio_size"
      "ends_well w"
    and o: "PMax (srv_obfs srv) \<le> 0" "WDMax (srv_obfs srv) \<le> 0"
    and d: "e_dial_tcp ev host port = Inr t" "ends_well t" "tx t = []"
    and s: "1 \<le> turns True (e_sched ev)"
      "1 + length (rx t) + length (concat (rx t)) \<le> turns False (e_sched ev)"
  shows "\<exists>oc t'. handleProxyStream ev srv pid region w = Some oc \<and> oc_returned oc \<and>
    oc_target oc = Some t' \<and> tx t' = []"
proof -
  from handle_plain_request [OF p h w(1,2) _ o, of ev pid region] w(3)
    handle_plain_request [OF p h _ _ _ o, of "w\<lparr>rx := [request_line p host port]\<rparr>" "[]" "[]" ev pid region] w(2)
  have "handleProxyStream ev srv pid region w =
      handleProxyStream ev srv pid region (w\<lparr>rx := [request_line p host port]\<rparr>)"
    by (simp add: ends_well_def)
  moreover have "\<exists>oc t'. handleProxyStream ev srv pid region (w\<lparr>rx := [request_line p host port]\<rparr>) = Some oc \<and>
      oc_returned oc \<and> oc_target oc = Some t' \<and> tx t' = tx t @ concat []"
    using plain_session [OF p h, of "w\<lparr>rx := [request_line p host port]\<rparr>" "[]" srv ev t pid region] w o d s
    by auto
  ultimately show ?thesis using d(3) by simp
qed

lemma pipelined_payload_lost_witness:
  "\<exists>oc t'. handleProxyStream (wit_env (replicate 7 True @ replicate 9 False)) wit_server_state ''peer1'' ''de''
       (wire_of [request_line ''TCP'' ''example.com'' 80 @ ''GET /''] (Some EOF)) = Some oc \<and>
     oc_target oc = Some t' \<and> tx t' = []"
proof -
  let ?w = "wire_of [request_line ''TCP'' ''example.com'' 80 @ ''GET /''] (Some EOF)"
  have h: "host_ok ''example.com''" by (simp add: host_ok_def plain_byte_def)
  have i: "itoa 80 = ''80''" by code_simp
  show ?thesis
    using pipelined_payload_lost [of "''TCP''" "''example.com''" 80 ?w "''GET /''" wit_server_state
        "wit_env (replicate 7 True @ replicate 9 False)" wit_target "''peer1''" "''de''"] h
    by (auto simp: wire_of_def ends_well_def wit_env_def wit_server_state_def RememberChosenProtocol_def
        SetVLESSAuthToken_def NewServer_def wit_target_def turns_def request_line_def nl_def i bufio_size_def)
qed

fun quality_run :: "quality \<Rightarrow> duration option list \<Rightarrow> sample list" where
  "quality_run q [] = []"
| "quality_run q (p # ps) = (case quality_tick p q of (s, q') \<Rightarrow> s # quality_run q' ps)"

definition losses :: "duration option list \<Rightarrow> nat" where
  "losses ps = length (filter (\<lambda>p. p = None) ps)"

lemma quality_tick_counts:
  "quality_tick p q = (s, q') \<Longrightarrow>
     q_failed q' = q_failed q + losses [p] \<and> q_sent q' + q_failed q' = Suc (q_sent q + q_failed q) \<and>
     loss s = (q_failed q', Suc (q_sent q + q_failed q)) \<and>
     (p = None \<longrightarrow> rttMS s = 0 \<and> jitterMS s = 0) \<and>
     (\<forall>d. p = Some d \<and> 0 < d \<longrightarrow> rttMS s = d div Millisecond) \<and> 0 \<le> jitterMS s"
  by (cases p) (auto simp: quality_tick_def Let_def losses_def Millisecond_def)

lemma quality_run_counts:
  "i < length ps \<Longrightarrow>
     loss (quality_run q ps ! i) = (q_failed q + losses (take (Suc i) ps), q_sent q + q_failed q + Suc i) \<and>
     (ps ! i = None \<longrightarrow> rttMS (quality_run q ps ! i) = 0 \<and> jitterMS (quality_run q ps ! i) = 0) \<and>
     (\<forall>d. ps ! i = Some d \<and> 0 < d \<longrightarrow> rttMS (quality_run q ps ! i) = d div Millisecond) \<and>
     0 \<le> jitterMS (quality_run q ps ! i)"
proof (induction ps arbitrary: q i)
  case Nil
  then show ?case by simp
next
  case (Cons p ps)
  obtain s q' where t: "quality_tick p q = (s, q')" by fastforce
  note c = quality_tick_counts [OF t]
  have r: "quality_run q (p # ps) = s # quality_run q' ps" by (simp add: t)
  show ?case
  proof (cases i)
    case 0
    have h: "quality_run q (p # ps) ! i = s" "(p # ps) ! i = p" "take (Suc i) (p # ps) = [p]"
      using 0 by (simp_all add: r del: quality_run.simps)
    show ?thesis unfolding h using c 0 by simp
  next
    case (Suc j)
    have "losses (take (Suc i) (p # ps)) = losses [p] + losses (take (Suc j) ps)"
      using Suc by (simp add: losses_def)
    with Suc Cons.IH [of j q'] Cons.prems c show ?thesis by (simp add: r del: quality_run.simps)
  qed
qed

text \<open>
  The quality samples of a session are consistent. After \<open>i\<close> ticks of the quality loop the
  reported loss is the number of failed pings so far out of \<open>i\<close>, whatever the pings return; a failed
  ping reports no time and no jitter, a successful one its time in milliseconds, and the jitter is
  never negative.
\<close>

theorem quality_samples_consistent:
  assumes "i < length ps"
  defines "s \<equiv> quality_run \<lparr>lastRTT = 0, q_sent = 0, q_failed = 0\<rparr> ps ! i"
  shows "loss s = (losses (take (Suc i) ps), Suc i) \<and> losses (take (Suc i) ps) \<le> Suc i \<and>
    (ps ! i = None \<longrightarrow> rttMS s = 0 \<and> jitterMS s = 0) \<and>
    (\<forall>d. ps ! i = Some d \<and> 0 < d \<longrightarrow> rttMS s = d div Millisecond) \<and> 0 \<le> jitterMS s"
proof -
  have "losses (take (Suc i) ps) \<le> length (take (Suc i) ps)" unfolding losses_def by (rule length_filter_le)
  then have "losses (take (Suc i) ps) \<le> Suc i" by simp
  with quality_run_counts [OF assms(1), of "\<lparr>lastRTT = 0, q_sent = 0, q_failed = 0\<rparr>"] show ?thesis
    by (simp add: s_def)
qed

lemma quality_samples_consistent_witness:
  "loss (quality_run \<lparr>lastRTT = 0, q_sent = 0, q_failed = 0\<rparr>
     [Some (12 * Millisecond), None, Some (20 * Millisecond)] ! 2) = (1, 3)"
  using quality_samples_consistent [of 2 "[Some (12 * Millisecond), None, Some (20 * Millisecond)]"]
  by (simp add: losses_def numeral_2_eq_2 numeral_3_eq_3)

end
