(* ===== verification/ProxyClient.thy ===== *)
theory ProxyClient
  imports ProxyServer Negotiate
begin

text \<open>
  \<open>pkg/client/proxy.go\<close>: dialling through a node. A connection the client returns is a network
  stream under the sessions the dial put on it, so its type is \<open>sess\<close>, whose constructors are the
  wrappers of the code; reading and writing one goes through the wrappers' own operations.

  The host, the negotiation peer and the clock are the environment \<open>net\<close> of one dial. A dial may
  fail to return (a read of the handshake that blocks for ever); then its result is \<open>None\<close>.
\<close>

section \<open>Connections\<close>

text \<open>\<open>Multi line buf e s\<close> is the \<open>bufferedStream\<close> that replays what the dial has read too much.\<close>

datatype sess =
    Net wire
  | Pad padding sess
  | Delay delay sess
  | SSS ssAEAD sess
  | Hys h2_session sess
  | Multi bytes bytes "err option" sess

fun depth :: "sess \<Rightarrow> nat" where
  "depth (Net w) = 0"
| "depth (Pad c s) = Suc (depth s)"
| "depth (Delay c s) = Suc (depth s)"
| "depth (SSS c s) = Suc (depth s)"
| "depth (Hys c s) = Suc (depth s)"
| "depth (Multi l b e s) = Suc (depth s)"

definition net_read :: "wire \<Rightarrow> nat \<Rightarrow> (bytes \<times> err option \<times> sess) option" where
  "net_read w n = map_option (\<lambda>(bs, e, w'). (bs, e, Net w')) (wire_read w n)"

text \<open>Reading through at most the given number of wrappers.\<close>

primrec sess_read_d :: "aead \<Rightarrow> nat \<Rightarrow> sess reader" where
  "sess_read_d a 0 = (\<lambda>s n. case s of Net w \<Rightarrow> net_read w n | _ \<Rightarrow> None)"
| "sess_read_d a (Suc d) =
     (\<lambda>s n. case s of
        Net w \<Rightarrow> net_read w n
      | Pad c s1 \<Rightarrow>
          map_option (\<lambda>(bs, e, c', s'). (bs, e, Pad c' s')) (padding_read (sess_read_d a d) (c, s1) n)
      | Delay c s1 \<Rightarrow>
          map_option (\<lambda>(bs, e, c', s'). (bs, e, Delay c' s')) (delay_read (sess_read_d a d) (c, s1) n)
      | SSS c s1 \<Rightarrow>
          map_option (\<lambda>(bs, e, c', s'). (bs, e, SSS c' s')) (ss_read a (sess_read_d a d) (c, s1) n)
      | Hys c s1 \<Rightarrow>
          map_option (\<lambda>(bs, e, c', s'). (bs, e, Hys c' s')) (h2_read a (sess_read_d a d) (c, s1) n)
      | Multi line buf e s1 \<Rightarrow>
          if line \<noteq> [] then Some (take n line, None, Multi (drop n line) buf e s1)
          else map_option (\<lambda>(bs, e, b). (bs, e, Multi [] (b_buf b) (b_err b) (b_src b)))
                 (bufio_read (sess_read_d a d) \<lparr>b_src = s1, b_buf = buf, b_err = e\<rparr> n))"

definition sess_read :: "aead \<Rightarrow> sess reader" where
  "sess_read a s n = sess_read_d a (depth s) s n"

primrec sess_write_d :: "aead \<Rightarrow> nat \<Rightarrow> sess writer" where
  "sess_write_d a 0 =
     (\<lambda>s bs. case s of Net w \<Rightarrow> (case wire_write w bs of (n, e, w') \<Rightarrow> (n, e, Net w'))
       | _ \<Rightarrow> (0, None, s))"
| "sess_write_d a (Suc d) =
     (\<lambda>s bs. case s of
        Net w \<Rightarrow> (case wire_write w bs of (n, e, w') \<Rightarrow> (n, e, Net w'))
      | Pad c s1 \<Rightarrow> (case padding_write (sess_write_d a d) (c, s1) bs of (n, e, c', s') \<Rightarrow> (n, e, Pad c' s'))
      | Delay c s1 \<Rightarrow> (case delay_write (sess_write_d a d) (c, s1) bs of (n, e, c', s') \<Rightarrow> (n, e, Delay c' s'))
      | SSS c s1 \<Rightarrow> (case ss_write a (sess_write_d a d) (c, s1) bs of (n, e, c', s') \<Rightarrow> (n, e, SSS c' s'))
      | Hys c s1 \<Rightarrow> (case h2_write a (sess_write_d a d) (c, s1) bs of (n, e, c', s') \<Rightarrow> (n, e, Hys c' s'))
      | Multi line buf e s1 \<Rightarrow>
          (case sess_write_d a d s1 bs of (n, e', s') \<Rightarrow> (n, e', Multi line buf e s')))"

definition sess_write :: "aead \<Rightarrow> sess writer" where
  "sess_write a s bs = sess_write_d a (depth s) s bs"

fun sess_close :: "sess \<Rightarrow> sess" where
  "sess_close (Net w) = Net (wire_close w)"
| "sess_close (Pad c s) = Pad c (sess_close s)"
| "sess_close (Delay c s) = Delay c (sess_close s)"
| "sess_close (SSS c s) = SSS c (sess_close s)"
| "sess_close (Hys c s) =
     (case h2_close c of (c', do_close) \<Rightarrow> Hys c' (if do_close then sess_close s else s))"
| "sess_close (Multi l b e s) = Multi l b e (sess_close s)"

text \<open>Of all these only the network stream has a \<open>SetDeadline\<close>.\<close>

fun sess_deadline :: "int \<Rightarrow> sess \<Rightarrow> sess" where
  "sess_deadline d (Net w) = Net (w\<lparr>deadline := Some d\<rparr>)"
| "sess_deadline d s = s"

definition sess_rwc :: "aead \<Rightarrow> sess rwc" where
  "sess_rwc a =
     \<lparr>s_read = sess_read a, s_write = sess_write a, s_deadline = sess_deadline, s_close = sess_close\<rparr>"

fun sess_wire :: "sess \<Rightarrow> wire" where
  "sess_wire (Net w) = w"
| "sess_wire (Pad c s) = sess_wire s"
| "sess_wire (Delay c s) = sess_wire s"
| "sess_wire (SSS c s) = sess_wire s"
| "sess_wire (Hys c s) = sess_wire s"
| "sess_wire (Multi l b e s) = sess_wire s"

section \<open>The client's state\<close>

text \<open>The identity of a peer and its addresses: \<open>peer.AddrInfo\<close>.\<close>

record AddrInfo =
  ai_id :: string
  ai_addrs :: "string list"

record ProxyClient =
  cl_peer :: string
  addrInfo :: "AddrInfo option"
  cl_mgr :: "unit manager option"
  cl_preferred :: "string list"
  chosenProto :: string
  chosenTransport :: string
  cl_token :: string
  lastDialLatency :: duration
  errorCount :: nat
  qualityLatencyThreshold :: duration
  maxErrorsBeforeFallback :: int
  cl_obfs :: ObfsParams
  cl_useUTLS :: bool

definition all_protocols :: "string list" where
  "all_protocols = [''vless'', ''vmess'', ''trojan'', ''shadowsocks'', ''hysteria2'', ''plain'']"

text \<open>\<open>Register\<close> of one adapter after the other.\<close>

definition register_all :: "string list \<Rightarrow> unit manager \<Rightarrow> unit manager" where
  "register_all names m = foldl (\<lambda>m n. Register (Some (n, ())) m) m names"

text \<open>
  \<open>NewProxyClient\<close>: \<open>parse\<close> takes a multiaddr apart and then finds the peer it names, either of which
  can fail; \<open>plain_only\<close> is the environment variable that restricts the client to the plain protocol.
\<close>

type_synonym peer_parser = "string \<Rightarrow> err + (err + AddrInfo)"

definition NewProxyClient :: "peer_parser \<Rightarrow> string \<Rightarrow> bool \<Rightarrow> string \<Rightarrow> err + ProxyClient" where
  "NewProxyClient parse targetMultiaddr plain_only token =
     (case parse targetMultiaddr of
        Inl e \<Rightarrow> Inl (wrap_err ''invalid target multiaddr'' e)
      | Inr (Inl e) \<Rightarrow> Inl (wrap_err ''parse peer info'' e)
      | Inr (Inr info) \<Rightarrow>
          let preferred = (if plain_only then [''plain''] else all_protocols)
          in Inr \<lparr>cl_peer = ai_id info, addrInfo = Some info,
                  cl_mgr = Some (register_all preferred (NewManager preferred)),
                  cl_preferred = preferred, chosenProto = '''', chosenTransport = '''',
                  cl_token = token, lastDialLatency = 0, errorCount = 0,
                  qualityLatencyThreshold = 0, maxErrorsBeforeFallback = 0,
                  cl_obfs = \<lparr>PMin = 0, PMax = 0, WDMin = 0, WDMax = 0\<rparr>, cl_useUTLS = False\<rparr>)"

definition SetQualityPolicy :: "duration \<Rightarrow> int \<Rightarrow> ProxyClient \<Rightarrow> ProxyClient" where
  "SetQualityPolicy latencyThreshold maxErrors c =
     c\<lparr>qualityLatencyThreshold := latencyThreshold,
       maxErrorsBeforeFallback := (if maxErrors < 0 then 0 else maxErrors)\<rparr>"

definition Stats :: "ProxyClient \<Rightarrow> duration \<times> nat" where
  "Stats c = (lastDialLatency c, errorCount c)"

definition ChosenProtocol :: "ProxyClient \<Rightarrow> string" where
  "ChosenProtocol c = chosenProto c"

text \<open>What one dial meets: the host, the negotiating peer, the libraries, and the time it takes.\<close>

record net =
  n_connect :: "AddrInfo \<Rightarrow> err option"
  n_neg_open :: "err option"
  n_peer :: "offer \<Rightarrow> err + (err + response)"
  n_stream :: "err + wire"
  n_latency :: duration
  n_env :: env

section \<open>The steps of a dial\<close>

text \<open>A step fails with its error and the stream it leaves, or passes a value and the stream on.\<close>

type_synonym 'a step = "((err \<times> sess) + ('a \<times> sess)) option"

abbreviation io_of :: "net \<Rightarrow> sess rwc" where
  "io_of nt \<equiv> sess_rwc (e_gcm (n_env nt))"

definition wrap_pad :: "net \<Rightarrow> ObfsParams \<Rightarrow> sess \<Rightarrow> sess" where
  "wrap_pad nt p s =
     (if PMax p > 0 then Pad (new_padding (PMin p) (PMax p) (e_pad_rng (n_env nt))) s else s)"

definition wrap_delay :: "net \<Rightarrow> ObfsParams \<Rightarrow> sess \<Rightarrow> sess" where
  "wrap_delay nt p s =
     (if WDMax p > 0 then Delay (new_delay (WDMin p) (WDMax p) (e_delay_rng (n_env nt))) s else s)"

text \<open>The negotiation of the obfuscation; the value is what was agreed, if anything.\<close>

definition obfs_step :: "net \<Rightarrow> ObfsParams \<Rightarrow> sess \<Rightarrow> ObfsParams option step" where
  "obfs_step nt cfg s =
     (if PMax cfg > 0 \<or> WDMax cfg > 0 then
        (case write_string (io_of nt) s (FormatObfsLine cfg) of
           (Some e, s1) \<Rightarrow> Some (Inl (wrap_err ''write obfs line'' e, s1))
         | (None, s1) \<Rightarrow>
             (case read_line (s_read (io_of nt)) (new_bufrd s1) of
                None \<Rightarrow> None
              | Some (_, Some e, peek) \<Rightarrow> Some (Inl (wrap_err ''read obfs reply'' e, b_src peek))
              | Some (reply, None, peek) \<Rightarrow>
                  (case ParseObfsLine reply of
                     None \<Rightarrow> Some (Inr (None, b_src peek))
                   | Some agreed \<Rightarrow>
                       Some (Inr (Some agreed, wrap_delay nt agreed (wrap_pad nt agreed (b_src peek)))))))
      else Some (Inr (None, s)))"

definition dial_config :: "ProxyClient \<Rightarrow> bool \<Rightarrow> ObfsParams option \<Rightarrow> Config" where
  "dial_config c with_transport agreed =
     (let ob = (case agreed of None \<Rightarrow> cl_obfs c | Some a \<Rightarrow> a);
          transport = (if chosenTransport c = '''' then
                         (case cl_mgr c of None \<Rightarrow> '''' | Some m \<Rightarrow> defaultTransport m)
                       else chosenTransport c)
      in (role_config (cl_token c) (5 * Second) ''client'')
           \<lparr>Transport := (if with_transport then transport else ''''),
            CfgPaddingMin := PMin ob, CfgPaddingMax := PMax ob,
            CfgWriteDelayMin := WDMin ob, CfgWriteDelayMax := WDMax ob, UseUTLS := cl_useUTLS c\<rparr>)"

text \<open>The handshake of the negotiated protocol; \<open>hysteria2\<close> is only used for TCP.\<close>

definition handshake_step :: "ProxyClient \<Rightarrow> net \<Rightarrow> bool \<Rightarrow> ObfsParams option \<Rightarrow> sess \<Rightarrow> unit step" where
  "handshake_step c nt tcp agreed s =
     (let io = io_of nt; ev = n_env nt
      in if chosenProto c = ''vless'' \<and> cl_token c \<noteq> '''' then
           (case vless_handshake io (Some (dial_config c True agreed)) s of
              None \<Rightarrow> None
            | Some (Some e, s1) \<Rightarrow> Some (Inl (wrap_err ''vless handshake failed'' e, s1))
            | Some (None, s1) \<Rightarrow> Some (Inr ((), s1)))
         else if chosenProto c = ''vmess'' \<and> cl_token c \<noteq> '''' then
           (case vmess_handshake io (e_vmess ev) (e_now ev) (e_crand ev) (Some (dial_config c True agreed)) s of
              None \<Rightarrow> None
            | Some (Some e, _, s1) \<Rightarrow> Some (Inl (wrap_err ''vmess handshake failed'' e, s1))
            | Some (None, _, s1) \<Rightarrow> Some (Inr ((), s1)))
         else if chosenProto c = ''shadowsocks'' \<and> cl_token c \<noteq> '''' then
           (case ss_handshake (e_digests ev) (e_crand ev) (Some (dial_config c False agreed)) of
              Inl e \<Rightarrow> Some (Inl (wrap_err ''shadowsocks handshake failed'' e, s))
            | Inr x \<Rightarrow> Some (Inr ((), SSS x s)))
         else if tcp \<and> chosenProto c = ''hysteria2'' then
           (case h2_handshake (e_digests ev) (e_h2_rng ev) (Some (dial_config c True agreed)) of
              Inl e \<Rightarrow> Some (Inl (wrap_err ''hysteria2 handshake failed'' e, s))
            | Inr x \<Rightarrow> Some (Inr ((), Hys x s)))
         else Some (Inr ((), s)))"

text \<open>The client's own obfuscation, when none was agreed.\<close>

definition own_obfs :: "net \<Rightarrow> ObfsParams \<Rightarrow> ObfsParams option \<Rightarrow> sess \<Rightarrow> sess" where
  "own_obfs nt cfg agreed s =
     (if agreed = None then wrap_delay nt cfg (wrap_pad nt cfg s) else s)"

definition send_request :: "net \<Rightarrow> string \<Rightarrow> bytes \<Rightarrow> sess \<Rightarrow> unit step" where
  "send_request nt what line s =
     (case write_string (io_of nt) s line of
        (Some e, s1) \<Rightarrow> Some (Inl (wrap_err what e, s1))
      | (None, s1) \<Rightarrow> Some (Inr ((), s1)))"

text \<open>
  The first line of the answer. After \<open>OK\<close> the buffered reader is dropped; any other line is
  replayed to the caller together with what the reader holds.
\<close>

definition read_response :: "net \<Rightarrow> sess \<Rightarrow> unit step" where
  "read_response nt s =
     (case read_line (s_read (io_of nt)) (new_bufrd s) of
        None \<Rightarrow> None
      | Some (line, e, peek) \<Rightarrow>
          if e \<noteq> None \<and> e \<noteq> Some EOF
          then Some (Inl (wrap_err ''read proxy response'' (the e), b_src peek))
          else if has_prefix line ''ERR ''
            then Some (Inl (Err (''proxy error: '' @ trim_space (trim_prefix line ''ERR '')), b_src peek))
          else if has_prefix line ''OK'' then Some (Inr ((), b_src peek))
          else if line \<noteq> [] then Some (Inr ((), Multi line (b_buf peek) (b_err peek) (b_src peek)))
          else Some (Inr ((), b_src peek)))"

section \<open>Dialling\<close>

text \<open>
  The result of a dial: the client, the error, the connection handed to the caller, and the
  streams that were opened and closed again.
\<close>

record dial =
  d_client :: ProxyClient
  d_err :: "err option"
  d_stream :: "sess option"
  d_closed :: "sess list"

definition dial_fail :: "ProxyClient \<Rightarrow> err \<Rightarrow> sess list \<Rightarrow> dial" where
  "dial_fail c e ss =
     \<lparr>d_client = c\<lparr>errorCount := errorCount c + 1\<rparr>, d_err = Some e, d_stream = None,
      d_closed = map sess_close ss\<rparr>"

definition dial_ok :: "ProxyClient \<Rightarrow> net \<Rightarrow> sess \<Rightarrow> dial" where
  "dial_ok c nt s =
     \<lparr>d_client = c\<lparr>lastDialLatency := n_latency nt\<rparr>, d_err = None, d_stream = Some s,
      d_closed = []\<rparr>"

text \<open>Running one step after another; the first failure closes the stream and counts.\<close>

definition run_step ::
  "ProxyClient \<Rightarrow> 'a step \<Rightarrow> ('a \<Rightarrow> sess \<Rightarrow> dial option) \<Rightarrow> dial option"
where
  "run_step c st k =
     (case st of
        None \<Rightarrow> None
      | Some (Inl (e, s)) \<Rightarrow> Some (dial_fail c e [s])
      | Some (Inr (x, s)) \<Rightarrow> k x s)"

definition negotiated :: "ProxyClient \<Rightarrow> net \<Rightarrow> ProxyClient" where
  "negotiated c nt =
     (case cl_mgr c of
        None \<Rightarrow> c
      | Some m \<Rightarrow>
          (case ClientNegotiate True (Some m) (n_neg_open nt) (n_peer nt) of
             Inl _ \<Rightarrow> c
           | Inr (p, t) \<Rightarrow> c\<lparr>chosenProto := p, chosenTransport := t\<rparr>))"

text \<open>
  Connecting to the peer, with its addresses if the client has them, and opening the proxy stream.
\<close>

definition dial_target :: "ProxyClient \<Rightarrow> AddrInfo" where
  "dial_target c = (case addrInfo c of Some info \<Rightarrow> info | None \<Rightarrow> \<lparr>ai_id = cl_peer c, ai_addrs = []\<rparr>)"

definition open_stream :: "ProxyClient \<Rightarrow> bool \<Rightarrow> net \<Rightarrow> (ProxyClient \<Rightarrow> sess \<Rightarrow> dial option) \<Rightarrow> dial option" where
  "open_stream c negotiate nt k =
     (case n_connect nt (dial_target c) of
        Some e \<Rightarrow> Some (dial_fail c (wrap_err ''connect to proxy peer'' e) [])
      | None \<Rightarrow>
          let c = (if negotiate then negotiated c nt else c)
          in case n_stream nt of
               Inl e \<Rightarrow> Some (dial_fail c (wrap_err ''open proxy stream'' e) [])
             | Inr w \<Rightarrow> k c (Net w))"

definition DialTCP :: "ProxyClient \<Rightarrow> net \<Rightarrow> string \<Rightarrow> int \<Rightarrow> dial option" where
  "DialTCP c0 nt host port =
     open_stream c0 True nt (\<lambda>c s0.
       run_step c (obfs_step nt (cl_obfs c) s0) (\<lambda>agreed s1.
         run_step c (handshake_step c nt True agreed s1) (\<lambda>_ s2.
           run_step c (send_request nt ''write proxy request'' (request_line ''TCP'' host port)
               (own_obfs nt (cl_obfs c) agreed s2)) (\<lambda>_ s3.
             run_step c (read_response nt s3) (\<lambda>_ s4. Some (dial_ok c nt s4))))))"

definition DialTCPDirect :: "ProxyClient \<Rightarrow> net \<Rightarrow> string \<Rightarrow> int \<Rightarrow> dial option" where
  "DialTCPDirect c0 nt host port =
     open_stream c0 False nt (\<lambda>c s0.
       run_step c (obfs_step nt (cl_obfs c) s0) (\<lambda>agreed s1.
         run_step c (send_request nt ''write DIRECT request'' (request_line ''DIRECT'' host port)
             (own_obfs nt (cl_obfs c) agreed s1)) (\<lambda>_ s2.
           run_step c (read_response nt s2) (\<lambda>_ s3. Some (dial_ok c nt s3)))))"

definition DialUDP :: "ProxyClient \<Rightarrow> net \<Rightarrow> string \<Rightarrow> int \<Rightarrow> dial option" where
  "DialUDP c0 nt host port =
     open_stream c0 True nt (\<lambda>c s0.
       run_step c (obfs_step nt (cl_obfs c) s0) (\<lambda>agreed s1.
         run_step c (handshake_step c nt False agreed s1) (\<lambda>_ s2.
           run_step c (send_request nt ''write proxy request'' (request_line ''UDP'' host port)
               (own_obfs nt (cl_obfs c) agreed s2)) (\<lambda>_ s3. Some (dial_ok c nt s3)))))"

section \<open>Fallback\<close>

text \<open>The manager of a further attempt: the preferences rotated, and five adapters registered.\<close>

definition rotated_manager :: "string list \<Rightarrow> nat \<Rightarrow> unit manager" where
  "rotated_manager pref attempt =
     register_all [''vless'', ''trojan'', ''shadowsocks'', ''hysteria2'', ''plain'']
       (NewManager (drop attempt pref @ take attempt pref))"

definition latency_error :: "duration \<Rightarrow> duration \<Rightarrow> err" where
  "latency_error lat thr =
     Err (''dial latency '' @ dur_string lat @ '' exceeded threshold '' @ dur_string thr)"

text \<open>The streams closed before a dial count with those the dial closed itself.\<close>

definition after :: "sess list \<Rightarrow> dial \<Rightarrow> dial" where
  "after ss d = d\<lparr>d_closed := ss @ d_closed d\<rparr>"

definition closed_all :: "dial \<Rightarrow> sess list" where
  "closed_all d = d_closed d @ map sess_close (case d_stream d of None \<Rightarrow> [] | Some s \<Rightarrow> [s])"

text \<open>
  The loop of \<open>DialTCPWithFallback\<close>: \<open>left\<close> attempts are left, each with the environment it meets;
  \<open>ss\<close> are the streams closed so far.
\<close>

fun fallback_loop ::
  "nat \<Rightarrow> nat \<Rightarrow> (nat \<Rightarrow> net) \<Rightarrow> string \<Rightarrow> int \<Rightarrow> duration \<Rightarrow> err option \<Rightarrow> sess list \<Rightarrow> ProxyClient \<Rightarrow>
     dial option"
where
  "fallback_loop 0 attempt nts host port thr lastErr ss c =
     Some \<lparr>d_client = c,
           d_err = Some (case lastErr of None \<Rightarrow> Err ''all dial attempts failed'' | Some e \<Rightarrow> e),
           d_stream = None, d_closed = ss\<rparr>"
| "fallback_loop (Suc left) attempt nts host port thr lastErr ss c =
     (let c1 = (if attempt > 0
                then c\<lparr>cl_mgr := Some (rotated_manager (cl_preferred c) attempt), chosenProto := ''''\<rparr>
                else c)
      in case DialTCP c1 (nts attempt) host port of
           None \<Rightarrow> None
         | Some d \<Rightarrow>
             (case d_err d of
                Some e \<Rightarrow>
                  fallback_loop left (Suc attempt) nts host port thr (Some e) (ss @ d_closed d) (d_client d)
              | None \<Rightarrow>
                  let lat = fst (Stats (d_client d))
                  in if thr \<le> 0 \<or> lat \<le> thr then Some (after ss d)
                     else fallback_loop left (Suc attempt) nts host port thr
                            (Some (latency_error lat thr)) (ss @ closed_all d) (d_client d)))"

definition DialTCPWithFallback ::
  "ProxyClient \<Rightarrow> (nat \<Rightarrow> net) \<Rightarrow> string \<Rightarrow> int \<Rightarrow> duration \<Rightarrow> dial option"
where
  "DialTCPWithFallback c nts host port thr =
     (if cl_preferred c = [] then DialTCP c (nts 0) host port
      else fallback_loop (length (cl_preferred c)) 0 nts host port thr None [] c)"

text \<open>The first environment is that of the first dial, the others are those of the fallback.\<close>

definition DialTCPWithAutoQuality ::
  "ProxyClient \<Rightarrow> (nat \<Rightarrow> net) \<Rightarrow> string \<Rightarrow> int \<Rightarrow> dial option"
where
  "DialTCPWithAutoQuality c nts host port =
     (let latThr = qualityLatencyThreshold c; maxErr = maxErrorsBeforeFallback c
      in if latThr \<le> 0 \<and> maxErr \<le> 0 then DialTCP c (nts 0) host port
         else if maxErr > 0 \<and> int (errorCount c) \<ge> maxErr
           then DialTCPWithFallback c nts host port latThr
         else case DialTCP c (nts 0) host port of
           None \<Rightarrow> None
         | Some d \<Rightarrow>
             (case d_err d of
                Some _ \<Rightarrow>
                  map_option (after (d_closed d))
                    (DialTCPWithFallback (d_client d) (\<lambda>i. nts (Suc i)) host port latThr)
              | None \<Rightarrow>
                  if latThr > 0 \<and> fst (Stats (d_client d)) > latThr
                  then map_option (after (closed_all d))
                         (DialTCPWithFallback (d_client d) (\<lambda>i. nts (Suc i)) host port latThr)
                  else Some d))"

text \<open>\<open>ResolveName\<close>: whether a name system is set, and the result of its \<open>Resolve\<close>.\<close>

definition ResolveName :: "bool \<Rightarrow> err + string list \<Rightarrow> err + string list" where
  "ResolveName has_ns resolved =
     (if \<not> has_ns then Inl (Err ''client: name system not set, cannot resolve name'') else resolved)"

text \<open>\<open>DialByName\<close>: the result of resolving the name, and of parsing the first address.\<close>

definition DialByName ::
  "bool \<Rightarrow> err + string list \<Rightarrow> (string \<Rightarrow> err + ProxyClient) \<Rightarrow> net \<Rightarrow> string \<Rightarrow> string \<Rightarrow> int \<Rightarrow>
     err + dial option"
where
  "DialByName has_ns resolved parse nt name host port =
     (case ResolveName has_ns resolved of
        Inl e \<Rightarrow> Inl (wrap_err (''resolve name '' @ go_quote name) e)
      | Inr [] \<Rightarrow> Inl (Err (''resolve name '' @ go_quote name @ '': no addresses''))
      | Inr (a # _) \<Rightarrow>
          (case parse a of
             Inl e \<Rightarrow> Inl (wrap_err ''proxy client for resolved node'' e)
           | Inr pc \<Rightarrow> Inr (DialTCP pc nt host port)))"

section \<open>The UDP tunnel\<close>

definition tunnel_write :: "'s writer \<Rightarrow> 's writer" where
  "tunnel_write wr s p0 =
     (if p0 = [] then (0, None, s)
      else
        let p = take 0xFFFF p0
        in case wr s (put_u16 (length p)) of
             (_, Some e, s1) \<Rightarrow> (0, Some e, s1)
           | (_, None, s1) \<Rightarrow>
               (case wr s1 p of
                  (_, Some e, s2) \<Rightarrow> (0, Some e, s2)
                | (_, None, s2) \<Rightarrow> (length p, None, s2)))"

definition tunnel_read :: "'s reader \<Rightarrow> 's reader" where
  "tunnel_read rd s n =
     (case read_full rd s 2 of
        None \<Rightarrow> None
      | Some (_, Some e, s1) \<Rightarrow> Some ([], Some e, s1)
      | Some (lenBuf, None, s1) \<Rightarrow>
          let m = be_get lenBuf
          in if m \<le> 0 then Some ([], None, s1)
             else case read_full rd s1 m of
               None \<Rightarrow> None
             | Some (_, Some e, s2) \<Rightarrow> Some ([], Some e, s2)
             | Some (buf, None, s2) \<Rightarrow>
                 if n < m then Some (take n buf, Some ErrShortBuffer, s2) else Some (buf, None, s2))"


section \<open>Accounting\<close>

text \<open>The number of proxy streams a dial opens in the environment \<open>nt\<close>.\<close>

definition opened :: "AddrInfo \<Rightarrow> net \<Rightarrow> nat" where
  "opened p nt = (case n_connect nt p of Some _ \<Rightarrow> 0 | None \<Rightarrow> (case n_stream nt of Inl _ \<Rightarrow> 0 | Inr _ \<Rightarrow> 1))"

definition held :: "dial \<Rightarrow> nat" where
  "held d = (case d_stream d of None \<Rightarrow> 0 | Some _ \<Rightarrow> 1)"

definition accounted :: "ProxyClient \<Rightarrow> net \<Rightarrow> dial \<Rightarrow> bool" where
  "accounted c nt d \<longleftrightarrow>
     length (d_closed d) + held d = opened (dial_target c) nt \<and> cl_preferred (d_client d) = cl_preferred c \<and>
     dial_target (d_client d) = dial_target c \<and>
     (case d_err d of
        Some e \<Rightarrow> d_stream d = None \<and> errorCount (d_client d) = errorCount c + 1 \<and>
          lastDialLatency (d_client d) = lastDialLatency c
      | None \<Rightarrow> d_stream d \<noteq> None \<and> errorCount (d_client d) = errorCount c \<and>
          lastDialLatency (d_client d) = n_latency nt)"

definition dial_counted :: "ProxyClient \<Rightarrow> net \<Rightarrow> dial option \<Rightarrow> bool" where
  "dial_counted c nt r = (case r of None \<Rightarrow> True | Some d \<Rightarrow> accounted c nt d)"

text \<open>What a dial keeps of the client before it counts.\<close>

definition same_count :: "ProxyClient \<Rightarrow> ProxyClient \<Rightarrow> bool" where
  "same_count c c' \<longleftrightarrow> errorCount c' = errorCount c \<and> lastDialLatency c' = lastDialLatency c \<and>
     cl_preferred c' = cl_preferred c \<and> dial_target c' = dial_target c"

lemma dial_target_updates [simp]:
  "dial_target (c\<lparr>errorCount := n\<rparr>) = dial_target c" "dial_target (c\<lparr>lastDialLatency := d\<rparr>) = dial_target c"
  "dial_target (c\<lparr>chosenProto := p, chosenTransport := t\<rparr>) = dial_target c"
  "dial_target (c\<lparr>cl_mgr := m, chosenProto := p\<rparr>) = dial_target c" "dial_target (c\<lparr>cl_useUTLS := b\<rparr>) = dial_target c"
  by (simp_all add: dial_target_def split: option.split)

lemma same_count_negotiated: "same_count c (negotiated c nt)"
  by (auto simp: same_count_def negotiated_def split: option.split sum.split)

lemma counted_ok: "same_count c c' \<Longrightarrow> opened (dial_target c) nt = 1 \<Longrightarrow> dial_counted c nt (Some (dial_ok c' nt s))"
  by (simp add: dial_counted_def accounted_def dial_ok_def same_count_def held_def)

lemma counted_fail:
  "same_count c c' \<Longrightarrow> length ss = opened (dial_target c) nt \<Longrightarrow> dial_counted c nt (Some (dial_fail c' e ss))"
  by (simp add: dial_counted_def accounted_def dial_fail_def same_count_def held_def)

lemma counted_step:
  "same_count c c' \<Longrightarrow> opened (dial_target c) nt = 1 \<Longrightarrow> (\<And>x s. dial_counted c nt (k x s)) \<Longrightarrow>
     dial_counted c nt (run_step c' st k)"
  by (auto simp: run_step_def counted_fail split: option.split sum.split)
    (simp add: dial_counted_def)

lemma counted_open:
  assumes "\<And>c' s. same_count c c' \<Longrightarrow> opened (dial_target c) nt = 1 \<Longrightarrow> dial_counted c nt (k c' s)"
  shows "dial_counted c nt (open_stream c neg nt k)"
proof -
  have same: "same_count c c" by (simp add: same_count_def)
  show ?thesis
    using assms [OF same] assms [OF same_count_negotiated]
      counted_fail [OF same, of "[]"] counted_fail [OF same_count_negotiated, of "[]"]
    by (simp add: open_stream_def Let_def opened_def split: option.split sum.split)
qed

lemma DialTCP_counted: "dial_counted c nt (DialTCP c nt host port)"
  unfolding DialTCP_def by (intro counted_open counted_step counted_ok)

lemma DialTCPDirect_counted: "dial_counted c nt (DialTCPDirect c nt host port)"
  unfolding DialTCPDirect_def by (intro counted_open counted_step counted_ok)

lemma DialUDP_counted: "dial_counted c nt (DialUDP c nt host port)"
  unfolding DialUDP_def by (intro counted_open counted_step counted_ok)

text \<open>
  The dials count. A dial that fails returns no connection, has closed the stream it opened if
  it opened one, and adds exactly one error; a dial that succeeds returns the stream it opened, adds
  no error and records the time it took. The three dials agree on this, on every path.
\<close>

theorem dials_accounted:
  "dial_counted c nt (DialTCP c nt host port) \<and> dial_counted c nt (DialTCPDirect c nt host port) \<and>
   dial_counted c nt (DialUDP c nt host port)"
  by (simp add: DialTCP_counted DialTCPDirect_counted DialUDP_counted)

text \<open>The fallback loop.\<close>

definition opened_in :: "AddrInfo \<Rightarrow> (nat \<Rightarrow> net) \<Rightarrow> nat \<Rightarrow> nat \<Rightarrow> nat" where
  "opened_in p nts i j = (\<Sum>k = i..<j. opened p (nts k))"

lemma opened_in_step: "i < j \<Longrightarrow> opened_in p nts i j = opened p (nts i) + opened_in p nts (Suc i) j"
  by (simp add: opened_in_def sum.atLeast_Suc_lessThan)

definition fallback_ok :: "ProxyClient \<Rightarrow> (nat \<Rightarrow> net) \<Rightarrow> duration \<Rightarrow> nat \<Rightarrow> nat \<Rightarrow> nat \<Rightarrow> dial \<Rightarrow> bool" where
  "fallback_ok c nts thr i j n d \<longleftrightarrow>
     length (d_closed d) + held d = n + opened_in (dial_target c) nts i j \<and>
     errorCount (d_client d) \<le> errorCount c + (j - i) \<and>
     (d_stream d = None \<longleftrightarrow> d_err d \<noteq> None) \<and>
     (d_err d = None \<longrightarrow> thr \<le> 0 \<or> lastDialLatency (d_client d) \<le> thr)"

lemma fallback_loop_ok:
  "fallback_loop left i nts host port thr lastErr ss c = Some d \<Longrightarrow>
     \<exists>j. i \<le> j \<and> j \<le> i + left \<and> fallback_ok c nts thr i j (length ss) d"
proof (induction left arbitrary: i lastErr ss c)
  case 0
  then show ?case
    by (intro exI [of _ i]) (auto simp: fallback_ok_def opened_in_def held_def split: option.split)
next
  case (Suc left)
  define c1 where "c1 = (if i > 0
    then c\<lparr>cl_mgr := Some (rotated_manager (cl_preferred c) i), chosenProto := ''''\<rparr> else c)"
  have e1: "errorCount c1 = errorCount c" "dial_target c1 = dial_target c" by (simp_all add: c1_def)
  from Suc.prems obtain d1 where d1: "DialTCP c1 (nts i) host port = Some d1"
    by (auto simp: c1_def Let_def split: option.splits)
  with DialTCP_counted [of c1 "nts i" host port] have acc: "accounted c1 (nts i) d1"
    by (simp add: dial_counted_def)
  from acc e1 have tgt: "dial_target (d_client d1) = dial_target c" by (simp add: accounted_def)
  have next_ok: "?case" if n: "fallback_loop left (Suc i) nts host port thr le ss' (d_client d1) = Some d"
    and l: "length ss' = length ss + opened (dial_target c) (nts i)" and "errorCount (d_client d1) \<le> errorCount c + 1" for le ss'
  proof -
    from Suc.IH [OF n] obtain j where j: "Suc i \<le> j" "j \<le> Suc i + left"
      "fallback_ok (d_client d1) nts thr (Suc i) j (length ss') d" by blast
    with that l tgt opened_in_step [of i j "dial_target c" nts] show ?thesis
      by (intro exI [of _ j]) (auto simp: fallback_ok_def)
  qed
  show ?case
  proof (cases "d_err d1")
    case (Some e)
    with acc e1 have "length (ss @ d_closed d1) = length ss + opened (dial_target c) (nts i)"
      "errorCount (d_client d1) \<le> errorCount c + 1" by (auto simp: accounted_def held_def)
    moreover from Suc.prems d1 Some
    have "fallback_loop left (Suc i) nts host port thr (Some e) (ss @ d_closed d1) (d_client d1) = Some d"
      by (simp add: c1_def Let_def)
    ultimately show ?thesis by (rule next_ok [rotated])
  next
    case None
    with acc e1 obtain s where s: "d_stream d1 = Some s" "length (d_closed d1) + 1 = opened (dial_target c) (nts i)"
      "errorCount (d_client d1) = errorCount c" by (auto simp: accounted_def held_def)
    show ?thesis
    proof (cases "thr \<le> 0 \<or> lastDialLatency (d_client d1) \<le> thr")
      case True
      with Suc.prems d1 None have "d = after ss d1" by (simp add: c1_def Let_def Stats_def)
      with s True None show ?thesis
        by (intro exI [of _ "Suc i"]) (auto simp: fallback_ok_def after_def held_def opened_in_def)
    next
      case False
      with Suc.prems d1 None
      have "fallback_loop left (Suc i) nts host port thr
          (Some (latency_error (lastDialLatency (d_client d1)) thr)) (ss @ closed_all d1) (d_client d1) = Some d"
        by (simp add: c1_def Let_def Stats_def)
      moreover from s have "length (ss @ closed_all d1) = length ss + opened (dial_target c) (nts i)"
        by (simp add: closed_all_def)
      moreover from s have "errorCount (d_client d1) \<le> errorCount c + 1" by simp
      ultimately show ?thesis by (rule next_ok)
    qed
  qed
qed

text \<open>
  A fallback dial is bounded and leaks nothing. It makes at most one attempt per preferred
  protocol; every stream those attempts opened was closed, except the one it returns; it adds at
  most one error per attempt; and a connection it returns was set up within the threshold, if there
  is one.
\<close>

theorem fallback_bounded:
  assumes "DialTCPWithFallback c nts host port thr = Some d"
  shows "\<exists>j \<le> max 1 (length (cl_preferred c)).
    length (d_closed d) + held d = opened_in (dial_target c) nts 0 j \<and>
    errorCount (d_client d) \<le> errorCount c + j \<and>
    (d_stream d = None \<longleftrightarrow> d_err d \<noteq> None) \<and>
    (d_err d = None \<and> cl_preferred c \<noteq> [] \<and> thr > 0 \<longrightarrow> lastDialLatency (d_client d) \<le> thr)"
proof (cases "cl_preferred c = []")
  case True
  with assms DialTCP_counted [of c "nts 0" host port] have "accounted c (nts 0) d"
    by (simp add: DialTCPWithFallback_def dial_counted_def)
  with True show ?thesis
    by (intro exI [of _ 1]) (auto simp: accounted_def opened_in_def split: option.splits)
next
  case False
  with assms have "fallback_loop (length (cl_preferred c)) 0 nts host port thr None [] c = Some d"
    by (simp add: DialTCPWithFallback_def)
  from fallback_loop_ok [OF this] obtain j where
    "j \<le> length (cl_preferred c)" "fallback_ok c nts thr 0 j 0 d" by auto
  then show ?thesis by (intro exI [of _ j]) (auto simp: fallback_ok_def)
qed

section \<open>Further attempts\<close>

lemma protocols_register_all:
  "fst ` set (protocols (register_all ns m)) = fst ` set (protocols m) \<union> (set ns - {''''})"
proof (induction ns arbitrary: m)
  case Nil
  then show ?case by (simp add: register_all_def)
next
  case (Cons n ns)
  have "fst ` set (protocols (Register (Some (n, ())) m)) = fst ` set (protocols m) \<union> ({n} - {''''})"
    by (auto simp: Register_def keys_alist_put)
  with Cons [of "Register (Some (n, ())) m"] show ?case by (auto simp: register_all_def)
qed

lemma reach_register_all: "mgr_reach prefs m \<Longrightarrow> mgr_reach prefs (register_all ns m)"
proof (induction ns arbitrary: m)
  case Nil
  then show ?case by (simp add: register_all_def)
next
  case (Cons n ns)
  from Cons.IH [OF reach_step [OF Cons.prems step_register]] show ?case by (simp add: register_all_def)
qed

lemma rotated_supported:
  "set (SupportedNames (rotated_manager pref k)) =
     {''vless'', ''trojan'', ''shadowsocks'', ''hysteria2'', ''plain''}"
proof -
  have "mgr_reach (drop k pref @ take k pref) (rotated_manager pref k)"
    unfolding rotated_manager_def by (intro reach_register_all reach_new)
  then have "mgr_wf (rotated_manager pref k)" by (simp add: mgr_reach_wf)
  then have "set (SupportedNames (rotated_manager pref k)) = fst ` set (protocols (rotated_manager pref k))"
    by (rule set_SupportedNames)
  also have "\<dots> = {''vless'', ''trojan'', ''shadowsocks'', ''hysteria2'', ''plain''}"
    by (auto simp: rotated_manager_def protocols_register_all NewManager_def)
  finally show ?thesis .
qed

text \<open>A node only chooses what was offered.\<close>

lemma node_choice_offered:
  "ClientNegotiate h (Some m) e (node_peer nm) = Inr (p, t) \<Longrightarrow> p \<in> set (SupportedNames m)"
  by (auto simp: ClientNegotiate_def node_peer_def HandleStream_def Let_def ChooseCommon_first
      client_offer_def first_in_Some split: if_splits option.splits sum.splits)

text \<open>
  A further attempt never uses vmess: the managers of the attempts after the first register
  five of the six adapters, so that a node that negotiates can only choose one of those five, and
  when the negotiation fails no protocol is used at all, although vmess is in the preferences.
\<close>

theorem fallback_never_vmess:
  "chosenProto (negotiated (c\<lparr>cl_mgr := Some (rotated_manager pref k), chosenProto := ''''\<rparr>)
       (nt\<lparr>n_peer := node_peer ms\<rparr>))
     \<in> {'''', ''vless'', ''trojan'', ''shadowsocks'', ''hysteria2'', ''plain''} \<and>
   ''vmess'' \<in> set all_protocols"
proof -
  let ?m = "rotated_manager pref k"
  show ?thesis
  proof (cases "ClientNegotiate True (Some ?m) (n_neg_open nt) (node_peer ms)")
    case (Inl e)
    then show ?thesis by (simp add: negotiated_def all_protocols_def)
  next
    case (Inr pt)
    obtain p t where pt: "pt = (p, t)" by fastforce
    from node_choice_offered [OF Inr [unfolded pt]] rotated_supported [of pref k]
    have "p \<in> {''vless'', ''trojan'', ''shadowsocks'', ''hysteria2'', ''plain''}" by simp
    with Inr pt show ?thesis by (simp add: negotiated_def all_protocols_def del: insert_iff) blast
  qed
qed

section \<open>The answer to a request\<close>

text \<open>A network stream as a session: it keeps the contract of a live stream.\<close>

definition net_live :: "sess \<Rightarrow> bool" where
  "net_live s \<longleftrightarrow> (\<exists>w. s = Net w \<and> wire_live w)"

definition sess_content :: "sess \<Rightarrow> bytes" where
  "sess_content s = wire_content (sess_wire s)"

lemma sess_read_Net: "sess_read a (Net w) n = net_read w n"
  by (simp add: sess_read_def)

interpretation netsess: live_stream "sess_read a" sess_content net_live "\<lambda>s. wire_work (sess_wire s)" for a
proof unfold_locales
  fix s :: sess and n :: nat
  assume h: "net_live s" "0 < n" "sess_content s \<noteq> []"
  then obtain w where w: "s = Net w" "wire_live w" by (auto simp: net_live_def)
  with net.read_content [of w n] h obtain bs w' where
    "wire_read w n = Some (bs, None, w')" "wire_content w = bs @ wire_content w'" "length bs \<le> n"
    "wire_live w'" "wire_work w' < wire_work w" by (auto simp: sess_content_def)
  with w show "\<exists>bs s'. sess_read a s n = Some (bs, None, s') \<and> sess_content s = bs @ sess_content s' \<and>
      length bs \<le> n \<and> net_live s' \<and> wire_work (sess_wire s') < wire_work (sess_wire s)"
    by (auto simp: sess_read_Net net_read_def sess_content_def net_live_def)
next
  fix s :: sess and n bs e s'
  assume "net_live s" "0 < n" "sess_content s \<noteq> []" "sess_read a s n = Some (bs, e, s')"
  then show "bs \<noteq> []"
    by (auto simp: net_live_def sess_read_Net net_read_def sess_content_def dest: net.read_nonempty)
qed

definition same_net :: "sess \<Rightarrow> sess \<Rightarrow> bool" where
  "same_net s s' \<longleftrightarrow> (\<forall>w. s = Net w \<longrightarrow> (\<exists>w'. s' = Net w' \<and> same_sent w w'))"

lemma same_net_order: "reflp same_net" "transp same_net"
  by (auto simp: same_net_def same_sent_def reflp_def transp_def)

lemma sess_read_same: "sess_read a s n = Some (bs, e, s') \<Longrightarrow> same_net s s'"
  by (auto simp: same_net_def sess_read_Net net_read_def same_sent_def dest!: wire_read_frame)

lemma read_line_net:
  assumes "wire_live w" "wire_content w = l @ newline # rest" "newline \<notin> set l"
  shows "\<exists>b w'. read_line (sess_read a) (new_bufrd (Net w)) =
      Some (l @ nl, None, \<lparr>b_src = Net w', b_buf = b, b_err = None\<rparr>) \<and>
    b @ wire_content w' = rest \<and> same_sent w w'"
proof -
  from netsess.read_line_content [of "Net w" l rest a] assms obtain b' where b':
    "read_line (sess_read a) (new_bufrd (Net w)) = Some (l @ [newline], None, b')"
    "b_buf b' @ sess_content (b_src b') = rest" "netsess.buf_ok b'"
    by (auto simp: net_live_def sess_content_def)
  have "same_net (b_src (new_bufrd (Net w))) (b_src b')"
    by (rule read_string_rel [OF sess_read_same same_net_order b'(1) [unfolded read_line_def]])
  then obtain w' where w': "b_src b' = Net w'" "same_sent w w'" by (auto simp: same_net_def new_bufrd_def)
  from b' w' show ?thesis
    by (intro exI [of _ "b_buf b'"] exI [of _ w'])
      (auto simp: nl_def sess_content_def netsess.buf_ok_def)
qed

lemma write_net: "wire_up w \<Longrightarrow> write_string (sess_rwc a) (Net w) bs = (None, Net (w\<lparr>tx := tx w @ bs\<rparr>))"
  by (simp add: write_string_def sess_rwc_def sess_write_def wire_write_def wire_up_def)

text \<open>A dial without obfuscation whose protocol, if any was agreed, has no handshake of its own.\<close>

definition bare_dial :: "ProxyClient \<Rightarrow> net \<Rightarrow> wire \<Rightarrow> bool" where
  "bare_dial c nt w \<longleftrightarrow>
     n_connect nt (dial_target c) = None \<and> n_stream nt = Inr w \<and> PMax (cl_obfs c) \<le> 0 \<and> WDMax (cl_obfs c) \<le> 0 \<and>
     chosenProto (negotiated c nt) \<notin> {''vless'', ''vmess'', ''shadowsocks'', ''hysteria2''}"

lemma bare_steps:
  assumes "PMax (cl_obfs c) \<le> 0" "WDMax (cl_obfs c) \<le> 0"
  shows "obfs_step nt (cl_obfs c) s = Some (Inr (None, s))" "own_obfs nt (cl_obfs c) None s = s"
  using assms by (simp_all add: obfs_step_def own_obfs_def wrap_pad_def wrap_delay_def)

lemma negotiated_obfs: "cl_obfs (negotiated c nt) = cl_obfs c"
  by (auto simp: negotiated_def split: option.split sum.split)

lemma bare_DialTCP:
  assumes "bare_dial c nt w" "wire_up w"
  shows "DialTCP c nt host port =
    run_step (negotiated c nt) (read_response nt (Net (w\<lparr>tx := tx w @ request_line ''TCP'' host port\<rparr>)))
      (\<lambda>_ s. Some (dial_ok (negotiated c nt) nt s))"
  using assms negotiated_obfs [of c nt] bare_steps [of "negotiated c nt" nt]
  by (simp add: DialTCP_def open_stream_def bare_dial_def run_step_def handshake_step_def Let_def
      send_request_def write_net)

lemma read_response_net:
  assumes "wire_live w" "wire_content w = l @ newline # rest" "newline \<notin> set l"
  shows "\<exists>b w'. b @ wire_content w' = rest \<and> same_sent w w' \<and>
    read_response nt (Net w) =
      (if has_prefix (l @ nl) ''ERR ''
         then Some (Inl (Err (''proxy error: '' @ trim_space (trim_prefix (l @ nl) ''ERR '')), Net w'))
       else if has_prefix (l @ nl) ''OK'' then Some (Inr ((), Net w'))
       else Some (Inr ((), Multi (l @ nl) b None (Net w'))))"
proof -
  from read_line_net [OF assms, of "e_gcm (n_env nt)"] obtain b w' where
    r: "read_line (s_read (io_of nt)) (new_bufrd (Net w)) =
      Some (l @ nl, None, \<lparr>b_src = Net w', b_buf = b, b_err = None\<rparr>)"
    and w': "b @ wire_content w' = rest" "same_sent w w'" by (auto simp: sess_rwc_def)
  have "l @ nl \<noteq> []" by (simp add: nl_def)
  with r show ?thesis
    by (intro exI [of _ b] exI [of _ w']) (simp add: read_response_def w')
qed

lemma bare_dial_answer:
  assumes d: "bare_dial c nt w" and w: "wire_live w" "wire_up w"
    and l: "wire_content w = l @ newline # rest" "newline \<notin> set l"
  shows "\<exists>d b w'. DialTCP c nt host port = Some d \<and> b @ wire_content w' = rest \<and>
    tx w' = tx w @ request_line ''TCP'' host port \<and> \<not> closed w' \<and>
    (if has_prefix (l @ nl) ''ERR ''
     then d_err d = Some (Err (''proxy error: '' @ trim_space (trim_prefix (l @ nl) ''ERR ''))) \<and>
       d_stream d = None \<and> d_closed d = [Net (wire_close w')]
     else d_err d = None \<and> d_closed d = [] \<and>
       d_stream d = Some (if has_prefix (l @ nl) ''OK'' then Net w' else Multi (l @ nl) b None (Net w')))"
proof -
  let ?w = "w\<lparr>tx := tx w @ request_line ''TCP'' host port\<rparr>"
  have "wire_live ?w" "wire_content ?w = l @ newline # rest"
    using w l(1) by (simp_all add: wire_live_def wire_content_def)
  from read_response_net [OF this l(2), of nt] obtain b w' where
    r: "b @ wire_content w' = rest" "same_sent ?w w'"
    "read_response nt (Net ?w) =
      (if has_prefix (l @ nl) ''ERR ''
         then Some (Inl (Err (''proxy error: '' @ trim_space (trim_prefix (l @ nl) ''ERR '')), Net w'))
       else if has_prefix (l @ nl) ''OK'' then Some (Inr ((), Net w'))
       else Some (Inr ((), Multi (l @ nl) b None (Net w'))))" by blast
  have "\<not> closed w'" "tx w' = tx w @ request_line ''TCP'' host port"
    using r(2) w(1) by (simp_all add: same_sent_def wire_live_def)
  with r(1) show ?thesis
    unfolding bare_DialTCP [OF d w(2)] r(3)
    by (intro exI [of _ "if has_prefix (l @ nl) ''ERR ''
          then dial_fail (negotiated c nt) (Err (''proxy error: '' @ trim_space (trim_prefix (l @ nl) ''ERR ''))) [Net w']
          else dial_ok (negotiated c nt) nt
            (if has_prefix (l @ nl) ''OK'' then Net w' else Multi (l @ nl) b None (Net w'))"]
        exI [of _ b] exI [of _ w'])
      (simp add: run_step_def dial_fail_def dial_ok_def)
qed

text \<open>
  A dial sends its request and obeys the answer, however the network cuts the answer up. After
  an \<open>ERR\<close> line it fails with the node's message and has closed the stream; after an \<open>OK\<close> line it
  returns the stream behind it; any other first line is kept and is the first thing the caller
  reads. In the last case nothing is lost; after \<open>OK\<close> what came along with the line (\<open>b\<close>) is.
\<close>

theorem dial_answer:
  assumes "bare_dial c nt w" "wire_live w" "wire_up w"
    and "wire_content w = l @ newline # rest" "newline \<notin> set l"
  shows "\<exists>d b w'. DialTCP c nt host port = Some d \<and> b @ wire_content w' = rest \<and>
    tx w' = tx w @ request_line ''TCP'' host port \<and> \<not> closed w' \<and>
    (if has_prefix (l @ nl) ''ERR ''
     then d_err d = Some (Err (''proxy error: '' @ trim_space (trim_prefix (l @ nl) ''ERR ''))) \<and>
       d_stream d = None \<and> d_closed d = [Net (wire_close w')]
     else d_err d = None \<and> d_closed d = [] \<and>
       d_stream d = Some (if has_prefix (l @ nl) ''OK'' then Net w' else Multi (l @ nl) b None (Net w')))"
  by (rule bare_dial_answer [OF assms])

definition wit_peer :: AddrInfo where
  "wit_peer = \<lparr>ai_id = ''peer'', ai_addrs = [''/ip4/1.2.3.4/tcp/1'']\<rparr>"

definition wit_client :: ProxyClient where
  "wit_client =
     \<lparr>cl_peer = ''peer'', addrInfo = Some wit_peer, cl_mgr = None, cl_preferred = [''plain''], chosenProto = '''',
      chosenTransport = '''', cl_token = ''secret'', lastDialLatency = 0, errorCount = 0,
      qualityLatencyThreshold = 0, maxErrorsBeforeFallback = 0,
      cl_obfs = \<lparr>PMin = 0, PMax = 0, WDMin = 0, WDMax = 0\<rparr>, cl_useUTLS = False\<rparr>"

definition wit_net :: "wire \<Rightarrow> net" where
  "wit_net w =
     \<lparr>n_connect = (\<lambda>_. None), n_neg_open = None, n_peer = (\<lambda>_. Inl EOF), n_stream = Inr w,
      n_latency = 7, n_env = wit_env []\<rparr>"

lemma wit_bare: "bare_dial wit_client (wit_net w) w"
  by (simp add: bare_dial_def wit_client_def wit_net_def negotiated_def)

lemma dial_answer_witness:
  "\<exists>d w'. DialTCP wit_client (wit_net (wire_of [''ERR no '', ''route'' @ nl @ ''x''] None)) ''a.b'' 1 = Some d \<and>
     d_err d = Some (Err ''proxy error: no route'') \<and> d_closed d = [Net (wire_close w')]"
proof -
  let ?w = "wire_of [''ERR no '', ''route'' @ nl @ ''x''] None"
  have "wire_live ?w" "wire_up ?w" "wire_content ?w = ''ERR no route'' @ newline # ''x''"
    by (simp_all add: wire_of_def wire_live_def wire_up_def wire_content_def nl_def)
  moreover have "trim_space (''no route'' @ nl) = ''no route''" by code_simp
  ultimately show ?thesis
    using dial_answer [OF wit_bare, of ?w "''ERR no route''" "''x''" "''a.b''" 1]
    by (auto simp: has_prefix_def trim_prefix_def nl_def)
qed

lemma read_line_segment:
  assumes "rx w = (l @ newline # r) # segs" "newline \<notin> set l" "length (l @ newline # r) \<le> bufio_size" "\<not> closed w"
  shows "read_line (sess_read a) (new_bufrd (Net w)) =
    Some (l @ nl, None, \<lparr>b_src = Net (w\<lparr>rx := segs\<rparr>), b_buf = r, b_err = None\<rparr>)"
proof -
  let ?b = "\<lparr>b_src = Net (w\<lparr>rx := segs\<rparr>), b_buf = l @ newline # r, b_err = None\<rparr>"
  have "bufio_fill 100 (sess_read a) (new_bufrd (Net w)) = Some ?b"
    using assms by (simp add: bufio_fill_numeral new_bufrd_def sess_read_Net net_read_def wire_read_def bufio_size_def)
  then have "read_line (sess_read a) (new_bufrd (Net w)) = read_line (sess_read a) ?b"
    unfolding read_line_def by (subst read_string.simps) (simp add: new_bufrd_def bufio_size_def)
  also have "\<dots> = Some (l @ nl, None, ?b\<lparr>b_buf := r\<rparr>)"
    by (rule buffered_line) (simp_all add: assms(2))
  finally show ?thesis by simp
qed

lemma bare_dial_segment:
  assumes "bare_dial c nt w" "wire_up w" "rx w = (''OK'' @ nl @ r) # segs" "length (''OK'' @ nl @ r) \<le> bufio_size"
  shows "DialTCP c nt host port =
    Some (dial_ok (negotiated c nt) nt (Net (w\<lparr>tx := tx w @ request_line ''TCP'' host port, rx := segs\<rparr>)))"
proof -
  let ?w = "w\<lparr>tx := tx w @ request_line ''TCP'' host port\<rparr>"
  have "rx ?w = (''OK'' @ newline # r) # segs" "newline \<notin> set ''OK''"
    "length (''OK'' @ newline # r) \<le> bufio_size" "\<not> closed ?w"
    using assms by (auto simp: nl_def wire_up_def)
  from read_line_segment [OF this, of "e_gcm (n_env nt)"]
  have "read_response nt (Net ?w) = Some (Inr ((), Net (?w\<lparr>rx := segs\<rparr>)))"
    by (simp add: read_response_def sess_rwc_def has_prefix_def nl_def)
  then show ?thesis by (simp add: bare_DialTCP [OF assms(1,2)] run_step_def)
qed

text \<open>
  Bytes that arrive together with the \<open>OK\<close> line are lost: the connection the caller gets
  continues with the next segment, for every \<open>data\<close> that fits into the reader's buffer.
\<close>

theorem early_data_lost:
  assumes "bare_dial c nt w" "wire_up w" "rx w = (''OK'' @ nl @ data) # segs"
    "length (''OK'' @ nl @ data) \<le> bufio_size"
  shows "\<exists>d w'. DialTCP c nt host port = Some d \<and> d_err d = None \<and> d_stream d = Some (Net w') \<and>
    wire_content w' = concat segs \<and> \<not> closed w'"
  using assms(2) by (simp add: bare_dial_segment [OF assms] dial_ok_def wire_content_def wire_up_def)

lemma early_data_lost_witness:
  "\<exists>d w'. DialTCP wit_client (wit_net (wire_of [''OK'' @ nl @ ''220 ready''] None)) ''a.b'' 1 = Some d \<and>
     d_stream d = Some (Net w') \<and> wire_content w' = []"
  using early_data_lost [OF wit_bare, of "wire_of [''OK'' @ nl @ ''220 ready''] None" "''220 ready''" "[]" "''a.b''" 1]
  by (auto simp: wire_of_def wire_up_def nl_def bufio_size_def)

section \<open>Client and node\<close>

text \<open>
  C2: a tunnel works end to end. The client dials and the node serves the stream; the network cuts
  the client's bytes into the request and further segments, and delivers the node's \<open>OK\<close> line on
  its own. Then the client's connection delivers exactly what the target sends, the target receives
  exactly what the client sends behind its request, and the request the node serves is the one the
  client sent.
\<close>

theorem tunnel_end_to_end:
  assumes h: "host_ok host" "0 < port" "port \<le> 65535"
    and w: "rx w = request_line ''TCP'' host port # segs" "length (request_line ''TCP'' host port) \<le> bufio_size"
      "ends_well w" "tx w = []"
    and srv: "PMax (srv_obfs srv) \<le> 0" "WDMax (srv_obfs srv) \<le> 0"
    and t: "e_dial_tcp ev host port = Inr t" "ends_well t" "tx t = []"
    and s: "1 + length segs + length (concat segs) \<le> turns True (e_sched ev)"
      "1 + length (rx t) + length (concat (rx t)) \<le> turns False (e_sched ev)"
    and node: "handleProxyStream ev srv pid region w = Some oc"
    and client: "bare_dial c nt cw" "wire_up cw" "tx cw = []"
      "concat (rx cw) = tx (oc_stream oc)" "rx cw = (''OK'' @ nl) # rest"
  shows "\<exists>d w' t'. DialTCP c nt host port = Some d \<and> d_stream d = Some (Net w') \<and>
    wire_content w' = concat (rx t) \<and> tx w' = hd (rx w) \<and>
    oc_target oc = Some t' \<and> tx t' = concat segs"
proof -
  from plain_session [of "''TCP''", OF _ h w(1-3) srv t(1,2) s, of pid region] node w(4) t(3) obtain t' where
    n: "oc_target oc = Some t'" "tx t' = concat segs" "tx (oc_stream oc) = ''OK'' @ nl @ concat (rx t)" by auto
  have r: "rx cw = (''OK'' @ nl @ []) # rest" using client(5) by simp
  have "length (''OK'' @ nl @ []) \<le> bufio_size" by (simp add: nl_def bufio_size_def)
  from bare_dial_segment [OF client(1,2) r this, of host port] client(3-5) n w(1)
  show ?thesis by (simp add: dial_ok_def wire_content_def)
qed

lemma wit_run:
  "\<exists>oc. handleProxyStream (wit_env (replicate 7 True @ replicate 9 False)) wit_server_state ''peer1'' ''de''
       (wire_of [request_line ''TCP'' ''example.com'' 80, ''GET /''] (Some EOF)) = Some oc \<and>
     tx (oc_stream oc) = ''OK'' @ nl @ ''200 OK''"
proof -
  let ?w = "wire_of [request_line ''TCP'' ''example.com'' 80, ''GET /''] (Some EOF)"
  have h: "host_ok ''example.com''" by (simp add: host_ok_def plain_byte_def)
  have i: "itoa 80 = ''80''" by code_simp
  show ?thesis
    using plain_session [of "''TCP''" "''example.com''" 80 ?w "[''GET /'']" wit_server_state
        "wit_env (replicate 7 True @ replicate 9 False)" wit_target "''peer1''" "''de''"] h
    by (auto simp: wire_of_def ends_well_def wit_env_def wit_server_state_def RememberChosenProtocol_def
        SetVLESSAuthToken_def NewServer_def wit_target_def turns_def request_line_def nl_def i bufio_size_def)
qed

lemma tunnel_end_to_end_witness:
  "\<exists>d w' oc t'. DialTCP wit_client (wit_net (wire_of [''OK'' @ nl, ''200 OK''] None)) ''example.com'' 80 = Some d \<and>
     d_stream d = Some (Net w') \<and> wire_content w' = ''200 OK'' \<and>
     handleProxyStream (wit_env (replicate 7 True @ replicate 9 False)) wit_server_state ''peer1'' ''de''
       (wire_of [request_line ''TCP'' ''example.com'' 80, ''GET /''] (Some EOF)) = Some oc \<and>
     oc_target oc = Some t' \<and> tx t' = ''GET /''"
proof -
  let ?w = "wire_of [request_line ''TCP'' ''example.com'' 80, ''GET /''] (Some EOF)"
  let ?ev = "wit_env (replicate 7 True @ replicate 9 False)"
  from wit_run obtain oc where
    oc: "handleProxyStream ?ev wit_server_state ''peer1'' ''de'' ?w = Some oc"
      "tx (oc_stream oc) = ''OK'' @ nl @ ''200 OK''" by blast
  have h: "host_ok ''example.com''" by (simp add: host_ok_def plain_byte_def)
  have i: "itoa 80 = ''80''" by code_simp
  show ?thesis
    using tunnel_end_to_end [of "''example.com''" 80 ?w "[''GET /'']" wit_server_state ?ev wit_target
        "''peer1''" "''de''" oc, OF h _ _ _ _ _ _ _ _ _ _ _ _ _ oc(1) wit_bare,
        of "wire_of [''OK'' @ nl, ''200 OK''] None" "[''200 OK'']"] oc
    by (auto simp: wire_of_def ends_well_def wit_env_def wit_server_state_def RememberChosenProtocol_def
        SetVLESSAuthToken_def NewServer_def wit_target_def turns_def request_line_def nl_def i bufio_size_def
        wire_up_def)
qed

section \<open>The UDP tunnel\<close>

context byte_stream
begin

lemma tunnel_read_frame:
  assumes "ok s" "content s = udp_frame d @ rest" "d \<noteq> []" "length d \<le> 0xFFFF"
  shows "\<exists>s'. tunnel_read rd s n =
      Some (if n < length d then (take n d, Some ErrShortBuffer, s') else (d, None, s')) \<and>
    content s' = rest \<and> ok s'"
proof -
  have c: "content s = put_u16 (length d) @ (d @ rest)" using assms(2) by (simp add: udp_frame_def)
  from read_full_append [OF assms(1) c] obtain s1 where
    s1: "read_full rd s 2 = Some (put_u16 (length d), None, s1)" "content s1 = d @ rest" "ok s1" by auto
  from read_full_append [OF s1(3,2)] obtain s2 where
    s2: "read_full rd s1 (length d) = Some (d, None, s2)" "content s2 = rest" "ok s2" by blast
  have "be_get (put_u16 (length d)) = length d" using assms(4) by simp
  with s1 s2 assms(3) show ?thesis
    by (intro exI [of _ s2]) (simp add: tunnel_read_def Let_def)
qed

end

context byte_sink
begin

lemma tunnel_write_frame:
  assumes "up s" "length d \<le> 0xFFFF"
  shows "\<exists>s'. tunnel_write wr s d = (length d, None, s') \<and> up s' \<and>
    sent s' = sent s @ concat (map udp_frame (filter (\<lambda>d. d \<noteq> []) [d]))"
proof (cases "d = []")
  case True
  with assms show ?thesis by (simp add: tunnel_write_def)
next
  case False
  from write_sent [OF assms(1)] obtain s1 where
    s1: "wr s (put_u16 (length d)) = (2, None, s1)" "sent s1 = sent s @ put_u16 (length d)" "up s1"
    by (metis length_be_put)
  from write_sent [OF s1(3)] obtain s2 where
    s2: "wr s1 d = (length d, None, s2)" "sent s2 = sent s1 @ d" "up s2" by blast
  from False s1 s2 assms(2) show ?thesis by (simp add: tunnel_write_def udp_frame_def Let_def)
qed

lemma tunnel_send_all:
  "up s \<Longrightarrow> \<forall>d\<in>set ds. length d \<le> 0xFFFF \<Longrightarrow> \<exists>s'.
     send_all (tunnel_write wr) s ds = (map (\<lambda>d. (length d, None)) ds, s') \<and> up s' \<and>
     sent s' = sent s @ concat (map udp_frame (filter (\<lambda>d. d \<noteq> []) ds))"
proof (induction ds arbitrary: s)
  case Nil
  then show ?case by simp
next
  case (Cons d ds)
  then obtain s1 where s1: "tunnel_write wr s d = (length d, None, s1)" "up s1"
    "sent s1 = sent s @ concat (map udp_frame (filter (\<lambda>d. d \<noteq> []) [d]))"
    using tunnel_write_frame [of s d] by auto
  with Cons.IH [OF s1(2)] Cons.prems(2) show ?case by auto
qed

end

text \<open>A sequence of reads with buffers of the given sizes.\<close>

fun recv_all :: "'s reader \<Rightarrow> 's \<Rightarrow> nat list \<Rightarrow> ((bytes \<times> err option) list \<times> 's) option" where
  "recv_all rd s [] = Some ([], s)"
| "recv_all rd s (n # ns) =
     (case rd s n of
        None \<Rightarrow> None
      | Some (bs, e, s1) \<Rightarrow>
          (case recv_all rd s1 ns of None \<Rightarrow> None | Some (rs, s2) \<Rightarrow> Some ((bs, e) # rs, s2)))"

definition datagram_result :: "bytes \<Rightarrow> nat \<Rightarrow> bytes \<times> err option" where
  "datagram_result d n = (if n < length d then (take n d, Some ErrShortBuffer) else (d, None))"

context byte_stream
begin

lemma tunnel_recv_all:
  "ok s \<Longrightarrow> content s = concat (map udp_frame ds) @ rest \<Longrightarrow>
     \<forall>d\<in>set ds. d \<noteq> [] \<and> length d \<le> 0xFFFF \<Longrightarrow> length ns = length ds \<Longrightarrow>
     \<exists>s'. recv_all (tunnel_read rd) s ns = Some (map2 datagram_result ds ns, s') \<and> content s' = rest \<and> ok s'"
proof (induction ds arbitrary: s ns)
  case Nil
  then show ?case by simp
next
  case (Cons d ds)
  then obtain n ns' where ns: "ns = n # ns'" by (cases ns) auto
  have "content s = udp_frame d @ (concat (map udp_frame ds) @ rest)" using Cons.prems(2) by simp
  from tunnel_read_frame [OF Cons.prems(1) this, of n] Cons.prems(3) obtain s1 where
    s1: "tunnel_read rd s n =
        Some (if n < length d then (take n d, Some ErrShortBuffer, s1) else (d, None, s1))"
      "content s1 = concat (map udp_frame ds) @ rest" "ok s1" by auto
  with Cons.IH [OF s1(3,2), of ns'] Cons.prems(3,4) ns show ?case
    by (auto simp: datagram_result_def)
qed

end

text \<open>
  Datagrams cross the tunnel whole, in both directions. Every datagram of at most 65535 bytes
  the client writes is accepted; however the network cuts the bytes, the node's relay sends exactly
  the non-empty ones, in order, to the socket. In return, the client's reads deliver one datagram
  each, in order: the whole datagram if the buffer is large enough, otherwise its beginning with
  the error for a short buffer, and the next read starts with the next datagram.
\<close>

theorem udp_tunnel_roundtrip:
  assumes ds: "\<forall>d\<in>set ds. length d \<le> 0xFFFF" and w: "wire_up w" "tx w = []"
    and up: "send_all (tunnel_write wire_write) w ds = (rs, w')"
    and r: "concat (rx r) = tx w'" "wire_ending r"
    and u: "u_room u = None" "\<not> u_closed u" "u_sent u = []"
    and es: "\<forall>d\<in>set es. d \<noteq> [] \<and> length d \<le> 0xFFFF" "length ns = length es"
    and b: "concat (rx v) = concat (map udp_frame es)" "\<not> closed v"
  shows "rs = map (\<lambda>d. (length d, None)) ds \<and>
    (\<exists>r' u'. udp_up wire_read r u = Some (r', u') \<and> u_sent u' = filter (\<lambda>d. d \<noteq> []) ds) \<and>
    (\<exists>b'. recv_all (tunnel_read (bufio_read wire_read)) (new_bufrd v) ns = Some (map2 datagram_result es ns, b'))"
proof (intro conjI)
  let ?fs = "filter (\<lambda>d. d \<noteq> []) ds"
  from wiresink.tunnel_send_all [OF w(1) ds] up w(2)
  have s: "rs = map (\<lambda>d. (length d, None)) ds" "tx w' = concat (map udp_frame ?fs)" by auto
  then show "rs = map (\<lambda>d. (length d, None)) ds" by simp
  have c: "wire_content r = concat (map udp_frame ?fs) @ []" using r(1) s(2) by (simp add: wire_content_def)
  have fs: "\<forall>d\<in>set ?fs. length d \<le> 0xFFFF" using ds by auto
  from endwire.udp_up_frames [OF r(2) c fs u(1,2)] u(3) obtain s' u' where
    s': "wire_ending s'" "wire_content s' = []" "udp_up wire_read r u = udp_up wire_read s' u'"
    "u_sent u' = ?fs" by auto
  from wire_ending_read_full [OF s'(1,2), of 2] obtain e' s2 where
    "read_full wire_read s' 2 = Some ([], Some e', s2)" by auto
  then have "udp_up wire_read s' u' = Some (s2, u')" by (subst udp_up.simps) simp
  with s'(3,4) show "\<exists>r' u'. udp_up wire_read r u = Some (r', u') \<and> u_sent u' = ?fs" by simp
  have "wirestream.buf_ok (new_bufrd v)" "wirestream.buf_content (new_bufrd v) = concat (map udp_frame es) @ []"
    using b by (simp_all add: wirestream.buf_ok_def wirestream.buf_content_def new_bufrd_def wire_ok_def wire_content_def)
  from bufwire.tunnel_recv_all [OF this es]
  show "\<exists>b'. recv_all (tunnel_read (bufio_read wire_read)) (new_bufrd v) ns = Some (map2 datagram_result es ns, b')"
    by blast
qed

lemma udp_tunnel_roundtrip_witness:
  "\<exists>rs w' r' u' b'. send_all (tunnel_write wire_write) (wire_of [] None) [''ping'', '''', ''q''] = (rs, w') \<and>
     udp_up wire_read (wire_of [tx w'] (Some EOF)) (wit_udp []) = Some (r', u') \<and> u_sent u' = [''ping'', ''q''] \<and>
     recv_all (tunnel_read (bufio_read wire_read)) (new_bufrd (wire_of [udp_frame ''pong'', udp_frame ''abc''] None)) [9, 2]
       = Some ([(''pong'', None), (''ab'', Some ErrShortBuffer)], b')"
proof -
  obtain rs w' where w: "send_all (tunnel_write wire_write) (wire_of [] None) [''ping'', '''', ''q''] = (rs, w')"
    by fastforce
  have p: "wire_up (wire_of [] None)" "tx (wire_of [] None) = []" "wire_ending (wire_of [tx w'] (Some EOF))"
    by (simp_all add: wire_up_def wire_of_def wire_ending_def)
  from udp_tunnel_roundtrip [OF _ p(1,2) w _ p(3), of "wit_udp []" "[''pong'', ''abc'']" "[9, 2]"
      "wire_of [udp_frame ''pong'', udp_frame ''abc''] None"] w
  show ?thesis by (simp add: wire_of_def wit_udp_def datagram_result_def)
qed

lemma wit_fallback:
  "\<exists>d. DialTCPWithFallback wit_client (\<lambda>_. wit_net (wire_of [''OK'' @ nl] None)) ''a.b'' 1 5 = Some d"
proof -
  let ?w = "wire_of [''OK'' @ nl] None"
  have "wire_up ?w" "rx ?w = (''OK'' @ nl @ []) # []" "length (''OK'' @ nl @ []) \<le> bufio_size"
    by (simp_all add: wire_up_def wire_of_def nl_def bufio_size_def)
  from bare_dial_segment [OF wit_bare this, of "''a.b''" 1] show ?thesis
    by (simp add: DialTCPWithFallback_def wit_client_def dial_ok_def Let_def)
qed

lemma fallback_bounded_witness:
  "\<exists>d j. DialTCPWithFallback wit_client (\<lambda>_. wit_net (wire_of [''OK'' @ nl] None)) ''a.b'' 1 5 = Some d \<and>
     j \<le> 1 \<and> length (d_closed d) + held d = opened_in (dial_target wit_client) (\<lambda>_. wit_net (wire_of [''OK'' @ nl] None)) 0 j"
proof -
  from wit_fallback obtain d where
    d: "DialTCPWithFallback wit_client (\<lambda>_. wit_net (wire_of [''OK'' @ nl] None)) ''a.b'' 1 5 = Some d" by blast
  from fallback_bounded [OF d] d show ?thesis by (auto simp: wit_client_def)
qed

end
