(* ===== verification/Dns.thy ===== *)
theory Dns
  imports GoDuration GoStrings
begin

text \<open>
  \<open>hypernet/services/dns\<close> (and its copy \<open>pkg/dns\<close>): signed name records in the DHT. The record
  and its signature (\<open>record.go\<close>), the validator the DHT runs (\<open>dht_validator.go\<close>) and the
  operations of the name system with its cache (\<open>namesystem.go\<close>).

  Times are nanoseconds since 1970. The DHT, the signature scheme, peer identities and multiaddrs
  belong to libp2p and are parameters, as is the JSON encoding; base64 is defined here.
\<close>

section \<open>Base64\<close>

definition b64_alphabet :: bytes where
  "b64_alphabet = ''ABCDEFGHIJKLMNOPQRSTUVWXYZabcdefghijklmnopqrstuvwxyz0123456789+/''"

definition b64_char :: "nat \<Rightarrow> byte" where
  "b64_char i = b64_alphabet ! i"

fun index_of :: "'a \<Rightarrow> 'a list \<Rightarrow> nat option" where
  "index_of x [] = None"
| "index_of x (y # ys) = (if x = y then Some 0 else map_option Suc (index_of x ys))"

definition b64_val :: "byte \<Rightarrow> nat option" where
  "b64_val c = index_of c b64_alphabet"

abbreviation pad :: byte where
  "pad \<equiv> CHR ''=''"

text \<open>\<open>base64.StdEncoding.EncodeToString\<close>.\<close>

fun b64_encode :: "bytes \<Rightarrow> bytes" where
  "b64_encode [] = []"
| "b64_encode [a] =
     (let n = of_char a * 16 in [b64_char (n div 64), b64_char (n mod 64), pad, pad])"
| "b64_encode [a, b] =
     (let n = (of_char a * 256 + of_char b) * 4
      in [b64_char (n div 4096), b64_char (n div 64 mod 64), b64_char (n mod 64), pad])"
| "b64_encode (a # b # c # s) =
     (let n = (of_char a * 256 + of_char b) * 256 + of_char c
      in b64_char (n div 262144) # b64_char (n div 4096 mod 64) # b64_char (n div 64 mod 64) #
         b64_char (n mod 64) # b64_encode s)"

text \<open>
  \<open>DecodeString\<close>: line ends are skipped; the bits a padded last group has too many are not looked at.
\<close>

fun b64_groups :: "bytes \<Rightarrow> bytes option" where
  "b64_groups [] = Some []"
| "b64_groups (p # q # r # t # s) =
     (case (b64_val p, b64_val q) of
        (Some i, Some j) \<Rightarrow>
          (case b64_val r of
             None \<Rightarrow>
               if r = pad \<and> t = pad \<and> s = [] then Some [char_of ((i * 64 + j) div 16)] else None
           | Some k \<Rightarrow>
               (case b64_val t of
                  None \<Rightarrow>
                    if t = pad \<and> s = []
                    then (let n = ((i * 64 + j) * 64 + k) div 4 in Some [char_of (n div 256), char_of n])
                    else None
                | Some l \<Rightarrow>
                    (let n = ((i * 64 + j) * 64 + k) * 64 + l
                     in map_option (\<lambda>bs. char_of (n div 65536) # char_of (n div 256) # char_of n # bs)
                          (b64_groups s))))
      | _ \<Rightarrow> None)"
| "b64_groups _ = None"

definition b64_decode :: "bytes \<Rightarrow> bytes option" where
  "b64_decode s = b64_groups (filter (\<lambda>c. c \<noteq> newline \<and> c \<noteq> CHR 0x0D) s)"

lemma b64_val_char: "i < 64 \<Longrightarrow> b64_val (b64_char i) = Some i"
proof -
  have "list_all (\<lambda>i. b64_val (b64_char i) = Some i) [0..<64]" by code_simp
  then show "i < 64 \<Longrightarrow> b64_val (b64_char i) = Some i" by (simp add: list_all_iff)
qed

lemma b64_val_pad: "b64_val pad = None"
  by code_simp

lemma b64_char_plain: "i < 64 \<Longrightarrow> b64_char i \<noteq> newline \<and> b64_char i \<noteq> CHR 0x0D"
proof -
  have "list_all (\<lambda>i. b64_char i \<noteq> newline \<and> b64_char i \<noteq> CHR 0x0D) [0..<64]" by code_simp
  then show "i < 64 \<Longrightarrow> b64_char i \<noteq> newline \<and> b64_char i \<noteq> CHR 0x0D" by (simp add: list_all_iff)
qed

lemma split64:
  fixes n :: nat
  shows "((n div 262144 * 64 + n div 4096 mod 64) * 64 + n div 64 mod 64) * 64 + n mod 64 = n"
proof -
  have "n div 262144 = n div 64 div 64 div 64" "n div 4096 = n div 64 div 64"
    by (simp_all add: div_mult2_eq [symmetric])
  then show ?thesis by (simp add: div_mult_mod_eq)
qed

lemma join256:
  fixes a b c :: nat
  assumes "a < 256" "b < 256" "c < 256"
  shows "((a * 256 + b) * 256 + c) div 65536 = a" "((a * 256 + b) * 256 + c) div 256 = a * 256 + b"
    "(a * 256 + b) * 256 + c < 16777216"
proof -
  show q: "((a * 256 + b) * 256 + c) div 256 = a * 256 + b" using assms by simp
  have "((a * 256 + b) * 256 + c) div 65536 = ((a * 256 + b) * 256 + c) div 256 div 256"
    by (simp add: div_mult2_eq [symmetric])
  also have "\<dots> = a" using assms by (simp add: q)
  finally show "((a * 256 + b) * 256 + c) div 65536 = a" .
  define m where "m = a * 256 + b"
  have "m \<le> 65535" using assms by (simp add: m_def)
  with assms(3) have "m * 256 + c < 16777216" by linarith
  then show "(a * 256 + b) * 256 + c < 16777216" by (simp add: m_def)
qed

lemma char_of_pair: "char_of ((m :: nat) * 256 + of_char b) = b"
proof -
  have "char_of ((m * 256 + of_char b) mod 256) = b" by (simp add: mod_simps)
  then show ?thesis by (simp only: char_of_mod_256)
qed

lemma pair_less: "of_char a * 256 + of_char b < (65536 :: nat)"
  using join256(3) [of "of_char a" "of_char b" 0] of_char_less_256 [of a] of_char_less_256 [of b] by linarith

lemma lt64: "(n :: nat) < 64 * k \<Longrightarrow> n div k < 64"
  by (simp add: less_mult_imp_div_less)

lemma b64_groups_encode: "b64_groups (b64_encode s) = Some s"
proof (induction s rule: b64_encode.induct)
  case 1
  then show ?case by simp
next
  case (2 a)
  define n where "n = (of_char a * 16 :: nat)"
  have "n < 64 * 64" "n div 16 = of_char a" using of_char_less_256 [of a] by (simp_all add: n_def)
  moreover from this lt64 [of n 64] have "n div 64 < 64" by simp
  moreover have "n div 64 * 64 + n mod 64 = n" by (rule div_mult_mod_eq)
  ultimately show ?case by (simp add: n_def [symmetric] b64_val_char b64_val_pad Let_def)
next
  case (3 a b)
  define m where "m = (of_char a * 256 + of_char b :: nat)"
  define n where "n = m * 4"
  have "m < 65536" by (simp only: m_def pair_less)
  then have "n < 64 * 4096" "n div 4 = m" "n < 262144" by (simp_all add: n_def)
  moreover from this lt64 [of n 4096] have "n div 4096 < 64" by simp
  moreover from split64 [of n] \<open>n < 262144\<close>
  have "(n div 4096 mod 64 * 64 + n div 64 mod 64) * 64 + n mod 64 = n" by simp
  moreover have "m div 256 = of_char a" "char_of m = b"
    using of_char_less_256 [of b] char_of_pair by (simp_all add: m_def)
  ultimately show ?case
    by (simp add: n_def [symmetric] m_def [symmetric] b64_val_char b64_val_pad Let_def)
next
  case (4 a b c s)
  define n where "n = ((of_char a * 256 + of_char b) * 256 + of_char c :: nat)"
  note j = join256 [OF of_char_less_256 [of a] of_char_less_256 [of b] of_char_less_256 [of c]]
  have "n < 64 * 262144" "n div 65536 = of_char a" "n div 256 = of_char a * 256 + of_char b"
    using j by (simp_all add: n_def)
  moreover have "char_of n = c" by (simp only: n_def char_of_pair)
  moreover have "n div 262144 < 64" by (rule lt64) (use j(3) in \<open>simp add: n_def\<close>)
  moreover have "b64_encode (a # b # c # s) = b64_char (n div 262144) # b64_char (n div 4096 mod 64) #
      b64_char (n div 64 mod 64) # b64_char (n mod 64) # b64_encode s"
    by (simp only: n_def b64_encode.simps Let_def)
  ultimately show ?case
    using split64 [of n] char_of_pair [of "of_char a" b] 4 by (simp add: b64_val_char Let_def del: b64_encode.simps)
qed

lemma b64_encode_plain: "c \<in> set (b64_encode s) \<Longrightarrow> c \<noteq> newline \<and> c \<noteq> CHR 0x0D"
proof (induction s rule: b64_encode.induct)
  case 1
  then show ?case by simp
next
  case (2 a)
  have "of_char a * 16 div 64 < (64 :: nat)" "of_char a * 16 mod 64 < (64 :: nat)"
    using of_char_less_256 [of a] lt64 [of "of_char a * 16" 64] by simp_all
  with 2 b64_char_plain show ?case by (auto simp only: Let_def b64_encode.simps set_simps insert_iff)
next
  case (3 a b)
  define n where "n = ((of_char a * 256 + of_char b) * 4 :: nat)"
  have "n div 4096 < 64" using lt64 [of n 4096] pair_less [of a b] by (simp add: n_def)
  moreover have "n div 64 mod 64 < 64" "n mod 64 < 64" by simp_all
  ultimately show ?case using 3 b64_char_plain
    by (auto simp only: Let_def n_def b64_encode.simps set_simps insert_iff)
next
  case (4 a b d s)
  define n where "n = ((of_char a * 256 + of_char b) * 256 + of_char d :: nat)"
  have "n div 262144 < 64"
    by (rule lt64)
      (use join256(3) [OF of_char_less_256 [of a] of_char_less_256 [of b] of_char_less_256 [of d]] in
        \<open>simp add: n_def\<close>)
  moreover have "n div 4096 mod 64 < 64" "n div 64 mod 64 < 64" "n mod 64 < 64" by simp_all
  ultimately show ?case using 4 b64_char_plain
    by (auto simp only: Let_def n_def b64_encode.simps set_simps insert_iff)
qed

lemma b64_roundtrip: "b64_decode (b64_encode s) = Some s"
proof -
  have "filter (\<lambda>c. c \<noteq> newline \<and> c \<noteq> CHR 0x0D) (b64_encode s) = b64_encode s"
    by (rule filter_True) (use b64_encode_plain in blast)
  then show ?thesis by (simp add: b64_decode_def b64_groups_encode)
qed

lemma b64_encode_Nil_iff [simp]: "b64_encode s = [] \<longleftrightarrow> s = []"
  by (cases s rule: b64_encode.cases) (simp_all add: Let_def)

section \<open>Records\<close>

record dns_rec =
  Name :: string
  Owner :: string
  Addrs :: "string list"
  TTL :: int
  Timestamp :: int
  Signature :: string

text \<open>
  What belongs to libraries: the JSON of the signed fields and of a record, signing and verifying,
  the form of peer identities and multiaddrs, and the public keys the DHT knows.
\<close>

record dns_lib =
  j_payload :: "string \<Rightarrow> string \<Rightarrow> string list \<Rightarrow> int \<Rightarrow> int \<Rightarrow> bytes"
  j_marshal :: "dns_rec \<Rightarrow> bytes"
  j_unmarshal :: "bytes \<Rightarrow> err + dns_rec"
  k_sign :: "bytes \<Rightarrow> bytes \<Rightarrow> err + bytes"
  k_verify :: "bytes \<Rightarrow> bytes \<Rightarrow> bytes \<Rightarrow> err + bool"
  p_decode :: "string \<Rightarrow> err + string"
  p_pubkey :: "string \<Rightarrow> err + bytes option"
  m_parse :: "string \<Rightarrow> err + string"

definition signablePayload :: "dns_lib \<Rightarrow> dns_rec \<Rightarrow> bytes" where
  "signablePayload l r = j_payload l (Name r) (Owner r) (Addrs r) (TTL r) (Timestamp r)"

definition Sign :: "dns_lib \<Rightarrow> bytes \<Rightarrow> dns_rec \<Rightarrow> err + dns_rec" where
  "Sign l priv r =
     (case k_sign l priv (signablePayload l r) of
        Inl e \<Rightarrow> Inl (wrap_err ''dns record sign'' e)
      | Inr sig \<Rightarrow> Inr (r\<lparr>Signature := b64_encode sig\<rparr>))"

text \<open>\<open>Verify\<close>: no error, or the error.\<close>

definition Verify :: "dns_lib \<Rightarrow> bytes \<Rightarrow> dns_rec \<Rightarrow> err option" where
  "Verify l pub r =
     (if Signature r = '''' then Some (Err ''dns record: missing signature'')
      else case b64_decode (Signature r) of
        None \<Rightarrow> Some (Err ''dns record: invalid signature encoding'')
      | Some sig \<Rightarrow>
          (case k_verify l pub (signablePayload l r) sig of
             Inl e \<Rightarrow> Some (wrap_err ''dns record verify'' e)
           | Inr ok \<Rightarrow> if ok then None else Some (Err ''dns record: signature verification failed'')))"

text \<open>The seconds of a time, \<open>Unix()\<close>.\<close>

definition unix :: "int \<Rightarrow> int" where
  "unix t = t div Second"

definition Expired :: "dns_rec \<Rightarrow> int \<Rightarrow> bool" where
  "Expired r now \<longleftrightarrow> TTL r \<le> 0 \<or> unix now > wrap64 (Timestamp r + TTL r)"

definition name_edge :: "byte \<Rightarrow> bool" where
  "name_edge c \<longleftrightarrow> 97 \<le> (of_char c :: nat) \<and> (of_char c :: nat) \<le> 122 \<or> is_digit c"

text \<open>The pattern \<open>^[a-z0-9][a-z0-9-]*[a-z0-9]$|^[a-z0-9]$\<close>.\<close>

definition name_matches :: "bytes \<Rightarrow> bool" where
  "name_matches s \<longleftrightarrow> s \<noteq> [] \<and> name_edge (hd s) \<and> name_edge (last s) \<and>
     list_all (\<lambda>c. name_edge c \<or> c = CHR ''-'') s"

definition NormalizeName :: "string \<Rightarrow> err + string" where
  "NormalizeName name =
     (let s = to_lower (trim_space name)
      in if s = '''' then Inl (Err ''dns: empty name'')
         else if \<not> name_matches s
           then Inl (Err (''dns: invalid name '' @ go_quote name @ '' (allowed: [a-z0-9-])''))
         else Inr s)"

definition NamespacePrefix :: string where
  "NamespacePrefix = ''/hypernet/name/''"

definition DHTKey :: "string \<Rightarrow> string" where
  "DHTKey name = NamespacePrefix @ name"

section \<open>The validator of the DHT\<close>

definition Validate :: "dns_lib \<Rightarrow> string \<Rightarrow> bytes \<Rightarrow> err option" where
  "Validate l key value =
     (if value = [] then Some (Err ''dns: empty record'')
      else case j_unmarshal l value of
        Inl e \<Rightarrow> Some (wrap_err ''dns: invalid record json'' e)
      | Inr r \<Rightarrow> if Signature r = '''' then Some (Err ''dns: record missing signature'') else None)"

text \<open>The loop of \<open>Select\<close>: the next index, and the best index with its timestamp.\<close>

fun select_loop :: "dns_lib \<Rightarrow> nat \<Rightarrow> (nat \<times> int) option \<Rightarrow> bytes list \<Rightarrow> (nat \<times> int) option" where
  "select_loop l i best [] = best"
| "select_loop l i best (v # vs) =
     (case j_unmarshal l v of
        Inl e \<Rightarrow> select_loop l (Suc i) best vs
      | Inr r \<Rightarrow>
          select_loop l (Suc i)
            (case best of
               None \<Rightarrow> Some (i, Timestamp r)
             | Some (b, ts) \<Rightarrow> if Timestamp r > ts then Some (i, Timestamp r) else Some (b, ts)) vs)"

definition Select :: "dns_lib \<Rightarrow> string \<Rightarrow> bytes list \<Rightarrow> err + nat" where
  "Select l key values =
     (if values = [] then Inl (Err ''dns: no values to select'')
      else case select_loop l 0 None values of
        None \<Rightarrow> Inl (Err ''dns: no valid record in set'')
      | Some (i, _) \<Rightarrow> Inr i)"

section \<open>The name system\<close>

record cache_entry =
  ce_addrs :: "string list"
  ce_expiry :: int

record NameSystem =
  ns_dht :: bool
  ns_host :: bool
  ns_cache :: "string \<Rightarrow> cache_entry option"

definition NewNameSystem :: "bool \<Rightarrow> bool \<Rightarrow> NameSystem" where
  "NewNameSystem has_dht has_host = \<lparr>ns_dht = has_dht, ns_host = has_host, ns_cache = (\<lambda>_. None)\<rparr>"

text \<open>
  What one operation meets: the DHT, the host's identity, private key and addresses, and the time.
  \<open>t_then\<close> is the clock at the last reading in the operation.
\<close>

record dns_env =
  d_get :: "string \<Rightarrow> err + bytes"
  d_search :: "string \<Rightarrow> err + bytes list"
  d_put :: "string \<Rightarrow> bytes \<Rightarrow> err option"
  h_id :: string
  h_key :: "bytes option"
  h_addrs :: "string list"
  t_now :: int
  t_then :: int

text \<open>
  The result of an operation that publishes: its error, and the record it has given to the DHT with
  its key, if it came that far.
\<close>

type_synonym published = "err option \<times> (string \<times> dns_rec) option"

definition sign_and_put :: "dns_lib \<Rightarrow> dns_env \<Rightarrow> (err \<Rightarrow> err) \<Rightarrow> string \<Rightarrow> dns_rec \<Rightarrow> published" where
  "sign_and_put l ev wrap norm r =
     (case h_key ev of
        None \<Rightarrow> (Some (Err ''dns: cannot get private key for signing''), None)
      | Some priv \<Rightarrow>
          (case Sign l priv r of
             Inl e \<Rightarrow> (Some e, None)
           | Inr r' \<Rightarrow>
               (map_option wrap (d_put ev (DHTKey norm) (j_marshal l r')), Some (DHTKey norm, r'))))"

text \<open>
  \<open>int64(ttl.Seconds())\<close>: whole seconds. (The code goes through a float64, which rounds a duration
  of more than 190 days up when it is less than two microseconds short of a full second.)
\<close>

definition ttl_seconds :: "duration \<Rightarrow> int" where
  "ttl_seconds ttl = ttl div Second"

definition Register :: "dns_lib \<Rightarrow> NameSystem \<Rightarrow> dns_env \<Rightarrow> string \<Rightarrow> string list \<Rightarrow> duration \<Rightarrow> published" where
  "Register l ns ev name addrs ttl =
     (if \<not> ns_dht ns \<or> \<not> ns_host ns then (Some (Err ''dns: name system not initialized''), None)
      else case NormalizeName name of
        Inl e \<Rightarrow> (Some e, None)
      | Inr norm \<Rightarrow>
          if ttl \<le> 0 then (Some (Err ''dns: ttl must be positive''), None)
          else if addrs = [] then (Some (Err ''dns: at least one address required''), None)
          else
            let taken = (case d_get ev (DHTKey norm) of
                  Inl _ \<Rightarrow> False
                | Inr existing \<Rightarrow>
                    existing \<noteq> [] \<and>
                    (case j_unmarshal l existing of
                       Inl _ \<Rightarrow> False
                     | Inr r \<Rightarrow> \<not> Expired r (t_then ev) \<and> Owner r \<noteq> h_id ev))
            in if taken
               then (Some (Err (''dns: name '' @ go_quote name @ '' already registered by another peer'')), None)
               else sign_and_put l ev (wrap_err ''dns put value'') norm
                 \<lparr>Name = norm, Owner = h_id ev, Addrs = addrs, TTL = ttl_seconds ttl,
                  Timestamp = unix (t_now ev), Signature = ''''\<rparr>)"

definition Unregister :: "dns_lib \<Rightarrow> NameSystem \<Rightarrow> dns_env \<Rightarrow> string \<Rightarrow> published" where
  "Unregister l ns ev name =
     (if \<not> ns_dht ns \<or> \<not> ns_host ns then (Some (Err ''dns: name system not initialized''), None)
      else case NormalizeName name of
        Inl e \<Rightarrow> (Some e, None)
      | Inr norm \<Rightarrow>
          let foreign = (case d_get ev (DHTKey norm) of
                Inl _ \<Rightarrow> False
              | Inr existing \<Rightarrow>
                  existing \<noteq> [] \<and>
                  (case j_unmarshal l existing of Inl _ \<Rightarrow> False | Inr r \<Rightarrow> Owner r \<noteq> h_id ev))
          in if foreign
             then (Some (Err (''dns: name '' @ go_quote name @ '' is owned by another peer'')), None)
             else sign_and_put l ev (\<lambda>e. e) norm
               \<lparr>Name = norm, Owner = h_id ev, Addrs = [], TTL = 0, Timestamp = unix (t_then ev),
                Signature = ''''\<rparr>)"

definition Refresh :: "dns_lib \<Rightarrow> NameSystem \<Rightarrow> dns_env \<Rightarrow> string \<Rightarrow> published" where
  "Refresh l ns ev name =
     (if \<not> ns_dht ns \<or> \<not> ns_host ns then (Some (Err ''dns: name system not initialized''), None)
      else case NormalizeName name of
        Inl e \<Rightarrow> (Some e, None)
      | Inr norm \<Rightarrow>
          (case d_get ev (DHTKey norm) of
             Inl e \<Rightarrow> (Some (wrap_err ''dns: get value for refresh'' e), None)
           | Inr data \<Rightarrow>
               if data = []
               then (Some (Err (''dns: no existing record for '' @ go_quote name @ '' to refresh'')), None)
               else case j_unmarshal l data of
                 Inl e \<Rightarrow> (Some (wrap_err ''dns refresh unmarshal'' e), None)
               | Inr r \<Rightarrow>
                   if Owner r \<noteq> h_id ev
                   then (Some (Err (''dns: name '' @ go_quote name @ '' is owned by another peer'')), None)
                   else if h_addrs ev = [] then (Some (Err ''dns: host has no addresses''), None)
                   else sign_and_put l ev (\<lambda>e. e) norm
                     (r\<lparr>Addrs := map (\<lambda>a. a @ ''/p2p/'' @ h_id ev) (h_addrs ev),
                        Timestamp := unix (t_then ev),
                        TTL := (if TTL r \<le> 0 then 86400 else TTL r)\<rparr>)))"

section \<open>Resolving\<close>

text \<open>A value of the channel that \<open>Resolve\<close> does not skip.\<close>

definition usable :: "dns_lib \<Rightarrow> int \<Rightarrow> bytes \<Rightarrow> dns_rec option" where
  "usable l now data =
     (if data = [] then None
      else case j_unmarshal l data of
        Inl _ \<Rightarrow> None
      | Inr r \<Rightarrow>
          if Expired r now then None
          else case p_decode l (Owner r) of
            Inl _ \<Rightarrow> None
          | Inr owner \<Rightarrow>
              (case p_pubkey l owner of
                 Inr (Some pub) \<Rightarrow> if Verify l pub r = None then Some r else None
               | _ \<Rightarrow> None))"

fun best_loop :: "dns_lib \<Rightarrow> int \<Rightarrow> dns_rec option \<Rightarrow> bytes list \<Rightarrow> dns_rec option" where
  "best_loop l now best [] = best"
| "best_loop l now best (d # ds) =
     best_loop l now
       (case usable l now d of
          None \<Rightarrow> best
        | Some r \<Rightarrow>
            (case best of None \<Rightarrow> Some r | Some b \<Rightarrow> if Timestamp r > Timestamp b then Some r else best)) ds"

fun parse_addrs :: "dns_lib \<Rightarrow> string list \<Rightarrow> string list" where
  "parse_addrs l [] = []"
| "parse_addrs l (s # ss) = (case m_parse l s of Inl _ \<Rightarrow> parse_addrs l ss | Inr a \<Rightarrow> a # parse_addrs l ss)"

definition cache_ttl :: "dns_rec \<Rightarrow> duration" where
  "cache_ttl r = (let d = wrap64 (TTL r * Second) in if d > Minute then wrap64 (d - Minute) else d)"

text \<open>The message is Russian for "name not found", in UTF-8.\<close>

definition msg_not_found :: string where
  "msg_not_found =
     ''dns: '' @ [CHR 0xD0, CHR 0xB8, CHR 0xD0, CHR 0xBC, CHR 0xD1, CHR 0x8F, CHR 0x20, CHR 0xD0, CHR 0xBD,
       CHR 0xD0, CHR 0xB5, CHR 0x20, CHR 0xD0, CHR 0xBD, CHR 0xD0, CHR 0xB0, CHR 0xD0, CHR 0xB9,
       CHR 0xD0, CHR 0xB4, CHR 0xD0, CHR 0xB5, CHR 0xD0, CHR 0xBD, CHR 0xD0, CHR 0xBE]"

text \<open>The search, for a name that is not cached.\<close>

definition resolve_dht ::
  "dns_lib \<Rightarrow> dns_env \<Rightarrow> string \<Rightarrow> string \<Rightarrow> NameSystem \<Rightarrow> (err + string list) \<times> NameSystem"
where
  "resolve_dht l ev name norm ns =
     (case d_search ev (DHTKey norm) of
        Inl e \<Rightarrow> (Inl (wrap_err ''dns search value'' e), ns)
      | Inr values \<Rightarrow>
          (case best_loop l (t_now ev) None values of
             None \<Rightarrow> (Inl (Err msg_not_found), ns)
           | Some best \<Rightarrow>
               let addrs = parse_addrs l (Addrs best)
               in if addrs = []
                  then (Inl (Err (''dns: no valid addresses in record for '' @ go_quote name)), ns)
                  else (Inr addrs,
                        ns\<lparr>ns_cache := (ns_cache ns)(norm \<mapsto>
                             \<lparr>ce_addrs = addrs, ce_expiry = t_then ev + cache_ttl best\<rparr>)\<rparr>)))"

definition Resolve :: "dns_lib \<Rightarrow> bool \<Rightarrow> dns_env \<Rightarrow> string \<Rightarrow> NameSystem \<Rightarrow> (err + string list) \<times> NameSystem" where
  "Resolve l bypass ev name ns =
     (if \<not> ns_dht ns then (Inl (Err ''dns: name system not initialized''), ns)
      else case NormalizeName name of
        Inl e \<Rightarrow> (Inl e, ns)
      | Inr norm \<Rightarrow>
          (case (if bypass then None else ns_cache ns norm) of
             Some c \<Rightarrow>
               if t_now ev < ce_expiry c then (Inr (ce_addrs c), ns) else resolve_dht l ev name norm ns
           | None \<Rightarrow> resolve_dht l ev name norm ns))"

section \<open>Names\<close>

lemma name_edge_plain: "name_edge c \<Longrightarrow> plain_byte c"
  by (auto simp: name_edge_def plain_byte_def is_digit_def)

lemma name_edge_lower: "name_edge c \<Longrightarrow> lower1 c = c"
  by (auto simp: name_edge_def lower1_def is_digit_def Let_def)

lemma name_bytes:
  assumes "name_matches s"
  shows "list_all plain_byte s" "\<forall>c\<in>set s. lower1 c = c \<and> c \<noteq> CHR 0xC4 \<and> c \<noteq> CHR 0xE2"
proof -
  have p: "plain_byte c \<Longrightarrow> c \<noteq> CHR 0xC4 \<and> c \<noteq> CHR 0xE2" for c by (auto simp: plain_byte_def)
  have d: "plain_byte (CHR ''-'')" "lower1 (CHR ''-'') = CHR ''-''"
    by (simp_all add: plain_byte_def lower1_def Let_def)
  have e: "name_edge c \<or> c = CHR ''-''" if "c \<in> set s" for c
    using assms that by (simp add: name_matches_def list_all_iff)
  have *: "plain_byte c \<and> lower1 c = c" if "c \<in> set s" for c
    using e [OF that] d name_edge_plain [of c] name_edge_lower [of c] by (elim disjE) simp_all
  then show "list_all plain_byte s" by (simp add: list_all_iff)
  show "\<forall>c\<in>set s. lower1 c = c \<and> c \<noteq> CHR 0xC4 \<and> c \<noteq> CHR 0xE2" using * p by simp
qed

lemma to_lower_id: "\<forall>c\<in>set s. lower1 c = c \<and> c \<noteq> CHR 0xC4 \<and> c \<noteq> CHR 0xE2 \<Longrightarrow> to_lower s = s"
  by (induction s rule: to_lower.induct) auto

lemma NormalizeName_fixed:
  assumes "name_matches s"
  shows "NormalizeName s = Inr s"
proof -
  note b = name_bytes [OF assms]
  have "s \<noteq> []" using assms by (simp add: name_matches_def)
  with solid_plain [OF b(1)] have "trim_space s = s" by (simp add: trim_space_solid)
  with to_lower_id [OF b(2)] assms \<open>s \<noteq> []\<close> show ?thesis by (simp add: NormalizeName_def)
qed

text \<open>
  A name has one normal form. What \<open>NormalizeName\<close> returns is a name of the permitted form, it
  is its own normal form, and white space around a name makes no difference, so that the key of a
  name in the DHT is unique.
\<close>

theorem normal_names:
  assumes "NormalizeName name = Inr s"
  shows "name_matches s \<and> NormalizeName s = Inr s \<and> NormalizeName ('' '' @ s @ nl) = Inr s"
proof -
  have m: "name_matches s" using assms by (auto simp: NormalizeName_def Let_def split: if_splits)
  moreover have "s \<noteq> []" using m by (simp add: name_matches_def)
  with solid_plain [OF name_bytes(1) [OF m]] have "trim_space ('' '' @ s @ nl) = s"
    using trim_space_solid(2) [of s] trim_left_plain [of "hd s" "tl s @ nl"]
    by (simp add: trim_space_def trim_left.simps [of "CHR '' '' # s @ nl"])
  with to_lower_id [OF name_bytes(2) [OF m]] m \<open>s \<noteq> []\<close>
  have "NormalizeName ('' '' @ s @ nl) = Inr s" by (simp add: NormalizeName_def)
  ultimately show ?thesis using NormalizeName_fixed by blast
qed

lemma normal_names_witness:
  "NormalizeName ''  My-Node1'' = Inr ''my-node1'' \<and> NormalizeName ''my-node1'' = Inr ''my-node1''"
proof -
  have "NormalizeName ''  My-Node1'' = Inr ''my-node1''" by code_simp
  with normal_names [OF this] show ?thesis by simp
qed

section \<open>The freshest record\<close>

definition usables :: "dns_lib \<Rightarrow> int \<Rightarrow> bytes list \<Rightarrow> dns_rec list" where
  "usables l now vs = List.map_filter (usable l now) vs"

lemma usables_simps [simp]:
  "usables l now [] = []"
  "usables l now (v # vs) =
     (case usable l now v of None \<Rightarrow> usables l now vs | Some r \<Rightarrow> r # usables l now vs)"
  "usables l now (vs @ ws) = usables l now vs @ usables l now ws"
  by (simp_all add: usables_def List.map_filter_def split: option.split)

lemma best_loop_None: "best_loop l now best vs = None \<longleftrightarrow> best = None \<and> usables l now vs = []"
  by (induction vs arbitrary: best) (auto split: option.split)

lemma best_loop_max:
  "best_loop l now best vs = Some b \<Longrightarrow>
     (best = Some b \<or> b \<in> set (usables l now vs)) \<and> (\<forall>x. best = Some x \<longrightarrow> Timestamp x \<le> Timestamp b) \<and>
     (\<forall>r\<in>set (usables l now vs). Timestamp r \<le> Timestamp b)"
proof (induction vs arbitrary: best)
  case Nil
  then show ?case by simp
next
  case (Cons v vs)
  show ?case
  proof (cases "usable l now v")
    case None
    with Cons show ?thesis by simp
  next
    case (Some r)
    define best' where "best' = (case best of None \<Rightarrow> Some r
      | Some b \<Rightarrow> if Timestamp r > Timestamp b then Some r else best)"
    from Cons.prems Some have "best_loop l now best' vs = Some b" by (simp add: best'_def)
    note IH = Cons.IH [OF this]
    show ?thesis
    proof (cases best)
      case None
      with IH Some show ?thesis by (auto simp: best'_def)
    next
      case old: (Some x)
      show ?thesis
      proof (cases "Timestamp r > Timestamp x")
        case True
        with IH Some old show ?thesis by (force simp: best'_def)
      next
        case False
        with IH Some old show ?thesis by (force simp: best'_def)
      qed
    qed
  qed
qed

lemma best_loop_newest:
  assumes "r \<in> set (usables l now vs)" "\<forall>x\<in>set (usables l now vs). x = r \<or> Timestamp x < Timestamp r"
  shows "best_loop l now None vs = Some r"
proof (cases "best_loop l now None vs")
  case None
  with assms(1) show ?thesis by (simp add: best_loop_None)
next
  case (Some b)
  from best_loop_max [OF Some] assms show ?thesis using Some by fastforce
qed

section \<open>Signatures\<close>

text \<open>
  What the operations rely on of the libraries: a signature made with a private key is not empty and
  verifies under the public key that belongs to it, and a record can be decoded from its JSON.
\<close>

definition dns_lib_ok :: "dns_lib \<Rightarrow> bytes \<Rightarrow> bytes \<Rightarrow> bool" where
  "dns_lib_ok l priv pub \<longleftrightarrow>
     (\<forall>p sig. k_sign l priv p = Inr sig \<longrightarrow> sig \<noteq> [] \<and> k_verify l pub p sig = Inr True)"

definition json_ok :: "dns_lib \<Rightarrow> dns_rec \<Rightarrow> bool" where
  "json_ok l r \<longleftrightarrow> j_unmarshal l (j_marshal l r) = Inr r \<and> j_marshal l r \<noteq> []"

lemma Sign_verifies:
  assumes "dns_lib_ok l priv pub" "Sign l priv r = Inr r'"
  shows "Verify l pub r' = None \<and> (\<exists>sig. r' = r\<lparr>Signature := sig\<rparr> \<and> sig \<noteq> '''')"
proof -
  from assms(2) obtain sig where s: "k_sign l priv (signablePayload l r) = Inr sig"
    "r' = r\<lparr>Signature := b64_encode sig\<rparr>" by (auto simp: Sign_def split: sum.splits)
  with assms(1) have "sig \<noteq> []" "k_verify l pub (signablePayload l r) sig = Inr True"
    by (auto simp: dns_lib_ok_def)
  with s show ?thesis
    by (intro conjI exI [of _ "b64_encode sig"]) (simp_all add: Verify_def b64_roundtrip signablePayload_def)
qed

lemma sign_and_put_ok:
  "sign_and_put l ev wrap norm r = (None, Some (k, r')) \<Longrightarrow>
     k = DHTKey norm \<and> (\<exists>priv. h_key ev = Some priv \<and> Sign l priv r = Inr r')"
  by (auto simp: sign_and_put_def split: option.splits sum.splits)

lemma Register_ok:
  assumes "Register l ns ev name addrs ttl = (None, Some (k, r))"
  shows "\<exists>norm priv r0. NormalizeName name = Inr norm \<and> k = DHTKey norm \<and> h_key ev = Some priv \<and>
    Sign l priv r0 = Inr r \<and> r0 = \<lparr>Name = norm, Owner = h_id ev, Addrs = addrs, TTL = ttl_seconds ttl,
      Timestamp = unix (t_now ev), Signature = ''''\<rparr> \<and> addrs \<noteq> [] \<and> 0 < ttl"
  using assms sign_and_put_ok by (fastforce simp: Register_def Let_def split: if_splits sum.splits)

lemma Unregister_ok:
  assumes "Unregister l ns ev name = (None, Some (k, r))"
  shows "TTL r = 0 \<and> Owner r = h_id ev"
  using assms Sign_def sign_and_put_ok
  by (fastforce simp: Unregister_def Let_def Sign_def split: if_splits sum.splits dest: sign_and_put_ok)

section \<open>Resolving\<close>

lemma usable_registered:
  assumes ok: "dns_lib_ok l priv pub" "json_ok l r" and s: "Sign l priv r0 = Inr r"
    and p: "p_decode l (Owner r) = Inr p" "p_pubkey l p = Inr (Some pub)" and e: "\<not> Expired r now"
  shows "usable l now (j_marshal l r) = Some r"
  using ok(2) Sign_verifies [OF ok(1) s] p e by (simp add: usable_def json_ok_def)

lemma expired_unusable: "j_unmarshal l d = Inr r \<Longrightarrow> TTL r \<le> 0 \<Longrightarrow> usable l now d = None"
  by (simp add: usable_def Expired_def)

lemma parse_addrs_all: "\<forall>a\<in>set as. m_parse l a = Inr a \<Longrightarrow> parse_addrs l as = as"
  by (induction as) auto

lemma resolve_dht_newest:
  assumes "d_search ev (DHTKey norm) = Inr values"
    and "r \<in> set (usables l (t_now ev) values)"
    and "\<forall>x\<in>set (usables l (t_now ev) values). x = r \<or> Timestamp x < Timestamp r"
    and "parse_addrs l (Addrs r) \<noteq> []"
  shows "resolve_dht l ev name norm ns =
    (Inr (parse_addrs l (Addrs r)),
     ns\<lparr>ns_cache := (ns_cache ns)(norm \<mapsto>
       \<lparr>ce_addrs = parse_addrs l (Addrs r), ce_expiry = t_then ev + cache_ttl r\<rparr>)\<rparr>)"
  using assms best_loop_newest [OF assms(2,3)] by (simp add: resolve_dht_def Let_def)

lemma Resolve_uncached:
  "ns_dht ns \<Longrightarrow> NormalizeName name = Inr norm \<Longrightarrow> ns_cache ns norm = None \<or> bypass \<Longrightarrow>
     Resolve l bypass ev name ns = resolve_dht l ev name norm ns"
  by (auto simp: Resolve_def)

text \<open>
  C13: an answer is the freshest authentic one. When a name that is not cached resolves, the answer
  is the addresses of one of the values the search returned, which decodes, has not expired, names
  an owner whose key the DHT knows and carries that key's signature over its fields; no other such
  value is newer. When there is none the name is not found, and an error leaves the cache alone.
\<close>

theorem resolve_freshest:
  assumes "ns_dht ns" "NormalizeName name = Inr norm" "ns_cache ns norm = None \<or> bypass"
    and "d_search ev (DHTKey norm) = Inr vals"
  shows "case Resolve l bypass ev name ns of
      (Inr addrs, ns') \<Rightarrow>
        (\<exists>v\<in>set vals. \<exists>r. usable l (t_now ev) v = Some r \<and> j_unmarshal l v = Inr r \<and>
           \<not> Expired r (t_now ev) \<and>
           (\<exists>p pub. p_decode l (Owner r) = Inr p \<and> p_pubkey l p = Inr (Some pub) \<and> Verify l pub r = None) \<and>
           (\<forall>w\<in>set vals. \<forall>r'. usable l (t_now ev) w = Some r' \<longrightarrow> Timestamp r' \<le> Timestamp r) \<and>
           addrs = parse_addrs l (Addrs r) \<and> addrs \<noteq> [])
    | (Inl e, ns') \<Rightarrow>
        ns' = ns \<and>
        ((\<forall>v\<in>set vals. usable l (t_now ev) v = None) \<and> e = Err msg_not_found \<or>
         (\<exists>v\<in>set vals. \<exists>r. usable l (t_now ev) v = Some r \<and> parse_addrs l (Addrs r) = []))"
proof -
  have us: "r \<in> set (usables l (t_now ev) vals) \<longleftrightarrow> (\<exists>v\<in>set vals. usable l (t_now ev) v = Some r)" for r
    by (induction vals) (auto split: option.splits)
  show ?thesis
  proof (cases "best_loop l (t_now ev) None vals")
    case None
    then have "usables l (t_now ev) vals = []" by (simp add: best_loop_None)
    with us have "\<forall>v\<in>set vals. usable l (t_now ev) v = None" by (metis empty_iff empty_set not_None_eq)
    with None assms show ?thesis by (simp add: Resolve_uncached resolve_dht_def)
  next
    case (Some r)
    from best_loop_max [OF Some] us obtain v where v: "v \<in> set vals" "usable l (t_now ev) v = Some r"
      "\<forall>w\<in>set vals. \<forall>r'. usable l (t_now ev) w = Some r' \<longrightarrow> Timestamp r' \<le> Timestamp r" by auto
    then have w: "j_unmarshal l v = Inr r" "\<not> Expired r (t_now ev)"
      "\<exists>p pub. p_decode l (Owner r) = Inr p \<and> p_pubkey l p = Inr (Some pub) \<and> Verify l pub r = None"
      by (auto simp: usable_def split: if_splits sum.splits option.splits)
    with assms Some v show ?thesis
      by (simp add: Resolve_uncached resolve_dht_def Let_def) blast
  qed
qed

text \<open>A small library for concrete runs: it knows one key and two records.\<close>

definition wit_rec :: dns_rec where
  "wit_rec =
     \<lparr>Name = ''node1'', Owner = ''peerA'', Addrs = [''/ip4/1.2.3.4''], TTL = 3600, Timestamp = 1000,
      Signature = b64_encode ''ksig''\<rparr>"

definition wit_tomb :: dns_rec where
  "wit_tomb =
     \<lparr>Name = ''node1'', Owner = ''peerA'', Addrs = [], TTL = 0, Timestamp = 2000,
      Signature = b64_encode ''ksig''\<rparr>"

definition wit_lib :: dns_lib where
  "wit_lib =
     \<lparr>j_payload = (\<lambda>_ _ _ _ _. ''sig''), j_marshal = (\<lambda>r. if TTL r = 0 then ''0'' else ''1''),
      j_unmarshal = (\<lambda>d. if d = ''1'' then Inr wit_rec else if d = ''0'' then Inr wit_tomb else Inl (Err ''json'')),
      k_sign = (\<lambda>priv p. Inr (priv @ p)), k_verify = (\<lambda>pub p sig. Inr (sig = pub @ p)),
      p_decode = (\<lambda>s. Inr s), p_pubkey = (\<lambda>p. Inr (if p = ''peerA'' then Some ''k'' else None)),
      m_parse = (\<lambda>s. Inr s)\<rparr>"

definition wit_dns_env :: "int \<Rightarrow> bytes list \<Rightarrow> dns_env" where
  "wit_dns_env secs vals =
     \<lparr>d_get = (\<lambda>_. Inl (Err ''not found'')), d_search = (\<lambda>_. Inr vals), d_put = (\<lambda>_ _. None), h_id = ''peerA'',
      h_key = Some ''k'', h_addrs = [''/ip4/1.2.3.4''], t_now = secs * Second, t_then = secs * Second\<rparr>"

lemma wit_lib_ok: "dns_lib_ok wit_lib ''k'' ''k''" "json_ok wit_lib wit_rec" "json_ok wit_lib wit_tomb"
  by (auto simp: dns_lib_ok_def json_ok_def wit_lib_def wit_rec_def wit_tomb_def)

lemma wit_names: "NormalizeName ''node1'' = Inr ''node1''" "NormalizeName ''other'' = Inr ''other''"
  by code_simp+

lemma wit_fields:
  "TTL wit_rec = 3600" "Timestamp wit_rec = 1000" "Owner wit_rec = ''peerA''"
  "Addrs wit_rec = [''/ip4/1.2.3.4'']" "Signature wit_rec = b64_encode ''ksig''"
  by (simp_all only: wit_rec_def dns_rec.select_convs)

lemma wit_usable_at:
  assumes "secs \<le> 4600"
  shows "usable wit_lib (secs * Second) ''1'' = Some wit_rec"
proof -
  have "Signature wit_rec \<noteq> ''''" unfolding wit_fields b64_encode_Nil_iff by simp
  then have "Verify wit_lib ''k'' wit_rec = None"
    unfolding Verify_def wit_fields b64_roundtrip
    by (simp del: b64_encode.simps) (simp add: wit_lib_def signablePayload_def)
  moreover have "\<not> Expired wit_rec (secs * Second)"
    using assms by (simp add: Expired_def wit_fields unix_def Second_def in_int64_def)
  ultimately show ?thesis using wit_fields(3) by (simp add: usable_def wit_lib_def)
qed

lemma wit_usable: "usable wit_lib (1500 * Second) ''1'' = Some wit_rec"
  by (rule wit_usable_at) simp

lemma resolve_freshest_witness:
  "\<exists>ns'. Resolve wit_lib True (wit_dns_env 1500 [''1'', ''bad'']) ''node1'' (NewNameSystem True True) =
     (Inr [''/ip4/1.2.3.4''], ns')"
proof -
  let ?ev = "wit_dns_env 1500 [''1'', ''bad'']"
  have u: "usable wit_lib (1500 * Second) ''bad'' = None" by (simp add: usable_def wit_lib_def)
  have "parse_addrs wit_lib (Addrs wit_rec) = [''/ip4/1.2.3.4'']" by (simp add: wit_lib_def wit_rec_def)
  then show ?thesis
    using resolve_freshest [of "NewNameSystem True True" "''node1''" "''node1''" True ?ev "[''1'', ''bad'']" wit_lib]
      wit_names(1) wit_usable u
    by (auto simp: NewNameSystem_def wit_dns_env_def split: prod.splits sum.splits)
qed

text \<open>What a search may return besides the record \<open>r\<close>: older records and values that are skipped.\<close>

definition newest_in :: "dns_lib \<Rightarrow> int \<Rightarrow> dns_rec \<Rightarrow> bytes list \<Rightarrow> bool" where
  "newest_in l now r vals \<longleftrightarrow> j_marshal l r \<in> set vals \<and>
     (\<forall>v\<in>set vals. \<forall>x. usable l now v = Some x \<longrightarrow> x = r \<or> Timestamp x < Timestamp r)"

text \<open>Publisher and reader: the record is published now, and read within its time to live.\<close>

definition published_by :: "dns_lib \<Rightarrow> bytes \<Rightarrow> bytes \<Rightarrow> dns_env \<Rightarrow> string list \<Rightarrow> duration \<Rightarrow> dns_rec \<Rightarrow> bool" where
  "published_by l priv pub ev addrs ttl r \<longleftrightarrow>
     dns_lib_ok l priv pub \<and> json_ok l r \<and> h_key ev = Some priv \<and>
     (\<exists>p. p_decode l (h_id ev) = Inr p \<and> p_pubkey l p = Inr (Some pub)) \<and>
     (\<forall>a\<in>set addrs. m_parse l a = Inr a) \<and>
     0 < ttl_seconds ttl \<and> in_int64 (unix (t_now ev) + ttl_seconds ttl)"

lemma registered_resolves:
  assumes r: "Register l ns1 ev1 name1 addrs ttl = (None, Some (k, r))"
    and p: "published_by l priv pub ev1 addrs ttl r"
    and t: "unix (t_now ev2) \<le> unix (t_now ev1) + ttl_seconds ttl"
    and n: "ns_dht ns2" "NormalizeName name2 = Inr norm2" "ns_cache ns2 norm2 = None \<or> bypass"
    and s: "d_search ev2 (DHTKey norm2) = Inr vals" "newest_in l (t_now ev2) r vals"
  shows "Resolve l bypass ev2 name2 ns2 = (Inr addrs, ns2\<lparr>ns_cache := (ns_cache ns2)(norm2 \<mapsto>
    \<lparr>ce_addrs = addrs, ce_expiry = t_then ev2 + cache_ttl r\<rparr>)\<rparr>)"
proof -
  from Register_ok [OF r] p obtain norm r0 where
    r0: "Sign l priv r0 = Inr r" "r0 = \<lparr>Name = norm, Owner = h_id ev1, Addrs = addrs, TTL = ttl_seconds ttl,
      Timestamp = unix (t_now ev1), Signature = ''''\<rparr>" "addrs \<noteq> []" by (auto simp: published_by_def)
  with p Sign_verifies [of l priv pub r0 r] have f: "Owner r = h_id ev1" "Addrs r = addrs"
    "TTL r = ttl_seconds ttl" "Timestamp r = unix (t_now ev1)" by (auto simp: published_by_def)
  have "\<not> Expired r (t_now ev2)" using f p t by (simp add: Expired_def published_by_def)
  with p r0(1) f usable_registered [of l priv pub r r0] have u: "usable l (t_now ev2) (j_marshal l r) = Some r"
    by (auto simp: published_by_def)
  have us: "x \<in> set (usables l (t_now ev2) vals) \<longleftrightarrow> (\<exists>v\<in>set vals. usable l (t_now ev2) v = Some x)" for x
    by (induction vals) (auto split: option.splits)
  have a: "parse_addrs l (Addrs r) = addrs" using p f parse_addrs_all [of addrs l] by (simp add: published_by_def)
  have "r \<in> set (usables l (t_now ev2) vals)"
    "\<forall>x\<in>set (usables l (t_now ev2) vals). x = r \<or> Timestamp x < Timestamp r"
    using s(2) u us by (auto simp: newest_in_def)
  from resolve_dht_newest [OF s(1) this, of name2 ns2] a r0(3) n show ?thesis
    by (simp add: Resolve_uncached)
qed

text \<open>
  A registered name resolves. A record that \<open>Register\<close> has published resolves, on any node that
  has not cached the name, to exactly the registered addresses until its time to live is over, as
  long as the search returns it and nothing newer that is authentic; the answer is then cached. The
  name asked for (\<open>name2\<close>) need not be the registered one: \<open>Resolve\<close> does not compare the name in
  the record with the name it looks up, so a signed record answers under whatever key it is found.
\<close>

theorem registered_name_resolves:
  assumes "Register l ns1 ev1 name1 addrs ttl = (None, Some (k, r))"
    and "published_by l priv pub ev1 addrs ttl r"
    and "unix (t_now ev2) \<le> unix (t_now ev1) + ttl_seconds ttl"
    and "ns_dht ns2" "NormalizeName name2 = Inr norm2" "ns_cache ns2 norm2 = None \<or> bypass"
    and "d_search ev2 (DHTKey norm2) = Inr vals" "newest_in l (t_now ev2) r vals"
  shows "Resolve l bypass ev2 name2 ns2 = (Inr addrs, ns2\<lparr>ns_cache := (ns_cache ns2)(norm2 \<mapsto>
    \<lparr>ce_addrs = addrs, ce_expiry = t_then ev2 + cache_ttl r\<rparr>)\<rparr>)"
  by (rule registered_resolves [OF assms])

lemma wit_register:
  "Register wit_lib (NewNameSystem True True) (wit_dns_env 1000 []) ''node1'' [''/ip4/1.2.3.4''] (3600 * Second) =
     (None, Some (DHTKey ''node1'', wit_rec))"
  by (simp add: Register_def NewNameSystem_def wit_names wit_dns_env_def sign_and_put_def Sign_def wit_lib_def
      signablePayload_def wit_rec_def ttl_seconds_def unix_def Second_def Let_def)

lemma wit_published:
  "published_by wit_lib ''k'' ''k'' (wit_dns_env 1000 []) [''/ip4/1.2.3.4''] (3600 * Second) wit_rec"
  using wit_lib_ok by (simp add: published_by_def wit_dns_env_def)
    (simp add: wit_lib_def ttl_seconds_def unix_def Second_def in_int64_def)

lemma registered_name_resolves_witness:
  "\<exists>ns'. Resolve wit_lib False (wit_dns_env 1500 [''1'']) ''other'' (NewNameSystem True True) =
     (Inr [''/ip4/1.2.3.4''], ns')"
proof -
  have n: "newest_in wit_lib (t_now (wit_dns_env 1500 [''1''])) wit_rec [''1'']"
    using wit_usable by (simp add: newest_in_def wit_dns_env_def) (simp add: wit_lib_def wit_rec_def)
  show ?thesis
    using registered_name_resolves [OF wit_register wit_published _ _ wit_names(2) _ _ n,
        where bypass = False and ?ns2.0 = "NewNameSystem True True"]
    by (auto simp: wit_dns_env_def unix_def Second_def ttl_seconds_def NewNameSystem_def)
qed

text \<open>
  A name cannot be withdrawn. \<open>Unregister\<close> publishes a record without addresses and with a time
  to live of zero; such a record is expired for \<open>Resolve\<close>, which skips it, so as long as the search
  still returns the registered record the name resolves to its addresses as before, although the
  tombstone of the same owner is newer.
\<close>

theorem unregister_ineffective:
  assumes r: "Register l ns1 ev1 name addrs ttl = (None, Some (k, r))"
    and u: "Unregister l ns3 ev3 name = (None, Some (k, tomb))" "json_ok l tomb"
    and p: "published_by l priv pub ev1 addrs ttl r"
    and t: "unix (t_now ev2) \<le> unix (t_now ev1) + ttl_seconds ttl"
    and n: "ns_dht ns2" "NormalizeName name2 = Inr norm2" "ns_cache ns2 norm2 = None \<or> bypass"
    and s: "d_search ev2 (DHTKey norm2) = Inr vals" "j_marshal l r \<in> set vals"
      "set vals \<subseteq> {j_marshal l r, j_marshal l tomb}"
  shows "fst (Resolve l bypass ev2 name2 ns2) = Inr addrs"
proof -
  have d: "j_unmarshal l (j_marshal l tomb) = Inr tomb" "j_unmarshal l (j_marshal l r) = Inr r"
    using u(2) p by (simp_all add: json_ok_def published_by_def)
  with Unregister_ok [OF u(1)] have "usable l (t_now ev2) (j_marshal l tomb) = None"
    by (simp add: expired_unusable)
  with s(2,3) d(2) have "newest_in l (t_now ev2) r vals"
    by (auto simp: newest_in_def usable_def split: if_splits sum.splits option.splits)
  from registered_resolves [OF r p t n s(1) this] show ?thesis by simp
qed

lemma unregister_ineffective_witness:
  "fst (Resolve wit_lib True (wit_dns_env 2500 [''0'', ''1'']) ''node1'' (NewNameSystem True True)) =
     Inr [''/ip4/1.2.3.4'']"
proof -
  have u: "Unregister wit_lib (NewNameSystem True True) (wit_dns_env 2000 []) ''node1'' =
      (None, Some (DHTKey ''node1'', wit_tomb))"
    by (simp add: Unregister_def NewNameSystem_def wit_names wit_dns_env_def sign_and_put_def Sign_def wit_lib_def
        signablePayload_def wit_tomb_def unix_def Second_def Let_def)
  have m: "j_marshal wit_lib wit_rec = ''1''" "j_marshal wit_lib wit_tomb = ''0''"
    by (simp_all add: wit_lib_def wit_rec_def wit_tomb_def)
  show ?thesis
    by (rule unregister_ineffective [OF wit_register u wit_lib_ok(3) wit_published _ _ wit_names(1)])
      (auto simp: m wit_dns_env_def NewNameSystem_def unix_def ttl_seconds_def Second_def)
qed

section \<open>The cache\<close>

lemma cache_ttl_exact:
  assumes "60 < TTL r" "in_int64 (TTL r * Second)"
  shows "cache_ttl r = (TTL r - 60) * Second"
proof -
  have "in_int64 ((TTL r - 60) * Second)" using assms by (simp add: in_int64_def Second_def)
  moreover have "TTL r * Second - Minute = (TTL r - 60) * Second"
    by (simp add: Second_def Minute_def algebra_simps)
  moreover have "TTL r * Second > Minute" using assms(1) by (simp add: Second_def Minute_def)
  ultimately show ?thesis using assms(2) by (simp add: cache_ttl_def Let_def)
qed

lemma resolve_dht_caches:
  assumes "resolve_dht l ev name norm ns = (Inr addrs, ns')"
  shows "\<exists>r. best_loop l (t_now ev) None (case d_search ev (DHTKey norm) of Inr vs \<Rightarrow> vs | _ \<Rightarrow> []) = Some r \<and>
    ns' = ns\<lparr>ns_cache := (ns_cache ns)(norm \<mapsto> \<lparr>ce_addrs = addrs, ce_expiry = t_then ev + cache_ttl r\<rparr>)\<rparr>"
  using assms by (auto simp: resolve_dht_def Let_def split: sum.splits option.splits if_splits)

text \<open>
  A cached answer is kept for a time counted from the answer, not from the record. After an
  answer from the search the name resolves to the same addresses, whatever the DHT then holds,
  until the record's time to live, less a minute, has passed again; a record found in its last
  second is therefore served for that time after it has expired.
\<close>

theorem cache_outlives_record:
  assumes n: "ns_dht ns" "NormalizeName name = Inr norm"
    and a: "resolve_dht l ev name norm ns = (Inr addrs, ns')"
    and r: "best_loop l (t_now ev) None (case d_search ev (DHTKey norm) of Inr vs \<Rightarrow> vs | _ \<Rightarrow> []) = Some r"
    and t: "60 < TTL r" "in_int64 (TTL r * Second)" "in_int64 (Timestamp r + TTL r)"
    and last: "unix (t_now ev) = Timestamp r + TTL r" "t_then ev = t_now ev"
  shows "\<not> Expired r (t_now ev) \<and>
    (\<forall>ev'. t_now ev' < t_now ev + (TTL r - 60) * Second \<longrightarrow> Resolve l False ev' name ns' = (Inr addrs, ns')) \<and>
    (\<forall>ev'. t_now ev + Second \<le> t_now ev' \<longrightarrow> Expired r (t_now ev'))"
proof (intro conjI allI impI)
  show "\<not> Expired r (t_now ev)" using t last by (simp add: Expired_def)
  from resolve_dht_caches [OF a] r cache_ttl_exact [OF t(1,2)] last(2) have
    c: "ns_cache ns' norm = Some \<lparr>ce_addrs = addrs, ce_expiry = t_now ev + (TTL r - 60) * Second\<rparr>"
    "ns_dht ns' = ns_dht ns" by auto
  then show "Resolve l False ev' name ns' = (Inr addrs, ns')"
    if "t_now ev' < t_now ev + (TTL r - 60) * Second" for ev'
    using that n by (simp add: Resolve_def)
  show "Expired r (t_now ev')" if "t_now ev + Second \<le> t_now ev'" for ev'
  proof -
    have "unix (t_now ev) + 1 = unix (t_now ev + Second)" by (simp add: unix_def Second_def)
    also have "\<dots> \<le> unix (t_now ev')" using that by (simp add: unix_def Second_def zdiv_mono1)
    finally show ?thesis using t last by (simp add: Expired_def)
  qed
qed

lemma cache_outlives_record_witness:
  "\<exists>ns'. Resolve wit_lib False (wit_dns_env 8000 []) ''node1'' ns' = (Inr [''/ip4/1.2.3.4''], ns') \<and>
     Expired wit_rec (8000 * Second)"
proof -
  let ?ev = "wit_dns_env 4600 [''1'']"
  have u: "usable wit_lib (4600 * Second) ''1'' = Some wit_rec" by (rule wit_usable_at) simp
  have s: "d_search ?ev = (\<lambda>_. Inr [''1''])" "t_now ?ev = 4600 * Second" "t_then ?ev = 4600 * Second"
    by (simp_all add: wit_dns_env_def)
  have b: "best_loop wit_lib (t_now ?ev) None (case d_search ?ev (DHTKey ''node1'') of Inr vs \<Rightarrow> vs | _ \<Rightarrow> []) = Some wit_rec"
    by (simp add: s u)
  have "parse_addrs wit_lib (Addrs wit_rec) = [''/ip4/1.2.3.4'']" by (simp add: wit_fields wit_lib_def)
  with b obtain ns' where a: "resolve_dht wit_lib ?ev ''node1'' ''node1'' (NewNameSystem True True) = (Inr [''/ip4/1.2.3.4''], ns')"
    by (simp add: resolve_dht_def s Let_def)
  have d: "ns_dht (NewNameSystem True True)" by (simp add: NewNameSystem_def)
  have r: "Resolve wit_lib False ev' ''node1'' ns' = (Inr [''/ip4/1.2.3.4''], ns')" if "t_now ev' = 8000 * Second" for ev'
    using cache_outlives_record [OF d wit_names(1) a b] that wit_fields s
    by (auto simp: in_int64_def Second_def unix_def)
  have "\<forall>ev'. 4601 * Second \<le> t_now ev' \<longrightarrow> Expired wit_rec (t_now ev')"
    using cache_outlives_record [OF d wit_names(1) a b] wit_fields s
    by (auto simp: in_int64_def Second_def unix_def)
  from this [rule_format, of "wit_dns_env 8000 []"] r [of "wit_dns_env 8000 []"] show ?thesis
    by (auto simp: wit_dns_env_def Second_def intro!: exI [of _ ns'])
qed

end
