(* ===== verification/Metrics.thy ===== *)
theory Metrics
  imports Complex_Main GoStrings GoDuration "HOL-Library.Sublist"
begin

text \<open>
  \<open>hypernet/services/proxy/metrics/store.go\<close>: the metrics store. Callers put operations into a
  channel of bounded capacity, or drop them; a writer goroutine collects them into batches and applies
  a batch in one transaction. SQLite is not part of the program: a transaction that begins, each
  statement of it and its commit may succeed or fail, as the argument of type \<open>tx_env\<close> says; the
  statements themselves are modelled on the three tables of the schema. Times are in seconds.
\<close>

section \<open>Operations\<close>

record SessionStart =
  ss_ID :: string
  EntryNodePeer :: string
  ss_Protocol :: string
  ss_Transport :: string
  ClientRegion :: string
  NodeRegion :: string
  StartedAt :: int

record SessionEnd =
  se_ID :: string
  BytesUp :: int
  BytesDown :: int
  Success :: bool
  ErrorReason :: string
  EndedAt :: int

text \<open>\<open>OpFlush n\<close> is the function \<open>FlushNow\<close> queues: it closes the channel \<open>n\<close> its caller waits on.\<close>

datatype op =
    OpStart SessionStart
  | OpEnd SessionEnd
  | OpUpdate string int int
  | OpQuality string int int int rat
  | OpEvent string int string string
  | OpFlush nat

section \<open>The tables\<close>

text \<open>A row of \<open>sessions\<close>, as far as the program writes it; a column not yet written is NULL.\<close>

record session_row =
  row_start :: SessionStart
  end_time :: "int option"
  bytes_up :: "int option"
  bytes_down :: "int option"
  success :: "bool option"
  error_reason :: "string option"

record database =
  sessions :: "string \<Rightarrow> session_row option"
  quality_samples :: "(string \<times> int \<times> int \<times> int \<times> rat) list"
  events :: "(string \<times> int \<times> string \<times> string) list"

definition empty_db :: database where
  "empty_db = \<lparr>sessions = (\<lambda>_. None), quality_samples = [], events = []\<rparr>"

definition insert_session :: "SessionStart \<Rightarrow> database \<Rightarrow> database" where
  "insert_session s d =
     (case sessions d (ss_ID s) of
        Some _ \<Rightarrow> d
      | None \<Rightarrow> d\<lparr>sessions := (sessions d)(ss_ID s \<mapsto>
          \<lparr>row_start = s, end_time = None, bytes_up = None, bytes_down = None, success = None,
           error_reason = None\<rparr>)\<rparr>)"

definition update_row :: "string \<Rightarrow> (session_row \<Rightarrow> session_row) \<Rightarrow> database \<Rightarrow> database" where
  "update_row sid f d = d\<lparr>sessions := (sessions d)(sid := map_option f (sessions d sid))\<rparr>"

definition coalesce :: "int option \<Rightarrow> int" where
  "coalesce v = (case v of None \<Rightarrow> 0 | Some x \<Rightarrow> x)"

definition end_row :: "SessionEnd \<Rightarrow> session_row \<Rightarrow> session_row" where
  "end_row e r =
     r\<lparr>end_time := Some (EndedAt e), bytes_up := Some (BytesUp e), bytes_down := Some (BytesDown e),
       success := Some (Success e), error_reason := Some (ErrorReason e)\<rparr>"

text \<open>\<open>apply\<close> of the operations.\<close>

fun apply_op :: "op \<Rightarrow> database \<Rightarrow> database" where
  "apply_op (OpStart s) d = insert_session s d"
| "apply_op (OpEnd e) d = update_row (se_ID e) (end_row e) d"
| "apply_op (OpUpdate sid du dd) d =
     update_row sid (\<lambda>r. r\<lparr>bytes_up := Some (coalesce (bytes_up r) + du),
                            bytes_down := Some (coalesce (bytes_down r) + dd)\<rparr>) d"
| "apply_op (OpQuality sid t rtt jitter loss) d =
     d\<lparr>quality_samples := quality_samples d @ [(sid, t, rtt, jitter, loss)]\<rparr>"
| "apply_op (OpEvent sid t ty details) d = d\<lparr>events := events d @ [(sid, t, ty, details)]\<rparr>"
| "apply_op (OpFlush n) d = d"

definition apply_ops :: "op list \<Rightarrow> database \<Rightarrow> database" where
  "apply_ops ops d = fold apply_op ops d"

section \<open>The store\<close>

record store =
  chan :: "op list"
  chan_closed :: bool
  batch :: "op list"
  db :: database
  done_chans :: "nat set"
  writer_live :: bool
  flushInterval :: duration

definition chan_cap :: nat where
  "chan_cap = 1024"

definition batch_cap :: nat where
  "batch_cap = 128"

definition default_flush :: duration where
  "default_flush = 200 * Millisecond"

text \<open>\<open>NewStore\<close>: the error of opening the database, and of creating the schema.\<close>

definition NewStore :: "string \<Rightarrow> err option \<Rightarrow> err option \<Rightarrow> database \<Rightarrow> duration \<Rightarrow> err + store" where
  "NewStore path open_err schema_err d interval =
     (if path = '''' then Inl (Err ''metrics: empty db path'')
      else case open_err of
        Some e \<Rightarrow> Inl (wrap_err ''metrics: open db'' e)
      | None \<Rightarrow>
          (case schema_err of
             Some e \<Rightarrow> Inl e
           | None \<Rightarrow>
               Inr \<lparr>chan = [], chan_closed = False, batch = [], db = d, done_chans = {}, writer_live = True,
                    flushInterval = (if interval \<le> 0 then default_flush else interval)\<rparr>))"

text \<open>
  \<open>initSchema\<close>: the results of the three \<open>CREATE TABLE\<close> statements, in order; the journal mode is
  not an error.
\<close>

definition initSchema :: "err option \<Rightarrow> err option \<Rightarrow> err option \<Rightarrow> err option" where
  "initSchema e1 e2 e3 =
     (case e1 of
        Some e \<Rightarrow> Some (wrap_err ''metrics: create sessions'' e)
      | None \<Rightarrow>
          (case e2 of
             Some e \<Rightarrow> Some (wrap_err ''metrics: create quality_samples'' e)
           | None \<Rightarrow> map_option (wrap_err ''metrics: create events'') e3))"

subsection \<open>Callers\<close>

text \<open>What a call that queues an operation comes to; sending on a closed channel panics.\<close>

datatype sent = Skipped | Sent | Dropped | Panic

definition send :: "op \<Rightarrow> store \<Rightarrow> sent \<times> store" where
  "send x s =
     (if chan_closed s then (Panic, s)
      else if length (chan s) < chan_cap then (Sent, s\<lparr>chan := chan s @ [x]\<rparr>)
      else (Dropped, s))"

text \<open>The methods on a store that may be nil.\<close>

definition queue_op :: "bool \<Rightarrow> op \<Rightarrow> store option \<Rightarrow> sent \<times> store option" where
  "queue_op skip x st =
     (case st of
        None \<Rightarrow> (Skipped, None)
      | Some s \<Rightarrow> if skip then (Skipped, Some s) else (case send x s of (r, s') \<Rightarrow> (r, Some s')))"

definition StartSession :: "SessionStart \<Rightarrow> store option \<Rightarrow> sent \<times> store option" where
  "StartSession start = queue_op False (OpStart start)"

definition EndSession :: "SessionEnd \<Rightarrow> store option \<Rightarrow> sent \<times> store option" where
  "EndSession e = queue_op False (OpEnd e)"

definition UpdateSession :: "string \<Rightarrow> int \<Rightarrow> int \<Rightarrow> store option \<Rightarrow> sent \<times> store option" where
  "UpdateSession sid deltaUp deltaDown =
     queue_op (deltaUp = 0 \<and> deltaDown = 0) (OpUpdate sid deltaUp deltaDown)"

definition AddQualitySample ::
  "string \<Rightarrow> int \<Rightarrow> int \<Rightarrow> int \<Rightarrow> rat \<Rightarrow> store option \<Rightarrow> sent \<times> store option"
where
  "AddQualitySample sid t rttMS jitterMS lossPct =
     queue_op (sid = '''') (OpQuality sid t rttMS jitterMS lossPct)"

text \<open>The details are what \<open>json.Marshal\<close> returns; nil details and a failed encoding give \<open>None\<close>.\<close>

definition AddEvent ::
  "string \<Rightarrow> string \<Rightarrow> int \<Rightarrow> string option \<Rightarrow> store option \<Rightarrow> sent \<times> store option"
where
  "AddEvent sid eventType t details =
     queue_op (sid = '''' \<or> eventType = '''')
       (OpEvent sid t eventType (case details of None \<Rightarrow> '''' | Some j \<Rightarrow> j))"

text \<open>\<open>FlushNow\<close> with its own channel \<open>n\<close>: it waits for \<open>n\<close> when the operation was sent.\<close>

definition FlushNow :: "nat \<Rightarrow> store option \<Rightarrow> sent \<times> store option" where
  "FlushNow n = queue_op False (OpFlush n)"

definition flush_returns :: "sent \<Rightarrow> nat \<Rightarrow> store \<Rightarrow> bool" where
  "flush_returns r n s \<longleftrightarrow> (r = Sent \<longrightarrow> n \<in> done_chans s)"

text \<open>The first part of \<open>Close\<close>, which closes the channel once; the second waits for the writer.\<close>

definition close_chan :: "store \<Rightarrow> store" where
  "close_chan s = s\<lparr>chan_closed := True\<rparr>"

subsection \<open>The writer\<close>

record tx_env =
  begin_ok :: bool
  exec_ok :: "nat \<Rightarrow> bool"
  commit_ok :: bool

definition all_ok :: "tx_env \<Rightarrow> bool" where
  "all_ok t \<longleftrightarrow> begin_ok t \<and> (\<forall>i. exec_ok t i) \<and> commit_ok t"

text \<open>The operations of a batch whose statement succeeds; the functions of \<open>FlushNow\<close> always run.\<close>

definition executed :: "tx_env \<Rightarrow> op list \<Rightarrow> op list" where
  "executed t xs = map snd (filter (\<lambda>(i, x). exec_ok t i) (enumerate 0 xs))"

definition flush_ids :: "op list \<Rightarrow> nat set" where
  "flush_ids xs = {n. OpFlush n \<in> set xs}"

definition flush :: "tx_env \<Rightarrow> store \<Rightarrow> store" where
  "flush t s =
     (if batch s = [] then s
      else if \<not> begin_ok t then s\<lparr>batch := []\<rparr>
      else s\<lparr>batch := [], done_chans := done_chans s \<union> flush_ids (batch s),
             db := (if commit_ok t then apply_ops (executed t (batch s)) (db s) else db s)\<rparr>)"

text \<open>The three cases of the writer's \<open>select\<close>: an operation, the closed channel, the ticker.\<close>

definition writer_recv :: "tx_env \<Rightarrow> store \<Rightarrow> store option" where
  "writer_recv t s =
     (if \<not> writer_live s then None
      else case chan s of
        x # xs \<Rightarrow>
          let s1 = s\<lparr>chan := xs, batch := batch s @ [x]\<rparr>
          in Some (if batch_cap \<le> length (batch s1) then flush t s1 else s1)
      | [] \<Rightarrow> if chan_closed s then Some ((flush t s)\<lparr>writer_live := False\<rparr>) else None)"

definition writer_tick :: "tx_env \<Rightarrow> store \<Rightarrow> store option" where
  "writer_tick t s = (if writer_live s then Some (flush t s) else None)"

text \<open>
  The runs from a store, with the outcomes of transactions that satisfy \<open>P\<close>, indexed by the
  operations accepted so far.
\<close>

inductive store_reach :: "(tx_env \<Rightarrow> bool) \<Rightarrow> store \<Rightarrow> op list \<Rightarrow> store \<Rightarrow> bool"
  for P :: "tx_env \<Rightarrow> bool" and s0 :: store
where
  reach_start: "store_reach P s0 [] s0"
| reach_send: "store_reach P s0 xs s \<Longrightarrow> send x s = (Sent, s') \<Longrightarrow> store_reach P s0 (xs @ [x]) s'"
| reach_recv: "store_reach P s0 xs s \<Longrightarrow> P t \<Longrightarrow> writer_recv t s = Some s' \<Longrightarrow> store_reach P s0 xs s'"
| reach_tick: "store_reach P s0 xs s \<Longrightarrow> P t \<Longrightarrow> writer_tick t s = Some s' \<Longrightarrow> store_reach P s0 xs s'"
| reach_close: "store_reach P s0 xs s \<Longrightarrow> store_reach P s0 xs (close_chan s)"

inductive_cases store_reachE: "store_reach P s0 xs s"

text \<open>The writer once the channel is closed: it takes what is left and ends.\<close>

function drain :: "tx_env \<Rightarrow> store \<Rightarrow> store" where
  "drain t s =
     (case writer_recv t s of
        None \<Rightarrow> s
      | Some s' \<Rightarrow> if chan s = [] then s' else drain t s')"
  by pat_completeness auto

lemma flush_keeps [simp]:
  "chan (flush t s) = chan s" "chan_closed (flush t s) = chan_closed s"
  "writer_live (flush t s) = writer_live s" "batch (flush t s) = []"
  by (simp_all add: flush_def)

lemma writer_recv_chan:
  "writer_recv t s = Some s' \<Longrightarrow> chan s' = tl (chan s) \<and> chan_closed s' = chan_closed s"
  by (auto simp: writer_recv_def Let_def split: list.splits if_splits)

termination drain
  by (relation "measure (\<lambda>(t, s). length (chan s))") (auto dest!: writer_recv_chan simp: neq_Nil_conv)

declare drain.simps [simp del]

section \<open>The queue\<close>

lemma apply_ops_append [simp]: "apply_ops (xs @ ys) d = apply_ops ys (apply_ops xs d)"
  by (simp add: apply_ops_def)

lemma apply_ops_Nil [simp]: "apply_ops [] d = d"
  by (simp add: apply_ops_def)

lemma apply_ops_Cons [simp]: "apply_ops (x # xs) d = apply_ops xs (apply_op x d)"
  by (simp add: apply_ops_def)

lemma subseq_executed: "subseq (executed t xs) xs"
proof -
  have "subseq (map snd (filter (\<lambda>(i, x). exec_ok t i) (enumerate 0 xs))) (map snd (enumerate 0 xs))"
    by (intro subseq_map subseq_filter_left)
  then show ?thesis by (simp add: executed_def)
qed

lemma executed_ok: "all_ok t \<Longrightarrow> executed t xs = xs"
  by (simp add: executed_def all_ok_def case_prod_beta)

text \<open>
  \<open>stored P d0 xs s\<close>: the accepted operations \<open>xs\<close> are those handled, those in the batch and those
  in the channel, in this order, and the database holds some of the handled ones, in order.
\<close>

definition stored :: "(tx_env \<Rightarrow> bool) \<Rightarrow> database \<Rightarrow> op list \<Rightarrow> store \<Rightarrow> bool" where
  "stored P d0 xs s \<longleftrightarrow>
     (\<exists>hs ds. xs = hs @ batch s @ chan s \<and> subseq ds hs \<and> db s = apply_ops ds d0 \<and>
       ((\<forall>t. P t \<longrightarrow> all_ok t) \<longrightarrow> ds = hs)) \<and>
     length (chan s) \<le> chan_cap \<and> length (batch s) < batch_cap \<and>
     (writer_live s \<or> batch s = [] \<and> chan s = [] \<and> chan_closed s)"

lemma stored_flush:
  assumes "P t" and q: "xs = hs @ batch s @ chan s" "subseq ds hs" "db s = apply_ops ds d0"
    "(\<forall>t. P t \<longrightarrow> all_ok t) \<longrightarrow> ds = hs"
  shows "\<exists>hs ds. xs = hs @ batch (flush t s) @ chan (flush t s) \<and> subseq ds hs \<and>
    db (flush t s) = apply_ops ds d0 \<and> ((\<forall>t. P t \<longrightarrow> all_ok t) \<longrightarrow> ds = hs)"
proof -
  define es where "es = (if begin_ok t \<and> commit_ok t then executed t (batch s) else [])"
  have "subseq (ds @ es) (hs @ batch s)"
    using q(2) subseq_executed by (auto simp: es_def intro: list_emb_append_mono)
  moreover have "db (flush t s) = apply_ops (ds @ es) d0"
    using q(3) by (auto simp: flush_def es_def executed_def)
  moreover have "(\<forall>t. P t \<longrightarrow> all_ok t) \<longrightarrow> ds @ es = hs @ batch s"
    using q(4) assms(1) executed_ok by (auto simp: es_def all_ok_def)
  ultimately show ?thesis
    using q(1) by (intro exI [of _ "hs @ batch s"] exI [of _ "ds @ es"]) simp
qed

lemma stored_recv:
  assumes "P t" "stored P d0 xs s" "writer_recv t s = Some s'"
  shows "stored P d0 xs s'"
proof -
  from assms(2) obtain hs ds where q: "xs = hs @ batch s @ chan s" "subseq ds hs" "db s = apply_ops ds d0"
    "(\<forall>t. P t \<longrightarrow> all_ok t) \<longrightarrow> ds = hs" and c: "length (chan s) \<le> chan_cap" "length (batch s) < batch_cap"
    by (auto simp: stored_def)
  show ?thesis
  proof (cases "chan s")
    case Nil
    with assms(3) have s': "s' = (flush t s)\<lparr>writer_live := False\<rparr>" "chan_closed s"
      by (auto simp: writer_recv_def split: if_splits)
    from stored_flush [OF assms(1) q] s' c Nil show ?thesis
      by (simp add: stored_def batch_cap_def)
  next
    case (Cons x ys)
    define s1 where "s1 = s\<lparr>chan := ys, batch := batch s @ [x]\<rparr>"
    have q1: "xs = hs @ batch s1 @ chan s1" "db s1 = apply_ops ds d0" using q Cons by (simp_all add: s1_def)
    from stored_flush [OF assms(1) q1(1) q(2) q1(2) q(4)] assms(3) Cons c q1 q(2,4) show ?thesis
      by (auto simp: stored_def writer_recv_def Let_def s1_def [symmetric] chan_cap_def batch_cap_def split: if_splits)
        (auto simp: s1_def)
  qed
qed

lemma store_reach_stored:
  assumes "store_reach P s0 xs s" "stored P (db s0) [] s0"
  shows "stored P (db s0) xs s"
  using assms
proof (induction rule: store_reach.induct)
  case reach_start
  then show ?case by simp
next
  case (reach_send xs s x s')
  then have q: "stored P (db s0) xs s" "\<not> chan_closed s" "length (chan s) < chan_cap"
    "s' = s\<lparr>chan := chan s @ [x]\<rparr>" by (auto simp: send_def split: if_splits)
  then obtain hs ds where "xs = hs @ batch s @ chan s" "subseq ds hs" "db s = apply_ops ds (db s0)"
    "(\<forall>t. P t \<longrightarrow> all_ok t) \<longrightarrow> ds = hs" by (auto simp: stored_def)
  with q show ?case by (simp add: stored_def)
next
  case (reach_recv xs s t s')
  then show ?case by (blast intro: stored_recv)
next
  case (reach_tick xs s t s')
  then have q: "stored P (db s0) xs s" "s' = flush t s" by (auto simp: writer_tick_def split: if_splits)
  then obtain hs ds where "xs = hs @ batch s @ chan s" "subseq ds hs" "db s = apply_ops ds (db s0)"
    "(\<forall>t. P t \<longrightarrow> all_ok t) \<longrightarrow> ds = hs" by (auto simp: stored_def)
  from stored_flush [OF reach_tick.hyps(2) this] q show ?case
    by (auto simp: stored_def batch_cap_def)
next
  case (reach_close xs s)
  then show ?case by (auto simp: stored_def close_chan_def)
qed

lemma NewStore_stored: "NewStore path e1 e2 d i = Inr s0 \<Longrightarrow> stored P (db s0) [] s0 \<and> db s0 = d \<and> writer_live s0"
  by (auto simp: NewStore_def stored_def batch_cap_def split: if_splits option.splits)

text \<open>
  C3: the store is a bounded queue in front of the database. In every run of a new store the
  operations it has accepted are, in the order of their acceptance, those the writer has handled,
  then its batch, then the channel; the database is what a subsequence of the handled ones makes of
  the initial one, and all of them when no transaction fails: nothing is reordered or applied twice.
  Channel and batch stay within their bounds.
\<close>

theorem store_refines_log:
  assumes "NewStore path None None d interval = Inr s0" "store_reach P s0 xs s"
  shows "\<exists>hs ds. xs = hs @ batch s @ chan s \<and> subseq ds hs \<and> db s = apply_ops ds d \<and>
    ((\<forall>t. P t \<longrightarrow> all_ok t) \<longrightarrow> ds = hs) \<and> length (chan s) \<le> 1024 \<and> length (batch s) < 128"
  using store_reach_stored [OF assms(2)] NewStore_stored [OF assms(1)]
  by (auto simp: stored_def chan_cap_def batch_cap_def)

definition wit_store :: store where
  "wit_store =
     \<lparr>chan = [], chan_closed = False, batch = [], db = empty_db, done_chans = {}, writer_live = True,
      flushInterval = default_flush\<rparr>"

definition wit_ops :: "op list" where
  "wit_ops =
     [OpStart \<lparr>ss_ID = ''s1'', EntryNodePeer = ''p'', ss_Protocol = ''plain'', ss_Transport = '''',
        ClientRegion = '''', NodeRegion = ''de'', StartedAt = 1\<rparr>,
      OpEnd \<lparr>se_ID = ''s1'', BytesUp = 5, BytesDown = 6, Success = True, ErrorReason = '''', EndedAt = 2\<rparr>]"

definition tx_good :: tx_env where
  "tx_good = \<lparr>begin_ok = True, exec_ok = (\<lambda>_. True), commit_ok = True\<rparr>"

lemma wit_store_new: "NewStore ''m.db'' None None empty_db 0 = Inr wit_store"
  by (simp add: NewStore_def wit_store_def)

lemma wit_store_reach: "store_reach all_ok wit_store wit_ops (wit_store\<lparr>chan := wit_ops\<rparr>)"
proof -
  have "store_reach all_ok wit_store ([] @ [hd wit_ops]) (wit_store\<lparr>chan := [hd wit_ops]\<rparr>)"
    by (rule reach_send [OF reach_start]) (simp add: send_def wit_store_def chan_cap_def)
  then have "store_reach all_ok wit_store (([] @ [hd wit_ops]) @ [last wit_ops]) (wit_store\<lparr>chan := wit_ops\<rparr>)"
    by (rule reach_send) (simp add: send_def wit_store_def chan_cap_def wit_ops_def)
  then show ?thesis by (simp add: wit_ops_def)
qed

lemma store_refines_log_witness:
  "\<exists>hs ds. wit_ops = hs @ [] @ wit_ops \<and> subseq ds hs \<and> empty_db = apply_ops ds empty_db"
  using store_refines_log [OF wit_store_new wit_store_reach] by (auto simp: wit_store_def)

lemma drain_stored:
  "stored P d0 xs s \<Longrightarrow> P t \<Longrightarrow> writer_live s \<Longrightarrow> chan_closed s \<Longrightarrow>
     stored P d0 xs (drain t s) \<and> \<not> writer_live (drain t s)"
proof (induction t s rule: drain.induct)
  case (1 t s)
  have "\<exists>s'. writer_recv t s = Some s'"
    using 1(4,5) by (auto simp: writer_recv_def Let_def split: list.splits)
  then obtain s' where s': "writer_recv t s = Some s'" by blast
  have st: "stored P d0 xs s'" by (rule stored_recv [OF 1(3,2) s'])
  show ?case
  proof (cases "chan s")
    case Nil
    with s' st show ?thesis
      by (subst (1 2) drain.simps) (auto simp: writer_recv_def split: if_splits)
  next
    case (Cons x ys)
    with s' 1(4,5) have "writer_live s'" "chan_closed s'"
      by (auto simp: writer_recv_def Let_def split: if_splits)
    with 1(1) [OF s' _ st 1(3)] Cons s' show ?thesis by (subst (1 2) drain.simps) simp
  qed
qed

text \<open>
  C37: closing the store loses nothing. In every run in which no transaction fails, once the channel
  is closed the writer takes what is left, ends, and the database then holds every operation that
  was ever accepted, in order. (\<open>Close\<close> waits for exactly this.)
\<close>

theorem store_close_drains:
  assumes "NewStore path None None d interval = Inr s0" "store_reach all_ok s0 xs s" "all_ok t"
    and "chan_closed s" "writer_live s"
  shows "\<not> writer_live (drain t s) \<and> chan (drain t s) = [] \<and> batch (drain t s) = [] \<and>
    db (drain t s) = apply_ops xs d"
proof -
  have "stored all_ok d xs s"
    using store_reach_stored [OF assms(2)] NewStore_stored [OF assms(1)] by auto
  from drain_stored [OF this assms(3,5,4)] show ?thesis by (auto simp: stored_def)
qed

lemma store_close_drains_witness:
  "db (drain tx_good (close_chan (wit_store\<lparr>chan := wit_ops\<rparr>))) = apply_ops wit_ops empty_db"
  using store_close_drains [OF wit_store_new reach_close [OF wit_store_reach], of tx_good]
  by (simp add: tx_good_def all_ok_def close_chan_def wit_store_def)

section \<open>The row of a session\<close>

fun op_sid :: "op \<Rightarrow> string option" where
  "op_sid (OpStart s) = Some (ss_ID s)"
| "op_sid (OpEnd e) = Some (se_ID e)"
| "op_sid (OpUpdate sid du dd) = Some sid"
| "op_sid _ = None"

fun row_op :: "op \<Rightarrow> session_row option \<Rightarrow> session_row option" where
  "row_op (OpStart s) None =
     Some \<lparr>row_start = s, end_time = None, bytes_up = None, bytes_down = None, success = None,
           error_reason = None\<rparr>"
| "row_op (OpEnd e) (Some r) = Some (end_row e r)"
| "row_op (OpUpdate sid du dd) (Some r) =
     Some (r\<lparr>bytes_up := Some (coalesce (bytes_up r) + du), bytes_down := Some (coalesce (bytes_down r) + dd)\<rparr>)"
| "row_op x r = r"

lemma sessions_apply_op:
  "sessions (apply_op x d) sid =
     (if op_sid x = Some sid then row_op x (sessions d sid) else sessions d sid)"
  by (cases x; cases "sessions d sid") (auto simp: insert_session_def update_row_def split: option.split)

lemma sessions_apply_ops:
  "sessions (apply_ops xs d) sid = fold row_op (filter (\<lambda>x. op_sid x = Some sid) xs) (sessions d sid)"
  by (induction xs arbitrary: d) (auto simp: sessions_apply_op)

lemma fold_updates:
  "\<forall>x\<in>set us. \<exists>sid du dd. x = OpUpdate sid du dd \<Longrightarrow>
     \<exists>r'. fold row_op us (Some r) = Some r' \<and> row_start r' = row_start r"
proof (induction us arbitrary: r)
  case Nil
  then show ?case by simp
next
  case (Cons u us)
  then obtain sid du dd where u: "u = OpUpdate sid du dd" by auto
  define r1 where "r1 = r\<lparr>bytes_up := Some (coalesce (bytes_up r) + du), bytes_down := Some (coalesce (bytes_down r) + dd)\<rparr>"
  from Cons.IH [of r1] Cons.prems u show ?case by (auto simp: r1_def)
qed

text \<open>
  A session ends with its final figures. However the operations of other sessions and the
  samples and events are interleaved, a session that was started once, updated any number of times
  and ended has one row with the data of its start and exactly the counts, verdict and reason of its
  end; the operations of one session never touch the row of another.
\<close>

theorem session_row_final:
  assumes "filter (\<lambda>x. op_sid x = Some sid) xs = OpStart st # us @ [OpEnd e]"
    and "\<forall>x\<in>set us. \<exists>i du dd. x = OpUpdate i du dd" and "sessions d sid = None"
  shows "sessions (apply_ops xs d) sid =
      Some \<lparr>row_start = st, end_time = Some (EndedAt e), bytes_up = Some (BytesUp e),
            bytes_down = Some (BytesDown e), success = Some (Success e), error_reason = Some (ErrorReason e)\<rparr> \<and>
    (\<forall>other. filter (\<lambda>x. op_sid x = Some other) xs = [] \<longrightarrow>
       sessions (apply_ops xs d) other = sessions d other)"
proof (intro conjI allI impI)
  let ?r = "\<lparr>row_start = st, end_time = None, bytes_up = None, bytes_down = None, success = None,
    error_reason = None\<rparr>"
  from fold_updates [OF assms(2), of ?r] obtain r' where "fold row_op us (Some ?r) = Some r'" "row_start r' = st"
    by auto
  then show "sessions (apply_ops xs d) sid =
      Some \<lparr>row_start = st, end_time = Some (EndedAt e), bytes_up = Some (BytesUp e),
            bytes_down = Some (BytesDown e), success = Some (Success e), error_reason = Some (ErrorReason e)\<rparr>"
    using assms(1,3) by (simp add: sessions_apply_ops end_row_def)
  show "sessions (apply_ops xs d) other = sessions d other"
    if "filter (\<lambda>x. op_sid x = Some other) xs = []" for other
    by (simp add: sessions_apply_ops that)
qed

lemma session_row_final_witness:
  "map_option bytes_up (sessions (apply_ops (OpEvent ''s2'' 0 ''e'' '''' # wit_ops) empty_db) ''s1'') = Some (Some 5)"
  using session_row_final [of "''s1''" "OpEvent ''s2'' 0 ''e'' '''' # wit_ops"
      "\<lparr>ss_ID = ''s1'', EntryNodePeer = ''p'', ss_Protocol = ''plain'', ss_Transport = '''',
        ClientRegion = '''', NodeRegion = ''de'', StartedAt = 1\<rparr>" "[]"
      "\<lparr>se_ID = ''s1'', BytesUp = 5, BytesDown = 6, Success = True, ErrorReason = '''', EndedAt = 2\<rparr>" empty_db]
  by (simp add: wit_ops_def empty_db_def)

section \<open>FlushNow\<close>

definition pending :: "nat \<Rightarrow> store \<Rightarrow> bool" where
  "pending n s \<longleftrightarrow> OpFlush n \<in> set (batch s) \<union> set (chan s)"

lemma flush_not_pending:
  "\<not> pending n s \<Longrightarrow> n \<notin> done_chans s \<Longrightarrow> \<not> pending n (flush t s) \<and> n \<notin> done_chans (flush t s)"
  by (auto simp: pending_def flush_def flush_ids_def)

lemma never_done:
  assumes "store_reach P s0 xs s" "\<not> pending n s0" "n \<notin> done_chans s0" "OpFlush n \<notin> set xs"
  shows "\<not> pending n s \<and> n \<notin> done_chans s"
  using assms
proof (induction rule: store_reach.induct)
  case (reach_recv xs s t s')
  then have q: "\<not> pending n s" "n \<notin> done_chans s" by auto
  have "\<not> pending n (s\<lparr>chan := ys, batch := batch s @ [x]\<rparr>)" if "chan s = x # ys" for x ys
    using q(1) that by (auto simp: pending_def)
  with q reach_recv(3) show ?case
    by (auto simp: writer_recv_def Let_def split: list.splits if_splits dest: flush_not_pending)
      (auto simp: pending_def flush_def flush_ids_def split: if_splits)
qed (auto simp: send_def pending_def close_chan_def writer_tick_def flush_def flush_ids_def split: if_splits)

text \<open>
  What \<open>FlushNow\<close> promises and what it does differ in two cases. It returns as soon as its
  function has run, so when the commit then fails nothing that was queued before it is in the
  database; and when the transaction does not even begin, its function is thrown away with the batch
  and it never returns, whatever the writer does afterwards.
\<close>

theorem flush_now_unreliable:
  assumes "OpFlush n \<in> set (batch s)" "n \<notin> done_chans s" "OpFlush n \<notin> set (chan s)"
  shows "(begin_ok t \<and> \<not> commit_ok t \<longrightarrow> flush_returns Sent n (flush t s) \<and> db (flush t s) = db s) \<and>
    (\<not> begin_ok t \<longrightarrow>
      (\<forall>xs s'. store_reach (\<lambda>_. True) (flush t s) xs s' \<and> OpFlush n \<notin> set xs \<longrightarrow> \<not> flush_returns Sent n s'))"
proof
  show "begin_ok t \<and> \<not> commit_ok t \<longrightarrow> flush_returns Sent n (flush t s) \<and> db (flush t s) = db s"
    using assms(1) by (auto simp: flush_def flush_returns_def flush_ids_def)
  show "\<not> begin_ok t \<longrightarrow>
      (\<forall>xs s'. store_reach (\<lambda>_. True) (flush t s) xs s' \<and> OpFlush n \<notin> set xs \<longrightarrow> \<not> flush_returns Sent n s')"
  proof (intro impI allI)
    fix xs s'
    assume b: "\<not> begin_ok t" and r: "store_reach (\<lambda>_. True) (flush t s) xs s' \<and> OpFlush n \<notin> set xs"
    have "\<not> pending n (flush t s)" "n \<notin> done_chans (flush t s)"
      using b assms by (auto simp: flush_def pending_def)
    with never_done [of "\<lambda>_. True" "flush t s" xs s' n] r show "\<not> flush_returns Sent n s'"
      by (simp add: flush_returns_def)
  qed
qed

lemma flush_now_unreliable_witness:
  "flush_returns Sent 0 (flush (tx_good\<lparr>commit_ok := False\<rparr>) (wit_store\<lparr>batch := wit_ops @ [OpFlush 0]\<rparr>)) \<and>
   db (flush (tx_good\<lparr>commit_ok := False\<rparr>) (wit_store\<lparr>batch := wit_ops @ [OpFlush 0]\<rparr>)) = empty_db"
  using flush_now_unreliable [of 0 "wit_store\<lparr>batch := wit_ops @ [OpFlush 0]\<rparr>" "tx_good\<lparr>commit_ok := False\<rparr>"]
  by (simp add: wit_store_def tx_good_def)

end
