(* ===== verification/SmartClient.thy ===== *)
theory SmartClient
  imports ProxyClient "HOL-Library.Multiset"
begin

text \<open>
  \<open>hypernet/services/proxy/smartclient/smartclient.go\<close>: choosing a node. The smart client finds the
  providers of a protocol (through the DHT or its cache), orders them by what it remembers of them and
  dials through one after the other with \<open>DialTCPWithFallback\<close>.

  The order is made with \<open>sort.SliceStable\<close>, whose algorithm (insertion sort of blocks of 20 and
  in-place merging) matters here because the comparison function of the code looks at positions and
  not at elements; it is defined first.
\<close>

section \<open>sort.SliceStable\<close>

text \<open>The comparison of the positions \<open>i\<close> and \<open>j\<close>. No call below leaves the slice.\<close>

type_synonym less_fun = "nat \<Rightarrow> nat \<Rightarrow> bool"

definition swap :: "nat \<Rightarrow> nat \<Rightarrow> 'a list \<Rightarrow> 'a list" where
  "swap i j xs =
     (if i < length xs \<and> j < length xs then xs[j := xs ! i, i := xs ! j] else xs)"

fun sift :: "less_fun \<Rightarrow> nat \<Rightarrow> nat \<Rightarrow> 'a list \<Rightarrow> 'a list" where
  "sift lt a 0 xs = xs"
| "sift lt a (Suc j) xs =
     (if a < Suc j \<and> lt (Suc j) j then sift lt a j (swap (Suc j) j xs) else xs)"

definition insertion_sort :: "less_fun \<Rightarrow> nat \<Rightarrow> nat \<Rightarrow> 'a list \<Rightarrow> 'a list" where
  "insertion_sort lt a b xs = fold (sift lt a) [Suc a..<b] xs"

text \<open>The binary searches of the merge.\<close>

function bsearch :: "(nat \<Rightarrow> bool) \<Rightarrow> nat \<Rightarrow> nat \<Rightarrow> nat" where
  "bsearch p i j =
     (if i < j then let h = (i + j) div 2 in if p h then bsearch p (Suc h) j else bsearch p i h else i)"
  by pat_completeness auto
termination
  by (relation "measure (\<lambda>(p, i, j). j - i)") auto

definition swap_range :: "nat \<Rightarrow> nat \<Rightarrow> nat \<Rightarrow> 'a list \<Rightarrow> 'a list" where
  "swap_range a b n xs = fold (\<lambda>i. swap (a + i) (b + i)) [0..<n] xs"

text \<open>\<open>rotate\<close>: the lengths \<open>i\<close> and \<open>j\<close> of the two blocks are positive.\<close>

function rotate_loop :: "nat \<Rightarrow> nat \<Rightarrow> nat \<Rightarrow> 'a list \<Rightarrow> 'a list" where
  "rotate_loop m i j xs =
     (if i = j \<or> i = 0 \<or> j = 0 then swap_range (m - i) m i xs
      else if i > j then rotate_loop m (i - j) j (swap_range (m - i) m j xs)
      else rotate_loop m i (j - i) (swap_range (m - i) (m + j - i) i xs))"
  by pat_completeness auto
termination
  by (relation "measure (\<lambda>(m, i, j, xs). i + j)") auto

definition go_rotate :: "nat \<Rightarrow> nat \<Rightarrow> nat \<Rightarrow> 'a list \<Rightarrow> 'a list" where
  "go_rotate a m b xs = rotate_loop m (m - a) (b - m) xs"

text \<open>\<open>symMerge\<close> of the sorted parts from \<open>a\<close> to \<open>m\<close> and from \<open>m\<close> to \<open>b\<close>; first the position it searches.\<close>

definition merge_start :: "less_fun \<Rightarrow> nat \<Rightarrow> nat \<Rightarrow> nat \<Rightarrow> nat" where
  "merge_start lt a m b =
     (let mid = (a + b) div 2; n = mid + m
      in bsearch (\<lambda>c. \<not> lt (n - 1 - c) c) (if m > mid then n - b else a) (if m > mid then mid else m))"

function sym_merge :: "less_fun \<Rightarrow> nat \<Rightarrow> nat \<Rightarrow> nat \<Rightarrow> 'a list \<Rightarrow> 'a list" where
  "sym_merge lt a m b xs =
     (if m - a = 1 then
        fold (\<lambda>k. swap k (Suc k)) [a..<bsearch (\<lambda>h. lt h a) m b - 1] xs
      else if b - m = 1 then
        fold (\<lambda>k. swap k (k - 1)) (rev [Suc (bsearch (\<lambda>h. \<not> lt m h) a m)..<Suc m]) xs
      else
        let mid = (a + b) div 2; start = merge_start lt a m b; e = mid + m - start;
            xs1 = (if start < m \<and> m < e then go_rotate start m e xs else xs);
            xs2 = (if a < start \<and> start < mid then sym_merge lt a start mid xs1 else xs1)
        in if mid < e \<and> e < b then sym_merge lt mid e b xs2 else xs2)"
  by pat_completeness auto

lemma mid_shrinks:
  fixes a b x e :: nat
  assumes "x = (a + b) div 2"
  shows "a < e \<Longrightarrow> e < x \<Longrightarrow> x - a < b - a" "x < e \<Longrightarrow> e < b \<Longrightarrow> b - x < b - a"
  using assms by linarith+

termination sym_merge
  by (relation "measure (\<lambda>(lt, a, m, b, xs). b - a)")
    (simp, unfold in_measure prod.case, (elim conjE, erule (2) mid_shrinks)+)

function block_sorts :: "less_fun \<Rightarrow> nat \<Rightarrow> nat \<Rightarrow> 'a list \<Rightarrow> 'a list" where
  "block_sorts lt n a xs =
     (if a + 20 \<le> n then block_sorts lt n (a + 20) (insertion_sort lt a (a + 20) xs)
      else insertion_sort lt a n xs)"
  by pat_completeness auto
termination
  by (relation "measure (\<lambda>(lt, n, a, xs). n - a)") auto

function merge_pass :: "less_fun \<Rightarrow> nat \<Rightarrow> nat \<Rightarrow> nat \<Rightarrow> 'a list \<Rightarrow> 'a list" where
  "merge_pass lt n bs a xs =
     (if 0 < bs \<and> a + 2 * bs \<le> n
      then merge_pass lt n bs (a + 2 * bs) (sym_merge lt a (a + bs) (a + 2 * bs) xs)
      else if a + bs < n then sym_merge lt a (a + bs) n xs else xs)"
  by pat_completeness auto
termination
  by (relation "measure (\<lambda>(lt, n, bs, a, xs). n - a)") auto

function merge_loop :: "less_fun \<Rightarrow> nat \<Rightarrow> nat \<Rightarrow> 'a list \<Rightarrow> 'a list" where
  "merge_loop lt n bs xs =
     (if 0 < bs \<and> bs < n then merge_loop lt n (2 * bs) (merge_pass lt n bs 0 xs) else xs)"
  by pat_completeness auto
termination
  by (relation "measure (\<lambda>(lt, n, bs, xs). n - bs)") auto

definition slice_stable :: "less_fun \<Rightarrow> 'a list \<Rightarrow> 'a list" where
  "slice_stable lt xs = merge_loop lt (length xs) 20 (block_sorts lt (length xs) 0 xs)"

declare bsearch.simps [simp del]
declare rotate_loop.simps [simp del]
declare sym_merge.simps [simp del]
declare block_sorts.simps [simp del]
declare merge_pass.simps [simp del]
declare merge_loop.simps [simp del]

section \<open>The client's memory\<close>

record providerCacheEntry =
  pe_providers :: "AddrInfo list"
  fetchedAt :: int

record peer_stats =
  lastSuccess :: int
  lastLatency :: duration
  failures :: nat
  lastFailure :: int

record SmartClient =
  has_discovery :: bool
  sc_token :: string
  MaxProviders :: int
  LatencyThreshold :: duration
  PreferredRegion :: string
  ProviderCacheTTL :: duration
  providerCache :: "string \<Rightarrow> providerCacheEntry option"
  peerStats :: "string \<Rightarrow> peer_stats option"

definition NewSmartClient :: "bool \<Rightarrow> string \<Rightarrow> SmartClient" where
  "NewSmartClient disc token =
     \<lparr>has_discovery = disc, sc_token = token, MaxProviders = 8, LatencyThreshold = 2 * Second,
      PreferredRegion = '''', ProviderCacheTTL = 5 * Minute, providerCache = (\<lambda>_. None),
      peerStats = (\<lambda>_. None)\<rparr>"

text \<open>
  What one dial of the smart client meets: the two searches, the connected peers, the multiaddr
  library, and for each attempt, by its number, the networks of its dials, its duration and the clock
  after it; further the clock when the cache is read, when it is written and when the order is made.
\<close>

record sc_env =
  find_region :: "string \<Rightarrow> string \<Rightarrow> int \<Rightarrow> err + AddrInfo list"
  find_protocol :: "string \<Rightarrow> int \<Rightarrow> err + AddrInfo list"
  connected_peers :: "string list"
  peer_addrs :: "string \<Rightarrow> string list"
  new_multiaddr :: "string \<Rightarrow> err + string"
  target_info :: peer_parser
  bench_plain :: bool
  attempt_net :: "nat \<Rightarrow> nat \<Rightarrow> net"
  attempt_time :: "nat \<Rightarrow> duration"
  attempt_clock :: "nat \<Rightarrow> int"
  t_lookup :: int
  t_fetch :: int
  t_order :: int

definition no_stats :: peer_stats where
  "no_stats = \<lparr>lastSuccess = 0, lastLatency = 0, failures = 0, lastFailure = 0\<rparr>"

definition stats_of :: "SmartClient \<Rightarrow> string \<Rightarrow> peer_stats" where
  "stats_of s i = (case peerStats s i of None \<Rightarrow> no_stats | Some st \<Rightarrow> st)"

definition recordSuccess :: "string \<Rightarrow> duration \<Rightarrow> int \<Rightarrow> SmartClient \<Rightarrow> SmartClient" where
  "recordSuccess i lat now s =
     s\<lparr>peerStats := (peerStats s)(i \<mapsto> (stats_of s i)\<lparr>lastSuccess := now, lastLatency := lat\<rparr>)\<rparr>"

definition recordFailure :: "string \<Rightarrow> int \<Rightarrow> SmartClient \<Rightarrow> SmartClient" where
  "recordFailure i now s =
     s\<lparr>peerStats := (peerStats s)(i \<mapsto>
         (stats_of s i)\<lparr>failures := failures (stats_of s i) + 1, lastFailure := now\<rparr>)\<rparr>"

definition buildMultiaddr :: "sc_env \<Rightarrow> AddrInfo \<Rightarrow> err + string" where
  "buildMultiaddr ev info =
     (case ai_addrs info of
        [] \<Rightarrow> Inl (Err (''no addresses for peer '' @ ai_id info))
      | a # _ \<Rightarrow> new_multiaddr ev (a @ ''/p2p/'' @ ai_id info))"

section \<open>Providers\<close>

definition getCachedProviders :: "sc_env \<Rightarrow> string \<Rightarrow> SmartClient \<Rightarrow> AddrInfo list \<times> bool" where
  "getCachedProviders ev proto s =
     (let ttl = (if ProviderCacheTTL s \<le> 0 then 5 * Minute else ProviderCacheTTL s)
      in case providerCache s proto of
           None \<Rightarrow> ([], False)
         | Some e \<Rightarrow>
             if pe_providers e = [] \<or> t_lookup ev - fetchedAt e > ttl then ([], False)
             else (pe_providers e, True))"

definition connected_candidates :: "sc_env \<Rightarrow> AddrInfo list" where
  "connected_candidates ev =
     map (\<lambda>p. \<lparr>ai_id = p, ai_addrs = peer_addrs ev p\<rparr>) (filter (\<lambda>p. peer_addrs ev p \<noteq> []) (connected_peers ev))"

definition fetchProviders :: "sc_env \<Rightarrow> string \<Rightarrow> int \<Rightarrow> SmartClient \<Rightarrow> (err + AddrInfo list) \<times> SmartClient" where
  "fetchProviders ev proto mx s =
     (case (if PreferredRegion s \<noteq> '''' then find_region ev proto (PreferredRegion s) mx else Inr []) of
        Inl e \<Rightarrow>
          (Inl (wrap_err (''smartclient: FindRegionProtocolProviders('' @ go_quote proto @ '','' @
                  go_quote (PreferredRegion s) @ '')'') e), s)
      | Inr regional \<Rightarrow>
          (case (if regional = [] then find_protocol ev proto mx else Inr regional) of
             Inl e \<Rightarrow>
               (Inl (wrap_err (''smartclient: FindProtocolProviders('' @ go_quote proto @ '')'') e), s)
           | Inr found \<Rightarrow>
               let providers = (if found = [] then connected_candidates ev else found)
               in (Inr providers,
                   if providers = [] then s
                   else s\<lparr>providerCache := (providerCache s)(proto \<mapsto>
                            \<lparr>pe_providers = providers, fetchedAt = t_fetch ev\<rparr>)\<rparr>)))"

text \<open>The scores are whole numbers, which the code's float64 represents exactly.\<close>

definition score :: "SmartClient \<Rightarrow> int \<Rightarrow> AddrInfo \<Rightarrow> int" where
  "score s now info =
     (case peerStats s (ai_id info) of
        None \<Rightarrow> 100
      | Some st \<Rightarrow>
          100 + (if lastLatency st > 0 then lastLatency st div Millisecond else 0) +
          (if failures st > 0
           then int (failures st) * 50 * (if now - lastFailure st < 30 * Minute then 2 else 1)
           else 0))"

text \<open>The comparison reads the scores of the positions, which were taken before the sort.\<close>

definition orderProviders :: "sc_env \<Rightarrow> AddrInfo list \<Rightarrow> SmartClient \<Rightarrow> AddrInfo list" where
  "orderProviders ev ps s =
     (let scores = map (score s (t_order ev)) ps
      in slice_stable (\<lambda>i j. scores ! i < scores ! j) ps)"

section \<open>Dialling\<close>

text \<open>
  The loop over the providers from attempt \<open>i\<close> on: the stream or the last error, the number of the
  next attempt and the client; \<open>None\<close> when a dial does not return.
\<close>

fun tryProviders ::
  "sc_env \<Rightarrow> string \<Rightarrow> string \<Rightarrow> int \<Rightarrow> nat \<Rightarrow> err option \<Rightarrow> AddrInfo list \<Rightarrow> SmartClient \<Rightarrow>
     ((err + sess) \<times> nat \<times> SmartClient) option"
where
  "tryProviders ev proto host port i lastErr [] s =
     Some (Inl (case lastErr of
                  None \<Rightarrow> Err (''smartclient: all provider attempts failed for protocol '' @ go_quote proto)
                | Some e \<Rightarrow> e), i, s)"
| "tryProviders ev proto host port i lastErr (p # ps) s =
     (case buildMultiaddr ev p of
        Inl e \<Rightarrow> tryProviders ev proto host port (Suc i) (Some e) ps s
      | Inr maddr \<Rightarrow>
          (case NewProxyClient (target_info ev) maddr (bench_plain ev) (sc_token s) of
             Inl e \<Rightarrow>
               tryProviders ev proto host port (Suc i) (Some e) ps (recordFailure (ai_id p) (attempt_clock ev i) s)
           | Inr pc \<Rightarrow>
               (case DialTCPWithFallback pc (attempt_net ev i) host port (LatencyThreshold s) of
                  None \<Rightarrow> None
                | Some d \<Rightarrow>
                    (case (d_err d, d_stream d) of
                       (None, Some st) \<Rightarrow>
                         Some (Inr st, Suc i, recordSuccess (ai_id p) (attempt_time ev i) (attempt_clock ev i) s)
                     | (e, _) \<Rightarrow>
                         tryProviders ev proto host port (Suc i) e ps
                           (recordFailure (ai_id p) (attempt_clock ev i) s)))))"

definition DialTCPViaProtocol ::
  "sc_env \<Rightarrow> string \<Rightarrow> string \<Rightarrow> int \<Rightarrow> SmartClient option \<Rightarrow> ((err + sess) \<times> SmartClient option) option"
where
  "DialTCPViaProtocol ev proto host port sc =
     (case sc of
        None \<Rightarrow> Some (Inl (Err ''smartclient: discovery is nil''), sc)
      | Some s \<Rightarrow>
          if \<not> has_discovery s then Some (Inl (Err ''smartclient: discovery is nil''), sc)
          else if proto = '''' then Some (Inl (Err ''smartclient: empty protocol name''), sc)
          else
            let mx = (if MaxProviders s \<le> 0 then 8 else MaxProviders s);
                (cached, from_cache) = getCachedProviders ev proto s
            in case (if cached = [] then fetchProviders ev proto mx s else (Inr cached, s)) of
                 (Inl e, s1) \<Rightarrow> Some (Inl e, Some s1)
               | (Inr [], s1) \<Rightarrow>
                   Some (Inl (Err (''smartclient: no providers found for protocol '' @ go_quote proto)), Some s1)
               | (Inr ps, s1) \<Rightarrow>
                   (case tryProviders ev proto host port 0 None (orderProviders ev ps s1) s1 of
                      None \<Rightarrow> None
                    | Some (Inr st, _, s2) \<Rightarrow> Some (Inr st, Some s2)
                    | Some (Inl e, i, s2) \<Rightarrow>
                        if \<not> from_cache then Some (Inl e, Some s2)
                        else case fetchProviders ev proto mx s2 of
                          (Inl _, s3) \<Rightarrow> Some (Inl e, Some s3)
                        | (Inr [], s3) \<Rightarrow> Some (Inl e, Some s3)
                        | (Inr fresh, s3) \<Rightarrow>
                            map_option (\<lambda>(r, _, s4). (r, Some s4)) (tryProviders ev proto host port i None fresh s3)))"

section \<open>The order\<close>

lemma mset_swap' [simp]: "mset (swap i j xs) = mset xs"
  by (simp add: swap_def mset_swap)

lemma mset_fold: "(\<And>i ys. mset (f i ys) = mset ys) \<Longrightarrow> mset (fold f is xs) = mset xs"
  by (induction "is" arbitrary: xs) simp_all

lemma mset_sift [simp]: "mset (sift lt a j xs) = mset xs"
  by (induction j arbitrary: xs) simp_all

lemma mset_insertion_sort [simp]: "mset (insertion_sort lt a b xs) = mset xs"
  by (simp add: insertion_sort_def mset_fold)

lemma mset_swap_range [simp]: "mset (swap_range a b n xs) = mset xs"
  by (simp add: swap_range_def mset_fold)

lemma mset_rotate [simp]: "mset (go_rotate a m b xs) = mset xs"
proof -
  have "mset (rotate_loop m i j xs) = mset xs" for i j
    by (induction m i j xs rule: rotate_loop.induct) (subst rotate_loop.simps, simp)
  then show ?thesis by (simp add: go_rotate_def)
qed

lemma mset_sym_merge [simp]: "mset (sym_merge lt a m b xs) = mset xs"
proof (induction lt a m b xs rule: sym_merge.induct)
  case (1 lt a m b xs)
  show ?case
    using 1 by (subst sym_merge.simps) (simp add: mset_fold Let_def)
qed

lemma mset_slice_stable [simp]: "mset (slice_stable lt xs) = mset xs"
proof -
  have b: "mset (block_sorts lt n a xs) = mset xs" for lt n a and xs :: "'a list"
    by (induction lt n a xs rule: block_sorts.induct) (subst block_sorts.simps, simp)
  have p: "mset (merge_pass lt n bs a xs) = mset xs" for lt n bs a and xs :: "'a list"
    by (induction lt n bs a xs rule: merge_pass.induct) (subst merge_pass.simps, simp)
  have "mset (merge_loop lt n bs xs) = mset xs" for lt n bs and xs :: "'a list"
    by (induction lt n bs xs rule: merge_loop.induct) (subst merge_loop.simps, simp add: p)
  with b show ?thesis by (simp add: slice_stable_def)
qed

lemma mset_orderProviders [simp]: "mset (orderProviders ev ps s) = mset ps"
  by (simp add: orderProviders_def Let_def)

text \<open>
  The order of three providers can be wrong. The comparison reads the scores by position, but
  the sort moves the providers and not the scores; when the third provider has the best score and
  the first is not worse than the second, the third is moved up only one place, behind the first.
\<close>

theorem order_misplaces_best:
  assumes "score s (t_order ev) c < score s (t_order ev) a" "score s (t_order ev) a \<le> score s (t_order ev) b"
  shows "orderProviders ev [a, b, c] s = [a, c, b]"
proof -
  let ?lt = "\<lambda>i j. map (score s (t_order ev)) [a, b, c] ! i < map (score s (t_order ev)) [a, b, c] ! j"
  have "insertion_sort ?lt 0 3 [a, b, c] = [a, c, b]"
    using assms by (simp add: insertion_sort_def upt_rec numeral_2_eq_2 numeral_3_eq_3 swap_def)
  then show ?thesis
    by (simp add: orderProviders_def Let_def slice_stable_def merge_loop.simps block_sorts.simps numeral_3_eq_3)
qed

definition wit_info :: "string \<Rightarrow> AddrInfo" where
  "wit_info i = \<lparr>ai_id = i, ai_addrs = [''/ip4/1.2.3.4/tcp/1'']\<rparr>"

definition wit_sc :: SmartClient where
  "wit_sc =
     recordFailure ''a'' 0 (recordFailure ''b'' 0 (NewSmartClient True ''secret''))"

definition wit_sc_env :: "AddrInfo list \<Rightarrow> sc_env" where
  "wit_sc_env ps =
     \<lparr>find_region = (\<lambda>_ _ _. Inr []), find_protocol = (\<lambda>_ _. Inr ps), connected_peers = [],
      peer_addrs = (\<lambda>_. []), new_multiaddr = (\<lambda>a. Inr a), target_info = (\<lambda>_. Inr (Inr (wit_info ''a''))),
      bench_plain = True,
      attempt_net = (\<lambda>i _. (wit_net (wire_of [] None))\<lparr>n_connect := \<lambda>_. Some (Err ''unreachable'')\<rparr>),
      attempt_time = (\<lambda>_. Second), attempt_clock = (\<lambda>_. 0), t_lookup = 0, t_fetch = 0, t_order = 0\<rparr>"

lemma order_misplaces_best_witness:
  "orderProviders (wit_sc_env []) [wit_info ''a'', wit_info ''b'', wit_info ''new''] wit_sc =
     [wit_info ''a'', wit_info ''new'', wit_info ''b''] \<and>
   score wit_sc 0 (wit_info ''new'') < score wit_sc 0 (wit_info ''a'')"
proof -
  have "score wit_sc 0 (wit_info ''new'') = 100" "score wit_sc 0 (wit_info ''a'') = 200"
    "score wit_sc 0 (wit_info ''b'') = 200"
    by (simp_all add: score_def wit_sc_def recordFailure_def NewSmartClient_def wit_info_def stats_of_def
        no_stats_def Minute_def)
  with order_misplaces_best [of wit_sc "wit_sc_env []" "wit_info ''new''" "wit_info ''a''" "wit_info ''b''"]
  show ?thesis by (simp add: wit_sc_env_def)
qed

section \<open>The attempts\<close>

definition failures_of :: "SmartClient \<Rightarrow> string \<Rightarrow> nat" where
  "failures_of s i = failures (stats_of s i)"

lemma failures_of_record [simp]:
  "failures_of (recordFailure j t s) i = failures_of s i + (if i = j then 1 else 0)"
  "failures_of (recordSuccess j l t s) i = failures_of s i"
  by (simp_all add: failures_of_def recordFailure_def recordSuccess_def stats_of_def)

lemma cache_record [simp]:
  "providerCache (recordFailure j t s) = providerCache s" "providerCache (recordSuccess j l t s) = providerCache s"
  by (simp_all add: recordFailure_def recordSuccess_def)

text \<open>The attempts on a peer that are counted: those for which an address could be built.\<close>

definition attempts_on :: "sc_env \<Rightarrow> string \<Rightarrow> AddrInfo list \<Rightarrow> nat" where
  "attempts_on ev i ps = size (filter_mset (\<lambda>p. ai_id p = i \<and> (\<exists>a. buildMultiaddr ev p = Inr a)) (mset ps))"

lemma attempts_on_simps [simp]:
  "attempts_on ev i [] = 0"
  "attempts_on ev i (p # ps) =
     (if ai_id p = i \<and> (\<exists>a. buildMultiaddr ev p = Inr a) then 1 else 0) + attempts_on ev i ps"
  by (simp_all add: attempts_on_def)

text \<open>What a run of the loop leaves, by its result.\<close>

definition tried_all :: "sc_env \<Rightarrow> AddrInfo list \<Rightarrow> SmartClient \<Rightarrow> SmartClient \<Rightarrow> bool" where
  "tried_all ev ps s s' \<longleftrightarrow> (\<forall>i. failures_of s' i = failures_of s i + attempts_on ev i ps)"

definition credited :: "sc_env \<Rightarrow> nat \<Rightarrow> string \<Rightarrow> SmartClient \<Rightarrow> bool" where
  "credited ev n i s \<longleftrightarrow>
     lastSuccess (stats_of s i) = attempt_clock ev n \<and> lastLatency (stats_of s i) = attempt_time ev n"

lemma credited_record: "credited ev n i (recordSuccess i (attempt_time ev n) (attempt_clock ev n) s)"
  by (simp add: credited_def recordSuccess_def stats_of_def)

lemma tryProviders_counts:
  "tryProviders ev proto host port i e ps s = Some (r, j, s') \<Longrightarrow>
     providerCache s' = providerCache s \<and>
     (case r of
        Inl _ \<Rightarrow> j = i + length ps \<and> tried_all ev ps s s'
      | Inr st \<Rightarrow> \<exists>before p after. ps = before @ p # after \<and> tried_all ev before s s' \<and>
          credited ev (i + length before) (ai_id p) s')"
proof (induction ps arbitrary: i e s)
  case Nil
  then show ?case by (auto simp: tried_all_def)
next
  case (Cons p ps)
  have fail: ?case
    if h: "tryProviders ev proto host port (Suc i) e' ps s1 = Some (r, j, s')" "providerCache s1 = providerCache s"
      "\<And>k. failures_of s1 k = failures_of s k + attempts_on ev k [p]" for e' s1
  proof (cases r)
    case (Inl x)
    with Cons.IH [OF h(1)] h(2,3) show ?thesis by (auto simp: tried_all_def)
  next
    case (Inr st)
    with Cons.IH [OF h(1)] h(2) obtain before q after where q: "providerCache s' = providerCache s"
      "ps = before @ q # after" "tried_all ev before s1 s'"
      "credited ev (i + length (p # before)) (ai_id q) s'" by auto
    with h(3) have "tried_all ev (p # before) s s'" by (auto simp: tried_all_def)
    with q show ?thesis
      unfolding Inr sum.case
      by (intro conjI exI [of _ "p # before"] exI [of _ q] exI [of _ after]) simp_all
  qed
  show ?case
  proof (cases "buildMultiaddr ev p")
    case (Inl x)
    show ?thesis by (rule fail [of "Some x" s]) (use Cons.prems Inl in auto)
  next
    case maddr: (Inr a)
    define s1 where "s1 = recordFailure (ai_id p) (attempt_clock ev i) s"
    have s1: "providerCache s1 = providerCache s" "\<And>k. failures_of s1 k = failures_of s k + attempts_on ev k [p]"
      using maddr by (auto simp: s1_def)
    show ?thesis
    proof (cases "NewProxyClient (target_info ev) a (bench_plain ev) (sc_token s)")
      case (Inl x)
      show ?thesis by (rule fail [of "Some x", OF _ s1]) (use Cons.prems Inl maddr in \<open>simp add: s1_def\<close>)
    next
      case pc: (Inr pc)
      from Cons.prems maddr pc obtain d where
        d: "DialTCPWithFallback pc (attempt_net ev i) host port (LatencyThreshold s) = Some d"
        by (auto split: option.splits)
      show ?thesis
      proof (cases "\<exists>st. d_err d = None \<and> d_stream d = Some st")
        case True
        with Cons.prems maddr pc d have
          "s' = recordSuccess (ai_id p) (attempt_time ev i) (attempt_clock ev i) s" "\<exists>st. r = Inr st" by auto
        then obtain st where st: "r = Inr st"
          "s' = recordSuccess (ai_id p) (attempt_time ev i) (attempt_clock ev i) s" by blast
        show ?thesis
          unfolding st sum.case
          by (intro conjI exI [of _ "[]"] exI [of _ p] exI [of _ ps]) (simp_all add: tried_all_def credited_record)
      next
        case False
        show ?thesis
          by (rule fail [of "d_err d", OF _ s1])
            (use Cons.prems maddr pc d False in \<open>auto simp: s1_def split: option.splits\<close>)
      qed
    qed
  qed
qed


lemma wit_dial_fails:
  "\<exists>e s'. DialTCPViaProtocol (wit_sc_env [wit_info ''a'']) ''plain'' ''h'' 80 (Some (NewSmartClient True ''t'')) =
     Some (Inl e, Some s')"
  by (simp add: DialTCPViaProtocol_def NewSmartClient_def getCachedProviders_def fetchProviders_def wit_sc_env_def
      Let_def orderProviders_def slice_stable_def block_sorts.simps merge_loop.simps insertion_sort_def
      buildMultiaddr_def wit_info_def NewProxyClient_def DialTCPWithFallback_def DialTCP_def open_stream_def
      wit_net_def dial_fail_def)


end
