(* ===== verification/NodeConfig.thy ===== *)
theory NodeConfig
  imports GoDuration GoStrings
begin

text \<open>
  \<open>pkg/config/config.go\<close>: the configuration of a node. The environment (with the entries of a
  \<open>.env\<close> file already in it) maps names to values; package \<open>flag\<close> parses the command line, and
  \<open>flags\<close> holds the values of the flags that were given on it. A flag that was not given has the
  default that comes from the environment.
\<close>

type_synonym environ = "string \<Rightarrow> string option"

record flags =
  f_int :: "string \<Rightarrow> int option"
  f_string :: "string \<Rightarrow> string option"
  f_bool :: "string \<Rightarrow> bool option"
  f_duration :: "string \<Rightarrow> duration option"

record node_config =
  Port :: int
  KeyPath :: string
  BootstrapPeers :: "string list"
  EnableRelay :: bool
  EnableDHT :: bool
  DHTMode :: string
  Region :: string
  DisableQUIC :: bool
  GeoIPDBPath :: string
  MetricsDBPath :: string
  MetricsFlushInterval :: duration
  MetricsQualityInterval :: duration
  Target :: string
  PingCount :: int
  RelayMaxConnections :: int
  RelayDataLimitBytes :: int
  DNSNames :: "string list"
  DNSTTL :: duration
  DNSRefreshInterval :: duration
  Socks5Listen :: string
  HTTPProxyListen :: string
  Outbound :: string
  DokodemoListen :: string
  DokodemoTarget :: string
  RealityListen :: string
  RealityDest :: string
  RealityPrivateKey :: string
  RealityServerNames :: "string list"
  RealityShortIds :: "string list"
  ProxyProtocols :: "string list"

section \<open>Reading the environment\<close>

definition envString :: "environ \<Rightarrow> string \<Rightarrow> string \<Rightarrow> string" where
  "envString env key dflt = (case env key of Some v \<Rightarrow> if v \<noteq> '''' then v else dflt | None \<Rightarrow> dflt)"

text \<open>A variable that is unset or blank gives the default.\<close>

definition env_value :: "environ \<Rightarrow> string \<Rightarrow> string option" where
  "env_value env key =
     (case env key of None \<Rightarrow> None | Some v \<Rightarrow> if trim_space v = '''' then None else Some v)"

definition envInt :: "environ \<Rightarrow> string \<Rightarrow> int \<Rightarrow> int" where
  "envInt env key dflt =
     (case env_value env key of None \<Rightarrow> dflt
      | Some v \<Rightarrow> (case atoi v of None \<Rightarrow> dflt | Some i \<Rightarrow> i))"

definition envInt64 :: "environ \<Rightarrow> string \<Rightarrow> int \<Rightarrow> int" where
  "envInt64 env key dflt =
     (case env_value env key of None \<Rightarrow> dflt
      | Some v \<Rightarrow> (case atoi v of None \<Rightarrow> dflt | Some i \<Rightarrow> i))"

definition envBool :: "environ \<Rightarrow> string \<Rightarrow> bool \<Rightarrow> bool" where
  "envBool env key dflt =
     (case env_value env key of None \<Rightarrow> dflt
      | Some v \<Rightarrow>
          let w = to_lower (trim_space v)
          in if w \<in> {''1'', ''true'', ''t'', ''yes'', ''y''} then True
             else if w \<in> {''0'', ''false'', ''f'', ''no'', ''n''} then False
             else dflt)"

definition duration_or_second :: "string \<Rightarrow> duration" where
  "duration_or_second s = (case parse_duration s of None \<Rightarrow> Second | Some d \<Rightarrow> d)"

definition envDuration :: "environ \<Rightarrow> string \<Rightarrow> string \<Rightarrow> duration" where
  "envDuration env key dflt =
     (case env_value env key of None \<Rightarrow> duration_or_second dflt
      | Some v \<Rightarrow>
          (case parse_duration (trim_space v) of None \<Rightarrow> duration_or_second dflt | Some d \<Rightarrow> d))"

definition normalizeMode :: "string \<Rightarrow> string" where
  "normalizeMode s =
     (let m = to_lower (trim_space s)
      in if m = ''server'' then ''server'' else if m = ''client'' then ''client'' else ''auto'')"

section \<open>Loading\<close>

definition flag_or :: "'a option \<Rightarrow> 'a \<Rightarrow> 'a" where
  "flag_or given dflt = (case given of None \<Rightarrow> dflt | Some v \<Rightarrow> v)"

text \<open>A list separated by commas: the trimmed entries that are not empty.\<close>

definition split_list :: "string \<Rightarrow> string list" where
  "split_list s =
     (if trim_space s = '''' then []
      else filter (\<lambda>w. w \<noteq> '''') (map trim_space (go_split (CHR '','') (trim_space s))))"

definition split_lower :: "string \<Rightarrow> string list" where
  "split_lower s =
     (if trim_space s = '''' then []
      else filter (\<lambda>w. w \<noteq> '''') (map (\<lambda>w. trim_space (to_lower w)) (go_split (CHR '','') (trim_space s))))"

text \<open>Division of a duration by two, which truncates towards zero.\<close>

definition half :: "duration \<Rightarrow> duration" where
  "half d = (if d < 0 then - (- d div 2) else d div 2)"

definition refresh_interval :: "duration \<Rightarrow> duration \<Rightarrow> duration" where
  "refresh_interval ttl refresh = (if refresh \<le> 0 \<or> refresh > ttl then half ttl else refresh)"

definition Load :: "environ \<Rightarrow> flags \<Rightarrow> err + node_config" where
  "Load env fl =
     (let int_flag = (\<lambda>name key dflt. flag_or (f_int fl name) (envInt env key dflt));
          str_flag = (\<lambda>name key dflt. flag_or (f_string fl name) (envString env key dflt));
          bool_flag = (\<lambda>name key. flag_or (f_bool fl name) (envBool env key False));
          dur_flag = (\<lambda>name key dflt. flag_or (f_duration fl name) (envDuration env key dflt));
          port = int_flag ''port'' ''PORT'' 4001;
          ping = int_flag ''ping-count'' ''PING_COUNT'' 1;
          ttl = dur_flag ''dns-ttl'' ''DNS_TTL'' ''86400s'';
          outbound = trim_space (str_flag ''outbound'' ''OUTBOUND'' ''freedom'')
      in if port \<le> 0 \<or> port > 65535 then Inl (Err (''invalid port: '' @ itoa port))
         else Inr
           \<lparr>Port = port,
            KeyPath = str_flag ''key-path'' ''KEY_PATH'' ''node.key'',
            BootstrapPeers = split_list (str_flag ''bootstrap-peers'' ''BOOTSTRAP_PEERS'' ''''),
            EnableRelay = bool_flag ''relay'' ''RELAY'',
            EnableDHT = bool_flag ''dht'' ''DHT'',
            DHTMode = normalizeMode (str_flag ''dht-mode'' ''DHT_MODE'' ''auto''),
            Region = trim_space (str_flag ''region'' ''REGION'' ''''),
            DisableQUIC = bool_flag ''disable-quic'' ''DISABLE_QUIC'',
            GeoIPDBPath = trim_space (str_flag ''geoip-db-path'' ''GEOIP_DB_PATH'' ''''),
            MetricsDBPath = trim_space (str_flag ''metrics-db-path'' ''METRICS_DB_PATH'' ''./hypernet.db''),
            MetricsFlushInterval = dur_flag ''metrics-flush-interval'' ''METRICS_FLUSH_INTERVAL'' ''1s'',
            MetricsQualityInterval = dur_flag ''metrics-quality-interval'' ''METRICS_QUALITY_INTERVAL'' ''30s'',
            Target = str_flag ''target'' ''TARGET'' '''',
            PingCount = (if ping \<le> 0 then 1 else ping),
            RelayMaxConnections = int_flag ''relay-max-connections'' ''RELAY_MAX_CONNECTIONS'' 0,
            RelayDataLimitBytes =
              flag_or (f_int fl ''relay-data-limit'') (envInt64 env ''RELAY_DATA_LIMIT'' 0),
            DNSNames = split_list (str_flag ''dns-names'' ''DNS_NAMES'' ''''),
            DNSTTL = ttl,
            DNSRefreshInterval =
              refresh_interval ttl (dur_flag ''dns-refresh-interval'' ''DNS_REFRESH_INTERVAL'' ''43200s''),
            Socks5Listen = trim_space (str_flag ''socks5-listen'' ''SOCKS5_LISTEN'' ''''),
            HTTPProxyListen = trim_space (str_flag ''http-proxy-listen'' ''HTTP_PROXY_LISTEN'' ''''),
            Outbound = (if outbound = '''' then ''freedom'' else outbound),
            DokodemoListen = trim_space (str_flag ''dokodemo-listen'' ''DOKODEMO_LISTEN'' ''''),
            DokodemoTarget = trim_space (str_flag ''dokodemo-target'' ''DOKODEMO_TARGET'' ''''),
            RealityListen = trim_space (str_flag ''reality-listen'' ''REALITY_LISTEN'' ''''),
            RealityDest = trim_space (str_flag ''reality-dest'' ''REALITY_DEST'' ''''),
            RealityPrivateKey = trim_space (str_flag ''reality-private-key'' ''REALITY_PRIVATE_KEY'' ''''),
            RealityServerNames = split_list (str_flag ''reality-server-names'' ''REALITY_SERVER_NAMES'' ''''),
            RealityShortIds = split_list (str_flag ''reality-short-ids'' ''REALITY_SHORT_IDS'' ''''),
            ProxyProtocols = split_lower (str_flag ''proxy-protocols'' ''PROXY_PROTOCOLS'' '''')\<rparr>)"

section \<open>Properties\<close>

definition config_ok :: "node_config \<Rightarrow> bool" where
  "config_ok c \<longleftrightarrow>
     0 < Port c \<and> Port c \<le> 65535 \<and> 0 < PingCount c \<and>
     DHTMode c \<in> {''server'', ''client'', ''auto''} \<and> Outbound c \<noteq> '''' \<and>
     '''' \<notin> set (BootstrapPeers c) \<union> set (DNSNames c) \<union> set (ProxyProtocols c) \<union>
       set (RealityServerNames c) \<union> set (RealityShortIds c) \<and>
     (1 < DNSTTL c \<longrightarrow> 0 < DNSRefreshInterval c \<and> DNSRefreshInterval c \<le> DNSTTL c)"

lemma split_nonempty: "'''' \<notin> set (split_list s)" "'''' \<notin> set (split_lower s)"
  by (auto simp: split_list_def split_lower_def)

lemma normalizeMode_cases: "normalizeMode s \<in> {''server'', ''client'', ''auto''}"
  by (simp add: normalizeMode_def Let_def)

lemma refresh_interval_ok: "1 < ttl \<Longrightarrow> 0 < refresh_interval ttl r \<and> refresh_interval ttl r \<le> ttl"
  by (auto simp: refresh_interval_def half_def)

text \<open>
  The options: the name of the flag and the variable that gives its default.
\<close>

definition int_vars :: "(string \<times> string) list" where
  "int_vars = [(''port'', ''PORT''), (''ping-count'', ''PING_COUNT''),
     (''relay-max-connections'', ''RELAY_MAX_CONNECTIONS''), (''relay-data-limit'', ''RELAY_DATA_LIMIT'')]"

definition bool_vars :: "(string \<times> string) list" where
  "bool_vars = [(''relay'', ''RELAY''), (''dht'', ''DHT''), (''disable-quic'', ''DISABLE_QUIC'')]"

definition duration_vars :: "(string \<times> string) list" where
  "duration_vars = [(''metrics-flush-interval'', ''METRICS_FLUSH_INTERVAL''),
     (''metrics-quality-interval'', ''METRICS_QUALITY_INTERVAL''), (''dns-ttl'', ''DNS_TTL''),
     (''dns-refresh-interval'', ''DNS_REFRESH_INTERVAL'')]"

definition string_vars :: "(string \<times> string) list" where
  "string_vars = [(''key-path'', ''KEY_PATH''), (''bootstrap-peers'', ''BOOTSTRAP_PEERS''),
     (''dht-mode'', ''DHT_MODE''), (''region'', ''REGION''), (''geoip-db-path'', ''GEOIP_DB_PATH''),
     (''metrics-db-path'', ''METRICS_DB_PATH''), (''target'', ''TARGET''), (''dns-names'', ''DNS_NAMES''),
     (''socks5-listen'', ''SOCKS5_LISTEN''), (''http-proxy-listen'', ''HTTP_PROXY_LISTEN''),
     (''outbound'', ''OUTBOUND''), (''dokodemo-listen'', ''DOKODEMO_LISTEN''),
     (''dokodemo-target'', ''DOKODEMO_TARGET''), (''reality-listen'', ''REALITY_LISTEN''),
     (''reality-dest'', ''REALITY_DEST''), (''reality-private-key'', ''REALITY_PRIVATE_KEY''),
     (''reality-server-names'', ''REALITY_SERVER_NAMES''), (''reality-short-ids'', ''REALITY_SHORT_IDS''),
     (''proxy-protocols'', ''PROXY_PROTOCOLS'')]"

text \<open>The variables whose flag is not on the command line.\<close>

definition consulted :: "flags \<Rightarrow> string list" where
  "consulted fl =
     map snd (filter (\<lambda>(n, k). f_int fl n = None) int_vars) @
     map snd (filter (\<lambda>(n, k). f_bool fl n = None) bool_vars) @
     map snd (filter (\<lambda>(n, k). f_duration fl n = None) duration_vars) @
     map snd (filter (\<lambda>(n, k). f_string fl n = None) string_vars)"

lemma env_same:
  assumes "env' k = env k"
  shows "envInt env' k i = envInt env k i" "envInt64 env' k i = envInt64 env k i"
    "envBool env' k b = envBool env k b" "envDuration env' k d = envDuration env k d"
    "envString env' k s = envString env k s"
  using assms by (simp_all add: envInt_def envInt64_def envBool_def envDuration_def envString_def env_value_def)

lemma consulted_from:
  "(n, k) \<in> set vs \<Longrightarrow> P n \<Longrightarrow> k \<in> set (map snd (filter (\<lambda>(n, k). P n) vs))"
  by force

lemma consulted_vars:
  "(n, k) \<in> set int_vars \<Longrightarrow> f_int fl n = None \<Longrightarrow> k \<in> set (consulted fl)"
  "(n, k) \<in> set bool_vars \<Longrightarrow> f_bool fl n = None \<Longrightarrow> k \<in> set (consulted fl)"
  "(n, k) \<in> set duration_vars \<Longrightarrow> f_duration fl n = None \<Longrightarrow> k \<in> set (consulted fl)"
  "(n, k) \<in> set string_vars \<Longrightarrow> f_string fl n = None \<Longrightarrow> k \<in> set (consulted fl)"
  unfolding consulted_def set_append
  using consulted_from [of n k int_vars "\<lambda>n. f_int fl n = None"] consulted_from [of n k bool_vars "\<lambda>n. f_bool fl n = None"]
    consulted_from [of n k duration_vars "\<lambda>n. f_duration fl n = None"]
    consulted_from [of n k string_vars "\<lambda>n. f_string fl n = None"] by simp_all

lemma consulted_same:
  assumes "\<forall>k\<in>set (consulted fl). env' k = env k"
  shows "(n, k) \<in> set int_vars \<Longrightarrow> flag_or (f_int fl n) (envInt env' k i) = flag_or (f_int fl n) (envInt env k i)"
    "(n, k) \<in> set int_vars \<Longrightarrow> flag_or (f_int fl n) (envInt64 env' k i) = flag_or (f_int fl n) (envInt64 env k i)"
    "(n, k) \<in> set bool_vars \<Longrightarrow> flag_or (f_bool fl n) (envBool env' k b) = flag_or (f_bool fl n) (envBool env k b)"
    "(n, k) \<in> set duration_vars \<Longrightarrow>
       flag_or (f_duration fl n) (envDuration env' k d) = flag_or (f_duration fl n) (envDuration env k d)"
    "(n, k) \<in> set string_vars \<Longrightarrow>
       flag_or (f_string fl n) (envString env' k s) = flag_or (f_string fl n) (envString env k s)"
proof -
  note same = assms [rule_format, OF consulted_vars(1)] assms [rule_format, OF consulted_vars(2)]
    assms [rule_format, OF consulted_vars(3)] assms [rule_format, OF consulted_vars(4)]
  show "(n, k) \<in> set int_vars \<Longrightarrow> flag_or (f_int fl n) (envInt env' k i) = flag_or (f_int fl n) (envInt env k i)"
    "(n, k) \<in> set int_vars \<Longrightarrow> flag_or (f_int fl n) (envInt64 env' k i) = flag_or (f_int fl n) (envInt64 env k i)"
    using env_same(1,2) [of env' k env] same(1) [of n k] by (cases "f_int fl n"; simp add: flag_or_def)+
  show "(n, k) \<in> set bool_vars \<Longrightarrow> flag_or (f_bool fl n) (envBool env' k b) = flag_or (f_bool fl n) (envBool env k b)"
    using env_same(3) [of env' k env] same(2) [of n k] by (cases "f_bool fl n"; simp add: flag_or_def)
  show "(n, k) \<in> set duration_vars \<Longrightarrow>
       flag_or (f_duration fl n) (envDuration env' k d) = flag_or (f_duration fl n) (envDuration env k d)"
    using env_same(4) [of env' k env] same(3) [of n k] by (cases "f_duration fl n"; simp add: flag_or_def)
  show "(n, k) \<in> set string_vars \<Longrightarrow>
       flag_or (f_string fl n) (envString env' k s) = flag_or (f_string fl n) (envString env k s)"
    using env_same(5) [of env' k env] same(4) [of n k] by (cases "f_string fl n"; simp add: flag_or_def)
qed

lemma Load_same:
  assumes "\<forall>k\<in>set (consulted fl). env' k = env k"
  shows "Load env' fl = Load env fl"
  by (simp add: Load_def Let_def consulted_same [OF assms] int_vars_def bool_vars_def duration_vars_def string_vars_def)

text \<open>
  C40: a configuration that loads is well formed, and the command line has the last word. The port is
  a valid port, at least one ping is sent, the DHT mode is one of three, the outbound is not empty (it
  is not compared with the known ones), no list has an empty entry, and the refresh interval of the
  names lies within their time to live (which a lifetime of a single nanosecond cannot satisfy). A
  port is used as given on the command line, otherwise as in the environment if it is a number there,
  otherwise 4001, and the load fails only when that port is invalid. Nothing else of the environment
  has any influence than the variables whose flags are not given: two environments that agree on
  these load the same.
\<close>

theorem load_well_formed:
  "(let port = (case f_int fl ''port'' of Some p \<Rightarrow> p | None \<Rightarrow>
        (case env_value env ''PORT'' of None \<Rightarrow> 4001
         | Some v \<Rightarrow> (case atoi v of Some p \<Rightarrow> p | None \<Rightarrow> 4001)))
    in case Load env fl of
         Inl e \<Rightarrow> (port \<le> 0 \<or> 65535 < port) \<and> e = Err (''invalid port: '' @ itoa port)
       | Inr c \<Rightarrow> Port c = port \<and> config_ok c) \<and>
   ((\<forall>k\<in>set (consulted fl). env' k = env k) \<longrightarrow> Load env' fl = Load env fl)"
proof -
  define p where "p = flag_or (f_int fl ''port'') (envInt env ''PORT'' 4001)"
  have p: "p = (case f_int fl ''port'' of Some p \<Rightarrow> p | None \<Rightarrow>
        (case env_value env ''PORT'' of None \<Rightarrow> 4001
         | Some v \<Rightarrow> (case atoi v of Some p \<Rightarrow> p | None \<Rightarrow> 4001)))"
    by (simp add: p_def flag_or_def envInt_def split: option.split)
  have "case Load env fl of
        Inl e \<Rightarrow> (p \<le> 0 \<or> 65535 < p) \<and> e = Err (''invalid port: '' @ itoa p)
      | Inr c \<Rightarrow> Port c = p \<and> config_ok c"
  proof (cases "p \<le> 0 \<or> 65535 < p")
    case True
    then show ?thesis by (simp add: Load_def Let_def p_def [symmetric])
  next
    case False
    then show ?thesis
      using normalizeMode_cases refresh_interval_ok split_nonempty
      by (simp add: Load_def Let_def p_def [symmetric] config_ok_def)
  qed
  then show ?thesis using Load_same by (simp only: p Let_def) blast
qed

text \<open>
  The witness: on a command line that gives the port, a variable \<open>PORT\<close> that is no number does not
  keep the configuration from loading.
\<close>

lemma load_well_formed_witness:
  "\<exists>c. Load [''PORT'' \<mapsto> ''none''] \<lparr>f_int = [''port'' \<mapsto> 4002], f_string = Map.empty, f_bool = Map.empty, f_duration = Map.empty\<rparr> = Inr c \<and>
    Load Map.empty \<lparr>f_int = [''port'' \<mapsto> 4002], f_string = Map.empty, f_bool = Map.empty, f_duration = Map.empty\<rparr> = Inr c \<and>
    Port c = 4002 \<and> config_ok c"
proof -
  let ?fl = "\<lparr>f_int = [''port'' \<mapsto> 4002], f_string = Map.empty, f_bool = Map.empty, f_duration = Map.empty\<rparr>"
  have "\<forall>k\<in>set (consulted ?fl). [''PORT'' \<mapsto> ''none''] k = Map.empty k"
    by (simp add: consulted_def int_vars_def bool_vars_def duration_vars_def string_vars_def)
  with load_well_formed [of Map.empty ?fl "[''PORT'' \<mapsto> ''none'']"] show ?thesis
    by (auto simp: Let_def split: sum.splits)
qed

text \<open>
  The outbound is taken as it stands: any other word loads as well, and the daemon takes every word
  but \<open>blackhole\<close> for \<open>freedom\<close>.
\<close>

lemma outbound_unchecked:
  assumes "f_string fl ''outbound'' = Some v" "trim_space v \<noteq> ''''" "Load env fl = Inr c"
  shows "Outbound c = trim_space v"
  using assms by (auto simp: Load_def Let_def flag_or_def split: if_splits)

end
