(* ===== verification/GoNet.thy ===== *)
theory GoNet
  imports GoStrings
begin

text \<open>
  What the code uses of package \<open>net\<close>: the text of an IP address (\<open>net.IP.String\<close>) and
  \<open>net.JoinHostPort\<close>.
\<close>

section \<open>The text of an IP address\<close>

fun hex_of_nat :: "nat \<Rightarrow> bytes" where
  "hex_of_nat n = (if n < 16 then [hex_digit n] else hex_of_nat (n div 16) @ [hex_digit (n mod 16)])"

declare hex_of_nat.simps [simp del]

fun join_with :: "bytes \<Rightarrow> bytes list \<Rightarrow> bytes" where
  "join_with sep [] = []"
| "join_with sep [w] = w"
| "join_with sep (w # ws) = w @ sep @ join_with sep ws"

definition ip4_string :: "bytes \<Rightarrow> string" where
  "ip4_string bs = join_with ''.'' (map (\<lambda>b. dec_of_nat (of_char b)) bs)"

fun groups16 :: "bytes \<Rightarrow> nat list" where
  "groups16 (a # b # bs) = be_get [a, b] # groups16 bs"
| "groups16 _ = []"

text \<open>The longest run of at least two zero groups, the first of several: its start and its end.\<close>

definition zero_run :: "nat list \<Rightarrow> nat \<times> nat" where
  "zero_run gs =
     fold (\<lambda>i (zs, ze).
       let j = i + length (takeWhile (\<lambda>g. g = 0) (drop i gs))
       in if 2 \<le> j - i \<and> j - i > ze - zs then (i, j) else (zs, ze)) [0..<length gs] (255, 255)"

definition ip6_string :: "bytes \<Rightarrow> string" where
  "ip6_string bs =
     (let gs = groups16 bs; (zs, ze) = zero_run gs
      in if zs = 255 then join_with '':'' (map hex_of_nat gs)
         else join_with '':'' (map hex_of_nat (take zs gs)) @ ''::'' @
              join_with '':'' (map hex_of_nat (drop ze gs)))"

text \<open>An address of 16 bytes that stands for an IPv4 address is printed like one.\<close>

definition v4_in_v6 :: bytes where
  "v4_in_v6 = replicate 10 (CHR 0x00) @ replicate 2 (CHR 0xFF)"

definition ip_string :: "bytes \<Rightarrow> string" where
  "ip_string bs =
     (if length bs = 4 then ip4_string bs
      else if take 12 bs = v4_in_v6 then ip4_string (drop 12 bs)
      else ip6_string bs)"

section \<open>Host and port\<close>

definition join_host_port :: "string \<Rightarrow> string \<Rightarrow> string" where
  "join_host_port host port =
     (if CHR '':'' \<in> set host then ''['' @ host @ '']:'' @ port else host @ '':'' @ port)"

lemma cut_first_hit: "sep \<notin> set a \<Longrightarrow> cut_first sep (a @ sep # b) = Some (a, b)"
  by (induction a) auto

lemma cut_first_None: "cut_first sep s = None \<longleftrightarrow> sep \<notin> set s"
  by (induction s) auto

lemma cut_first_Some: "cut_first sep s = Some (a, b) \<Longrightarrow> s = a @ sep # b \<and> sep \<notin> set a"
  by (induction s arbitrary: a) (auto split: if_splits)

lemma cut_last_hit: "sep \<notin> set b \<Longrightarrow> cut_last sep (a @ sep # b) = Some (a, b)"
  using cut_first_hit [of sep "rev b" "rev a"] by (simp add: cut_last_def)

lemma cut_last_None: "cut_last sep s = None \<longleftrightarrow> sep \<notin> set s"
  by (simp add: cut_last_def cut_first_None)

lemma cut_last_Some: "cut_last sep s = Some (a, b) \<Longrightarrow> s = a @ sep # b \<and> sep \<notin> set b"
proof -
  assume "cut_last sep s = Some (a, b)"
  then have "cut_first sep (rev s) = Some (rev b, rev a)" by (auto simp: cut_last_def)
  from cut_first_Some [OF this] show ?thesis by (metis rev_append rev_rev_ident rev.simps(2) append_assoc append_Cons append_Nil set_rev)
qed

lemma digits_no_colon: "list_all is_digit s \<Longrightarrow> CHR '':'' \<notin> set s"
  by (auto simp: list_all_iff is_digit_def)

lemma dec_no_colon [simp]: "CHR '':'' \<notin> set (dec_of_nat n)"
  by (rule digits_no_colon) simp

lemma itoa_no_colon: "0 \<le> p \<Longrightarrow> CHR '':'' \<notin> set (itoa p)"
  by (simp add: itoa_def)

lemma hex_digits_no_colon: "list_all (\<lambda>d. hex_digit d \<noteq> CHR '':'') [0..<16]"
  by code_simp

lemma hex_no_colon: "CHR '':'' \<notin> set (hex_of_nat n)"
proof (induction n rule: hex_of_nat.induct)
  case (1 n)
  have "hex_digit d \<noteq> CHR '':''" if "d < 16" for d
    using hex_digits_no_colon that by (auto simp: list_all_iff)
  from this [of n] this [of "n mod 16"] 1 show ?case by (subst hex_of_nat.simps) (auto dest: not_sym)
qed

lemma set_join_with: "set (join_with sep ws) \<subseteq> set sep \<union> \<Union> (set ` set ws)"
  by (induction sep ws rule: join_with.induct) auto

lemma ip4_no_colon: "CHR '':'' \<notin> set (ip4_string bs)"
  using set_join_with [of "''.''" "map (\<lambda>b. dec_of_nat (of_char b)) bs"]
  by (auto simp: ip4_string_def)

text \<open>The text of an address has a colon exactly when it is not that of an IPv4 address.\<close>

lemma ip6_colon:
  assumes "length bs = 16"
  shows "CHR '':'' \<in> set (ip6_string bs)"
proof -
  have two: "sep = [CHR '':''] \<Longrightarrow> 2 \<le> length ws \<Longrightarrow> CHR '':'' \<in> set (join_with sep ws)" for sep ws
    by (induction sep ws rule: join_with.induct) auto
  have "length (groups16 bs) = 8"
    using assms by (simp add: length_Suc_conv eval_nat_numeral) (elim exE conjE, simp)
  with two [of "'':''" "map hex_of_nat (groups16 bs)"] show ?thesis
    by (cases "zero_run (groups16 bs)") (auto simp: ip6_string_def Let_def)
qed

end
