(* ===== verification/Inbound.thy ===== *)
theory Inbound
  imports GoNet Pipe
begin

text \<open>
  \<open>hypernet/services/proxy/inbound\<close>: the listeners through which local programs use a node
  (SOCKS5, HTTP CONNECT, a fixed redirect), the outbounds they dial through, and the relay they all
  end in. Accepting connections is the operating system's part: each definition below is one
  connection from its first byte. \<open>http.ReadRequest\<close> and the dialer are parameters.
\<close>

section \<open>Outbounds\<close>

datatype outbound = Freedom | Blackhole | Redirect string int

definition errBlackhole :: err where
  "errBlackhole = Err ''blackhole: traffic dropped''"

text \<open>\<open>dial\<close> opens a TCP connection to an address.\<close>

definition Outbound_Dial :: "(string \<Rightarrow> err + wire) \<Rightarrow> outbound \<Rightarrow> string \<Rightarrow> int \<Rightarrow> err + wire" where
  "Outbound_Dial dial ob host port =
     (case ob of
        Freedom \<Rightarrow> dial (join_host_port host (itoa port))
      | Blackhole \<Rightarrow> Inl errBlackhole
      | Redirect h p \<Rightarrow> dial (join_host_port h (itoa p)))"

definition Outbound_Name :: "outbound \<Rightarrow> string" where
  "Outbound_Name ob =
     (case ob of Freedom \<Rightarrow> ''freedom'' | Blackhole \<Rightarrow> ''blackhole'' | Redirect _ _ \<Rightarrow> ''redirect'')"

text \<open>The error of \<open>strconv.Atoi\<close>.\<close>

definition atoi_err :: "bytes \<Rightarrow> err" where
  "atoi_err s =
     (let body = (if take 1 s = ''-'' \<or> take 1 s = ''+'' then drop 1 s else s)
      in Err (''strconv.Atoi: parsing '' @ go_quote s @
           (if body \<noteq> [] \<and> list_all is_digit body then '': value out of range'' else '': invalid syntax'')))"

definition splitHostPort :: "string \<Rightarrow> err + (string \<times> int)" where
  "splitHostPort s0 =
     (let s = trim_space s0
      in case cut_last (CHR '':'') s of
           None \<Rightarrow> Inr (s, 0)
         | Some (host, ps) \<Rightarrow>
             (case atoi ps of
                None \<Rightarrow> Inl (atoi_err ps)
              | Some p \<Rightarrow> if p \<le> 0 \<or> p > 65535 then Inr ('''', 0) else Inr (host, p)))"

definition NewRedirect :: "string \<Rightarrow> err + outbound" where
  "NewRedirect addr =
     (case splitHostPort addr of
        Inl e \<Rightarrow> Inl e
      | Inr (host, port) \<Rightarrow> Inr (Redirect host (if port = 0 then 80 else port)))"

section \<open>The relay\<close>

text \<open>
  Two goroutines copy between the client and the target; nothing is closed before both have ended.
  \<open>FromBuffer\<close> is the copy out of the \<open>bufio.Reader\<close> that read the request, which the HTTP proxy
  makes when bytes are left in it; behind it, and in the other listeners, the connection itself is
  read.
\<close>

datatype up_phase = FromBuffer | FromConn | UpEnded

record relay =
  rl_client :: "wire bufrd"
  rl_target :: wire
  rl_up :: up_phase
  rl_down_ended :: bool

definition relay_up :: "relay \<Rightarrow> relay option" where
  "relay_up r =
     (case rl_up r of
        UpEnded \<Rightarrow> None
      | FromBuffer \<Rightarrow>
          (case copy_round (bufio_read wire_read) wire_write (rl_client r) (rl_target r) 0 of
             None \<Rightarrow> None
           | Some (Inr _, b, t) \<Rightarrow> Some (r\<lparr>rl_client := b, rl_target := t\<rparr>)
           | Some (Inl _, b, t) \<Rightarrow> Some (r\<lparr>rl_client := b, rl_target := t, rl_up := FromConn\<rparr>))
      | FromConn \<Rightarrow>
          (case copy_round wire_read wire_write (b_src (rl_client r)) (rl_target r) 0 of
             None \<Rightarrow> None
           | Some (x, w, t) \<Rightarrow>
               Some (r\<lparr>rl_client := (rl_client r)\<lparr>b_src := w\<rparr>, rl_target := t,
                 rl_up := (case x of Inr _ \<Rightarrow> FromConn | Inl _ \<Rightarrow> UpEnded)\<rparr>)))"

definition relay_down :: "relay \<Rightarrow> relay option" where
  "relay_down r =
     (if rl_down_ended r then None
      else case copy_round wire_read wire_write (rl_target r) (b_src (rl_client r)) 0 of
             None \<Rightarrow> None
           | Some (x, t, w) \<Rightarrow>
               Some (r\<lparr>rl_client := (rl_client r)\<lparr>b_src := w\<rparr>, rl_target := t,
                 rl_down_ended := (case x of Inr _ \<Rightarrow> False | Inl _ \<Rightarrow> True)\<rparr>))"

inductive relay_step :: "relay \<Rightarrow> relay \<Rightarrow> bool" where
  step_up: "relay_up r = Some r' \<Longrightarrow> relay_step r r'"
| step_down: "relay_down r = Some r' \<Longrightarrow> relay_step r r'"

inductive_cases relay_stepE: "relay_step r r'"

definition relay_done :: "relay \<Rightarrow> bool" where
  "relay_done r \<longleftrightarrow> rl_up r = UpEnded \<and> rl_down_ended r"

fun relay_run :: "bool list \<Rightarrow> relay \<Rightarrow> relay" where
  "relay_run [] r = r"
| "relay_run (up # sched) r =
     relay_run sched (case (if up then relay_up r else relay_down r) of None \<Rightarrow> r | Some r' \<Rightarrow> r')"

text \<open>
  What a connection has come to: the client's connection, the target's if one was opened, the host
  and port the outbound was asked for, and whether the handler has returned.
\<close>

record handled =
  h_client :: wire
  h_target :: "wire option"
  h_dialled :: "(string \<times> int) option"
  h_returned :: bool

definition hang_up :: "(string \<times> int) option \<Rightarrow> wire \<Rightarrow> handled" where
  "hang_up d w = \<lparr>h_client = wire_close w, h_target = None, h_dialled = d, h_returned = True\<rparr>"

text \<open>The relay under the two deferred closes.\<close>

definition relay_session :: "bool list \<Rightarrow> (string \<times> int) \<Rightarrow> wire bufrd \<Rightarrow> wire \<Rightarrow> up_phase \<Rightarrow> handled" where
  "relay_session sched d b t ph =
     (let r = relay_run sched \<lparr>rl_client = b, rl_target = t, rl_up = ph, rl_down_ended = False\<rparr>
      in if relay_done r
         then \<lparr>h_client = wire_close (b_src (rl_client r)), h_target = Some (wire_close (rl_target r)),
               h_dialled = Some d, h_returned = True\<rparr>
         else \<lparr>h_client = b_src (rl_client r), h_target = Some (rl_target r), h_dialled = Some d,
               h_returned = False\<rparr>)"

section \<open>SOCKS5\<close>

definition socks5Version :: nat where "socks5Version = 5"
definition socks5CmdConnect :: nat where "socks5CmdConnect = 1"
definition socks5AtypIPv4 :: nat where "socks5AtypIPv4 = 1"
definition socks5AtypDomain :: nat where "socks5AtypDomain = 3"
definition socks5AtypIPv6 :: nat where "socks5AtypIPv6 = 4"
definition socks5RepSuccess :: nat where "socks5RepSuccess = 0"
definition socks5RepFailure :: nat where "socks5RepFailure = 1"

abbreviation byte_at :: "bytes \<Rightarrow> nat \<Rightarrow> nat" where
  "byte_at bs i \<equiv> of_char (bs ! i)"

definition socks5_reply :: "nat \<Rightarrow> bytes" where
  "socks5_reply rep = map char_of [socks5Version, rep, 0, socks5AtypIPv4, 0, 0, 0, 0, 0, 0 :: nat]"

definition sendReply :: "wire \<Rightarrow> nat \<Rightarrow> err option \<times> wire" where
  "sendReply w rep = snd (wire_write w (socks5_reply rep))"

text \<open>\<open>io.ReadFull\<close> of the next part of the dialogue; an error ends the connection.\<close>

definition with_full :: "wire \<Rightarrow> nat \<Rightarrow> (bytes \<Rightarrow> wire \<Rightarrow> handled option) \<Rightarrow> handled option" where
  "with_full w n k =
     (case read_full wire_read w n of
        None \<Rightarrow> None
      | Some (_, Some _, w1) \<Rightarrow> Some (hang_up None w1)
      | Some (bs, None, w1) \<Rightarrow> k bs w1)"

definition socks5_refuse :: "(string \<times> int) option \<Rightarrow> wire \<Rightarrow> handled" where
  "socks5_refuse d w = hang_up d (snd (sendReply w socks5RepFailure))"

definition socks5_connect ::
  "(string \<Rightarrow> err + wire) \<Rightarrow> outbound \<Rightarrow> bool list \<Rightarrow> string \<Rightarrow> wire \<Rightarrow> handled option"
where
  "socks5_connect dial ob sched host w =
     with_full w 2 (\<lambda>pb w1.
       let port = int (be_get pb)
       in case Outbound_Dial dial ob host port of
            Inl e \<Rightarrow> Some (socks5_refuse (Some (host, port)) w1)
          | Inr t \<Rightarrow>
              (case sendReply w1 socks5RepSuccess of
                 (Some e, w2) \<Rightarrow>
                   Some \<lparr>h_client = wire_close w2, h_target = Some (wire_close t),
                         h_dialled = Some (host, port), h_returned = True\<rparr>
               | (None, w2) \<Rightarrow> Some (relay_session sched (host, port) (new_bufrd w2) t FromConn)))"

definition socks5_request ::
  "(string \<Rightarrow> err + wire) \<Rightarrow> outbound \<Rightarrow> bool list \<Rightarrow> wire \<Rightarrow> handled option"
where
  "socks5_request dial ob sched w =
     with_full w 4 (\<lambda>h w1.
       if byte_at h 0 \<noteq> socks5Version \<or> byte_at h 1 \<noteq> socks5CmdConnect then Some (socks5_refuse None w1)
       else if byte_at h 3 = socks5AtypIPv4 then
         with_full w1 4 (\<lambda>a. socks5_connect dial ob sched (ip_string a))
       else if byte_at h 3 = socks5AtypIPv6 then
         with_full w1 16 (\<lambda>a. socks5_connect dial ob sched (ip_string a))
       else if byte_at h 3 = socks5AtypDomain then
         with_full w1 1 (\<lambda>l w2.
           let domainLen = byte_at l 0
           in if domainLen \<le> 0 \<or> domainLen > 255 then Some (socks5_refuse None w2)
              else with_full w2 domainLen (socks5_connect dial ob sched))
       else Some (socks5_refuse None w1))"

definition socks5_handle ::
  "(string \<Rightarrow> err + wire) \<Rightarrow> outbound \<Rightarrow> bool list \<Rightarrow> wire \<Rightarrow> handled option"
where
  "socks5_handle dial ob sched w =
     with_full w 2 (\<lambda>g w1.
       if byte_at g 0 \<noteq> socks5Version then Some (hang_up None w1)
       else let nmethods = byte_at g 1
         in with_full w1 (if nmethods \<le> 0 \<or> nmethods > 255 then nmethods else 0) (\<lambda>_ w2.
              with_full w2 nmethods (\<lambda>_ w3.
                case wire_write w3 (map char_of [socks5Version, 0]) of
                  (_, Some e, w4) \<Rightarrow> Some (hang_up None w4)
                | (_, None, w4) \<Rightarrow> socks5_request dial ob sched w4)))"

section \<open>HTTP CONNECT\<close>

definition parseHostPort :: "string \<Rightarrow> err + (string \<times> int)" where
  "parseHostPort s =
     (let hostPort = trim_space s
      in if hostPort = '''' then Inl (Err ''empty host'')
         else case cut_last (CHR '':'') hostPort of
           None \<Rightarrow> Inr (hostPort, 443)
         | Some (host, ps) \<Rightarrow>
             (case atoi ps of
                None \<Rightarrow> Inl (Err ''invalid port'')
              | Some p \<Rightarrow> if p \<le> 0 \<or> p > 65535 then Inl (Err ''invalid port'') else Inr (host, p)))"

abbreviation crlf :: bytes where
  "crlf \<equiv> [CHR 0x0D, CHR 0x0A]"

definition writeStatus :: "wire \<Rightarrow> int \<Rightarrow> string \<Rightarrow> wire" where
  "writeStatus w code reason =
     snd (snd (wire_write w
       (''HTTP/1.1 '' @ itoa code @ '' '' @ reason @ crlf @ ''Content-Length: 0'' @ crlf @ crlf)))"

definition connect_answer :: bytes where
  "connect_answer = ''HTTP/1.1 200 Connection Established'' @ crlf @ crlf"

text \<open>A request as \<open>http.ReadRequest\<close> returns it: its method and its \<open>Host\<close>.\<close>

type_synonym http_reader = "wire bufrd \<Rightarrow> ((err + string \<times> string) \<times> wire bufrd) option"

definition http_handle ::
  "http_reader \<Rightarrow> (string \<Rightarrow> err + wire) \<Rightarrow> outbound \<Rightarrow> bool list \<Rightarrow> wire \<Rightarrow> handled option"
where
  "http_handle readRequest dial ob sched w =
     (case readRequest (new_bufrd w) of
        None \<Rightarrow> None
      | Some (Inl e, br) \<Rightarrow> Some (hang_up None (b_src br))
      | Some (Inr (method, hostport), br) \<Rightarrow>
          if method \<noteq> ''CONNECT''
          then Some (hang_up None (writeStatus (b_src br) 405 ''Method Not Allowed''))
          else case parseHostPort hostport of
            Inl e \<Rightarrow> Some (hang_up None (writeStatus (b_src br) 400 ''Bad Request: invalid host:port''))
          | Inr (host, port) \<Rightarrow>
              (case Outbound_Dial dial ob host port of
                 Inl e \<Rightarrow> Some (hang_up (Some (host, port)) (writeStatus (b_src br) 502 ''Bad Gateway''))
               | Inr t \<Rightarrow>
                   (case wire_write (b_src br) connect_answer of
                      (_, Some e, w1) \<Rightarrow>
                        Some \<lparr>h_client = wire_close w1, h_target = Some (wire_close t),
                              h_dialled = Some (host, port), h_returned = True\<rparr>
                    | (_, None, w1) \<Rightarrow>
                        Some (relay_session sched (host, port) (br\<lparr>b_src := w1\<rparr>) t
                          (if b_buf br \<noteq> [] then FromBuffer else FromConn)))))"

section \<open>Dokodemo-door\<close>

definition dokodemo_handle :: "(string \<Rightarrow> err + wire) \<Rightarrow> outbound \<Rightarrow> bool list \<Rightarrow> wire \<Rightarrow> handled" where
  "dokodemo_handle dial ob sched w =
     (case Outbound_Dial dial ob '''' 0 of
        Inl e \<Rightarrow> hang_up (Some ('''', 0)) w
      | Inr t \<Rightarrow> relay_session sched ('''', 0) (new_bufrd w) t FromConn)"

section \<open>Termination and completeness of the relay\<close>

lemma copy_round_ends_well:
  assumes s: "ends_well s" and d: "ends_well d"
  shows "rx s = [] \<and> copy_round wire_read wire_write s d n = Some (Inl (n, None), s, d) \<or>
    (\<exists>bs segs. copy_round wire_read wire_write s d n =
        Some (Inr (n + length bs), s\<lparr>rx := segs\<rparr>, d\<lparr>tx := tx d @ bs\<rparr>) \<and>
      concat (rx s) = bs @ concat segs \<and>
      length segs + length (concat segs) < length (rx s) + length (concat (rx s)))"
proof -
  have "0 < copy_buf_size" by (simp add: copy_buf_size_def)
  from ends_well_read [OF s this] show ?thesis
  proof
    assume "rx s = [] \<and> wire_read s copy_buf_size = Some ([], Some EOF, s)"
    then show ?thesis by (simp add: copy_round_def)
  next
    assume "\<exists>bs segs. wire_read s copy_buf_size = Some (bs, None, s\<lparr>rx := segs\<rparr>) \<and>
      length segs + length (concat segs) < length (rx s) + length (concat (rx s)) \<and>
      length bs + length (concat segs) = length (concat (rx s))"
    then obtain bs segs where h: "wire_read s copy_buf_size = Some (bs, None, s\<lparr>rx := segs\<rparr>)"
      "length segs + length (concat segs) < length (rx s) + length (concat (rx s))" by blast
    from wiretap.read_exact [OF h(1)] have "concat (rx s) = bs @ concat segs" by (simp add: wire_content_def)
    moreover have "copy_round wire_read wire_write s d n =
        Some (Inr (n + length bs), s\<lparr>rx := segs\<rparr>, d\<lparr>tx := tx d @ bs\<rparr>)"
      using h(1) by (simp add: copy_round_def ends_well_write [OF d])
    ultimately show ?thesis using h(2) by blast
  qed
qed

text \<open>
  What holds while both peers are willing: \<open>up\<close> and \<open>down\<close> are the bytes still to be carried plus
  those that have been, behind what the two connections had sent before.
\<close>

definition relay_good :: "bytes \<Rightarrow> bytes \<Rightarrow> bytes \<Rightarrow> bytes \<Rightarrow> relay \<Rightarrow> bool" where
  "relay_good up down t0 c0 r \<longleftrightarrow>
     ends_well (b_src (rl_client r)) \<and> ends_well (rl_target r) \<and> b_err (rl_client r) = None \<and>
     (rl_up r \<noteq> FromBuffer \<longrightarrow> b_buf (rl_client r) = []) \<and>
     (rl_up r = UpEnded \<longrightarrow> rx (b_src (rl_client r)) = []) \<and>
     (rl_down_ended r \<longrightarrow> rx (rl_target r) = []) \<and>
     tx (rl_target r) @ b_buf (rl_client r) @ concat (rx (b_src (rl_client r))) = t0 @ up \<and>
     tx (b_src (rl_client r)) @ concat (rx (rl_target r)) = c0 @ down"

definition relay_up_left :: "relay \<Rightarrow> nat" where
  "relay_up_left r =
     (case rl_up r of
        UpEnded \<Rightarrow> 0
      | FromConn \<Rightarrow> 1 + length (rx (b_src (rl_client r))) + length (concat (rx (b_src (rl_client r))))
      | FromBuffer \<Rightarrow> 2 + length (b_buf (rl_client r)) + length (rx (b_src (rl_client r))) +
          length (concat (rx (b_src (rl_client r)))))"

definition relay_down_left :: "relay \<Rightarrow> nat" where
  "relay_down_left r =
     (if rl_down_ended r then 0
      else 1 + length (rx (rl_target r)) + length (concat (rx (rl_target r))))"

text \<open>The first read of a buffered reader in \<open>io.Copy\<close>: out of the buffer, then past it.\<close>

lemma copy_round_buffered:
  assumes "b_err b = None" "ends_well (b_src b)" "ends_well d"
  shows "copy_round (bufio_read wire_read) wire_write b d n =
    (if b_buf b \<noteq> []
     then Some (Inr (n + length (take copy_buf_size (b_buf b))), b\<lparr>b_buf := drop copy_buf_size (b_buf b)\<rparr>,
            d\<lparr>tx := tx d @ take copy_buf_size (b_buf b)\<rparr>)
     else map_option (\<lambda>(x, w, t). (x, b\<lparr>b_src := w\<rparr>, t)) (copy_round wire_read wire_write (b_src b) d n))"
proof (cases "b_buf b = []")
  case True
  then show ?thesis
    using assms(1) by (auto simp: copy_round_def bufio_read_def bufio_size_def copy_buf_size_def Let_def
        split: option.split prod.split err.split)
next
  case False
  then show ?thesis
    by (simp add: copy_round_def bufio_read_def copy_buf_size_def ends_well_write [OF assms(3)])
qed

text \<open>A round that reads the connection, in the last phase of the upward copy or in front of it.\<close>

definition wire_round :: "relay \<Rightarrow> up_phase \<Rightarrow> relay option" where
  "wire_round r nxt =
     map_option (\<lambda>(x, w, t). r\<lparr>rl_client := (rl_client r)\<lparr>b_src := w\<rparr>, rl_target := t,
         rl_up := (case x of Inr _ \<Rightarrow> rl_up r | Inl _ \<Rightarrow> nxt)\<rparr>)
       (copy_round wire_read wire_write (b_src (rl_client r)) (rl_target r) 0)"

lemma wire_round_progress:
  assumes g: "relay_good U D t0 c0 r" and nb: "b_buf (rl_client r) = []"
    and ph: "rl_up r = FromBuffer \<and> nxt = FromConn \<or> rl_up r = FromConn \<and> nxt = UpEnded"
  shows "\<exists>r'. wire_round r nxt = Some r' \<and> relay_good U D t0 c0 r' \<and> relay_up_left r' < relay_up_left r \<and>
    relay_down_left r' = relay_down_left r"
proof -
  let ?b = "rl_client r" and ?t = "rl_target r"
  have e: "ends_well (b_src ?b)" "ends_well ?t" using g by (simp_all add: relay_good_def)
  from copy_round_ends_well [OF e, of 0] show ?thesis
  proof (elim disjE conjE exE)
    assume h: "rx (b_src ?b) = []"
      "copy_round wire_read wire_write (b_src ?b) ?t 0 = Some (Inl (0, None), b_src ?b, ?t)"
    let ?r = "r\<lparr>rl_client := ?b\<lparr>b_src := b_src ?b\<rparr>, rl_target := ?t, rl_up := nxt\<rparr>"
    have "wire_round r nxt = Some ?r" using h by (simp add: wire_round_def)
    moreover have "relay_good U D t0 c0 ?r" using g h nb ph by (auto simp: relay_good_def)
    ultimately show ?thesis using ph nb h(1)
      by (intro exI [of _ ?r]) (auto simp: relay_up_left_def relay_down_left_def)
  next
    fix bs segs
    assume h: "copy_round wire_read wire_write (b_src ?b) ?t 0 =
        Some (Inr (0 + length bs), (b_src ?b)\<lparr>rx := segs\<rparr>, ?t\<lparr>tx := tx ?t @ bs\<rparr>)"
      "concat (rx (b_src ?b)) = bs @ concat segs"
      "length segs + length (concat segs) < length (rx (b_src ?b)) + length (concat (rx (b_src ?b)))"
    let ?r = "r\<lparr>rl_client := ?b\<lparr>b_src := (b_src ?b)\<lparr>rx := segs\<rparr>\<rparr>, rl_target := ?t\<lparr>tx := tx ?t @ bs\<rparr>,
      rl_up := rl_up r\<rparr>"
    have "wire_round r nxt = Some ?r" using h(1) by (simp add: wire_round_def)
    moreover have "relay_good U D t0 c0 ?r" using g h(2) nb ph e by (auto simp: relay_good_def)
    moreover have "relay_up_left ?r < relay_up_left r" using ph nb h(3) by (auto simp: relay_up_left_def)
    ultimately show ?thesis by (intro exI [of _ ?r]) (simp add: relay_down_left_def)
  qed
qed

lemma take_drop_append: "take k xs @ drop k xs @ ys = xs @ ys"
  by (simp add: append_assoc [symmetric] del: append_assoc)

lemma relay_up_progress:
  assumes g: "relay_good U D t0 c0 r" and w: "0 < relay_up_left r"
  shows "\<exists>r'. relay_up r = Some r' \<and> relay_good U D t0 c0 r' \<and> relay_up_left r' < relay_up_left r \<and>
    relay_down_left r' = relay_down_left r"
proof -
  let ?b = "rl_client r" and ?t = "rl_target r"
  have e: "ends_well (b_src ?b)" "ends_well ?t" "b_err ?b = None" using g by (simp_all add: relay_good_def)
  note cb = copy_round_buffered [OF e(3,1,2), of 0]
  from w consider (conn) "rl_up r = FromConn" "b_buf ?b = []"
    | (passed) "rl_up r = FromBuffer" "b_buf ?b = []" | (buffered) "rl_up r = FromBuffer" "b_buf ?b \<noteq> []"
    using g by (cases "rl_up r") (auto simp: relay_up_left_def relay_good_def)
  then show ?thesis
  proof cases
    case conn
    then have "relay_up r = wire_round r UpEnded"
      by (auto simp: relay_up_def wire_round_def split: option.split sum.split)
    with wire_round_progress [OF g conn(2)] conn show ?thesis by simp
  next
    case passed
    then have "relay_up r = wire_round r FromConn"
      by (auto simp: relay_up_def wire_round_def cb split: option.split sum.split)
    with wire_round_progress [OF g passed(2)] passed show ?thesis by simp
  next
    case buffered
    let ?r = "r\<lparr>rl_client := ?b\<lparr>b_buf := drop copy_buf_size (b_buf ?b)\<rparr>,
      rl_target := ?t\<lparr>tx := tx ?t @ take copy_buf_size (b_buf ?b)\<rparr>\<rparr>"
    have "relay_up r = Some ?r" using buffered cb by (simp add: relay_up_def)
    moreover have "relay_good U D t0 c0 ?r"
      using g buffered(1) by (simp add: relay_good_def take_drop_append)
    moreover have "relay_up_left ?r < relay_up_left r"
      using buffered by (simp add: relay_up_left_def copy_buf_size_def)
    ultimately show ?thesis by (intro exI [of _ ?r]) (simp add: relay_down_left_def)
  qed
qed

lemma relay_down_progress:
  assumes g: "relay_good U D t0 c0 r" and w: "0 < relay_down_left r"
  shows "\<exists>r'. relay_down r = Some r' \<and> relay_good U D t0 c0 r' \<and> relay_down_left r' < relay_down_left r \<and>
    relay_up_left r' = relay_up_left r"
proof -
  let ?b = "rl_client r" and ?t = "rl_target r"
  have e: "ends_well (b_src ?b)" "ends_well ?t" using g by (simp_all add: relay_good_def)
  have nd: "\<not> rl_down_ended r" using w by (simp add: relay_down_left_def split: if_splits)
  from copy_round_ends_well [OF e(2,1), of 0] show ?thesis
  proof (elim disjE conjE exE)
    assume h: "rx ?t = []" "copy_round wire_read wire_write ?t (b_src ?b) 0 = Some (Inl (0, None), ?t, b_src ?b)"
    let ?r = "r\<lparr>rl_client := ?b\<lparr>b_src := b_src ?b\<rparr>, rl_target := ?t, rl_down_ended := True\<rparr>"
    have "relay_down r = Some ?r" using h(2) nd by (simp add: relay_down_def)
    moreover have "relay_good U D t0 c0 ?r" using g h by (simp add: relay_good_def)
    ultimately show ?thesis using nd
      by (intro exI [of _ ?r]) (simp add: relay_up_left_def relay_down_left_def split: up_phase.split)
  next
    fix bs segs
    assume h: "copy_round wire_read wire_write ?t (b_src ?b) 0 =
        Some (Inr (0 + length bs), ?t\<lparr>rx := segs\<rparr>, (b_src ?b)\<lparr>tx := tx (b_src ?b) @ bs\<rparr>)"
      "concat (rx ?t) = bs @ concat segs"
      "length segs + length (concat segs) < length (rx ?t) + length (concat (rx ?t))"
    let ?r = "r\<lparr>rl_client := ?b\<lparr>b_src := (b_src ?b)\<lparr>tx := tx (b_src ?b) @ bs\<rparr>\<rparr>, rl_target := ?t\<lparr>rx := segs\<rparr>,
      rl_down_ended := False\<rparr>"
    have "relay_down r = Some ?r" using h(1) nd by (simp add: relay_down_def)
    moreover have "relay_good U D t0 c0 ?r" using g h(2) e by (simp add: relay_good_def)
    moreover have "relay_down_left ?r < relay_down_left r" using nd h(3) by (simp add: relay_down_left_def)
    ultimately show ?thesis by (intro exI [of _ ?r]) (simp add: relay_up_left_def split: up_phase.split)
  qed
qed

interpretation relay_tasks: two_tasks relay_up relay_down relay_run "relay_good U D t0 c0"
  relay_up_left relay_down_left
proof unfold_locales
  fix r :: relay
  assume g: "relay_good U D t0 c0 r"
  show "relay_up_left r = 0 \<Longrightarrow> relay_up r = None"
    by (simp add: relay_up_left_def relay_up_def split: up_phase.splits)
  show "relay_down_left r = 0 \<Longrightarrow> relay_down r = None"
    by (simp add: relay_down_left_def relay_down_def split: if_splits)
  show "0 < relay_up_left r \<Longrightarrow> \<exists>r'. relay_up r = Some r' \<and> relay_good U D t0 c0 r' \<and>
      relay_up_left r' < relay_up_left r \<and> relay_down_left r' = relay_down_left r"
    by (rule relay_up_progress [OF g])
  show "0 < relay_down_left r \<Longrightarrow> \<exists>r'. relay_down r = Some r' \<and> relay_good U D t0 c0 r' \<and>
      relay_down_left r' < relay_down_left r \<and> relay_up_left r' = relay_up_left r"
    by (rule relay_down_progress [OF g])
qed simp_all

text \<open>Under willing peers and enough turns a session carries everything and closes both connections.\<close>

definition enough_turns :: "bytes \<Rightarrow> wire \<Rightarrow> wire \<Rightarrow> bool list \<Rightarrow> bool" where
  "enough_turns buf w t sched \<longleftrightarrow>
     2 + length buf + length (rx w) + length (concat (rx w)) \<le> turns True sched \<and>
     1 + length (rx t) + length (concat (rx t)) \<le> turns False sched"

lemma relay_session_complete:
  assumes "ends_well (b_src b)" "ends_well t" "b_err b = None"
    and "ph = (if b_buf b \<noteq> [] then FromBuffer else FromConn)" "enough_turns (b_buf b) (b_src b) t sched"
  shows "\<exists>w' t'. relay_session sched d b t ph =
      \<lparr>h_client = wire_close w', h_target = Some (wire_close t'), h_dialled = Some d, h_returned = True\<rparr> \<and>
    tx t' = tx t @ b_buf b @ concat (rx (b_src b)) \<and> tx w' = tx (b_src b) @ concat (rx t)"
proof -
  let ?r0 = "\<lparr>rl_client = b, rl_target = t, rl_up = ph, rl_down_ended = False\<rparr>"
  let ?U = "b_buf b @ concat (rx (b_src b))" and ?D = "concat (rx t)"
  define r where "r = relay_run sched ?r0"
  have "relay_good ?U ?D (tx t) (tx (b_src b)) ?r0" using assms by (auto simp: relay_good_def)
  moreover have "relay_up_left ?r0 \<le> turns True sched" "relay_down_left ?r0 \<le> turns False sched"
    using assms(4,5) by (auto simp: relay_up_left_def relay_down_left_def enough_turns_def)
  ultimately have g: "relay_good ?U ?D (tx t) (tx (b_src b)) r" and l: "relay_up_left r = 0" "relay_down_left r = 0"
    unfolding r_def by (blast dest: relay_tasks.finishes)+
  from l have e: "rl_up r = UpEnded" "rl_down_ended r"
    by (auto simp: relay_up_left_def relay_down_left_def split: up_phase.splits if_splits)
  with g have "tx (rl_target r) = tx t @ ?U" "tx (b_src (rl_client r)) = tx (b_src b) @ ?D"
    by (auto simp: relay_good_def)
  with e show ?thesis by (auto simp: relay_session_def Let_def r_def [symmetric] relay_done_def)
qed

section \<open>Reading a dialogue\<close>

text \<open>A willing peer, of which the segments still to come are at most \<open>l\<close> and nothing more was sent.\<close>

definition steady :: "bytes \<Rightarrow> nat \<Rightarrow> wire \<Rightarrow> bool" where
  "steady sent l w \<longleftrightarrow> ends_well w \<and> tx w = sent \<and> length (rx w) \<le> l"

interpretation steady: byte_stream wire_read wire_content "steady sent l" wire_work
proof unfold_locales
  fix w :: wire and n :: nat
  assume h: "steady sent l w" "0 < n" "wire_content w \<noteq> []"
  then obtain seg segs where "rx w = seg # segs" by (cases "rx w") (auto simp: wire_content_def)
  with h show "\<exists>bs s'. wire_read w n = Some (bs, None, s') \<and> wire_content w = bs @ wire_content s' \<and>
      length bs \<le> n \<and> steady sent l s' \<and> wire_work s' < wire_work w"
    by (auto simp: wire_read_def wire_content_def steady_def ends_well_def wire_work_def)
qed

lemma with_full_steady:
  assumes "steady sent l w" "wire_content w = xs @ ys" "n = length xs"
  shows "\<exists>w1. (\<forall>k. with_full w n k = k xs w1) \<and> steady sent l w1 \<and> wire_content w1 = ys"
  using steady.read_full_append [OF assms(1,2)] assms(3) by (auto simp: with_full_def)

lemma steady_write:
  "steady sent l w \<Longrightarrow> \<exists>w'. wire_write w bs = (length bs, None, w') \<and> steady (sent @ bs) l w' \<and>
     wire_content w' = wire_content w"
  by (auto simp: steady_def ends_well_write wire_content_def)

lemma session_steady:
  assumes "steady sent l w" "ends_well t"
    and "2 + l + length (wire_content w) \<le> turns True sched"
    and "1 + length (rx t) + length (concat (rx t)) \<le> turns False sched"
  shows "\<exists>w' t'. relay_session sched d (new_bufrd w) t FromConn =
      \<lparr>h_client = wire_close w', h_target = Some (wire_close t'), h_dialled = Some d, h_returned = True\<rparr> \<and>
    tx t' = tx t @ wire_content w \<and> tx w' = sent @ concat (rx t)"
proof -
  have "enough_turns [] w t sched" using assms by (auto simp: enough_turns_def steady_def wire_content_def)
  with assms relay_session_complete [of "new_bufrd w" t FromConn sched d] show ?thesis
    by (simp add: new_bufrd_def steady_def wire_content_def)
qed

section \<open>The client's side of SOCKS5\<close>

datatype socks_addr = V4 bytes | V6 bytes | Domain string

fun socks_addr_ok :: "socks_addr \<Rightarrow> bool" where
  "socks_addr_ok (V4 a) \<longleftrightarrow> length a = 4"
| "socks_addr_ok (V6 a) \<longleftrightarrow> length a = 16"
| "socks_addr_ok (Domain d) \<longleftrightarrow> 0 < length d \<and> length d \<le> 255"

fun socks_addr_bytes :: "socks_addr \<Rightarrow> bytes" where
  "socks_addr_bytes (V4 a) = char_of socks5AtypIPv4 # a"
| "socks_addr_bytes (V6 a) = char_of socks5AtypIPv6 # a"
| "socks_addr_bytes (Domain d) = char_of socks5AtypDomain # char_of (length d) # d"

fun socks_addr_host :: "socks_addr \<Rightarrow> string" where
  "socks_addr_host (V4 a) = ip_string a"
| "socks_addr_host (V6 a) = ip_string a"
| "socks_addr_host (Domain d) = d"

definition socks_greeting :: "bytes \<Rightarrow> bytes" where
  "socks_greeting methods = [char_of socks5Version, char_of (length methods)] @ methods"

definition socks_connect_msg :: "byte \<Rightarrow> socks_addr \<Rightarrow> nat \<Rightarrow> bytes" where
  "socks_connect_msg rsv a port =
     [char_of socks5Version, char_of socks5CmdConnect, rsv] @ socks_addr_bytes a @ put_u16 port"

lemmas socks5_defs = socks5Version_def socks5CmdConnect_def socks5AtypIPv4_def socks5AtypDomain_def
  socks5AtypIPv6_def socks5RepSuccess_def socks5RepFailure_def

lemma socks5_connect_steady:
  assumes w: "steady sent l w" and c: "wire_content w = put_u16 port @ payload" and p: "port < 65536"
    and d: "Outbound_Dial dial ob host (int port) = Inr t"
    and t: "ends_well t" "2 + l + length payload \<le> turns True sched"
      "1 + length (rx t) + length (concat (rx t)) \<le> turns False sched"
  shows "\<exists>w' t'. socks5_connect dial ob sched host w =
      Some \<lparr>h_client = wire_close w', h_target = Some (wire_close t'), h_dialled = Some (host, int port),
        h_returned = True\<rparr> \<and>
    tx t' = tx t @ payload \<and> tx w' = sent @ socks5_reply socks5RepSuccess @ concat (rx t)"
proof -
  from with_full_steady [OF w c, of 2] obtain w1 where w1: "\<forall>k. with_full w 2 k = k (put_u16 port) w1" "steady sent l w1" "wire_content w1 = payload"
      by auto
  from steady_write [OF w1(2), of "socks5_reply socks5RepSuccess"] obtain w2 where
    w2: "sendReply w1 socks5RepSuccess = (None, w2)" "steady (sent @ socks5_reply socks5RepSuccess) l w2"
    "wire_content w2 = payload" using w1(3) by (auto simp: sendReply_def)
  from session_steady [OF w2(2) t(1), of sched "(host, int port)"] t(2,3) w2(3) obtain w' t' where
    "relay_session sched (host, int port) (new_bufrd w2) t FromConn =
      \<lparr>h_client = wire_close w', h_target = Some (wire_close t'), h_dialled = Some (host, int port),
        h_returned = True\<rparr>" "tx t' = tx t @ payload"
    "tx w' = sent @ socks5_reply socks5RepSuccess @ concat (rx t)" by auto
  moreover from this w2(1) d p have "socks5_connect dial ob sched host w =
      Some \<lparr>h_client = wire_close w', h_target = Some (wire_close t'), h_dialled = Some (host, int port),
        h_returned = True\<rparr>"
    by (simp add: socks5_connect_def w1(1) Let_def)
  ultimately show ?thesis by blast
qed

lemma socks5_request_steady:
  assumes w: "steady sent l w" and a: "socks_addr_ok a"
    and c: "wire_content w = socks_connect_msg rsv a port @ payload"
  obtains w' where "socks5_request dial ob sched w = socks5_connect dial ob sched (socks_addr_host a) w'"
    "steady sent l w'" "wire_content w' = put_u16 port @ payload"
proof -
  let ?h = "\<lambda>t. [char_of socks5Version, char_of socks5CmdConnect, rsv, char_of (t :: nat)]"
  show thesis
  proof (cases a)
    case (V4 b)
    with c have c1: "wire_content w = ?h socks5AtypIPv4 @ b @ put_u16 port @ payload"
      by (simp add: socks_connect_msg_def)
    from with_full_steady [OF w c1, of 4] obtain w1 where w1: "\<forall>k. with_full w 4 k = k (?h socks5AtypIPv4) w1" "steady sent l w1"
      "wire_content w1 = b @ put_u16 port @ payload"
      by auto
    from with_full_steady [OF w1(2,3), of 4] a V4 obtain w2 where "\<forall>k. with_full w1 4 k = k b w2" "steady sent l w2" "wire_content w2 = put_u16 port @ payload"
      by auto
    with w1(1) V4 that show thesis by (simp add: socks5_request_def socks5_defs)
  next
    case (V6 b)
    with c have c1: "wire_content w = ?h socks5AtypIPv6 @ b @ put_u16 port @ payload"
      by (simp add: socks_connect_msg_def)
    from with_full_steady [OF w c1, of 4] obtain w1 where w1: "\<forall>k. with_full w 4 k = k (?h socks5AtypIPv6) w1" "steady sent l w1"
      "wire_content w1 = b @ put_u16 port @ payload"
      by auto
    from with_full_steady [OF w1(2,3), of 16] a V6 obtain w2 where "\<forall>k. with_full w1 16 k = k b w2" "steady sent l w2" "wire_content w2 = put_u16 port @ payload"
      by auto
    with w1(1) V6 that show thesis by (simp add: socks5_request_def socks5_defs)
  next
    case (Domain b)
    with c have c1: "wire_content w = ?h socks5AtypDomain @ [char_of (length b)] @ b @ put_u16 port @ payload"
      by (simp add: socks_connect_msg_def)
    have lb: "0 < length b" "length b \<le> 255" using a Domain by simp_all
    from with_full_steady [OF w c1, of 4] obtain w1 where w1: "\<forall>k. with_full w 4 k = k (?h socks5AtypDomain) w1" "steady sent l w1"
      "wire_content w1 = [char_of (length b)] @ b @ put_u16 port @ payload"
      by auto
    from with_full_steady [OF w1(2,3), of 1] obtain w2 where w2: "\<forall>k. with_full w1 1 k = k [char_of (length b)] w2" "steady sent l w2"
      "wire_content w2 = b @ put_u16 port @ payload"
      by auto
    from with_full_steady [OF w2(2,3), of "length b"] obtain w3 where "\<forall>k. with_full w2 (length b) k = k b w3" "steady sent l w3"
      "wire_content w3 = put_u16 port @ payload"
      by auto
    with w1(1) w2(1) Domain lb that show thesis by (simp add: socks5_request_def socks5_defs Let_def)
  qed
qed

lemma socks5_dialogue:
  assumes w: "steady [] l w" and n: "length methods \<le> 255" and a: "socks_addr_ok a"
    and c: "wire_content w = socks_greeting methods @ socks_connect_msg rsv a port @ payload"
  shows "\<exists>w'. socks5_handle dial ob sched w = socks5_connect dial ob sched (socks_addr_host a) w' \<and>
    steady (map char_of [socks5Version, 0]) l w' \<and> wire_content w' = put_u16 port @ payload"
proof -
  let ?g = "[char_of socks5Version, char_of (length methods)]"
  let ?r = "socks_connect_msg rsv a port @ payload"
  have c1: "wire_content w = ?g @ methods @ ?r" using c by (simp add: socks_greeting_def)
  from with_full_steady [OF w c1, of 2] obtain w1 where
    w1: "\<forall>k. with_full w 2 k = k ?g w1" "steady [] l w1" "wire_content w1 = methods @ ?r" by auto
  from with_full_steady [OF w1(2), of "[]" _ 0] w1(3) obtain w2 where
    w2: "\<forall>k. with_full w1 0 k = k [] w2" "steady [] l w2" "wire_content w2 = methods @ ?r" by auto
  from with_full_steady [OF w2(2,3)] obtain w3 where
    w3: "\<forall>k. with_full w2 (length methods) k = k methods w3" "steady [] l w3" "wire_content w3 = ?r" by auto
  from steady_write [OF w3(2), of "map char_of [socks5Version, 0]"] w3(3) obtain w4 where
    w4: "wire_write w3 (map char_of [socks5Version, 0]) = (2, None, w4)"
    "steady (map char_of [socks5Version, 0]) l w4" "wire_content w4 = ?r" by auto
  from socks5_request_steady [OF w4(2) a w4(3), of dial ob sched] obtain w5 where
    "socks5_request dial ob sched w4 = socks5_connect dial ob sched (socks_addr_host a) w5"
    "steady (map char_of [socks5Version, 0]) l w5" "wire_content w5 = put_u16 port @ payload" by metis
  then show ?thesis using w1(1) w2(1) w3(1) w4(1) n
    by (cases "methods = []") (auto simp: socks5_handle_def socks5_defs Let_def)
qed

section \<open>What the relay writes\<close>

lemma copy_round_tx:
  assumes "copy_round rd wire_write s d n = Some (x, s', d')"
    and "\<And>n bs e s'. rd s n = Some (bs, e, s') \<Longrightarrow> R s s'"
  shows "R s s' \<and> (\<exists>y. tx d' = tx d @ y)"
proof (rule copy_round_keeps [OF assms(1), where P = R and Q = "\<lambda>d d'. \<exists>y. tx d' = tx d @ y"])
  show "R s s'" if "rd s n = Some (bs, e, s')" for n bs e s' by (rule assms(2) [OF that])
  show "\<exists>y. tx d' = tx d @ y" if "wire_write d bs = (n, e, d')" for bs n e d'
    using wiretap.write_exact [OF that] by auto
qed simp

lemma wire_read_sent: "wire_read w n = Some (bs, e, w') \<Longrightarrow> same_sent w w'"
  by (auto simp: same_sent_def dest: wire_read_frame)

definition extends :: "relay \<Rightarrow> relay \<Rightarrow> bool" where
  "extends r r' \<longleftrightarrow>
     (\<exists>y. tx (b_src (rl_client r')) = tx (b_src (rl_client r)) @ y) \<and> (\<exists>z. tx (rl_target r') = tx (rl_target r) @ z)"

lemma extends_refl [simp]: "extends r r" by (simp add: extends_def)

lemma extends_trans: "extends r r' \<Longrightarrow> extends r' r'' \<Longrightarrow> extends r r''"
  by (auto simp: extends_def)

lemma relay_step_extends: "relay_step r r' \<Longrightarrow> extends r r'"
proof (erule relay_stepE)
  let ?b = "rl_client r" and ?t = "rl_target r"
  assume u: "relay_up r = Some r'"
  show "extends r r'"
  proof (cases "rl_up r")
    case UpEnded
    with u show ?thesis by (simp add: relay_up_def)
  next
    case FromConn
    with u obtain x w t where c: "copy_round wire_read wire_write (b_src ?b) ?t 0 = Some (x, w, t)"
      and r': "rl_client r' = ?b\<lparr>b_src := w\<rparr>" "rl_target r' = t"
      by (auto simp: relay_up_def split: option.splits)
    have "same_sent (b_src ?b) w \<and> (\<exists>y. tx t = tx ?t @ y)" by (rule copy_round_tx [OF c]) (rule wire_read_sent)
    with r' show ?thesis by (simp add: extends_def same_sent_def)
  next
    case FromBuffer
    with u obtain x b t where c: "copy_round (bufio_read wire_read) wire_write ?b ?t 0 = Some (x, b, t)"
      and r': "rl_client r' = b" "rl_target r' = t"
      by (auto simp: relay_up_def split: option.splits sum.splits)
    have "same_sent_buf ?b b \<and> (\<exists>y. tx t = tx ?t @ y)" by (rule copy_round_tx [OF c]) (rule bufio_read_sent)
    with r' show ?thesis by (simp add: extends_def same_sent_def same_sent_buf_def)
  qed
next
  let ?b = "rl_client r" and ?t = "rl_target r"
  assume d: "relay_down r = Some r'"
  then obtain x w t where c: "copy_round wire_read wire_write ?t (b_src ?b) 0 = Some (x, t, w)"
    and r': "rl_client r' = ?b\<lparr>b_src := w\<rparr>" "rl_target r' = t"
    by (auto simp: relay_down_def split: option.splits if_splits)
  have "same_sent ?t t \<and> (\<exists>y. tx w = tx (b_src ?b) @ y)" by (rule copy_round_tx [OF c]) (rule wire_read_sent)
  with r' show "extends r r'" by (simp add: extends_def same_sent_def)
qed

lemma relay_run_steps: "relay_step\<^sup>*\<^sup>* r (relay_run sched r)"
proof (induction sched arbitrary: r)
  case Nil
  then show ?case by simp
next
  case (Cons up sched)
  let ?r = "case (if up then relay_up r else relay_down r) of None \<Rightarrow> r | Some r' \<Rightarrow> r'"
  have "relay_step r ?r \<or> ?r = r"
    by (cases up; cases "relay_up r"; cases "relay_down r") (auto intro: relay_step.intros)
  with Cons.IH [of ?r] show ?case by (auto intro: converse_rtranclp_into_rtranclp)
qed

lemma relay_run_extends: "extends r (relay_run sched r)"
  using relay_run_steps
proof (rule rtranclp_induct)
  show "extends r r''" if "extends r r'" "relay_step r' r''" for r' r''
    using that extends_trans relay_step_extends by blast
qed simp

lemma relay_session_extends:
  "relay_session sched d b t ph = h \<Longrightarrow>
     (\<exists>y t' z. tx (h_client h) = tx (b_src b) @ y \<and> h_target h = Some t' \<and> tx t' = tx t @ z \<and>
        h_dialled h = Some d \<and> (h_returned h \<longrightarrow> closed (h_client h) \<and> closed t'))"
  using relay_run_extends [of "\<lparr>rl_client = b, rl_target = t, rl_up = ph, rl_down_ended = False\<rparr>" sched]
  by (auto simp: relay_session_def Let_def extends_def wire_close_def)

section \<open>What a SOCKS5 client is answered\<close>

text \<open>
  \<open>sent\<close> was written to the client before: then nothing or one refusal follows, unless the outbound
  has opened a connection, in which case the success reply stands in front of anything else.
\<close>

definition socks_answered ::
  "(string \<Rightarrow> err + wire) \<Rightarrow> outbound \<Rightarrow> bytes \<Rightarrow> handled \<Rightarrow> bool"
where
  "socks_answered dial ob sent h \<longleftrightarrow>
     (h_returned h \<longrightarrow> closed (h_client h)) \<and>
     (case h_target h of
        None \<Rightarrow> h_returned h \<and> tx (h_client h) \<in> {sent, sent @ socks5_reply socks5RepFailure}
      | Some t' \<Rightarrow>
          (\<exists>host port t d z. h_dialled h = Some (host, port) \<and> Outbound_Dial dial ob host port = Inr t \<and>
             tx t' = tx t @ z \<and>
             (tx (h_client h) = sent \<and> h_returned h \<or>
              tx (h_client h) = sent @ socks5_reply socks5RepSuccess @ d)))"

lemma answered_hang_up: "same_sent w w1 \<Longrightarrow> socks_answered dial ob (tx w) (hang_up d w1)"
  by (simp add: socks_answered_def hang_up_def same_sent_def wire_close_def)

lemma answered_refuse: "same_sent w w1 \<Longrightarrow> socks_answered dial ob (tx w) (socks5_refuse d w1)"
proof -
  assume s: "same_sent w w1"
  obtain n e w2 where w2: "wire_write w1 (socks5_reply socks5RepFailure) = (n, e, w2)" by (metis prod_cases3)
  from wiretap.write_exact [OF this] s show ?thesis
    by (auto simp: socks_answered_def socks5_refuse_def hang_up_def sendReply_def w2 wire_close_def same_sent_def)
qed

lemma same_sent_trans: "same_sent w w1 \<Longrightarrow> same_sent w1 w2 \<Longrightarrow> same_sent w w2"
  by (simp add: same_sent_def)

text \<open>Reading the next part of the dialogue either hangs up or goes on.\<close>

lemma with_full_cases:
  assumes "with_full w1 n k = Some h" "same_sent w w1"
  obtains (ended) w2 where "same_sent w w2" "h = hang_up None w2"
    | (read) bs w2 where "same_sent w w2" "k bs w2 = Some h"
proof -
  from assms(1) obtain bs e w2 where r: "read_full wire_read w1 n = Some (bs, e, w2)"
    by (auto simp: with_full_def split: option.splits)
  have s: "same_sent w w2" using same_sent_trans [OF assms(2) read_full_sent(1) [OF r]] .
  show thesis
  proof (cases e)
    case None
    with assms(1) r read s show thesis by (simp add: with_full_def)
  next
    case (Some x)
    with assms(1) r ended s show thesis by (simp add: with_full_def)
  qed
qed

lemma answered_with_full:
  assumes "with_full w1 n k = Some h" "same_sent w w1"
    and "\<And>bs w2. same_sent w w2 \<Longrightarrow> k bs w2 = Some h \<Longrightarrow> socks_answered dial ob (tx w) h"
  shows "socks_answered dial ob (tx w) h"
  using assms(1,2) by (rule with_full_cases) (auto intro: answered_hang_up assms(3))

lemma answered_connect:
  "socks5_connect dial ob sched host w1 = Some h \<Longrightarrow> same_sent w w1 \<Longrightarrow> socks_answered dial ob (tx w) h"
  unfolding socks5_connect_def
proof (erule answered_with_full)
  fix pb w2
  assume s: "same_sent w w2" and k: "(let port = int (be_get pb) in case Outbound_Dial dial ob host port of
      Inl e \<Rightarrow> Some (socks5_refuse (Some (host, port)) w2)
    | Inr t \<Rightarrow> (case sendReply w2 socks5RepSuccess of
        (Some e, w3) \<Rightarrow> Some \<lparr>h_client = wire_close w3, h_target = Some (wire_close t),
          h_dialled = Some (host, port), h_returned = True\<rparr>
      | (None, w3) \<Rightarrow> Some (relay_session sched (host, port) (new_bufrd w3) t FromConn))) = Some h"
  let ?p = "int (be_get pb)"
  show "socks_answered dial ob (tx w) h"
  proof (cases "Outbound_Dial dial ob host ?p")
    case (Inl e)
    with k answered_refuse [OF s] show ?thesis by (auto simp: Let_def)
  next
    case (Inr t)
    obtain n e w3 where w3: "wire_write w2 (socks5_reply socks5RepSuccess) = (n, e, w3)" by (metis prod_cases3)
    note x = wiretap.write_exact [OF w3]
    show ?thesis
    proof (cases e)
      case (Some y)
      with k Inr w3 have "h = \<lparr>h_client = wire_close w3, h_target = Some (wire_close t),
          h_dialled = Some (host, ?p), h_returned = True\<rparr>" by (simp add: Let_def sendReply_def)
      with Some x s Inr show ?thesis by (auto simp: socks_answered_def same_sent_def wire_close_def)
    next
      case None
      with k Inr w3 have "relay_session sched (host, ?p) (new_bufrd w3) t FromConn = h"
        by (simp add: Let_def sendReply_def)
      from relay_session_extends [OF this] None x s Inr show ?thesis
        by (auto simp: socks_answered_def same_sent_def new_bufrd_def)
    qed
  qed
qed

lemma answered_request:
  "socks5_request dial ob sched w1 = Some h \<Longrightarrow> same_sent w w1 \<Longrightarrow> socks_answered dial ob (tx w) h"
  unfolding socks5_request_def
  by (erule answered_with_full)
    (auto split: if_splits simp: Let_def intro: answered_refuse answered_connect elim!: answered_with_full)

lemma answered_method:
  assumes s: "same_sent w w3" and k: "(case wire_write w3 (map char_of [socks5Version, 0]) of
      (_, Some e, w4) \<Rightarrow> Some (hang_up None w4)
    | (_, None, w4) \<Rightarrow> socks5_request dial ob sched w4) = Some h"
  shows "socks_answered dial ob (tx w) h \<or> socks_answered dial ob (tx w @ map char_of [socks5Version, 0]) h"
proof -
  obtain n e w4 where w4: "wire_write w3 (map char_of [socks5Version, 0]) = (n, e, w4)" by (metis prod_cases3)
  note x = wiretap.write_exact [OF w4]
  show ?thesis
  proof (cases e)
    case None
    with x s have "tx w4 = tx w @ map char_of [socks5Version, 0]" by (simp add: same_sent_def)
    with None k w4 answered_request [of dial ob sched w4 h w4] show ?thesis by (simp add: same_sent_def)
  next
    case (Some y)
    with k w4 x s have "h = hang_up None w4" "tx w4 = tx w" by (auto simp: same_sent_def)
    then show ?thesis by (simp add: socks_answered_def hang_up_def wire_close_def)
  qed
qed

lemma answered_handle:
  assumes "socks5_handle dial ob sched w = Some h"
  shows "socks_answered dial ob (tx w) h \<or> socks_answered dial ob (tx w @ map char_of [socks5Version, 0]) h"
proof -
  have "same_sent w w" by (simp add: same_sent_def)
  from assms [unfolded socks5_handle_def] this show ?thesis
  proof (cases rule: with_full_cases)
    case (read g w1)
    show ?thesis
    proof (cases "byte_at g 0 = socks5Version")
      case False
      with read answered_hang_up [OF read(1)] show ?thesis by auto
    next
      case True
      let ?n = "byte_at g 1"
      from read(2) True have "with_full w1 (if ?n \<le> 0 \<or> ?n > 255 then ?n else 0) (\<lambda>_ w2.
          with_full w2 ?n (\<lambda>_ w3. case wire_write w3 (map char_of [socks5Version, 0]) of
              (_, Some e, w4) \<Rightarrow> Some (hang_up None w4)
            | (_, None, w4) \<Rightarrow> socks5_request dial ob sched w4)) = Some h"
        by (simp only: Let_def not_not if_False simp_thms if_True)
      from this read(1) show ?thesis
      proof (cases rule: with_full_cases)
        case (read _ w2)
        from read(2,1) show ?thesis
          by (cases rule: with_full_cases) (auto intro: answered_hang_up dest: answered_method)
      qed (auto intro: answered_hang_up)
    qed
  qed (auto intro: answered_hang_up)
qed

section \<open>Addresses\<close>

lemma solid_join_host_port:
  assumes "solid host" "0 \<le> p"
  shows "solid (join_host_port host (itoa p))"
proof -
  have "solid (itoa p)" using assms(2) by (intro solid_plain) (simp_all add: itoa_def)
  then have "solid (host @ '':'' @ itoa p)" "solid (''['' @ (host @ '']:'') @ itoa p)"
    using assms(1) by (intro solid_append; simp add: solid_def plain_byte_def)+
  then show ?thesis by (simp add: join_host_port_def)
qed

lemma cut_join_host_port:
  "0 \<le> p \<Longrightarrow> cut_last (CHR '':'') (join_host_port host (itoa p)) =
     Some (if CHR '':'' \<in> set host then ''['' @ host @ '']'' else host, itoa p)"
  using cut_last_hit [OF itoa_no_colon, of p "''['' @ host @ '']''"] cut_last_hit [OF itoa_no_colon, of p host]
  by (simp add: join_host_port_def)

lemma parse_joined:
  assumes "solid host" "0 < p" "p \<le> 65535"
  shows "parseHostPort (join_host_port host (itoa p)) =
    Inr (if CHR '':'' \<in> set host then ''['' @ host @ '']'' else host, p)"
proof -
  have s: "solid (join_host_port host (itoa p))" using solid_join_host_port assms by simp
  have "join_host_port host (itoa p) \<noteq> []" using s by (auto simp: solid_def)
  moreover have "in_int64 p" using assms by (simp add: in_int64_def)
  ultimately show ?thesis using assms trim_space_solid(1) [OF s] cut_join_host_port [of p host]
    by (simp add: parseHostPort_def Let_def)
qed

section \<open>Properties\<close>

text \<open>
  C7: a SOCKS5 session end to end. A client that offers any methods and asks for an IPv4 address, an
  IPv6 address or a name is connected, whatever the segments its bytes arrive in: the node dials that
  host and port, answers the method and success, gives the target exactly what the client sends
  behind its request and the client exactly what the target sends, and closes both connections.
\<close>

theorem socks5_session:
  assumes "concat segs = socks_greeting methods @ socks_connect_msg rsv a port @ payload"
    and "length methods \<le> 255" "socks_addr_ok a" "port < 65536"
    and "dial (join_host_port (socks_addr_host a) (itoa (int port))) = Inr (wire_of tsegs (Some EOF))"
    and "2 + length segs + length (concat segs) \<le> turns True sched"
      "1 + length tsegs + length (concat tsegs) \<le> turns False sched"
  shows "\<exists>w t. socks5_handle dial Freedom sched (wire_of segs (Some EOF)) =
      Some \<lparr>h_client = w, h_target = Some t, h_dialled = Some (socks_addr_host a, int port), h_returned = True\<rparr> \<and>
    closed w \<and> closed t \<and> tx t = payload \<and>
    tx w = map char_of [5, 0 :: nat] @ socks5_reply socks5RepSuccess @ concat tsegs"
proof -
  let ?w = "wire_of segs (Some EOF)" and ?t = "wire_of tsegs (Some EOF)"
  have w: "steady [] (length segs) ?w" "wire_content ?w = concat segs"
    by (simp_all add: steady_def ends_well_def wire_of_def wire_content_def)
  have t: "ends_well ?t" "tx ?t = []" "rx ?t = tsegs" by (simp_all add: ends_well_def wire_of_def)
  from socks5_dialogue [OF w(1) assms(2,3)] w(2) assms(1) obtain w1 where
    w1: "socks5_handle dial Freedom sched ?w = socks5_connect dial Freedom sched (socks_addr_host a) w1"
    "steady (map char_of [socks5Version, 0]) (length segs) w1" "wire_content w1 = put_u16 port @ payload" by metis
  have d: "Outbound_Dial dial Freedom (socks_addr_host a) (int port) = Inr ?t"
    using assms(5) by (simp add: Outbound_Dial_def)
  have "2 + length segs + length payload \<le> turns True sched" using assms(1,6) by simp
  from socks5_connect_steady [OF w1(2,3) assms(4) d t(1) this] assms(7) t(2,3) w1(1) show ?thesis
    by (auto simp: socks5_defs wire_close_def)
qed

text \<open>
  A SOCKS5 client is never told more than is true. Whatever bytes it sends, and whatever fails,
  the node writes nothing or the method answer, then at most one refusal, unless the outbound opened a
  connection to the host and port it was asked for; only then does it report success, in front of the
  relayed data, and only then is anything written to a target. A handler that returns has closed the
  client, and through the blackhole no target is ever reached.
\<close>

theorem socks5_answers_truthful:
  assumes "socks5_handle dial ob sched w = Some h"
  shows "(socks_answered dial ob (tx w) h \<or> socks_answered dial ob (tx w @ map char_of [5, 0 :: nat]) h) \<and>
    (ob = Blackhole \<longrightarrow> h_target h = None)"
proof -
  have a: "socks_answered dial ob (tx w) h \<or> socks_answered dial ob (tx w @ map char_of [5, 0 :: nat]) h"
    using answered_handle [OF assms] by (simp add: socks5_defs)
  moreover have "h_target h = None" if "ob = Blackhole"
    using a that by (auto simp: socks_answered_def Outbound_Dial_def split: option.splits)
  ultimately show ?thesis by blast
qed

text \<open>
  A CONNECT request for a name or an IPv4 address dials the address the client wrote, but one for
  an IPv6 address never reaches it: the host keeps its brackets, and dialling adds another pair.
\<close>

theorem connect_address:
  assumes "solid host" "0 < p" "p \<le> 65535"
  shows "case parseHostPort (join_host_port host (itoa p)) of
      Inl _ \<Rightarrow> False
    | Inr (h, q) \<Rightarrow> q = p \<and> h = (if CHR '':'' \<in> set host then ''['' @ host @ '']'' else host) \<and>
        Outbound_Dial dial Freedom h q =
          dial (if CHR '':'' \<in> set host then ''[['' @ host @ '']]:'' @ itoa p else join_host_port host (itoa p))"
  using parse_joined [OF assms] by (simp add: Outbound_Dial_def join_host_port_def)

text \<open>
  A redirect target with a port outside 1 to 65535 is not refused: it silently becomes port 80 of
  the local host, while a port in that range gives the target as written.
\<close>

theorem redirect_target:
  assumes "solid host" "CHR '':'' \<notin> set host" "in_int64 p" "0 \<le> p"
  shows "NewRedirect (host @ '':'' @ itoa p) =
      Inr (if 0 < p \<and> p \<le> 65535 then Redirect host p else Redirect '''' 80) \<and>
    (65535 < p \<longrightarrow> (\<forall>ob. NewRedirect (host @ '':'' @ itoa p) = Inr ob \<longrightarrow>
       Outbound_Dial dial ob h q = dial '':80''))"
proof -
  have s: "solid (host @ '':'' @ itoa p)"
    using solid_join_host_port [OF assms(1,4)] assms(2) by (simp add: join_host_port_def)
  have c: "cut_last (CHR '':'') (host @ '':'' @ itoa p) = Some (host, itoa p)"
    using cut_join_host_port [OF assms(4), of host] assms(2) by (simp add: join_host_port_def)
  have i: "itoa 80 = ''80''" by code_simp
  have "NewRedirect (host @ '':'' @ itoa p) =
      Inr (if 0 < p \<and> p \<le> 65535 then Redirect host p else Redirect '''' 80)"
    unfolding NewRedirect_def splitHostPort_def trim_space_solid(1) [OF s] Let_def c
    using assms(3) by simp
  then show ?thesis by (simp add: Outbound_Dial_def join_host_port_def i)
qed

text \<open>
  An HTTP CONNECT session end to end. When the request has been read and its host can be dialled,
  the target receives exactly the bytes behind the request, those that were read into the buffer
  together with the request included, the client receives the 200 answer and exactly what the target
  sends, and both connections are closed.
\<close>

theorem http_connect_session:
  assumes "readRequest (new_bufrd w) = Some (Inr (''CONNECT'', hostport), br)"
    and "ends_well (b_src br)" "b_err br = None" "tx (b_src br) = []"
    and "b_buf br @ concat (rx (b_src br)) = payload"
    and "parseHostPort hostport = Inr (host, port)"
    and "dial (join_host_port host (itoa port)) = Inr (wire_of tsegs (Some EOF))"
    and "enough_turns (b_buf br) (b_src br) (wire_of tsegs (Some EOF)) sched"
  shows "\<exists>c t. http_handle readRequest dial Freedom sched w =
      Some \<lparr>h_client = c, h_target = Some t, h_dialled = Some (host, port), h_returned = True\<rparr> \<and>
    closed c \<and> closed t \<and> tx t = payload \<and> tx c = connect_answer @ concat tsegs"
proof -
  let ?t = "wire_of tsegs (Some EOF)" and ?w = "(b_src br)\<lparr>tx := connect_answer\<rparr>"
  let ?b = "br\<lparr>b_src := ?w\<rparr>"
  have t: "ends_well ?t" "tx ?t = []" "rx ?t = tsegs" by (simp_all add: ends_well_def wire_of_def)
  have e: "enough_turns (b_buf ?b) (b_src ?b) ?t sched" using assms(8) by (simp add: enough_turns_def)
  from relay_session_complete [of ?b ?t _ sched "(host, port)", OF _ t(1) _ refl e] assms(2,3)
  obtain c t' where r: "relay_session sched (host, port) ?b ?t (if b_buf br \<noteq> [] then FromBuffer else FromConn) =
      \<lparr>h_client = wire_close c, h_target = Some (wire_close t'), h_dialled = Some (host, port), h_returned = True\<rparr>"
    "tx t' = payload" "tx c = connect_answer @ concat tsegs"
    using assms(5) t by auto
  have "http_handle readRequest dial Freedom sched w = Some (relay_session sched (host, port) ?b ?t
      (if b_buf br \<noteq> [] then FromBuffer else FromConn))"
    using assms(1,4,6,7) ends_well_write [OF assms(2)]
    by (simp add: http_handle_def Outbound_Dial_def)
  with r show ?thesis by (auto simp: wire_close_def)
qed

section \<open>Witnesses\<close>

definition wit_dial :: "string \<Rightarrow> err + wire" where
  "wit_dial addr = (if addr = ''a.b:80'' then Inr (wire_of [''ok''] (Some EOF)) else Inl (Err ''refused''))"

definition wit_request :: "bytes list" where
  "wit_request = [socks_greeting [CHR 0x00], socks_connect_msg (CHR 0x00) (Domain ''a.b'') 80, ''hi'']"

lemma wit_request_segs: "length wit_request = 3" "length (concat wit_request) = 15"
  "concat wit_request = socks_greeting [CHR 0x00] @ socks_connect_msg (CHR 0x00) (Domain ''a.b'') 80 @ ''hi''"
  by (simp_all add: wit_request_def socks_greeting_def socks_connect_msg_def)

lemma socks5_session_witness:
  "\<exists>w t. socks5_handle wit_dial Freedom (replicate 40 True @ replicate 10 False)
      (wire_of wit_request (Some EOF)) =
        Some \<lparr>h_client = w, h_target = Some t, h_dialled = Some (''a.b'', 80), h_returned = True\<rparr> \<and>
     tx t = ''hi'' \<and> tx w = map char_of [5, 0 :: nat] @ socks5_reply socks5RepSuccess @ ''ok''"
proof -
  have d: "wit_dial (join_host_port (socks_addr_host (Domain ''a.b'')) (itoa (int 80))) =
      Inr (wire_of [''ok''] (Some EOF))" by code_simp
  have t: "2 + length wit_request + length (concat wit_request) \<le> turns True (replicate 40 True @ replicate 10 False)"
    "1 + length [''ok''] + length (concat [''ok'']) \<le> turns False (replicate 40 True @ replicate 10 False)"
    by (simp_all only: wit_request_segs(1,2)) (simp_all add: turns_def)
  have "length [CHR 0x00] \<le> 255" "socks_addr_ok (Domain ''a.b'')" "(80 :: nat) < 65536" by simp_all
  from socks5_session [where dial = wit_dial, OF wit_request_segs(3) this d t] show ?thesis by auto
qed

lemma socks5_answers_truthful_witness:
  "\<exists>h. socks5_handle wit_dial Blackhole [] (wire_of wit_request (Some EOF)) = Some h \<and>
    tx (h_client h) = map char_of [5, 0 :: nat] @ socks5_reply socks5RepFailure \<and> h_target h = None"
proof -
  let ?w = "wire_of wit_request (Some EOF)"
  have w: "steady [] 3 ?w"
    "wire_content ?w = socks_greeting [CHR 0x00] @ socks_connect_msg (CHR 0x00) (Domain ''a.b'') 80 @ ''hi''"
    by (simp_all add: steady_def ends_well_def wire_of_def wire_content_def wit_request_segs(1,3))
  from socks5_dialogue [OF w(1) _ _ w(2), of wit_dial Blackhole "[]"] obtain w1 where
    w1: "socks5_handle wit_dial Blackhole [] ?w = socks5_connect wit_dial Blackhole [] ''a.b'' w1"
    "steady (map char_of [socks5Version, 0]) 3 w1" "wire_content w1 = put_u16 80 @ ''hi''" by auto
  from with_full_steady [OF w1(2,3), of 2] obtain w2 where
    w2: "\<forall>k. with_full w1 2 k = k (put_u16 80) w2" "steady (map char_of [socks5Version, 0]) 3 w2" by auto
  from steady_write [OF w2(2), of "socks5_reply socks5RepFailure"] obtain w3 where
    "sendReply w2 socks5RepFailure = (None, w3)" "tx w3 = map char_of [5, 0 :: nat] @ socks5_reply socks5RepFailure"
    by (auto simp: sendReply_def steady_def socks5Version_def)
  then have h: "socks5_handle wit_dial Blackhole [] ?w = Some (hang_up (Some (''a.b'', 80)) w3)"
    using w1(1) w2(1) by (simp add: socks5_connect_def Outbound_Dial_def socks5_refuse_def)
  from socks5_answers_truthful [OF h] h \<open>tx w3 = _\<close> show ?thesis by (auto simp: hang_up_def wire_close_def)
qed

lemma connect_address_witness:
  "case parseHostPort ''[::1]:443'' of
      Inl _ \<Rightarrow> False
    | Inr (h, q) \<Rightarrow> Outbound_Dial wit_dial Freedom h q = wit_dial ''[[::1]]:443''"
proof -
  have s: "solid ''::1''" by (simp add: solid_def plain_byte_def)
  have i: "join_host_port ''::1'' (itoa 443) = ''[::1]:443''" "itoa 443 = ''443''" by code_simp+
  from connect_address [OF s, of 443 wit_dial, unfolded i(1), unfolded i(2)] show ?thesis
    by (simp split: sum.splits prod.splits)
qed

lemma redirect_target_witness:
  "NewRedirect ''localhost:70000'' = Inr (Redirect '''' 80)"
proof -
  have s: "solid ''localhost''" by (simp add: solid_def plain_byte_def)
  have "digit 7 = CHR ''7''" "digit 0 = CHR ''0''" by code_simp+
  then have i: "itoa 70000 = ''70000''" by (simp add: itoa_def dec_of_nat.simps)
  from redirect_target [OF s, of 70000] show ?thesis by (simp add: i in_int64_def)
qed

text \<open>A reader of requests that only looks at the first line, for a request without header fields.\<close>

definition wit_read_request :: http_reader where
  "wit_read_request b =
     (case read_line wire_read b of
        Some (line, None, b1) \<Rightarrow>
          (case read_line wire_read b1 of
             Some (_, None, b2) \<Rightarrow>
               (case go_fields line of
                  [m, h, _] \<Rightarrow> Some (Inr (m, h), b2)
                | _ \<Rightarrow> Some (Inl (Err ''malformed''), b2))
           | _ \<Rightarrow> None)
      | _ \<Rightarrow> None)"

definition wit_connect :: wire where
  "wit_connect = wire_of [''CONNECT a.b:80 HTTP/1.1'' @ crlf @ crlf @ ''he'', ''llo''] (Some EOF)"

lemma wit_connect_read:
  "wit_read_request (new_bufrd wit_connect) =
     Some (Inr (''CONNECT'', ''a.b:80''), \<lparr>b_src = wire_of [''llo''] (Some EOF), b_buf = ''he'', b_err = None\<rparr>)"
proof -
  have "go_fields (''CONNECT a.b:80 HTTP/1.1'' @ crlf) = [''CONNECT'', ''a.b:80'', ''HTTP/1.1'']" by code_simp
  then show ?thesis
    by (simp add: wit_read_request_def wit_connect_def io_simps read_string_unfold)
qed

lemma http_connect_session_witness:
  "\<exists>c t. http_handle wit_read_request wit_dial Freedom (replicate 40 True @ replicate 10 False) wit_connect =
      Some \<lparr>h_client = c, h_target = Some t, h_dialled = Some (''a.b'', 80), h_returned = True\<rparr> \<and>
    tx t = ''hello'' \<and> tx c = connect_answer @ ''ok''"
proof -
  let ?br = "\<lparr>b_src = wire_of [''llo''] (Some EOF), b_buf = ''he'', b_err = None\<rparr>"
  have p: "parseHostPort ''a.b:80'' = Inr (''a.b'', 80)" by code_simp
  have d: "wit_dial (join_host_port ''a.b'' (itoa 80)) = Inr (wire_of [''ok''] (Some EOF))" by code_simp
  have e: "enough_turns (b_buf ?br) (b_src ?br) (wire_of [''ok''] (Some EOF)) (replicate 40 True @ replicate 10 False)"
    by (simp add: enough_turns_def wire_of_def turns_def)
  have "ends_well (b_src ?br)" "b_err ?br = None" "tx (b_src ?br) = []"
    "b_buf ?br @ concat (rx (b_src ?br)) = ''hello''"
    by (simp_all add: ends_well_def wire_of_def)
  from http_connect_session [where dial = wit_dial and readRequest = wit_read_request and w = wit_connect, OF wit_connect_read this p d e] show ?thesis by auto
qed

end
