(* ===== verification/Daemon.thy ===== *)
theory Daemon
  imports NodeConfig Dns ProxyClient Inbound
begin

text \<open>
  \<open>hypernet/node/daemon/run.go\<close>: how a node is put together from its configuration and the
  environment: the protocols it offers, the proxy server and its obfuscation, the registration of its
  names and the listeners it starts. Creating the libp2p host, opening the databases and serving the
  listeners belong to other components; their results are arguments here.
\<close>

section \<open>Protocols\<close>

definition default_order :: "string list" where
  "default_order = [''vless'', ''vmess'', ''trojan'', ''shadowsocks'', ''hysteria2'', ''plain'']"

definition preferredProtos :: "string list \<Rightarrow> string list" where
  "preferredProtos wanted =
     (if wanted = [] then default_order
      else let ps = filter (\<lambda>n. n \<in> set default_order) wanted
        in if ps = [] then default_order else ps)"

text \<open>\<open>registerProtocol\<close> for the six adapters, in this order.\<close>

definition registerProtocol :: "string list \<Rightarrow> string \<Rightarrow> unit manager \<Rightarrow> unit manager" where
  "registerProtocol prefs name m = (if name \<in> set prefs then ProtoManager.Register (Some (name, ())) m else m)"

definition node_manager :: "string list \<Rightarrow> unit manager" where
  "node_manager wanted =
     (let prefs = preferredProtos wanted
      in fold (registerProtocol prefs) default_order (NewManager prefs))"

section \<open>The server\<close>

definition getenv :: "environ \<Rightarrow> string \<Rightarrow> string" where
  "getenv env key = (case env key of None \<Rightarrow> '''' | Some v \<Rightarrow> v)"

definition env_padding :: "environ \<Rightarrow> int \<times> int" where
  "env_padding env =
     (case atoi (getenv env ''HYPERNET_OBFS_PADDING_MIN'') of
        None \<Rightarrow> (0, 0)
      | Some n \<Rightarrow>
          if n < 0 then (0, 0)
          else case atoi (getenv env ''HYPERNET_OBFS_PADDING_MAX'') of
            None \<Rightarrow> (n, 0)
          | Some m \<Rightarrow> (n, if m \<ge> n then m else 0))"

definition env_delay :: "environ \<Rightarrow> duration \<times> duration" where
  "env_delay env =
     (let v = getenv env ''HYPERNET_OBFS_WRITE_DELAY_MIN''; v2 = getenv env ''HYPERNET_OBFS_WRITE_DELAY_MAX''
      in if v = '''' then (0, 0)
         else case parse_duration v of
           None \<Rightarrow> (0, 0)
         | Some d \<Rightarrow>
             if d < 0 then (0, 0)
             else if v2 = '''' then (d, d)
             else case parse_duration v2 of
               None \<Rightarrow> (d, d)
             | Some d2 \<Rightarrow> (d, if d2 \<ge> d then d2 else d))"

text \<open>The metrics database: the path that could be opened, and the flush interval.\<close>

definition metrics_store :: "node_config \<Rightarrow> (string \<Rightarrow> bool) \<Rightarrow> (string \<times> duration) option" where
  "metrics_store cfg opens =
     (let flush = (if MetricsFlushInterval cfg \<le> 0 then Second else MetricsFlushInterval cfg);
          path = MetricsDBPath cfg
      in if path = '''' then None
         else if opens path then Some (path, flush)
         else if path = ''./hypernet.db'' \<and> opens ''/tmp/hypernet.db'' then Some (''/tmp/hypernet.db'', flush)
         else None)"

definition node_server :: "node_config \<Rightarrow> environ \<Rightarrow> (string \<Rightarrow> bool) \<Rightarrow> string \<Rightarrow> Server" where
  "node_server cfg env opens region =
     (let srv = NewServer;
          srv = (if metrics_store cfg opens = None then srv
                 else SetMetricsQualityInterval (MetricsQualityInterval cfg) (SetMetricsStore True srv));
          srv = SetNodeRegion region srv;
          token = getenv env ''HYPERNET_VLESS_TOKEN'';
          srv = (if token = '''' then srv else SetVLESSAuthToken token srv);
          (pMin, pMax) = env_padding env; (dMin, dMax) = env_delay env
      in if pMax > 0 \<or> dMax > 0 then SetObfuscation pMin pMax dMin dMax srv else srv)"

text \<open>The handler of negotiation streams: what it leaves of the server, and the response.\<close>

definition negotiation_handler ::
  "unit manager \<Rightarrow> peer \<Rightarrow> err + offer \<Rightarrow> err option \<Rightarrow> Server \<Rightarrow> Server \<times> response option"
where
  "negotiation_handler mgr remote decoded enc_err srv =
     (case HandleStream (Some mgr) decoded enc_err of
        (Inl _, resp) \<Rightarrow> (srv, resp)
      | (Inr chosen, resp) \<Rightarrow> (RememberChosenProtocol remote chosen srv, resp))"

section \<open>Names\<close>

fun go_contains :: "string \<Rightarrow> string \<Rightarrow> bool" where
  "go_contains [] sub \<longleftrightarrow> sub = []"
| "go_contains (c # s) sub \<longleftrightarrow> has_prefix (c # s) sub \<or> go_contains s sub"

definition name_addrs :: "(string \<Rightarrow> err + string) \<Rightarrow> string \<Rightarrow> string list \<Rightarrow> string list" where
  "name_addrs parse host_id addrs =
     concat (map (\<lambda>a. case parse (a @ ''/p2p/'' @ host_id) of Inl _ \<Rightarrow> [] | Inr f \<Rightarrow> [f]) addrs)"

text \<open>A name that another peer holds is skipped; any other error asks for another attempt.\<close>

definition registered_or_taken :: "err option \<Rightarrow> bool" where
  "registered_or_taken e =
     (case e of None \<Rightarrow> True | Some e \<Rightarrow> go_contains (err_msg e) ''already registered by another peer'')"

datatype dns_task = Cancelled | Refreshing

definition maxAttempts :: nat where
  "maxAttempts = 25"

text \<open>
  The attempts to register: \<open>reg\<close> gives the result of each attempt on each name, \<open>done_at\<close> says
  whether the context is done at the check in front of an attempt and \<open>done_wait\<close> in the wait behind
  it. The result is the number of attempts made and what the goroutine does next.
\<close>

fun register_loop ::
  "(nat \<Rightarrow> string \<Rightarrow> err option) \<Rightarrow> (nat \<Rightarrow> bool) \<Rightarrow> (nat \<Rightarrow> bool) \<Rightarrow> string list \<Rightarrow> nat \<Rightarrow> nat \<Rightarrow> nat \<times> dns_task"
where
  "register_loop reg done_at done_wait names 0 attempt = (attempt, Refreshing)"
| "register_loop reg done_at done_wait names (Suc left) attempt =
     (if done_at attempt then (attempt, Cancelled)
      else if list_all (\<lambda>n. registered_or_taken (reg attempt n)) names then (Suc attempt, Refreshing)
      else if left > 0 \<and> done_wait attempt then (Suc attempt, Cancelled)
      else register_loop reg done_at done_wait names left (Suc attempt))"

text \<open>Whether the goroutine is started at all, and its run; the initial wait may be cut short.\<close>

definition dns_task_of ::
  "node_config \<Rightarrow> bool \<Rightarrow> string list \<Rightarrow> bool \<Rightarrow> (nat \<Rightarrow> string \<Rightarrow> err option) \<Rightarrow> (nat \<Rightarrow> bool) \<Rightarrow>
     (nat \<Rightarrow> bool) \<Rightarrow> (nat \<times> dns_task) option"
where
  "dns_task_of cfg has_dht addrs done_first reg done_at done_wait =
     (if \<not> has_dht \<or> DNSNames cfg = [] \<or> DNSTTL cfg \<le> 0 \<or> addrs = [] then None
      else if done_first then Some (0, Cancelled)
      else Some (register_loop reg done_at done_wait (DNSNames cfg) maxAttempts 0))"

section \<open>Listeners\<close>

datatype service =
    SOCKS5 string outbound
  | HTTPProxy string outbound
  | DokodemoDoor string outbound
  | Reality string string

definition outbound_of :: "node_config \<Rightarrow> outbound" where
  "outbound_of cfg = (if Outbound cfg = ''blackhole'' then Blackhole else Freedom)"

text \<open>The listeners started; \<open>reality_listens\<close> says whether REALITY can listen.\<close>

definition services :: "node_config \<Rightarrow> (string \<Rightarrow> bool) \<Rightarrow> service list" where
  "services cfg reality_listens =
     (if Socks5Listen cfg \<noteq> '''' then [SOCKS5 (Socks5Listen cfg) (outbound_of cfg)] else []) @
     (if HTTPProxyListen cfg \<noteq> '''' then [HTTPProxy (HTTPProxyListen cfg) (outbound_of cfg)] else []) @
     (if DokodemoListen cfg \<noteq> '''' \<and> DokodemoTarget cfg \<noteq> ''''
      then (case NewRedirect (DokodemoTarget cfg) of
              Inl e \<Rightarrow> []
            | Inr redirect \<Rightarrow> [DokodemoDoor (DokodemoListen cfg) redirect])
      else []) @
     (if RealityListen cfg \<noteq> '''' \<and> RealityDest cfg \<noteq> '''' \<and> RealityPrivateKey cfg \<noteq> '''' \<and>
         reality_listens (RealityListen cfg)
      then [Reality (RealityListen cfg) (RealityDest cfg)] else [])"

section \<open>The protocols a node offers\<close>

lemma default_order_props: "default_order \<noteq> []" "distinct default_order" "'''' \<notin> set default_order"
  by code_simp+

lemma preferredProtos_props:
  "preferredProtos w \<noteq> []" "set (preferredProtos w) \<subseteq> set default_order"
  by (auto simp: preferredProtos_def Let_def default_order_props)

lemma distinct_preferredProtos: "distinct w \<Longrightarrow> distinct (preferredProtos w)"
  by (simp add: preferredProtos_def Let_def default_order_props)

lemma registerProtocol_reach: "mgr_reach prefs m \<Longrightarrow> mgr_reach prefs (registerProtocol q n m)"
  by (simp add: registerProtocol_def reach_step step_register)

lemma fold_register:
  "mgr_reach prefs m \<Longrightarrow> mgr_reach prefs (fold (registerProtocol q) ns m) \<and>
     fst ` set (protocols (fold (registerProtocol q) ns m)) =
       fst ` set (protocols m) \<union> (set ns \<inter> set q - {''''})"
proof (induction ns arbitrary: m)
  case Nil
  then show ?case by simp
next
  case (Cons n ns)
  have "fst ` set (protocols (registerProtocol q n m)) =
      fst ` set (protocols m) \<union> ({n} \<inter> set q - {''''})"
    by (auto simp: registerProtocol_def ProtoManager.Register_def keys_alist_put)
  with Cons.IH [OF registerProtocol_reach [OF Cons.prems]] show ?case by auto
qed

lemma node_manager_reach: "mgr_reach (preferredProtos w) (node_manager w)"
  unfolding node_manager_def Let_def using fold_register [OF reach_new] by blast

lemma node_manager_names: "set (SupportedNames (node_manager w)) = set (preferredProtos w)"
proof -
  have "mgr_wf (node_manager w)" using mgr_reach_wf [OF node_manager_reach] by simp
  then have "set (SupportedNames (node_manager w)) = fst ` set (protocols (node_manager w))"
    by (rule set_SupportedNames)
  also have "\<dots> = set default_order \<inter> set (preferredProtos w) - {''''}"
    unfolding node_manager_def Let_def using fold_register [OF reach_new] by (simp add: NewManager_def)
  also have "\<dots> = set (preferredProtos w)"
    using preferredProtos_props(2) [of w] default_order_props(3) by auto
  finally show ?thesis .
qed

lemma first_in_filter: "first_in S ns = (case filter (\<lambda>n. n \<in> S) ns of [] \<Rightarrow> None | n # _ \<Rightarrow> Some n)"
  by (induction ns) auto

lemma fresh_client_names: "SupportedNames (register_all all_protocols (NewManager all_protocols)) = all_protocols"
  by code_simp

lemma fresh_client_agrees:
  assumes "NewProxyClient parse node False token = Inr c"
  shows "let p = hd (filter (\<lambda>n. n \<in> set (preferredProtos wanted)) all_protocols) in
    p \<in> set (preferredProtos wanted) \<and>
    (\<exists>t. ClientNegotiate True (cl_mgr c) None (node_peer (Some (node_manager wanted))) = Inr (p, t)) \<and>
    (\<forall>m. cl_mgr c = Some m \<longrightarrow>
       lastChosenProtocol pid (fst (negotiation_handler (node_manager wanted) pid (Inr (client_offer m)) None srv)) = p)"
proof -
  define p where "p = hd (filter (\<lambda>n. n \<in> set (preferredProtos wanted)) all_protocols)"
  define m where "m = register_all all_protocols (NewManager all_protocols)"
  have m: "cl_mgr c = Some m" using assms(1) by (auto simp: NewProxyClient_def Let_def m_def split: sum.splits)
  let ?S = "set (SupportedNames (node_manager wanted))"
  have same: "all_protocols = default_order" by (simp add: all_protocols_def default_order_def)
  obtain n where "n \<in> set (preferredProtos wanted)" using preferredProtos_props(1) [of wanted] by (cases "preferredProtos wanted") auto
  with preferredProtos_props(2) [of wanted] have "filter (\<lambda>n. n \<in> ?S) all_protocols \<noteq> []"
    by (auto simp: filter_empty_conv node_manager_names same)
  then obtain ps where ps: "filter (\<lambda>n. n \<in> ?S) all_protocols = p # ps"
    by (cases "filter (\<lambda>n. n \<in> ?S) all_protocols") (auto simp: p_def node_manager_names)
  then have pin: "p \<in> ?S" using filter_eq_ConsD [OF ps] by auto
  have "p \<noteq> ''''" using pin default_order_props(3) preferredProtos_props(2) [of wanted]
    by (auto simp: node_manager_names)
  moreover have "off_protocols (client_offer m) = all_protocols"
    by (simp add: client_offer_def m_def fresh_client_names)
  with ps have h: "HandleStream (Some (node_manager wanted)) (Inr (client_offer m)) None =
      (Inr p, Some \<lparr>resp_protocols = SupportedNames (node_manager wanted), Chosen = p,
         ChosenTransport = ChooseCommonTransport (node_manager wanted) (off_transports (client_offer m))\<rparr>)"
    by (simp add: HandleStream_def ChooseCommon_first first_in_filter Let_def)
  ultimately show ?thesis
    unfolding Let_def p_def [symmetric]
    using pin m by (simp add: ClientNegotiate_def node_peer_def negotiation_handler_def node_manager_names
        RememberChosenProtocol_def lastChosenProtocol_def)
qed

text \<open>
  A fresh client and a node always find a protocol. Whatever list of protocols the node is
  configured with, a client that was not restricted agrees with it on the first protocol of the
  client's order the node offers, and the node's server remembers that protocol for the client.
\<close>

theorem fresh_client_negotiates:
  assumes "NewProxyClient parse node False token = Inr c"
  shows "let p = hd (filter (\<lambda>n. n \<in> set (preferredProtos wanted)) all_protocols) in
    p \<in> set (preferredProtos wanted) \<and>
    (\<exists>t. ClientNegotiate True (cl_mgr c) None (node_peer (Some (node_manager wanted))) = Inr (p, t)) \<and>
    (\<forall>m. cl_mgr c = Some m \<longrightarrow>
       lastChosenProtocol pid (fst (negotiation_handler (node_manager wanted) pid (Inr (client_offer m)) None srv)) = p)"
  by (rule fresh_client_agrees [OF assms])

lemma fresh_client_negotiates_witness:
  "\<exists>c t. NewProxyClient (\<lambda>_. Inr (Inr wit_peer)) ''node'' False ''tok'' = Inr c \<and>
     ClientNegotiate True (cl_mgr c) None (node_peer (Some (node_manager [''plain'', ''trojan'']))) = Inr (''trojan'', t)"
proof -
  obtain c where c: "NewProxyClient (\<lambda>_. Inr (Inr wit_peer)) ''node'' False ''tok'' = Inr c" by (simp add: NewProxyClient_def Let_def)
  have "hd (filter (\<lambda>n. n \<in> set (preferredProtos [''plain'', ''trojan''])) all_protocols) = ''trojan''"
    by (simp add: preferredProtos_def Let_def default_order_def all_protocols_def)
  with fresh_client_negotiates [OF c, of "[''plain'', ''trojan'']"] c show ?thesis by (auto simp: Let_def)
qed

section \<open>The obfuscation of a node\<close>

lemma env_padding_range:
  "env_padding env = (a, b) \<Longrightarrow> 0 \<le> a \<and> 0 \<le> b \<and> b < 2 ^ 63 \<and> (b = 0 \<or> a \<le> b)"
  using atoi_range [of "getenv env ''HYPERNET_OBFS_PADDING_MAX''"]
  by (auto simp: env_padding_def in_int64_def split: option.splits if_splits)

lemma env_delay_range: "env_delay env = (a, b) \<Longrightarrow> 0 \<le> a \<and> a \<le> b \<and> b < 2 ^ 63"
  using parse_duration_range [of "getenv env ''HYPERNET_OBFS_WRITE_DELAY_MIN''"]
    parse_duration_range [of "getenv env ''HYPERNET_OBFS_WRITE_DELAY_MAX''"]
  by (auto simp: env_delay_def Let_def in_int64_def split: option.splits if_splits)

lemma AgreeObfs_no_padding: "PMax s \<le> 0 \<Longrightarrow> AgreeObfs s c = AgreeObfs (s\<lparr>PMin := 0, PMax := 0\<rparr>) c"
  by (simp add: AgreeObfs_def Let_def)

lemma node_server_obfs:
  obtains "AgreeObfs (srv_obfs (node_server cfg env opens region)) c = AgreeObfs \<lparr>PMin = 0, PMax = 0, WDMin = 0, WDMax = 0\<rparr> c"
  | s where "AgreeObfs (srv_obfs (node_server cfg env opens region)) c = AgreeObfs s c" "limits_ok s"
      "limits_fit (srv_obfs (node_server cfg env opens region)) c \<longrightarrow> limits_fit s c"
proof -
  obtain a b where p: "env_padding env = (a, b)" by fastforce
  obtain d e where w: "env_delay env = (d, e)" by fastforce
  note r = env_padding_range [OF p] env_delay_range [OF w]
  let ?o = "srv_obfs (node_server cfg env opens region)"
  show ?thesis
  proof (cases "b > 0 \<or> e > 0")
    case False
    then have "?o = \<lparr>PMin = 0, PMax = 0, WDMin = 0, WDMax = 0\<rparr>"
      by (simp add: node_server_def Let_def p w NewServer_def SetNodeRegion_def SetVLESSAuthToken_def
          SetMetricsStore_def SetMetricsQualityInterval_def)
    then show ?thesis using that(1) by simp
  next
    case True
    then have o: "?o = \<lparr>PMin = a, PMax = b, WDMin = d, WDMax = e\<rparr>"
      by (simp add: node_server_def Let_def p w SetObfuscation_def)
    show ?thesis
    proof (cases "b = 0")
      case True
      with o r AgreeObfs_no_padding [of ?o c] show ?thesis
        by (intro that(2) [of "?o\<lparr>PMin := 0, PMax := 0\<rparr>"]) (auto simp: limits_ok_def limits_fit_def)
    next
      case False
      with o r show ?thesis by (intro that(2) [of ?o]) (auto simp: limits_ok_def)
    qed
  qed
qed

text \<open>
  A node's answer to an OBFS line can always be read. Whatever the four obfuscation variables of
  its environment say (a minimum without a maximum, a maximum below the minimum, nonsense), when a
  client asks for at least the node's minimum the line the node answers with parses, on the client,
  to exactly the parameters the node then uses.
\<close>

theorem node_obfs_answer:
  assumes "ParseObfsLine line = Some c" "limits_fit (srv_obfs (node_server cfg env opens region)) c"
  shows "ParseObfsLine (FormatObfsLine (AgreeObfs (srv_obfs (node_server cfg env opens region)) c)) =
    Some (AgreeObfs (srv_obfs (node_server cfg env opens region)) c)"
proof (rule node_server_obfs [of cfg env opens region c])
  note v = parse_obfs_valid [OF assms(1)]
  let ?z = "\<lparr>PMin = 0, PMax = 0, WDMin = 0, WDMax = 0\<rparr> :: ObfsParams"
  have "limits_ok ?z" "limits_fit ?z c" by (simp_all add: limits_ok_def limits_fit_def)
  with AgreeObfs_valid [OF v] have "obfs_valid (AgreeObfs ?z c)" by blast
  then show ?thesis if "AgreeObfs (srv_obfs (node_server cfg env opens region)) c = AgreeObfs ?z c"
    unfolding that by (rule parse_format_obfs)
  show ?thesis if "AgreeObfs (srv_obfs (node_server cfg env opens region)) c = AgreeObfs s c" "limits_ok s"
    "limits_fit (srv_obfs (node_server cfg env opens region)) c \<longrightarrow> limits_fit s c" for s
    unfolding that(1) using AgreeObfs_valid [OF v that(2)] that(3) assms(2) parse_format_obfs by blast
qed

definition node_env :: environ where
  "node_env = [''HYPERNET_OBFS_PADDING_MIN'' \<mapsto> ''16'', ''HYPERNET_OBFS_PADDING_MAX'' \<mapsto> ''64'']"

definition no_flags :: flags where
  "no_flags = \<lparr>f_int = (\<lambda>_. None), f_string = (\<lambda>_. None), f_bool = (\<lambda>_. None), f_duration = (\<lambda>_. None)\<rparr>"

lemma Load_no_flags:
  assumes "envInt env ''PORT'' 4001 = 4001"
  obtains cfg where "Load env no_flags = Inr cfg"
  using that assms by (simp add: Load_def Let_def no_flags_def flag_or_def)

lemma Load_dns:
  assumes "Load env no_flags = Inr cfg"
  shows "DNSNames cfg = split_list (envString env ''DNS_NAMES'' '''') \<and>
    DNSTTL cfg = envDuration env ''DNS_TTL'' ''86400s''"
proof -
  have "case Load env no_flags of Inl _ \<Rightarrow> True
    | Inr c \<Rightarrow> DNSNames c = split_list (envString env ''DNS_NAMES'' '''') \<and>
        DNSTTL c = envDuration env ''DNS_TTL'' ''86400s''"
    by (simp add: Load_def Let_def no_flags_def flag_or_def)
  with assms show ?thesis by simp
qed

lemma node_env_obfs: "env_padding node_env = (16, 64)" "env_delay node_env = (0, 0)"
  by code_simp+

lemma node_env_node_obfs:
  "srv_obfs (node_server cfg node_env opens region) = \<lparr>PMin = 16, PMax = 64, WDMin = 0, WDMax = 0\<rparr>"
  by (simp add: node_server_def Let_def node_env_obfs SetObfuscation_def)

lemma node_obfs_answer_witness:
  "\<exists>cfg. Load node_env no_flags = Inr cfg \<and>
     ParseObfsLine (FormatObfsLine (AgreeObfs (srv_obfs (node_server cfg node_env (\<lambda>_. True) ''eu'')) ObfsNegotiate.wit_client)) =
       Some \<lparr>PMin = 16, PMax = 64, WDMin = 0, WDMax = 0\<rparr>"
proof -
  obtain cfg where c: "Load node_env no_flags = Inr cfg"
    by (rule Load_no_flags [of node_env]) (auto simp: node_env_def envInt_def env_value_def)
  have "obfs_valid ObfsNegotiate.wit_client" by (simp add: obfs_valid_def ObfsNegotiate.wit_client_def Millisecond_def)
  then have p: "ParseObfsLine (FormatObfsLine ObfsNegotiate.wit_client) = Some ObfsNegotiate.wit_client" by (rule parse_format_obfs)
  have "limits_fit (srv_obfs (node_server cfg node_env (\<lambda>_. True) ''eu'')) ObfsNegotiate.wit_client"
    by (simp add: node_env_node_obfs limits_fit_def ObfsNegotiate.wit_client_def)
  from node_obfs_answer [OF p this] c show ?thesis
    by (simp add: node_env_node_obfs AgreeObfs_def ObfsNegotiate.wit_client_def Let_def)
qed

section \<open>Registering the names\<close>

lemma go_contains_append: "go_contains (a @ b @ c) b"
proof (induction a)
  case Nil
  have "has_prefix (b @ c) b" by (simp add: has_prefix_append)
  then show ?case by (cases "b @ c") auto
qed simp

lemma taken_is_skipped:
  "registered_or_taken (Some (Err (''dns: name '' @ q @ '' already registered by another peer'')))"
  using go_contains_append [of "''dns: name '' @ q @ '' ''" "''already registered by another peer''" "[]"]
  by (simp add: registered_or_taken_def)

lemma register_loop_bounds:
  "register_loop reg done_at done_wait names left i = (n, r) \<Longrightarrow>
     i \<le> n \<and> n \<le> i + left \<and>
     (\<forall>k. i \<le> k \<and> Suc k < n \<longrightarrow> (\<exists>x\<in>set names. \<not> registered_or_taken (reg k x))) \<and>
     (r = Refreshing \<and> n < i + left \<longrightarrow> i < n \<and> (\<forall>x\<in>set names. registered_or_taken (reg (n - 1) x)))"
proof (induction left arbitrary: i)
  case 0
  then show ?case by auto
next
  case (Suc left)
  consider (stop) "done_at i" | (ok) "\<not> done_at i" "list_all (\<lambda>x. registered_or_taken (reg i x)) names"
    | (wait) "\<not> done_at i" "\<not> list_all (\<lambda>x. registered_or_taken (reg i x)) names" "left > 0 \<and> done_wait i"
    | (again) "\<not> done_at i" "\<not> list_all (\<lambda>x. registered_or_taken (reg i x)) names" "\<not> (left > 0 \<and> done_wait i)"
    by blast
  then show ?case
  proof cases
    case again
    with Suc.prems have h: "register_loop reg done_at done_wait names left (Suc i) = (n, r)" by simp
    have f: "\<exists>x\<in>set names. \<not> registered_or_taken (reg i x)" using again(2) by (auto simp: list_all_iff)
    have "\<exists>x\<in>set names. \<not> registered_or_taken (reg k x)" if "i \<le> k" "Suc k < n" for k
      using Suc.IH [OF h] f that by (cases "k = i") auto
    with Suc.IH [OF h] show ?thesis by auto
  next
    case wait
    then have f: "\<exists>x\<in>set names. \<not> registered_or_taken (reg i x)" by (auto simp: list_all_iff)
    from wait Suc.prems have "n = Suc i" "r = Cancelled" by auto
    with f show ?thesis using wait(3) le_antisym by fastforce
  qed (use Suc.prems in \<open>auto simp: list_all_iff\<close>)
qed

text \<open>
  C38: registering the names ends. The goroutine runs only for a node with a DHT, names, a positive
  time to live and an address. It makes at most 25 attempts; each attempt but the last left some name
  unregistered for another reason than that a peer holds it; and when it goes on to refresh the names
  before the 25th attempt, its last attempt registered every name or found it taken.
\<close>

theorem name_registration_bounded:
  assumes "dns_task_of cfg has_dht addrs done_first reg done_at done_wait = Some (n, r)"
  shows "has_dht \<and> DNSNames cfg \<noteq> [] \<and> 0 < DNSTTL cfg \<and> addrs \<noteq> [] \<and> n \<le> 25 \<and>
    (\<forall>k. Suc k < n \<longrightarrow> (\<exists>x\<in>set (DNSNames cfg). \<not> registered_or_taken (reg k x))) \<and>
    (r = Refreshing \<and> n < 25 \<longrightarrow>
       0 < n \<and> (\<forall>x\<in>set (DNSNames cfg). registered_or_taken (reg (n - 1) x)))"
proof (cases done_first)
  case True
  with assms show ?thesis by (auto simp: dns_task_of_def split: if_splits)
next
  case False
  with assms have "register_loop reg done_at done_wait (DNSNames cfg) 25 0 = (n, r)"
    and c: "has_dht" "DNSNames cfg \<noteq> []" "0 < DNSTTL cfg" "addrs \<noteq> []"
    by (auto simp: dns_task_of_def maxAttempts_def split: if_splits)
  from register_loop_bounds [OF this(1)] c show ?thesis by simp
qed

lemma dns_env_values:
  "split_list (envString [''DNS_NAMES'' \<mapsto> ''alice''] ''DNS_NAMES'' '''') = [''alice'']"
  "envDuration [''DNS_NAMES'' \<mapsto> ''alice''] ''DNS_TTL'' ''86400s'' > 0"
proof -
  show "split_list (envString [''DNS_NAMES'' \<mapsto> ''alice''] ''DNS_NAMES'' '''') = [''alice'']" by code_simp
  have "parse_duration ''86400s'' = Some (86400 * Second)"
    by (simp add: parse_duration_def dur_loop.simps dur_term_def unit_char_def Second_def is_digit_def digit_val_def)
  then show "envDuration [''DNS_NAMES'' \<mapsto> ''alice''] ''DNS_TTL'' ''86400s'' > 0"
    by (simp add: envDuration_def env_value_def duration_or_second_def Second_def)
qed

lemma EOF_not_taken: "\<not> registered_or_taken (Some EOF)"
  by code_simp

lemma third_attempt:
  "register_loop (\<lambda>i x. if i < 2 then Some EOF else None) (\<lambda>_. False) (\<lambda>_. False) [n] 25 0 = (3, Refreshing)"
  by (simp add: eval_nat_numeral EOF_not_taken) (simp add: registered_or_taken_def)

lemma name_registration_bounded_witness:
  "\<exists>cfg. Load [''DNS_NAMES'' \<mapsto> ''alice''] no_flags = Inr cfg \<and>
     dns_task_of cfg True [''addr''] False (\<lambda>i x. if i < 2 then Some EOF else None)
       (\<lambda>_. False) (\<lambda>_. False) = Some (3, Refreshing) \<and>
     (\<forall>k::nat<2. \<exists>x\<in>set (DNSNames cfg). \<not> registered_or_taken (if k < 2 then Some EOF else None))"
proof -
  let ?env = "[''DNS_NAMES'' \<mapsto> ''alice''] :: environ"
  obtain cfg where c: "Load ?env no_flags = Inr cfg"
    by (rule Load_no_flags [of ?env]) (auto simp: envInt_def env_value_def)
  have n: "DNSNames cfg = [''alice'']" "DNSTTL cfg > 0" using Load_dns [OF c] dns_env_values by simp_all
  then have d: "dns_task_of cfg True [''addr''] False (\<lambda>i x. if i < 2 then Some EOF else None)
      (\<lambda>_. False) (\<lambda>_. False) = Some (3, Refreshing)"
    by (simp add: dns_task_of_def maxAttempts_def third_attempt)
  from name_registration_bounded [OF d] have "\<forall>k. Suc k < 3 \<longrightarrow>
      (\<exists>x\<in>set (DNSNames cfg). \<not> registered_or_taken (if k < 2 then Some EOF else None))" by blast
  then have "\<forall>k<(2::nat). \<exists>x\<in>set (DNSNames cfg). \<not> registered_or_taken (if k < 2 then Some EOF else None)"
    by auto
  then show ?thesis using c d by blast
qed

end
