(* ===== verification/Transport.thy ===== *)
theory Transport
  imports GoNet Framing IOFrame
begin

text \<open>
  \<open>hypernet/core/network/transport\<close>: the registry of transports, the addresses they dial, the
  framed connection of the gRPC transport and the message connection of the WebSocket transport.
  A multiaddr is known by its text and the names of its protocols; dialling, listening, HTTP/2 and
  the WebSocket protocol are library code.
\<close>

section \<open>Multiaddrs\<close>

record multiaddr =
  ma_string :: string
  ma_protocols :: "string list"

text \<open>The loop over the parts: the last host and the last port win; a key without a value is skipped.\<close>

fun parse_parts ::
  "string set \<Rightarrow> string \<Rightarrow> string \<times> string \<times> string \<Rightarrow> string list \<Rightarrow> string \<times> string \<times> string"
where
  "parse_parts hosts pk r [] = r"
| "parse_parts hosts pk r [x] = r"
| "parse_parts hosts pk (hk, host, port) (x # y # ps) =
     (if x \<in> hosts then parse_parts hosts pk (x, y, port) ps
      else if x = pk then parse_parts hosts pk (hk, host, y) ps
      else parse_parts hosts pk (hk, host, port) (y # ps))"

definition parse_ma :: "string set \<Rightarrow> string \<Rightarrow> string \<Rightarrow> string \<times> string \<times> string" where
  "parse_ma hosts pk s = parse_parts hosts pk ('''', '''', '''') (drop 1 (go_split (CHR ''/'') s))"

definition nil_multiaddr :: err where
  "nil_multiaddr = Err ''multiaddr is nil''"

definition parseTCPMultiaddr :: "multiaddr option \<Rightarrow> err + (string \<times> string \<times> string)" where
  "parseTCPMultiaddr ma =
     (case ma of None \<Rightarrow> Inl nil_multiaddr
      | Some a \<Rightarrow>
          (case parse_ma {''ip4'', ''ip6''} ''tcp'' (ma_string a) of (hk, host, port) \<Rightarrow>
             if host = '''' \<or> port = ''''
             then Inl (Err (''transport/tcp: invalid multiaddr '' @ go_quote (ma_string a) @ '' (need ip4/ip6 and tcp)''))
             else Inr (if hk = ''ip6'' then ''tcp6'' else if hk = ''ip4'' then ''tcp4'' else ''tcp'', host, port)))"

definition dns_hosts :: "string set" where
  "dns_hosts = {''ip4'', ''ip6'', ''dns4'', ''dns6''}"

definition parse_host_port ::
  "string \<Rightarrow> string \<Rightarrow> string \<Rightarrow> multiaddr option \<Rightarrow> err + (string \<times> string)"
where
  "parse_host_port pk prefix suffix ma =
     (case ma of None \<Rightarrow> Inl nil_multiaddr
      | Some a \<Rightarrow>
          (case parse_ma dns_hosts pk (ma_string a) of (hk, host, port) \<Rightarrow>
             if host = '''' \<or> port = '''' then Inl (Err (prefix @ go_quote (ma_string a) @ suffix))
             else Inr (host, port)))"

definition parseWSMultiaddr :: "multiaddr option \<Rightarrow> err + (string \<times> string)" where
  "parseWSMultiaddr =
     parse_host_port ''tcp'' ''transport/ws: invalid multiaddr '' '' (need host and tcp/port)''"

definition parseGRPCMultiaddr :: "multiaddr option \<Rightarrow> err + (string \<times> string)" where
  "parseGRPCMultiaddr = parse_host_port ''tcp'' ''transport/grpc: invalid multiaddr '' ''''"

definition parseKCPMultiaddr :: "multiaddr option \<Rightarrow> err + (string \<times> string)" where
  "parseKCPMultiaddr =
     parse_host_port ''udp'' ''transport/kcp: invalid multiaddr '' '' (need host and udp/port)''"

definition parseUnixMultiaddr :: "multiaddr option \<Rightarrow> err + string" where
  "parseUnixMultiaddr ma =
     (case ma of None \<Rightarrow> Inl nil_multiaddr
      | Some a \<Rightarrow>
          if \<not> has_prefix (ma_string a) ''/unix/''
          then Inl (Err (''transport/unix: invalid multiaddr '' @ go_quote (ma_string a) @ '' (need /unix/...)''))
          else Inr (drop (length ''/unix/'') (ma_string a)))"

section \<open>The registry\<close>

datatype transport = TCP | Unix | KCP | GRPC | WS | WSS

fun transport_name :: "transport \<Rightarrow> string" where
  "transport_name TCP = ''tcp''"
| "transport_name Unix = ''unix''"
| "transport_name KCP = ''kcp''"
| "transport_name GRPC = ''grpc''"
| "transport_name WS = ''ws''"
| "transport_name WSS = ''wss''"

type_synonym registry = "(string \<times> transport) list"

definition NewRegistry :: registry where
  "NewRegistry = []"

definition reg_register :: "transport option \<Rightarrow> registry \<Rightarrow> registry" where
  "reg_register t r = (case t of None \<Rightarrow> r | Some t \<Rightarrow> alist_put (transport_name t) t r)"

definition reg_get :: "string \<Rightarrow> registry \<Rightarrow> transport option" where
  "reg_get name r = map_of r name"

definition multiaddrTransportName :: "multiaddr option \<Rightarrow> string" where
  "multiaddrTransportName ma =
     (case ma of None \<Rightarrow> ''''
      | Some a \<Rightarrow>
          (case filter (\<lambda>n. n \<in> {''tcp'', ''udp'', ''ws'', ''wss'', ''grpc'', ''kcp'', ''unix''}) (ma_protocols a) of
             [] \<Rightarrow> '''' | n # _ \<Rightarrow> n))"

definition ByMultiaddr :: "multiaddr option \<Rightarrow> registry \<Rightarrow> transport option" where
  "ByMultiaddr ma r =
     (let name = multiaddrTransportName ma in if name = '''' then None else reg_get name r)"

text \<open>The registrations of the \<open>init\<close> functions, in the order of the files.\<close>

definition DefaultRegistry :: registry where
  "DefaultRegistry = fold (\<lambda>t. reg_register (Some t)) [GRPC, KCP, TCP, Unix, WS, WSS] NewRegistry"

text \<open>The network and the address a transport hands to the dialer.\<close>

definition dial_address :: "transport \<Rightarrow> multiaddr option \<Rightarrow> err + (string \<times> string)" where
  "dial_address t ma =
     (case t of
        TCP \<Rightarrow>
          (case parseTCPMultiaddr ma of Inl e \<Rightarrow> Inl e
           | Inr (nw, host, port) \<Rightarrow> Inr (nw, join_host_port host port))
      | Unix \<Rightarrow> (case parseUnixMultiaddr ma of Inl e \<Rightarrow> Inl e | Inr path \<Rightarrow> Inr (''unix'', path))
      | KCP \<Rightarrow>
          (case parseKCPMultiaddr ma of Inl e \<Rightarrow> Inl e
           | Inr (host, port) \<Rightarrow> Inr (''udp'', join_host_port host port))
      | GRPC \<Rightarrow>
          (case parseGRPCMultiaddr ma of Inl e \<Rightarrow> Inl e
           | Inr (host, port) \<Rightarrow> Inr (''tcp'', join_host_port host port))
      | _ \<Rightarrow>
          (case parseWSMultiaddr ma of Inl e \<Rightarrow> Inl e
           | Inr (host, port) \<Rightarrow> Inr (''tcp'', join_host_port host port)))"

section \<open>The connection of the gRPC transport\<close>

record h2_conn =
  h2_buf :: bytes

definition h2_max_frame :: nat where
  "h2_max_frame = 2 ^ 20"

text \<open>
  The loop of \<open>Read\<close> on an empty buffer: the new buffer and the error. A frame that breaks off leaves
  the buffer with what was read of it and zeros.
\<close>

partial_function (option) h2_fill :: "'s reader \<Rightarrow> 's \<Rightarrow> (bytes \<times> err option \<times> 's) option" where
  "h2_fill rd s =
     (case read_full rd s 4 of
        None \<Rightarrow> None
      | Some (_, Some e, s1) \<Rightarrow> Some ([], Some e, s1)
      | Some (hdr, None, s1) \<Rightarrow>
          if be_get hdr = 0 then h2_fill rd s1
          else if be_get hdr > h2_max_frame then Some ([], Some (Err ''grpc: frame too large''), s1)
          else (case read_full rd s1 (be_get hdr) of
            None \<Rightarrow> None
          | Some (got, Some e, s2) \<Rightarrow>
              Some (got @ replicate (be_get hdr - length got) (CHR 0x00), Some e, s2)
          | Some (p, None, s2) \<Rightarrow> Some (p, None, s2)))"

definition h2_read :: "'s reader \<Rightarrow> (h2_conn \<times> 's) reader" where
  "h2_read rd cs n =
     (case cs of (c, s) \<Rightarrow>
        if h2_buf c \<noteq> []
        then Some (take n (h2_buf c), None, (c\<lparr>h2_buf := drop n (h2_buf c)\<rparr>, s))
        else case h2_fill rd s of
          None \<Rightarrow> None
        | Some (b, Some e, s1) \<Rightarrow> Some ([], Some e, (c\<lparr>h2_buf := b\<rparr>, s1))
        | Some (b, None, s1) \<Rightarrow> Some (take n b, None, (c\<lparr>h2_buf := drop n b\<rparr>, s1)))"

definition h2_write :: "'s writer \<Rightarrow> (h2_conn \<times> 's) writer" where
  "h2_write wr cs b =
     (case cs of (c, s) \<Rightarrow>
        if b = [] then (0, None, (c, s))
        else case wr s (put_u32 (length b)) of
          (_, Some e, s1) \<Rightarrow> (0, Some e, (c, s1))
        | (_, None, s1) \<Rightarrow> (case wr s1 b of (n, e, s2) \<Rightarrow> (n, e, (c, s2))))"

text \<open>
  The server's end. It reads as the client's does, and flushes the response writer, when that can be
  flushed, behind a write that succeeded.
\<close>

definition h2_server_read :: "'s reader \<Rightarrow> (h2_conn \<times> 's) reader" where
  "h2_server_read rd cs n =
     (case cs of (c, s) \<Rightarrow>
        if h2_buf c \<noteq> []
        then Some (take n (h2_buf c), None, (c\<lparr>h2_buf := drop n (h2_buf c)\<rparr>, s))
        else case h2_fill rd s of
          None \<Rightarrow> None
        | Some (b, Some e, s1) \<Rightarrow> Some ([], Some e, (c\<lparr>h2_buf := b\<rparr>, s1))
        | Some (b, None, s1) \<Rightarrow> Some (take n b, None, (c\<lparr>h2_buf := drop n b\<rparr>, s1)))"

definition h2_server_write :: "('s \<Rightarrow> 's) option \<Rightarrow> 's writer \<Rightarrow> (h2_conn \<times> 's) writer" where
  "h2_server_write flusher wr cs b =
     (case cs of (c, s) \<Rightarrow>
        if b = [] then (0, None, (c, s))
        else case wr s (put_u32 (length b)) of
          (_, Some e, s1) \<Rightarrow> (0, Some e, (c, s1))
        | (_, None, s1) \<Rightarrow>
            (case wr s1 b of
               (n, Some e, s2) \<Rightarrow> (n, Some e, (c, s2))
             | (n, None, s2) \<Rightarrow> (n, None, (c, case flusher of None \<Rightarrow> s2 | Some flush \<Rightarrow> flush s2))))"

text \<open>
  A response writer of package \<open>http\<close> while its handler runs: what was written is held back until
  there is enough of it, as \<open>early\<close> decides, or it is flushed.
\<close>

definition resp_write :: "(bytes \<Rightarrow> nat) \<Rightarrow> (bytes \<times> wire) writer" where
  "resp_write early hw b =
     (case hw of (held, w) \<Rightarrow>
        let all = held @ b; k = early all
        in case wire_write w (take k all) of
             (_, Some e, w1) \<Rightarrow> (0, Some e, (all, w1))
           | (_, None, w1) \<Rightarrow> (length b, None, (drop k all, w1)))"

definition resp_flush :: "bytes \<times> wire \<Rightarrow> bytes \<times> wire" where
  "resp_flush hw = (case hw of (held, w) \<Rightarrow> (case wire_write w held of (n, _, w1) \<Rightarrow> (drop n held, w1)))"

text \<open>
  A \<open>Write\<close> called while a \<open>Read\<close> is under way: both hold the mutex of the connection from beginning
  to end, so the write begins when the read has returned.
\<close>

definition write_during_read ::
  "'s reader \<Rightarrow> 's writer \<Rightarrow> h2_conn \<times> 's \<Rightarrow> nat \<Rightarrow> bytes \<Rightarrow> (nat \<times> err option \<times> h2_conn \<times> 's) option"
where
  "write_during_read rd wr cs n b =
     (case h2_read rd cs n of None \<Rightarrow> None | Some (_, _, cs1) \<Rightarrow> Some (h2_write wr cs1 b))"

section \<open>The connection of the WebSocket transport\<close>

text \<open>\<open>recv\<close> and \<open>send\<close> are \<open>ReadMessage\<close> and \<open>WriteMessage\<close> of the WebSocket library.\<close>

partial_function (option) ws_fill ::
  "('s \<Rightarrow> ((err + bytes) \<times> 's) option) \<Rightarrow> 's \<Rightarrow> ((err + bytes) \<times> 's) option"
where
  "ws_fill recv s =
     (case recv s of
        None \<Rightarrow> None
      | Some (Inl e, s1) \<Rightarrow> Some (Inl e, s1)
      | Some (Inr p, s1) \<Rightarrow> if p = [] then ws_fill recv s1 else Some (Inr p, s1))"

definition ws_read :: "('s \<Rightarrow> ((err + bytes) \<times> 's) option) \<Rightarrow> (bytes \<times> 's) reader" where
  "ws_read recv cs n =
     (case cs of (buf, s) \<Rightarrow>
        if buf \<noteq> [] then Some (take n buf, None, (drop n buf, s))
        else case ws_fill recv s of
          None \<Rightarrow> None
        | Some (Inl e, s1) \<Rightarrow> Some ([], Some e, ([], s1))
        | Some (Inr p, s1) \<Rightarrow> Some (take n p, None, (drop n p, s1)))"

definition ws_write :: "('s \<Rightarrow> bytes \<Rightarrow> err option \<times> 's) \<Rightarrow> (bytes \<times> 's) writer" where
  "ws_write send cs b =
     (case cs of (buf, s) \<Rightarrow>
        (case send s b of (Some e, s1) \<Rightarrow> (0, Some e, (buf, s1)) | (None, s1) \<Rightarrow> (length b, None, (buf, s1))))"

section \<open>The gRPC connection is a framed session\<close>

definition h2_split :: splitter where
  "h2_split bs =
     (let n = be_get (take 4 bs)
      in if length bs < 4 \<or> n = 0 \<or> n > h2_max_frame \<or> length bs < 4 + n then None
         else Some (take n (drop 4 bs), drop (4 + n) bs))"

definition h2_frame :: "bytes \<Rightarrow> bytes" where
  "h2_frame p = (if p = [] then [] else put_u32 (length p) @ p)"

definition h2_fits :: "bytes \<Rightarrow> bool" where
  "h2_fits p \<longleftrightarrow> length p \<le> h2_max_frame"

lemma h2_split_shrinks: "h2_split bs = Some (p, r) \<Longrightarrow> length p + length r < length bs"
  by (auto simp: h2_split_def Let_def split: if_splits)

lemma put_u32_frame: "length p \<le> h2_max_frame \<Longrightarrow> be_get (put_u32 (length p)) = length p"
  by (rule be_get_put_u32) (simp add: h2_max_frame_def)

lemma frame_of_h2: "h2_fits p \<Longrightarrow> frame_of h2_split p (h2_frame p)"
proof (cases "p = []")
  case True
  then show ?thesis by (simp add: frame_of_def h2_frame_def)
next
  case False
  assume "h2_fits p"
  then have l: "be_get (put_u32 (length p)) = length p" "length p \<le> h2_max_frame"
    by (simp_all add: put_u32_frame h2_fits_def)
  have "h2_split (h2_frame p @ r) = Some (p, r)" for r
    using False l by (simp add: h2_split_def h2_frame_def Let_def)
  with False show ?thesis by (intro frame_ofI) (simp_all add: h2_frame_def)
qed

context byte_stream
begin

lemma h2_framed: "framed_session rd content ok work (h2_read rd) h2_buf (\<lambda>_. True) h2_split"
proof unfold_locales
  show "h2_split bs = Some (p, r) \<Longrightarrow> length p + length r < length bs" for bs p r
    by (rule h2_split_shrinks)
next
  fix c :: h2_conn and n :: nat and s :: 's
  assume "h2_buf c \<noteq> []"
  then show "\<exists>c'. h2_read rd (c, s) n = Some (take n (h2_buf c), None, (c', s)) \<and> True \<and>
      h2_buf c' = drop n (h2_buf c)"
    by (simp add: h2_read_def)
next
  fix c :: h2_conn and s :: 's and n :: nat and p r
  assume h: "ok s" "h2_buf c = []" "h2_split (content s) = Some (p, r)"
  define m where "m = be_get (take 4 (content s))"
  from h(3) have m: "4 \<le> length (content s)" "m \<noteq> 0" "m \<le> h2_max_frame" "4 + m \<le> length (content s)"
    and pr: "p = take m (drop 4 (content s))" "r = drop (4 + m) (content s)"
    by (auto simp: h2_split_def Let_def m_def split: if_splits)
  from read_full_content [OF h(1) m(1)] obtain s1 where s1:
    "read_full rd s 4 = Some (take 4 (content s), None, s1)" "content s1 = drop 4 (content s)" "ok s1" by blast
  have "m \<le> length (content s1)" using m(4) s1(2) by simp
  from read_full_content [OF s1(3) this] obtain s2 where s2:
    "read_full rd s1 m = Some (p, None, s2)" "content s2 = r" "ok s2"
    using pr s1(2) by (auto simp: add.commute)
  have "h2_fill rd s = Some (p, None, s2)"
    using s1(1) s2(1) m by (subst h2_fill.simps) (simp add: m_def [symmetric])
  with h(2) s2 show "\<exists>c' s'. h2_read rd (c, s) n = Some (take n p, None, (c', s')) \<and> True \<and>
      h2_buf c' = drop n p \<and> ok s' \<and> content s' = r"
    by (simp add: h2_read_def)
qed

end

interpretation h2_wire:
  framed_session wire_read wire_content wire_ok wire_work "h2_read wire_read" h2_buf "\<lambda>_. True" h2_split
  by (rule wirestream.h2_framed)

context byte_sink
begin

lemma h2_framing: "framing_writer wr sent up (h2_write wr) (\<lambda>_. True) h2_fits h2_split"
proof unfold_locales
  fix s :: 's and c :: h2_conn and p :: bytes
  assume h: "up s" "h2_fits p"
  show "\<exists>f c' s'. h2_write wr (c, s) p = (length p, None, (c', s')) \<and> frame_of h2_split p f \<and>
      sent s' = sent s @ f \<and> up s' \<and> True"
  proof (cases "p = []")
    case True
    with h(1) frame_of_h2 [OF h(2)] show ?thesis
      by (intro exI [of _ "h2_frame p"]) (simp add: h2_write_def h2_frame_def)
  next
    case False
    from write_sent [OF h(1), of "put_u32 (length p)"] obtain s1 where
      s1: "wr s (put_u32 (length p)) = (4, None, s1)" "sent s1 = sent s @ put_u32 (length p)" "up s1" by auto
    from write_sent [OF s1(3), of p] obtain s2 where
      "wr s1 p = (length p, None, s2)" "sent s2 = sent s1 @ p" "up s2" by blast
    with s1 False frame_of_h2 [OF h(2)] show ?thesis
      by (intro exI [of _ "h2_frame p"]) (simp add: h2_write_def h2_frame_def)
  qed
qed

end

interpretation h2_wire_writer:
  framing_writer wire_write tx wire_up "h2_write wire_write" "\<lambda>_. True" h2_fits h2_split
  by (rule wiresink.h2_framing)

section \<open>Addresses\<close>

lemma go_split_slashes:
  "\<forall>p\<in>set ps. CHR ''/'' \<notin> set p \<Longrightarrow> CHR ''/'' \<notin> set a \<Longrightarrow>
     go_split (CHR ''/'') (a @ concat (map ((#) (CHR ''/'')) ps)) = a # ps"
proof (induction a)
  case Nil
  show ?case
    using Nil.prems(1)
  proof (induction ps)
    case Nil
    then show ?case by simp
  next
    case (Cons p ps)
    have "go_split (CHR ''/'') (p @ concat (map ((#) (CHR ''/'')) ps)) = p # ps" if "CHR ''/'' \<notin> set p" for p
      using that Cons by (induction p) auto
    with Cons.prems show ?case by simp
  qed
qed auto

lemma parse_parts_skip:
  "\<forall>p\<in>set ps. p \<notin> hosts \<and> p \<noteq> pk \<Longrightarrow> parse_parts hosts pk r ps = r"
proof (induction ps arbitrary: r rule: induct_list012)
  case (3 x y ps)
  then show ?case by (cases r) auto
qed auto

text \<open>
  The text of an address that names a host and a port, followed by parts that are neither: the form
  \<open>/ip4/h/tcp/p\<close>, \<open>/dns4/h/tcp/p/ws\<close> and so on.
\<close>

definition addr_text :: "string \<Rightarrow> string \<Rightarrow> string \<Rightarrow> string \<Rightarrow> string list \<Rightarrow> string" where
  "addr_text hk host pk port rest = concat (map ((#) (CHR ''/'')) ([hk, host, pk, port] @ rest))"

definition slash_free :: "string \<Rightarrow> bool" where
  "slash_free s \<longleftrightarrow> CHR ''/'' \<notin> set s"

lemma parse_ma_text:
  assumes "list_all slash_free ([hk, host, pk, port] @ rest)" "hk \<in> hosts" "pk \<notin> hosts"
    and "\<forall>p\<in>set rest. p \<notin> hosts \<and> p \<noteq> pk"
  shows "parse_ma hosts pk (addr_text hk host pk port rest) = (hk, host, port)"
proof -
  have "go_split (CHR ''/'') ([] @ addr_text hk host pk port rest) = [] # [hk, host, pk, port] @ rest"
    unfolding addr_text_def
    by (rule go_split_slashes) (use assms(1) in \<open>auto simp: list_all_iff slash_free_def\<close>)
  with assms(2-4) parse_parts_skip [of rest hosts pk] show ?thesis by (simp add: parse_ma_def)
qed

section \<open>Properties\<close>

text \<open>
  The response writer loses nothing: what was written to it is what is on the wire and what it still
  holds. Behind each \<open>Write\<close> of the server's connection it holds nothing back.
\<close>

definition resp_sent :: "bytes \<times> wire \<Rightarrow> bytes" where
  "resp_sent hw = tx (snd hw) @ fst hw"

definition resp_up :: "bytes \<times> wire \<Rightarrow> bool" where
  "resp_up hw \<longleftrightarrow> wire_up (snd hw)"

lemma wire_write_sends: "wire_up w \<Longrightarrow> wire_write w bs = (length bs, None, w\<lparr>tx := tx w @ bs\<rparr>)"
  by (simp add: wire_write_def wire_up_def)

lemma resp_flushed:
  assumes "resp_up s"
  shows "resp_flush s = ([], (snd s)\<lparr>tx := resp_sent s\<rparr>)"
  using assms by (cases s) (simp add: resp_flush_def resp_up_def resp_sent_def wire_write_sends)

interpretation respsink: byte_sink "resp_write early" resp_sent resp_up
proof unfold_locales
  fix s bs
  assume "resp_up s"
  then show "\<exists>s'. resp_write early s bs = (length bs, None, s') \<and> resp_sent s' = resp_sent s @ bs \<and> resp_up s'"
    by (cases s) (simp add: resp_write_def resp_sent_def resp_up_def Let_def wire_write_sends wire_up_def
        del: take_append drop_append)
qed

lemma h2_server_write_frame:
  assumes "resp_up s" "p \<noteq> []"
  shows "h2_server_write (Some resp_flush) (resp_write early) (c, s) p =
    (length p, None, (c, ([], (snd s)\<lparr>tx := resp_sent s @ put_u32 (length p) @ p\<rparr>)))"
proof -
  from respsink.write_sent [OF assms(1), of early "put_u32 (length p)"] obtain s1 where
    s1: "resp_write early s (put_u32 (length p)) = (4, None, s1)" "resp_sent s1 = resp_sent s @ put_u32 (length p)" "resp_up s1"
    by auto
  from respsink.write_sent [OF s1(3), of early p] obtain s2 where
    s2: "resp_write early s1 p = (length p, None, s2)" "resp_sent s2 = resp_sent s1 @ p" "resp_up s2" by blast
  have wires: "\<exists>t. snd s' = (snd s0)\<lparr>tx := t\<rparr>" if "resp_up s0" "resp_write early s0 b = (n, None, s')" for s0 s' b n
    using that by (cases s0) (auto simp: resp_write_def resp_up_def Let_def wire_write_sends)
  from wires [OF assms(1) s1(1)] wires [OF s1(3) s2(1)] have "\<exists>t. snd s2 = (snd s)\<lparr>tx := t\<rparr>" by auto
  then have "(snd s2)\<lparr>tx := resp_sent s2\<rparr> = (snd s)\<lparr>tx := resp_sent s2\<rparr>" by auto
  with s1 s2 assms(2) resp_flushed [OF s2(3)] show ?thesis by (simp add: h2_server_write_def)
qed

interpretation h2_server_writer:
  framing_writer "resp_write early" resp_sent resp_up "h2_server_write (Some resp_flush) (resp_write early)" "\<lambda>_. True" h2_fits h2_split
proof unfold_locales
  fix s :: "bytes \<times> wire" and c :: h2_conn and p :: bytes
  assume h: "resp_up s" "h2_fits p"
  show "\<exists>f c' s'. h2_server_write (Some resp_flush) (resp_write early) (c, s) p = (length p, None, (c', s')) \<and>
      frame_of h2_split p f \<and> resp_sent s' = resp_sent s @ f \<and> resp_up s' \<and> True"
  proof (cases "p = []")
    case True
    with h(1) frame_of_h2 [OF h(2)] show ?thesis
      by (intro exI [of _ "h2_frame p"]) (simp add: h2_server_write_def h2_frame_def)
  next
    case False
    with h(1) frame_of_h2 [OF h(2)] show ?thesis unfolding h2_server_write_frame [OF h(1) False]
      by (intro exI [of _ "h2_frame p"]) (simp add: h2_frame_def resp_sent_def resp_up_def wire_up_def)
  qed
qed

lemma server_holds_nothing:
  "resp_up s \<Longrightarrow> fst s = [] \<Longrightarrow> send_all (h2_server_write (Some resp_flush) (resp_write early)) (c, s) ms = (rs, (c', s')) \<Longrightarrow>
     fst s' = []"
proof (induction ms arbitrary: c s rs)
  case (Cons m ms)
  obtain n e c1 s1 where w: "h2_server_write (Some resp_flush) (resp_write early) (c, s) m = (n, e, (c1, s1))"
    by (metis prod_cases4)
  have "resp_up s1 \<and> fst s1 = []"
  proof (cases "m = []")
    case True
    with w Cons.prems(1,2) show ?thesis by (auto simp: h2_server_write_def)
  next
    case False
    with w Cons.prems(1) show ?thesis by (auto simp: h2_server_write_frame resp_up_def wire_up_def)
  qed
  with Cons w show ?case by (auto split: prod.splits)
qed auto

lemma h2_server_reads: "h2_server_read rd = h2_read rd"
  by (intro ext) (simp add: h2_server_read_def h2_read_def)

text \<open>
  C30: what is written to a gRPC connection comes back at the other end, in both directions, and
  nothing stays behind. For messages of at most one mebibyte every \<open>Write\<close> reports the whole message.
  The client's go to the request body, from which the server's \<open>Read\<close> takes them. The server's go to
  the response writer, which may hold back what it likes until it is flushed: when the writes have
  returned, all of them are on the wire, from which the client's \<open>Read\<close> takes them. In both directions
  and in any segmentation, reading any number of bytes up to the total length returns exactly the
  first bytes of the concatenated messages. The streams are those of a request whose handler is still
  running; that the listener's handler returns at once is another matter.
\<close>

theorem grpc_roundtrip:
  assumes "\<forall>m\<in>set ms. length m \<le> 2 ^ 20" "k \<le> length (concat ms)"
    and "\<not> closed w" "tx_room w = None" "tx w = []"
    and up: "send_all (h2_write wire_write) (c, w) ms = (rs, (c', w'))"
      "concat (rx r) = tx w'" "\<not> closed r" "h2_buf cr = []"
    and down: "send_all (h2_server_write (Some resp_flush) (resp_write early)) (d, ([], w)) ms = (qs, (d', (held, v')))"
      "concat (rx q) = tx v'" "\<not> closed q" "h2_buf cq = []"
  shows "rs = map (\<lambda>m. (length m, None)) ms \<and>
    (\<exists>st. read_full (h2_server_read wire_read) (cr, r) k = Some (take k (concat ms), None, st)) \<and>
    qs = map (\<lambda>m. (length m, None)) ms \<and> held = [] \<and>
    (\<exists>st. read_full (h2_read wire_read) (cq, q) k = Some (take k (concat ms), None, st))"
proof -
  have w: "wire_up w" "resp_up ([], w)" and fit: "list_all h2_fits ms"
    using assms(1,3,4) by (simp_all add: wire_up_def resp_up_def h2_fits_def h2_max_frame_def list_all_iff)
  have sess: "\<exists>st. read_full (h2_read wire_read) (cx, x) k = Some (take k (concat ms), None, st)"
    if "list_all2 (frame_of h2_split) ms fs" "concat (rx x) = concat fs" "\<not> closed x" "h2_buf cx = []" for fs cx x
    using h2_wire.read_messages [where c = cx and s = x and fs = fs and ps = ms and k = k] that assms(2)
    by (auto simp: wire_content_def wire_ok_def)
  from h2_wire_writer.send_all_frames [OF w(1) _ fit up(1)] assms(5) obtain fs where
    u: "rs = map (\<lambda>m. (length m, None)) ms" "list_all2 (frame_of h2_split) ms fs" "tx w' = concat fs" by auto
  have held: "held = []" using server_holds_nothing [OF w(2) _ down(1)] by simp
  from h2_server_writer.send_all_frames [OF w(2) _ fit down(1)] assms(5) held obtain gs where
    v: "qs = map (\<lambda>m. (length m, None)) ms" "list_all2 (frame_of h2_split) ms gs" "tx v' = concat gs"
    by (auto simp: resp_sent_def)
  from sess [OF u(2) _ up(3,4)] sess [OF v(2) _ down(3,4)] u(1,3) v(1,3) up(2) down(2) held show ?thesis
    by (simp add: h2_server_reads)
qed

lemma grpc_roundtrip_witness:
  "\<exists>rs c' w' st qs d' v' st'. send_all (h2_write wire_write) (\<lparr>h2_buf = []\<rparr>, wire_of [] (Some EOF)) [''hello'', [], ''world''] =
       (rs, (c', w')) \<and>
     read_full (h2_server_read wire_read) (\<lparr>h2_buf = []\<rparr>, wire_of [take 3 (tx w'), drop 3 (tx w')] (Some EOF)) 7 =
       Some (''hellowo'', None, st) \<and>
     send_all (h2_server_write (Some resp_flush) (resp_write (\<lambda>b. length b - 6))) (\<lparr>h2_buf = []\<rparr>, ([], wire_of [] (Some EOF)))
       [''hello'', [], ''world''] = (qs, (d', ([], v'))) \<and>
     read_full (h2_read wire_read) (\<lparr>h2_buf = []\<rparr>, wire_of [take 3 (tx v'), drop 3 (tx v')] (Some EOF)) 7 =
       Some (''hellowo'', None, st')"
proof -
  let ?ms = "[''hello'', [], ''world'']" and ?seg = "\<lambda>b. wire_of [take 3 b, drop 3 b] (Some EOF)"
  obtain rs c' w' where s: "send_all (h2_write wire_write) (\<lparr>h2_buf = []\<rparr>, wire_of [] (Some EOF)) ?ms = (rs, (c', w'))"
    by (metis prod_cases3)
  obtain qs d' held v' where t: "send_all (h2_server_write (Some resp_flush) (resp_write (\<lambda>b. length b - 6)))
      (\<lparr>h2_buf = []\<rparr>, ([], wire_of [] (Some EOF))) ?ms = (qs, (d', (held, v')))"
    by (metis prod_cases4)
  have "rs = map (\<lambda>m. (length m, None)) ?ms \<and>
    (\<exists>st. read_full (h2_server_read wire_read) (\<lparr>h2_buf = []\<rparr>, ?seg (tx w')) 7 = Some (take 7 (concat ?ms), None, st)) \<and>
    qs = map (\<lambda>m. (length m, None)) ?ms \<and> held = [] \<and>
    (\<exists>st. read_full (h2_read wire_read) (\<lparr>h2_buf = []\<rparr>, ?seg (tx v')) 7 = Some (take 7 (concat ?ms), None, st))"
    by (rule grpc_roundtrip [OF _ _ _ _ _ s _ _ _ t]) (simp_all add: wire_of_def)
  with s t show ?thesis by auto
qed

text \<open>
  The limit of one mebibyte is only checked by the reader. A longer \<open>Write\<close> reports full
  success, and the other end, in whatever segments the bytes arrive, gets an error instead of data.
\<close>

theorem grpc_oversized_write:
  assumes "2 ^ 20 < length p" "length p < 2 ^ 32"
    and "\<not> closed w" "tx_room w = None" "tx w = []"
    and "h2_write wire_write (c, w) p = (n, e, (c', w'))"
    and "concat (rx r) = tx w'" "\<not> closed r" "h2_buf cr = []"
  shows "n = length p \<and> e = None \<and>
    (\<exists>st. h2_read wire_read (cr, r) k = Some ([], Some (Err ''grpc: frame too large''), st))"
proof -
  have p: "p \<noteq> []" using assms(1) by auto
  have w: "n = length p" "e = None" "tx w' = put_u32 (length p) @ p"
    using assms(3-6) p by (auto simp: h2_write_def wire_write_def)
  have ok: "wire_ok r" using assms(8) by (simp add: wire_ok_def)
  have "wire_content r = put_u32 (length p) @ p" using assms(7) w(3) by (simp add: wire_content_def)
  from wirestream.read_full_append [OF ok this] obtain s1 where
    "read_full wire_read r 4 = Some (put_u32 (length p), None, s1)" by auto
  moreover have "be_get (put_u32 (length p)) = length p" using assms(2) by (intro be_get_put_u32) simp
  ultimately have "h2_fill wire_read r = Some ([], Some (Err ''grpc: frame too large''), s1)"
    using assms(1) p by (subst h2_fill.simps) (simp add: h2_max_frame_def)
  with w(1,2) assms(9) show ?thesis by (simp add: h2_read_def)
qed

lemma grpc_oversized_write_witness:
  "\<exists>w' st. h2_write wire_write (\<lparr>h2_buf = []\<rparr>, wire_of [] None) (replicate (2 ^ 20 + 1) (CHR ''x'')) =
      (2 ^ 20 + 1, None, (\<lparr>h2_buf = []\<rparr>, w')) \<and>
    h2_read wire_read (\<lparr>h2_buf = []\<rparr>, wire_of [tx w'] None) 10 = Some ([], Some (Err ''grpc: frame too large''), st)"
proof -
  let ?p = "replicate (2 ^ 20 + 1) (CHR ''x'')"
  obtain n e c' w' where s: "h2_write wire_write (\<lparr>h2_buf = []\<rparr>, wire_of [] None) ?p = (n, e, (c', w'))"
    by (metis prod_cases4)
  have c: "c' = \<lparr>h2_buf = []\<rparr>" using s by (auto simp: h2_write_def split: prod.splits option.splits if_splits)
  have "n = length ?p \<and> e = None \<and> (\<exists>st. h2_read wire_read (\<lparr>h2_buf = []\<rparr>, wire_of [tx w'] None) 10 =
      Some ([], Some (Err ''grpc: frame too large''), st))"
    by (rule grpc_oversized_write [OF _ _ _ _ _ s]) (simp_all add: wire_of_def)
  with s c show ?thesis by auto
qed

text \<open>
  The two directions of a gRPC connection are not independent. While a \<open>Read\<close> waits for the
  peer, a \<open>Write\<close> of any message waits for ever, although the connection would take it at once: a
  peer that only speaks when spoken to is never spoken to.
\<close>

theorem grpc_write_waits_for_read:
  assumes "\<not> closed w" "tx_room w = None" "rx w = []" "rx_end w = None" "h2_buf c = []"
  shows "write_during_read wire_read wire_write (c, w) n b = None \<and>
    (\<exists>cs. h2_write wire_write (c, w) b = (length b, None, cs))"
proof -
  have "read_full wire_read w 4 = None"
    unfolding read_full_def read_at_least_def
    using assms by (subst read_loop.simps) (simp add: wire_read_def)
  then have "h2_fill wire_read w = None" by (subst h2_fill.simps) simp
  with assms show ?thesis
    by (auto simp: write_during_read_def h2_read_def h2_write_def wire_write_def)
qed

lemma grpc_write_waits_for_read_witness:
  "write_during_read wire_read wire_write (\<lparr>h2_buf = []\<rparr>, wire_of [] None) 100 ''ping'' = None"
  using grpc_write_waits_for_read [of "wire_of [] None" "\<lparr>h2_buf = []\<rparr>" 100 "''ping''"]
  by (simp add: wire_of_def)

text \<open>
  The address a transport dials is the host and port its multiaddr names, whatever parts follow
  (IPv6 hosts in brackets). TCP takes IP addresses and distinguishes their versions; WebSocket and
  gRPC take names as well, and mKCP reads the port behind \<open>udp\<close>.
\<close>

theorem transport_dials_named_address:
  assumes "list_all slash_free ([hk, host, pk, port] @ rest)" "host \<noteq> ''''" "port \<noteq> ''''"
    and "hk \<in> dns_hosts" "pk \<in> {''tcp'', ''udp''}"
    and "\<forall>p\<in>set rest. p \<notin> dns_hosts \<and> p \<noteq> pk" "ma_string a = addr_text hk host pk port rest"
  shows "if pk = ''tcp''
    then dial_address WS (Some a) = Inr (''tcp'', join_host_port host port) \<and>
      dial_address WSS (Some a) = Inr (''tcp'', join_host_port host port) \<and>
      dial_address GRPC (Some a) = Inr (''tcp'', join_host_port host port) \<and>
      (hk \<in> {''ip4'', ''ip6''} \<longrightarrow> dial_address TCP (Some a) =
         Inr (if hk = ''ip6'' then ''tcp6'' else ''tcp4'', join_host_port host port))
    else dial_address KCP (Some a) = Inr (''udp'', join_host_port host port)"
proof -
  have pk: "pk \<notin> dns_hosts" using assms(5) by (auto simp: dns_hosts_def)
  note m = parse_ma_text [OF assms(1,4) pk assms(6)]
  have t: "parse_ma {''ip4'', ''ip6''} pk (addr_text hk host pk port rest) = (hk, host, port)"
    if "hk \<in> {''ip4'', ''ip6''}"
    using parse_ma_text [OF assms(1) that, of] pk assms(6) by (auto simp: dns_hosts_def)
  show ?thesis
    using m t assms(2,3,5,7)
    by (auto simp: dial_address_def parseWSMultiaddr_def parseGRPCMultiaddr_def parseKCPMultiaddr_def
        parseTCPMultiaddr_def parse_host_port_def)
qed

lemma transport_dials_named_address_witness:
  "dial_address WS (Some \<lparr>ma_string = ''/ip6/::1/tcp/80/ws'', ma_protocols = [''ip6'', ''tcp'', ''ws'']\<rparr>) =
     Inr (''tcp'', ''[::1]:80'')"
proof -
  let ?a = "\<lparr>ma_string = ''/ip6/::1/tcp/80/ws'', ma_protocols = [''ip6'', ''tcp'', ''ws'']\<rparr>"
  have j: "join_host_port ''::1'' ''80'' = ''[::1]:80''" by code_simp
  have "list_all slash_free ([''ip6'', ''::1'', ''tcp'', ''80''] @ [''ws''])" by code_simp
  from transport_dials_named_address [OF this, of ?a] j show ?thesis
    by (simp add: dns_hosts_def addr_text_def)
qed

text \<open>
  The default registry never picks the WebSocket, gRPC or mKCP transport for an address that
  runs over TCP or UDP. The first transport protocol of the multiaddr decides, so an address such as
  \<open>/ip4/h/tcp/p/ws\<close> is dialled over bare TCP, and one over UDP has no transport at all.
\<close>

theorem registry_ignores_upper_layers:
  assumes "ma_protocols a = pre @ x # post" "x \<in> {''tcp'', ''udp''}"
    and "set pre \<inter> {''tcp'', ''udp'', ''ws'', ''wss'', ''grpc'', ''kcp'', ''unix''} = {}"
  shows "ByMultiaddr (Some a) DefaultRegistry = (if x = ''tcp'' then Some TCP else None)"
proof -
  have "filter (\<lambda>n. n \<in> {''tcp'', ''udp'', ''ws'', ''wss'', ''grpc'', ''kcp'', ''unix''}) pre = []"
    using assms(3) by (auto simp: filter_empty_conv)
  with assms(1,2) have n: "multiaddrTransportName (Some a) = x"
    by (auto simp: multiaddrTransportName_def)
  have "reg_get ''tcp'' DefaultRegistry = Some TCP" "reg_get ''udp'' DefaultRegistry = None" by code_simp+
  with n assms(2) show ?thesis by (auto simp: ByMultiaddr_def Let_def)
qed

lemma registry_ignores_upper_layers_witness:
  "ByMultiaddr (Some \<lparr>ma_string = ''/ip4/1.2.3.4/tcp/80/ws'', ma_protocols = [''ip4'', ''tcp'', ''ws'']\<rparr>)
     DefaultRegistry = Some TCP"
  using registry_ignores_upper_layers [of "\<lparr>ma_string = ''/ip4/1.2.3.4/tcp/80/ws'', ma_protocols = [''ip4'', ''tcp'', ''ws'']\<rparr>"
      "[''ip4'']" "''tcp''" "[''ws'']"] by simp

end
