(* ===== verification/Ping.thy ===== *)
theory Ping
  imports ProtoIface IOFrame
begin

text \<open>
  \<open>hypernet/core/network/ping/ping.go\<close>: the echo handler and the client that measures round trips.
  Parsing the target address, connecting and opening streams are the host's part.
\<close>

definition defaultPayload :: bytes where
  "defaultPayload = ''ping'' @ nl"

text \<open>The stream when the handler has returned; the error of the echo is ignored.\<close>

definition handlePing :: "wire \<Rightarrow> wire option" where
  "handlePing w =
     (case read_line wire_read (new_bufrd w) of
        None \<Rightarrow> None
      | Some (_, Some e, b) \<Rightarrow> Some (wire_close (b_src b))
      | Some (payload, None, b) \<Rightarrow> Some (wire_close (snd (write_string wire_rwc (b_src b) payload))))"

text \<open>The loop: the error that ends it, and the replies printed so far with their streams.\<close>

fun ping_loop ::
  "(nat \<Rightarrow> err + wire) \<Rightarrow> nat \<Rightarrow> nat \<Rightarrow> (err option \<times> (bytes \<times> wire) list) option"
where
  "ping_loop open_stream i 0 = Some (None, [])"
| "ping_loop open_stream i (Suc n) =
     (case open_stream i of
        Inl e \<Rightarrow> Some (Some (wrap_err ''open stream'' e), [])
      | Inr s \<Rightarrow>
          (case write_string wire_rwc s defaultPayload of
             (Some e, s1) \<Rightarrow> Some (Some (wrap_err ''write ping'' e), [])
           | (None, s1) \<Rightarrow>
               (case read_line wire_read (new_bufrd s1) of
                  None \<Rightarrow> None
                | Some (_, Some e, b) \<Rightarrow> Some (Some (wrap_err ''read pong'' e), [])
                | Some (reply, None, b) \<Rightarrow>
                    map_option (\<lambda>(e, rs). (e, (reply, wire_close (b_src b)) # rs)) (ping_loop open_stream (Suc i) n))))"

text \<open>\<open>parse_err\<close>, \<open>info_err\<close> and \<open>connect_err\<close> are the errors of the address, the peer info and the connection.\<close>

definition PingTarget ::
  "err option \<Rightarrow> err option \<Rightarrow> err option \<Rightarrow> (nat \<Rightarrow> err + wire) \<Rightarrow> int \<Rightarrow>
     (err option \<times> (bytes \<times> wire) list) option"
where
  "PingTarget parse_err info_err connect_err open_stream count =
     (let n = (if count \<le> 0 then 1 else nat count)
      in case parse_err of
           Some e \<Rightarrow> Some (Some (wrap_err ''invalid target multiaddr'' e), [])
         | None \<Rightarrow>
             (case info_err of
                Some e \<Rightarrow> Some (Some (wrap_err ''parse peer info'' e), [])
              | None \<Rightarrow>
                  (case connect_err of
                     Some e \<Rightarrow> Some (Some (wrap_err ''connect to peer'' e), [])
                   | None \<Rightarrow> ping_loop open_stream 0 n)))"

text \<open>The stream a client gets to a handler that answers it, however the bytes are cut.\<close>

definition answers :: "wire \<Rightarrow> bytes list \<Rightarrow> wire \<Rightarrow> bool" where
  "answers served segs w \<longleftrightarrow>
     handlePing served = Some w \<and> concat segs = tx w \<and> [] \<notin> set segs"

lemma handlePing_echo:
  assumes "wire_live s" "tx s = []" "tx_room s = None" "wire_content s = l @ newline # rest" "newline \<notin> set l"
  shows "\<exists>w. handlePing s = Some w \<and> tx w = l @ nl \<and> closed w"
proof -
  from net.read_line_content [OF assms(1,4,5)] obtain b where
    b: "read_line wire_read (new_bufrd s) = Some (l @ [newline], None, b)" by blast
  from read_string_frame [OF b [unfolded read_line_def]] assms(1-3)
  have "tx (b_src b) = []" "tx_room (b_src b) = None" "\<not> closed (b_src b)"
    by (simp_all add: new_bufrd_def wire_live_def)
  with b show ?thesis
    by (simp add: handlePing_def write_string_wire wire_write_def wire_close_def nl_def)
qed

lemma ping_once:
  assumes "concat segs = defaultPayload" "[] \<notin> set segs"
  shows "\<exists>b. read_line wire_read (new_bufrd (snd (write_string wire_rwc (wire_of segs e) defaultPayload))) =
    Some (defaultPayload, None, b)"
proof -
  let ?w = "(wire_of segs e)\<lparr>tx := defaultPayload\<rparr>"
  have "wire_live ?w" "wire_content ?w = ''ping'' @ newline # []" "newline \<notin> set ''ping''"
    using assms by (simp_all add: wire_live_def wire_content_def wire_of_def defaultPayload_def nl_def)
  from net.read_line_content [OF this] show ?thesis
    by (auto simp: write_string_wire wire_write_def wire_of_def defaultPayload_def nl_def)
qed

lemma ping_loop_echo:
  assumes "\<And>i. \<exists>segs e. open_stream i = Inr (wire_of segs e) \<and> concat segs = defaultPayload \<and> [] \<notin> set segs"
  shows "\<exists>rs. ping_loop open_stream i n = Some (None, rs) \<and> map fst rs = replicate n defaultPayload \<and>
    list_all (\<lambda>(_, s). closed s) rs"
proof (induction n arbitrary: i)
  case 0
  then show ?case by simp
next
  case (Suc n)
  from assms [of i] obtain segs e where s: "open_stream i = Inr (wire_of segs e)" "concat segs = defaultPayload" "[] \<notin> set segs"
    by blast
  from ping_once [OF s(2,3), of e] obtain b where
    b: "read_line wire_read (new_bufrd (snd (write_string wire_rwc (wire_of segs e) defaultPayload))) =
      Some (defaultPayload, None, b)" by blast
  have "fst (write_string wire_rwc (wire_of segs e) defaultPayload) = None"
    by (simp add: write_string_wire wire_write_def wire_of_def)
  with s(1) b Suc.IH [of "Suc i"] show ?case
    by (cases "write_string wire_rwc (wire_of segs e) defaultPayload") (auto simp: wire_close_def)
qed

text \<open>
  Pinging a node that serves the protocol succeeds. When every stream the client opens leads to
  the echo handler, the handler receives the client's bytes and the client the handler's, each in any
  segments, then \<open>PingTarget\<close> returns without error after exactly the number of pings asked for (one
  if none or a negative number was), each answered with the payload, and closes every stream.
\<close>

theorem ping_answered:
  assumes "\<And>i. \<exists>served w segs. answers served segs w \<and> open_stream i = Inr (wire_of segs (Some EOF)) \<and>
      wire_live served \<and> tx served = [] \<and> tx_room served = None \<and> wire_content served = defaultPayload"
  shows "\<exists>rs. PingTarget None None None open_stream count = Some (None, rs) \<and>
    map fst rs = replicate (if count \<le> 0 then 1 else nat count) defaultPayload \<and>
    list_all (\<lambda>(_, s). closed s) rs"
proof -
  have "\<exists>segs e. open_stream i = Inr (wire_of segs e) \<and> concat segs = defaultPayload \<and> [] \<notin> set segs" for i
  proof -
    from assms [of i] obtain served w segs where h: "answers served segs w" "open_stream i = Inr (wire_of segs (Some EOF))"
      "wire_live served" "tx served = []" "tx_room served = None" "wire_content served = ''ping'' @ newline # []"
      by (auto simp: defaultPayload_def nl_def)
    from handlePing_echo [OF h(3-6)] h(1,2) show ?thesis
      by (auto simp: answers_def defaultPayload_def)
  qed
  from ping_loop_echo [of open_stream 0, OF this] show ?thesis by (simp add: PingTarget_def Let_def)
qed

lemma ping_answered_witness:
  "\<exists>rs. PingTarget None None None (\<lambda>_. Inr (wire_of [''pi'', ''ng'' @ nl] (Some EOF))) 3 = Some (None, rs) \<and>
     map fst rs = [defaultPayload, defaultPayload, defaultPayload]"
proof -
  let ?s = "wire_of [''ping'', nl] None"
  have s: "wire_live ?s" "tx ?s = []" "tx_room ?s = None" "wire_content ?s = ''ping'' @ newline # []" "newline \<notin> set ''ping''"
    by (simp_all add: wire_live_def wire_of_def wire_content_def nl_def)
  from handlePing_echo [OF s] obtain w where w: "handlePing ?s = Some w" "tx w = ''ping'' @ nl" by blast
  then have a: "answers ?s [''pi'', ''ng'' @ nl] w" by (simp add: answers_def)
  have "\<exists>rs. PingTarget None None None (\<lambda>_. Inr (wire_of [''pi'', ''ng'' @ nl] (Some EOF))) 3 = Some (None, rs) \<and>
    map fst rs = replicate (if (3 :: int) \<le> 0 then 1 else nat 3) defaultPayload \<and>
    list_all (\<lambda>(_, s). closed s) rs"
    by (rule ping_answered) (use a s in \<open>auto simp: defaultPayload_def nl_def\<close>)
  then show ?thesis by (auto simp: eval_nat_numeral)
qed

end
