(* ===== verification/HostNode.thy ===== *)
theory HostNode
  imports NodeConfig SmartClient Daemon
begin

text \<open>
  \<open>hypernet/core/network/node\<close>: building a node from its configuration, connecting it to its
  bootstrap peers, and publishing and finding protocols through the DHT; with
  \<open>hypernet/core/routing\<close>, the view of a node the smart client searches, and
  \<open>hypernet/core/identity\<close>, its key. The libp2p host, the DHT, the key format, multihashes and the
  file system are parameters.
\<close>

section \<open>The private key\<close>

datatype 'd key_file = Content 'd | NotExist | ReadError err

text \<open>The key, and what was written to the file.\<close>

definition LoadOrCreatePrivateKey ::
  "('d \<Rightarrow> err + 'k) \<Rightarrow> (err + 'k) \<Rightarrow> ('k \<Rightarrow> err + 'd) \<Rightarrow> (string \<Rightarrow> 'd key_file) \<Rightarrow> (string \<Rightarrow> 'd \<Rightarrow> err option) \<Rightarrow>
     string \<Rightarrow> (err + 'k) \<times> (string \<times> 'd) option"
where
  "LoadOrCreatePrivateKey unmarshal generated marshal read_file write_file path =
     (if path = '''' then (Inl (Err ''empty key path''), None)
      else case read_file path of
        Content d \<Rightarrow> (unmarshal d, None)
      | ReadError e \<Rightarrow> (Inl e, None)
      | NotExist \<Rightarrow>
          (case generated of
             Inl e \<Rightarrow> (Inl e, None)
           | Inr priv \<Rightarrow>
               (case marshal priv of
                  Inl e \<Rightarrow> (Inl e, None)
                | Inr encoded \<Rightarrow>
                    (case write_file path encoded of
                       Some e \<Rightarrow> (Inl e, None)
                     | None \<Rightarrow> (Inr priv, Some (path, encoded))))))"

text \<open>The zero value of the configuration, \<open>config.Config{}\<close>.\<close>

definition zero_config :: node_config where
  "zero_config =
     \<lparr>Port = 0, KeyPath = '''', BootstrapPeers = [], EnableRelay = False, EnableDHT = False, DHTMode = '''',
      Region = '''', DisableQUIC = False, GeoIPDBPath = '''', MetricsDBPath = '''', MetricsFlushInterval = 0,
      MetricsQualityInterval = 0, Target = '''', PingCount = 0, RelayMaxConnections = 0,
      RelayDataLimitBytes = 0, DNSNames = [], DNSTTL = 0, DNSRefreshInterval = 0, Socks5Listen = '''',
      HTTPProxyListen = '''', Outbound = '''', DokodemoListen = '''', DokodemoTarget = '''',
      RealityListen = '''', RealityDest = '''', RealityPrivateKey = '''', RealityServerNames = [],
      RealityShortIds = [], ProxyProtocols = []\<rparr>"

section \<open>The options of the host\<close>

definition listen_addrs :: "node_config \<Rightarrow> string list" where
  "listen_addrs cfg =
     [''/ip4/0.0.0.0/tcp/'' @ itoa (Port cfg)] @
     (if \<not> DisableQUIC cfg then [''/ip4/0.0.0.0/udp/'' @ itoa (Port cfg) @ ''/quic-v1''] else [])"

text \<open>The resources of the relay service: the circuits, and the data limit if there is one.\<close>

record relay_resources =
  MaxCircuits :: int
  LimitData :: "int option"

definition relay_options :: "relay_resources \<Rightarrow> int \<Rightarrow> node_config \<Rightarrow> relay_resources option" where
  "relay_options default_res default_data cfg =
     (if \<not> EnableRelay cfg then None
      else
        let res = default_res;
            res = (if RelayMaxConnections cfg > 0 then res\<lparr>MaxCircuits := RelayMaxConnections cfg\<rparr> else res);
            res = (if RelayDataLimitBytes cfg > 0
                   then let res = (if LimitData res = None then res\<lparr>LimitData := Some default_data\<rparr> else res)
                     in res\<lparr>LimitData := Some (RelayDataLimitBytes cfg)\<rparr>
                   else res)
        in Some res)"

text \<open>\<open>p2p_info\<close> parses a bootstrap address; the ones that do not parse are skipped.\<close>

definition bootstrap_infos :: "(string \<Rightarrow> err + AddrInfo) \<Rightarrow> node_config \<Rightarrow> AddrInfo list" where
  "bootstrap_infos p2p_info cfg =
     concat (map (\<lambda>s. case p2p_info s of Inl _ \<Rightarrow> [] | Inr i \<Rightarrow> [i]) (BootstrapPeers cfg))"

datatype dht_mode = ModeServer | ModeClient | ModeAuto

definition dht_mode_of :: "node_config \<Rightarrow> dht_mode" where
  "dht_mode_of cfg =
     (let m = to_lower (DHTMode cfg)
      in if m = ''server'' then ModeServer else if m = ''client'' then ModeClient else ModeAuto)"

section \<open>Connecting to the bootstrap peers\<close>

text \<open>
  The attempts on one peer, from the given number: how many are made, and the seconds slept between
  them. \<open>connect\<close> gives the result of each attempt.
\<close>

fun bootstrap_attempts :: "(nat \<Rightarrow> err option) \<Rightarrow> nat \<Rightarrow> nat \<Rightarrow> nat \<times> duration" where
  "bootstrap_attempts connect 0 attempt = (attempt, 0)"
| "bootstrap_attempts connect (Suc left) attempt =
     (if connect attempt = None then (Suc attempt, 0)
      else case bootstrap_attempts connect left (Suc attempt) of
        (n, d) \<Rightarrow> (n, d + (if attempt < 4 then 2 * Second else 0)))"

text \<open>
  All peers, from the given position of the list: the attempts on each, and the time slept, with the
  pause between two peers.
\<close>

fun bootstrap_connect :: "(nat \<Rightarrow> AddrInfo \<Rightarrow> nat \<Rightarrow> err option) \<Rightarrow> nat \<Rightarrow> AddrInfo list \<Rightarrow> nat list \<times> duration" where
  "bootstrap_connect connect i [] = ([], 0)"
| "bootstrap_connect connect i (info # infos) =
     (case bootstrap_attempts (connect i info) 5 0 of
        (n, d) \<Rightarrow>
          (case bootstrap_connect connect (Suc i) infos of
             (ns, d') \<Rightarrow> (n # ns, d + (if infos \<noteq> [] then 500 * Millisecond else 0) + d')))"

section \<open>New\<close>

text \<open>The libraries: key, host, DHT and the default resources of the relay service.\<close>

record node_lib =
  l_key :: "string \<Rightarrow> err option"
  l_host :: "string list \<Rightarrow> relay_resources option \<Rightarrow> AddrInfo list \<Rightarrow> err option"
  l_dht :: "dht_mode \<Rightarrow> AddrInfo list \<Rightarrow> err option"
  l_p2p_info :: "string \<Rightarrow> err + AddrInfo"
  l_connect :: "nat \<Rightarrow> AddrInfo \<Rightarrow> nat \<Rightarrow> err option"
  l_resources :: relay_resources
  l_limit :: int

record Node =
  nd_listen :: "string list"
  nd_relay :: "relay_resources option"
  nd_static_relays :: "AddrInfo list"
  nd_region :: string
  nd_dht :: "(dht_mode \<times> AddrInfo list) option"
  nd_attempts :: "nat list"
  nd_slept :: duration
  nd_sync_bootstrap :: bool

text \<open>The node or the error, and whether a host that was created has been closed again.\<close>

definition New :: "node_lib \<Rightarrow> node_config \<Rightarrow> (err + Node) \<times> bool option" where
  "New l cfg =
     (case l_key l (KeyPath cfg) of
        Some e \<Rightarrow> (Inl (wrap_err ''load private key'' e), None)
      | None \<Rightarrow>
          let listen = listen_addrs cfg; relay = relay_options (l_resources l) (l_limit l) cfg;
              infos = bootstrap_infos (l_p2p_info l) cfg
          in case l_host l listen relay infos of
               Some e \<Rightarrow> (Inl (wrap_err ''create libp2p host'' e), None)
             | None \<Rightarrow>
                 let dht = (if EnableDHT cfg then Some (dht_mode_of cfg, infos) else None)
                 in case (case dht of None \<Rightarrow> None | Some (m, ps) \<Rightarrow> l_dht l m ps) of
                      Some e \<Rightarrow> (Inl (wrap_err ''create DHT'' e), Some True)
                    | None \<Rightarrow>
                        let (ns, d) = (if BootstrapPeers cfg \<noteq> [] then bootstrap_connect (l_connect l) 0 infos else ([], 0))
                        in (Inr \<lparr>nd_listen = listen, nd_relay = relay, nd_static_relays = infos,
                                 nd_region = trim_space (Region cfg), nd_dht = dht, nd_attempts = ns,
                                 nd_slept = d + (if BootstrapPeers cfg \<noteq> [] then Second else 0),
                                 nd_sync_bootstrap = (EnableDHT cfg \<and> BootstrapPeers cfg \<noteq> [])\<rparr>, Some False))"

text \<open>The view of the configuration for a relay (\<open>services/relay/config.go\<close>); nil gives one that is off.\<close>

record relay_config =
  rc_enable :: bool
  rc_connections :: int
  rc_limit :: int
  rc_peers :: "string list"

definition FromNodeConfig :: "node_config option \<Rightarrow> relay_config" where
  "FromNodeConfig co =
     (case co of
        None \<Rightarrow> \<lparr>rc_enable = False, rc_connections = 0, rc_limit = 0, rc_peers = []\<rparr>
      | Some cfg \<Rightarrow> \<lparr>rc_enable = EnableRelay cfg, rc_connections = RelayMaxConnections cfg,
                     rc_limit = RelayDataLimitBytes cfg, rc_peers = BootstrapPeers cfg\<rparr>)"

text \<open>What that view says of a node is what the node does.\<close>

lemma relay_view_faithful:
  "relay_options res limit cfg =
     (case FromNodeConfig (Some cfg) of rc \<Rightarrow>
        if \<not> rc_enable rc then None
        else Some (res\<lparr>MaxCircuits := (if rc_connections rc > 0 then rc_connections rc else MaxCircuits res),
                      LimitData := (if rc_limit rc > 0 then Some (rc_limit rc) else LimitData res)\<rparr>))"
  by (simp add: relay_options_def FromNodeConfig_def Let_def)

section \<open>Protocols in the DHT\<close>

text \<open>
  The DHT of a node: the CID of a key (a SHA-256 multihash), announcing a CID, which changes the
  state \<open>'d\<close> of the network, and the providers found for one.
\<close>

record ('c, 'd) dht =
  d_hash :: "string \<Rightarrow> err + 'c"
  d_provide :: "'d \<Rightarrow> 'c \<Rightarrow> err option \<times> 'd"
  d_find :: "'d \<Rightarrow> 'c \<Rightarrow> int \<Rightarrow> AddrInfo list"

definition err_no_dht :: err where
  "err_no_dht = Err ''DHT is not enabled on this node''"

definition stringKeyToCID :: "('c, 'd) dht \<Rightarrow> string \<Rightarrow> err + 'c" where
  "stringKeyToCID h key = (if key = '''' then Inl (Err ''empty key'') else d_hash h key)"

definition protocolKey :: "string \<Rightarrow> string" where
  "protocolKey protoName = ''hypernet:proto:'' @ protoName"

definition protocolRegionKey :: "string \<Rightarrow> string \<Rightarrow> string" where
  "protocolRegionKey protoName region = ''hypernet:proto:'' @ protoName @ '':region:'' @ region"

definition ProvidersForKey :: "('c, 'd) dht option \<Rightarrow> 'd \<Rightarrow> string \<Rightarrow> int \<Rightarrow> err + AddrInfo list" where
  "ProvidersForKey h st key mx =
     (case h of None \<Rightarrow> Inl err_no_dht
      | Some h \<Rightarrow>
          let mx = (if mx \<le> 0 then 1 else mx)
          in case stringKeyToCID h key of Inl e \<Rightarrow> Inl e | Inr c \<Rightarrow> Inr (d_find h st c mx))"

definition ProvideKey :: "('c, 'd) dht option \<Rightarrow> 'd \<Rightarrow> string \<Rightarrow> err option \<times> 'd" where
  "ProvideKey h st key =
     (case h of None \<Rightarrow> (Some err_no_dht, st)
      | Some h \<Rightarrow>
          (case stringKeyToCID h key of
             Inl e \<Rightarrow> (Some e, st)
           | Inr c \<Rightarrow>
               (case d_provide h st c of
                  (Some e, st1) \<Rightarrow>
                    if go_contains (err_msg e) ''failed to find any peer in table'' then (None, st1) else (Some e, st1)
                | (None, st1) \<Rightarrow> (None, st1))))"

fun announce_loop :: "('c, 'd) dht option \<Rightarrow> string \<Rightarrow> string list \<Rightarrow> 'd \<Rightarrow> err option \<times> 'd" where
  "announce_loop h region [] st = (None, st)"
| "announce_loop h region (name # names) st =
     (if name = '''' then announce_loop h region names st
      else case ProvideKey h st (protocolKey name) of
        (Some e, st1) \<Rightarrow> (Some (wrap_err (''announce protocol '' @ go_quote name) e), st1)
      | (None, st1) \<Rightarrow>
          if region = '''' then announce_loop h region names st1
          else case ProvideKey h st1 (protocolRegionKey name region) of
            (Some e, st2) \<Rightarrow>
              (Some (wrap_err (''announce protocol '' @ go_quote name @ '' region '' @ go_quote region) e), st2)
          | (None, st2) \<Rightarrow> announce_loop h region names st2)"

definition AnnounceProtocols :: "('c, 'd) dht option \<Rightarrow> string \<Rightarrow> string list \<Rightarrow> 'd \<Rightarrow> err option \<times> 'd" where
  "AnnounceProtocols h region protos st =
     (case h of None \<Rightarrow> (Some err_no_dht, st)
      | Some _ \<Rightarrow> if protos = [] then (None, st) else announce_loop h region protos st)"

definition FindProtocolProviders :: "('c, 'd) dht option \<Rightarrow> 'd \<Rightarrow> string \<Rightarrow> int \<Rightarrow> err + AddrInfo list" where
  "FindProtocolProviders h st protoName mx = ProvidersForKey h st (protocolKey protoName) mx"

definition FindRegionProtocolProviders ::
  "('c, 'd) dht option \<Rightarrow> 'd \<Rightarrow> string \<Rightarrow> string \<Rightarrow> int \<Rightarrow> err + AddrInfo list"
where
  "FindRegionProtocolProviders h st protoName region mx =
     (if trim_space region = '''' then FindProtocolProviders h st protoName mx
      else ProvidersForKey h st (protocolRegionKey protoName region) mx)"

text \<open>\<open>FindPeer\<close>: \<open>found\<close> is the DHT's answer, \<open>connected\<close> and \<open>known\<close> what the host knows of the peer.\<close>

definition FindPeer :: "bool \<Rightarrow> err + AddrInfo \<Rightarrow> bool \<Rightarrow> bool \<Rightarrow> AddrInfo \<Rightarrow> err + AddrInfo" where
  "FindPeer dht_on found host_on connected known =
     (if \<not> dht_on then Inl err_no_dht
      else case found of
        Inr info \<Rightarrow> Inr info
      | Inl e \<Rightarrow>
          if go_contains (err_msg e) ''failed to find any peer in table'' \<and> host_on \<and> connected \<and> ai_addrs known \<noteq> []
          then Inr known else Inl e)"

text \<open>The discovery of a smart client on top of a node: \<open>NodeProviderDiscovery\<close>.\<close>

definition NodeProviderDiscovery :: "('c, 'd) dht option \<Rightarrow> 'd \<Rightarrow> sc_env \<Rightarrow> sc_env" where
  "NodeProviderDiscovery h st ev =
     ev\<lparr>find_region := FindRegionProtocolProviders h st, find_protocol := FindProtocolProviders h st\<rparr>"

section \<open>Starting up\<close>

text \<open>
  The attempts a peer needs: up to the first that connects among the first four, and a fifth when
  there is none.
\<close>

definition attempts_needed :: "(nat \<Rightarrow> err option) \<Rightarrow> nat" where
  "attempts_needed connect = Suc (length (takeWhile (\<lambda>k. connect k \<noteq> None) [0..<4]))"

lemma attempts_needed_bounds: "1 \<le> attempts_needed connect" "attempts_needed connect \<le> 5"
  using length_takeWhile_le [of "\<lambda>k. connect k \<noteq> None" "[0..<4]"] by (simp_all add: attempts_needed_def)

lemma bootstrap_attempts_needed:
  "bootstrap_attempts connect 5 0 =
     (attempts_needed connect, int (attempts_needed connect - 1) * (2 * Second))"
proof -
  have five: "(5 :: nat) = Suc (Suc (Suc (Suc (Suc 0))))" and four: "[0..<4] = [0, 1, 2, 3 :: nat]" by (simp_all add: upt_rec)
  show ?thesis unfolding attempts_needed_def four five by (simp add: numeral_2_eq_2 numeral_3_eq_3)
qed

definition peer_attempts :: "(nat \<Rightarrow> AddrInfo \<Rightarrow> nat \<Rightarrow> err option) \<Rightarrow> AddrInfo list \<Rightarrow> nat list" where
  "peer_attempts connect infos = map (\<lambda>(i, info). attempts_needed (connect i info)) (enumerate 0 infos)"

lemma bootstrap_connect_needed:
  "bootstrap_connect connect i infos =
     (map (\<lambda>(i, info). attempts_needed (connect i info)) (enumerate i infos),
      (\<Sum>n\<leftarrow>map (\<lambda>(i, info). attempts_needed (connect i info)) (enumerate i infos). int (n - 1) * (2 * Second)) +
        int (length infos - 1) * (500 * Millisecond))"
proof (induction infos arbitrary: i)
  case Nil
  then show ?case by simp
next
  case (Cons info infos)
  then show ?case
    by (cases infos) (simp_all add: bootstrap_attempts_needed algebra_simps)
qed

lemma pauses_bounded:
  "\<forall>n\<in>set ns. n \<le> 5 \<Longrightarrow> (\<Sum>n\<leftarrow>ns. int (n - 1) * (2 * Second)) \<le> int (length ns) * (8 * Second)"
proof (induction ns)
  case (Cons n ns)
  then have "int (n - 1) * (2 * Second) \<le> 4 * (2 * Second)" by (intro mult_right_mono) (auto simp: Second_def)
  with Cons show ?case by (simp add: algebra_simps)
qed simp

text \<open>
  C39: a bootstrap list that cannot be reached delays a node and nothing else. When a node is built,
  every bootstrap peer that parses was tried, in order, until it connected or five times, with two
  seconds behind each failure but a fifth, half a second between two peers and one second at the end:
  at most eight and a half seconds for each peer and one more. The result does not depend on whether
  they connected: building fails exactly on the key, the host or the DHT, in this order and with the
  error of the first that fails, and the host of a node that is not returned is closed.
\<close>

theorem node_start_bounded:
  "case New l cfg of
     (Inr n, c) \<Rightarrow>
       (let infos = bootstrap_infos (l_p2p_info l) cfg; ns = peer_attempts (l_connect l) infos
        in c = Some False \<and> l_key l (KeyPath cfg) = None \<and>
          l_host l (listen_addrs cfg) (relay_options (l_resources l) (l_limit l) cfg) infos = None \<and>
          (if EnableDHT cfg then l_dht l (dht_mode_of cfg) infos = None \<and> nd_dht n = Some (dht_mode_of cfg, infos)
           else nd_dht n = None) \<and>
          nd_attempts n = ns \<and>
          nd_slept n = (\<Sum>k\<leftarrow>ns. int (k - 1) * (2 * Second)) + int (length infos - 1) * (500 * Millisecond) +
            (if BootstrapPeers cfg = [] then 0 else Second) \<and>
          nd_slept n \<le> int (length infos) * (8500 * Millisecond) + Second)
   | (Inl e, c) \<Rightarrow>
       (case l_key l (KeyPath cfg) of
          Some x \<Rightarrow> e = wrap_err ''load private key'' x \<and> c = None
        | None \<Rightarrow>
            (case l_host l (listen_addrs cfg) (relay_options (l_resources l) (l_limit l) cfg) (bootstrap_infos (l_p2p_info l) cfg) of
               Some x \<Rightarrow> e = wrap_err ''create libp2p host'' x \<and> c = None
             | None \<Rightarrow> EnableDHT cfg \<and> c = Some True \<and>
                 (\<exists>x. l_dht l (dht_mode_of cfg) (bootstrap_infos (l_p2p_info l) cfg) = Some x \<and> e = wrap_err ''create DHT'' x)))"
proof -
  let ?infos = "bootstrap_infos (l_p2p_info l) cfg"
  let ?ns = "peer_attempts (l_connect l) ?infos"
  let ?d = "(\<Sum>k\<leftarrow>?ns. int (k - 1) * (2 * Second)) + int (length ?infos - 1) * (500 * Millisecond)"
  have b: "(if BootstrapPeers cfg \<noteq> [] then bootstrap_connect (l_connect l) 0 ?infos else ([], 0)) = (?ns, ?d)"
    by (simp add: bootstrap_connect_needed peer_attempts_def) (simp add: bootstrap_infos_def)
  have "\<forall>n\<in>set ?ns. n \<le> 5" using attempts_needed_bounds(2) by (auto simp: peer_attempts_def)
  from pauses_bounded [OF this] have "?d + Second \<le> int (length ?infos) * (8500 * Millisecond) + Second"
    by (simp add: peer_attempts_def Second_def Millisecond_def)
  then have le: "?d + (if BootstrapPeers cfg = [] then 0 else Second) \<le> int (length ?infos) * (8500 * Millisecond) + Second"
    by (simp add: Second_def)
  show ?thesis
    unfolding New_def Let_def b using le by (cases "BootstrapPeers cfg = []"; simp split: option.splits)
qed

section \<open>What is announced\<close>

text \<open>
  The keys of an announcement: each protocol that has a name, on its own and, when the node has a
  region, for that region. \<open>recording\<close> is the DHT that also keeps the list of the CIDs it was asked to
  provide, and \<open>announced\<close> says what an announcement that ended with \<open>e\<close> has added to that list: the
  CIDs of the keys in their order, of all of them when there was no error.
\<close>

definition announce_keys :: "string \<Rightarrow> string list \<Rightarrow> string list" where
  "announce_keys region protos =
     concat (map (\<lambda>n. if n = '''' then []
                      else protocolKey n # (if region = '''' then [] else [protocolRegionKey n region])) protos)"

definition recording :: "('c, 'd) dht \<Rightarrow> ('c, 'd \<times> 'c list) dht" where
  "recording h =
     \<lparr>d_hash = d_hash h,
      d_provide = (\<lambda>(st, cs) c. case d_provide h st c of (e, st') \<Rightarrow> (e, (st', cs @ [c]))),
      d_find = (\<lambda>(st, _). d_find h st)\<rparr>"

definition announced :: "('c, 'd) dht \<Rightarrow> string list \<Rightarrow> err option \<Rightarrow> 'c list \<Rightarrow> bool" where
  "announced h keys e cs \<longleftrightarrow>
     list_all2 (\<lambda>k c. stringKeyToCID h k = Inr c) (take (length cs) keys) cs \<and> (e = None \<longrightarrow> length cs = length keys)"

lemma announced_none: "announced h keys (Some e) []"
  by (auto simp: announced_def)

lemma announced_Cons:
  "stringKeyToCID h k = Inr c \<Longrightarrow> announced h keys e cs \<Longrightarrow> announced h (k # keys) e (c # cs)"
  by (simp add: announced_def)

lemma announced_failed: "stringKeyToCID h k = Inr c \<Longrightarrow> announced h (k # keys) (Some e) [c]"
  by (simp add: announced_def)

lemma recording_CID [simp]: "stringKeyToCID (recording h) key = stringKeyToCID h key"
  by (simp add: stringKeyToCID_def recording_def)

lemma ProvideKey_recording:
  "ProvideKey (Some (recording h)) (st, cs) key =
     (case ProvideKey (Some h) st key of
        (e, st') \<Rightarrow> (e, (st', case stringKeyToCID h key of Inl _ \<Rightarrow> cs | Inr c \<Rightarrow> cs @ [c])))"
  by (auto simp: ProvideKey_def recording_def stringKeyToCID_def split: sum.split option.split prod.split)

lemma ProvideKey_CID: "ProvideKey (Some h) st key = (None, st') \<Longrightarrow> \<exists>c. stringKeyToCID h key = Inr c"
  by (auto simp: ProvideKey_def split: sum.splits)

lemma announce_loop_recorded:
  "announce_loop (Some (recording h)) region names (st, cs) = (e, (st', cs')) \<Longrightarrow>
     \<exists>new. cs' = cs @ new \<and> announced h (announce_keys region names) e new"
proof (induction names arbitrary: st cs)
  case Nil
  then show ?case by (auto simp: announce_keys_def announced_def)
next
  case (Cons n names)
  show ?case
  proof (cases "n = ''''")
    case True
    with Cons show ?thesis by (simp add: announce_keys_def)
  next
    case name: False
    let ?k = "protocolKey n" and ?r = "protocolRegionKey n region" and ?rest = "announce_keys region names"
    have keys: "announce_keys region (n # names) = ?k # (if region = '''' then ?rest else ?r # ?rest)"
      using name by (auto simp: announce_keys_def)
    obtain e1 st1 where p1: "ProvideKey (Some h) st ?k = (e1, st1)" by fastforce
    obtain e2 st2 where p2: "ProvideKey (Some h) st1 ?r = (e2, st2)" by fastforce
    note rec = ProvideKey_recording [of h st cs ?k, unfolded p1] ProvideKey_recording [of h st1 _ ?r, unfolded p2]
    show ?thesis
    proof (cases e1)
      case (Some x)
      with Cons.prems name rec(1) have "e = Some (wrap_err (''announce protocol '' @ go_quote n) x)"
        "cs' = (case stringKeyToCID h ?k of Inl _ \<Rightarrow> cs | Inr c \<Rightarrow> cs @ [c])" by auto
      then show ?thesis unfolding keys
        by (cases "stringKeyToCID h ?k") (auto simp: announced_none announced_failed)
    next
      case None
      with ProvideKey_CID [of h st ?k] p1 obtain c1 where c1: "stringKeyToCID h ?k = Inr c1" by auto
      show ?thesis
      proof (cases "region = ''''")
        case True
        with Cons.prems name None rec(1) c1 Cons.IH [of st1 "cs @ [c1]"] obtain new where
          "cs' = cs @ c1 # new" "announced h ?rest e new" by auto
        with True c1 show ?thesis unfolding keys by (auto intro: announced_Cons)
      next
        case region: False
        show ?thesis
        proof (cases e2)
          case (Some x)
          with Cons.prems name None region rec c1 have "\<exists>y. e = Some y"
            "cs' = (case stringKeyToCID h ?r of Inl _ \<Rightarrow> cs @ [c1] | Inr c \<Rightarrow> cs @ [c1] @ [c])" by (auto split: sum.splits)
          with region c1 show ?thesis unfolding keys
            by (cases "stringKeyToCID h ?r") (auto intro: announced_Cons simp: announced_none announced_failed)
        next
          case None': None
          with ProvideKey_CID [of h st1 ?r] p2 obtain c2 where c2: "stringKeyToCID h ?r = Inr c2" by auto
          with Cons.prems name None region None' rec c1 Cons.IH [of st2 "cs @ [c1, c2]"] obtain new where
            "cs' = cs @ c1 # c2 # new" "announced h ?rest e new" by auto
          with region c1 c2 show ?thesis unfolding keys by (auto intro: announced_Cons)
        qed
      qed
    qed
  qed
qed

lemma AnnounceProtocols_recorded:
  assumes "AnnounceProtocols (Some (recording h)) region protos (st, cs) = (e, (st', cs'))"
  shows "\<exists>new. cs' = cs @ new \<and> announced h (announce_keys region protos) e new"
proof (cases "protos = []")
  case True
  with assms show ?thesis by (auto simp: AnnounceProtocols_def announce_keys_def announced_def)
next
  case False
  with assms announce_loop_recorded show ?thesis by (simp add: AnnounceProtocols_def)
qed

lemma announced_all:
  assumes "announced h keys None cs" "k \<in> set keys"
  shows "\<exists>c. stringKeyToCID h k = Inr c \<and> c \<in> set cs"
  using assms by (auto simp: announced_def list_all2_conv_all_nth in_set_conv_nth)

section \<open>What a search asks for\<close>

text \<open>
  The keys a search for a protocol looks up, one after the other until there is an answer: the key of
  the protocol and the region, when the client prefers one, and the key of the protocol.
\<close>

definition search_keys :: "string \<Rightarrow> string \<Rightarrow> string list" where
  "search_keys proto region =
     (if trim_space region = [] then [] else [protocolRegionKey proto region]) @ [protocolKey proto]"

definition dht_answer :: "('c, 'd) dht \<Rightarrow> 'd \<Rightarrow> int \<Rightarrow> string \<Rightarrow> AddrInfo list" where
  "dht_answer h st mx key =
     (case stringKeyToCID h key of Inl _ \<Rightarrow> [] | Inr c \<Rightarrow> d_find h st c (if mx \<le> 0 then 1 else mx))"

definition first_answer :: "'a list list \<Rightarrow> 'a list" where
  "first_answer as = (case filter (\<lambda>a. a \<noteq> []) as of [] \<Rightarrow> [] | a # _ \<Rightarrow> a)"

lemma trim_nothing: "trim_space [] = []"
  by code_simp

lemma ProvidersForKey_answer:
  "stringKeyToCID h key = Inr c \<Longrightarrow> ProvidersForKey (Some h) st key mx = Inr (dht_answer h st mx key)"
  by (simp add: ProvidersForKey_def dht_answer_def Let_def)

lemma fetch_first_answer:
  assumes keys: "\<forall>k\<in>set (search_keys proto (PreferredRegion s)). \<exists>c. stringKeyToCID h k = Inr c"
    and ps: "ps = first_answer (map (dht_answer h st mx) (search_keys proto (PreferredRegion s)))" "ps \<noteq> []"
  shows "fetchProviders (NodeProviderDiscovery (Some h) st ev) proto mx s =
    (Inr ps, s\<lparr>providerCache := (providerCache s)(proto \<mapsto> \<lparr>pe_providers = ps, fetchedAt = t_fetch ev\<rparr>)\<rparr>)"
proof -
  let ?r = "PreferredRegion s" and ?a = "dht_answer h st mx"
  from keys obtain c where "stringKeyToCID h (protocolKey proto) = Inr c" by (auto simp: search_keys_def)
  then have g: "FindProtocolProviders (Some h) st proto mx = Inr (?a (protocolKey proto))"
    by (simp add: FindProtocolProviders_def ProvidersForKey_answer)
  show ?thesis
  proof (cases "trim_space ?r = []")
    case True
    then have "FindRegionProtocolProviders (Some h) st proto ?r mx = Inr (?a (protocolKey proto))"
      using g by (simp add: FindRegionProtocolProviders_def)
    moreover have "ps = ?a (protocolKey proto)"
      using ps True by (auto simp: search_keys_def first_answer_def split: if_splits)
    ultimately show ?thesis using g ps(2) by (simp add: fetchProviders_def NodeProviderDiscovery_def Let_def)
  next
    case False
    with trim_nothing have "?r \<noteq> []" by auto
    from keys False obtain d where "stringKeyToCID h (protocolRegionKey proto ?r) = Inr d" by (auto simp: search_keys_def)
    with False have "FindRegionProtocolProviders (Some h) st proto ?r mx = Inr (?a (protocolRegionKey proto ?r))"
      by (simp add: FindRegionProtocolProviders_def ProvidersForKey_answer)
    moreover have "ps = (if ?a (protocolRegionKey proto ?r) = [] then ?a (protocolKey proto) else ?a (protocolRegionKey proto ?r))"
      using ps False by (auto simp: search_keys_def first_answer_def split: if_splits)
    ultimately show ?thesis using g ps(2) \<open>?r \<noteq> []\<close>
      by (cases "?a (protocolRegionKey proto ?r) = []") (simp_all add: fetchProviders_def NodeProviderDiscovery_def Let_def)
  qed
qed

section \<open>An announced protocol is found\<close>

text \<open>
  An assumption on the network, beyond what the DHT promises: \<open>provs\<close> are the providers it has for a
  CID; who provides a CID, or is told that no other peer is known, becomes one and no provider is lost;
  and a search that asks for at least as many providers as there are returns all of them.
\<close>

definition provides_law :: "('c, 'd) dht \<Rightarrow> AddrInfo \<Rightarrow> ('d \<Rightarrow> 'c \<Rightarrow> AddrInfo set) \<Rightarrow> bool" where
  "provides_law h self provs \<longleftrightarrow>
     (\<forall>st c e st'. d_provide h st c = (e, st') \<longrightarrow>
        (\<forall>c'. provs st c' \<subseteq> provs st' c') \<and>
        ((case e of None \<Rightarrow> True | Some x \<Rightarrow> go_contains (err_msg x) ''failed to find any peer in table'') \<longrightarrow>
          self \<in> provs st' c)) \<and>
     (\<forall>st c m. finite (provs st c) \<and> int (card (provs st c)) \<le> m \<longrightarrow> set (d_find h st c m) = provs st c)"

definition key_held :: "('c, 'd) dht \<Rightarrow> AddrInfo \<Rightarrow> ('d \<Rightarrow> 'c \<Rightarrow> AddrInfo set) \<Rightarrow> 'd \<Rightarrow> string \<Rightarrow> bool" where
  "key_held h self provs st key \<longleftrightarrow> (\<exists>c. stringKeyToCID h key = Inr c \<and> self \<in> provs st c)"

text \<open>A network in which no CID has more than the given number of providers.\<close>

definition few_providers :: "('d \<Rightarrow> 'c \<Rightarrow> AddrInfo set) \<Rightarrow> int \<Rightarrow> 'd \<Rightarrow> bool" where
  "few_providers provs m st \<longleftrightarrow> (\<forall>c. finite (provs st c) \<and> int (card (provs st c)) \<le> m)"

lemma ProvideKey_held:
  assumes "provides_law h self provs" "ProvideKey (Some h) st key = (e, st')"
  shows "(\<forall>k. key_held h self provs st k \<longrightarrow> key_held h self provs st' k) \<and> (e = None \<longrightarrow> key_held h self provs st' key)"
proof (cases "stringKeyToCID h key")
  case (Inl x)
  with assms(2) show ?thesis by (auto simp: ProvideKey_def)
next
  case (Inr c)
  obtain r st1 where p: "d_provide h st c = (r, st1)" by fastforce
  with assms(2) Inr have "st' = st1"
    "e = None \<longrightarrow> (case r of None \<Rightarrow> True | Some x \<Rightarrow> go_contains (err_msg x) ''failed to find any peer in table'')"
    by (auto simp: ProvideKey_def split: option.splits if_splits)
  moreover from assms(1) p have "\<forall>c'. provs st c' \<subseteq> provs st1 c'"
    "(case r of None \<Rightarrow> True | Some x \<Rightarrow> go_contains (err_msg x) ''failed to find any peer in table'') \<longrightarrow> self \<in> provs st1 c"
    unfolding provides_law_def by blast+
  ultimately show ?thesis using Inr by (auto simp: key_held_def)
qed

lemma announce_loop_held:
  assumes law: "provides_law h self provs"
  shows "announce_loop (Some h) region names st = (None, st') \<Longrightarrow>
    (\<forall>k. key_held h self provs st k \<longrightarrow> key_held h self provs st' k) \<and>
    (\<forall>n\<in>set names. n \<noteq> '''' \<longrightarrow> key_held h self provs st' (protocolKey n) \<and>
       (region \<noteq> '''' \<longrightarrow> key_held h self provs st' (protocolRegionKey n region)))"
proof (induction names arbitrary: st)
  case Nil
  then show ?case by simp
next
  case (Cons n names)
  show ?case
  proof (cases "n = ''''")
    case True
    with Cons show ?thesis by simp
  next
    case False
    obtain e1 st1 where p1: "ProvideKey (Some h) st (protocolKey n) = (e1, st1)" by fastforce
    obtain e2 st2 where p2: "ProvideKey (Some h) st1 (protocolRegionKey n region) = (e2, st2)" by fastforce
    note h1 = ProvideKey_held [OF law p1] and h2 = ProvideKey_held [OF law p2]
    from Cons.prems False p1 p2 have e: "e1 = None"
      "if region = '''' then announce_loop (Some h) region names st1 = (None, st')
       else e2 = None \<and> announce_loop (Some h) region names st2 = (None, st')"
      by (auto split: option.splits if_splits)
    show ?thesis
    proof (cases "region = ''''")
      case True
      with e Cons.IH [of st1] h1 show ?thesis by auto
    next
      case False
      with e Cons.IH [of st2] h1 h2 show ?thesis by auto
    qed
  qed
qed

lemma held_found:
  "provides_law h self provs \<Longrightarrow> key_held h self provs st key \<Longrightarrow> few_providers provs mx st \<Longrightarrow> 0 < mx \<Longrightarrow>
     \<exists>ps. ProvidersForKey (Some h) st key mx = Inr ps \<and> self \<in> set ps"
  by (auto simp: ProvidersForKey_def Let_def key_held_def provides_law_def few_providers_def)

lemma announced_found:
  assumes "provides_law h self provs"
    and "AnnounceProtocols (Some h) region protos st = (None, st')"
    and "name \<in> set protos" "name \<noteq> ''''" "PreferredRegion s \<in> {'''', region}"
    and "few_providers provs mx st'" "0 < mx"
  shows "\<exists>ps. fetchProviders (NodeProviderDiscovery (Some h) st' ev) name mx s =
      (Inr ps, s\<lparr>providerCache := (providerCache s)(name \<mapsto> \<lparr>pe_providers = ps, fetchedAt = t_fetch ev\<rparr>)\<rparr>) \<and>
    self \<in> set ps"
proof -
  have "announce_loop (Some h) region protos st = (None, st')"
    using assms(2,3) by (auto simp: AnnounceProtocols_def split: if_splits)
  from announce_loop_held [OF assms(1) this] assms(3,4) have k: "key_held h self provs st' (protocolKey name)"
    "region \<noteq> '''' \<longrightarrow> key_held h self provs st' (protocolRegionKey name region)" by auto
  from held_found [OF assms(1) k(1) assms(6,7)] obtain ps where
    ps: "FindProtocolProviders (Some h) st' name mx = Inr ps" "self \<in> set ps"
    by (auto simp: FindProtocolProviders_def)
  have nonempty: "self \<in> set qs \<Longrightarrow> qs \<noteq> []" for qs by auto
  show ?thesis
  proof (cases "PreferredRegion s = ''''")
    case True
    with ps nonempty show ?thesis by (simp add: fetchProviders_def NodeProviderDiscovery_def Let_def)
  next
    case False
    with assms(5) have r: "PreferredRegion s = region" "region \<noteq> ''''" by auto
    with k(2) held_found [OF assms(1) _ assms(6,7), of "protocolRegionKey name region"] obtain qs where
      q: "ProvidersForKey (Some h) st' (protocolRegionKey name region) mx = Inr qs" "self \<in> set qs" by blast
    show ?thesis
      using r ps q nonempty
      by (cases "trim_space region = ''''")
        (auto simp: fetchProviders_def NodeProviderDiscovery_def FindRegionProtocolProviders_def Let_def)
  qed
qed

text \<open>
  A node that announced its protocols is found by a smart client. When the announcement returned
  no error, and the network knows no more providers than the search asks for, a search through the
  node's discovery for any of the protocols, by a client that prefers the node's region or none,
  returns the node among its providers, and the client caches that answer.
\<close>

theorem announced_protocol_found:
  assumes "provides_law h self provs"
    and "AnnounceProtocols (Some h) region protos st = (None, st')"
    and "name \<in> set protos" "name \<noteq> ''''" "PreferredRegion s \<in> {'''', region}"
    and "few_providers provs mx st'" "0 < mx"
  shows "\<exists>ps. fetchProviders (NodeProviderDiscovery (Some h) st' ev) name mx s =
      (Inr ps, s\<lparr>providerCache := (providerCache s)(name \<mapsto> \<lparr>pe_providers = ps, fetchedAt = t_fetch ev\<rparr>)\<rparr>) \<and>
    self \<in> set ps"
  by (rule announced_found [OF assms])

text \<open>A network that keeps the CIDs this node provides, with the key itself for a CID.\<close>

definition list_dht :: "AddrInfo \<Rightarrow> (string, string list) dht" where
  "list_dht self =
     \<lparr>d_hash = Inr, d_provide = (\<lambda>st c. (Some (Err ''failed to find any peer in table''), c # st)),
      d_find = (\<lambda>st c m. if c \<in> set st then [self] else [])\<rparr>"

lemma list_dht_law: "provides_law (list_dht self) self (\<lambda>st c. if c \<in> set st then {self} else {})"
  by (auto simp: provides_law_def list_dht_def)

lemma list_dht_few: "1 \<le> m \<Longrightarrow> few_providers (\<lambda>st c. if c \<in> set st then {self} else {}) m st"
  by (simp add: few_providers_def)

text \<open>The node of region \<open>eu\<close> announces two protocols; a client that prefers that region finds it.\<close>

lemma announced_protocol_found_witness:
  "\<exists>st' ps s'. AnnounceProtocols (Some (list_dht (wit_info ''me''))) ''eu'' [''plain'', ''vless''] [] = (None, st') \<and>
     fetchProviders (NodeProviderDiscovery (Some (list_dht (wit_info ''me''))) st' (wit_sc_env [])) ''vless'' 8
       ((NewSmartClient True ''t'')\<lparr>PreferredRegion := ''eu''\<rparr>) = (Inr ps, s') \<and> wit_info ''me'' \<in> set ps"
proof -
  obtain st' where a: "AnnounceProtocols (Some (list_dht (wit_info ''me''))) ''eu'' [''plain'', ''vless''] [] = (None, st')"
    by (simp add: AnnounceProtocols_def ProvideKey_def stringKeyToCID_def protocolKey_def protocolRegionKey_def
        list_dht_def has_prefix_def)
  from announced_protocol_found [OF list_dht_law a, of "''vless''" "(NewSmartClient True ''t'')\<lparr>PreferredRegion := ''eu''\<rparr>" 8 "wit_sc_env []"] a
    list_dht_few [of 8 "wit_info ''me''" st']
  show ?thesis by auto
qed

text \<open>Libraries that always succeed.\<close>

definition wit_node_lib :: node_lib where
  "wit_node_lib = \<lparr>l_key = (\<lambda>_. None), l_host = (\<lambda>_ _ _. None), l_dht = (\<lambda>_ _. None),
     l_p2p_info = (\<lambda>s. Inr (wit_info s)), l_connect = (\<lambda>_ _ _. None),
     l_resources = \<lparr>MaxCircuits = 16, LimitData = None\<rparr>, l_limit = 131072\<rparr>"

end
