(* ===== verification/Reality.thy ===== *)
theory Reality
  imports Dns GoNet
begin

text \<open>
  \<open>hypernet/services/vpn/reality/server.go\<close> (and its copy \<open>pkg/reality/server.go\<close>): the
  configuration of the REALITY listener and its accept loop. The handshake itself belongs to the
  REALITY library and is a parameter; base64 is that of the name system.
\<close>

section \<open>Hexadecimal and base64\<close>

definition hex_val :: "byte \<Rightarrow> nat option" where
  "hex_val c =
     (let n = of_char c :: nat
      in if 48 \<le> n \<and> n \<le> 57 then Some (n - 48)
         else if 97 \<le> n \<and> n \<le> 102 then Some (n - 87)
         else if 65 \<le> n \<and> n \<le> 70 then Some (n - 55)
         else None)"

text \<open>\<open>hex.DecodeString\<close>.\<close>

fun hex_decode :: "bytes \<Rightarrow> bytes option" where
  "hex_decode [] = Some []"
| "hex_decode [c] = None"
| "hex_decode (a # b # s) =
     (case (hex_val a, hex_val b, hex_decode s) of
        (Some i, Some j, Some bs) \<Rightarrow> Some (char_of (i * 16 + j) # bs)
      | _ \<Rightarrow> None)"


definition hex_encode :: "bytes \<Rightarrow> bytes" where
  "hex_encode bs = concat (map (\<lambda>b. [hex_digit (of_char b div 16), hex_digit (of_char b mod 16)]) bs)"

text \<open>
  \<open>base64.RawURLEncoding\<close>: the standard alphabet with two other characters, and no padding, which is
  put back here. Its decoder skips line ends too.
\<close>

definition url_to_std :: "byte \<Rightarrow> byte" where
  "url_to_std c = (if c = CHR ''-'' then CHR ''+'' else if c = CHR ''_'' then CHR ''/'' else c)"

definition std_to_url :: "byte \<Rightarrow> byte" where
  "std_to_url c = (if c = CHR ''+'' then CHR ''-'' else if c = CHR ''/'' then CHR ''_'' else c)"

definition raw_url_decode :: "bytes \<Rightarrow> bytes option" where
  "raw_url_decode s =
     (let t = filter (\<lambda>c. c \<noteq> newline \<and> c \<noteq> CHR 0x0D) s
      in if list_ex (\<lambda>c. c = CHR ''+'' \<or> c = CHR ''/'' \<or> c = pad) t then None
         else b64_groups (map url_to_std t @ replicate ((4 - length t mod 4) mod 4) pad))"

definition raw_url_encode :: "bytes \<Rightarrow> bytes" where
  "raw_url_encode s = map std_to_url (filter (\<lambda>c. c \<noteq> pad) (b64_encode s))"

section \<open>The configuration\<close>

record ServerConfig =
  rs_dest :: string
  rs_names :: "string list"
  rs_key :: string
  rs_ids :: "string list"
  rs_show :: bool
  rs_diff :: duration

text \<open>What the library gets of it.\<close>

record reality_config =
  re_dest :: string
  re_key :: bytes
  re_names :: "string set"
  re_ids :: "bytes set"
  re_show :: bool
  re_diff :: duration

definition ParseShortId :: "string \<Rightarrow> bytes option" where
  "ParseShortId s0 =
     (let s = trim_space s0
      in if length s = 0 \<or> length s > 16 \<or> length s mod 2 \<noteq> 0 then None
         else case hex_decode s of
           None \<Rightarrow> None
         | Some raw \<Rightarrow> if length raw > 8 then None else Some (raw @ replicate (8 - length raw) (CHR 0x00)))"

definition private_key :: "string \<Rightarrow> bytes option" where
  "private_key s =
     (case raw_url_decode (trim_space s) of
        Some k \<Rightarrow> Some k
      | None \<Rightarrow> b64_decode (trim_space s))"

definition server_names :: "ServerConfig \<Rightarrow> string set" where
  "server_names c =
     (let ns = filter (\<lambda>s. s \<noteq> '''') (map trim_space (rs_names c))
      in if ns = []
         then (case cut_first (CHR '':'') (rs_dest c) of
                 Some (h, _) \<Rightarrow> if h \<noteq> '''' then {h} else {}
               | None \<Rightarrow> {})
         else set ns)"

text \<open>The text that the error of a key takes from the decoder is not kept.\<close>

definition BuildRealityConfig :: "ServerConfig option \<Rightarrow> err + reality_config" where
  "BuildRealityConfig co =
     (case co of
        None \<Rightarrow> Inl (Err ''reality: Dest is required'')
      | Some c \<Rightarrow>
          if rs_dest c = '''' then Inl (Err ''reality: Dest is required'')
          else case private_key (rs_key c) of
            None \<Rightarrow> Inl (Err ''reality: PrivateKey must be 32 bytes Base64'')
          | Some k \<Rightarrow>
              if length k \<noteq> 32 then Inl (Err ''reality: PrivateKey must be 32 bytes Base64'')
              else Inr \<lparr>re_dest = rs_dest c, re_key = k, re_names = server_names c,
                     re_ids = set (concat (map (\<lambda>i. case ParseShortId i of None \<Rightarrow> [] | Some b \<Rightarrow> [b]) (rs_ids c))),
                     re_show = rs_show c, re_diff = rs_diff c\<rparr>)"

section \<open>Listening\<close>

text \<open>
  \<open>Accept\<close>. An element of the list is what the TCP listener gives: an error, or a connection and
  how its handshake ends, which takes at most 15 seconds. The result is that of the call, with the
  connections it closed and what is left; without an element the call waits.
\<close>

fun reality_accept ::
  "(err + 'c \<times> (err + 'r)) list \<Rightarrow> ((err + 'r) \<times> 'c list \<times> (err + 'c \<times> (err + 'r)) list) option"
where
  "reality_accept [] = None"
| "reality_accept (Inl e # evs) = Some (Inl e, [], evs)"
| "reality_accept (Inr (c, Inr r) # evs) = Some (Inr r, [], evs)"
| "reality_accept (Inr (c, Inl e) # evs) =
     map_option (\<lambda>(r, cs, rest). (r, c # cs, rest)) (reality_accept evs)"

definition ListenREALITY ::
  "(string \<Rightarrow> err + 'l) \<Rightarrow> string \<Rightarrow> ServerConfig option \<Rightarrow> err + 'l \<times> reality_config"
where
  "ListenREALITY listen addr cfg =
     (case BuildRealityConfig cfg of
        Inl e \<Rightarrow> Inl e
      | Inr rc \<Rightarrow>
          (case listen addr of
             Inl e \<Rightarrow> Inl (wrap_err (''reality listen '' @ addr) e)
           | Inr ln \<Rightarrow> Inr (ln, rc)))"

text \<open>The client is not implemented.\<close>

definition DialREALITY :: "string \<Rightarrow> string \<Rightarrow> err + 'c" where
  "DialREALITY network addr =
     Inl (Err ''reality: client not implemented yet, use Xray client or wait for native support'')"

section \<open>Decoding what was encoded\<close>

lemma hex_val_char: "i < 16 \<Longrightarrow> hex_val (hex_digit i) = Some i"
  by (simp add: hex_val_def hex_digit_def Let_def)

lemma hex_digit_plain: "i < 16 \<Longrightarrow> plain_byte (hex_digit i)"
  by (simp add: plain_byte_def hex_digit_def)

lemma hex_roundtrip: "hex_decode (hex_encode bs) = Some bs"
proof (induction bs)
  case Nil
  then show ?case by (simp add: hex_encode_def)
next
  case (Cons b bs)
  have "of_char b div 16 < (16 :: nat)" using of_char_less_256 [of b] by (simp add: less_mult_imp_div_less)
  moreover have "of_char b div 16 * 16 + of_char b mod 16 = (of_char b :: nat)" by (rule div_mult_mod_eq)
  ultimately show ?case using Cons by (simp add: hex_encode_def hex_val_char)
qed

lemma hex_encode_length [simp]: "length (hex_encode bs) = 2 * length bs"
  by (induction bs) (auto simp: hex_encode_def)

lemma hex_encode_solid: "bs \<noteq> [] \<Longrightarrow> solid (hex_encode bs)"
proof -
  assume "bs \<noteq> []"
  have "list_all plain_byte [hex_digit (of_char b div 16), hex_digit (of_char b mod 16)]" for b
    using of_char_less_256 [of b] by (simp add: hex_digit_plain less_mult_imp_div_less)
  then have "list_all plain_byte (hex_encode bs)" by (auto simp: hex_encode_def list_all_iff)
  moreover have "hex_encode bs \<noteq> []" using \<open>bs \<noteq> []\<close> hex_encode_length [of bs] by (metis length_0_conv mult_is_0 zero_neq_numeral)
  ultimately show ?thesis by (rule solid_plain)
qed

lemma url_chars: "i < 64 \<Longrightarrow> url_to_std (std_to_url (b64_char i)) = b64_char i \<and> b64_char i \<noteq> pad \<and>
    std_to_url (b64_char i) \<notin> {CHR ''+'', CHR ''/'', pad, newline, CHR 0x0D}"
proof -
  have "list_all (\<lambda>i. url_to_std (std_to_url (b64_char i)) = b64_char i \<and> b64_char i \<noteq> pad \<and>
    std_to_url (b64_char i) \<notin> {CHR ''+'', CHR ''/'', pad, newline, CHR 0x0D}) [0..<64]" by code_simp
  then show "i < 64 \<Longrightarrow> url_to_std (std_to_url (b64_char i)) = b64_char i \<and> b64_char i \<noteq> pad \<and>
    std_to_url (b64_char i) \<notin> {CHR ''+'', CHR ''/'', pad, newline, CHR 0x0D}" by (simp add: list_all_iff)
qed

text \<open>The text of an encoding: characters of the alphabet, and behind them the padding.\<close>

lemma b64_shape:
  "\<exists>cs. b64_encode s = map b64_char cs @ replicate ((4 - length cs mod 4) mod 4) pad \<and> (\<forall>i\<in>set cs. i < 64) \<and>
     (length s mod 3 \<noteq> 0 \<longrightarrow> length cs mod 4 \<noteq> 0)"
proof (induction s rule: b64_encode.induct)
  case 1
  show ?case by (rule exI [of _ "[]"]) simp
next
  case (2 a)
  define n where "n = (of_char a * 16 :: nat)"
  have "n div 64 < 64" using lt64 [of n 64] of_char_less_256 [of a] by (simp add: n_def)
  then show ?case
    by (intro exI [of _ "[n div 64, n mod 64]"]) (simp add: n_def [symmetric] Let_def numeral_2_eq_2)
next
  case (3 a b)
  define n where "n = ((of_char a * 256 + of_char b) * 4 :: nat)"
  have "n div 4096 < 64" using lt64 [of n 4096] pair_less [of a b] by (simp add: n_def)
  then show ?case
    by (intro exI [of _ "[n div 4096, n div 64 mod 64, n mod 64]"]) (simp add: n_def Let_def)
next
  case (4 a b d s)
  define n where "n = ((of_char a * 256 + of_char b) * 256 + of_char d :: nat)"
  have lt: "n div 262144 < 64"
    by (rule lt64)
      (use join256(3) [OF of_char_less_256 [of a] of_char_less_256 [of b] of_char_less_256 [of d]] in
        \<open>simp add: n_def\<close>)
  from 4 obtain cs where cs: "b64_encode s = map b64_char cs @ replicate ((4 - length cs mod 4) mod 4) pad"
    "\<forall>i\<in>set cs. i < 64" "length s mod 3 \<noteq> 0 \<longrightarrow> length cs mod 4 \<noteq> 0" by blast
  let ?cs = "[n div 262144, n div 4096 mod 64, n div 64 mod 64, n mod 64] @ cs"
  have e: "b64_encode (a # b # d # s) = map b64_char [n div 262144, n div 4096 mod 64, n div 64 mod 64, n mod 64] @ b64_encode s"
    by (simp only: n_def b64_encode.simps Let_def list.map append.simps)
  have "length ?cs = length cs + 4" "length (a # b # d # s) = length s + 3" by simp_all
  then have l: "length ?cs mod 4 = length cs mod 4" "length (a # b # d # s) mod 3 = length s mod 3"
    by (simp_all only: mod_add_self2)
  have "b64_encode (a # b # d # s) = map b64_char ?cs @ replicate ((4 - length ?cs mod 4) mod 4) pad"
    by (simp only: e cs(1) l(1) map_append append_assoc)
  moreover have "\<forall>i\<in>set ?cs. i < 64" using cs(2) lt by auto
  ultimately show ?case using cs(3) l by metis
qed

lemma raw_url_roundtrip: "raw_url_decode (raw_url_encode s) = Some s"
proof -
  from b64_shape obtain cs where cs: "b64_encode s = map b64_char cs @ replicate ((4 - length cs mod 4) mod 4) pad"
    "\<forall>i\<in>set cs. i < 64" by blast
  let ?t = "map (std_to_url \<circ> b64_char) cs"
  have "filter (\<lambda>c. c \<noteq> pad) (map b64_char cs) = map b64_char cs" using cs(2) url_chars by (auto intro: filter_True)
  then have e: "raw_url_encode s = ?t" by (simp add: raw_url_encode_def cs(1))
  have f: "filter (\<lambda>c. c \<noteq> newline \<and> c \<noteq> CHR 0x0D) ?t = ?t" using cs(2) url_chars by (auto intro!: filter_True)
  have u: "map url_to_std ?t = map b64_char cs" using cs(2) url_chars by simp
  have "\<not> list_ex (\<lambda>c. c = CHR ''+'' \<or> c = CHR ''/'' \<or> c = pad) ?t"
    using cs(2) url_chars by (auto simp: list_ex_iff)
  then have "raw_url_decode ?t = b64_groups (b64_encode s)"
    unfolding raw_url_decode_def f Let_def u cs(1) by simp
  then show ?thesis using e b64_groups_encode by simp
qed

lemma b64_plain: "list_all plain_byte b64_alphabet" "length b64_alphabet = 64" "plain_byte pad"
  by (simp_all add: b64_alphabet_def plain_byte_def)

lemma b64_char_printable: "i < 64 \<Longrightarrow> plain_byte (b64_char i)"
  using b64_plain(1,2) by (simp add: b64_char_def list_all_length)

lemma b64_encode_solid: "s \<noteq> [] \<Longrightarrow> solid (b64_encode s)"
proof (rule solid_plain)
  note p = b64_char_printable b64_plain(3)
  from b64_shape obtain cs where "b64_encode s = map b64_char cs @ replicate ((4 - length cs mod 4) mod 4) pad"
    "\<forall>i\<in>set cs. i < 64" by blast
  with p show "list_all plain_byte (b64_encode s)" by (auto simp: list_all_iff)
  show "s \<noteq> [] \<Longrightarrow> b64_encode s \<noteq> []" by (cases s rule: b64_encode.cases) (simp_all add: Let_def)
qed

text \<open>A padded encoding is not one of the other kind.\<close>

lemma raw_url_padded: "length s mod 3 \<noteq> 0 \<Longrightarrow> raw_url_decode (b64_encode s) = None"
proof -
  assume "length s mod 3 \<noteq> 0"
  with b64_shape [of s] obtain cs where cs: "b64_encode s = map b64_char cs @ replicate ((4 - length cs mod 4) mod 4) pad"
    "length cs mod 4 \<noteq> 0" by blast
  then have "0 < 4 - length cs mod 4" "4 - length cs mod 4 < 4" by simp_all
  then have "0 < (4 - length cs mod 4) mod 4" by simp
  then have "pad \<in> set (b64_encode s)" by (simp add: cs(1))
  then show ?thesis by (auto simp: raw_url_decode_def Let_def list_ex_iff)
qed

section \<open>Properties\<close>

lemma private_key_encoded:
  assumes "length k = 32" "trim_space s \<in> {raw_url_encode k, b64_encode k}"
  shows "private_key s = Some k"
  using assms raw_url_roundtrip [of k] raw_url_padded [of k] b64_roundtrip [of k]
  by (auto simp: private_key_def)

lemma short_id_encoded:
  assumes "bs \<noteq> []" "length bs \<le> 8"
  shows "ParseShortId (hex_encode bs) = Some (bs @ replicate (8 - length bs) (CHR 0x00))"
proof -
  note s = trim_space_solid(1) [OF hex_encode_solid [OF assms(1)]]
  show ?thesis unfolding ParseShortId_def s Let_def using assms by (simp add: hex_roundtrip)
qed

lemma hex_decode_length: "hex_decode s = Some bs \<Longrightarrow> length s = 2 * length bs"
  by (induction s arbitrary: bs rule: hex_decode.induct) (auto split: option.splits)

lemma short_id_length: "ParseShortId s = Some b \<Longrightarrow> length b = 8"
  by (auto simp: ParseShortId_def Let_def split: if_splits option.splits)

text \<open>
  A REALITY configuration that names a destination and carries a key of 32 bytes, in either form
  of base64, is built, and the library gets that key. Its short IDs are those of the configuration
  that are well formed, each filled up to eight bytes, so a short ID written in hexadecimal is found;
  and a configuration without a usable server name gets the host of the destination instead.
\<close>

theorem reality_config_built:
  assumes "rs_dest c \<noteq> ''''" "length k = 32" "trim_space (rs_key c) \<in> {raw_url_encode k, b64_encode k}"
  shows "\<exists>r. BuildRealityConfig (Some c) = Inr r \<and> re_dest r = rs_dest c \<and> re_key r = k \<and>
    re_ids r = {b. \<exists>i\<in>set (rs_ids c). ParseShortId i = Some b} \<and> (\<forall>b\<in>re_ids r. length b = 8) \<and>
    (\<forall>bs. hex_encode bs \<in> set (rs_ids c) \<and> bs \<noteq> [] \<and> length bs \<le> 8 \<longrightarrow>
       bs @ replicate (8 - length bs) (CHR 0x00) \<in> re_ids r) \<and>
    ((\<forall>n\<in>set (rs_names c). trim_space n = '''') \<longrightarrow>
       (\<forall>h p. rs_dest c = h @ '':'' @ p \<and> h \<noteq> '''' \<and> CHR '':'' \<notin> set h \<longrightarrow> re_names r = {h}))"
proof -
  let ?r = "\<lparr>re_dest = rs_dest c, re_key = k, re_names = server_names c,
    re_ids = set (concat (map (\<lambda>i. case ParseShortId i of None \<Rightarrow> [] | Some b \<Rightarrow> [b]) (rs_ids c))),
    re_show = rs_show c, re_diff = rs_diff c\<rparr>"
  have b: "BuildRealityConfig (Some c) = Inr ?r"
    using assms private_key_encoded [OF assms(2,3)] by (simp add: BuildRealityConfig_def)
  have i: "re_ids ?r = {b. \<exists>i\<in>set (rs_ids c). ParseShortId i = Some b}"
    by (auto split: option.splits)
  have n: "server_names c = {h}"
    if "\<forall>n\<in>set (rs_names c). trim_space n = ''''" "rs_dest c = h @ '':'' @ p" "h \<noteq> ''''" "CHR '':'' \<notin> set h" for h p
  proof -
    have "filter (\<lambda>s. s \<noteq> '''') (map trim_space (rs_names c)) = []"
      using that(1) by (auto simp: filter_empty_conv)
    then show ?thesis using that cut_first_hit [OF that(4), of p] by (simp add: server_names_def)
  qed
  have e: "bs @ replicate (8 - length bs) (CHR 0x00) \<in> re_ids ?r"
    if "hex_encode bs \<in> set (rs_ids c)" "bs \<noteq> []" "length bs \<le> 8" for bs
    unfolding i using that short_id_encoded [OF that(2,3)] by blast
  have l: "\<forall>b\<in>re_ids ?r. length b = 8" unfolding i using short_id_length by blast
  show ?thesis
    by (rule exI [of _ ?r], intro conjI b i l) (use e n in simp_all)
qed

text \<open>A destination with an IPv6 address gives the server name \<open>[\<close>.\<close>

lemma reality_ipv6_name:
  "filter (\<lambda>s. s \<noteq> '''') (map trim_space (rs_names c)) = [] \<Longrightarrow> rs_dest c = ''[::1]:443'' \<Longrightarrow>
     server_names c = {''[''}"
  by (simp add: server_names_def)

text \<open>
  The REALITY listener hands out no connection whose handshake failed. A call of \<open>Accept\<close> passes
  over the connections that fail, closing each, and returns the first that succeeds or the error of
  the listener; what comes later is left for the next call.
\<close>

theorem reality_accept_handshaken:
  assumes "reality_accept evs = Some (r, cs, rest)"
  shows "\<exists>failed last. evs = map (\<lambda>(c, e). Inr (c, Inl e)) failed @ last # rest \<and> cs = map fst failed \<and>
    (case r of Inl e \<Rightarrow> last = Inl e | Inr x \<Rightarrow> \<exists>c. last = Inr (c, Inr x))"
  using assms
proof (induction evs arbitrary: cs rule: reality_accept.induct)
  case (4 c e evs)
  then obtain cs' where "reality_accept evs = Some (r, cs', rest)" "cs = c # cs'" by auto
  moreover from 4(1) [OF this(1)] obtain failed last where
    "evs = map (\<lambda>(c, e). Inr (c, Inl e)) failed @ last # rest" "cs' = map fst failed"
    "case r of Inl e \<Rightarrow> last = Inl e | Inr x \<Rightarrow> \<exists>c. last = Inr (c, Inr x)" by blast
  ultimately show ?case by (intro exI [of _ "(c, e) # failed"] exI [of _ last]) simp
qed auto

lemma reality_accept_handshaken_witness:
  "\<exists>evs. evs = [Inr (1 :: nat, Inl EOF), Inr (2, Inr ''tls''), Inr (3, Inr ''next'')] \<and>
     reality_accept evs = Some (Inr ''tls'', [1], [Inr (3, Inr ''next'')]) \<and>
     (\<exists>failed last. evs = map (\<lambda>(c, e). Inr (c, Inl e)) failed @ last # [Inr (3, Inr ''next'')] \<and> [1] = map fst failed)"
proof -
  let ?evs = "[Inr (1, Inl EOF), Inr (2, Inr ''tls''), Inr (3, Inr ''next'')] :: (err + nat \<times> (err + string)) list"
  have a: "reality_accept ?evs = Some (Inr ''tls'', [1], [Inr (3, Inr ''next'')])" by simp
  from reality_accept_handshaken [OF a]
  have b: "\<exists>failed last. ?evs = map (\<lambda>(c, e). Inr (c, Inl e)) failed @ last # [Inr (3, Inr ''next'')] \<and> [1] = map fst failed"
    by (elim exE conjE) (intro exI conjI, assumption+)
  show ?thesis by (rule exI [of _ ?evs]) (intro conjI refl a b)
qed

definition wit_reality :: ServerConfig where
  "wit_reality = \<lparr>rs_dest = ''www.example.com:443'', rs_names = [], rs_key = b64_encode (replicate 32 (CHR ''k'')),
     rs_ids = [''6ba8'', ''xyz''], rs_show = False, rs_diff = 0\<rparr>"

lemma reality_config_built_witness:
  "\<exists>r. BuildRealityConfig (Some wit_reality) = Inr r \<and> re_key r = replicate 32 (CHR ''k'') \<and>
     re_names r = {''www.example.com''} \<and> [CHR 0x6B, CHR 0xA8] @ replicate 6 (CHR 0x00) \<in> re_ids r"
proof -
  have solid: "trim_space (b64_encode (replicate 32 (CHR ''k''))) = b64_encode (replicate 32 (CHR ''k''))"
    by (rule trim_space_solid(1)) (simp add: b64_encode_solid)
  have h: "hex_encode [CHR 0x6B, CHR 0xA8] = ''6ba8''" by (simp add: hex_encode_def hex_digit_def char_of_def bit_0)
  obtain r where r: "BuildRealityConfig (Some wit_reality) = Inr r" "re_key r = replicate 32 (CHR ''k'')"
    "\<forall>bs. hex_encode bs \<in> set (rs_ids wit_reality) \<and> bs \<noteq> [] \<and> length bs \<le> 8 \<longrightarrow>
       bs @ replicate (8 - length bs) (CHR 0x00) \<in> re_ids r"
    "(\<forall>n\<in>set (rs_names wit_reality). trim_space n = '''') \<longrightarrow>
       (\<forall>h p. rs_dest wit_reality = h @ '':'' @ p \<and> h \<noteq> '''' \<and> CHR '':'' \<notin> set h \<longrightarrow> re_names r = {h})"
    using reality_config_built [of wit_reality "replicate 32 (CHR ''k'')"] solid by (auto simp: wit_reality_def)
  have "re_names r = {''www.example.com''}"
    using r(4) [rule_format, of "''www.example.com''" "''443''"] by (simp add: wit_reality_def)
  moreover have "[CHR 0x6B, CHR 0xA8] @ replicate 6 (CHR 0x00) \<in> re_ids r"
    using r(3) [rule_format, of "[CHR 0x6B, CHR 0xA8]"] h by (simp add: wit_reality_def)
  ultimately show ?thesis using r(1,2) by blast
qed

end
