(* ===== verification/TlsFront.thy ===== *)
theory TlsFront
  imports Daemon
begin

text \<open>
  \<open>cmd/tls-front/main.go\<close>: the TLS front of a node. It accepts TLS connections and tunnels each to the
  backend; TLS and certificates are library code. Unlike the listeners of the node, its relay ends
  with the first of the two directions that ends.
\<close>

section \<open>The relay that ends with its first direction\<close>

definition first_over :: "relay \<Rightarrow> bool" where
  "first_over r \<longleftrightarrow> rl_up r = UpEnded \<or> rl_down_ended r"

fun first_run :: "bool list \<Rightarrow> relay \<Rightarrow> relay" where
  "first_run [] r = r"
| "first_run (up # sched) r =
     (if first_over r then r
      else first_run sched (case (if up then relay_up r else relay_down r) of None \<Rightarrow> r | Some r' \<Rightarrow> r'))"

text \<open>The contract of a race: two tasks that make progress, run until one of them has no work left.\<close>

locale race = two_tasks +
  fixes race :: "bool list \<Rightarrow> 'a \<Rightarrow> 'a" and over :: "'a \<Rightarrow> bool"
  assumes race_Nil: "race [] s = s"
    and race_Cons: "race (d # sched) s =
      (if over s then s else race sched (case (if d then stepA s else stepB s) of None \<Rightarrow> s | Some s' \<Rightarrow> s'))"
    and over_left: "good s \<Longrightarrow> over s \<longleftrightarrow> leftA s = 0 \<or> leftB s = 0"
begin

text \<open>The turns a task still gets behind the end of the race.\<close>

lemma run_less:
  "good s \<Longrightarrow> good (run sched s) \<and> leftA (run sched s) \<le> leftA s \<and> leftB (run sched s) \<le> leftB s"
proof (induction sched arbitrary: s)
  case (Cons d sched)
  have "\<exists>s'. (case (if d then stepA s else stepB s) of None \<Rightarrow> s | Some s' \<Rightarrow> s') = s' \<and> good s' \<and> leftA s' \<le> leftA s \<and> leftB s' \<le> leftB s"
    using Cons.prems idleA [of s] idleB [of s] workA [of s] workB [of s]
    by (cases "leftA s = 0"; cases "leftB s = 0"; cases d) (auto intro: less_imp_le)
  then obtain s' where s': "run (d # sched) s = run sched s'" "good s'" "leftA s' \<le> leftA s" "leftB s' \<le> leftB s"
    by (auto simp: run_Cons)
  with Cons.IH [OF s'(2)] show ?case by auto
qed (simp add: run_Nil)

lemma late: "good s \<Longrightarrow> over s \<Longrightarrow> good (run sched s) \<and> over (run sched s)"
  using run_less [of s sched] by (auto simp: over_left)

lemma race_over: "over s \<Longrightarrow> race sched s = s"
  by (cases sched) (simp_all add: race_Nil race_Cons)

lemma race_append: "race (sched @ sched') s = race sched' (race sched s)"
  by (induction sched arbitrary: s) (simp_all add: race_Nil race_Cons race_over)

lemma ends:
  "good s \<Longrightarrow> leftA s \<le> turns True sched \<or> leftB s \<le> turns False sched \<Longrightarrow>
     good (race sched s) \<and> over (race sched s)"
proof (induction sched arbitrary: s)
  case Nil
  then show ?case by (auto simp: turns_def race_Nil over_left)
next
  case (Cons d sched)
  show ?case
  proof (cases "over s")
    case True
    with Cons.prems show ?thesis by (simp add: race_over)
  next
    case False
    with over_left [OF Cons.prems(1)] have w: "0 < leftA s" "0 < leftB s" by simp_all
    show ?thesis
    proof (cases d)
      case True
      from workA [OF Cons.prems(1) w(1)] obtain s' where
        "stepA s = Some s'" "good s'" "leftA s' < leftA s" "leftB s' = leftB s" by blast
      with True False Cons.IH [of s'] Cons.prems(2) show ?thesis by (auto simp: turns_def race_Cons)
    next
      case nd: False
      from workB [OF Cons.prems(1) w(2)] obtain s' where
        "stepB s = Some s'" "good s'" "leftB s' < leftB s" "leftA s' = leftA s" by blast
      with nd False Cons.IH [of s'] Cons.prems(2) show ?thesis by (auto simp: turns_def race_Cons)
    qed
  qed
qed

end

section \<open>The front\<close>

definition parseDomains :: "string \<Rightarrow> string list" where
  "parseDomains s = filter (\<lambda>d. d \<noteq> '''') (map trim_space (go_split (CHR '','') s))"

text \<open>An accept that fails: whether the error is a \<open>net.Error\<close> and temporary, and its text.\<close>

datatype 'c accepted = Accepted 'c | AcceptFailed "bool option" string

text \<open>The accept loop: the connections handled, and whether it has ended.\<close>

fun front_loop :: "'c accepted list \<Rightarrow> 'c list \<times> bool" where
  "front_loop [] = ([], False)"
| "front_loop (Accepted c # evs) = (case front_loop evs of (cs, e) \<Rightarrow> (c # cs, e))"
| "front_loop (AcceptFailed t msg # evs) =
     (if t = Some False \<or> go_contains msg ''use of closed network connection'' then ([], True) else front_loop evs)"

definition handleTLSConn :: "(string \<Rightarrow> err + wire) \<Rightarrow> string \<Rightarrow> bool list \<Rightarrow> wire \<Rightarrow> handled" where
  "handleTLSConn dial backend sched w =
     (case dial backend of
        Inl e \<Rightarrow> hang_up None w
      | Inr be \<Rightarrow>
          (let r = first_run sched \<lparr>rl_client = new_bufrd w, rl_target = be, rl_up = FromConn, rl_down_ended = False\<rparr>
           in if first_over r
              then \<lparr>h_client = wire_close (b_src (rl_client r)), h_target = Some (wire_close (rl_target r)),
                    h_dialled = None, h_returned = True\<rparr>
              else \<lparr>h_client = b_src (rl_client r), h_target = Some (rl_target r), h_dialled = None,
                    h_returned = False\<rparr>))"

section \<open>Tunnels of the front\<close>

interpretation front_race: race relay_up relay_down relay_run "relay_good U D t0 c0" relay_up_left relay_down_left
    first_run first_over
proof unfold_locales
  show "relay_good U D t0 c0 r \<Longrightarrow> first_over r \<longleftrightarrow> relay_up_left r = 0 \<or> relay_down_left r = 0" for r
    by (auto simp: first_over_def relay_up_left_def relay_down_left_def split: up_phase.splits)
qed simp_all

text \<open>Upward turns leave what the client was sent alone.\<close>

lemma relay_up_sent:
  assumes "relay_up r = Some r'" "rl_up r = FromConn"
  shows "tx (b_src (rl_client r')) = tx (b_src (rl_client r)) \<and> rl_up r' \<noteq> FromBuffer"
proof -
  from assms obtain x w t where c: "copy_round wire_read wire_write (b_src (rl_client r)) (rl_target r) 0 = Some (x, w, t)"
    and r': "rl_client r' = (rl_client r)\<lparr>b_src := w\<rparr>" "rl_up r' \<noteq> FromBuffer"
    by (auto simp: relay_up_def split: option.splits sum.splits)
  have "same_sent (b_src (rl_client r)) w \<and> (\<exists>y. tx t = tx (rl_target r) @ y)"
    by (rule copy_round_tx [OF c]) (rule wire_read_sent)
  with r' show ?thesis by (simp add: same_sent_def)
qed

lemma first_run_up_sent:
  "rl_up r \<noteq> FromBuffer \<Longrightarrow>
     tx (b_src (rl_client (first_run (replicate n True) r))) = tx (b_src (rl_client r))"
proof (induction n arbitrary: r)
  case 0
  then show ?case by simp
next
  case (Suc n)
  show ?case
  proof (cases "first_over r \<or> relay_up r = None")
    case True
    with Suc show ?thesis by auto
  next
    case False
    with Suc.prems obtain r' where r': "relay_up r = Some r'" "rl_up r = FromConn"
      by (cases "rl_up r") (auto simp: first_over_def)
    from relay_up_sent [OF this] Suc.IH [of r'] False r'(1) show ?thesis by simp
  qed
qed

text \<open>
  A tunnel of the TLS front ends with the first direction that ends. When both peers end what
  they send and one direction gets enough turns, the handler returns and closes both connections; one
  direction has been carried whole and the other up to some point, in order. So a client that ends
  its request may lose its answer: when the request is carried first, nothing of the answer arrives.
\<close>

theorem tls_front_first_end:
  assumes "dial backend = Inr (wire_of tsegs (Some EOF))"
    and "1 + length segs + length (concat segs) \<le> turns True sched \<or>
      1 + length tsegs + length (concat tsegs) \<le> turns False sched"
  shows "\<exists>c t. handleTLSConn dial backend sched (wire_of segs (Some EOF)) =
      \<lparr>h_client = c, h_target = Some t, h_dialled = None, h_returned = True\<rparr> \<and> closed c \<and> closed t \<and>
    (tx t = concat segs \<or> tx c = concat tsegs) \<and>
    (\<exists>y. concat segs = tx t @ y) \<and> (\<exists>z. concat tsegs = tx c @ z) \<and>
    (\<forall>n rest. sched = replicate n True @ rest \<and> 1 + length segs + length (concat segs) \<le> n \<longrightarrow> tx c = [])"
proof -
  let ?w = "wire_of segs (Some EOF)" and ?t = "wire_of tsegs (Some EOF)"
  let ?r0 = "\<lparr>rl_client = new_bufrd ?w, rl_target = ?t, rl_up = FromConn, rl_down_ended = False\<rparr>"
  define r where "r = first_run sched ?r0"
  have g0: "relay_good (concat segs) (concat tsegs) [] [] ?r0"
    by (simp add: relay_good_def ends_well_def wire_of_def new_bufrd_def)
  have l0: "relay_up_left ?r0 = 1 + length segs + length (concat segs)"
    "relay_down_left ?r0 = 1 + length tsegs + length (concat tsegs)"
    by (simp_all add: relay_up_left_def relay_down_left_def wire_of_def new_bufrd_def)
  from front_race.ends [OF g0] assms(2) l0 have g: "relay_good (concat segs) (concat tsegs) [] [] r" "first_over r"
    by (simp_all add: r_def)
  have "tx (b_src (rl_client r)) = []"
    if "sched = replicate n True @ rest" "1 + length segs + length (concat segs) \<le> n" for n rest
  proof -
    let ?s = "first_run (replicate n True) ?r0"
    have "turns True (replicate n True) = n" by (simp add: turns_def)
    then have "first_over ?s" using front_race.ends [OF g0, of "replicate n True"] that(2) l0 by simp
    then have "r = ?s" by (simp add: r_def that(1) front_race.race_append front_race.race_over)
    then show ?thesis using first_run_up_sent [of ?r0 n] by (simp add: new_bufrd_def wire_of_def)
  qed
  then have cut: "\<forall>n rest. sched = replicate n True @ rest \<and> 1 + length segs + length (concat segs) \<le> n \<longrightarrow>
      tx (b_src (rl_client r)) = []" by blast
  from g have sum: "tx (rl_target r) @ b_buf (rl_client r) @ concat (rx (b_src (rl_client r))) = concat segs"
    "tx (b_src (rl_client r)) @ concat (rx (rl_target r)) = concat tsegs"
    "tx (rl_target r) = concat segs \<or> tx (b_src (rl_client r)) = concat tsegs"
    by (auto simp: relay_good_def first_over_def)
  from g(2) assms(1) have h: "handleTLSConn dial backend sched ?w =
      \<lparr>h_client = wire_close (b_src (rl_client r)), h_target = Some (wire_close (rl_target r)),
       h_dialled = None, h_returned = True\<rparr>"
    by (simp add: handleTLSConn_def Let_def r_def [symmetric])
  show ?thesis
    by (rule exI [of _ "wire_close (b_src (rl_client r))"], rule exI [of _ "wire_close (rl_target r)"], intro conjI h)
      (use sum cut in \<open>auto simp: wire_close_def intro: sym\<close>)
qed

lemma tls_front_first_end_witness:
  "\<exists>c t. handleTLSConn (\<lambda>_. Inr (wire_of [''200 OK''] (Some EOF))) ''127.0.0.1:4001'' (replicate 9 True)
      (wire_of [''GET /''] (Some EOF)) = \<lparr>h_client = c, h_target = Some t, h_dialled = None, h_returned = True\<rparr> \<and>
    tx c = []"
proof -
  have "(1 :: nat) + length [''GET /''] + length (concat [''GET /'']) \<le> turns True (replicate 9 True) \<or>
      1 + length [''200 OK''] + length (concat [''200 OK'']) \<le> turns False (replicate 9 True)"
    by (simp add: turns_def)
  from tls_front_first_end [where dial = "\<lambda>_. Inr (wire_of [''200 OK''] (Some EOF))", OF refl this, of "''127.0.0.1:4001''"]
  obtain c t where "handleTLSConn (\<lambda>_. Inr (wire_of [''200 OK''] (Some EOF))) ''127.0.0.1:4001'' (replicate 9 True)
      (wire_of [''GET /''] (Some EOF)) = \<lparr>h_client = c, h_target = Some t, h_dialled = None, h_returned = True\<rparr>"
    and n: "\<forall>n rest. replicate 9 True = replicate n True @ rest \<and> 1 + length [''GET /''] + length (concat [''GET /'']) \<le> n \<longrightarrow> tx c = []"
    by blast
  moreover have "tx c = []" using n [rule_format, of 9 "[]"] by simp
  ultimately show ?thesis by blast
qed

end
