(* ===== verification/ClientApp.thy ===== *)
theory ClientApp
  imports HostNode
begin

text \<open>
  \<open>hypernet/apps/cli/client.go\<close>: the command line client. It finds the address of a node, by name if
  that is what it was given, dials through it, and either fetches a page or tunnels its standard
  input and output. Flags are given as package flag parses them; signals are not modelled.
\<close>

section \<open>Finding the node\<close>

definition isMultiaddr :: "string \<Rightarrow> bool" where
  "isMultiaddr s \<longleftrightarrow> has_prefix (trim_space s) ''/''"

definition clientConfigFromEnv :: "environ \<Rightarrow> node_config" where
  "clientConfigFromEnv env =
     zero_config\<lparr>KeyPath := ''client.key'', BootstrapPeers := split_list (getenv env ''BOOTSTRAP_PEERS'')\<rparr>"

text \<open>\<open>Usage\<close> is exit code 2, \<open>Fatal\<close> a message of \<open>log.Fatalf\<close>, \<open>Panic\<close> an index out of range.\<close>

datatype cli_exit = Usage | Fatal err | Panic

text \<open>The address to dial: a name is resolved by a fresh name system, and the first address is taken.\<close>

definition node_address :: "dns_lib \<Rightarrow> dns_env \<Rightarrow> bool \<Rightarrow> string \<Rightarrow> cli_exit + string" where
  "node_address dl ev dht_on node =
     (if isMultiaddr node \<or> \<not> dht_on then Inr node
      else case fst (Resolve dl False ev node (NewNameSystem True True)) of
        Inl e \<Rightarrow> Inl (Fatal (wrap_err (''dns resolve '' @ go_quote node) e))
      | Inr [] \<Rightarrow> Inl Panic
      | Inr (a # _) \<Rightarrow> Inr a)"

definition runResolve ::
  "node_lib \<Rightarrow> dns_lib \<Rightarrow> dns_env \<Rightarrow> environ \<Rightarrow> flags \<Rightarrow> string \<Rightarrow> err + string list"
where
  "runResolve nlib dl ev env fl name =
     (let cfg = (case Load env fl of Inl _ \<Rightarrow> zero_config | Inr c \<Rightarrow> c)
                  \<lparr>Port := 0, KeyPath := ''client.key'', EnableDHT := True, DHTMode := ''client''\<rparr>
      in case fst (New nlib cfg) of
           Inl e \<Rightarrow> Inl (wrap_err ''create node'' e)
         | Inr n \<Rightarrow>
             if nd_dht n = None then Inl (Err ''DHT not available'')
             else case fst (Resolve dl False ev name (NewNameSystem True True)) of
               Inl e \<Rightarrow> Inl (wrap_err (''resolve '' @ go_quote name) e)
             | Inr addrs \<Rightarrow>
                 if addrs = [] then Inl (Err (''resolve '' @ go_quote name @ '': no addresses'')) else Inr addrs)"

section \<open>Dialling\<close>

record cli_flags =
  cf_node :: string
  cf_host :: string
  cf_port :: int
  cf_udp :: bool
  cf_get :: bool

definition client_dial :: "(nat \<Rightarrow> net) \<Rightarrow> cli_flags \<Rightarrow> ProxyClient \<Rightarrow> dial option" where
  "client_dial nts fl pc =
     (if cf_udp fl then DialUDP pc (nts 0) (cf_host fl) (cf_port fl)
      else DialTCPWithFallback pc nts (cf_host fl) (cf_port fl) (2 * Second))"

definition msg_tcp_only :: string where
  "msg_tcp_only =
     ''-http-get '' @ [CHR 0xD0, CHR 0xBF, CHR 0xD0, CHR 0xBE, CHR 0xD0, CHR 0xB4, CHR 0xD0, CHR
     0xB4, CHR 0xD0, CHR 0xB5, CHR 0xD1, CHR 0x80, CHR 0xD0, CHR 0xB6, CHR 0xD0, CHR 0xB8, CHR 0xD0,
     CHR 0xB2, CHR 0xD0, CHR 0xB0, CHR 0xD0, CHR 0xB5, CHR 0xD1, CHR 0x82, CHR 0xD1, CHR 0x81, CHR
     0xD1, CHR 0x8F] @ '' '' @ [CHR 0xD1, CHR 0x82, CHR 0xD0, CHR 0xBE, CHR 0xD0, CHR 0xBB, CHR 0xD1,
     CHR 0x8C, CHR 0xD0, CHR 0xBA, CHR 0xD0, CHR 0xBE] @ '' '' @ [CHR 0xD0, CHR 0xB4, CHR 0xD0, CHR
     0xBB, CHR 0xD1, CHR 0x8F] @ '' TCP''"

text \<open>
  \<open>Main\<close> up to the open stream: how it exits, or the address it dialled with the result of the dial.
  \<open>parse\<close> finds the peer an address names, and \<open>plain_only\<close> is the mode of the client's
  protocols; None means that the dial does not return.
\<close>

definition client_main ::
  "node_lib \<Rightarrow> dns_lib \<Rightarrow> dns_env \<Rightarrow> peer_parser \<Rightarrow> bool \<Rightarrow> (nat \<Rightarrow> net) \<Rightarrow>
     environ \<Rightarrow> cli_flags \<Rightarrow> (cli_exit + string \<times> dial) option"
where
  "client_main nlib dl ev parse plain_only nts env fl =
     (if cf_node fl = '''' \<or> cf_host fl = '''' \<or> cf_port fl = 0 then Some (Inl Usage)
      else
        let needDHT = \<not> isMultiaddr (cf_node fl);
            cfg = (if needDHT then (clientConfigFromEnv env)\<lparr>EnableDHT := True, DHTMode := ''client''\<rparr>
                   else clientConfigFromEnv env)
        in case fst (New nlib cfg) of
             Inl e \<Rightarrow> Some (Inl (Fatal (wrap_err ''create node'' e)))
           | Inr n \<Rightarrow>
               (case node_address dl ev (nd_dht n \<noteq> None) (cf_node fl) of
                  Inl x \<Rightarrow> Some (Inl x)
                | Inr addr \<Rightarrow>
                    (case NewProxyClient parse addr plain_only
                            (getenv env ''HYPERNET_VLESS_TOKEN'') of
                       Inl e \<Rightarrow> Some (Inl (Fatal (wrap_err ''new proxy client'' e)))
                     | Inr pc \<Rightarrow>
                         let utls = getenv env ''HYPERNET_USE_UTLS'';
                             pc = (if utls = ''1'' \<or> to_lower utls = ''true'' then pc\<lparr>cl_useUTLS := True\<rparr> else pc)
                         in if cf_udp fl \<and> cf_get fl
                            then Some (Inl (Fatal (Err msg_tcp_only)))
                            else case client_dial nts fl pc of
                              None \<Rightarrow> None
                            | Some d \<Rightarrow>
                                (case d_err d of
                                   Some e \<Rightarrow> Some (Inl (Fatal (wrap_err ''dial via proxy'' e)))
                                 | None \<Rightarrow> Some (Inr (addr, d))))))"

text \<open>
  The first argument decides: \<open>resolve\<close> with a name prints its addresses, everything else is a dial.
\<close>

definition cli_entry ::
  "string list \<Rightarrow> (string \<Rightarrow> err + string list) \<Rightarrow> (cli_exit + 'r) option \<Rightarrow> (cli_exit + (string list + 'r)) option"
where
  "cli_entry args resolve dialled =
     (if 2 \<le> length args \<and> args ! 1 = ''resolve''
      then (if length args < 3 then Some (Inl Usage)
            else case resolve (args ! 2) of
              Inl e \<Rightarrow> Some (Inl (Fatal (wrap_err ''resolve'' e)))
            | Inr addrs \<Rightarrow> Some (Inr (Inl addrs)))
      else map_option (\<lambda>x. case x of Inl e \<Rightarrow> Inl e | Inr r \<Rightarrow> Inr (Inr r)) dialled)"

section \<open>Using the stream\<close>

definition http_request :: "string \<Rightarrow> bytes" where
  "http_request host =
     ''GET / HTTP/1.0'' @ crlf @ ''Host: '' @ host @ crlf @ ''Connection: close'' @ crlf @ crlf"

text \<open>\<open>-http-get\<close>: the request, then everything that comes, to the standard output \<open>out\<close>.\<close>

definition http_get :: "'s rwc \<Rightarrow> 's \<Rightarrow> string \<Rightarrow> wire \<Rightarrow> (err option \<times> 's \<times> wire) option" where
  "http_get io s host out =
     (case write_string io s (http_request host) of
        (Some e, s1) \<Rightarrow> Some (Some (wrap_err ''write http request'' e), s1, out)
      | (None, s1) \<Rightarrow>
          (case io_copy (s_read io) wire_write s1 out 0 of
             None \<Rightarrow> None
           | Some (_, Some e, s2, out1) \<Rightarrow> Some (Some (wrap_err ''read http response'' e), s2, out1)
           | Some (_, None, s2, out1) \<Rightarrow> Some (None, s2, out1)))"

text \<open>
  The tunnel: the goroutine that copies the standard input to the stream and then closes it, and the
  one that copies the stream to the standard output, at whose end the client ends.
\<close>

record 's tunnel =
  tn_in :: wire
  tn_stream :: 's
  tn_out :: wire
  tn_in_ended :: bool
  tn_over :: bool

definition tunnel_up :: "'s rwc \<Rightarrow> 's tunnel \<Rightarrow> 's tunnel option" where
  "tunnel_up io t =
     (if tn_in_ended t then None
      else case copy_round wire_read (s_write io) (tn_in t) (tn_stream t) 0 of
        None \<Rightarrow> None
      | Some (Inr _, i, s) \<Rightarrow> Some (t\<lparr>tn_in := i, tn_stream := s\<rparr>)
      | Some (Inl _, i, s) \<Rightarrow> Some (t\<lparr>tn_in := i, tn_stream := s_close io s, tn_in_ended := True\<rparr>))"

definition tunnel_down :: "'s rwc \<Rightarrow> 's tunnel \<Rightarrow> 's tunnel option" where
  "tunnel_down io t =
     (if tn_over t then None
      else case copy_round (s_read io) wire_write (tn_stream t) (tn_out t) 0 of
        None \<Rightarrow> None
      | Some (x, s, out) \<Rightarrow>
          Some (t\<lparr>tn_stream := s, tn_out := out, tn_over := (case x of Inr _ \<Rightarrow> False | Inl _ \<Rightarrow> True)\<rparr>))"

fun tunnel_run :: "'s rwc \<Rightarrow> bool list \<Rightarrow> 's tunnel \<Rightarrow> 's tunnel" where
  "tunnel_run io [] t = t"
| "tunnel_run io (up # sched) t =
     (if tn_over t then t
      else tunnel_run io sched (case (if up then tunnel_up io t else tunnel_down io t) of None \<Rightarrow> t | Some t' \<Rightarrow> t'))"

section \<open>Properties\<close>

lemma client_node_has_dht:
  "fst (New nlib (cfg\<lparr>EnableDHT := True, DHTMode := m\<rparr>)) = Inr n \<Longrightarrow> nd_dht n \<noteq> None"
  by (auto simp: New_def Let_def split: option.splits prod.splits if_splits)

text \<open>A name that resolves has an address, so taking the first never panics.\<close>

lemma resolved_nonempty: "fst (Resolve dl False ev node (NewNameSystem True True)) \<noteq> Inr []"
  by (auto simp: Resolve_def resolve_dht_def NewNameSystem_def Let_def split: sum.splits option.splits)

lemma node_address_no_panic: "node_address dl ev dht_on node \<noteq> Inl Panic"
  using resolved_nonempty [of dl ev node] by (auto simp: node_address_def split: sum.splits list.splits)

text \<open>
  C15: a client that is given a registered name reaches the node. As long as the search returns the
  record that the node published and nothing newer that is authentic, within its time to live, the
  client turns its DHT on, resolves the name to the first address the node registered and dials that
  one; it ends with the error of that dial or with its stream, and never panics.
\<close>

theorem client_reaches_registered_node:
  assumes "Register dl ns1 ev1 name1 (a # as) ttl = (None, Some (k, r))"
    and "published_by dl priv pub ev1 (a # as) ttl r"
    and "unix (t_now ev) \<le> unix (t_now ev1) + ttl_seconds ttl"
    and "NormalizeName (cf_node fl) = Inr norm" "d_search ev (DHTKey norm) = Inr vals"
    and "newest_in dl (t_now ev) r vals"
    and "cf_node fl \<noteq> ''''" "cf_host fl \<noteq> ''''" "cf_port fl \<noteq> 0" "\<not> (cf_udp fl \<and> cf_get fl)"
    and "\<not> isMultiaddr (cf_node fl)" "parse a = Inr (Inr info)"
    and "fst (New nlib ((clientConfigFromEnv env)\<lparr>EnableDHT := True, DHTMode := ''client''\<rparr>)) = Inr n"
  shows "\<exists>pc utls. NewProxyClient parse a plain_only (getenv env ''HYPERNET_VLESS_TOKEN'') = Inr pc \<and>
    dial_target (pc\<lparr>cl_useUTLS := utls\<rparr>) = info \<and>
    client_main nlib dl ev parse plain_only nts env fl =
      map_option (\<lambda>d. case d_err d of None \<Rightarrow> Inr (a, d) | Some e \<Rightarrow> Inl (Fatal (wrap_err ''dial via proxy'' e)))
        (client_dial nts fl (pc\<lparr>cl_useUTLS := utls\<rparr>))"
proof -
  have "fst (Resolve dl False ev (cf_node fl) (NewNameSystem True True)) = Inr (a # as)"
    using registered_resolves [OF assms(1-3) _ assms(4) _ assms(5,6), of "NewNameSystem True True" False]
    by (simp add: NewNameSystem_def)
  with assms(11) have addr: "node_address dl ev (nd_dht n \<noteq> None) (cf_node fl) = Inr a"
    using client_node_has_dht [OF assms(13)] by (simp add: node_address_def)
  obtain pc where pc: "NewProxyClient parse a plain_only (getenv env ''HYPERNET_VLESS_TOKEN'') = Inr pc" "cl_useUTLS pc = False"
    "dial_target pc = info"
    using assms(12) by (simp add: NewProxyClient_def Let_def dial_target_def)
  let ?u = "getenv env ''HYPERNET_USE_UTLS'' = ''1'' \<or> to_lower (getenv env ''HYPERNET_USE_UTLS'') = ''true''"
  have u: "(if ?u then pc\<lparr>cl_useUTLS := True\<rparr> else pc) = pc\<lparr>cl_useUTLS := ?u\<rparr>" using pc(2) by auto
  have "client_main nlib dl ev parse plain_only nts env fl =
    (case client_dial nts fl (if ?u then pc\<lparr>cl_useUTLS := True\<rparr> else pc) of None \<Rightarrow> None
     | Some d \<Rightarrow> (case d_err d of Some e \<Rightarrow> Some (Inl (Fatal (wrap_err ''dial via proxy'' e))) | None \<Rightarrow> Some (Inr (a, d))))"
    using assms(7-13) addr pc(1) by (simp only: client_main_def Let_def) simp
  then show ?thesis unfolding u using pc(1,3)
    by (intro exI [of _ pc] exI [of _ ?u]) (auto split: option.splits)
qed

text \<open>Everything a wire brings is copied.\<close>

lemma io_copy_ends_well:
  assumes "ends_well s" "ends_well d"
  shows "\<exists>k s'. io_copy wire_read wire_write s d n = Some (k, None, s', d\<lparr>tx := tx d @ concat (rx s)\<rparr>) \<and> same_sent s s'"
  using assms
proof (induction "length (rx s) + length (concat (rx s))" arbitrary: s d n rule: less_induct)
  case less
  from copy_round_ends_well [OF less.prems, of n] show ?case
  proof (elim disjE conjE exE)
    assume "rx s = []" "copy_round wire_read wire_write s d n = Some (Inl (n, None), s, d)"
    then show ?thesis by (subst io_copy.simps) (simp add: same_sent_def)
  next
    fix bs segs
    assume h: "copy_round wire_read wire_write s d n = Some (Inr (n + length bs), s\<lparr>rx := segs\<rparr>, d\<lparr>tx := tx d @ bs\<rparr>)"
      "concat (rx s) = bs @ concat segs"
      "length segs + length (concat segs) < length (rx s) + length (concat (rx s))"
    with less.hyps [of "s\<lparr>rx := segs\<rparr>" "d\<lparr>tx := tx d @ bs\<rparr>" "n + length bs"] less.prems show ?thesis
      by (subst io_copy.simps) (auto simp: same_sent_def)
  qed
qed

text \<open>
  Fetching a page prints it whole. Over a stream that takes the request and ends behind the
  answer, \<open>-http-get\<close> sends exactly the request for the host and writes exactly the answer to the
  standard output, whatever segments it comes in.
\<close>

theorem http_get_prints_answer:
  assumes "ends_well w" "ends_well out"
  shows "\<exists>w'. http_get wire_rwc w host out = Some (None, w', out\<lparr>tx := tx out @ concat (rx w)\<rparr>) \<and>
    tx w' = tx w @ http_request host"
proof -
  let ?w = "w\<lparr>tx := tx w @ http_request host\<rparr>"
  have "ends_well ?w" using assms(1) by simp
  from io_copy_ends_well [OF this assms(2), of 0] obtain k s' where
    c: "io_copy wire_read wire_write ?w out 0 = Some (k, None, s', out\<lparr>tx := tx out @ concat (rx w)\<rparr>)" "same_sent ?w s'" by auto
  have "write_string wire_rwc w (http_request host) = (None, ?w)"
    by (simp add: write_string_wire ends_well_write [OF assms(1)])
  with c show ?thesis by (simp add: http_get_def wire_rwc_def same_sent_def)
qed

lemma http_get_prints_answer_witness:
  "\<exists>w'. http_get wire_rwc (wire_of [''HTTP/1.0 '', ''200 OK''] (Some EOF)) ''example.com'' (wire_of [] (Some EOF)) =
     Some (None, w', (wire_of [] (Some EOF))\<lparr>tx := ''HTTP/1.0 200 OK''\<rparr>)"
  using http_get_prints_answer [of "wire_of [''HTTP/1.0 '', ''200 OK''] (Some EOF)" "wire_of [] (Some EOF)" "''example.com''"]
  by (auto simp: ends_well_def wire_of_def)

text \<open>The upward turns carry the standard input, close the stream behind it, and leave the rest alone.\<close>

lemma tunnel_ups_closed:
  "tn_in_ended t \<Longrightarrow> tunnel_run io (replicate n True) t = t"
  by (induction n) (auto simp: tunnel_up_def)

lemma tunnel_ups:
  assumes "ends_well (tn_in t)" "ends_well (tn_stream t)" "\<not> tn_in_ended t" "\<not> tn_over t"
    and "1 + length (rx (tn_in t)) + length (concat (rx (tn_in t))) \<le> n"
  shows "\<exists>i. tunnel_run wire_rwc (replicate n True) t =
    t\<lparr>tn_in := i, tn_stream := wire_close ((tn_stream t)\<lparr>tx := tx (tn_stream t) @ concat (rx (tn_in t))\<rparr>),
      tn_in_ended := True\<rparr>"
  using assms
proof (induction n arbitrary: t)
  case 0
  then show ?case by simp
next
  case (Suc n)
  from copy_round_ends_well [OF Suc.prems(1,2), of 0] show ?case
  proof (elim disjE conjE exE)
    assume h: "rx (tn_in t) = []" "copy_round wire_read wire_write (tn_in t) (tn_stream t) 0 = Some (Inl (0, None), tn_in t, tn_stream t)"
    then have "tunnel_up wire_rwc t = Some (t\<lparr>tn_in := tn_in t, tn_stream := wire_close (tn_stream t), tn_in_ended := True\<rparr>)"
      using Suc.prems(3) by (simp add: tunnel_up_def wire_rwc_def)
    then show ?thesis using Suc.prems(4) h(1)
      by (intro exI [of _ "tn_in t"]) (simp add: tunnel_ups_closed)
  next
    fix bs segs
    assume h: "copy_round wire_read wire_write (tn_in t) (tn_stream t) 0 =
        Some (Inr (0 + length bs), (tn_in t)\<lparr>rx := segs\<rparr>, (tn_stream t)\<lparr>tx := tx (tn_stream t) @ bs\<rparr>)"
      "concat (rx (tn_in t)) = bs @ concat segs"
      "length segs + length (concat segs) < length (rx (tn_in t)) + length (concat (rx (tn_in t)))"
    let ?t = "t\<lparr>tn_in := (tn_in t)\<lparr>rx := segs\<rparr>, tn_stream := (tn_stream t)\<lparr>tx := tx (tn_stream t) @ bs\<rparr>\<rparr>"
    have "tunnel_up wire_rwc t = Some ?t"
      using Suc.prems(3) h(1) by (simp add: tunnel_up_def wire_rwc_def)
    moreover obtain i where "tunnel_run wire_rwc (replicate n True) ?t =
      ?t\<lparr>tn_in := i, tn_stream := wire_close ((tn_stream ?t)\<lparr>tx := tx (tn_stream ?t) @ concat (rx (tn_in ?t))\<rparr>),
        tn_in_ended := True\<rparr>"
      using Suc.IH [of ?t] Suc.prems h(3) by auto
    ultimately show ?thesis using Suc.prems(4) h(2) by (intro exI [of _ i]) simp
  qed
qed

lemma tunnel_run_append: "tunnel_run io (xs @ ys) t = tunnel_run io ys (tunnel_run io xs t)"
proof (induction xs arbitrary: t)
  case Nil
  then show ?case by simp
next
  case (Cons x xs)
  have "tn_over t \<Longrightarrow> tunnel_run io ys t = t" by (cases ys) simp_all
  with Cons show ?case by simp
qed

text \<open>
  Input that ends may cost the answer. The client closes the stream when its standard input ends;
  when that comes before the answer is read, it ends with nothing on its standard output although the
  stream has the whole answer, and all of the input was sent.
\<close>

theorem client_tunnel_cuts_answer:
  assumes "ends_well i" "ends_well w"
    and "t = \<lparr>tn_in = i, tn_stream = w, tn_out = out, tn_in_ended = False, tn_over = False\<rparr>"
    and "1 + length (rx i) + length (concat (rx i)) \<le> n"
  shows "case tunnel_run wire_rwc (replicate n True @ False # sched) t of
    r \<Rightarrow> tn_over r \<and> tn_out r = out \<and> rx (tn_stream r) = rx w \<and> tx (tn_stream r) = tx w @ concat (rx i)"
proof -
  from tunnel_ups [of t n] assms obtain i' where u: "tunnel_run wire_rwc (replicate n True) t =
      t\<lparr>tn_in := i', tn_stream := wire_close (w\<lparr>tx := tx w @ concat (rx i)\<rparr>), tn_in_ended := True\<rparr>" by auto
  let ?t = "t\<lparr>tn_in := i', tn_stream := wire_close (w\<lparr>tx := tx w @ concat (rx i)\<rparr>), tn_in_ended := True\<rparr>"
  have "err_closed_stream \<noteq> EOF" by (simp add: err_closed_stream_def)
  then have "\<exists>x. copy_round wire_read wire_write (tn_stream ?t) out 0 = Some (Inl x, tn_stream ?t, out)"
    by (auto simp: copy_round_def wire_read_def wire_close_def split: err.split)
  then have "tunnel_down wire_rwc ?t = Some (?t\<lparr>tn_over := True\<rparr>)"
    using assms(3) by (auto simp: tunnel_down_def wire_rwc_def)
  moreover have "tunnel_run wire_rwc sched (?t\<lparr>tn_over := True\<rparr>) = ?t\<lparr>tn_over := True\<rparr>"
    by (cases sched) simp_all
  ultimately show ?thesis
    unfolding tunnel_run_append u using assms(3) by (simp add: wire_close_def)
qed

lemma client_tunnel_cuts_answer_witness:
  "\<exists>r. r = tunnel_run wire_rwc (replicate 9 True @ False # [False]) \<lparr>tn_in = wire_of [''GET /''] (Some EOF),
      tn_stream = wire_of [''200 OK''] (Some EOF), tn_out = wire_of [] None, tn_in_ended = False, tn_over = False\<rparr> \<and>
    tn_over r \<and> tx (tn_out r) = [] \<and> tx (tn_stream r) = ''GET /''"
  using client_tunnel_cuts_answer [of "wire_of [''GET /''] (Some EOF)" "wire_of [''200 OK''] (Some EOF)",
      OF _ _ refl, of 9 "[False]" "wire_of [] None"]
  by (auto simp: ends_well_def wire_of_def)

section \<open>Witness\<close>

definition wit_cli :: cli_flags where
  "wit_cli = \<lparr>cf_node = ''other'', cf_host = ''example.com'', cf_port = 80, cf_udp = False, cf_get = True\<rparr>"

lemma client_reaches_registered_node_witness:
  "\<exists>nts pc. client_main wit_node_lib wit_lib (wit_dns_env 1500 [''1'']) (\<lambda>_. Inr (Inr wit_peer)) True nts (\<lambda>_. None) wit_cli =
     map_option (\<lambda>d. case d_err d of None \<Rightarrow> Inr (''/ip4/1.2.3.4'', d) | Some e \<Rightarrow> Inl (Fatal (wrap_err ''dial via proxy'' e)))
       (client_dial nts wit_cli pc)"
proof -
  have n: "newest_in wit_lib (t_now (wit_dns_env 1500 [''1''])) wit_rec [''1'']"
    using wit_usable by (simp add: newest_in_def wit_dns_env_def) (simp add: wit_lib_def wit_rec_def)
  have trim: "trim_space [] = []" by code_simp
  obtain nd where nd: "fst (New wit_node_lib ((clientConfigFromEnv (\<lambda>_. None))\<lparr>EnableDHT := True, DHTMode := ''client''\<rparr>)) = Inr nd"
    by (simp add: New_def Let_def wit_node_lib_def clientConfigFromEnv_def zero_config_def getenv_def split_list_def trim)
  have m: "\<not> isMultiaddr (cf_node wit_cli)"
    by (simp add: isMultiaddr_def wit_cli_def has_prefix_def) code_simp
  have "\<exists>pc utls. NewProxyClient (\<lambda>_. Inr (Inr wit_peer)) ''/ip4/1.2.3.4'' True (getenv (\<lambda>_. None) ''HYPERNET_VLESS_TOKEN'') = Inr pc \<and>
    dial_target (pc\<lparr>cl_useUTLS := utls\<rparr>) = wit_peer \<and>
    client_main wit_node_lib wit_lib (wit_dns_env 1500 [''1'']) (\<lambda>_. Inr (Inr wit_peer)) True (\<lambda>_. wit_net (wire_of [] None)) (\<lambda>_. None) wit_cli =
      map_option (\<lambda>d. case d_err d of None \<Rightarrow> Inr (''/ip4/1.2.3.4'', d) | Some e \<Rightarrow> Inl (Fatal (wrap_err ''dial via proxy'' e)))
        (client_dial (\<lambda>_. wit_net (wire_of [] None)) wit_cli (pc\<lparr>cl_useUTLS := utls\<rparr>))"
    by (rule client_reaches_registered_node [OF wit_register wit_published _ _ _ n _ _ _ _ m _ nd])
      (use wit_names(2) in \<open>auto simp: wit_dns_env_def unix_def Second_def ttl_seconds_def wit_cli_def\<close>)
  then show ?thesis by blast
qed

end
