(* ===== verification/Listeners.thy ===== *)
theory Listeners
  imports Inbound Transport GoDuration "HOL-Library.Multiset"
begin

text \<open>
  Opening and accepting connections: the accept loops of the inbound proxies (\<open>ListenAndServe\<close> in
  \<open>socks5.go\<close>, \<open>http_proxy.go\<close> and \<open>dokodemo.go\<close>), and the dialling and accepting of the transports.
  The network, TLS, HTTP/2, WebSocket and KCP libraries are parameters.
\<close>

section \<open>The accept loops of the inbound proxies\<close>

text \<open>What happens at a listener: a connection, an error of \<open>Accept\<close>, or that its context is cancelled.\<close>

datatype 'c arrival = Arrives 'c | AcceptError err | Cancelled

definition ctx_canceled :: err where
  "ctx_canceled = Err ''context canceled''"

text \<open>
  \<open>closes\<close> says whether cancelling closes the listener, which makes the next \<open>Accept\<close> fail. The result is the connections handed to the
  handler, and the error that ends the loop; None is a loop that is still waiting.
\<close>

fun serve :: "bool \<Rightarrow> bool \<Rightarrow> 'c arrival list \<Rightarrow> 'c list \<times> err option" where
  "serve closes cancelled [] = ([], None)"
| "serve closes cancelled (Arrives c # evs) = (case serve closes cancelled evs of (cs, r) \<Rightarrow> (c # cs, r))"
| "serve closes cancelled (AcceptError e # evs) =
     (if cancelled then ([], Some ctx_canceled) else serve closes cancelled evs)"
| "serve closes cancelled (Cancelled # evs) =
     (if closes then ([], Some ctx_canceled) else serve closes True evs)"

definition listen_and_serve ::
  "bool \<Rightarrow> string \<Rightarrow> (string \<Rightarrow> err option) \<Rightarrow> string \<Rightarrow> 'c arrival list \<Rightarrow> 'c list \<times> err option"
where
  "listen_and_serve closes name listen addr evs =
     (case listen addr of
        Some e \<Rightarrow> ([], Some (wrap_err (name @ '' listen '' @ addr) e))
      | None \<Rightarrow> serve closes False evs)"

text \<open>Only the last two start the goroutine that closes the listener.\<close>

definition socks5_serve :: "(string \<Rightarrow> err option) \<Rightarrow> string \<Rightarrow> 'c arrival list \<Rightarrow> 'c list \<times> err option" where
  "socks5_serve = listen_and_serve False ''socks5''"

definition http_serve :: "(string \<Rightarrow> err option) \<Rightarrow> string \<Rightarrow> 'c arrival list \<Rightarrow> 'c list \<times> err option" where
  "http_serve = listen_and_serve True ''http proxy''"

definition dokodemo_serve :: "(string \<Rightarrow> err option) \<Rightarrow> string \<Rightarrow> 'c arrival list \<Rightarrow> 'c list \<times> err option" where
  "dokodemo_serve = listen_and_serve True ''dokodemo''"

section \<open>Dialling\<close>

text \<open>The deadline of a TCP dial: that of the context, or thirty seconds from now.\<close>

definition dial_deadline :: "int option \<Rightarrow> int \<Rightarrow> int" where
  "dial_deadline ctx now = (case ctx of Some d \<Rightarrow> d | None \<Rightarrow> now + 30 * Second)"

definition tcp_dial ::
  "(string \<Rightarrow> string \<Rightarrow> int \<Rightarrow> err + 'c) \<Rightarrow> int option \<Rightarrow> int \<Rightarrow> multiaddr option \<Rightarrow> err + 'c"
where
  "tcp_dial dial ctx now ma =
     (case parseTCPMultiaddr ma of
        Inl e \<Rightarrow> Inl e
      | Inr (network, host, port) \<Rightarrow> dial network (join_host_port host port) (dial_deadline ctx now))"

definition tcp_listen :: "(string \<Rightarrow> string \<Rightarrow> err + 'l) \<Rightarrow> multiaddr option \<Rightarrow> err + 'l" where
  "tcp_listen listen ma =
     (case parseTCPMultiaddr ma of
        Inl e \<Rightarrow> Inl e
      | Inr (network, host, port) \<Rightarrow> listen network (join_host_port host port))"

definition kcp_dial ::
  "(string \<Rightarrow> err + 'c) \<Rightarrow> (int \<Rightarrow> 'c \<Rightarrow> 'c) \<Rightarrow> int option \<Rightarrow> multiaddr option \<Rightarrow> err + 'c"
where
  "kcp_dial dial set_deadline ctx ma =
     (case parseKCPMultiaddr ma of
        Inl e \<Rightarrow> Inl e
      | Inr (host, port) \<Rightarrow>
          (case dial (join_host_port host port) of
             Inl e \<Rightarrow> Inl (wrap_err ''kcp dial'' e)
           | Inr c \<Rightarrow> Inr (case ctx of Some d \<Rightarrow> set_deadline d c | None \<Rightarrow> c)))"

definition kcp_listen :: "(string \<Rightarrow> err + 'l) \<Rightarrow> multiaddr option \<Rightarrow> err + 'l" where
  "kcp_listen listen ma =
     (case parseKCPMultiaddr ma of
        Inl e \<Rightarrow> Inl e
      | Inr (host, port) \<Rightarrow>
          (case listen (join_host_port host port) of Inl e \<Rightarrow> Inl (wrap_err ''kcp listen'' e) | Inr l \<Rightarrow> Inr l))"

definition unix_open :: "(string \<Rightarrow> err + 'c) \<Rightarrow> multiaddr option \<Rightarrow> err + 'c" where
  "unix_open f ma = (case parseUnixMultiaddr ma of Inl e \<Rightarrow> Inl e | Inr path \<Rightarrow> f path)"

text \<open>The result of a dial, and what was opened and closed on the way.\<close>

datatype handle = RawConn | ReqPipe | RespBody

record 'c dialled =
  dl_result :: "err + 'c"
  dl_opened :: "handle list"
  dl_closed :: "handle list"

text \<open>
  The WebSocket dial: \<open>raw\<close> is the TCP or TLS connection, \<open>req\<close> the error of building the request,
  \<open>shake\<close> the result of the handshake at a URL.
\<close>

definition ws_dial ::
  "bool \<Rightarrow> (string \<Rightarrow> err option) \<Rightarrow> err option \<Rightarrow> (string \<Rightarrow> err + 'c) \<Rightarrow> multiaddr option \<Rightarrow> 'c dialled"
where
  "ws_dial secure raw req shake ma =
     (case parseWSMultiaddr ma of
        Inl e \<Rightarrow> \<lparr>dl_result = Inl e, dl_opened = [], dl_closed = []\<rparr>
      | Inr (host, port) \<Rightarrow>
          let addrStr = join_host_port host port
          in case raw addrStr of
               Some e \<Rightarrow> \<lparr>dl_result = Inl e, dl_opened = [], dl_closed = []\<rparr>
             | None \<Rightarrow>
                 (case req of
                    Some e \<Rightarrow> \<lparr>dl_result = Inl e, dl_opened = [RawConn], dl_closed = [RawConn]\<rparr>
                  | None \<Rightarrow>
                      (case shake ((if secure then ''wss'' else ''ws'') @ ''://'' @ addrStr @ ''/'') of
                         Inl e \<Rightarrow> \<lparr>dl_result = Inl (wrap_err ''websocket handshake'' e),
                                   dl_opened = [RawConn], dl_closed = [RawConn]\<rparr>
                       | Inr c \<Rightarrow> \<lparr>dl_result = Inr c, dl_opened = [RawConn], dl_closed = []\<rparr>)))"

text \<open>How the wait for the answer of a gRPC dial ends: an answer, an error, or the context.\<close>

datatype 'c grpc_outcome = Answer int string 'c | RoundTripError err | CtxDone err

definition grpc_dial ::
  "(string \<Rightarrow> err option) \<Rightarrow> (string \<Rightarrow> 'c grpc_outcome) \<Rightarrow> multiaddr option \<Rightarrow> 'c dialled"
where
  "grpc_dial req outcome ma =
     (case parseGRPCMultiaddr ma of
        Inl e \<Rightarrow> \<lparr>dl_result = Inl e, dl_opened = [], dl_closed = []\<rparr>
      | Inr (host, port) \<Rightarrow>
          let url = ''http://'' @ join_host_port host port @ ''/tunnel/stream''
          in case req url of
               Some e \<Rightarrow> \<lparr>dl_result = Inl e, dl_opened = [ReqPipe], dl_closed = []\<rparr>
             | None \<Rightarrow>
                 (case outcome url of
                    RoundTripError e \<Rightarrow>
                      \<lparr>dl_result = Inl (wrap_err ''grpc dial'' e), dl_opened = [ReqPipe], dl_closed = [ReqPipe]\<rparr>
                  | CtxDone e \<Rightarrow> \<lparr>dl_result = Inl e, dl_opened = [ReqPipe], dl_closed = [ReqPipe]\<rparr>
                  | Answer code status c \<Rightarrow>
                      if code \<noteq> 200
                      then \<lparr>dl_result = Inl (Err (''grpc: status '' @ status)),
                            dl_opened = [ReqPipe, RespBody], dl_closed = [RespBody, ReqPipe]\<rparr>
                      else \<lparr>dl_result = Inr c, dl_opened = [ReqPipe, RespBody], dl_closed = []\<rparr>))"

section \<open>Accepting\<close>

text \<open>\<open>Accept\<close> of the WebSocket listener: the TCP connection, reading its request, and the upgrade.\<close>

definition ws_accept :: "err option \<Rightarrow> err option \<Rightarrow> err + 'c \<Rightarrow> 'c dialled" where
  "ws_accept conn req upgrade =
     (case conn of
        Some e \<Rightarrow> \<lparr>dl_result = Inl e, dl_opened = [], dl_closed = []\<rparr>
      | None \<Rightarrow>
          (case req of
             Some e \<Rightarrow> \<lparr>dl_result = Inl e, dl_opened = [RawConn], dl_closed = [RawConn]\<rparr>
           | None \<Rightarrow>
               (case upgrade of
                  Inl e \<Rightarrow> \<lparr>dl_result = Inl e, dl_opened = [RawConn], dl_closed = [RawConn]\<rparr>
                | Inr c \<Rightarrow> \<lparr>dl_result = Inr c, dl_opened = [RawConn], dl_closed = []\<rparr>)))"

text \<open>The gRPC listener: its channel of capacity one, and whether the TCP listener is closed.\<close>

record 'c grpc_listener =
  gl_chan :: "'c list"
  gl_closed :: bool

text \<open>A request, and the status it is answered with.\<close>

definition grpc_arrive :: "string \<Rightarrow> 'c \<Rightarrow> 'c grpc_listener \<Rightarrow> int \<times> 'c grpc_listener" where
  "grpc_arrive method c l =
     (if method \<noteq> ''POST'' then (405, l)
      else (200, if gl_chan l = [] then l\<lparr>gl_chan := [c]\<rparr> else l))"

text \<open>None is an \<open>Accept\<close> that waits.\<close>

definition grpc_accept :: "'c grpc_listener \<Rightarrow> ('c \<times> 'c grpc_listener) option" where
  "grpc_accept l = (case gl_chan l of [] \<Rightarrow> None | c # cs \<Rightarrow> Some (c, l\<lparr>gl_chan := cs\<rparr>))"

definition grpc_close :: "'c grpc_listener \<Rightarrow> 'c grpc_listener" where
  "grpc_close l = l\<lparr>gl_closed := True\<rparr>"

section \<open>Properties\<close>

definition arrivals :: "'c arrival list \<Rightarrow> 'c list" where
  "arrivals evs = concat (map (\<lambda>e. case e of Arrives c \<Rightarrow> [c] | _ \<Rightarrow> []) evs)"

lemma serve_uncancelled:
  "Cancelled \<notin> set evs \<Longrightarrow> serve closes False (evs @ evs') =
     (case serve closes False evs' of (cs, r) \<Rightarrow> (arrivals evs @ cs, r))"
  by (induction closes False evs rule: serve.induct) (auto simp: arrivals_def split: prod.splits)

lemma serve_goes_on:
  "\<forall>e. AcceptError e \<notin> set evs \<Longrightarrow> serve False c evs = (arrivals evs, None)"
  by (induction False c evs rule: serve.induct) (auto simp: arrivals_def)

text \<open>
  Cancelling the node's context stops the HTTP and dokodemo listeners, but not the SOCKS5 one.
  Until then all of them hand every connection to their handlers, errors of \<open>Accept\<close> included; the
  first two then return, while the SOCKS5 listener goes on handling connections for as long as
  \<open>Accept\<close> gives no error.
\<close>

theorem cancel_stops_listeners:
  assumes "listen addr = None" "Cancelled \<notin> set before"
  shows "http_serve listen addr (before @ Cancelled # after) = (arrivals before, Some ctx_canceled) \<and>
    dokodemo_serve listen addr (before @ Cancelled # after) = (arrivals before, Some ctx_canceled) \<and>
    ((\<forall>e. AcceptError e \<notin> set after) \<longrightarrow>
      socks5_serve listen addr (before @ Cancelled # after) = (arrivals before @ arrivals after, None))"
  using assms serve_goes_on [of after True]
  by (simp add: http_serve_def dokodemo_serve_def socks5_serve_def listen_and_serve_def serve_uncancelled)

lemma cancel_stops_listeners_witness:
  "socks5_serve (\<lambda>_. None) '':1080'' [Arrives 1, Cancelled, Arrives (2 :: nat)] = ([1, 2], None) \<and>
   http_serve (\<lambda>_. None) '':8080'' [Arrives 1, Cancelled, Arrives (2 :: nat)] = ([1], Some ctx_canceled)"
  using cancel_stops_listeners [of "\<lambda>_. None" "'':1080''" "[Arrives 1]" "[Arrives (2 :: nat)]"]
    cancel_stops_listeners [of "\<lambda>_. None" "'':8080''" "[Arrives 1]" "[Arrives (2 :: nat)]"]
  by (simp add: arrivals_def)

text \<open>
  A dial or an accept that fails leaves nothing open. On every path of the WebSocket dial and
  accept, and of the gRPC dial once its request could be built, what was opened is closed exactly when
  an error is returned; a connection that is returned has been opened and is not closed.
\<close>

theorem failed_dials_close:
  assumes "d = ws_dial secure raw req shake ma \<or> d = ws_accept conn req upgrade \<or>
      d = grpc_dial greq outcome ma \<and> (\<forall>url. greq url = None)"
  shows "case dl_result d of
      Inl e \<Rightarrow> mset (dl_closed d) = mset (dl_opened d)
    | Inr c \<Rightarrow> dl_closed d = [] \<and> dl_opened d \<noteq> []"
  using assms
  by (elim disjE conjE)
    (simp_all add: ws_dial_def ws_accept_def grpc_dial_def Let_def add_mset_commute split: sum.splits option.splits grpc_outcome.splits prod.splits)

lemma failed_dials_close_witness:
  "mset (dl_closed (ws_accept None None (Inl EOF :: err + nat))) = mset (dl_opened (ws_accept None None (Inl EOF :: err + nat)))"
  using failed_dials_close [of "ws_accept None None (Inl EOF :: err + nat)", OF disjI2 [OF disjI1 [OF refl]]]
  by (simp add: ws_accept_def)

text \<open>
  The gRPC listener loses connections. A second client that arrives before the first is accepted
  is answered that its tunnel is open, but no \<open>Accept\<close> ever returns it; and closing the listener does
  not wake an \<open>Accept\<close> that waits.
\<close>

theorem grpc_listener_drops:
  assumes "gl_chan l = []"
  shows "case grpc_arrive ''POST'' c1 l of (s1, l1) \<Rightarrow> (case grpc_arrive ''POST'' c2 l1 of (s2, l2) \<Rightarrow>
      s1 = 200 \<and> s2 = 200 \<and> (\<exists>l3. grpc_accept l2 = Some (c1, l3) \<and> grpc_accept l3 = None) \<and>
      grpc_accept (grpc_close l) = None)"
  using assms by (simp add: grpc_arrive_def grpc_accept_def grpc_close_def)

lemma grpc_listener_drops_witness:
  "\<exists>l2 l3. grpc_arrive ''POST'' (2 :: nat) (snd (grpc_arrive ''POST'' 1 \<lparr>gl_chan = [], gl_closed = False\<rparr>)) = (200, l2) \<and>
     grpc_accept l2 = Some (1, l3) \<and> grpc_accept l3 = None"
  using grpc_listener_drops [of "\<lparr>gl_chan = [], gl_closed = False\<rparr>" "1 :: nat" 2]
  by (auto split: prod.splits)

end
