(* ===== verification/NodeRun.thy ===== *)
theory NodeRun
  imports HostNode Ping
begin

text \<open>
  \<open>Run\<close> of \<open>hypernet/node/daemon/run.go\<close>: the start of a node from its parts, its periodic
  announcement, and how it ends; and what this means for the clients that look for it.
\<close>

section \<open>Starting\<close>

text \<open>What a running node consists of.\<close>

record running =
  rn_node :: Node
  rn_manager :: "unit manager"
  rn_protocols :: "string list"
  rn_server :: Server
  rn_announces :: bool
  rn_services :: "service list"

definition Run_start ::
  "node_lib \<Rightarrow> environ \<Rightarrow> (string \<Rightarrow> bool) \<Rightarrow> (string \<Rightarrow> bool) \<Rightarrow> node_config \<Rightarrow> err + running"
where
  "Run_start nlib env opens reality_listens cfg =
     (case fst (New nlib cfg) of
        Inl e \<Rightarrow> Inl (wrap_err ''create node'' e)
      | Inr n \<Rightarrow>
          let mgr = node_manager (ProxyProtocols cfg); protos = SupportedNames mgr
          in Inr \<lparr>rn_node = n, rn_manager = mgr, rn_protocols = protos,
                  rn_server = node_server cfg env opens (nd_region n),
                  rn_announces = (nd_dht n \<noteq> None \<and> protos \<noteq> []),
                  rn_services = services cfg reality_listens\<rparr>)"

section \<open>Announcing\<close>

text \<open>
  The goroutine that announces: once at the start and then at every tick; errors are only logged.
  \<open>evolve\<close> is what happens to the network in front of each announcement. The result is the errors of
  the announcements and the network behind the last.
\<close>

fun announce_task ::
  "('c, 'd) dht option \<Rightarrow> string \<Rightarrow> string list \<Rightarrow> (nat \<Rightarrow> 'd \<Rightarrow> 'd) \<Rightarrow> nat \<Rightarrow> 'd \<Rightarrow> err option list \<times> 'd"
where
  "announce_task h region protos evolve 0 st =
     (case AnnounceProtocols h region protos (evolve 0 st) of (e, st1) \<Rightarrow> ([e], st1))"
| "announce_task h region protos evolve (Suc tick) st =
     (case announce_task h region protos evolve tick st of
        (es, st1) \<Rightarrow>
          (case AnnounceProtocols h region protos (evolve (Suc tick) st1) of (e, st2) \<Rightarrow> (es @ [e], st2)))"

section \<open>What a node prints\<close>

text \<open>The lines a started node prints: its identity, and its addresses as a client takes them.\<close>

definition Run_prints :: "string \<Rightarrow> string list \<Rightarrow> string list" where
  "Run_prints pid addrs =
     [''Peer ID: '' @ pid, ''Listen addresses:''] @ map (\<lambda>a. ''  '' @ a @ ''/p2p/'' @ pid) addrs"

section \<open>Ending\<close>

datatype run_end = RunFailed err | Pinged "(bytes \<times> wire) list" | Stopped

text \<open>
  With a target the node pings it and ends; otherwise it runs until its context is cancelled. None is
  a ping that never returns.
\<close>

definition Run ::
  "node_lib \<Rightarrow> environ \<Rightarrow> (string \<Rightarrow> bool) \<Rightarrow> (string \<Rightarrow> bool) \<Rightarrow>
     (string \<Rightarrow> err option \<times> err option \<times> err option) \<Rightarrow> (nat \<Rightarrow> err + wire) \<Rightarrow> node_config \<Rightarrow> run_end option"
where
  "Run nlib env opens reality_listens ping_errs streams cfg =
     (case Run_start nlib env opens reality_listens cfg of
        Inl e \<Rightarrow> Some (RunFailed e)
      | Inr r \<Rightarrow>
          if Target cfg = '''' then Some Stopped
          else case ping_errs (Target cfg) of
            (parse_err, info_err, connect_err) \<Rightarrow>
              (case PingTarget parse_err info_err connect_err streams (PingCount cfg) of
                 None \<Rightarrow> None
               | Some (Some e, _) \<Rightarrow> Some (RunFailed (wrap_err ''ping'' e))
               | Some (None, rs) \<Rightarrow> Some (Pinged rs)))"

section \<open>What clients find\<close>

lemma announce_task_recorded:
  "announce_task (Some (recording h)) region protos (\<lambda>k. apfst (evolve k)) ticks (st, []) = (es, (st', cids)) \<Longrightarrow>
     length es = Suc ticks \<and>
     (\<exists>logs. cids = concat logs \<and> list_all2 (announced h (announce_keys region protos)) es logs)"
proof (induction ticks arbitrary: es st' cids)
  case 0
  then obtain e where e: "es = [e]"
    "AnnounceProtocols (Some (recording h)) region protos (evolve 0 st, []) = (e, (st', cids))"
    by (auto split: prod.splits)
  from AnnounceProtocols_recorded [OF e(2)] e(1) show ?case by (auto intro!: exI [of _ "[cids]"])
next
  case (Suc n)
  obtain es1 st1 cids1 where r: "announce_task (Some (recording h)) region protos (\<lambda>k. apfst (evolve k)) n (st, []) =
      (es1, (st1, cids1))" by (metis prod_cases3)
  from Suc.IH [OF r] obtain logs where l: "length es1 = Suc n" "cids1 = concat logs"
    "list_all2 (announced h (announce_keys region protos)) es1 logs" by auto
  from Suc.prems r obtain e where e: "es = es1 @ [e]"
    "AnnounceProtocols (Some (recording h)) region protos (evolve (Suc n) st1, cids1) = (e, (st', cids))"
    by (auto split: prod.splits)
  from AnnounceProtocols_recorded [OF e(2)] obtain new where
    "cids = cids1 @ new" "announced h (announce_keys region protos) e new" by blast
  with l e(1) show ?case by (auto intro!: exI [of _ "logs @ [new]"] list_all2_appendI)
qed

lemma searched_keys_announced:
  assumes "p \<in> set protos" "p \<noteq> ''''" "PreferredRegion s \<in> {'''', region}"
  shows "set (search_keys p (PreferredRegion s)) \<subseteq> set (announce_keys region protos)"
  using assms by (auto simp: search_keys_def announce_keys_def trim_nothing)

text \<open>
  C14: a running node announces what clients look for, and speaks to those who come. At each of its
  announcements the DHT is asked to provide the CIDs of exactly the keys of the node's protocols, in
  their order, and of all of them when the announcement reports no error, whatever happened to the
  network in between. A smart client that asks, at any time, for any protocol of the node's
  configuration, and prefers the node's region or none, looks up only keys among these, the regional
  one first; the providers it takes are those of the first lookup with an answer, as the DHT gives
  them. A client that then dials the node agrees with it on a protocol: the first of the client's own
  order the node has, not the one that was asked for. That the DHT returns this node is up to the
  network and not claimed.
\<close>

theorem running_node_reachable:
  assumes "Run_start nlib env opens reality_listens cfg = Inr r"
    and "announce_task (Some (recording h)) (nd_region (rn_node r)) (rn_protocols r) (\<lambda>k. apfst (evolve k)) ticks (st, []) =
      (es, (st', cids))"
    and "i < length es" "es ! i = None"
    and "p \<in> set (preferredProtos (ProxyProtocols cfg))" "PreferredRegion s \<in> {[], nd_region (rn_node r)}"
    and "ps = first_answer (map (dht_answer h D mx) (search_keys p (PreferredRegion s)))"
    and "NewProxyClient parse node False token = Inr c"
  shows "(\<exists>logs. cids = concat logs \<and> length es = Suc ticks \<and>
      list_all2 (announced h (announce_keys (nd_region (rn_node r)) (rn_protocols r))) es logs \<and>
      (\<forall>k\<in>set (search_keys p (PreferredRegion s)). \<exists>c\<in>set (logs ! i). stringKeyToCID h k = Inr c)) \<and>
    (ps \<noteq> [] \<longrightarrow> fetchProviders (NodeProviderDiscovery (Some h) D ev) p mx s =
       (Inr ps, s\<lparr>providerCache := (providerCache s)(p \<mapsto> \<lparr>pe_providers = ps, fetchedAt = t_fetch ev\<rparr>)\<rparr>)) \<and>
    (\<exists>q t. q = hd (filter (\<lambda>n. n \<in> set (rn_protocols r)) all_protocols) \<and> q \<in> set (rn_protocols r) \<and>
      ClientNegotiate True (cl_mgr c) None (node_peer (Some (rn_manager r))) = Inr (q, t))"
proof -
  let ?keys = "announce_keys (nd_region (rn_node r)) (rn_protocols r)"
  from assms(1) have r: "rn_manager r = node_manager (ProxyProtocols cfg)"
    "rn_protocols r = SupportedNames (node_manager (ProxyProtocols cfg))"
    by (auto simp: Run_start_def Let_def split: sum.splits)
  have speaks: "\<exists>q t. q = hd (filter (\<lambda>n. n \<in> set (rn_protocols r)) all_protocols) \<and> q \<in> set (rn_protocols r) \<and>
      ClientNegotiate True (cl_mgr c) None (node_peer (Some (rn_manager r))) = Inr (q, t)"
    using fresh_client_agrees [OF assms(8), of "ProxyProtocols cfg"] r by (auto simp: Let_def node_manager_names)
  from announce_task_recorded [OF assms(2)] obtain logs where
    l: "length es = Suc ticks" "cids = concat logs" "list_all2 (announced h ?keys) es logs" by blast
  have "p \<in> set (rn_protocols r)" "p \<noteq> []"
    using assms(5) r(2) preferredProtos_props(2) [of "ProxyProtocols cfg"] default_order_props(3)
    by (auto simp: node_manager_names)
  note keys = searched_keys_announced [OF this assms(6)]
  have "announced h ?keys None (logs ! i)" using list_all2_nthD [OF l(3) assms(3)] assms(4) by simp
  with keys announced_all have found: "\<forall>k\<in>set (search_keys p (PreferredRegion s)). \<exists>c\<in>set (logs ! i). stringKeyToCID h k = Inr c"
    by blast
  then have "\<forall>k\<in>set (search_keys p (PreferredRegion s)). \<exists>c. stringKeyToCID h k = Inr c" by blast
  from fetch_first_answer [OF this assms(7)] l found speaks show ?thesis by blast
qed

text \<open>
  The witness: a node of region \<open>eu\<close> with two protocols announces four times; the first answer a client
  of that region gets is the one for the regional key.
\<close>

lemma running_node_reachable_witness:
  "\<exists>r es st' cids s' c t. Run_start wit_node_lib (\<lambda>_. None) (\<lambda>_. True) (\<lambda>_. True)
       (zero_config\<lparr>EnableDHT := True, Region := ''eu'', ProxyProtocols := [''plain'', ''trojan'']\<rparr>) = Inr r \<and>
     announce_task (Some (recording (list_dht (wit_info ''me'')))) ''eu'' (rn_protocols r) (\<lambda>k. apfst (\<lambda>_. [])) 3 ([], []) =
       (es, (st', cids)) \<and>
     fetchProviders (NodeProviderDiscovery (Some (list_dht (wit_info ''me''))) [protocolRegionKey ''plain'' ''eu''] (wit_sc_env [])) ''plain'' 8
       ((NewSmartClient True ''tok'')\<lparr>PreferredRegion := ''eu''\<rparr>) = (Inr [wit_info ''me''], s') \<and>
     NewProxyClient (\<lambda>_. Inr (Inr wit_peer)) ''node'' False ''tok'' = Inr c \<and>
     ClientNegotiate True (cl_mgr c) None (node_peer (Some (rn_manager r))) = Inr (''trojan'', t)"
proof -
  let ?cfg = "zero_config\<lparr>EnableDHT := True, Region := ''eu'', ProxyProtocols := [''plain'', ''trojan'']\<rparr>"
  let ?h = "list_dht (wit_info ''me'')" and ?s = "(NewSmartClient True ''tok'')\<lparr>PreferredRegion := ''eu''\<rparr>"
  let ?D = "[protocolRegionKey ''plain'' ''eu'']"
  have names: "SupportedNames (node_manager [''plain'', ''trojan'']) = [''plain'', ''trojan'']" by code_simp
  have pref: "preferredProtos [''plain'', ''trojan''] = [''plain'', ''trojan'']"
    by (simp add: preferredProtos_def Let_def default_order_def)
  have trim: "trim_space ''eu'' = ''eu''" by code_simp
  obtain r where r: "Run_start wit_node_lib (\<lambda>_. None) (\<lambda>_. True) (\<lambda>_. True) ?cfg = Inr r"
    "nd_region (rn_node r) = ''eu''" "rn_protocols r = [''plain'', ''trojan'']"
    by (simp add: Run_start_def New_def Let_def wit_node_lib_def zero_config_def names trim)
  have ann: "\<exists>st' cs'. AnnounceProtocols (Some (recording ?h)) ''eu'' [''plain'', ''trojan''] (st, cs) = (None, (st', cs'))" for st cs
    by (simp add: AnnounceProtocols_def ProvideKey_def stringKeyToCID_def protocolKey_def protocolRegionKey_def
        list_dht_def has_prefix_def recording_def)
  obtain es st' cids where a: "announce_task (Some (recording ?h)) (nd_region (rn_node r)) (rn_protocols r)
      (\<lambda>k. apfst ((\<lambda>_ _. []) k)) 3 ([], []) = (es, (st', cids))" by (metis prod_cases3)
  have first: "0 < length es" "es ! 0 = None"
    using a ann [of "[]" "[]"] by (auto simp: r(2,3) numeral_3_eq_3 split: prod.splits)
  obtain c where c: "NewProxyClient (\<lambda>_. Inr (Inr wit_peer)) ''node'' False ''tok'' = Inr c" by (simp add: NewProxyClient_def Let_def)
  have f: "hd (filter (\<lambda>n. n \<in> set (rn_protocols r)) all_protocols) = ''trojan''" by (simp add: r(3) all_protocols_def)
  have p: "''plain'' \<in> set (preferredProtos (ProxyProtocols ?cfg))" by (simp add: pref)
  have s: "PreferredRegion ?s \<in> {[], nd_region (rn_node r)}" by (simp add: r(2))
  have ps: "[wit_info ''me''] = first_answer (map (dht_answer ?h ?D 8) (search_keys ''plain'' (PreferredRegion ?s)))"
    by (simp add: search_keys_def trim first_answer_def dht_answer_def stringKeyToCID_def list_dht_def protocolRegionKey_def protocolKey_def)
  from running_node_reachable [OF r(1) a first p s ps c] f r a c show ?thesis by auto
qed

end
