(* ===== verification/Adapters.thy ===== *)
theory Adapters
  imports Daemon Hysteria2
begin

text \<open>
  The six protocol adapters of \<open>pkg/protoadapters\<close> behind the interface of \<open>protoiface\<close>: their names,
  features, and \<open>Wrap\<close>, which puts a protocol on a connection without a handshake. A connection that
  is returned as it is is \<open>Bare\<close>.
\<close>

datatype adapter =
    PlainProtocol | VLESSProtocol | TrojanProtocol | ShadowsocksProtocol | Hysteria2Protocol | VMESSProtocol

datatype wrapped = Bare | PlainSession obfs_session | SSSession ssAEAD | H2Session h2_session

fun adapter_name :: "adapter \<Rightarrow> string" where
  "adapter_name PlainProtocol = ''plain''"
| "adapter_name VLESSProtocol = ''vless''"
| "adapter_name TrojanProtocol = ''trojan''"
| "adapter_name ShadowsocksProtocol = ''shadowsocks''"
| "adapter_name Hysteria2Protocol = ''hysteria2''"
| "adapter_name VMESSProtocol = ''vmess''"

fun adapter_features :: "adapter \<Rightarrow> Features" where
  "adapter_features PlainProtocol = plain_features"
| "adapter_features VLESSProtocol = vless_features"
| "adapter_features TrojanProtocol = trojan_features"
| "adapter_features ShadowsocksProtocol = ss_features"
| "adapter_features Hysteria2Protocol = h2_features"
| "adapter_features VMESSProtocol = vmess_features"

definition plain_wrap :: "Config option \<Rightarrow> rng \<Rightarrow> wrapped" where
  "plain_wrap cfg g =
     (let settings = parse_obfs_settings cfg
      in if \<not> enabled settings then Bare else PlainSession (new_obfs_session settings g))"

text \<open>The key is a digest of 32 bytes, which both \<open>NewCipher\<close> and \<open>NewGCM\<close> accept.\<close>

definition newAEADFromToken :: "digests \<Rightarrow> bytes \<Rightarrow> err + bytes" where
  "newAEADFromToken d token = Inr (sha256 d token)"

definition h2_wrap :: "digests \<Rightarrow> rng \<Rightarrow> Config option \<Rightarrow> err + wrapped" where
  "h2_wrap d g cfg =
     (case cfg of
        None \<Rightarrow> Inl (Err ''hysteria2: missing config'')
      | Some cfg \<Rightarrow>
          (case newAEADFromToken d (Token cfg) of
             Inl e \<Rightarrow> Inl (wrap_err ''hysteria2'' e)
           | Inr key \<Rightarrow> Inr (H2Session \<lparr>h2_key = key, h2_closed = False, sendCtr = 0, h2_rng = g\<rparr>)))"

definition vless_wrap :: "Config option \<Rightarrow> wrapped" where
  "vless_wrap cfg = Bare"

definition trojan_wrap :: "Config option \<Rightarrow> wrapped" where
  "trojan_wrap cfg = Bare"

definition vmess_wrap :: "Config option \<Rightarrow> wrapped" where
  "vmess_wrap cfg = (case cfg of None \<Rightarrow> Bare | Some _ \<Rightarrow> Bare)"

fun adapter_wrap :: "digests \<Rightarrow> rng option \<Rightarrow> rng \<Rightarrow> Config option \<Rightarrow> adapter \<Rightarrow> err + wrapped" where
  "adapter_wrap d cr g cfg PlainProtocol = Inr (plain_wrap cfg g)"
| "adapter_wrap d cr g cfg VLESSProtocol = Inr (vless_wrap cfg)"
| "adapter_wrap d cr g cfg TrojanProtocol = Inr (trojan_wrap cfg)"
| "adapter_wrap d cr g cfg ShadowsocksProtocol =
     Inr (case ss_wrap d cr cfg of None \<Rightarrow> Bare | Some s \<Rightarrow> SSSession s)"
| "adapter_wrap d cr g cfg Hysteria2Protocol = h2_wrap d g cfg"
| "adapter_wrap d cr g cfg VMESSProtocol = Inr (vmess_wrap cfg)"

text \<open>The adapters a node and a client register are these six, each under its own name.\<close>

lemma adapter_names:
  "set default_order = range adapter_name" "set all_protocols = range adapter_name" "inj adapter_name"
proof -
  have "a \<in> {PlainProtocol, VLESSProtocol, TrojanProtocol, ShadowsocksProtocol, Hysteria2Protocol, VMESSProtocol}" for a
    by (cases a) simp_all
  then have u: "(UNIV :: adapter set) =
      {VLESSProtocol, VMESSProtocol, TrojanProtocol, ShadowsocksProtocol, Hysteria2Protocol, PlainProtocol}" by blast
  show "set default_order = range adapter_name" "set all_protocols = range adapter_name"
    unfolding u by (simp_all add: default_order_def all_protocols_def)
  show "inj adapter_name"
  proof
    fix a b show "adapter_name a = adapter_name b \<Longrightarrow> a = b" by (cases a; cases b) simp_all
  qed
qed

text \<open>
  \<open>Wrap\<close> puts on the session of the handshake where the handshake is not a dialogue: always for plain
  and hysteria2, and for shadowsocks whenever the handshake accepts its configuration; without a
  password shadowsocks leaves the connection as it is, where the handshake fails.
\<close>

lemma wrap_as_handshake:
  "adapter_wrap d cr g cfg PlainProtocol = Inr (case plain_handshake cfg g of None \<Rightarrow> Bare | Some s \<Rightarrow> PlainSession s)"
  "adapter_wrap d cr g cfg Hysteria2Protocol = (case h2_handshake d g cfg of Inl e \<Rightarrow> Inl e | Inr s \<Rightarrow> Inr (H2Session s))"
  "ss_handshake d cr cfg = Inr s \<Longrightarrow> adapter_wrap d cr g cfg ShadowsocksProtocol = Inr (SSSession s)"
  by (auto simp: plain_wrap_def plain_handshake_def Let_def h2_wrap_def h2_handshake_def newAEADFromToken_def
      new_h2_session_def ss_handshake_def ss_wrap_def split: option.splits any_val.splits if_splits)

text \<open>The adapters that authenticate do nothing in \<open>Wrap\<close>, whatever token they are given.\<close>

lemma wrap_authenticates_nobody:
  "a \<in> {VLESSProtocol, TrojanProtocol, VMESSProtocol} \<Longrightarrow> adapter_wrap d cr g cfg a = Inr Bare"
  by (auto simp: vless_wrap_def trojan_wrap_def vmess_wrap_def split: option.split)

end
