(* ===== verification/Sessions.thy ===== *)
theory Sessions
  imports NodeRun
begin

text \<open>
  The streams of a running node as a state machine. A node serves its negotiation streams and its
  proxy streams concurrently: the negotiation handler of \<open>hypernet/node/daemon/run.go\<close> first answers
  the peer and only then stores the protocol, under the peer, in the server
  (\<open>hypernet/services/proxy/server/proxy.go\<close>), and a proxy stream looks the peer up when it starts.
  The runs below interleave these steps in every order.
\<close>

section \<open>Runs\<close>

text \<open>
  What happens at a node, in order: a negotiation is answered with a protocol, or refused; the
  protocol of an answered negotiation is stored; a proxy stream is served, with the protocol it was
  served under and its outcome.
\<close>

datatype node_event =
    Answered peer offer string
  | Refused peer err
  | Remembered peer string
  | Served peer string "outcome option"

text \<open>
  A run with its events, the server behind them, and the negotiations that were answered but whose
  handler has not yet stored the protocol. Every handler is a goroutine of its own, so any of those
  may be the next to go on.
\<close>

inductive node_run ::
  "unit manager \<Rightarrow> Server \<Rightarrow> node_event list \<Rightarrow> Server \<Rightarrow> (peer \<times> string) list \<Rightarrow> bool"
  for mgr srv0
where
  run_start: "node_run mgr srv0 [] srv0 []"
| run_answer:
    "node_run mgr srv0 evs srv late \<Longrightarrow> HandleStream (Some mgr) (Inr off) None = (Inr chosen, resp) \<Longrightarrow>
       node_run mgr srv0 (evs @ [Answered pid off chosen]) srv (late @ [(pid, chosen)])"
| run_refuse:
    "node_run mgr srv0 evs srv late \<Longrightarrow> HandleStream (Some mgr) decoded enc_err = (Inl e, resp) \<Longrightarrow>
       node_run mgr srv0 (evs @ [Refused pid e]) srv late"
| run_remember:
    "node_run mgr srv0 evs srv (us @ (pid, chosen) # vs) \<Longrightarrow>
       node_run mgr srv0 (evs @ [Remembered pid chosen]) (RememberChosenProtocol pid chosen srv) (us @ vs)"
| run_serve:
    "node_run mgr srv0 evs srv late \<Longrightarrow>
       node_run mgr srv0 (evs @ [Served pid (lastChosenProtocol pid srv) (handleProxyStream ev srv pid region w)])
         srv late"

text \<open>The protocols a peer was answered, and those stored for it, in the order of the run.\<close>

fun answered :: "peer \<Rightarrow> node_event list \<Rightarrow> string list" where
  "answered pid [] = []"
| "answered pid (Answered k off p # evs) = (if k = pid then p # answered pid evs else answered pid evs)"
| "answered pid (e # evs) = answered pid evs"

fun remembered :: "peer \<Rightarrow> node_event list \<Rightarrow> string list" where
  "remembered pid [] = []"
| "remembered pid (Remembered k p # evs) = (if k = pid then p # remembered pid evs else remembered pid evs)"
| "remembered pid (e # evs) = remembered pid evs"

definition last_or_none :: "string list \<Rightarrow> string" where
  "last_or_none ps = (if ps = [] then '''' else last ps)"

lemma answered_append [simp]: "answered pid (us @ vs) = answered pid us @ answered pid vs"
  by (induction pid us rule: answered.induct) auto

lemma remembered_append [simp]: "remembered pid (us @ vs) = remembered pid us @ remembered pid vs"
  by (induction pid us rule: remembered.induct) auto

lemma remembered_in: "p \<in> set (remembered pid evs) \<longleftrightarrow> Remembered pid p \<in> set evs"
  by (induction pid evs rule: remembered.induct) auto

lemma answered_in: "p \<in> set (answered pid evs) \<longleftrightarrow> (\<exists>off. Answered pid off p \<in> set evs)"
  by (induction pid evs rule: answered.induct) auto

section \<open>The two steps of the negotiation handler\<close>

text \<open>The answer and the store behind it are the handler of the daemon, cut where others may step in.\<close>

lemma handler_is_two_steps:
  assumes "node_run mgr srv0 evs srv []" "HandleStream (Some mgr) (Inr off) None = (Inr chosen, resp)"
  shows "node_run mgr srv0 (evs @ [Answered pid off chosen, Remembered pid chosen])
           (fst (negotiation_handler mgr pid (Inr off) None srv)) []"
proof -
  have "node_run mgr srv0 (evs @ [Answered pid off chosen]) srv ([] @ (pid, chosen) # [])"
    using run_answer [OF assms, of pid] by simp
  from run_remember [OF this] show ?thesis using assms(2) by (simp add: negotiation_handler_def)
qed

lemma lookup_remember:
  "lastChosenProtocol pid (RememberChosenProtocol k p srv) = (if k = pid then p else lastChosenProtocol pid srv)"
proof -
  have "map_of (filter (\<lambda>(a, b). a \<noteq> k) m) pid = (if k = pid then None else map_of m pid)" for m :: "(peer \<times> string) list"
    by (induction m) auto
  from this [of "lastChosen srv"] show ?thesis
    by (cases "p = ''''") (auto simp: lastChosenProtocol_def RememberChosenProtocol_def)
qed

section \<open>Invariants of runs\<close>

lemma run_init:
  assumes "node_run mgr srv0 (evs @ [e]) srv late"
  shows "\<exists>srv' late'. node_run mgr srv0 evs srv' late'"
  using assms by (cases rule: node_run.cases) auto

lemma run_prefix: "node_run mgr srv0 (us @ vs) srv late \<Longrightarrow> \<exists>srv' late'. node_run mgr srv0 us srv' late'"
proof (induction vs arbitrary: srv late rule: rev_induct)
  case (snoc v vs)
  then have "node_run mgr srv0 ((us @ vs) @ [v]) srv late" by simp
  from run_init [OF this] snoc.IH show ?case by blast
qed auto

text \<open>What the server knows of a peer is what was stored for it last; nothing else of it changes.\<close>

lemma run_memory:
  assumes "node_run mgr srv0 evs srv late" "lastChosen srv0 = []"
  shows "lastChosenProtocol pid srv = last_or_none (remembered pid evs)"
  using assms
  by (induction rule: node_run.induct) (auto simp: lookup_remember last_or_none_def, simp add: lastChosenProtocol_def)

lemma run_config:
  assumes "node_run mgr srv0 evs srv late"
  shows "srv = srv0\<lparr>lastChosen := lastChosen srv\<rparr>"
  using assms
proof (induction rule: node_run.induct)
  case (run_remember evs srv us pid chosen vs)
  then show ?case by (cases srv) (auto simp: RememberChosenProtocol_def)
qed auto

text \<open>The answers whose protocol is not yet stored are exactly the waiting handlers.\<close>

lemma run_balance:
  assumes "node_run mgr srv0 evs srv late"
  shows "mset (answered pid evs) = mset (remembered pid evs) + mset (map snd (filter (\<lambda>x. fst x = pid) late))"
  using assms by (induction rule: node_run.induct) auto

lemma run_answers:
  assumes "node_run mgr srv0 evs srv late" "Answered pid off p \<in> set evs"
  shows "\<exists>resp. HandleStream (Some mgr) (Inr off) None = (Inr p, resp)"
  using assms by (induction rule: node_run.induct) auto

lemma HandleStream_chosen:
  assumes "HandleStream (Some mgr) (Inr off) None = (Inr p, resp)"
  shows "p \<in> set (SupportedNames mgr)" "p \<in> set (off_protocols off)"
  using assms by (auto simp: HandleStream_def ChooseCommon_first first_in_Some Let_def split: option.splits)

lemma run_serves:
  assumes "node_run mgr srv0 (us @ Served pid q oc # vs) srv late"
  shows "\<exists>s l ev region w. node_run mgr srv0 us s l \<and> q = lastChosenProtocol pid s \<and>
           oc = handleProxyStream ev s pid region w"
proof -
  from run_prefix [of mgr srv0 "us @ [Served pid q oc]" vs srv late] assms obtain s l where
    "node_run mgr srv0 (us @ [Served pid q oc]) s l" by (auto simp only: append_assoc append_Cons append_Nil)
  then show ?thesis by (cases rule: node_run.cases) auto
qed

lemma served_protocol:
  assumes "node_run mgr srv0 (us @ Served pid q oc # vs) srv late" "lastChosen srv0 = []"
  shows "q = last_or_none (remembered pid us) \<and>
    (q \<noteq> '''' \<longrightarrow> q \<in> set (SupportedNames mgr) \<and> (\<exists>off. Answered pid off q \<in> set us \<and> q \<in> set (off_protocols off)))"
proof -
  from run_serves [OF assms(1)] obtain s l where s: "node_run mgr srv0 us s l" "q = lastChosenProtocol pid s" by blast
  have q: "q = last_or_none (remembered pid us)" using run_memory [OF s(1) assms(2)] s(2) by simp
  moreover have "q \<in> set (SupportedNames mgr) \<and> (\<exists>off. Answered pid off q \<in> set us \<and> q \<in> set (off_protocols off))"
    if "q \<noteq> ''''"
  proof -
    from q that have "q \<in> set (remembered pid us)" by (auto simp: last_or_none_def split: if_splits)
    with run_balance [OF s(1), of pid] have "q \<in> set (answered pid us)"
      by (metis UnCI set_mset_mset set_mset_union)
    then obtain off where off: "Answered pid off q \<in> set us" by (auto simp: answered_in)
    from run_answers [OF s(1) off] HandleStream_chosen off show ?thesis by blast
  qed
  ultimately show ?thesis by blast
qed

section \<open>Properties\<close>

text \<open>
  Every stream is served under a protocol of its peer. In every interleaving of negotiations and
  streams of any number of peers, a stream is served under the protocol stored last for its own peer;
  that is none, or one the node offers and that this peer offered and was answered before the stream.
\<close>

theorem served_as_negotiated:
  assumes "node_run mgr srv0 (us @ Served pid q oc # vs) srv late" "lastChosen srv0 = []"
  shows "q = last_or_none (remembered pid us) \<and>
    (q \<noteq> '''' \<longrightarrow> q \<in> set (SupportedNames mgr) \<and> (\<exists>off. Answered pid off q \<in> set us \<and> q \<in> set (off_protocols off)))"
  by (rule served_protocol [OF assms])

definition plain_offer :: offer where
  "plain_offer = \<lparr>off_protocols = [''trojan'', ''plain''], off_transports = []\<rparr>"

lemma plain_offer_answer:
  "\<exists>resp. HandleStream (Some (node_manager [''plain''])) (Inr plain_offer) None = (Inr ''plain'', resp)"
proof -
  have "SupportedNames (node_manager [''plain'']) = [''plain'']" by code_simp
  then show ?thesis by (simp add: HandleStream_def ChooseCommon_first plain_offer_def Let_def)
qed

lemma served_as_negotiated_witness:
  "\<exists>evs srv late. (\<forall>ev region w. node_run (node_manager [''plain'']) NewServer
       (evs @ Served ''p1'' ''plain'' (handleProxyStream ev srv ''p1'' region w) # []) srv late) \<and>
     ''plain'' = last_or_none (remembered ''p1'' evs)"
proof -
  from plain_offer_answer obtain resp where
    h: "HandleStream (Some (node_manager [''plain''])) (Inr plain_offer) None = (Inr ''plain'', resp)" by blast
  let ?srv = "fst (negotiation_handler (node_manager [''plain'']) ''p1'' (Inr plain_offer) None NewServer)"
  let ?evs = "[Answered ''p1'' plain_offer ''plain'', Remembered ''p1'' ''plain'']"
  from handler_is_two_steps [OF run_start h, where pid = "''p1''"]
  have r: "node_run (node_manager [''plain'']) NewServer ?evs ?srv []" by simp
  have l: "lastChosenProtocol ''p1'' ?srv = ''plain''" using h by (simp add: negotiation_handler_def lookup_remember)
  have r2: "node_run (node_manager [''plain'']) NewServer
      (?evs @ Served ''p1'' ''plain'' (handleProxyStream ev ?srv ''p1'' region w) # []) ?srv []" for ev region w
    using run_serve [OF r, of "''p1''" ev region w] l by simp
  moreover have "''plain'' = last_or_none (remembered ''p1'' ?evs)"
    using served_as_negotiated [OF r2] by (simp add: NewServer_def)
  ultimately show ?thesis by blast
qed

lemma client_answer:
  assumes "ClientNegotiate True (Some mc) None (node_peer (Some mgr)) = Inr (p, t)"
  shows "\<exists>resp. HandleStream (Some mgr) (Inr (client_offer mc)) None = (Inr p, resp)"
  using assms
  by (auto simp: ClientNegotiate_def node_peer_def HandleStream_def Let_def split: option.splits if_splits sum.splits)

lemma settled_memory:
  assumes "node_run mgr srv0 (us @ Answered pid off p # ms) srv late"
    and "length (answered pid us) = length (remembered pid us)" "answered pid ms = []"
  shows "remembered pid ms = [] \<or> remembered pid ms = [p]"
proof -
  from run_prefix [OF assms(1)] obtain s l where u: "node_run mgr srv0 us s l" by blast
  let ?l = "\<lambda>l. mset (map snd (filter (\<lambda>x. fst x = pid) l))"
  have "size (mset (answered pid us)) = size (mset (remembered pid us) + ?l l)"
    using run_balance [OF u, of pid] by simp
  then have "size (?l l) = 0" using assms(2) by simp
  then have "?l l = {#}" by (simp only: size_eq_0_iff_empty)
  with run_balance [OF u, of pid] run_balance [OF assms(1), of pid] assms(3)
  have m: "{#p#} = mset (remembered pid ms) + ?l late" by (simp del: mset_map)
  have "size {#p#} = size (mset (remembered pid ms) + ?l late)" using m by simp
  then have "length (remembered pid ms) \<le> 1" by simp
  with m show ?thesis by (cases "remembered pid ms") auto
qed

text \<open>
  C8: a session that waits for the node agrees with it. A client that negotiated a protocol while no
  earlier negotiation of its peer was still being stored, and opens a stream before it negotiates
  again, is served under this protocol exactly when the node has stored it in between, or stored the
  same protocol for the last negotiation before.
\<close>

theorem settled_sessions_agree:
  assumes "ClientNegotiate True (Some mc) None (node_peer (Some mgr)) = Inr (p, t)"
    and "node_run mgr srv0 (us @ Answered pid (client_offer mc) r # ms @ Served pid q oc # vs) srv late"
    and "lastChosen srv0 = []"
    and "length (answered pid us) = length (remembered pid us)" "answered pid ms = []"
  shows "r = p \<and> (q = p \<longleftrightarrow> Remembered pid p \<in> set ms \<or> last_or_none (remembered pid us) = p)"
proof -
  let ?b = "us @ Answered pid (client_offer mc) r # ms"
  have run: "node_run mgr srv0 (?b @ Served pid q oc # vs) srv late" using assms(2) by simp
  from client_answer [OF assms(1)] run_answers [OF assms(2), of pid "client_offer mc" r] have r: "r = p" by auto
  from run_prefix [OF run] obtain s l where b: "node_run mgr srv0 ?b s l" by blast
  from settled_memory [OF b assms(4,5)] r have m: "remembered pid ms = [] \<or> remembered pid ms = [p]" by simp
  have "q = last_or_none (remembered pid us @ remembered pid ms)"
    using served_protocol [OF run assms(3)] by simp
  moreover have "Remembered pid p \<in> set ms \<longleftrightarrow> remembered pid ms = [p]" using m by (auto simp: remembered_in [symmetric])
  ultimately show ?thesis using m r by (auto simp: last_or_none_def)
qed

lemma settled_sessions_agree_witness:
  "\<exists>(mc :: unit manager) t srv. ClientNegotiate True (Some mc) None (node_peer (Some (node_manager [''plain'']))) = Inr (''plain'', t) \<and>
     (\<forall>ev region w. node_run (node_manager [''plain'']) NewServer
       ([] @ Answered ''p1'' (client_offer mc) ''plain'' # [Remembered ''p1'' ''plain''] @
        Served ''p1'' ''plain'' (handleProxyStream ev srv ''p1'' region w) # []) srv [])"
proof -
  let ?m = "node_manager [''plain'']"
  have n: "SupportedNames ?m = [''plain'']" by code_simp
  obtain t where c: "ClientNegotiate True (Some ?m) None (node_peer (Some ?m)) = Inr (''plain'', t)"
    by (simp add: ClientNegotiate_def node_peer_def HandleStream_def ChooseCommon_first client_offer_def n Let_def)
  from client_answer [OF c] obtain resp where h: "HandleStream (Some ?m) (Inr (client_offer ?m)) None = (Inr ''plain'', resp)" by blast
  define srv where "srv = fst (negotiation_handler ?m ''p1'' (Inr (client_offer ?m)) None NewServer)"
  from handler_is_two_steps [OF run_start h, where pid = "''p1''"] srv_def
  have r: "node_run ?m NewServer [Answered ''p1'' (client_offer ?m) ''plain'', Remembered ''p1'' ''plain''] srv []" by simp
  have s: "node_run ?m NewServer ([] @ Answered ''p1'' (client_offer ?m) ''plain'' # [Remembered ''p1'' ''plain''] @
      Served ''p1'' (lastChosenProtocol ''p1'' srv) (handleProxyStream ev srv ''p1'' region w) # []) srv []" for ev region w
    using run_serve [OF r, of "''p1''" ev region w] by simp
  have "lastChosenProtocol ''p1'' srv = ''plain''"
    using settled_sessions_agree [OF c s] by (simp add: NewServer_def)
  with s have "\<forall>ev region w. node_run ?m NewServer ([] @ Answered ''p1'' (client_offer ?m) ''plain'' #
      [Remembered ''p1'' ''plain''] @ Served ''p1'' ''plain'' (handleProxyStream ev srv ''p1'' region w) # []) srv []" by metis
  with c show ?thesis by blast
qed

section \<open>A stream that overtakes its negotiation\<close>

lemma token_is_no_request:
  assumes "list_all plain_byte tok" "tok \<noteq> []"
  shows "ParseRequest (tok @ nl) = Inl (err_invalid ''expected 3 fields, got 1'')"
proof -
  have s: "solid tok" using assms by (auto simp: solid_def list_all_iff)
  have "itoa 1 = ''1''" by code_simp
  with s assms show ?thesis
    by (simp add: ParseRequest_def Let_def trim_space_solid(2) go_fields_word)
qed

lemma unserved_token:
  assumes tok: "tok = c # cs" "list_all plain_byte tok" "\<not> text_start c" "length tok < bufio_size - 1"
    and w: "rx w = [[c], cs @ nl]" "\<not> closed w" "tx_room w = None"
    and srv: "lastChosenProtocol pid srv = ''''" "PMax (srv_obfs srv) \<le> 0" "WDMax (srv_obfs srv) \<le> 0"
  shows "\<exists>oc. handleProxyStream ev srv pid region w = Some oc \<and> oc_returned oc \<and> oc_target oc = None \<and>
    tx (oc_stream oc) = tx w @ ''ERR invalid proxy request: expected 3 fields, got 1'' @ nl"
proof -
  let ?io = "prefix_rwc wire_rwc" and ?p = "\<lparr>pc_prefix = [c], pc_off = 0\<rparr>" and ?w = "w\<lparr>rx := [cs @ nl]\<rparr>"
  let ?lg = "new_slog (has_metrics srv) '''' region" and ?p1 = "\<lparr>pc_prefix = [c], pc_off = Suc 0\<rparr>"
  have nn: "newline \<notin> set tok" using plain_no_newline tok(2) by blast
  have r1: "prefix_read wire_read (?p, ?w) n = Some ([c], None, (?p1, ?w))" if "0 < n" for n
    using that by (simp add: prefix_read_def Let_def)
  have r2: "prefix_read wire_read (?p1, ?w) n = Some (cs @ nl, None, (?p1, ?w\<lparr>rx := []\<rparr>))" if "length (cs @ nl) \<le> n" "0 < n" for n
    using that w(2) tok by (simp add: prefix_read_def wire_read_def)
  let ?b1 = "\<lparr>b_src = (?p1, ?w), b_buf = [c], b_err = None\<rparr>"
  let ?b2 = "\<lparr>b_src = (?p1, ?w\<lparr>rx := []\<rparr>), b_buf = tok @ nl, b_err = None\<rparr>"
  have f1: "bufio_fill 100 (prefix_read wire_read) (new_bufrd (?p, ?w)) = Some ?b1"
    using r1 [of bufio_size] by (simp add: bufio_fill_numeral new_bufrd_def bufio_size_def)
  have "length nl = 1" "nl \<noteq> []" by (simp_all add: nl_def)
  then have f2: "bufio_fill 100 (prefix_read wire_read) ?b1 = Some ?b2"
    using r2 [of "bufio_size - 1"] tok by (simp add: bufio_fill_numeral bufio_size_def Let_def)
  have "read_line (prefix_read wire_read) ?b2 = Some (tok @ nl, None, ?b2\<lparr>b_buf := []\<rparr>)"
    by (rule buffered_line) (simp_all add: nn nl_def)
  then have "read_line (prefix_read wire_read) (new_bufrd (?p, ?w)) = Some (tok @ nl, None, ?b2\<lparr>b_buf := []\<rparr>)"
    unfolding read_line_def
    by (subst read_string.simps, subst read_string.simps)
      (use f1 f2 nn tok(1) in \<open>simp add: new_bufrd_def bufio_size_def\<close>)
  then have rl: "read_line (s_read ?io) (new_bufrd (?p, ?w)) = Some (tok @ nl, None, ?b2\<lparr>b_buf := []\<rparr>)"
    by (simp add: prefix_rwc_def wire_rwc_def)
  have "handleProxyStream ev srv pid region w = with_prefix ev srv '''' [c] ?w ?lg"
    using handle_binary_first [of w c "[]" "[cs @ nl]" ev srv pid region] w tok srv by (simp add: bufio_size_def)
  also have "\<dots> = serve_request ?io snd ev (tok @ nl) (?b2\<lparr>b_buf := []\<rparr>) ?lg"
    using rl by (simp add: with_prefix_def handshake_phase_def obfs_off [OF srv(2,3)] request_phase_def Let_def)
  finally show ?thesis
    using token_is_no_request [OF tok(2)] tok(1) w
    by (simp add: serve_request_def write_buf_def write_string_def prefix_rwc_def under_def wire_rwc_def
        wire_write_def stop_def err_invalid_def wire_close_def)
qed

text \<open>
  C24: a stream can overtake its negotiation. A client that was answered vless by a node with a token
  and opens its stream at once may reach the node before its handler has stored the protocol. The
  node then serves the stream under no protocol: it reads the client's token as a request and answers
  it with an error, although the client followed the protocol it was told.
\<close>

theorem stream_overtakes_negotiation:
  assumes "ClientNegotiate True (Some mc) None (node_peer (Some mgr)) = Inr (''vless'', t)"
    and "lastChosen srv0 = []" "PMax (srv_obfs srv0) \<le> 0" "WDMax (srv_obfs srv0) \<le> 0"
    and "vlessToken srv0 = c # cs" "list_all plain_byte (c # cs)" "\<not> text_start c" "length cs < bufio_size - 2"
    and "rx (w :: wire) = [[c], cs @ nl]" "\<not> closed w" "tx_room w = None"
  shows "\<exists>oc. node_run mgr srv0 [Answered pid (client_offer mc) ''vless'', Served pid '''' (Some oc)] srv0 [(pid, ''vless'')] \<and>
    oc_returned oc \<and> oc_target oc = None \<and>
    tx (oc_stream oc) = tx w @ ''ERR invalid proxy request: expected 3 fields, got 1'' @ nl"
proof -
  from client_answer [OF assms(1)] obtain resp where
    h: "HandleStream (Some mgr) (Inr (client_offer mc)) None = (Inr ''vless'', resp)" by blast
  have l: "lastChosenProtocol pid srv0 = ''''" using assms(2) by (simp add: lastChosenProtocol_def)
  have "length (c # cs) < bufio_size - 1" using assms(8) by (simp add: bufio_size_def)
  from unserved_token [OF _ assms(6,7) this assms(9-11) l assms(3,4), of ev region] obtain oc where
    oc: "handleProxyStream ev srv0 pid region w = Some oc" "oc_returned oc" "oc_target oc = None"
    "tx (oc_stream oc) = tx w @ ''ERR invalid proxy request: expected 3 fields, got 1'' @ nl" by blast
  have "node_run mgr srv0 [Answered pid (client_offer mc) ''vless''] srv0 [(pid, ''vless'')]"
    using run_answer [OF run_start h] by simp
  from run_serve [OF this, where pid = pid and ev = ev and region = region and w = w] l oc(1)
  have "node_run mgr srv0 [Answered pid (client_offer mc) ''vless'', Served pid '''' (Some oc)] srv0 [(pid, ''vless'')]" by simp
  with oc show ?thesis by blast
qed

lemma stream_overtakes_negotiation_witness:
  "\<exists>(mc :: unit manager) t oc. ClientNegotiate True (Some mc) None (node_peer (Some (node_manager [''vless'']))) = Inr (''vless'', t) \<and>
     node_run (node_manager [''vless'']) (SetVLESSAuthToken ''secret'' NewServer)
       [Answered ''p1'' (client_offer mc) ''vless'', Served ''p1'' '''' (Some oc)]
       (SetVLESSAuthToken ''secret'' NewServer) [(''p1'', ''vless'')] \<and>
     tx (oc_stream oc) = ''ERR invalid proxy request: expected 3 fields, got 1'' @ nl"
proof -
  let ?m = "node_manager [''vless'']" and ?w = "wire_of [''s'', ''ecret'' @ nl] None"
  have n: "SupportedNames ?m = [''vless'']" by code_simp
  obtain t where c: "ClientNegotiate True (Some ?m) None (node_peer (Some ?m)) = Inr (''vless'', t)"
    by (simp add: ClientNegotiate_def node_peer_def HandleStream_def ChooseCommon_first client_offer_def n Let_def)
  have "tx ?w = []" by (simp add: wire_of_def)
  moreover from stream_overtakes_negotiation [OF c, of "SetVLESSAuthToken ''secret'' NewServer" "CHR ''s''" "''ecret''" ?w "''p1''"]
  obtain oc where "node_run ?m (SetVLESSAuthToken ''secret'' NewServer)
      [Answered ''p1'' (client_offer ?m) ''vless'', Served ''p1'' '''' (Some oc)]
      (SetVLESSAuthToken ''secret'' NewServer) [(''p1'', ''vless'')]"
    "tx (oc_stream oc) = tx ?w @ ''ERR invalid proxy request: expected 3 fields, got 1'' @ nl"
    by (auto simp: SetVLESSAuthToken_def NewServer_def wire_of_def text_start_def plain_byte_def bufio_size_def)
  ultimately show ?thesis using c by (intro exI conjI) (assumption, assumption, simp)
qed

end
