(* ===== verification/Layers.thy ===== *)
theory Layers
  imports ProxyServer
begin

text \<open>
  Sessions stacked on a stream. A proxied session of
  \<open>hypernet/services/proxy/server/proxy.go\<close> runs over whatever the phases in front of it have put
  on the network stream: padding, delays, the shadowsocks cipher, or nothing.

  \<open>duplex\<close> is the contract of a stream both of whose directions work: reads deliver what is to come
  and then its end, writes add to what the peer will read. It is proved once that a request and its
  relay over such a stream are correct; \<open>layer\<close> says when a framed session on a duplex stream is one
  itself, and the wrappers of the code are shown to be such layers.
\<close>

section \<open>Duplex streams\<close>

text \<open>
  \<open>inp\<close> is what reads will still deliver, \<open>sent ms\<close> says that the writes so far were the messages
  \<open>ms\<close>, \<open>work\<close> bounds the reads that are left, and \<open>lim\<close> the length of a single write.
\<close>

locale duplex =
  fixes io :: "'s rwc" and inp :: "'s \<Rightarrow> bytes" and sent :: "bytes list \<Rightarrow> 's \<Rightarrow> bool"
    and live :: "'s \<Rightarrow> bool" and work :: "'s \<Rightarrow> nat" and lim :: nat
  assumes read_data:
      "live s \<Longrightarrow> 0 < n \<Longrightarrow> inp s \<noteq> [] \<Longrightarrow>
         \<exists>bs s'. s_read io s n = Some (bs, None, s') \<and> bs \<noteq> [] \<and> length bs \<le> n \<and>
           inp s = bs @ inp s' \<and> work s' < work s"
    and read_end:
      "live s \<Longrightarrow> 0 < n \<Longrightarrow> inp s = [] \<Longrightarrow>
         \<exists>s'. s_read io s n = Some ([], Some EOF, s') \<and> inp s' = []"
    and read_keep:
      "live s \<Longrightarrow> s_read io s n = Some (bs, e, s') \<Longrightarrow> live s' \<and> (sent ms s \<longrightarrow> sent ms s') \<and> work s' \<le> work s"
    and write_data:
      "live s \<Longrightarrow> bs \<noteq> [] \<Longrightarrow> length bs \<le> lim \<Longrightarrow>
         \<exists>s'. s_write io s bs = (length bs, None, s') \<and> live s' \<and> (\<forall>ms. sent ms s \<longrightarrow> sent (ms @ [bs]) s') \<and>
           inp s' = inp s \<and> work s' = work s"
begin

lemma as_stream: "live_stream (s_read io) inp live work"
proof unfold_locales
  fix s :: 's and n :: nat
  assume h: "live s" "0 < n" "inp s \<noteq> []"
  from read_data [OF h] read_keep [OF h(1)]
  show "\<exists>bs s'. s_read io s n = Some (bs, None, s') \<and> inp s = bs @ inp s' \<and> length bs \<le> n \<and> live s' \<and> work s' < work s"
    by blast
  fix bs e s'
  assume "s_read io s n = Some (bs, e, s')"
  with read_data [OF h] show "bs \<noteq> []" by auto
qed

lemma as_readable: "byte_stream (s_read io) inp live work"
  using as_stream by (rule live_stream.axioms(1))

text \<open>What any number of reads leaves of a live stream.\<close>

definition kept :: "'s \<Rightarrow> 's \<Rightarrow> bool" where
  "kept s s' \<longleftrightarrow> (live s \<longrightarrow> live s' \<and> (\<forall>ms. sent ms s \<longrightarrow> sent ms s') \<and> work s' \<le> work s)"

lemma kept_order: "reflp kept" "transp kept"
  by (auto simp: kept_def reflp_def transp_def intro: order_trans)

lemma read_kept: "s_read io s n = Some (bs, e, s') \<Longrightarrow> kept s s'"
  using read_keep by (auto simp: kept_def)

lemma read_full_kept: "read_full (s_read io) s k = Some (bs, e, s') \<Longrightarrow> kept s s'"
  using read_loop_rel [OF read_kept kept_order] by (simp add: read_full_def read_at_least_def)

lemma read_line_kept: "read_line (s_read io) b = Some (l, e, b') \<Longrightarrow> kept (b_src b) (b_src b')"
  using read_string_rel [OF read_kept kept_order] by (simp add: read_line_def)

text \<open>At the end of the input \<open>io.ReadFull\<close> reports the end without a byte.\<close>

lemma read_full_end:
  assumes "live s" "inp s = []" "0 < k"
  shows "\<exists>s'. read_full (s_read io) s k = Some ([], Some EOF, s') \<and> inp s' = []"
proof -
  from read_end [OF assms(1,3,2)] obtain s' where
    "s_read io s k = Some ([], Some EOF, s')" "inp s' = []" by blast
  with assms(3) show ?thesis
    by (simp add: read_full_def read_at_least_def read_loop.simps [of "s_read io" s k k "[]"] at_least_err_def)
qed

text \<open>The first line of the input, and the reader behind it.\<close>

lemma first_line:
  assumes "live s" "inp s = l @ newline # rest" "newline \<notin> set l"
  shows "\<exists>b. read_line (s_read io) (new_bufrd s) = Some (l @ nl, None, b) \<and> b_err b = None \<and>
    kept s (b_src b) \<and> b_buf b @ inp (b_src b) = rest"
proof -
  from live_stream.read_line_content [OF as_stream assms] obtain b where
    b: "read_line (s_read io) (new_bufrd s) = Some (l @ [newline], None, b)"
    "b_buf b @ inp (b_src b) = rest" "byte_stream.buf_ok live b" by blast
  from read_line_kept [OF b(1)] have "kept s (b_src b)" by (simp add: new_bufrd_def)
  with b show ?thesis
    by (auto simp: nl_def byte_stream.buf_ok_def [OF as_readable])
qed

section \<open>The relay over a duplex stream\<close>

lemma buffered_data:
  assumes "live (b_src b)" "b_err b = None" "bufio_size \<le> n" "b_buf b @ inp (b_src b) \<noteq> []"
  shows "\<exists>bs b'. bufio_read (s_read io) b n = Some (bs, None, b') \<and> bs \<noteq> [] \<and> length bs \<le> n \<and>
    b_buf b @ inp (b_src b) = bs @ b_buf b' @ inp (b_src b') \<and> kept (b_src b) (b_src b') \<and>
    b_err b' = None \<and> length (b_buf b') + work (b_src b') < length (b_buf b) + work (b_src b)"
proof (cases "b_buf b = []")
  case False
  have n: "0 < n" using assms(3) by (simp add: bufio_size_def)
  with False assms show ?thesis
    by (intro exI [of _ "take n (b_buf b)"] exI [of _ "b\<lparr>b_buf := drop n (b_buf b)\<rparr>"])
      (auto intro: reflpD [OF kept_order(1)] simp: bufio_read_def append_assoc [symmetric] simp del: append_assoc)
next
  case True
  have n: "0 < n" using assms(3) by (simp add: bufio_size_def)
  from read_data [OF assms(1) n] True assms(4) obtain bs s' where
    r: "s_read io (b_src b) n = Some (bs, None, s')" "bs \<noteq> []" "length bs \<le> n" "inp (b_src b) = bs @ inp s'"
    "work s' < work (b_src b)" by auto
  from read_kept [OF r(1)] r True n assms(2,3) show ?thesis
    by (intro exI [of _ bs] exI [of _ "b\<lparr>b_src := s'\<rparr>"]) (simp add: bufio_read_def)
qed

lemma buffered_end:
  assumes "live (b_src b)" "b_err b = None" "bufio_size \<le> n" "b_buf b @ inp (b_src b) = []"
  shows "\<exists>b'. bufio_read (s_read io) b n = Some ([], Some EOF, b') \<and> b_buf b' = [] \<and> inp (b_src b') = [] \<and>
    kept (b_src b) (b_src b') \<and> b_err b' = None"
proof -
  have n: "0 < n" "inp (b_src b) = []" using assms(3,4) by (simp_all add: bufio_size_def)
  from read_end [OF assms(1) n] obtain s' where
    r: "s_read io (b_src b) n = Some ([], Some EOF, s')" "inp s' = []" by blast
  from read_kept [OF r(1)] r n assms(2-4) show ?thesis
    by (intro exI [of _ "b\<lparr>b_src := s'\<rparr>"]) (simp add: bufio_read_def)
qed

definition copying :: "bytes \<Rightarrow> bytes \<Rightarrow> bytes \<Rightarrow> bytes list \<Rightarrow> 's pipe \<Rightarrow> bool" where
  "copying U D t0 m0 p \<longleftrightarrow>
     live (b_src (upstream p)) \<and> b_err (upstream p) = None \<and> ends_well (target p) \<and>
     tx (target p) @ b_buf (upstream p) @ inp (b_src (upstream p)) = t0 @ U \<and>
     (\<exists>ms. sent (m0 @ ms) (b_src (upstream p)) \<and> concat ms @ concat (rx (target p)) = D \<and>
        down_n p = length (concat ms)) \<and>
     length t0 + up_n p = length (tx (target p)) \<and>
     (case up_done p of None \<Rightarrow> ctr_up p = 0
      | Some r \<Rightarrow> r = None \<and> b_buf (upstream p) = [] \<and> inp (b_src (upstream p)) = [] \<and> ctr_up p = up_n p) \<and>
     (case down_done p of None \<Rightarrow> ctr_down p = 0
      | Some r \<Rightarrow> r = None \<and> rx (target p) = [] \<and> ctr_down p = down_n p)"

definition up_rest :: "'s pipe \<Rightarrow> nat" where
  "up_rest p = (if up_done p \<noteq> None then 0 else 1 + length (b_buf (upstream p)) + work (b_src (upstream p)))"

definition down_rest :: "'s pipe \<Rightarrow> nat" where
  "down_rest p = (if down_done p \<noteq> None then 0 else 1 + length (rx (target p)) + length (concat (rx (target p))))"

lemma up_turn:
  assumes c: "copying U D t0 m0 p" and nd: "up_done p = None"
  shows "\<exists>p'. up_round io p = Some p' \<and> copying U D t0 m0 p' \<and> up_rest p' < up_rest p \<and> down_rest p' = down_rest p"
proof -
  let ?b = "upstream p" and ?t = "target p"
  have h: "live (b_src ?b)" "b_err ?b = None" "ends_well ?t" using c by (simp_all add: copying_def)
  have big: "bufio_size \<le> copy_buf_size" by (simp add: bufio_size_def copy_buf_size_def)
  show ?thesis
  proof (cases "b_buf ?b @ inp (b_src ?b) = []")
    case True
    from buffered_end [OF h(1,2) big True] obtain b' where
      r: "bufio_read (s_read io) ?b copy_buf_size = Some ([], Some EOF, b')" "b_buf b' = []" "inp (b_src b') = []"
      "kept (b_src ?b) (b_src b')" "b_err b' = None" by blast
    from r(4) h(1) have k: "live (b_src b')" "\<forall>ms. sent ms (b_src ?b) \<longrightarrow> sent ms (b_src b')" by (simp_all add: kept_def)
    let ?p = "p\<lparr>upstream := b', target := ?t, up_n := up_n p, up_done := Some None, ctr_up := ctr_up p + up_n p\<rparr>"
    have "up_round io p = Some ?p" using nd r(1) by (simp add: up_round_def copy_round_def)
    moreover have "copying U D t0 m0 ?p" using c nd r k True by (auto simp: copying_def split: option.splits)
    ultimately show ?thesis using nd by (intro exI [of _ ?p]) (simp add: up_rest_def down_rest_def)
  next
    case False
    from buffered_data [OF h(1,2) big False] obtain bs b' where
      r: "bufio_read (s_read io) ?b copy_buf_size = Some (bs, None, b')" "bs \<noteq> []"
      "b_buf ?b @ inp (b_src ?b) = bs @ b_buf b' @ inp (b_src b')"
      "kept (b_src ?b) (b_src b')" "b_err b' = None"
      "length (b_buf b') + work (b_src b') < length (b_buf ?b) + work (b_src ?b)" by blast
    from r(4) h(1) have k: "live (b_src b')" "\<forall>ms. sent ms (b_src ?b) \<longrightarrow> sent ms (b_src b')" by (simp_all add: kept_def)
    let ?p = "p\<lparr>upstream := b', target := ?t\<lparr>tx := tx ?t @ bs\<rparr>, up_n := up_n p + length bs\<rparr>"
    have "up_round io p = Some ?p"
      using nd r(1,2) by (simp add: up_round_def copy_round_def ends_well_write [OF h(3)])
    moreover have "copying U D t0 m0 ?p" using c nd r k by (auto simp: copying_def split: option.splits)
    ultimately show ?thesis using nd r(6) by (intro exI [of _ ?p]) (simp add: up_rest_def down_rest_def)
  qed
qed

lemma down_turn:
  assumes lim: "copy_buf_size \<le> lim" and c: "copying U D t0 m0 p" and nd: "down_done p = None"
  shows "\<exists>p'. down_round io p = Some p' \<and> copying U D t0 m0 p' \<and> down_rest p' < down_rest p \<and> up_rest p' = up_rest p"
proof -
  let ?b = "upstream p" and ?t = "target p"
  have h: "live (b_src ?b)" "b_err ?b = None" "ends_well ?t" using c by (simp_all add: copying_def)
  have big: "0 < copy_buf_size" by (simp add: copy_buf_size_def)
  show ?thesis
  proof (cases "rx ?t")
    case Nil
    then have r: "wire_read ?t copy_buf_size = Some ([], Some EOF, ?t)"
      using h(3) by (simp add: wire_read_def ends_well_def copy_buf_size_def)
    let ?p = "p\<lparr>upstream := ?b, target := ?t, down_n := down_n p, down_done := Some None,
      ctr_down := ctr_down p + down_n p\<rparr>"
    have "down_round io p = Some ?p" using nd r by (simp add: down_round_def copy_round_def)
    moreover have "copying U D t0 m0 ?p" using c nd Nil by (simp add: copying_def split: option.splits)
    ultimately show ?thesis using nd by (intro exI [of _ ?p]) (simp add: up_rest_def down_rest_def)
  next
    case (Cons seg segs)
    define rest where "rest = (if length seg \<le> copy_buf_size then segs else drop copy_buf_size seg # segs)"
    let ?bs = "take copy_buf_size seg" and ?t1 = "?t\<lparr>rx := rest\<rparr>"
    have r: "wire_read ?t copy_buf_size = Some (?bs, None, ?t1)"
      using h(3) Cons by (simp add: wire_read_def ends_well_def copy_buf_size_def rest_def)
    have rest: "?bs @ concat rest = concat (rx ?t)"
      "length rest + length (concat rest) < length (rx ?t) + length (concat (rx ?t))"
      using Cons big by (auto simp: rest_def append_assoc [symmetric] simp del: append_assoc)
    show ?thesis
    proof (cases "?bs = []")
      case True
      let ?p = "p\<lparr>upstream := ?b, target := ?t1, down_n := down_n p\<rparr>"
      have "down_round io p = Some ?p" using nd r True by (simp add: down_round_def copy_round_def)
      moreover have "copying U D t0 m0 ?p" using c nd rest(1) True h(3) by (auto simp: copying_def split: option.splits)
      ultimately show ?thesis using nd rest(2) by (intro exI [of _ ?p]) (simp add: up_rest_def down_rest_def)
    next
      case False
      have "length ?bs \<le> lim" using lim by simp
      from write_data [OF h(1) False this] obtain s' where
        w: "s_write io (b_src ?b) ?bs = (length ?bs, None, s')" "live s'"
        "\<forall>ms. sent ms (b_src ?b) \<longrightarrow> sent (ms @ [?bs]) s'" "inp s' = inp (b_src ?b)" "work s' = work (b_src ?b)" by blast
      let ?p = "p\<lparr>upstream := ?b\<lparr>b_src := s'\<rparr>, target := ?t1, down_n := down_n p + length ?bs\<rparr>"
      have "down_round io p = Some ?p"
        using nd r w(1) False by (simp add: down_round_def copy_round_def stream_write_def)
      moreover have "copying U D t0 m0 ?p"
      proof -
        from c obtain ms where ms: "sent (m0 @ ms) (b_src ?b)" "concat ms @ concat (rx ?t) = D" "down_n p = length (concat ms)"
          by (auto simp: copying_def)
        have "sent (m0 @ ms @ [?bs]) s'" using w(3) ms(1) by fastforce
        moreover have "concat (ms @ [?bs]) @ concat rest = D" using ms(2) rest(1) by simp
        moreover have "down_n p + length ?bs = length (concat (ms @ [?bs]))" using ms(3) by simp
        ultimately have "\<exists>ms. sent (m0 @ ms) s' \<and> concat ms @ concat rest = D \<and> down_n p + length ?bs = length (concat ms)" by blast
        with c nd w h(3) show ?thesis by (simp add: copying_def split: option.splits)
      qed
      ultimately show ?thesis using nd rest(2) w(5) by (intro exI [of _ ?p]) (simp add: up_rest_def down_rest_def)
    qed
  qed
qed

lemma relay_tasks: "copy_buf_size \<le> lim \<Longrightarrow>
    two_tasks (up_round io) (down_round io) (pipe_run io) (copying U D t0 m0) up_rest down_rest"
proof unfold_locales
  fix p :: "'s pipe"
  assume lim: "copy_buf_size \<le> lim" and c: "copying U D t0 m0 p"
  show "up_rest p = 0 \<Longrightarrow> up_round io p = None" by (simp add: up_rest_def up_round_def split: if_splits)
  show "down_rest p = 0 \<Longrightarrow> down_round io p = None" by (simp add: down_rest_def down_round_def split: if_splits)
  show "0 < up_rest p \<Longrightarrow> \<exists>p'. up_round io p = Some p' \<and> copying U D t0 m0 p' \<and> up_rest p' < up_rest p \<and>
      down_rest p' = down_rest p"
    using up_turn [OF c] by (simp add: up_rest_def split: if_splits)
  show "0 < down_rest p \<Longrightarrow> \<exists>p'. down_round io p = Some p' \<and> copying U D t0 m0 p' \<and>
      down_rest p' < down_rest p \<and> up_rest p' = up_rest p"
    using down_turn [OF lim c] by (simp add: down_rest_def split: if_splits)
qed simp_all

text \<open>With enough turns for both goroutines everything is copied in both directions.\<close>

lemma relay_copies:
  assumes "live (b_src b)" "b_err b = None" "ends_well t" "copy_buf_size \<le> lim" "sent m0 (b_src b)"
    and "1 + length (b_buf b) + work (b_src b) \<le> turns True sched"
    and "1 + length (rx t) + length (concat (rx t)) \<le> turns False sched"
  shows "let p = pipe_run io sched (new_pipe b t); u = b_buf b @ inp (b_src b); d = concat (rx t) in
    pipe_done p \<and> tx (target p) = tx t @ u \<and> (\<exists>ms. sent (m0 @ ms) (b_src (upstream p)) \<and> concat ms = d) \<and>
    ctr_up p = length u \<and> ctr_down p = length d \<and> live (b_src (upstream p))"
proof -
  let ?p0 = "new_pipe b t" and ?u = "b_buf b @ inp (b_src b)"
  define p where "p = pipe_run io sched ?p0"
  have "copying ?u (concat (rx t)) (tx t) m0 ?p0"
    using assms(1-3,5) by (auto simp: copying_def new_pipe_def intro: exI [of _ "[]"])
  moreover have "up_rest ?p0 \<le> turns True sched" "down_rest ?p0 \<le> turns False sched"
    using assms(6,7) by (simp_all add: up_rest_def down_rest_def new_pipe_def)
  ultimately have f: "copying ?u (concat (rx t)) (tx t) m0 p" "up_rest p = 0" "down_rest p = 0"
    using two_tasks.finishes [OF relay_tasks [OF assms(4)]] by (simp_all add: p_def)
  then obtain x y where xy: "up_done p = Some x" "down_done p = Some y"
    by (auto simp: up_rest_def down_rest_def split: if_splits)
  with f(1) have e: "b_buf (upstream p) = []" "inp (b_src (upstream p)) = []" "rx (target p) = []"
    by (simp_all add: copying_def)
  from f(1) [unfolded copying_def e] xy have g: "tx (target p) = tx t @ ?u" "\<exists>ms. sent (m0 @ ms) (b_src (upstream p)) \<and> concat ms = concat (rx t) \<and> down_n p = length (concat ms)"
    "ctr_up p = up_n p" "ctr_down p = down_n p" "length (tx t) + up_n p = length (tx (target p))" "live (b_src (upstream p))"
    by simp_all
  from g(5) have "up_n p = length ?u" unfolding g(1) by simp
  then show ?thesis
    unfolding Let_def p_def [symmetric] using g xy by (auto simp: pipe_done_def)
qed

end

section \<open>A request over a duplex stream\<close>

context duplex
begin

text \<open>
  What a served request leaves: the target has what was behind the request, the stream the \<open>OK\<close>
  line as a message of its own and then the target's bytes, both are closed, and the log ends with
  the counts.
\<close>

definition served :: "('s \<Rightarrow> wire) \<Rightarrow> bytes list \<Rightarrow> bytes \<Rightarrow> wire \<Rightarrow> slog \<Rightarrow> outcome option \<Rightarrow> bool" where
  "served base m0 data t lg r \<longleftrightarrow>
     (\<exists>oc t' s' ms. r = Some oc \<and> oc_returned oc \<and>
        oc_target oc = Some t' \<and> tx t' = tx t @ data \<and> closed t' \<and>
        oc_stream oc = wire_close (base s') \<and> live s' \<and>
        sent (m0 @ (''OK'' @ nl) # ms) s' \<and> concat ms = concat (rx t) \<and>
        (log_on lg \<and> log_success lg \<longrightarrow>
           last (log_events (oc_log oc)) = MEnd (length data) (length (concat (rx t))) True (log_reason lg)))"

lemma serve_session:
  assumes p: "p = ''TCP'' \<or> p = ''DIRECT''" and h: "host_ok host" "0 < port" "port \<le> 65535"
    and b: "live (b_src b)" "b_err b = None" "copy_buf_size \<le> lim" "sent m0 (b_src b)"
    and d: "e_dial_tcp ev host port = Inr t" "ends_well t"
    and s: "1 + length (b_buf b) + work (b_src b) \<le> turns True (e_sched ev)"
      "1 + length (rx t) + length (concat (rx t)) \<le> turns False (e_sched ev)"
  shows "served base m0 (b_buf b @ inp (b_src b)) t lg
    (serve_request io base ev (request_line p host port) b lg)"
proof -
  let ?req = "\<lparr>Proto = p, Host = host, Port = port\<rparr>"
  define ok :: bytes where "ok = ''OK'' @ nl"
  have "length ok = 3" by (simp add: ok_def nl_def)
  then have okl: "ok \<noteq> []" "length ok \<le> lim" using b(3) by (auto simp: copy_buf_size_def)
  from write_data [OF b(1) okl] obtain s' where
    w: "s_write io (b_src b) ok = (length ok, None, s')" "live s'" "\<forall>ms. sent ms (b_src b) \<longrightarrow> sent (ms @ [ok]) s'"
    "inp s' = inp (b_src b)" "work s' = work (b_src b)" by blast
  let ?b = "b\<lparr>b_src := s'\<rparr>"
  define q where "q = pipe_run io (e_sched ev) (new_pipe ?b t)"
  have "1 + length (b_buf ?b) + work (b_src ?b) \<le> turns True (e_sched ev)" using s(1) w(5) by simp
  moreover have "sent (m0 @ [ok]) (b_src ?b)" using w(3) b(4) by simp
  ultimately have run0: "pipe_done q" "tx (target q) = tx t @ b_buf b @ inp (b_src b)"
    "\<exists>ms. sent ((m0 @ [ok]) @ ms) (b_src (upstream q)) \<and> concat ms = concat (rx t)" "live (b_src (upstream q))"
    "ctr_up q = length (b_buf b @ inp (b_src b))" "ctr_down q = length (concat (rx t))"
    using relay_copies [of ?b t "m0 @ [ok]" "e_sched ev"] w b(2,3) d(2) s(2)
    unfolding Let_def q_def [symmetric] by auto
  then obtain ms where run: "pipe_done q" "tx (target q) = tx t @ b_buf b @ inp (b_src b)"
    "sent (m0 @ ok # ms) (b_src (upstream q))" "concat ms = concat (rx t)" "live (b_src (upstream q))"
    "ctr_up q = length (b_buf b @ inp (b_src b))" "ctr_down q = length (concat (rx t))"
    by auto
  have wb: "write_buf io b ok = (None, ?b)" using w(1) by (simp add: write_buf_def write_string_def)
  let ?q = "q\<lparr>target := wire_close (target q)\<rparr>"
  have tcp: "handleTCPProxy io ev ?req b lg =
      (None, add_event ''session_closed'' [(''host'', host), (''port'', itoa port)] lg, upstream q, Some ?q)"
    using d(1) wb run(1) by (simp add: handleTCPProxy_def [folded ok_def] q_def [symmetric] Let_def)
  have fin: "pipe_done ?q" using run(1) by (simp add: pipe_done_def)
  have "ParseRequest (request_line p host port) = Inr ?req"
    by (rule ParseRequest_line) (use p h in blast)+
  moreover have "to_upper p = ''TCP'' \<or> to_upper p = ''DIRECT''"
    using request_line_shape(4) [OF _ h(1)] p by auto
  ultimately have r: "serve_request io base ev (request_line p host port) b lg = Some (tcp_outcome base ?req
      (None, add_event ''session_closed'' [(''host'', host), (''port'', itoa port)] lg, upstream q, Some ?q))"
    by (simp add: serve_request_def tcp)
  show ?thesis
    unfolding r served_def
    using run fin
    by (intro exI [of _ "tcp_outcome base ?req (None, add_event ''session_closed''
            [(''host'', host), (''port'', itoa port)] lg, upstream q, Some ?q)"]
        exI [of _ "wire_close (target q)"] exI [of _ "b_src (upstream q)"] exI [of _ ms])
      (simp add: tcp_outcome_def end_session_def add_event_def wire_close_def ok_def)
qed

lemma request_session:
  assumes p: "p = ''TCP'' \<or> p = ''DIRECT''" and h: "host_ok host" "0 < port" "port \<le> 65535"
    and b: "live s" "inp s = request_line p host port @ data" "copy_buf_size \<le> lim" "sent m0 s"
    and d: "e_dial_tcp ev host port = Inr t" "ends_well t"
    and n: "1 + length (inp s) + work s \<le> turns True (e_sched ev)"
      "1 + length (rx t) + length (concat (rx t)) \<le> turns False (e_sched ev)"
  shows "served base m0 data t lg (request_phase io base ev [] s lg)"
proof -
  from request_line_shape(1) [OF _ h(1), of p port] p obtain c l where
    cl: "request_line p host port = c # l @ nl" "text_start c" "newline \<notin> set l" by blast
  have "inp s = (c # l) @ newline # data" "newline \<notin> set (c # l)"
    using b(2) cl by (auto simp: nl_def text_start_def)
  from first_line [OF b(1) this] cl(1) obtain b' where
    b': "read_line (s_read io) (new_bufrd s) = Some (request_line p host port, None, b')" "b_err b' = None"
    "kept s (b_src b')" "b_buf b' @ inp (b_src b') = data" by auto
  from b'(3) b(1,4) have k: "live (b_src b')" "sent m0 (b_src b')" "work (b_src b') \<le> work s" by (simp_all add: kept_def)
  have "length (b_buf b') \<le> length (inp s)" unfolding b(2) b'(4) [symmetric] by simp
  with n(1) k(3) have "1 + length (b_buf b') + work (b_src b') \<le> turns True (e_sched ev)" by simp
  from serve_session [OF p h k(1) b'(2) b(3) k(2) d this n(2), of base lg] b'(1,4)
  show ?thesis by (simp add: request_phase_def)
qed

end

section \<open>Messages that arrive whole\<close>

text \<open>
  \<open>nxt m s\<close>: the next read with room for it delivers exactly the message \<open>m\<close>. Writes in between do not
  change this.
\<close>

locale messages = duplex io inp sent live work lim
  for io :: "'s rwc" and inp :: "'s \<Rightarrow> bytes" and sent :: "bytes list \<Rightarrow> 's \<Rightarrow> bool"
    and live :: "'s \<Rightarrow> bool" and work :: "'s \<Rightarrow> nat" and lim :: nat +
  fixes nxt :: "bytes \<Rightarrow> 's \<Rightarrow> bool"
  assumes nxt_read: "live s \<Longrightarrow> nxt m s \<Longrightarrow> 0 < n \<Longrightarrow> length m \<le> n \<Longrightarrow>
      \<exists>s'. s_read io s n = Some (m, None, s') \<and> inp s = m @ inp s'"
    and nxt_write: "live s \<Longrightarrow> nxt m s \<Longrightarrow> bs \<noteq> [] \<Longrightarrow> length bs \<le> lim \<Longrightarrow> s_write io s bs = (n, e, s') \<Longrightarrow> nxt m s'"
begin

lemma as_duplex: "duplex io inp sent live work lim"
  by unfold_locales

text \<open>A line that arrives as a message leaves nothing in the buffer of its reader.\<close>

lemma whole_line:
  assumes "live s" "nxt (l @ nl) s" "newline \<notin> set l" "length (l @ nl) \<le> bufio_size"
  shows "\<exists>s'. read_line (s_read io) (new_bufrd s) = Some (l @ nl, None, new_bufrd s') \<and>
    inp s = l @ nl @ inp s' \<and> kept s s'"
proof -
  from nxt_read [OF assms(1,2) _ assms(4)] obtain s' where
    r: "s_read io s bufio_size = Some (l @ nl, None, s')" "inp s = (l @ nl) @ inp s'" by (auto simp: bufio_size_def)
  let ?b = "\<lparr>b_src = s', b_buf = l @ nl, b_err = None\<rparr>"
  have "l @ nl \<noteq> []" by (simp add: nl_def)
  then have f: "bufio_fill 100 (s_read io) (new_bufrd s) = Some ?b"
    using r(1) by (simp add: bufio_fill_numeral new_bufrd_def Let_def)
  then have "read_line (s_read io) (new_bufrd s) = read_line (s_read io) ?b"
    unfolding read_line_def by (subst read_string.simps) (simp add: new_bufrd_def bufio_size_def)
  also have "\<dots> = Some (l @ nl, None, ?b\<lparr>b_buf := []\<rparr>)"
    by (rule buffered_line) (simp_all add: assms(3) nl_def)
  finally show ?thesis using r(2) read_kept [OF r(1)] by (simp add: new_bufrd_def)
qed

end

section \<open>Frames\<close>

text \<open>
  A byte string cut into whole frames, none of them empty. \<open>whole\<close> is a frame as the splitter takes
  it off, whatever follows.
\<close>

definition whole :: "splitter \<Rightarrow> bytes \<Rightarrow> bytes \<Rightarrow> bool" where
  "whole sp p f \<longleftrightarrow> f \<noteq> [] \<and> (\<forall>r. sp (f @ r) = Some (p, r))"

inductive frames :: "splitter \<Rightarrow> bytes list \<Rightarrow> bytes \<Rightarrow> bool" for sp where
  frames_Nil: "frames sp [] []"
| frames_Cons: "whole sp p f \<Longrightarrow> p \<noteq> [] \<Longrightarrow> frames sp ps bs \<Longrightarrow> frames sp (p # ps) (f @ bs)"

inductive_cases frames_ConsE: "frames sp (p # ps) bs"
inductive_simps frames_Nil_iff [simp]: "frames sp [] bs"

lemma frames_one: "whole sp p f \<Longrightarrow> p \<noteq> [] \<Longrightarrow> frames sp [p] f"
  using frames_Cons [of sp p f "[]" "[]"] frames_Nil by simp

lemma frames_append: "frames sp ps bs \<Longrightarrow> frames sp qs cs \<Longrightarrow> frames sp (ps @ qs) (bs @ cs)"
proof (induction rule: frames.induct)
  case (frames_Cons p f ps bs)
  from frames.frames_Cons [OF frames_Cons.hyps(1,2) frames_Cons.IH [OF frames_Cons.prems]] show ?case by simp
qed simp

lemma frames_payload: "frames sp ps bs \<Longrightarrow> sp [] = None \<Longrightarrow> deframe sp bs = concat ps"
  by (induction rule: frames.induct) (auto simp: deframe_None whole_def deframe_Some)

lemma frames_empty: "frames sp ps bs \<Longrightarrow> bs = [] \<longleftrightarrow> ps = []"
  by (induction rule: frames.induct) (auto simp: whole_def)

lemma frames_next:
  assumes "frames sp (p # ps) bs"
  shows "\<exists>r. sp bs = Some (p, r) \<and> frames sp ps r \<and> length r < length bs"
  using assms by (elim frames_ConsE) (auto simp: whole_def)

lemma frames_nonempty: "frames sp ps bs \<Longrightarrow> [] \<notin> set ps"
  by (induction rule: frames.induct) auto

section \<open>Layers\<close>

text \<open>
  A framed session on a duplex stream: it reads the frames of the peer, ends where the stream ends,
  and makes one whole frame of every write of at most \<open>lim2\<close> bytes.
\<close>

locale layer = duplex io inp sent live work lim
  for io :: "'s rwc" and inp :: "'s \<Rightarrow> bytes" and sent :: "bytes list \<Rightarrow> 's \<Rightarrow> bool"
    and live :: "'s \<Rightarrow> bool" and work :: "'s \<Rightarrow> nat" and lim :: nat +
  fixes io2 :: "('c \<times> 's) rwc" and buffered :: "'c \<Rightarrow> bytes" and good :: "'c \<Rightarrow> bool"
    and split :: splitter and lim2 :: nat
  assumes session: "framed_session (s_read io) inp live work (s_read io2) buffered good split"
    and session_end:
      "good c \<Longrightarrow> live s \<Longrightarrow> buffered c = [] \<Longrightarrow> inp s = [] \<Longrightarrow>
         \<exists>c' s'. s_read io2 (c, s) n = Some ([], Some EOF, (c', s')) \<and> good c' \<and> buffered c' = [] \<and> inp s' = []"
    and session_kept: "s_read io2 (c, s) n = Some (bs, e, (c', s')) \<Longrightarrow> kept s s'"
    and session_write:
      "good c \<Longrightarrow> live s \<Longrightarrow> p \<noteq> [] \<Longrightarrow> length p \<le> lim2 \<Longrightarrow>
         \<exists>fs c' s'. s_write io2 (c, s) p = (length p, None, (c', s')) \<and> whole split p (concat fs) \<and> live s' \<and>
           (\<forall>ms. sent ms s \<longrightarrow> sent (ms @ fs) s') \<and> inp s' = inp s \<and> work s' = work s \<and> good c' \<and> buffered c' = buffered c"
begin

definition inp2 :: "'c \<times> 's \<Rightarrow> bytes" where
  "inp2 = (\<lambda>(c, s). buffered c @ deframe split (inp s))"

text \<open>What was sent through the layer: each message is a frame, written behind \<open>pre\<close>.\<close>

definition sent2 :: "bytes list \<Rightarrow> bytes list \<Rightarrow> 'c \<times> 's \<Rightarrow> bool" where
  "sent2 pre ms = (\<lambda>(c, s). \<exists>fss. sent (pre @ concat fss) s \<and>
     list_all2 (\<lambda>m fs. m \<noteq> [] \<and> whole split m (concat fs)) ms fss)"

definition live2 :: "'c \<times> 's \<Rightarrow> bool" where
  "live2 = (\<lambda>(c, s). good c \<and> live s \<and> (\<exists>ps. frames split ps (inp s)))"

definition work2 :: "'c \<times> 's \<Rightarrow> nat" where
  "work2 = (\<lambda>(c, s). length (buffered c) + length (inp s))"

lemma split_Nil: "split [] = None"
  using framed_session.split_shrinks [OF session, of "[]"] by (cases "split []") auto

text \<open>The three ways a read of the session can go, and what it delivers.\<close>

lemma read_cases:
  assumes "live2 (c, s)"
  obtains (buffered) c' where "buffered c \<noteq> []" "s_read io2 (c, s) n = Some (take n (buffered c), None, (c', s))"
      "good c'" "buffered c' = drop n (buffered c)"
  | (frame) p ps c' s' where "buffered c = []" "frames split (p # ps) (inp s)" "p \<noteq> []"
      "s_read io2 (c, s) n = Some (take n p, None, (c', s'))" "good c'" "buffered c' = drop n p"
      "frames split ps (inp s')" "length p + length (inp s') < length (inp s)"
  | (ended) c' s' where "buffered c = []" "inp s = []" "s_read io2 (c, s) n = Some ([], Some EOF, (c', s'))"
      "good c'" "buffered c' = []" "inp s' = []"
proof -
  from assms obtain ps where g: "good c" "live s" "frames split ps (inp s)" by (auto simp: live2_def)
  show thesis
  proof (cases "buffered c = []")
    case False
    from framed_session.read_buffered [OF session g(1) False] False that(1) show thesis by blast
  next
    case b: True
    show thesis
    proof (cases ps)
      case Nil
      with g(3) have "inp s = []" by simp
      from session_end [OF g(1,2) b this] b this that(3) show thesis by blast
    next
      case (Cons p qs)
      with g(3) have f: "frames split (p # qs) (inp s)" by simp
      from frames_next [OF f] obtain r where r: "split (inp s) = Some (p, r)" "frames split qs r" by blast
      from framed_session.read_frame [OF session g(1,2) b r(1)] obtain c' s' where
        "s_read io2 (c, s) n = Some (take n p, None, (c', s'))" "good c'" "buffered c' = drop n p" "inp s' = r"
        by blast
      moreover have "length p + length r < length (inp s)"
        by (rule framed_session.split_shrinks [OF session r(1)])
      moreover have "p \<noteq> []" using frames_nonempty [OF f] by auto
      ultimately show thesis using that(2) [OF b f] r(2) by auto
    qed
  qed
qed

lemma frames_deframe: "frames split ps bs \<Longrightarrow> deframe split bs = concat ps"
  using frames_payload split_Nil by blast

lemma stacked: "duplex io2 inp2 (sent2 pre) live2 work2 lim2"
proof unfold_locales
  fix cs :: "'c \<times> 's" and n :: nat
  obtain c s where cs: "cs = (c, s)" by fastforce
  assume h: "live2 cs" "0 < n" "inp2 cs \<noteq> []"
  from h(1) [unfolded cs] show "\<exists>bs s'. s_read io2 cs n = Some (bs, None, s') \<and> bs \<noteq> [] \<and> length bs \<le> n \<and>
      inp2 cs = bs @ inp2 s' \<and> work2 s' < work2 cs"
  proof (cases rule: read_cases [where n = n])
    case (buffered c')
    with h(2) show ?thesis by (auto simp: cs inp2_def work2_def)
  next
    case (frame p ps c' s')
    with h(2) show ?thesis by (auto simp: cs inp2_def work2_def frames_deframe)
  next
    case (ended c' s')
    with h(3) show ?thesis by (simp add: cs inp2_def deframe_None split_Nil)
  qed
next
  fix cs :: "'c \<times> 's" and n :: nat
  obtain c s where cs: "cs = (c, s)" by fastforce
  assume h: "live2 cs" "0 < n" "inp2 cs = []"
  from h(1) [unfolded cs] show "\<exists>s'. s_read io2 cs n = Some ([], Some EOF, s') \<and> inp2 s' = []"
  proof (cases rule: read_cases [where n = n])
    case (buffered c')
    with h(3) show ?thesis by (simp add: cs inp2_def)
  next
    case (frame p ps c' s')
    with h(3) show ?thesis by (simp add: cs inp2_def frames_deframe)
  next
    case (ended c' s')
    then show ?thesis by (simp add: cs inp2_def deframe_None split_Nil)
  qed
next
  fix cs :: "'c \<times> 's" and n :: nat and bs e and cs' :: "'c \<times> 's"
  obtain c s where cs: "cs = (c, s)" by fastforce
  obtain c1 s1 where cs': "cs' = (c1, s1)" by fastforce
  assume h: "live2 cs" "s_read io2 cs n = Some (bs, e, cs')"
  from h(1) have l: "live s" "\<exists>ps. frames split ps (inp s)" by (auto simp: cs live2_def)
  from session_kept [of c s n bs e c1 s1] h(2) l(1) have k: "live s1" "\<And>ms. sent ms s \<Longrightarrow> sent ms s1"
    by (simp_all add: cs cs' kept_def)
  have "good c1 \<and> (\<exists>ps. frames split ps (inp s1)) \<and> work2 (c1, s1) \<le> work2 (c, s)"
    using h(1) [unfolded cs]
  proof (cases rule: read_cases [where n = n])
    case (buffered c')
    with h(2) l(2) show ?thesis by (auto simp: cs cs' work2_def)
  next
    case (frame p ps c' s')
    with h(2) show ?thesis by (auto simp: cs cs' work2_def)
  next
    case (ended c' s')
    with h(2) show ?thesis by (auto simp: cs cs' work2_def intro: exI [of _ "[]"])
  qed
  with k l show "live2 cs' \<and> (sent2 pre ms cs \<longrightarrow> sent2 pre ms cs') \<and> work2 cs' \<le> work2 cs" for ms
    by (auto simp: cs cs' live2_def sent2_def)
next
  fix cs :: "'c \<times> 's" and bs :: bytes
  obtain c s where cs: "cs = (c, s)" by fastforce
  assume h: "live2 cs" "bs \<noteq> []" "length bs \<le> lim2"
  then have l: "good c" "live s" "\<exists>ps. frames split ps (inp s)" by (auto simp: cs live2_def)
  from session_write [OF l(1,2) h(2,3)] obtain fs c' s' where
    w: "s_write io2 (c, s) bs = (length bs, None, (c', s'))" "whole split bs (concat fs)" "live s'"
    "\<And>ms. sent ms s \<Longrightarrow> sent (ms @ fs) s'" "inp s' = inp s" "good c'" "buffered c' = buffered c" by blast
  have "sent2 pre (ms @ [bs]) (c', s')" if "sent2 pre ms (c, s)" for ms
  proof -
    from that obtain fss where f: "sent (pre @ concat fss) s"
      "list_all2 (\<lambda>m fs. m \<noteq> [] \<and> whole split m (concat fs)) ms fss" by (auto simp: sent2_def)
    from w(4) [OF f(1)] f(2) w(2) h(2) show ?thesis
      by (auto simp: sent2_def list_all2_appendI intro!: exI [of _ "fss @ [fs]"])
  qed
  moreover have "live2 (c', s')" using w l by (auto simp: live2_def)
  ultimately show "\<exists>s'. s_write io2 cs bs = (length bs, None, s') \<and> live2 s' \<and>
      (\<forall>ms. sent2 pre ms cs \<longrightarrow> sent2 pre (ms @ [bs]) s') \<and> inp2 s' = inp2 cs \<and> work2 s' = work2 cs"
    using w by (auto simp: cs inp2_def work2_def)
qed

definition nxt2 :: "bytes \<Rightarrow> 'c \<times> 's \<Rightarrow> bool" where
  "nxt2 m = (\<lambda>(c, s). buffered c = [] \<and> (\<exists>ps. frames split (m # ps) (inp s)))"

lemma stacked_messages: "messages io2 inp2 (sent2 pre) live2 work2 lim2 nxt2"
proof (intro messages.intro messages_axioms.intro stacked)
  fix cs :: "'c \<times> 's" and m n
  obtain c s where cs: "cs = (c, s)" by fastforce
  assume h: "live2 cs" "nxt2 m cs" "0 < n" "length m \<le> n"
  then obtain ps where f: "good c" "live s" "buffered c = []" "frames split (m # ps) (inp s)"
    by (auto simp: cs live2_def nxt2_def)
  from frames_next [OF f(4)] obtain r where r: "split (inp s) = Some (m, r)" "frames split ps r" by blast
  from framed_session.read_frame [OF session f(1-3) r(1), of n] obtain c' s' where
    "s_read io2 (c, s) n = Some (take n m, None, (c', s'))" "buffered c' = drop n m" "inp s' = r" by blast
  then show "\<exists>s'. s_read io2 cs n = Some (m, None, s') \<and> inp2 cs = m @ inp2 s'"
    using h(4) f(3) frames_deframe [OF f(4)] frames_deframe [OF r(2)] by (auto simp: cs inp2_def)
next
  fix cs cs' :: "'c \<times> 's" and m bs n e
  obtain c s where cs: "cs = (c, s)" by fastforce
  assume h: "live2 cs" "nxt2 m cs" "bs \<noteq> []" "length bs \<le> lim2" "s_write io2 cs bs = (n, e, cs')"
  with session_write [of c s bs] show "nxt2 m cs'" by (auto simp: cs live2_def nxt2_def)
qed

end

section \<open>The layers of the code\<close>

text \<open>
  The network stream: both ends are up and the peer will end its direction. \<open>wire_sent pre\<close> are the
  messages written behind \<open>pre\<close>.
\<close>

definition wire_sent :: "bytes \<Rightarrow> bytes list \<Rightarrow> wire \<Rightarrow> bool" where
  "wire_sent pre ms w \<longleftrightarrow> tx w = pre @ concat ms"

definition wire_steady :: "wire \<Rightarrow> bool" where
  "wire_steady w \<longleftrightarrow> ends_well w \<and> [] \<notin> set (rx w)"

interpretation flow: duplex wire_rwc wire_content "wire_sent pre" wire_steady wire_work lim for pre lim
proof unfold_locales
  fix w :: wire and n :: nat
  assume h: "wire_steady w" "0 < n" "wire_content w \<noteq> []"
  then have l: "wire_live w" by (simp add: wire_steady_def wire_live_def ends_well_def)
  from net.read_content [OF this h(2,3)] net.read_nonempty [OF l h(2,3)]
  show "\<exists>bs s'. s_read wire_rwc w n = Some (bs, None, s') \<and> bs \<noteq> [] \<and> length bs \<le> n \<and>
      wire_content w = bs @ wire_content s' \<and> wire_work s' < wire_work w"
    by (simp add: wire_rwc_def) blast
next
  fix w :: wire and n :: nat
  assume h: "wire_steady w" "0 < n" "wire_content w = []"
  then have "rx w = []" by (cases "rx w") (auto simp: wire_steady_def wire_content_def)
  with h show "\<exists>s'. s_read wire_rwc w n = Some ([], Some EOF, s') \<and> wire_content s' = []"
    by (simp add: wire_rwc_def wire_read_def wire_steady_def ends_well_def)
next
  fix w w' :: wire and n :: nat and bs e ms
  assume h: "wire_steady w" "s_read wire_rwc w n = Some (bs, e, w')"
  then show "wire_steady w' \<and> (wire_sent pre ms w \<longrightarrow> wire_sent pre ms w') \<and> wire_work w' \<le> wire_work w"
    by (auto simp: wire_rwc_def wire_read_def wire_steady_def wire_work_def ends_well_def wire_sent_def
        split: if_splits list.splits option.splits)
next
  fix w :: wire and bs :: bytes
  assume "wire_steady w"
  then show "\<exists>s'. s_write wire_rwc w bs = (length bs, None, s') \<and> wire_steady s' \<and>
      (\<forall>ms. wire_sent pre ms w \<longrightarrow> wire_sent pre (ms @ [bs]) s') \<and>
      wire_content s' = wire_content w \<and> wire_work s' = wire_work w"
    by (simp add: wire_sent_def wire_rwc_def wire_write_def wire_steady_def ends_well_def wire_content_def wire_work_def)
qed

interpretation segments: messages wire_rwc wire_content "wire_sent pre" wire_steady wire_work lim
  "\<lambda>m w. \<exists>segs. rx w = m # segs" for pre lim
proof unfold_locales
  fix w :: wire and m n
  assume "wire_steady w" "\<exists>segs. rx w = m # segs" "0 < n" "length m \<le> n"
  then show "\<exists>s'. s_read wire_rwc w n = Some (m, None, s') \<and> wire_content w = m @ wire_content s'"
    by (auto simp: wire_rwc_def wire_read_def wire_steady_def ends_well_def wire_content_def)
next
  fix w w' :: wire and m bs n e
  assume "\<exists>segs. rx w = m # segs" "s_write wire_rwc w bs = (n, e, w')"
  then show "\<exists>segs. rx w' = m # segs"
    by (auto simp: wire_rwc_def wire_write_def split: if_splits option.splits nat.splits)
qed

text \<open>What a session keeps of itself through its reads may be added to what is required of it.\<close>

lemma framed_session_also:
  assumes "framed_session rd content ok work session_read buffered good split"
    and "\<And>c s n bs e c' s'. session_read (c, s) n = Some (bs, e, (c', s')) \<Longrightarrow> also c \<Longrightarrow> also c'"
  shows "framed_session rd content ok work session_read buffered (\<lambda>c. good c \<and> also c) split"
proof -
  have st: "byte_stream rd content ok work" using assms(1) by (rule framed_session.axioms(1))
  show ?thesis
  proof (rule framed_session.intro [OF st], unfold_locales)
    show "split bs = Some (p, r) \<Longrightarrow> length p + length r < length bs" for bs p r
      by (rule framed_session.split_shrinks [OF assms(1)])
  next
    fix c n s
    assume h: "good c \<and> also c" "buffered c \<noteq> []"
    with framed_session.read_buffered [OF assms(1), of c s n] assms(2) [of c s n]
    show "\<exists>c'. session_read (c, s) n = Some (take n (buffered c), None, c', s) \<and> (good c' \<and> also c') \<and>
        buffered c' = drop n (buffered c)" by blast
  next
    fix c s n p r
    assume h: "good c \<and> also c" "ok s" "buffered c = []" "split (content s) = Some (p, r)"
    with framed_session.read_frame [OF assms(1), of c s p r n] assms(2) [of c s n]
    show "\<exists>c' s'. session_read (c, s) n = Some (take n p, None, c', s') \<and> (good c' \<and> also c') \<and>
        buffered c' = drop n p \<and> ok s' \<and> content s' = r" by blast
  qed
qed

lemma padding_read_config:
  "padding_read rd (c, s) n = Some (bs, e, (c', s')) \<Longrightarrow> PaddingMax c' = PaddingMax c \<and> PaddingMin c' = PaddingMin c"
  by (auto simp: padding_read_def Let_def split: if_splits option.splits prod.splits)

lemma ss_read_config:
  "ss_read a rd (c, s) n = Some (bs, e, (c', s')) \<Longrightarrow> ss_rand c' = ss_rand c"
  by (auto simp: ss_read_def ss_deliver_def Let_def split: if_splits option.splits prod.splits)

lemma pad_frame_whole: "length p < 65536 \<Longrightarrow> length pad < 65536 \<Longrightarrow> whole pad_split p (pad_frame p pad)"
  by (simp add: whole_def pad_split_frame) (simp add: pad_frame_def)

lemma ss_frame_whole: "aead_ok a \<Longrightarrow> length nonce = 12 \<Longrightarrow> length p + 16 < 65536 \<Longrightarrow> whole (ss_split a k) p (ss_frame a k nonce p)"
  by (simp add: whole_def ss_split_frame) (auto simp: ss_frame_def)

context duplex
begin

lemma kept_trans: "kept s t \<Longrightarrow> kept t u \<Longrightarrow> kept s u"
  by (auto simp: kept_def)

lemma skip_padding_kept: "skip_padding (s_read io) s = Some (e, s') \<Longrightarrow> kept s s'"
  by (auto simp: skip_padding_def split: option.splits if_splits dest!: read_full_kept intro: kept_trans)

lemma padding_kept:
  assumes "padding_read (s_read io) (c, s) n = Some (bs, e, (c', s'))"
  shows "kept s s'"
proof (cases "PaddingMax c \<le> 0 \<or> readOff c < length (readBuf c)")
  case True
  with assms kept_order(1) show ?thesis
    by (auto simp: padding_read_def Let_def split: option.splits if_splits dest!: read_kept dest: reflpD)
next
  case False
  obtain hdr e1 s1 where h: "read_full (s_read io) s 2 = Some (hdr, e1, s1)"
    using assms False by (auto simp: padding_read_def split: option.splits)
  note k1 = read_full_kept [OF h]
  have "kept s1 s'"
    using assms False h reflpD [OF kept_order(1), of s']
    by (auto simp: padding_read_def split: option.splits if_splits dest!: read_full_kept skip_padding_kept)
      (blast intro: kept_trans)+
  with k1 show ?thesis by (rule kept_trans)
qed

lemma ss_kept: "ss_read a (s_read io) (c, s) n = Some (bs, e, (c', s')) \<Longrightarrow> kept s s'"
  using reflpD [OF kept_order(1), of s]
  by (auto simp: ss_read_def Let_def split: option.splits if_splits prod.splits dest!: read_full_kept intro: kept_trans)

text \<open>\<open>DelayConn\<close> changes no byte.\<close>

lemma delayed: "duplex (delay_rwc io) (\<lambda>(c, s). inp s) (\<lambda>ms (c, s). sent ms s) (\<lambda>(c, s). live s) (\<lambda>(c, s). work s) lim"
proof unfold_locales
  fix cs :: "delay \<times> 's" and n :: nat
  assume h: "case cs of (c, s) \<Rightarrow> live s" "0 < n" "(case cs of (c, s) \<Rightarrow> inp s) \<noteq> []"
  obtain c s where cs: "cs = (c, s)" by fastforce
  from read_data [of s n] h cs obtain bs s' where
    "s_read io s n = Some (bs, None, s')" "bs \<noteq> []" "length bs \<le> n" "inp s = bs @ inp s'" "work s' < work s" by auto
  then show "\<exists>bs s'. s_read (delay_rwc io) cs n = Some (bs, None, s') \<and> bs \<noteq> [] \<and> length bs \<le> n \<and>
      (case cs of (c, s) \<Rightarrow> inp s) = bs @ (case s' of (c, s) \<Rightarrow> inp s) \<and>
      (case s' of (c, s) \<Rightarrow> work s) < (case cs of (c, s) \<Rightarrow> work s)"
    by (intro exI [of _ bs] exI [of _ "(c, s')"]) (simp add: delay_rwc_def delay_read_def cs)
next
  fix cs :: "delay \<times> 's" and n :: nat
  assume h: "case cs of (c, s) \<Rightarrow> live s" "0 < n" "(case cs of (c, s) \<Rightarrow> inp s) = []"
  obtain c s where cs: "cs = (c, s)" by fastforce
  from read_end [of s n] h cs obtain s' where "s_read io s n = Some ([], Some EOF, s')" "inp s' = []" by auto
  then show "\<exists>s'. s_read (delay_rwc io) cs n = Some ([], Some EOF, s') \<and> (case s' of (c, s) \<Rightarrow> inp s) = []"
    by (intro exI [of _ "(c, s')"]) (simp add: delay_rwc_def delay_read_def cs)
next
  fix cs cs' :: "delay \<times> 's" and n :: nat and bs e ms
  assume "case cs of (c, s) \<Rightarrow> live s" "s_read (delay_rwc io) cs n = Some (bs, e, cs')"
  then show "(case cs' of (c, s) \<Rightarrow> live s) \<and> ((case cs of (c, s) \<Rightarrow> sent ms s) \<longrightarrow> (case cs' of (c, s) \<Rightarrow> sent ms s)) \<and>
      (case cs' of (c, s) \<Rightarrow> work s) \<le> (case cs of (c, s) \<Rightarrow> work s)"
    using read_keep by (auto simp: delay_rwc_def delay_read_def split: option.splits)
next
  fix cs :: "delay \<times> 's" and bs :: bytes
  assume h: "case cs of (c, s) \<Rightarrow> live s" "bs \<noteq> []" "length bs \<le> lim"
  obtain c s where cs: "cs = (c, s)" by fastforce
  from write_data [of s bs] h cs obtain s' where
    w: "s_write io s bs = (length bs, None, s')" "live s'" "\<forall>ms. sent ms s \<longrightarrow> sent (ms @ [bs]) s'" "inp s' = inp s" "work s' = work s" by auto
  obtain c' where "delay_write (s_write io) (c, s) bs = (length bs, None, (c', s'))"
    by (simp add: delay_write_def Let_def w(1))
  with w show "\<exists>s'. s_write (delay_rwc io) cs bs = (length bs, None, s') \<and> (case s' of (c, s) \<Rightarrow> live s) \<and>
      (\<forall>ms. (case cs of (c, s) \<Rightarrow> sent ms s) \<longrightarrow> (case s' of (c, s) \<Rightarrow> sent (ms @ [bs]) s)) \<and>
      (case s' of (c, s) \<Rightarrow> inp s) = (case cs of (c, s) \<Rightarrow> inp s) \<and>
      (case s' of (c, s) \<Rightarrow> work s) = (case cs of (c, s) \<Rightarrow> work s)"
    by (simp add: delay_rwc_def cs)
qed

end

context messages
begin

lemma delayed_messages: "messages (delay_rwc io) (\<lambda>(c, s). inp s) (\<lambda>ms (c, s). sent ms s) (\<lambda>(c, s). live s)
    (\<lambda>(c, s). work s) lim (\<lambda>m (c, s). nxt m s)"
proof (intro messages.intro messages_axioms.intro delayed)
  fix cs :: "delay \<times> 's" and m n
  assume h: "case cs of (c, s) \<Rightarrow> live s" "case cs of (c, s) \<Rightarrow> nxt m s" "0 < n" "length m \<le> n"
  obtain c s where cs: "cs = (c, s)" by fastforce
  from nxt_read [of s m n] h cs obtain s' where "s_read io s n = Some (m, None, s')" "inp s = m @ inp s'" by auto
  then show "\<exists>s'. s_read (delay_rwc io) cs n = Some (m, None, s') \<and>
      (case cs of (c, s) \<Rightarrow> inp s) = m @ (case s' of (c, s) \<Rightarrow> inp s)"
    by (intro exI [of _ "(c, s')"]) (simp add: delay_rwc_def delay_read_def cs)
next
  fix cs cs' :: "delay \<times> 's" and m bs n e
  assume h: "case cs of (c, s) \<Rightarrow> live s" "case cs of (c, s) \<Rightarrow> nxt m s" "bs \<noteq> []" "length bs \<le> lim"
    "s_write (delay_rwc io) cs bs = (n, e, cs')"
  then show "case cs' of (c, s) \<Rightarrow> nxt m s"
    using nxt_write by (auto simp: delay_rwc_def delay_write_def Let_def split: prod.splits)
qed

end

context duplex
begin

text \<open>A \<open>PaddingConn\<close> on a duplex stream is a layer.\<close>

lemma padded:
  assumes "lim2 < 65536" "lim2 + 4 + 65536 \<le> lim"
  shows "layer io inp sent live work lim (pad_rwc io) pad_buffered (\<lambda>c. pad_good c \<and> pad_fit c) pad_split lim2"
proof (intro layer.intro layer_axioms.intro)
  show "duplex io inp sent live work lim" by unfold_locales
  have r: "s_read (pad_rwc io) = padding_read (s_read io)" by (simp add: pad_rwc_def)
  show "framed_session (s_read io) inp live work (s_read (pad_rwc io)) pad_buffered
      (\<lambda>c. pad_good c \<and> pad_fit c) pad_split"
    unfolding r
    by (rule framed_session_also [OF byte_stream.padding_framed [OF as_readable]])
      (auto simp: pad_fit_def dest: padding_read_config)
next
  fix c s n
  assume h: "pad_good c \<and> pad_fit c" "live s" "pad_buffered c = []" "inp s = []"
  from read_full_end [OF h(2,4), of 2] obtain s' where
    "read_full (s_read io) s 2 = Some ([], Some EOF, s')" "inp s' = []" by auto
  with h show "\<exists>c' s'. s_read (pad_rwc io) (c, s) n = Some ([], Some EOF, c', s') \<and>
      (pad_good c' \<and> pad_fit c') \<and> pad_buffered c' = [] \<and> inp s' = []"
    by (auto simp: pad_rwc_def padding_read_def pad_good_def pad_buffered_def)
next
  fix c s n bs e c' s'
  assume "s_read (pad_rwc io) (c, s) n = Some (bs, e, c', s')"
  then show "kept s s'" by (auto simp: pad_rwc_def intro: padding_kept)
next
  fix c :: padding and s :: 's and p :: bytes
  assume h: "pad_good c \<and> pad_fit c" "live s" "p \<noteq> []" "length p \<le> lim2"
  obtain k c1 where k: "next_padding_len c = (k, c1)" by fastforce
  note kb = next_padding_len_frame [OF k] next_padding_len_bound [OF k]
  obtain pad g where pad: "rand_bytes k (pad_rng c1) = (pad, g)" by fastforce
  then have lp: "length pad = k" using length_rand_bytes [of k "pad_rng c1"] by simp
  have k16: "k < 65536" using kb h(1) by (auto simp: max_padding_bytes_def pad_fit_def)
  have "pad_frame p pad \<noteq> []" "length (pad_frame p pad) \<le> lim"
    using h(4) assms k16 lp by (simp_all add: pad_frame_def) 
  from write_data [OF h(2) this] obtain s' where
    "s_write io s (pad_frame p pad) = (length (pad_frame p pad), None, s')" "live s'"
    "\<forall>ms. sent ms s \<longrightarrow> sent (ms @ [pad_frame p pad]) s'" "inp s' = inp s" "work s' = work s" by blast
  moreover have "put_u16 (length p) @ p @ put_u16 k @ pad = pad_frame p pad" using lp by (simp add: pad_frame_def)
  ultimately
  show "\<exists>fs c' s'. s_write (pad_rwc io) (c, s) p = (length p, None, c', s') \<and> whole pad_split p (concat fs) \<and> live s' \<and>
      (\<forall>ms. sent ms s \<longrightarrow> sent (ms @ fs) s') \<and> inp s' = inp s \<and> work s' = work s \<and> (pad_good c' \<and> pad_fit c') \<and>
      pad_buffered c' = pad_buffered c"
    using k kb pad lp k16 h assms pad_frame_whole [of p pad]
    by (intro exI [of _ "[pad_frame p pad]"] exI [of _ "c1\<lparr>pad_rng := g\<rparr>"] exI [of _ s'])
      (simp add: pad_rwc_def padding_write_def Let_def pad_fit_def pad_good_def pad_buffered_def)
qed

text \<open>So is a shadowsocks session, for every cipher that opens what it sealed.\<close>

lemma sealed:
  assumes "aead_ok a" "lim2 + 16 < 65536" "lim2 + 16 \<le> lim" "14 \<le> lim"
  shows "layer io inp sent live work lim (ss_rwc a io) ss_buffered (\<lambda>c. ss_key c = k \<and> ss_rand c \<noteq> None)
    (ss_split a k) lim2"
proof (intro layer.intro layer_axioms.intro)
  show "duplex io inp sent live work lim" by unfold_locales
  have r: "s_read (ss_rwc a io) = ss_read a (s_read io)" by (simp add: ss_rwc_def)
  show "framed_session (s_read io) inp live work (s_read (ss_rwc a io)) ss_buffered
      (\<lambda>c. ss_key c = k \<and> ss_rand c \<noteq> None) (ss_split a k)"
    unfolding r
    by (rule framed_session_also [OF byte_stream.ss_framed [OF as_readable assms(1)]])
      (auto dest: ss_read_config)
next
  fix c s n
  assume h: "ss_key c = k \<and> ss_rand c \<noteq> None" "live s" "ss_buffered c = []" "inp s = []"
  from read_full_end [OF h(2,4), of "nonceSize + 2"] obtain s' where
    "read_full (s_read io) s (nonceSize + 2) = Some ([], Some EOF, s')" "inp s' = []" by auto
  with h show "\<exists>c' s'. s_read (ss_rwc a io) (c, s) n = Some ([], Some EOF, c', s') \<and>
      (ss_key c' = k \<and> ss_rand c' \<noteq> None) \<and> ss_buffered c' = [] \<and> inp s' = []"
    by (auto simp: ss_rwc_def ss_read_def ss_buffered_def)
next
  fix c s n bs e c' s'
  assume "s_read (ss_rwc a io) (c, s) n = Some (bs, e, c', s')"
  then show "kept s s'" by (auto simp: ss_rwc_def intro: ss_kept)
next
  fix c :: ssAEAD and s :: 's and p :: bytes
  assume h: "ss_key c = k \<and> ss_rand c \<noteq> None" "live s" "p \<noteq> []" "length p \<le> lim2"
  from h(1) obtain g where g: "ss_rand c = Some g" by blast
  obtain nonce g' where n: "rand_bytes 12 g = (nonce, g')" by fastforce
  then have ln: "length nonce = 12" using length_rand_bytes [of 12 g] by simp
  let ?ct = "seal a k nonce p" and ?hd = "nonce @ put_u16 (length (seal a k nonce p))"
  have lc: "length ?ct = length p + 16" by (rule aead_okD(2) [OF assms(1)])
  have hd: "?hd \<noteq> []" "length ?hd \<le> lim" using ln assms(4) by auto
  from write_data [OF h(2) hd] obtain s1 where
    s1: "s_write io s ?hd = (length ?hd, None, s1)" "live s1" "\<forall>ms. sent ms s \<longrightarrow> sent (ms @ [?hd]) s1" "inp s1 = inp s" "work s1 = work s"
    by blast
  have ct: "?ct \<noteq> []" "length ?ct \<le> lim" using lc h(4) assms(3) by auto
  from write_data [OF s1(2) ct] obtain s2 where
    s2: "s_write io s1 ?ct = (length ?ct, None, s2)" "live s2" "\<forall>ms. sent ms s1 \<longrightarrow> sent (ms @ [?ct]) s2" "inp s2 = inp s1" "work s2 = work s1"
    by blast
  have "whole (ss_split a k) p (ss_frame a k nonce p)"
    using h(4) assms(2) by (intro ss_frame_whole [OF assms(1) ln]) simp
  moreover have "\<not> length ?ct > 0xFFFF" using lc h(4) assms(2) by simp
  moreover have "\<forall>ms. sent ms s \<longrightarrow> sent (ms @ [?hd, ?ct]) s2" using s1(3) s2(3) by fastforce
  ultimately show "\<exists>fs c' s'. s_write (ss_rwc a io) (c, s) p = (length p, None, c', s') \<and> whole (ss_split a k) p (concat fs) \<and>
      live s' \<and> (\<forall>ms. sent ms s \<longrightarrow> sent (ms @ fs) s') \<and> inp s' = inp s \<and> work s' = work s \<and> (ss_key c' = k \<and> ss_rand c' \<noteq> None) \<and>
      ss_buffered c' = ss_buffered c"
    using s1 s2 h g n ln
    by (intro exI [of _ "[?hd, ?ct]"] exI [of _ "c\<lparr>ss_rand := Some g'\<rparr>"] exI [of _ s2])
      (simp add: ss_rwc_def ss_write_def crypto_rand_def nonceSize_def ss_frame_def ss_buffered_def Let_def)
qed

end

end
