(* ===== verification/ObfsSession.thy ===== *)
theory ObfsSession
  imports Layers ProxyClient
begin

text \<open>
  Obfuscated sessions: client and node agree on padding and delays with one line each
  (\<open>obfs_negotiate.go\<close>), put the wrappers on the stream, and on top of them the cipher of the
  negotiated protocol, on the node in \<open>hypernet/services/proxy/server/proxy.go\<close> and on the client in
  \<open>pkg/client/proxy.go\<close>.
\<close>

section \<open>What travels\<close>

text \<open>
  The bytes on the network that carry messages: their shadowsocks frames, when the session has a
  cipher, in the frames of the padding, when there is any. Without either, the messages run together.
\<close>

definition cut :: "splitter option \<Rightarrow> bytes list \<Rightarrow> bytes \<Rightarrow> bool" where
  "cut sp ms bs \<longleftrightarrow> (case sp of None \<Rightarrow> bs = concat ms | Some f \<Rightarrow> frames f ms bs)"

definition pad_cut :: "ObfsParams \<Rightarrow> splitter option" where
  "pad_cut ob = (if 0 < PMax ob then Some pad_split else None)"

definition carries :: "ObfsParams \<Rightarrow> splitter option \<Rightarrow> bytes \<Rightarrow> bytes list \<Rightarrow> bool" where
  "carries ob ss bs ms \<longleftrightarrow>
     (case ss of None \<Rightarrow> cut (pad_cut ob) ms bs
      | Some f \<Rightarrow> \<exists>ps. cut (pad_cut ob) ps bs \<and> frames f ms (concat ps))"

text \<open>The cipher of a session, by the token and the negotiated protocol.\<close>

definition session_cut :: "env \<Rightarrow> string \<Rightarrow> string \<Rightarrow> splitter option" where
  "session_cut ev token proto =
     (if token \<noteq> '''' \<and> proto = ''shadowsocks''
      then Some (ss_split (e_gcm ev) (derive_key (e_digests ev) (trim_space token))) else None)"

definition cipher_ready :: "env \<Rightarrow> string \<Rightarrow> bool" where
  "cipher_ready ev token \<longleftrightarrow> aead_ok (e_gcm ev) \<and> e_crand ev \<noteq> None \<and> trim_space token \<noteq> ''''"

lemma ss_handshake_role:
  assumes "trim_space token \<noteq> ''''" "role = ''client'' \<or> role = ''server''"
  shows "ss_handshake d g (Some ((role_config token timeout role)\<lparr>Transport := x1, CfgPaddingMin := x2,
      CfgPaddingMax := x3, CfgWriteDelayMin := x4, CfgWriteDelayMax := x5, UseUTLS := x6\<rparr>)) =
    Inr (new_ssAEAD d g (trim_space token))"
    "ss_handshake d g (Some (role_config token timeout role)) = Inr (new_ssAEAD d g (trim_space token))"
  using assms by (auto simp: ss_handshake_def role_config_def raw_get_def Let_def)

lemma frames_concat:
  "list_all2 (\<lambda>m fs. m \<noteq> [] \<and> whole sp m (concat fs)) ms fss \<Longrightarrow> frames sp ms (concat (concat fss))"
  by (induction rule: list_all2_induct) (auto intro: frames.intros)

lemma frames_length:
  assumes "\<And>bs p r. sp bs = Some (p, r) \<Longrightarrow> length p + length r < length bs"
  shows "frames sp ps bs \<Longrightarrow> length (concat ps) \<le> length bs"
proof (induction rule: frames.induct)
  case (frames_Cons p f ps bs)
  then have "sp (f @ bs) = Some (p, bs)" by (simp add: whole_def)
  from assms [OF this] frames_Cons.IH show ?case by simp
qed simp

section \<open>The node\<close>

context duplex
begin

text \<open>A served request whose answer went through the cipher of the session, if it has one.\<close>

definition served_through ::
  "splitter option \<Rightarrow> ('s \<Rightarrow> wire) \<Rightarrow> bytes list \<Rightarrow> bytes \<Rightarrow> wire \<Rightarrow> slog \<Rightarrow> outcome option \<Rightarrow> bool"
where
  "served_through ss base m0 data t lg r \<longleftrightarrow>
     (\<exists>oc t' s' fs ms. r = Some oc \<and> oc_returned oc \<and>
        oc_target oc = Some t' \<and> tx t' = tx t @ data \<and> closed t' \<and>
        oc_stream oc = wire_close (base s') \<and> live s' \<and> sent (m0 @ fs) s' \<and>
        (case ss of None \<Rightarrow> fs = (''OK'' @ nl) # ms | Some f \<Rightarrow> frames f ((''OK'' @ nl) # ms) (concat fs)) \<and>
        concat ms = concat (rx t) \<and>
        (log_on lg \<and> log_success lg \<longrightarrow>
           last (log_events (oc_log oc)) = MEnd (length data) (length (concat (rx t))) True (log_reason lg)))"

text \<open>Behind an agreed obfuscation, a protocol without a dialogue of its own serves the request.\<close>

lemma handshake_served:
  assumes p: "p = ''TCP'' \<or> p = ''DIRECT''" and h: "host_ok host" "0 < port" "port \<le> 65535"
    and s: "live s" "cut (session_cut ev (vlessToken srv) chosen) ps (inp s)" "concat ps = request_line p host port @ data"
      "copy_buf_size + 16 \<le> lim" "sent m0 s"
    and c: "chosen \<notin> {''vless'', ''vmess'', ''hysteria2''}" "chosen = ''shadowsocks'' \<Longrightarrow> cipher_ready ev (vlessToken srv)"
    and d: "e_dial_tcp ev host port = Inr t" "ends_well t"
    and n: "1 + length (concat ps) + length (inp s) + work s \<le> turns True (e_sched ev)"
      "1 + length (rx t) + length (concat (rx t)) \<le> turns False (e_sched ev)"
  shows "served_through (session_cut ev (vlessToken srv) chosen) base m0 data t lg
    (handshake_phase io base ev srv chosen True [] s lg)"
proof (cases "vlessToken srv \<noteq> '''' \<and> chosen = ''shadowsocks''")
  case False
  then have ss: "session_cut ev (vlessToken srv) chosen = None" by (auto simp: session_cut_def)
  have hp: "handshake_phase io base ev srv chosen True [] s lg = request_phase io base ev [] s lg"
    using False c(1) by (auto simp: handshake_phase_def obfs_phase_def Let_def)
  have i: "inp s = request_line p host port @ data" using s(2,3) ss by (simp add: cut_def)
  have "copy_buf_size \<le> lim" using s(4) by simp
  moreover have "1 + length (inp s) + work s \<le> turns True (e_sched ev)" using n(1) by simp
  ultimately have "served base m0 data t lg (request_phase io base ev [] s lg)"
    by (rule request_session [OF p h s(1) i _ s(5) d _ n(2)])
  then show ?thesis unfolding hp ss served_def served_through_def option.case by blast
next
  case True
  let ?a = "e_gcm ev" and ?k = "derive_key (e_digests ev) (trim_space (vlessToken srv))"
  have ready: "aead_ok ?a" "e_crand ev \<noteq> None" "trim_space (vlessToken srv) \<noteq> ''''"
    using c(2) True by (auto simp: cipher_ready_def)
  define c0 where "c0 = new_ssAEAD (e_digests ev) (e_crand ev) (trim_space (vlessToken srv))"
  define sp where "sp = ss_split ?a ?k"
  define good where "good = (\<lambda>c :: ssAEAD. ss_key c = ?k \<and> ss_rand c \<noteq> None)"
  have ss: "session_cut ev (vlessToken srv) chosen = Some sp" using True by (simp add: session_cut_def sp_def)
  with s(2) have ps: "frames sp ps (inp s)" by (simp add: cut_def)
  have lay: "layer io inp sent live work lim (ss_rwc ?a io) ss_buffered good sp copy_buf_size"
    unfolding good_def sp_def by (rule sealed [OF ready(1)]) (use s(4) in \<open>simp_all add: copy_buf_size_def\<close>)
  define L where "L = layer.live2 inp live good sp"
  define S :: "bytes list \<Rightarrow> ssAEAD \<times> 's \<Rightarrow> bool" where "S = layer.sent2 sent sp m0"
  have dup: "duplex (ss_rwc ?a io) (layer.inp2 inp ss_buffered sp) S L (layer.work2 inp ss_buffered) copy_buf_size"
    unfolding S_def L_def by (rule layer.stacked [OF lay])
  have buf: "ss_buffered c0 = []" by (simp add: c0_def new_ssAEAD_def ss_buffered_def)
  have good: "good c0" using ready(2) by (simp add: good_def c0_def new_ssAEAD_def)
  note defs = layer.inp2_def [OF lay] layer.sent2_def [OF lay] layer.live2_def [OF lay] layer.work2_def [OF lay] S_def L_def
  have st: "layer.inp2 inp ss_buffered sp (c0, s) = request_line p host port @ data" "L (c0, s)" "S [] (c0, s)"
    "layer.work2 inp ss_buffered (c0, s) = length (inp s)"
    unfolding defs using layer.frames_deframe [OF lay ps] s(1,3,5) ps buf good by auto
  have "1 + length (layer.inp2 inp ss_buffered sp (c0, s)) + layer.work2 inp ss_buffered (c0, s) \<le> turns True (e_sched ev)"
    using n(1) s(3) unfolding st by simp
  from duplex.request_session [OF dup p h st(2,1) order_refl st(3) d this n(2), of "base \<circ> snd" lg]
  have "\<exists>oc t' cs ms. request_phase (ss_rwc ?a io) (base \<circ> snd) ev [] (c0, s) lg = Some oc \<and> oc_returned oc \<and>
      oc_target oc = Some t' \<and> tx t' = tx t @ data \<and> closed t' \<and> oc_stream oc = wire_close ((base \<circ> snd) cs) \<and>
      L cs \<and> S ([] @ (''OK'' @ nl) # ms) cs \<and> concat ms = concat (rx t) \<and>
      (log_on lg \<and> log_success lg \<longrightarrow>
         last (log_events (oc_log oc)) = MEnd (length data) (length (concat (rx t))) True (log_reason lg))"
    unfolding duplex.served_def [OF dup] .
  then obtain oc t' c1 s1 ms where r:
    "request_phase (ss_rwc ?a io) (base \<circ> snd) ev [] (c0, s) lg = Some oc" "oc_returned oc" "oc_target oc = Some t'"
    "tx t' = tx t @ data" "closed t'" "oc_stream oc = wire_close (base s1)"
    "L (c1, s1)" "S ((''OK'' @ nl) # ms) (c1, s1)" "concat ms = concat (rx t)"
    "log_on lg \<and> log_success lg \<longrightarrow>
       last (log_events (oc_log oc)) = MEnd (length data) (length (concat (rx t))) True (log_reason lg)"
    by (elim exE conjE, case_tac cs) (simp only: o_apply snd_conv append_Nil)
  have live: "live s1" using r(7) unfolding defs by simp
  from r(8) obtain fss where f: "sent (m0 @ concat fss) s1"
    "list_all2 (\<lambda>m fs. m \<noteq> [] \<and> whole sp m (concat fs)) ((''OK'' @ nl) # ms) fss"
    unfolding defs by auto
  have hp: "handshake_phase io base ev srv chosen True [] s lg = request_phase (ss_rwc ?a io) (base \<circ> snd) ev [] (c0, s) lg"
    using True ss_handshake_role(2) [OF ready(3)] by (simp add: handshake_phase_def obfs_phase_def Let_def c0_def)
  show ?thesis
    unfolding hp ss served_through_def option.case
    using r(1-6,9,10) live f(1) frames_concat [OF f(2)] by blast
qed

end

text \<open>The same, as seen on the network.\<close>

definition wire_served ::
  "ObfsParams \<Rightarrow> splitter option \<Rightarrow> bytes \<Rightarrow> bytes \<Rightarrow> wire \<Rightarrow> slog \<Rightarrow> outcome option \<Rightarrow> bool"
where
  "wire_served ob ss pre data t lg r \<longleftrightarrow>
     (\<exists>oc t' ys ms. r = Some oc \<and> oc_returned oc \<and>
        oc_target oc = Some t' \<and> tx t' = tx t @ data \<and> closed t' \<and>
        tx (oc_stream oc) = pre @ ys \<and> closed (oc_stream oc) \<and>
        carries ob ss ys ((''OK'' @ nl) # ms) \<and> concat ms = concat (rx t) \<and>
        (log_on lg \<and> log_success lg \<longrightarrow>
           last (log_events (oc_log oc)) = MEnd (length data) (length (concat (rx t))) True (log_reason lg)))"

context duplex
begin

lemma served_on_wire:
  assumes "served_through ss base m0 data t lg r"
    and "\<And>s fs. live s \<Longrightarrow> sent (m0 @ fs) s \<Longrightarrow> \<exists>ys. tx (base s) = pre @ ys \<and> cut (pad_cut ob) fs ys"
  shows "wire_served ob ss pre data t lg r"
proof -
  from assms(1) obtain oc t' s' fs ms where h: "r = Some oc" "oc_returned oc" "oc_target oc = Some t'"
    "tx t' = tx t @ data" "closed t'" "oc_stream oc = wire_close (base s')" "live s'" "sent (m0 @ fs) s'"
    "case ss of None \<Rightarrow> fs = (''OK'' @ nl) # ms | Some f \<Rightarrow> frames f ((''OK'' @ nl) # ms) (concat fs)"
    "concat ms = concat (rx t)"
    "log_on lg \<and> log_success lg \<longrightarrow>
       last (log_events (oc_log oc)) = MEnd (length data) (length (concat (rx t))) True (log_reason lg)"
    unfolding served_through_def by blast
  from assms(2) [OF h(7,8)] h(6) obtain ys where
    y: "tx (oc_stream oc) = pre @ ys" "closed (oc_stream oc)" "cut (pad_cut ob) fs ys" by auto
  have "carries ob ss ys ((''OK'' @ nl) # ms)"
    using h(9) y(3) unfolding carries_def by (cases ss) auto
  with h(1-5,10,11) y(1,2) show ?thesis unfolding wire_served_def by blast
qed

end

lemma new_padding_fit:
  assumes "0 < pmax" "pmin < 65536"
  shows "pad_good (new_padding pmin pmax g) \<and> pad_fit (new_padding pmin pmax g)" "pad_buffered (new_padding pmin pmax g) = []"
  using assms by (auto simp: new_padding_def pad_good_def pad_fit_def pad_buffered_def Let_def)

abbreviation pad_ready :: "padding \<Rightarrow> bool" where
  "pad_ready \<equiv> \<lambda>c. pad_good c \<and> pad_fit c"

lemma agreed_served:
  assumes p: "p = ''TCP'' \<or> p = ''DIRECT''" and h: "host_ok host" "0 < port" "port \<le> 65535"
    and w: "wire_steady w" "carries ob (session_cut ev (vlessToken srv) chosen) (wire_content w) ms"
      "concat ms = request_line p host port @ data"
    and ob: "PMin ob < 65536"
    and c: "chosen \<notin> {''vless'', ''vmess'', ''hysteria2''}" "chosen = ''shadowsocks'' \<Longrightarrow> cipher_ready ev (vlessToken srv)"
    and d: "e_dial_tcp ev host port = Inr t" "ends_well t"
    and n: "1 + length (concat ms) + 2 * length (wire_content w) + length (rx w) \<le> turns True (e_sched ev)"
      "1 + length (rx t) + length (concat (rx t)) \<le> turns False (e_sched ev)"
  shows "wire_served ob (session_cut ev (vlessToken srv) chosen) (tx w) data t lg
    (agreed_phase ev srv chosen ob w lg)"
proof -
  let ?ss = "session_cut ev (vlessToken srv) chosen" and ?lim = 200000
  let ?dly = "new_delay (WDMin ob) (WDMax ob) (e_delay_rng ev)"
  from w(2) obtain ps where ps: "cut (pad_cut ob) ps (wire_content w)" "cut ?ss ms (concat ps)"
    unfolding carries_def by (cases ?ss) (auto simp: cut_def)
  show ?thesis
  proof (cases "0 < PMax ob")
    case False
    have dup: "duplex wire_rwc wire_content (wire_sent (tx w)) wire_steady wire_work ?lim" by unfold_locales
    have in_cut: "cut ?ss ms (wire_content w)" using ps False by (simp add: cut_def pad_cut_def)
    have st: "wire_sent (tx w) [] w" by (simp add: wire_sent_def)
    have turns: "1 + length (concat ms) + length (wire_content w) + wire_work w \<le> turns True (e_sched ev)"
      using n(1) by (simp add: wire_work_def wire_content_def)
    have lim: "copy_buf_size + 16 \<le> ?lim" by (simp add: copy_buf_size_def)
    have enc: "\<exists>ys. tx s = tx w @ ys \<and> cut (pad_cut ob) fs ys" if "wire_sent (tx w) ([] @ fs) s" for s fs
      using that False by (auto simp: wire_sent_def cut_def pad_cut_def)
    show ?thesis
    proof (cases "0 < WDMax ob")
      case no_delay: False
      have a: "agreed_phase ev srv chosen ob w lg = handshake_phase wire_rwc (\<lambda>w. w) ev srv chosen True [] w lg"
        using False no_delay by (simp add: agreed_phase_def Let_def)
      show ?thesis
        unfolding a
        by (rule duplex.served_on_wire [OF dup duplex.handshake_served [OF dup p h w(1) in_cut w(3) lim st c d turns n(2)]])
          (use enc in simp_all)
    next
      case True
      have a: "agreed_phase ev srv chosen ob w lg =
          handshake_phase (delay_rwc wire_rwc) snd ev srv chosen True [] (?dly, w) lg"
        using False True by (simp add: agreed_phase_def Let_def)
      note dup2 = duplex.delayed [OF dup]
      have "duplex.served_through (\<lambda>ms (c :: delay, s). wire_sent (tx w) ms s) (\<lambda>(c, s). wire_steady s) ?ss snd [] data t lg
          (handshake_phase (delay_rwc wire_rwc) snd ev srv chosen True [] (?dly, w) lg)"
        by (rule duplex.handshake_served [OF dup2 p h _ _ w(3) lim _ c d _ n(2)])
          (use w(1) in_cut st turns in simp_all)
      from duplex.served_on_wire [OF dup2 this, where pre = "tx w" and ob = ob] enc
      show ?thesis unfolding a by auto
    qed
  next
    case True
    define pad where "pad = new_padding (PMin ob) (PMax ob) (e_pad_rng ev)"
    note fit = new_padding_fit [OF True ob, of "e_pad_rng ev", folded pad_def]
    have lay: "layer wire_rwc wire_content (wire_sent (tx w)) wire_steady wire_work ?lim (pad_rwc wire_rwc) pad_buffered pad_ready pad_split 60000"
      by (rule flow.padded) simp_all
    define L :: "padding \<times> wire \<Rightarrow> bool" where "L = layer.live2 wire_content wire_steady pad_ready pad_split"
    define S :: "bytes list \<Rightarrow> padding \<times> wire \<Rightarrow> bool" where "S = layer.sent2 (wire_sent (tx w)) pad_split []"
    define I :: "padding \<times> wire \<Rightarrow> bytes" where "I = layer.inp2 wire_content pad_buffered pad_split"
    define W :: "padding \<times> wire \<Rightarrow> nat" where "W = layer.work2 wire_content pad_buffered"
    note defs = L_def S_def I_def W_def layer.inp2_def [OF lay] layer.sent2_def [OF lay] layer.live2_def [OF lay] layer.work2_def [OF lay]
    have dup: "duplex (pad_rwc wire_rwc) I S L W 60000"
      unfolding I_def S_def L_def W_def by (rule layer.stacked [OF lay])
    from ps(1) True have fr: "frames pad_split ps (wire_content w)" by (simp add: cut_def pad_cut_def)
    have st: "L (pad, w)" "I (pad, w) = concat ps" "S [] (pad, w)" "W (pad, w) = length (wire_content w)"
      unfolding defs using fit w(1) fr layer.frames_deframe [OF lay fr] by (auto simp: wire_sent_def)
    have "length (concat ps) \<le> length (wire_content w)"
      by (rule frames_length [OF _ fr]) (rule pad_split_shrinks)
    then have turns: "1 + length (concat ms) + length (concat ps) + length (wire_content w) \<le> turns True (e_sched ev)"
      using n(1) by simp
    have lim: "copy_buf_size + 16 \<le> 60000" by (simp add: copy_buf_size_def)
    have enc: "\<exists>ys. tx s = tx w @ ys \<and> cut (pad_cut ob) fs ys" if s: "S ([] @ fs) (c, s)" for c s fs
    proof -
      from s obtain fss where f: "tx s = tx w @ concat (concat fss)"
        "list_all2 (\<lambda>m fs. m \<noteq> [] \<and> whole pad_split m (concat fs)) fs fss"
        unfolding defs by (auto simp: wire_sent_def)
      with frames_concat [OF f(2)] True show ?thesis by (simp add: cut_def pad_cut_def)
    qed
    show ?thesis
    proof (cases "0 < WDMax ob")
      case no_delay: False
      have a: "agreed_phase ev srv chosen ob w lg = handshake_phase (pad_rwc wire_rwc) snd ev srv chosen True [] (pad, w) lg"
        using True no_delay by (simp add: agreed_phase_def Let_def pad_def)
      have "duplex.served_through S L ?ss snd [] data t lg
          (handshake_phase (pad_rwc wire_rwc) snd ev srv chosen True [] (pad, w) lg)"
        by (rule duplex.handshake_served [OF dup p h st(1) _ w(3) lim st(3) c d _ n(2)]) (use ps(2) st turns in simp_all)
      from duplex.served_on_wire [OF dup this, where pre = "tx w" and ob = ob] enc
      show ?thesis unfolding a by auto
    next
      case delay: True
      have a: "agreed_phase ev srv chosen ob w lg =
          handshake_phase (delay_rwc (pad_rwc wire_rwc)) (snd \<circ> snd) ev srv chosen True [] (?dly, (pad, w)) lg"
        using True delay by (simp add: agreed_phase_def Let_def pad_def)
      note dup2 = duplex.delayed [OF dup]
      have "duplex.served_through (\<lambda>ms (c :: delay, s). S ms s) (\<lambda>(c, s). L s) ?ss (snd \<circ> snd) [] data t lg
          (handshake_phase (delay_rwc (pad_rwc wire_rwc)) (snd \<circ> snd) ev srv chosen True [] (?dly, (pad, w)) lg)"
        by (rule duplex.handshake_served [OF dup2 p h _ _ w(3) lim _ c d _ n(2)]) (use ps(2) st turns in simp_all)
      from duplex.served_on_wire [OF dup2 this, where pre = "tx w" and ob = ob] enc
      show ?thesis unfolding a by auto
    qed
  qed
qed

lemma obfs_line_shape:
  assumes "obfs_valid ob"
  shows "\<exists>l. FormatObfsLine ob = CHR ''O'' # l @ nl \<and> newline \<notin> set l" "has_prefix (FormatObfsLine ob) obfs_prefix"
proof -
  have tok: "newline \<notin> set s" if "list_all token_byte s" for s
    using that by (auto simp: list_all_iff token_byte_def plain_byte_def)
  have pl: "newline \<notin> set (itoa i)" for i using plain_no_newline [OF itoa_plain(1)] by blast
  let ?b = "itoa (PMin ob) @ '' '' @ itoa (PMax ob) @ '' '' @ dur_field (WDMin ob) @ '' '' @ dur_field (WDMax ob)"
  have "FormatObfsLine ob = obfs_prefix @ ?b @ nl" by (simp add: FormatObfsLine_def dur_field_def Let_def)
  moreover have "newline \<notin> set ?b"
    using dur_field_props(1) [of "WDMin ob"] dur_field_props(1) [of "WDMax ob"] assms pl tok by (auto simp: obfs_valid_def)
  ultimately show "\<exists>l. FormatObfsLine ob = CHR ''O'' # l @ nl \<and> newline \<notin> set l" "has_prefix (FormatObfsLine ob) obfs_prefix"
    by (auto simp: obfs_prefix_def has_prefix_def intro: exI [of _ "''BFS '' @ ?b"])
qed

lemma obfs_node_session:
  assumes p: "p = ''TCP'' \<or> p = ''DIRECT''" and h: "host_ok host" "0 < port" "port \<le> 65535"
    and ob: "obfs_valid want" "length (FormatObfsLine want) \<le> bufio_size" "ob = AgreeObfs (srv_obfs srv) want" "PMin ob < 65536"
    and w: "rx w = FormatObfsLine want # segs" "wire_steady w"
    and ms: "carries ob (session_cut ev (vlessToken srv) (lastChosenProtocol pid srv)) (concat segs) ms"
      "concat ms = request_line p host port @ data"
    and c: "lastChosenProtocol pid srv \<notin> {''vless'', ''vmess'', ''hysteria2''}"
      "lastChosenProtocol pid srv = ''shadowsocks'' \<Longrightarrow> cipher_ready ev (vlessToken srv)"
    and d: "e_dial_tcp ev host port = Inr t" "ends_well t"
    and n: "1 + length (concat ms) + 2 * length (concat segs) + length segs \<le> turns True (e_sched ev)"
      "1 + length (rx t) + length (concat (rx t)) \<le> turns False (e_sched ev)"
  shows "wire_served ob (session_cut ev (vlessToken srv) (lastChosenProtocol pid srv)) (tx w @ FormatObfsLine ob) data t
    (new_slog (has_metrics srv) (lastChosenProtocol pid srv) region) (handleProxyStream ev srv pid region w)"
proof -
  let ?ch = "lastChosenProtocol pid srv" and ?lg = "new_slog (has_metrics srv) (lastChosenProtocol pid srv) region"
  let ?w = "w\<lparr>rx := segs\<rparr>" and ?w1 = "w\<lparr>rx := segs, tx := tx w @ FormatObfsLine ob\<rparr>"
  from obfs_line_shape(1) [OF ob(1)] obtain l where l: "FormatObfsLine want = CHR ''O'' # l @ nl" "newline \<notin> set l" by blast
  have up: "\<not> closed w" "tx_room w = None" using w(2) by (simp_all add: wire_steady_def ends_well_def)
  have "handleProxyStream ev srv pid region w = first_line_phase ev srv ?ch (FormatObfsLine want) ?w ?lg"
    using handle_text_first [of w "CHR ''O''" l "[]" segs ev srv pid region] w(1) ob(2) l up(1)
    by (simp add: text_start_def nl_def)
  also have "\<dots> = agreed_phase ev srv ?ch ob ?w1 ?lg"
    using obfs_line_shape(2) [OF ob(1)] parse_format_obfs [OF ob(1)] up
    by (simp add: first_line_phase_def ob(3) Let_def write_string_wire wire_write_def)
  finally have r: "handleProxyStream ev srv pid region w = agreed_phase ev srv ?ch ob ?w1 ?lg" .
  have "wire_steady ?w1" using w by (simp add: wire_steady_def)
  moreover have "carries ob (session_cut ev (vlessToken srv) ?ch) (wire_content ?w1) ms"
    using ms(1) by (simp add: wire_content_def)
  moreover have "1 + length (concat ms) + 2 * length (wire_content ?w1) + length (rx ?w1) \<le> turns True (e_sched ev)"
    using n(1) by (simp add: wire_content_def)
  ultimately show ?thesis
    unfolding r using agreed_served [OF p h _ _ ms(2) ob(4) c d _ n(2), of ?w1 ?lg] by simp
qed

section \<open>The client\<close>

text \<open>
  The client's sessions are values of one type, so the contracts are carried over to it: reading and
  writing through a wrapper of \<open>sess\<close> is reading and writing through the wrapper below.
\<close>

definition sess_io :: "aead \<Rightarrow> nat \<Rightarrow> sess rwc" where
  "sess_io a d = \<lparr>s_read = sess_read_d a d, s_write = sess_write_d a d, s_deadline = sess_deadline, s_close = sess_close\<rparr>"

lemma duplex_image:
  assumes "duplex io inp sent live work lim" "\<And>x. unc (con x) = x"
    and "\<And>x n. live x \<Longrightarrow> s_read io2 (con x) n = map_option (\<lambda>(bs, e, y). (bs, e, con y)) (s_read io x n)"
    and "\<And>x bs. live x \<Longrightarrow> s_write io2 (con x) bs = (case s_write io x bs of (n, e, y) \<Rightarrow> (n, e, con y))"
  shows "duplex io2 (\<lambda>s. inp (unc s)) (\<lambda>ms s. sent ms (unc s)) (\<lambda>s. s = con (unc s) \<and> live (unc s)) (\<lambda>s. work (unc s)) lim"
proof unfold_locales
  fix s and n :: nat
  assume h: "s = con (unc s) \<and> live (unc s)" "0 < n" "inp (unc s) \<noteq> []"
  from duplex.read_data [OF assms(1), of "unc s" n] h obtain bs y where
    "s_read io (unc s) n = Some (bs, None, y)" "bs \<noteq> []" "length bs \<le> n" "inp (unc s) = bs @ inp y" "work y < work (unc s)" by auto
  with assms(2,3) h(1) show "\<exists>bs s'. s_read io2 s n = Some (bs, None, s') \<and> bs \<noteq> [] \<and> length bs \<le> n \<and>
      inp (unc s) = bs @ inp (unc s') \<and> work (unc s') < work (unc s)"
    by (metis (no_types, lifting) case_prod_conv option.simps(9))
next
  fix s and n :: nat
  assume h: "s = con (unc s) \<and> live (unc s)" "0 < n" "inp (unc s) = []"
  from duplex.read_end [OF assms(1), of "unc s" n] h obtain y where
    "s_read io (unc s) n = Some ([], Some EOF, y)" "inp y = []" by auto
  with assms(2,3) h(1) show "\<exists>s'. s_read io2 s n = Some ([], Some EOF, s') \<and> inp (unc s') = []"
    by (metis (no_types, lifting) case_prod_conv option.simps(9))
next
  fix s s' and n :: nat and bs e ms
  assume h: "s = con (unc s) \<and> live (unc s)" "s_read io2 s n = Some (bs, e, s')"
  then have "s_read io2 (con (unc s)) n = Some (bs, e, s')" by simp
  with assms(3) [of "unc s" n] h(1) obtain y where y: "s_read io (unc s) n = Some (bs, e, y)" "s' = con y"
    by (cases "s_read io (unc s) n") auto
  from duplex.read_keep [OF assms(1) _ y(1)] h(1) y(2) assms(2)
  show "(s' = con (unc s') \<and> live (unc s')) \<and> (sent ms (unc s) \<longrightarrow> sent ms (unc s')) \<and> work (unc s') \<le> work (unc s)" by simp
next
  fix s and bs :: bytes
  assume h: "s = con (unc s) \<and> live (unc s)" "bs \<noteq> []" "length bs \<le> lim"
  from duplex.write_data [OF assms(1) _ h(2,3), of "unc s"] h(1) obtain y where
    w: "s_write io (unc s) bs = (length bs, None, y)" "live y" "\<forall>ms. sent ms (unc s) \<longrightarrow> sent (ms @ [bs]) y"
    "inp y = inp (unc s)" "work y = work (unc s)" by auto
  have "s_write io2 s bs = (length bs, None, con y)" using assms(4) [of "unc s" bs] h(1) w(1) by simp
  with w assms(2) show "\<exists>s'. s_write io2 s bs = (length bs, None, s') \<and> (s' = con (unc s') \<and> live (unc s')) \<and>
      (\<forall>ms. sent ms (unc s) \<longrightarrow> sent (ms @ [bs]) (unc s')) \<and> inp (unc s') = inp (unc s) \<and> work (unc s') = work (unc s)"
    by auto
qed

lemma messages_image:
  assumes "messages io inp sent live work lim nxt" "\<And>x. unc (con x) = x"
    and "\<And>x n. live x \<Longrightarrow> s_read io2 (con x) n = map_option (\<lambda>(bs, e, y). (bs, e, con y)) (s_read io x n)"
    and "\<And>x bs. live x \<Longrightarrow> s_write io2 (con x) bs = (case s_write io x bs of (n, e, y) \<Rightarrow> (n, e, con y))"
  shows "messages io2 (\<lambda>s. inp (unc s)) (\<lambda>ms s. sent ms (unc s)) (\<lambda>s. s = con (unc s) \<and> live (unc s))
    (\<lambda>s. work (unc s)) lim (\<lambda>m s. nxt m (unc s))"
proof (intro messages.intro messages_axioms.intro)
  note d = messages.axioms(1) [OF assms(1)]
  show "duplex io2 (\<lambda>s. inp (unc s)) (\<lambda>ms s. sent ms (unc s)) (\<lambda>s. s = con (unc s) \<and> live (unc s)) (\<lambda>s. work (unc s)) lim"
    by (rule duplex_image [OF d assms(2-4)])
next
  fix s m and n :: nat
  assume h: "s = con (unc s) \<and> live (unc s)" "nxt m (unc s)" "0 < n" "length m \<le> n"
  from messages.nxt_read [OF assms(1), of "unc s" m n] h obtain y where
    y: "s_read io (unc s) n = Some (m, None, y)" "inp (unc s) = m @ inp y" by auto
  have "s_read io2 s n = Some (m, None, con y)" using assms(3) [of "unc s" n] h(1) y(1) by simp
  with y(2) assms(2) show "\<exists>s'. s_read io2 s n = Some (m, None, s') \<and> inp (unc s) = m @ inp (unc s')" by auto
next
  fix s s' m n e and bs :: bytes
  assume h: "s = con (unc s) \<and> live (unc s)" "nxt m (unc s)" "bs \<noteq> []" "length bs \<le> lim" "s_write io2 s bs = (n, e, s')"
  obtain n1 e1 y where y: "s_write io (unc s) bs = (n1, e1, y)" by (metis prod_cases3)
  have "s' = con y" using assms(4) [of "unc s" bs] h(1,5) y by simp
  with messages.nxt_write [OF assms(1) _ h(2-4) y] h(1) assms(2) show "nxt m (unc s')" by simp
qed

fun un_Pad :: "sess \<Rightarrow> padding \<times> sess" where
  "un_Pad (Pad c s) = (c, s)"
| "un_Pad s = undefined"

fun un_Delay :: "sess \<Rightarrow> delay \<times> sess" where
  "un_Delay (Delay c s) = (c, s)"
| "un_Delay s = undefined"

fun un_SSS :: "sess \<Rightarrow> ssAEAD \<times> sess" where
  "un_SSS (SSS c s) = (c, s)"
| "un_SSS s = undefined"

lemma duplex_cong:
  assumes "duplex io inp sent live work lim"
    and "\<And>s n. live s \<Longrightarrow> s_read io2 s n = s_read io s n" "\<And>s bs. live s \<Longrightarrow> s_write io2 s bs = s_write io s bs"
  shows "duplex io2 inp sent live work lim"
  by (rule duplex.intro; use assms duplex.read_data [OF assms(1)] duplex.read_end [OF assms(1)]
      duplex.read_keep [OF assms(1)] duplex.write_data [OF assms(1)] in metis)

lemma messages_cong:
  assumes "messages io inp sent live work lim nxt"
    and "\<And>s n. live s \<Longrightarrow> s_read io2 s n = s_read io s n" "\<And>s bs. live s \<Longrightarrow> s_write io2 s bs = s_write io s bs"
  shows "messages io2 inp sent live work lim nxt"
proof (intro messages.intro messages_axioms.intro)
  show "duplex io2 inp sent live work lim"
    by (rule duplex_cong [OF messages.axioms(1) [OF assms(1)] assms(2,3)])
next
  fix s m and n :: nat
  assume "live s" "nxt m s" "0 < n" "length m \<le> n"
  with messages.nxt_read [OF assms(1), of s m n] assms(2) show "\<exists>s'. s_read io2 s n = Some (m, None, s') \<and> inp s = m @ inp s'" by simp
next
  fix s s' m n e and bs :: bytes
  assume "live s" "nxt m s" "bs \<noteq> []" "length bs \<le> lim" "s_write io2 s bs = (n, e, s')"
  with messages.nxt_write [OF assms(1), of s m bs n e s'] assms(3) show "nxt m s'" by simp
qed

text \<open>
  A client's end of a session: \<open>s\<close> has sent the messages \<open>ms\<close> behind \<open>pre\<close>, in the form \<open>enc\<close>; the bytes
  \<open>i\<close> are still to come, the first of them, when \<open>nx\<close> says so, as a message of their own.
\<close>

definition endpoint ::
  "aead \<Rightarrow> nat \<Rightarrow> nat \<Rightarrow> (bytes list \<Rightarrow> bytes \<Rightarrow> bool) \<Rightarrow> bytes \<Rightarrow> sess \<Rightarrow> bytes list \<Rightarrow> bytes \<Rightarrow> bytes option \<Rightarrow> bool"
where
  "endpoint a d lim enc pre s ms i nx \<longleftrightarrow>
     (\<exists>inp sent live work nxt. messages (sess_io a d) inp sent live work lim nxt \<and>
        (\<forall>s. live s \<longrightarrow> depth s = d) \<and>
        (\<forall>ms s. live s \<longrightarrow> sent ms s \<longrightarrow> (\<exists>ys. tx (sess_wire s) = pre @ ys \<and> enc ms ys)) \<and>
        live s \<and> sent ms s \<and> inp s = i \<and> (\<forall>m. nx = Some m \<longrightarrow> nxt m s))"

lemma endpoint_net:
  assumes "wire_steady w" "tx w = pre" "\<forall>m. nx = Some m \<longrightarrow> (\<exists>segs. rx w = m # segs)"
  shows "endpoint a 0 lim (\<lambda>ms ys. ys = concat ms) pre (Net w) [] (wire_content w) nx"
proof -
  have "messages (sess_io a 0) (\<lambda>s. wire_content (sess_wire s)) (\<lambda>ms s. wire_sent pre ms (sess_wire s))
      (\<lambda>s. s = Net (sess_wire s) \<and> wire_steady (sess_wire s)) (\<lambda>s. wire_work (sess_wire s)) lim
      (\<lambda>m s. \<exists>segs. rx (sess_wire s) = m # segs)"
    by (rule messages_image [OF segments.messages_axioms, where con = Net])
      (simp_all add: sess_io_def wire_rwc_def net_read_def)
  moreover have "\<forall>s. s = Net (sess_wire s) \<and> wire_steady (sess_wire s) \<longrightarrow> depth s = 0"
    by (metis depth.simps(1))
  ultimately show ?thesis
    unfolding endpoint_def using assms
    by (intro exI conjI) (assumption | simp add: wire_sent_def)+
qed

lemma endpoint_delay:
  assumes "endpoint a d lim enc pre s ms i nx"
  shows "endpoint a (Suc d) lim enc pre (Delay c s) ms i nx"
proof -
  from assms obtain inp sent live work nxt where e: "messages (sess_io a d) inp sent live work lim nxt"
    "\<forall>s. live s \<longrightarrow> depth s = d" "\<forall>ms s. live s \<longrightarrow> sent ms s \<longrightarrow> (\<exists>ys. tx (sess_wire s) = pre @ ys \<and> enc ms ys)"
    "live s" "sent ms s" "inp s = i" "\<forall>m. nx = Some m \<longrightarrow> nxt m s" unfolding endpoint_def by blast
  have m: "messages (sess_io a (Suc d)) (\<lambda>s. case un_Delay s of (c, s) \<Rightarrow> inp s) (\<lambda>ms s. case un_Delay s of (c, s) \<Rightarrow> sent ms s)
      (\<lambda>s. s = (case un_Delay s of (c, s) \<Rightarrow> Delay c s) \<and> (case un_Delay s of (c, s) \<Rightarrow> live s))
      (\<lambda>s. case un_Delay s of (c, s) \<Rightarrow> work s) lim (\<lambda>m s. case un_Delay s of (c, s) \<Rightarrow> nxt m s)"
    by (rule messages_image [OF messages.delayed_messages [OF e(1)], where con = "\<lambda>(c, s). Delay c s"])
      (auto simp: sess_io_def delay_rwc_def case_prod_beta')
  have dep: "depth s = Suc d" if "s = (case un_Delay s of (c, s) \<Rightarrow> Delay c s) \<and> (case un_Delay s of (c, s) \<Rightarrow> live s)" for s
    using that e(2) by (cases "un_Delay s") auto
  have tx: "\<exists>ys. tx (sess_wire s) = pre @ ys \<and> enc ms ys"
    if "s = (case un_Delay s of (c, s) \<Rightarrow> Delay c s) \<and> (case un_Delay s of (c, s) \<Rightarrow> live s)"
      "case un_Delay s of (c, s) \<Rightarrow> sent ms s" for s ms
  proof -
    obtain c1 s1 where u: "un_Delay s = (c1, s1)" by fastforce
    with that have "s = Delay c1 s1" "live s1" "sent ms s1" by auto
    with e(3) show ?thesis by auto
  qed
  show ?thesis unfolding endpoint_def using m dep tx e(4-7)
    by (intro exI conjI) (assumption | simp | blast)+
qed

text \<open>A framed wrapper: the frames of its messages are what the stream below carries.\<close>

lemma endpoint_layer:
  fixes io2 :: "('c \<times> sess) rwc"
  assumes "endpoint a d lim enc pre s ms i nx0"
    and lay: "\<And>inp sent live work. duplex (sess_io a d) inp sent live work lim \<Longrightarrow>
      layer (sess_io a d) inp sent live work lim io2 buffered good sp lim2"
    and con: "\<And>x. unc (con x) = x" "\<And>c s. depth (con (c, s)) = Suc (depth s)" "\<And>c s. sess_wire (con (c, s)) = sess_wire s"
      "\<And>x n. s_read (sess_io a (Suc d)) (con x) n = map_option (\<lambda>(bs, e, y). (bs, e, con y)) (s_read io2 x n)"
      "\<And>x bs. s_write (sess_io a (Suc d)) (con x) bs = (case s_write io2 x bs of (n, e, y) \<Rightarrow> (n, e, con y))"
    and c: "good c" "buffered c = []" "frames sp rest i" "ms = []"
  shows "endpoint a (Suc d) lim2 (\<lambda>ms ys. \<exists>fs. enc fs ys \<and> frames sp ms (concat fs)) pre (con (c, s)) [] (concat rest)
    (case rest of [] \<Rightarrow> None | m # _ \<Rightarrow> Some m)"
proof -
  from assms(1) obtain inp sent live work nxt where e: "messages (sess_io a d) inp sent live work lim nxt"
    "\<forall>s. live s \<longrightarrow> depth s = d" "\<forall>ms s. live s \<longrightarrow> sent ms s \<longrightarrow> (\<exists>ys. tx (sess_wire s) = pre @ ys \<and> enc ms ys)"
    "live s" "sent [] s" "inp s = i" using c(4) unfolding endpoint_def by blast
  note l = lay [OF messages.axioms(1) [OF e(1)]]
  define I where "I = layer.inp2 inp buffered sp"
  define S :: "bytes list \<Rightarrow> 'c \<times> sess \<Rightarrow> bool" where "S = layer.sent2 sent sp []"
  define L :: "'c \<times> sess \<Rightarrow> bool" where "L = layer.live2 inp live good sp"
  define N :: "bytes \<Rightarrow> 'c \<times> sess \<Rightarrow> bool" where "N = layer.nxt2 inp buffered sp"
  note defs = I_def S_def L_def N_def layer.inp2_def [OF l] layer.sent2_def [OF l] layer.live2_def [OF l] layer.nxt2_def [OF l]
  have "messages io2 I S L (layer.work2 inp buffered) lim2 N"
    unfolding I_def S_def L_def N_def by (rule layer.stacked_messages [OF l])
  note m = messages_image [OF this con(1) con(4,5), simplified]
  have dep: "depth s = Suc d" if "s = con (unc s) \<and> L (unc s)" for s
  proof -
    obtain c1 s1 where u: "unc s = (c1, s1)" by fastforce
    with that have "live s1" "s = con (c1, s1)" unfolding defs by auto
    with e(2) con(2) show ?thesis by auto
  qed
  have tx: "\<exists>ys. tx (sess_wire s) = pre @ ys \<and> (\<exists>fs. enc fs ys \<and> frames sp ms (concat fs))"
    if "s = con (unc s) \<and> L (unc s)" "S ms (unc s)" for s ms
  proof -
    obtain c1 s1 where u: "unc s = (c1, s1)" by fastforce
    with that obtain fss where f: "live s1" "s = con (c1, s1)" "sent (concat fss) s1"
      "list_all2 (\<lambda>m fs. m \<noteq> [] \<and> whole sp m (concat fs)) ms fss" unfolding defs by auto
    from e(3) f(1,3) obtain ys where "tx (sess_wire s1) = pre @ ys" "enc (concat fss) ys" by blast
    with frames_concat [OF f(4)] f(2) con(3) show ?thesis by (intro exI [of _ ys] conjI exI [of _ "concat fss"]) simp_all
  qed
  have st: "L (c, s)" "S [] (c, s)" "I (c, s) = concat rest"
    unfolding defs using c e(4-6) layer.frames_deframe [OF l c(3)] by auto
  have nx: "N m (c, s)" if "(case rest of [] \<Rightarrow> None | m # _ \<Rightarrow> Some m) = Some m" for m
    using that c(2,3) e(6) unfolding defs by (auto split: list.splits)
  show ?thesis unfolding endpoint_def
    by (rule exI, rule exI, rule exI, rule exI, rule exI, rule conjI [OF m])
      (use dep tx st nx con(1) in auto)
qed

lemma endpoint_pad:
  assumes "endpoint a d lim enc pre s [] i nx0" "pad_ready c" "pad_buffered c = []" "frames pad_split rest i"
    and "lim2 < 65536" "lim2 + 4 + 65536 \<le> lim"
  shows "endpoint a (Suc d) lim2 (\<lambda>ms ys. \<exists>fs. enc fs ys \<and> frames pad_split ms (concat fs)) pre (Pad c s) []
    (concat rest) (case rest of [] \<Rightarrow> None | m # _ \<Rightarrow> Some m)"
  using endpoint_layer [OF assms(1) duplex.padded [OF _ assms(5,6)], where con = "\<lambda>(c, s). Pad c s" and unc = un_Pad,
      OF _ _ _ _ _ _ assms(2,3,4) refl]
  by (auto simp: sess_io_def pad_rwc_def case_prod_beta')

lemma endpoint_ss:
  assumes "endpoint a d lim enc pre s [] i nx0" "ss_key c = k \<and> ss_rand c \<noteq> None" "ss_buffered c = []"
    and "frames (ss_split a k) rest i" "aead_ok a" "lim2 + 16 < 65536" "lim2 + 16 \<le> lim" "14 \<le> lim"
  shows "endpoint a (Suc d) lim2 (\<lambda>ms ys. \<exists>fs. enc fs ys \<and> frames (ss_split a k) ms (concat fs)) pre (SSS c s) []
    (concat rest) (case rest of [] \<Rightarrow> None | m # _ \<Rightarrow> Some m)"
  using endpoint_layer [OF assms(1) duplex.sealed [where k = k, OF _ assms(5-8)], where con = "\<lambda>(c, s). SSS c s"
      and unc = un_SSS, OF _ _ _ _ _ _ assms(2,3,4) refl]
  by (auto simp: sess_io_def ss_rwc_def case_prod_beta')

text \<open>What an end of a session can do.\<close>

lemma endpoint_messages:
  assumes "endpoint a d lim enc pre s ms i nx"
  shows "\<exists>inp sent live work nxt. messages (sess_rwc a) inp sent live work lim nxt \<and>
    (\<forall>s. live s \<longrightarrow> depth s = d) \<and>
    (\<forall>ms s. live s \<longrightarrow> sent ms s \<longrightarrow> (\<exists>ys. tx (sess_wire s) = pre @ ys \<and> enc ms ys)) \<and>
    live s \<and> sent ms s \<and> inp s = i \<and> (\<forall>m. nx = Some m \<longrightarrow> nxt m s) \<and>
    messages (sess_io a d) inp sent live work lim nxt"
proof -
  from assms obtain inp sent live work nxt where e: "messages (sess_io a d) inp sent live work lim nxt"
    "\<forall>s. live s \<longrightarrow> depth s = d" "\<forall>ms s. live s \<longrightarrow> sent ms s \<longrightarrow> (\<exists>ys. tx (sess_wire s) = pre @ ys \<and> enc ms ys)"
    "live s" "sent ms s" "inp s = i" "\<forall>m. nx = Some m \<longrightarrow> nxt m s" unfolding endpoint_def by blast
  have "messages (sess_rwc a) inp sent live work lim nxt"
    by (rule messages_cong [OF e(1)]) (use e(2) in \<open>simp_all add: sess_rwc_def sess_io_def sess_read_def sess_write_def\<close>)
  with e show ?thesis by blast
qed

lemma endpoint_write:
  assumes "endpoint a d lim enc pre s ms i nx" "m \<noteq> []" "length m \<le> lim"
  shows "\<exists>s'. sess_write a s m = (length m, None, s') \<and> endpoint a d lim enc pre s' (ms @ [m]) i nx"
proof -
  from endpoint_messages [OF assms(1)] obtain inp sent live work nxt where e: "messages (sess_rwc a) inp sent live work lim nxt"
    "\<forall>s. live s \<longrightarrow> depth s = d" "\<forall>ms s. live s \<longrightarrow> sent ms s \<longrightarrow> (\<exists>ys. tx (sess_wire s) = pre @ ys \<and> enc ms ys)"
    "live s" "sent ms s" "inp s = i" "\<forall>m. nx = Some m \<longrightarrow> nxt m s" "messages (sess_io a d) inp sent live work lim nxt" by blast
  from duplex.write_data [OF messages.axioms(1) [OF e(1)] e(4) assms(2,3)] obtain s' where
    w: "s_write (sess_rwc a) s m = (length m, None, s')" "live s'" "sent (ms @ [m]) s'" "inp s' = inp s" using e(5) by blast
  from messages.nxt_write [OF e(1) e(4) _ assms(2,3) w(1)] e(7) have "\<forall>m. nx = Some m \<longrightarrow> nxt m s'" by blast
  with w e have "endpoint a d lim enc pre s' (ms @ [m]) i nx" unfolding endpoint_def by blast
  with w(1) show ?thesis by (auto simp: sess_rwc_def)
qed

lemma endpoint_line:
  assumes "endpoint a d lim enc pre s ms i (Some (l @ nl))" "newline \<notin> set l" "length (l @ nl) \<le> bufio_size"
  shows "\<exists>s' i'. read_line (sess_read a) (new_bufrd s) = Some (l @ nl, None, new_bufrd s') \<and> i = l @ nl @ i' \<and>
    endpoint a d lim enc pre s' ms i' None"
proof -
  from endpoint_messages [OF assms(1)] obtain inp sent live work nxt where e: "messages (sess_rwc a) inp sent live work lim nxt"
    "\<forall>s. live s \<longrightarrow> depth s = d" "\<forall>ms s. live s \<longrightarrow> sent ms s \<longrightarrow> (\<exists>ys. tx (sess_wire s) = pre @ ys \<and> enc ms ys)"
    "live s" "sent ms s" "inp s = i" "nxt (l @ nl) s" "messages (sess_io a d) inp sent live work lim nxt" by auto
  from messages.whole_line [OF e(1,4,7) assms(2,3)] obtain s' where
    r: "read_line (s_read (sess_rwc a)) (new_bufrd s) = Some (l @ nl, None, new_bufrd s')" "inp s = l @ nl @ inp s'"
    "duplex.kept sent live work s s'" by blast
  from r(3) e(4,5) have "live s'" "sent ms s'" by (simp_all add: duplex.kept_def [OF messages.axioms(1) [OF e(1)]])
  with e(2,3,8) have "endpoint a d lim enc pre s' ms (inp s') None" unfolding endpoint_def by blast
  with r(1,2) e(6) show ?thesis by (auto simp: sess_rwc_def)
qed

lemma endpoint_read:
  assumes "endpoint a d lim enc pre s ms i nx" "k \<le> length i"
  shows "\<exists>s'. read_full (sess_read a) s k = Some (take k i, None, s')"
proof -
  from endpoint_messages [OF assms(1)] obtain inp sent live work nxt where e: "messages (sess_rwc a) inp sent live work lim nxt"
    "live s" "inp s = i" by blast
  from byte_stream.read_full_content [OF duplex.as_readable [OF messages.axioms(1) [OF e(1)]] e(2), of k] assms(2) e(3)
  show ?thesis by (auto simp: sess_rwc_def)
qed

lemma endpoint_send_all:
  assumes "endpoint a d lim enc pre s ms i nx" "\<forall>m\<in>set xs. m \<noteq> [] \<and> length m \<le> lim"
  shows "\<exists>s'. send_all (sess_write a) s xs = (map (\<lambda>m. (length m, None)) xs, s') \<and> endpoint a d lim enc pre s' (ms @ xs) i nx"
  using assms
proof (induction xs arbitrary: s ms)
  case (Cons x xs)
  from endpoint_write [OF Cons.prems(1), of x] Cons.prems(2) obtain s1 where
    s1: "sess_write a s x = (length x, None, s1)" "endpoint a d lim enc pre s1 (ms @ [x]) i nx" by auto
  from Cons.IH [OF s1(2)] Cons.prems(2) obtain s2 where
    "send_all (sess_write a) s1 xs = (map (\<lambda>m. (length m, None)) xs, s2)" "endpoint a d lim enc pre s2 (ms @ x # xs) i nx" by auto
  with s1(1) show ?case by auto
qed simp

lemma endpoint_sent: "endpoint a d lim enc pre s ms i nx \<Longrightarrow> \<exists>ys. tx (sess_wire s) = pre @ ys \<and> enc ms ys"
  unfolding endpoint_def by blast

lemma endpoint_weaken:
  assumes "endpoint a d lim enc pre s ms i nx" "\<And>ms ys. enc ms ys \<Longrightarrow> enc' ms ys" "lim' \<le> lim"
  shows "endpoint a d lim' enc' pre s ms i nx"
proof -
  from assms(1) obtain inp sent live work nxt where e: "messages (sess_io a d) inp sent live work lim nxt"
    "\<forall>s. live s \<longrightarrow> depth s = d" "\<forall>ms s. live s \<longrightarrow> sent ms s \<longrightarrow> (\<exists>ys. tx (sess_wire s) = pre @ ys \<and> enc ms ys)"
    "live s" "sent ms s" "inp s = i" "\<forall>m. nx = Some m \<longrightarrow> nxt m s" unfolding endpoint_def by blast
  note dup = messages.axioms(1) [OF e(1)]
  have "messages (sess_io a d) inp sent live work lim' nxt"
  proof (intro messages.intro messages_axioms.intro)
    show "duplex (sess_io a d) inp sent live work lim'"
      by (rule duplex.intro; use duplex.read_data [OF dup] duplex.read_end [OF dup] duplex.read_keep [OF dup]
          duplex.write_data [OF dup] assms(3) order_trans in meson)
  next
    fix s m and n :: nat
    assume "live s" "nxt m s" "0 < n" "length m \<le> n"
    then show "\<exists>s'. s_read (sess_io a d) s n = Some (m, None, s') \<and> inp s = m @ inp s'"
      by (rule messages.nxt_read [OF e(1)])
  next
    fix s s' m n err and bs :: bytes
    assume "live s" "nxt m s" "bs \<noteq> []" "length bs \<le> lim'" "s_write (sess_io a d) s bs = (n, err, s')"
    then show "nxt m s'" using messages.nxt_write [OF e(1)] assms(3) by (meson order_trans)
  qed
  moreover have "\<forall>ms s. live s \<longrightarrow> sent ms s \<longrightarrow> (\<exists>ys. tx (sess_wire s) = pre @ ys \<and> enc' ms ys)"
    using e(3) assms(2) by blast
  ultimately show ?thesis unfolding endpoint_def using e(2,4-7)
    by (intro exI [of _ inp] exI [of _ sent] exI [of _ live] exI [of _ work] exI [of _ nxt]) blast
qed

definition first_of :: "bytes list \<Rightarrow> bytes option" where
  "first_of ps = (case ps of [] \<Rightarrow> None | m # _ \<Rightarrow> Some m)"

text \<open>
  The wrappers the client puts on: behind padding each message of the node comes alone; without it a
  message is alone when the network delivers it so.
\<close>

lemma obfs_end:
  assumes "wire_steady w" "cut (pad_cut ob) ps (wire_content w)" "PMin ob < 65536"
    and "\<not> 0 < PMax ob \<Longrightarrow> \<forall>m. nx = Some m \<longrightarrow> (\<exists>segs. rx w = m # segs)"
  shows "\<exists>d. endpoint a d 60000 (\<lambda>ms. cut (pad_cut ob) ms) (tx w) (wrap_delay nt ob (wrap_pad nt ob (Net w))) []
    (concat ps) (if 0 < PMax ob then first_of ps else nx)"
proof -
  have "\<exists>d. endpoint a d 60000 (\<lambda>ms. cut (pad_cut ob) ms) (tx w) (wrap_pad nt ob (Net w)) [] (concat ps)
      (if 0 < PMax ob then first_of ps else nx)"
  proof (cases "0 < PMax ob")
    case False
    then have i: "wire_content w = concat ps" using assms(2) by (auto simp: cut_def pad_cut_def)
    have "endpoint a 0 60000 (\<lambda>ms. cut (pad_cut ob) ms) (tx w) (Net w) [] (concat ps) nx"
      by (rule endpoint_weaken [OF endpoint_net [OF assms(1) refl assms(4) [OF False], of a 60000, unfolded i]])
        (use False in \<open>simp_all add: cut_def pad_cut_def\<close>)
    with False show ?thesis by (auto simp: wrap_pad_def)
  next
    case True
    define c where "c = new_padding (PMin ob) (PMax ob) (e_pad_rng (n_env nt))"
    note fit = new_padding_fit [OF True assms(3), of "e_pad_rng (n_env nt)", folded c_def]
    from assms(2) True have fr: "frames pad_split ps (wire_content w)" by (simp add: cut_def pad_cut_def)
    have "endpoint a 0 200000 (\<lambda>ms ys. ys = concat ms) (tx w) (Net w) [] (wire_content w) None"
      by (rule endpoint_net [OF assms(1) refl]) simp
    from endpoint_pad [OF this fit fr, of 60000]
    have "endpoint a (Suc 0) 60000 (\<lambda>ms ys. \<exists>fs. ys = concat fs \<and> frames pad_split ms (concat fs)) (tx w) (Pad c (Net w)) []
        (concat ps) (first_of ps)" by (simp add: first_of_def)
    then have "endpoint a (Suc 0) 60000 (\<lambda>ms. cut (pad_cut ob) ms) (tx w) (Pad c (Net w)) [] (concat ps) (first_of ps)"
      by (rule endpoint_weaken) (use True in \<open>auto simp: cut_def pad_cut_def\<close>)
    with True show ?thesis by (auto simp: wrap_pad_def c_def)
  qed
  then obtain d where "endpoint a d 60000 (\<lambda>ms. cut (pad_cut ob) ms) (tx w) (wrap_pad nt ob (Net w)) [] (concat ps)
      (if 0 < PMax ob then first_of ps else nx)" by blast
  from this endpoint_delay [OF this, of "new_delay (WDMin ob) (WDMax ob) (e_delay_rng (n_env nt))"]
  show ?thesis unfolding wrap_delay_def by (cases "0 < WDMax ob"; simp only: if_True if_False; blast)
qed

text \<open>The client's end behind the handshake of the negotiated protocol.\<close>

lemma handshake_end:
  assumes e: "endpoint (e_gcm (n_env nt)) d 60000 (\<lambda>ms. cut (pad_cut ob) ms) pre s [] (concat ps) nx"
    and c: "chosenProto c \<notin> {''vless'', ''vmess'', ''hysteria2''}"
      "chosenProto c = ''shadowsocks'' \<Longrightarrow> cipher_ready (n_env nt) (cl_token c)"
    and ms: "cut (session_cut (n_env nt) (cl_token c) (chosenProto c)) ms (concat ps)"
    and nx: "session_cut (n_env nt) (cl_token c) (chosenProto c) = None \<Longrightarrow> nx = first_of ms"
  shows "\<exists>d' s'. handshake_step c nt True agreed s = Some (Inr ((), s')) \<and>
    endpoint (e_gcm (n_env nt)) d' copy_buf_size
      (\<lambda>ms ys. carries ob (session_cut (n_env nt) (cl_token c) (chosenProto c)) ys ms) pre s' [] (concat ms) (first_of ms)"
proof (cases "cl_token c \<noteq> '''' \<and> chosenProto c = ''shadowsocks''")
  case False
  then have ss: "session_cut (n_env nt) (cl_token c) (chosenProto c) = None" by (auto simp: session_cut_def)
  have "handshake_step c nt True agreed s = Some (Inr ((), s))"
    using False c(1) by (auto simp: handshake_step_def Let_def)
  moreover have i: "concat ps = concat ms" using ms ss by (simp add: cut_def)
  have "endpoint (e_gcm (n_env nt)) d copy_buf_size (\<lambda>ms ys. carries ob None ys ms) pre s [] (concat ms) (first_of ms)"
    using endpoint_weaken [OF e, of "\<lambda>ms ys. carries ob None ys ms" copy_buf_size] nx [OF ss] i
    by (simp add: carries_def copy_buf_size_def)
  ultimately show ?thesis unfolding ss by blast
next
  case True
  define k where "k = derive_key (e_digests (n_env nt)) (trim_space (cl_token c))"
  define x where "x = new_ssAEAD (e_digests (n_env nt)) (e_crand (n_env nt)) (trim_space (cl_token c))"
  have ss: "session_cut (n_env nt) (cl_token c) (chosenProto c) = Some (ss_split (e_gcm (n_env nt)) k)"
    using True by (simp add: session_cut_def k_def)
  from c(2) True have rdy: "aead_ok (e_gcm (n_env nt))" "e_crand (n_env nt) \<noteq> None" "trim_space (cl_token c) \<noteq> ''''"
    by (simp_all add: cipher_ready_def)
  have x: "ss_key x = k \<and> ss_rand x \<noteq> None" "ss_buffered x = []"
    using rdy by (simp_all add: x_def k_def new_ssAEAD_def ss_buffered_def)
  have "handshake_step c nt True agreed s = Some (Inr ((), SSS x s))"
    using True ss_handshake_role [OF rdy(3), of "''client''"]
    by (auto simp: handshake_step_def Let_def dial_config_def x_def split: option.splits)
  moreover from ms ss have fr: "frames (ss_split (e_gcm (n_env nt)) k) ms (concat ps)" by (simp add: cut_def)
  have "endpoint (e_gcm (n_env nt)) (Suc d) copy_buf_size (\<lambda>ms ys. carries ob (Some (ss_split (e_gcm (n_env nt)) k)) ys ms)
      pre (SSS x s) [] (concat ms) (first_of ms)"
    using endpoint_weaken [OF endpoint_ss [OF e x fr rdy(1), of copy_buf_size],
        of "\<lambda>ms ys. carries ob (Some (ss_split (e_gcm (n_env nt)) k)) ys ms" copy_buf_size]
    by (auto simp: carries_def first_of_def copy_buf_size_def)
  ultimately show ?thesis unfolding ss by blast
qed

text \<open>The lines a dial writes and reads on the bare stream, before the wrappers.\<close>

lemma obfs_step_agreed:
  assumes "0 < PMax want \<or> 0 < WDMax want" "obfs_valid ob" "length (FormatObfsLine ob) \<le> bufio_size"
    and "rx w = FormatObfsLine ob # segs" "wire_steady w"
  shows "obfs_step nt want (Net w) = Some (Inr (Some ob,
    wrap_delay nt ob (wrap_pad nt ob (Net (w\<lparr>tx := tx w @ FormatObfsLine want, rx := segs\<rparr>)))))"
proof -
  let ?w = "w\<lparr>tx := tx w @ FormatObfsLine want\<rparr>"
  have up: "\<not> closed w" "tx_room w = None" using assms(5) by (simp_all add: wire_steady_def ends_well_def)
  have w: "write_string (io_of nt) (Net w) (FormatObfsLine want) = (None, Net ?w)"
    using up by (simp add: write_string_def sess_rwc_def sess_write_def wire_write_def)
  from obfs_line_shape(1) [OF assms(2)] obtain l where l: "FormatObfsLine ob = (CHR ''O'' # l) @ nl" "newline \<notin> set (CHR ''O'' # l)"
    by (auto simp: nl_def)
  have "rx ?w = ((CHR ''O'' # l) @ newline # []) # segs" "length ((CHR ''O'' # l) @ newline # []) \<le> bufio_size" "\<not> closed ?w"
    using assms(3,4) l up by (simp_all add: nl_def)
  from read_line_segment [OF this(1) l(2) this(2,3), of "e_gcm (n_env nt)"] l(1)
  have "read_line (s_read (io_of nt)) (new_bufrd (Net ?w)) =
      Some (FormatObfsLine ob, None, \<lparr>b_src = Net (?w\<lparr>rx := segs\<rparr>), b_buf = [], b_err = None\<rparr>)"
    by (simp add: sess_rwc_def)
  with assms(1) w parse_format_obfs [OF assms(2)] show ?thesis by (simp add: obfs_step_def)
qed

text \<open>
  The client's dial: with the obfuscation agreed, the connection it returns is behind the wrappers,
  has sent the request, and delivers the target's bytes.
\<close>

lemma obfs_dial:
  fixes c0 :: ProxyClient and nt :: net
  defines "c \<equiv> negotiated c0 nt" and "ss \<equiv> session_cut (n_env nt) (cl_token c0) (chosenProto (negotiated c0 nt))"
  assumes o: "n_connect nt (dial_target c0) = None" "n_stream nt = Inr w" "0 < PMax (cl_obfs c0) \<or> 0 < WDMax (cl_obfs c0)"
    and ob: "obfs_valid ob" "length (FormatObfsLine ob) \<le> bufio_size" "PMin ob < 65536"
    and w: "rx w = FormatObfsLine ob # segs" "wire_steady w"
    and ms: "carries ob ss (concat segs) ((''OK'' @ nl) # ms)"
      "\<not> 0 < PMax ob \<Longrightarrow> ss = None \<Longrightarrow> \<exists>rest. segs = (''OK'' @ nl) # rest"
    and c: "chosenProto c \<notin> {''vless'', ''vmess'', ''hysteria2''}"
      "chosenProto c = ''shadowsocks'' \<Longrightarrow> cipher_ready (n_env nt) (cl_token c0)"
    and req: "length (request_line ''TCP'' host port) \<le> copy_buf_size"
  shows "\<exists>d s dep. DialTCP c0 nt host port = Some d \<and> d_err d = None \<and> d_stream d = Some s \<and>
    endpoint (e_gcm (n_env nt)) dep copy_buf_size (\<lambda>ms ys. carries ob ss ys ms) (tx w @ FormatObfsLine (cl_obfs c0)) s
      [request_line ''TCP'' host port] (concat ms) None"
proof -
  let ?w1 = "w\<lparr>tx := tx w @ FormatObfsLine (cl_obfs c0), rx := segs\<rparr>" and ?ok = "''OK'' @ nl"
  let ?s1 = "wrap_delay nt ob (wrap_pad nt ob (Net ?w1))" and ?a = "e_gcm (n_env nt)"
  have cc: "cl_obfs c = cl_obfs c0" "cl_token c = cl_token c0"
    unfolding c_def by (simp_all add: negotiated_obfs negotiated_def split: option.splits sum.splits prod.splits)
  have op: "open_stream c0 True nt k = k c (Net w)" for k
    using o(1,2) by (simp add: open_stream_def c_def)
  note st = obfs_step_agreed [OF o(3) ob(1,2) w, of nt, folded cc(1)]
  from w have s1: "wire_steady ?w1" by (simp add: wire_steady_def ends_well_def)
  obtain ps where ps: "cut (pad_cut ob) ps (wire_content ?w1)" "cut ss (?ok # ms) (concat ps)"
    "ss = None \<Longrightarrow> ps = ?ok # ms"
    using ms(1) unfolding carries_def by (cases ss) (auto simp: wire_content_def cut_def)
  define nx where "nx = (if ss = None then Some ?ok else None)"
  have "\<forall>m. nx = Some m \<longrightarrow> (\<exists>rest. rx ?w1 = m # rest)" if "\<not> 0 < PMax ob"
    using ms(2) [OF that] by (auto simp: nx_def)
  from obfs_end [OF s1 ps(1) ob(3) this, where a = ?a and nt = nt] obtain d1 where
    e1: "endpoint ?a d1 60000 (\<lambda>ms. cut (pad_cut ob) ms) (tx ?w1) ?s1 [] (concat ps) (if 0 < PMax ob then first_of ps else nx)"
    by blast
  have n1: "(if 0 < PMax ob then first_of ps else nx) = first_of (?ok # ms)" if "ss = None"
    using ps(3) [OF that] that by (simp add: nx_def first_of_def)
  have ssc: "ss = session_cut (n_env nt) (cl_token c) (chosenProto c)" by (simp add: ss_def c_def cc(2) [unfolded c_def])
  from handshake_end [OF e1 c(1) c(2) [folded cc(2)] ps(2) [unfolded ssc] n1 [unfolded ssc], of "Some ob"] obtain d2 s2 where
    e2: "handshake_step c nt True (Some ob) ?s1 = Some (Inr ((), s2))"
      "endpoint ?a d2 copy_buf_size (\<lambda>ms ys. carries ob ss ys ms) (tx ?w1) s2 [] (concat (?ok # ms)) (Some ?ok)"
    unfolding ssc by (auto simp: first_of_def)
  have "request_line ''TCP'' host port \<noteq> []" by (simp add: request_line_def)
  from endpoint_write [OF e2(2) this req] obtain s3 where
    s3: "sess_write ?a s2 (request_line ''TCP'' host port) = (length (request_line ''TCP'' host port), None, s3)"
      "endpoint ?a d2 copy_buf_size (\<lambda>ms ys. carries ob ss ys ms) (tx ?w1) s3 [request_line ''TCP'' host port]
        (concat (?ok # ms)) (Some ?ok)" by auto
  have ok: "newline \<notin> set ''OK''" "length ?ok \<le> bufio_size" by (simp_all add: nl_def bufio_size_def)
  from endpoint_line [OF s3(2) ok] obtain s4 i where
    s4: "read_line (sess_read ?a) (new_bufrd s3) = Some (?ok, None, new_bufrd s4)" "concat (?ok # ms) = ?ok @ i"
      "endpoint ?a d2 copy_buf_size (\<lambda>ms ys. carries ob ss ys ms) (tx ?w1) s4 [request_line ''TCP'' host port] i None" by auto
  have "DialTCP c0 nt host port = Some (dial_ok c nt s4)"
    unfolding DialTCP_def op using s3(1) s4(1)
    by (simp add: run_step_def cc(1) st [unfolded cc(1)] e2(1) send_request_def own_obfs_def write_string_def
        sess_rwc_def read_response_def has_prefix_def new_bufrd_def)
  with s4(2,3) show ?thesis by (auto simp: dial_ok_def)
qed

section \<open>Client and node\<close>

text \<open>
  C5: an obfuscated tunnel works end to end. Client and node agree on padding and delays, both put
  the agreed wrappers on, the cipher of shadowsocks above them when that protocol was negotiated for
  the peer, and the network cuts the bytes of either direction into segments as it likes. Then the
  target receives exactly the data the client's stream carries behind its request; the client's dial
  succeeds, the connection it returns accepts further messages, delivers exactly the target's bytes,
  and what it puts on the network decodes, by the same agreement, to the request and those messages.
  Without padding and cipher the \<open>OK\<close> line has to arrive as a segment of its own.
\<close>

theorem obfuscated_tunnel_end_to_end:
  fixes c :: ProxyClient and nt :: net
  assumes ss_def: "ss = session_cut ev (vlessToken srv) (lastChosenProtocol pid srv)"
    and h: "host_ok host" "0 < port" "port \<le> 65535" "length (request_line ''TCP'' host port) \<le> copy_buf_size"
    and ob: "obfs_valid (cl_obfs c)" "length (FormatObfsLine (cl_obfs c)) \<le> bufio_size"
      "ob = AgreeObfs (srv_obfs srv) (cl_obfs c)" "PMin ob < 65536" "obfs_valid ob" "length (FormatObfsLine ob) \<le> bufio_size"
      "0 < PMax (cl_obfs c) \<or> 0 < WDMax (cl_obfs c)"
    and w: "rx w = FormatObfsLine (cl_obfs c) # segs" "wire_steady w" "tx w = []"
      "carries ob ss (concat segs) ms" "concat ms = request_line ''TCP'' host port @ data"
    and same: "chosenProto (negotiated c nt) = lastChosenProtocol pid srv" "cl_token c = vlessToken srv"
      "e_gcm (n_env nt) = e_gcm ev" "e_digests (n_env nt) = e_digests ev"
    and p: "lastChosenProtocol pid srv \<notin> {''vless'', ''vmess'', ''hysteria2''}"
      "lastChosenProtocol pid srv = ''shadowsocks'' \<Longrightarrow> cipher_ready ev (vlessToken srv) \<and> e_crand (n_env nt) \<noteq> None"
    and t: "e_dial_tcp ev host port = Inr t" "ends_well t" "tx t = []"
    and n: "1 + length (concat ms) + 2 * length (concat segs) + length segs \<le> turns True (e_sched ev)"
      "1 + length (rx t) + length (concat (rx t)) \<le> turns False (e_sched ev)"
    and node: "handleProxyStream ev srv pid region w = Some oc"
    and client: "n_connect nt (dial_target c) = None" "n_stream nt = Inr cw" "wire_steady cw" "tx cw = []"
      "rx cw = FormatObfsLine ob # csegs" "concat (rx cw) = tx (oc_stream oc)"
      "\<not> 0 < PMax ob \<Longrightarrow> ss = None \<Longrightarrow> \<exists>rest. csegs = (''OK'' @ nl) # rest"
    and more: "\<forall>m\<in>set xs. m \<noteq> [] \<and> length m \<le> copy_buf_size"
  shows "\<exists>t' d s s1 s2 ys. oc_target oc = Some t' \<and> tx t' = data \<and> closed t' \<and> closed (oc_stream oc) \<and>
    DialTCP c nt host port = Some d \<and> d_err d = None \<and> d_stream d = Some s \<and>
    send_all (sess_write (e_gcm ev)) s xs = (map (\<lambda>m. (length m, None)) xs, s1) \<and>
    read_full (sess_read (e_gcm ev)) s1 (length (concat (rx t))) = Some (concat (rx t), None, s2) \<and>
    tx (sess_wire s1) = FormatObfsLine (cl_obfs c) @ ys \<and> carries ob ss ys (request_line ''TCP'' host port # xs)"
proof -
  have cr: "lastChosenProtocol pid srv = ''shadowsocks'' \<Longrightarrow> cipher_ready ev (vlessToken srv)" using p(2) by blast
  from obfs_node_session [of "''TCP''", OF _ h(1-3) ob(1,2,3,4) w(1,2,4,5) [unfolded ss_def] p(1) cr t(1,2) n, of region]
  have "wire_served ob ss (tx w @ FormatObfsLine ob) data t
      (new_slog (has_metrics srv) (lastChosenProtocol pid srv) region) (Some oc)"
    unfolding ss_def node by simp
  then obtain t' ys ns where s: "oc_target oc = Some t'" "tx t' = tx t @ data" "closed t'"
    "tx (oc_stream oc) = FormatObfsLine ob @ ys" "closed (oc_stream oc)"
    "carries ob ss ys ((''OK'' @ nl) # ns)" "concat ns = concat (rx t)"
    using w(3) unfolding wire_served_def by auto
  have ys: "ys = concat csegs" using client(5,6) s(4) by simp
  have ss: "session_cut (n_env nt) (cl_token c) (chosenProto (negotiated c nt)) = ss"
    by (simp add: ss_def same session_cut_def)
  have cr2: "chosenProto (negotiated c nt) = ''shadowsocks'' \<Longrightarrow> cipher_ready (n_env nt) (cl_token c)"
    using p(2) by (simp add: same cipher_ready_def)
  from obfs_dial [OF client(1,2) ob(7,5,6,4) client(5,3), unfolded ss, OF s(6) [unfolded ys] client(7) _ cr2 h(4)] p(1)
  obtain d x dep where d: "DialTCP c nt host port = Some d" "d_err d = None" "d_stream d = Some x"
    and e: "endpoint (e_gcm ev) dep copy_buf_size (\<lambda>ms ys. carries ob ss ys ms) (FormatObfsLine (cl_obfs c)) x
      [request_line ''TCP'' host port] (concat ns) None"
    using client(4) by (auto simp: same)
  from endpoint_send_all [OF e more] obtain s1 where
    s1: "send_all (sess_write (e_gcm ev)) x xs = (map (\<lambda>m. (length m, None)) xs, s1)"
      "endpoint (e_gcm ev) dep copy_buf_size (\<lambda>ms ys. carries ob ss ys ms) (FormatObfsLine (cl_obfs c)) s1
        (request_line ''TCP'' host port # xs) (concat ns) None" by auto
  from endpoint_read [OF s1(2), of "length (concat (rx t))"] s(7) obtain s2 where
    s2: "read_full (sess_read (e_gcm ev)) s1 (length (concat (rx t))) = Some (concat (rx t), None, s2)" by auto
  from endpoint_sent [OF s1(2)] obtain zs where
    "tx (sess_wire s1) = FormatObfsLine (cl_obfs c) @ zs" "carries ob ss zs (request_line ''TCP'' host port # xs)" by blast
  with s s1(1) s2 d t(3) show ?thesis by auto
qed

definition wit_ob :: ObfsParams where
  "wit_ob = \<lparr>PMin = 0, PMax = 8, WDMin = 0, WDMax = 0\<rparr>"

definition wit_obfs_server :: Server where
  "wit_obfs_server = SetVLESSAuthToken ''secret'' (NewServer\<lparr>srv_obfs := wit_ob\<rparr>)"

definition wit_obfs_segs :: "bytes list" where
  "wit_obfs_segs = [pad_frame (request_line ''TCP'' ''example.com'' 80) ''xy'', pad_frame ''GET /'' []]"

definition wit_obfs_env :: env where
  "wit_obfs_env = wit_env (replicate 100 True @ replicate 20 False)"

lemma wit_obfs_line: "FormatObfsLine wit_ob = ''OBFS 0 8 0 0'' @ nl" "obfs_valid wit_ob"
    "AgreeObfs wit_ob wit_ob = wit_ob"
  by code_simp+

lemma wit_obfs_request: "request_line ''TCP'' ''example.com'' 80 = ''TCP example.com 80'' @ nl"
  by code_simp

lemma wit_obfs_carries:
  "carries wit_ob (session_cut ev ''secret'' '''') (concat wit_obfs_segs) [request_line ''TCP'' ''example.com'' 80, ''GET /'']"
proof -
  have "frames pad_split [request_line ''TCP'' ''example.com'' 80, ''GET /''] (concat wit_obfs_segs)"
    unfolding wit_obfs_segs_def wit_obfs_request concat.simps
    by (intro frames.intros) (auto simp: nl_def intro!: pad_frame_whole)
  moreover have "pad_cut wit_ob = Some pad_split" by (simp add: pad_cut_def wit_ob_def)
  ultimately show ?thesis by (simp add: carries_def session_cut_def cut_def)
qed

text \<open>A node's run on these segments.\<close>

lemma wit_obfs_node:
  "\<exists>oc ys. handleProxyStream wit_obfs_env wit_obfs_server ''peer1'' ''de''
       (wire_of (FormatObfsLine wit_ob # wit_obfs_segs) (Some EOF)) = Some oc \<and>
     tx (oc_stream oc) = FormatObfsLine wit_ob @ ys \<and> ys \<noteq> []"
proof -
  let ?w = "wire_of (FormatObfsLine wit_ob # wit_obfs_segs) (Some EOF)"
  have st: "srv_obfs wit_obfs_server = wit_ob" "vlessToken wit_obfs_server = ''secret''"
    "lastChosenProtocol ''peer1'' wit_obfs_server = ''''"
    by (simp_all add: wit_obfs_server_def SetVLESSAuthToken_def NewServer_def lastChosenProtocol_def)
  have len: "length (concat wit_obfs_segs) = 34" "length wit_obfs_segs = 2"
    by (simp_all add: wit_obfs_segs_def wit_obfs_request pad_frame_def nl_def)
  have tr: "turns True (e_sched wit_obfs_env) = 100" "turns False (e_sched wit_obfs_env) = 20"
    "length (rx wit_target) + length (concat (rx wit_target)) \<le> 10"
    by (simp_all add: wit_obfs_env_def wit_env_def turns_def wit_target_def wire_of_def)
  have t: "e_dial_tcp wit_obfs_env ''example.com'' 80 = Inr wit_target" "ends_well wit_target"
    by (simp_all add: wit_obfs_env_def wit_env_def wit_target_def ends_well_def wire_of_def)
  have w: "rx ?w = FormatObfsLine wit_ob # wit_obfs_segs" "wire_steady ?w"
    by (auto simp: wire_of_def wire_steady_def ends_well_def wit_obfs_segs_def wit_obfs_line(1) pad_frame_def nl_def)
  have h: "host_ok ''example.com''" by (simp add: host_ok_def plain_byte_def)
  from obfs_node_session [of "''TCP''" "''example.com''" 80 wit_ob wit_ob wit_obfs_server ?w wit_obfs_segs wit_obfs_env "''peer1''"
      "[request_line ''TCP'' ''example.com'' 80, ''GET /'']" "''GET /''" wit_target "''de''", unfolded st,
      OF _ h _ _ wit_obfs_line(2) _ _ _ w wit_obfs_carries _ _ _ t]
  have "wire_served wit_ob (session_cut wit_obfs_env ''secret'' '''') (FormatObfsLine wit_ob) ''GET /'' wit_target
      (new_slog (has_metrics wit_obfs_server) '''' ''de'') (handleProxyStream wit_obfs_env wit_obfs_server ''peer1'' ''de'' ?w)"
    using len tr by (simp add: wit_obfs_line wit_obfs_request nl_def bufio_size_def wire_of_def) (simp add: wit_ob_def)
  moreover have "ys \<noteq> []" if "carries wit_ob (session_cut wit_obfs_env ''secret'' '''') ys ((''OK'' @ nl) # ns)" for ys ns
    using that by (auto simp: carries_def session_cut_def cut_def pad_cut_def wit_ob_def whole_def elim: frames_ConsE)
  ultimately show ?thesis unfolding wire_served_def by blast
qed

definition wit_obfs_client :: ProxyClient where
  "wit_obfs_client = wit_client\<lparr>cl_obfs := wit_ob\<rparr>"

lemma obfuscated_tunnel_end_to_end_witness:
  "\<exists>oc t' ys d s s1 s2.
     handleProxyStream wit_obfs_env wit_obfs_server ''peer1'' ''de''
       (wire_of (FormatObfsLine wit_ob # wit_obfs_segs) (Some EOF)) = Some oc \<and>
     oc_target oc = Some t' \<and> tx t' = ''GET /'' \<and>
     DialTCP wit_obfs_client (wit_net (wire_of [FormatObfsLine wit_ob, ys] (Some EOF))) ''example.com'' 80 = Some d \<and>
     d_stream d = Some s \<and>
     send_all (sess_write (e_gcm wit_obfs_env)) s [''bye''] = ([(3, None)], s1) \<and>
     read_full (sess_read (e_gcm wit_obfs_env)) s1 6 = Some (''200 OK'', None, s2)"
proof -
  let ?w = "wire_of (FormatObfsLine wit_ob # wit_obfs_segs) (Some EOF)"
  from wit_obfs_node obtain oc ys where oc: "handleProxyStream wit_obfs_env wit_obfs_server ''peer1'' ''de'' ?w = Some oc"
    "tx (oc_stream oc) = FormatObfsLine wit_ob @ ys" "ys \<noteq> []" by blast
  let ?nt = "wit_net (wire_of [FormatObfsLine wit_ob, ys] (Some EOF))"
  have st: "srv_obfs wit_obfs_server = wit_ob" "vlessToken wit_obfs_server = ''secret''"
    "lastChosenProtocol ''peer1'' wit_obfs_server = ''''"
    by (simp_all add: wit_obfs_server_def SetVLESSAuthToken_def NewServer_def lastChosenProtocol_def)
  have cl: "cl_obfs wit_obfs_client = wit_ob" "cl_token wit_obfs_client = ''secret''"
    "chosenProto (negotiated wit_obfs_client ?nt) = ''''"
    by (simp_all add: wit_obfs_client_def wit_client_def negotiated_def)
  have len: "length (concat wit_obfs_segs) = 34" "length wit_obfs_segs = 2"
    by (simp_all add: wit_obfs_segs_def wit_obfs_request pad_frame_def nl_def)
  have tr: "turns True (e_sched wit_obfs_env) = 100" "turns False (e_sched wit_obfs_env) = 20"
    "concat (rx wit_target) = ''200 OK''" "length (rx wit_target) = 2" "tx wit_target = []"
    by (simp_all add: wit_obfs_env_def wit_env_def turns_def wit_target_def wire_of_def)
  have t: "e_dial_tcp wit_obfs_env ''example.com'' 80 = Inr wit_target" "ends_well wit_target"
    by (simp_all add: wit_obfs_env_def wit_env_def wit_target_def ends_well_def wire_of_def)
  have w: "rx ?w = FormatObfsLine wit_ob # wit_obfs_segs" "wire_steady ?w"
    by (auto simp: wire_of_def wire_steady_def ends_well_def wit_obfs_segs_def wit_obfs_line(1) pad_frame_def nl_def)
  have h: "host_ok ''example.com''" by (simp add: host_ok_def plain_byte_def)
  have cw: "wire_steady (wire_of [FormatObfsLine wit_ob, ys] (Some EOF))"
    using oc(3) by (simp add: wire_of_def wire_steady_def ends_well_def wit_obfs_line(1))
  have nt: "n_env ?nt = wit_env []" "n_connect ?nt (dial_target wit_obfs_client) = None" "n_stream ?nt = Inr (wire_of [FormatObfsLine wit_ob, ys] (Some EOF))"
    by (simp_all add: wit_net_def)
  have ev: "e_gcm (wit_env []) = e_gcm wit_obfs_env" "e_digests (wit_env []) = e_digests wit_obfs_env"
    by (simp_all add: wit_obfs_env_def wit_env_def)
  have pos: "0 < PMax wit_ob" "PMin wit_ob < 65536" "length (FormatObfsLine wit_ob) \<le> bufio_size"
    "length (request_line ''TCP'' ''example.com'' 80) \<le> copy_buf_size"
    by (simp add: wit_ob_def, simp add: wit_ob_def,
        simp_all add: wit_obfs_line wit_obfs_request nl_def bufio_size_def copy_buf_size_def)
  have n: "1 + length (concat [request_line ''TCP'' ''example.com'' 80, ''GET /'']) + 2 * length (concat wit_obfs_segs) +
      length wit_obfs_segs \<le> turns True (e_sched wit_obfs_env)"
    "1 + length (rx wit_target) + length (concat (rx wit_target)) \<le> turns False (e_sched wit_obfs_env)"
    unfolding len tr by (simp_all add: wit_obfs_request nl_def)
  have b: "\<forall>m\<in>set [''bye'']. m \<noteq> [] \<and> length m \<le> copy_buf_size" by (simp add: copy_buf_size_def)
  have same: "e_gcm (n_env ?nt) = e_gcm wit_obfs_env" "e_digests (n_env ?nt) = e_digests wit_obfs_env"
    by (simp_all add: nt ev)
  have tx0: "tx ?w = []" "tx (wire_of [FormatObfsLine wit_ob, ys] (Some EOF)) = []"
    and rx0: "rx (wire_of [FormatObfsLine wit_ob, ys] (Some EOF)) = FormatObfsLine wit_ob # [ys]"
    by (simp_all add: wire_of_def)
  have out: "concat (rx (wire_of [FormatObfsLine wit_ob, ys] (Some EOF))) = tx (oc_stream oc)" using rx0 oc(2) by simp
  note main = obfuscated_tunnel_end_to_end [of "session_cut wit_obfs_env ''secret'' ''''" wit_obfs_env wit_obfs_server "''peer1''"
      "''example.com''" 80 wit_obfs_client wit_ob ?w wit_obfs_segs
      "[request_line ''TCP'' ''example.com'' 80, ''GET /'']" "''GET /''" ?nt wit_target "''de''" oc
      "wire_of [FormatObfsLine wit_ob, ys] (Some EOF)" "[ys]" "[''bye'']", unfolded st cl]
  have "\<exists>t' d s s1 s2 ys'. oc_target oc = Some t' \<and> tx t' = ''GET /'' \<and> closed t' \<and> closed (oc_stream oc) \<and>
      DialTCP wit_obfs_client ?nt ''example.com'' 80 = Some d \<and> d_err d = None \<and> d_stream d = Some s \<and>
      send_all (sess_write (e_gcm wit_obfs_env)) s [''bye''] = (map (\<lambda>m. (length m, None)) [''bye''], s1) \<and>
      read_full (sess_read (e_gcm wit_obfs_env)) s1 (length (concat (rx wit_target))) = Some (concat (rx wit_target), None, s2) \<and>
      tx (sess_wire s1) = FormatObfsLine wit_ob @ ys' \<and>
      carries wit_ob (session_cut wit_obfs_env ''secret'' '''') ys' (request_line ''TCP'' ''example.com'' 80 # [''bye''])"
    by (rule main [OF refl h _ _ pos(4) wit_obfs_line(2) pos(3) wit_obfs_line(3) [symmetric] pos(2) wit_obfs_line(2) pos(3)
          disjI1 [OF pos(1)] w tx0(1) wit_obfs_carries _ refl refl same _ _ t tr(5) n oc(1) nt(2,3) cw tx0(2) rx0 out _ b])
      (use pos(1) in simp_all)
  then obtain t' d s s1 s2 where r: "oc_target oc = Some t'" "tx t' = ''GET /''"
      "DialTCP wit_obfs_client ?nt ''example.com'' 80 = Some d" "d_stream d = Some s"
      "send_all (sess_write (e_gcm wit_obfs_env)) s [''bye''] = (map (\<lambda>m. (length m, None)) [''bye''], s1)"
      "read_full (sess_read (e_gcm wit_obfs_env)) s1 (length (concat (rx wit_target))) = Some (concat (rx wit_target), None, s2)"
    by blast
  have "map (\<lambda>m. (length m, None)) [''bye''] = [(3 :: nat, None :: err option)]" "length ''200 OK'' = 6" by simp_all
  with r(5,6) have "send_all (sess_write (e_gcm wit_obfs_env)) s [''bye''] = ([(3, None)], s1)"
    "read_full (sess_read (e_gcm wit_obfs_env)) s1 6 = Some (''200 OK'', None, s2)" by (simp_all only: tr(3))
  with oc(1) r(1-4) show ?thesis by blast
qed

end
