(* ===== verification/UdpSession.thy ===== *)
theory UdpSession
  imports ObfsSession
begin

text \<open>
  A proxied UDP session, from \<open>DialUDP\<close> of \<open>pkg/client/proxy.go\<close> to the socket that
  \<open>handleUDPProxy\<close> of \<open>hypernet/services/proxy/server/proxy.go\<close> opens: datagrams in both directions,
  and what becomes of the session when the dial fails or the socket stays silent.
\<close>

section \<open>The relay over a duplex stream\<close>

definition whole_datagrams :: "bytes list \<Rightarrow> bytes list" where
  "whole_datagrams ds = filter (\<lambda>d. d \<noteq> []) ds"

definition datagram_writes :: "bytes list \<Rightarrow> bytes list" where
  "datagram_writes ds = concat (map (\<lambda>d. [put_u16 (length d), d]) (whole_datagrams ds))"

lemma concat_datagram_writes: "concat (datagram_writes ds) = concat (map udp_frame (whole_datagrams ds))"
  by (induction ds) (auto simp: datagram_writes_def whole_datagrams_def udp_frame_def)

context duplex
begin

lemma as_readable_sent: "byte_stream (s_read io) inp (\<lambda>s. live s \<and> sent m0 s) work"
proof unfold_locales
  fix s n assume h: "live s \<and> sent m0 s" "(0 :: nat) < n" "inp s \<noteq> []"
  then obtain bs s' where r: "s_read io s n = Some (bs, None, s')" "length bs \<le> n" "inp s = bs @ inp s'" "work s' < work s"
    using read_data by blast
  with read_keep [OF _ r(1), of m0] h(1)
  show "\<exists>bs s'. s_read io s n = Some (bs, None, s') \<and> inp s = bs @ inp s' \<and> length bs \<le> n \<and>
      (live s' \<and> sent m0 s') \<and> work s' < work s" by blast
qed

lemma buffered_full_end:
  assumes "live (b_src b)" "b_err b = None" "b_buf b = []" "inp (b_src b) = []" "0 < k"
  shows "\<exists>b'. read_full (bufio_read (s_read io)) b k = Some ([], Some EOF, b') \<and> kept (b_src b) (b_src b')"
proof -
  let ?m = "if bufio_size \<le> k then k else bufio_size"
  have "0 < ?m" by (simp add: bufio_size_def)
  from read_end [OF assms(1) this assms(4)] obtain s' where r: "s_read io (b_src b) ?m = Some ([], Some EOF, s')" by blast
  have "bufio_read (s_read io) b k = Some ([], Some EOF, b\<lparr>b_src := s'\<rparr>)"
    using assms(2,3,5) r by (simp add: bufio_read_def split: if_splits)
  then have "read_full (bufio_read (s_read io)) b k = Some ([], Some EOF, b\<lparr>b_src := s'\<rparr>)"
    using assms(5)
    by (simp add: read_full_def read_at_least_def read_loop.simps [of "bufio_read (s_read io)" b k k "[]"] at_least_err_def)
  with read_kept [OF r] show ?thesis by auto
qed

lemma udp_up_over:
  assumes b: "live (b_src b)" "b_err b = None" "length (b_buf b) \<le> bufio_size" "sent m0 (b_src b)"
    and c: "b_buf b @ inp (b_src b) = concat (map udp_frame ds)" "\<forall>d\<in>set ds. length d \<le> 0xFFFF"
    and u: "u_room u = None" "\<not> u_closed u"
  shows "\<exists>b' u'. udp_up (bufio_read (s_read io)) b u = Some (b', u') \<and> live (b_src b') \<and> sent m0 (b_src b') \<and>
    u_sent u' = u_sent u @ whole_datagrams ds \<and> \<not> u_closed u' \<and> u_inbox u' = u_inbox u \<and> u_end u' = u_end u"
proof -
  let ?ok = "\<lambda>s. live s \<and> sent m0 s"
  note st = byte_stream.buffered [OF as_readable_sent, of m0]
  have ok: "byte_stream.buf_ok ?ok b" "byte_stream.buf_content inp b = concat (map udp_frame ds) @ []"
    using b c(1) by (simp_all add: byte_stream.buf_ok_def [OF as_readable_sent] byte_stream.buf_content_def [OF as_readable_sent])
  from byte_stream.udp_up_frames [OF st ok c(2) u] obtain b1 u1 where
    b1: "byte_stream.buf_ok ?ok b1" "byte_stream.buf_content inp b1 = []"
    and r: "udp_up (bufio_read (s_read io)) b u = udp_up (bufio_read (s_read io)) b1 u1"
    and u1: "u_sent u1 = u_sent u @ filter (\<lambda>d. d \<noteq> []) ds" "\<not> u_closed u1" "u_inbox u1 = u_inbox u" "u_end u1 = u_end u"
    by blast
  from b1 have e: "live (b_src b1)" "sent m0 (b_src b1)" "b_err b1 = None" "b_buf b1 = []" "inp (b_src b1) = []"
    by (auto simp: byte_stream.buf_ok_def [OF as_readable_sent] byte_stream.buf_content_def [OF as_readable_sent])
  from buffered_full_end [OF e(1,3-5), of 2] obtain b2 where
    b2: "read_full (bufio_read (s_read io)) b1 2 = Some ([], Some EOF, b2)" "kept (b_src b1) (b_src b2)" by auto
  from byte_stream.udp_up_end [OF st b2(1)] r
  have "udp_up (bufio_read (s_read io)) b u = Some (b2, u1)" by simp
  with b2(2) e(1,2) u1 show ?thesis by (auto simp: kept_def whole_datagrams_def)
qed

lemma udp_down_over:
  assumes "live s" "sent m0 s" "\<not> u_closed u" "u_inbox u = ds" "u_end u = Some e"
    and "\<forall>d\<in>set ds. length d \<le> 0xFFFF \<and> length d \<le> lim" "2 \<le> lim"
  shows "\<exists>s' u'. udp_down (s_write io) s u = Some (s', u') \<and> live s' \<and> sent (m0 @ datagram_writes ds) s' \<and>
    u_sent u' = u_sent u"
  using assms
proof (induction ds arbitrary: s u m0)
  case Nil
  then show ?case by (subst udp_down.simps) (simp add: udp_recv_def datagram_writes_def whole_datagrams_def)
next
  case (Cons d ds)
  let ?u = "u\<lparr>u_inbox := ds\<rparr>"
  have r: "udp_recv u maxUDPPacketSize = Some (d, None, ?u)"
    using Cons.prems(3,4,6) by (auto simp: udp_recv_def maxUDPPacketSize_def)
  have u: "\<not> u_closed ?u" "u_inbox ?u = ds" "u_end ?u = Some e" "\<forall>d\<in>set ds. length d \<le> 0xFFFF \<and> length d \<le> lim"
    using Cons.prems by simp_all
  show ?case
  proof (cases "d = []")
    case True
    with r have "udp_down (s_write io) s u = udp_down (s_write io) s ?u" by (subst udp_down.simps) simp
    with Cons.IH [OF Cons.prems(1,2) u Cons.prems(7)] True show ?thesis
      by (auto simp: datagram_writes_def whole_datagrams_def)
  next
    case False
    have h: "put_u16 (length d) \<noteq> []" "length (put_u16 (length d)) \<le> lim" "length d \<le> lim"
      using Cons.prems(6,7) by (simp_all flip: length_0_conv)
    from write_data [OF Cons.prems(1) h(1,2)] Cons.prems(2) obtain s1 where
      s1: "s_write io s (put_u16 (length d)) = (length (put_u16 (length d)), None, s1)" "live s1"
      "sent (m0 @ [put_u16 (length d)]) s1" by blast
    from write_data [OF s1(2) False h(3)] s1(3) obtain s2 where
      s2: "s_write io s1 d = (length d, None, s2)" "live s2" "sent ((m0 @ [put_u16 (length d)]) @ [d]) s2" by blast
    have "udp_down (s_write io) s u = udp_down (s_write io) s2 ?u"
      using r s1(1) s2(1) False by (subst udp_down.simps) simp
    with Cons.IH [OF s2(2,3) u Cons.prems(7)] False show ?thesis
      by (auto simp: datagram_writes_def whole_datagrams_def)
  qed
qed

text \<open>A silent socket keeps its goroutine waiting for ever.\<close>

lemma udp_down_silent:
  assumes "live s" "\<not> u_closed u" "u_inbox u = ds" "u_end u = None"
    and "\<forall>d\<in>set ds. length d \<le> 0xFFFF \<and> length d \<le> lim" "2 \<le> lim"
  shows "udp_down (s_write io) s u = None"
  using assms
proof (induction ds arbitrary: s u)
  case Nil
  then show ?case by (subst udp_down.simps) (simp add: udp_recv_def)
next
  case (Cons d ds)
  let ?u = "u\<lparr>u_inbox := ds\<rparr>"
  have r: "udp_recv u maxUDPPacketSize = Some (d, None, ?u)"
    using Cons.prems(2,3,5) by (auto simp: udp_recv_def maxUDPPacketSize_def)
  have u: "\<not> u_closed ?u" "u_inbox ?u = ds" "u_end ?u = None" "\<forall>d\<in>set ds. length d \<le> 0xFFFF \<and> length d \<le> lim"
    using Cons.prems by simp_all
  show ?case
  proof (cases "d = []")
    case True
    with r have "udp_down (s_write io) s u = udp_down (s_write io) s ?u" by (subst udp_down.simps) simp
    with Cons.IH [OF Cons.prems(1) u Cons.prems(6)] show ?thesis by simp
  next
    case False
    have h: "put_u16 (length d) \<noteq> []" "length (put_u16 (length d)) \<le> lim" "length d \<le> lim"
      using Cons.prems(5,6) by (simp_all flip: length_0_conv)
    from write_data [OF Cons.prems(1) h(1,2)] obtain s1 where
      s1: "s_write io s (put_u16 (length d)) = (length (put_u16 (length d)), None, s1)" "live s1" by blast
    from write_data [OF s1(2) False h(3)] obtain s2 where
      s2: "s_write io s1 d = (length d, None, s2)" "live s2" by blast
    have "udp_down (s_write io) s u = udp_down (s_write io) s2 ?u"
      using r s1(1) s2(1) False by (subst udp_down.simps) simp
    with Cons.IH [OF s2(2) u Cons.prems(6)] show ?thesis by simp
  qed
qed

lemma handleUDPProxy_over:
  assumes b: "live (b_src b)" "b_err b = None" "length (b_buf b) \<le> bufio_size" "sent m0 (b_src b)"
    and c: "b_buf b @ inp (b_src b) = concat (map udp_frame ds)" "\<forall>d\<in>set ds. length d \<le> 0xFFFF"
    and u: "e_dial_udp ev (Host req) (Port req) = Inr u" "u_room u = None" "\<not> u_closed u"
    and i: "\<forall>d\<in>set (u_inbox u). length d \<le> 0xFFFF \<and> length d \<le> lim" "2 \<le> lim"
  shows "u_end u = Some e \<Longrightarrow> \<exists>b' u'. handleUDPProxy io ev req b = Some (b', Some u') \<and>
      u_sent u' = u_sent u @ whole_datagrams ds \<and> u_closed u' \<and>
      live (b_src b') \<and> sent (m0 @ datagram_writes (u_inbox u)) (b_src b')"
    and "u_end u = None \<Longrightarrow> handleUDPProxy io ev req b = None"
proof -
  from udp_up_over [OF b c u(2,3)] obtain b1 u1 where
    up: "udp_up (bufio_read (s_read io)) b u = Some (b1, u1)" "live (b_src b1)" "sent m0 (b_src b1)"
    "u_sent u1 = u_sent u @ whole_datagrams ds" "\<not> u_closed u1" "u_inbox u1 = u_inbox u" "u_end u1 = u_end u" by blast
  {
    assume "u_end u = Some e"
    with udp_down_over [OF up(2,3,5,6) _ i] up(7) obtain s2 u2 where
      "udp_down (s_write io) (b_src b1) u1 = Some (s2, u2)" "live s2" "sent (m0 @ datagram_writes (u_inbox u)) s2"
      "u_sent u2 = u_sent u1" by auto
    with up(1,4) u(1) show "\<exists>b' u'. handleUDPProxy io ev req b = Some (b', Some u') \<and>
      u_sent u' = u_sent u @ whole_datagrams ds \<and> u_closed u' \<and>
      live (b_src b') \<and> sent (m0 @ datagram_writes (u_inbox u)) (b_src b')" by (simp add: handleUDPProxy_def)
  next
    assume "u_end u = None"
    with udp_down_silent [OF up(2,5,6) _ i] up(7) have "udp_down (s_write io) (b_src b1) u1 = None" by simp
    with up(1) u(1) show "handleUDPProxy io ev req b = None" by (simp add: handleUDPProxy_def)
  }
qed

text \<open>A stream that ends within what \<open>io.ReadFull\<close> asks for.\<close>

lemma buffered_loop_short:
  assumes "live (b_src b)" "b_err b = None" "length (b_buf b) \<le> bufio_size" "length acc + length (b_buf b @ inp (b_src b)) < k"
  shows "\<exists>b'. read_loop (bufio_read (s_read io)) b k k acc =
    Some (acc @ b_buf b @ inp (b_src b), at_least_err (acc @ b_buf b @ inp (b_src b)) k EOF, b')"
  using assms
proof (induction "byte_stream.buf_work work b" arbitrary: b acc rule: less_induct)
  case less
  note st = byte_stream.buffered [OF as_readable]
  have n: "0 < k - length acc" "length acc < k" using less.prems(4) by auto
  show ?case
  proof (cases "b_buf b @ inp (b_src b) = []")
    case True
    let ?m = "if bufio_size \<le> k - length acc then k - length acc else bufio_size"
    have m: "0 < ?m" "inp (b_src b) = []" using n(1) True by (simp_all add: bufio_size_def)
    from read_end [OF less.prems(1) m] obtain s' where "s_read io (b_src b) ?m = Some ([], Some EOF, s')" by blast
    then have "bufio_read (s_read io) b (k - length acc) = Some ([], Some EOF, b\<lparr>b_src := s'\<rparr>)"
      using True less.prems(2) n(1) by (simp add: bufio_read_def split: if_splits)
    with True n(2) show ?thesis by (subst read_loop.simps) simp
  next
    case False
    have ok: "byte_stream.buf_ok live b" "byte_stream.buf_content inp b \<noteq> []"
      using less.prems False by (simp_all add: byte_stream.buf_ok_def [OF as_readable] byte_stream.buf_content_def [OF as_readable])
    from byte_stream.read_content [OF st ok(1) n(1) ok(2)] obtain bs b1 where
      r: "bufio_read (s_read io) b (k - length acc) = Some (bs, None, b1)" "b_buf b @ inp (b_src b) = bs @ b_buf b1 @ inp (b_src b1)"
      "live (b_src b1)" "b_err b1 = None" "length (b_buf b1) \<le> bufio_size"
      "byte_stream.buf_work work b1 < byte_stream.buf_work work b"
      by (auto simp: byte_stream.buf_ok_def [OF as_readable] byte_stream.buf_content_def [OF as_readable])
    have "length (acc @ bs) + length (b_buf b1 @ inp (b_src b1)) < k" using less.prems(4) r(2) by simp
    from less.hyps [OF r(6,3-5) this] obtain b' where
      "read_loop (bufio_read (s_read io)) b1 k k (acc @ bs) =
        Some ((acc @ bs) @ b_buf b1 @ inp (b_src b1), at_least_err ((acc @ bs) @ b_buf b1 @ inp (b_src b1)) k EOF, b')" by blast
    with r(1,2) n(2) show ?thesis by (subst read_loop.simps) simp
  qed
qed

text \<open>
  A tunnel that delivers a text is read as datagrams: the first two bytes are taken for a length, and a
  text shorter than that ends the session.
\<close>

lemma tunnel_read_text:
  assumes "live s" "inp s = [x, y] @ rest" "be_get [x, y] > length rest" "rest \<noteq> []"
  shows "\<exists>b. tunnel_read (bufio_read (s_read io)) (new_bufrd s) n = Some ([], Some ErrUnexpectedEOF, b)"
proof -
  note st = byte_stream.buffered [OF as_readable]
  have ok: "byte_stream.buf_ok live (new_bufrd s)" "byte_stream.buf_content inp (new_bufrd s) = [x, y] @ rest"
    using assms by (simp_all add: byte_stream.buf_ok_def [OF as_readable] byte_stream.buf_content_def [OF as_readable] new_bufrd_def)
  from byte_stream.read_full_append [OF st ok] obtain b1 where
    b1: "read_full (bufio_read (s_read io)) (new_bufrd s) 2 = Some ([x, y], None, b1)"
    "b_buf b1 @ inp (b_src b1) = rest" "live (b_src b1)" "b_err b1 = None" "length (b_buf b1) \<le> bufio_size"
    by (auto simp: byte_stream.buf_ok_def [OF as_readable] byte_stream.buf_content_def [OF as_readable] numeral_2_eq_2)
  from buffered_loop_short [OF b1(3-5), of "[]" "be_get [x, y]"] b1(2) assms(3,4) obtain b2 where
    "read_full (bufio_read (s_read io)) b1 (be_get [x, y]) = Some (rest, Some ErrUnexpectedEOF, b2)"
    by (auto simp: read_full_def read_at_least_def at_least_err_def)
  with b1(1) assms(3) show ?thesis by (auto simp: tunnel_read_def Let_def)
qed

end

section \<open>The node\<close>

lemma udp_request:
  assumes h: "host_ok host" "0 < port" "port \<le> 65535"
    and w: "rx w = request_line ''UDP'' host port # segs" "length (request_line ''UDP'' host port) \<le> bufio_size" "\<not> closed w"
    and o: "PMax (srv_obfs srv) \<le> 0" "WDMax (srv_obfs srv) \<le> 0"
  shows "handleProxyStream ev srv pid region w =
    (case handleUDPProxy wire_rwc ev \<lparr>Proto = ''UDP'', Host = host, Port = port\<rparr> (new_bufrd (w\<lparr>rx := segs\<rparr>)) of
       None \<Rightarrow> None
     | Some (b, u) \<Rightarrow> Some ((stop (new_slog (has_metrics srv) (lastChosenProtocol pid srv) region) (b_src b))\<lparr>oc_udp := u\<rparr>))"
proof -
  have p: "''UDP'' = ''TCP'' \<or> ''UDP'' = ''UDP'' \<or> ''UDP'' = ''DIRECT''" by simp
  have "rx w = (request_line ''UDP'' host port @ []) # segs" "length (request_line ''UDP'' host port @ []) \<le> bufio_size"
    using w(1,2) by simp_all
  from handle_request_line [OF p h(1) this w(3) o, of ev pid region] ParseRequest_line [OF p h]
  show ?thesis by (simp add: serve_request_def upper1_def)
qed

lemma udp_steady:
  assumes "wire_steady w" "rx w = line # segs" "concat segs = concat (map udp_frame ds)"
  shows "wire_steady (b_src (new_bufrd (w\<lparr>rx := segs\<rparr>)))" "b_err (new_bufrd (w\<lparr>rx := segs\<rparr>)) = None"
    "length (b_buf (new_bufrd (w\<lparr>rx := segs\<rparr>))) \<le> bufio_size"
    "wire_sent (tx w) [] (b_src (new_bufrd (w\<lparr>rx := segs\<rparr>)))"
    "b_buf (new_bufrd (w\<lparr>rx := segs\<rparr>)) @ wire_content (b_src (new_bufrd (w\<lparr>rx := segs\<rparr>))) = concat (map udp_frame ds)"
  using assms by (auto simp: wire_steady_def ends_well_def new_bufrd_def wire_sent_def wire_content_def)

text \<open>
  What the node makes of a session whose client ends its stream: it returns when the socket fails,
  with the datagrams of both directions passed on, and never when the socket stays silent.
\<close>

lemma udp_node_session:
  assumes h: "host_ok host" "0 < port" "port \<le> 65535"
    and w: "rx w = request_line ''UDP'' host port # segs" "length (request_line ''UDP'' host port) \<le> bufio_size" "wire_steady w"
      "concat segs = concat (map udp_frame ds)" "\<forall>d\<in>set ds. length d \<le> 0xFFFF"
    and o: "PMax (srv_obfs srv) \<le> 0" "WDMax (srv_obfs srv) \<le> 0"
    and u: "e_dial_udp ev host port = Inr u" "u_room u = None" "\<not> u_closed u" "\<forall>d\<in>set (u_inbox u). length d \<le> 0xFFFF"
  shows "u_end u = Some e \<Longrightarrow> \<exists>oc u'. handleProxyStream ev srv pid region w = Some oc \<and> oc_returned oc \<and>
      oc_udp oc = Some u' \<and> u_sent u' = u_sent u @ whole_datagrams ds \<and> u_closed u' \<and> closed (oc_stream oc) \<and>
      tx (oc_stream oc) = tx w @ concat (map udp_frame (whole_datagrams (u_inbox u)))"
    and "u_end u = None \<Longrightarrow> handleProxyStream ev srv pid region w = None"
proof -
  have cl: "\<not> closed w" using w(3) by (simp add: wire_steady_def ends_well_def)
  have d: "e_dial_udp ev (Host \<lparr>Proto = ''UDP'', Host = host, Port = port\<rparr>) (Port \<lparr>Proto = ''UDP'', Host = host, Port = port\<rparr>) = Inr u"
    using u(1) by simp
  have i: "\<forall>d\<in>set (u_inbox u). length d \<le> 0xFFFF \<and> length d \<le> 65535" "2 \<le> (65535 :: nat)" using u(4) by simp_all
  note s = udp_steady [OF w(3,1,4)]
  note over = flow.handleUDPProxy_over [OF s(1-3) s(4) s(5) w(5) d u(2,3) i]
  {
    assume "u_end u = Some e"
    from over(1) [OF this] obtain b u' where
      "handleUDPProxy wire_rwc ev \<lparr>Proto = ''UDP'', Host = host, Port = port\<rparr> (new_bufrd (w\<lparr>rx := segs\<rparr>)) = Some (b, Some u')"
      "u_sent u' = u_sent u @ whole_datagrams ds" "u_closed u'" "wire_sent (tx w) ([] @ datagram_writes (u_inbox u)) (b_src b)"
      by blast
    then show "\<exists>oc u'. handleProxyStream ev srv pid region w = Some oc \<and> oc_returned oc \<and>
        oc_udp oc = Some u' \<and> u_sent u' = u_sent u @ whole_datagrams ds \<and> u_closed u' \<and> closed (oc_stream oc) \<and>
        tx (oc_stream oc) = tx w @ concat (map udp_frame (whole_datagrams (u_inbox u)))"
      by (simp add: udp_request [OF h w(1,2) cl o] stop_def wire_close_def wire_sent_def concat_datagram_writes)
  next
    assume "u_end u = None"
    from over(2) [OF this] show "handleProxyStream ev srv pid region w = None"
      by (simp add: udp_request [OF h w(1,2) cl o])
  }
qed

section \<open>The client\<close>

lemma bare_DialUDP:
  assumes "bare_dial c nt w" "wire_up w"
  shows "DialUDP c nt host port =
    Some (dial_ok (negotiated c nt) nt (Net (w\<lparr>tx := tx w @ request_line ''UDP'' host port\<rparr>)))"
  using assms negotiated_obfs [of c nt] bare_steps [of "negotiated c nt" nt]
  by (simp add: DialUDP_def open_stream_def bare_dial_def run_step_def handshake_step_def Let_def
      send_request_def write_net)

text \<open>Writing takes nothing of what is still to be read.\<close>

interpretation netsink: byte_sink "sess_write a" "\<lambda>s. tx (sess_wire s)"
  "\<lambda>s. \<exists>w. s = Net w \<and> wire_up w \<and> rx w = segs" for a segs
  by unfold_locales (auto simp: sess_write_def wire_write_def wire_up_def)

interpretation bufsess: byte_stream "bufio_read (sess_read a)" netsess.buf_content netsess.buf_ok netsess.buf_work for a
  by (rule netsess.buffered)


section \<open>Client and node\<close>

text \<open>
  C6: a UDP session works end to end. The client's dial succeeds and sends the request; the datagrams it
  then writes, of at most 65535 bytes, are all accepted, and however the network cuts the bytes behind
  the request line, the node's socket sends exactly the non-empty ones, whole and in order. In return
  each read of the client delivers one of the non-empty datagrams that arrive at the socket, in order,
  or its beginning and an error when the buffer is too short. The node's handler returns when the
  socket fails, with the socket and the stream closed, and what it wrote is what the client reads.
\<close>

theorem udp_session_end_to_end:
  fixes c :: ProxyClient and nt :: net
  assumes h: "host_ok host" "0 < port" "port \<le> 65535" "length (request_line ''UDP'' host port) \<le> bufio_size"
    and ds: "\<forall>d\<in>set ds. length d \<le> 0xFFFF"
    and client: "bare_dial c nt cw" "wire_up cw" "wire_live cw" "tx cw = []"
      "concat (rx cw) = concat (map udp_frame (whole_datagrams (u_inbox u)))" "length ns = length (whole_datagrams (u_inbox u))"
    and node: "rx w = request_line ''UDP'' host port # segs" "wire_steady w" "tx w = []"
      "concat segs = concat (map udp_frame (whole_datagrams ds))" "PMax (srv_obfs srv) \<le> 0" "WDMax (srv_obfs srv) \<le> 0"
    and u: "e_dial_udp ev host port = Inr u" "u_room u = None" "\<not> u_closed u" "u_sent u = []" "u_end u = Some e"
      "\<forall>d\<in>set (u_inbox u). length d \<le> 0xFFFF"
  shows "\<exists>d s s1 b oc u'. DialUDP c nt host port = Some d \<and> d_err d = None \<and> d_stream d = Some s \<and>
    send_all (tunnel_write (sess_write (e_gcm (n_env nt)))) s ds = (map (\<lambda>d. (length d, None)) ds, s1) \<and>
    tx (sess_wire s1) = concat (rx w) \<and>
    recv_all (tunnel_read (bufio_read (sess_read (e_gcm (n_env nt))))) (new_bufrd s1) ns =
      Some (map2 datagram_result (whole_datagrams (u_inbox u)) ns, b) \<and>
    handleProxyStream ev srv pid region w = Some oc \<and> oc_returned oc \<and> oc_udp oc = Some u' \<and>
    u_sent u' = whole_datagrams ds \<and> u_closed u' \<and> closed (oc_stream oc) \<and> tx (oc_stream oc) = concat (rx cw)"
proof -
  let ?a = "e_gcm (n_env nt)" and ?s = "Net (cw\<lparr>tx := request_line ''UDP'' host port\<rparr>)"
  have up: "\<exists>w. ?s = Net w \<and> wire_up w \<and> rx w = rx cw" using client(2) by (simp add: wire_up_def)
  from netsink.tunnel_send_all [OF up ds, of ?a] obtain s1 where
    s1: "send_all (tunnel_write (sess_write ?a)) ?s ds = (map (\<lambda>d. (length d, None)) ds, s1)"
    "tx (sess_wire s1) = request_line ''UDP'' host port @ concat (map udp_frame (whole_datagrams ds))"
    and up1: "\<exists>w. s1 = Net w \<and> wire_up w \<and> rx w = rx cw"
    by (auto simp: whole_datagrams_def)
  from up1 client(3,5) have ok: "netsess.buf_ok (new_bufrd s1)"
    "netsess.buf_content (new_bufrd s1) = concat (map udp_frame (whole_datagrams (u_inbox u))) @ []"
    by (auto simp: wire_up_def wire_live_def netsess.buf_ok_def netsess.buf_content_def new_bufrd_def net_live_def sess_content_def wire_content_def)
  have es: "\<forall>d\<in>set (whole_datagrams (u_inbox u)). d \<noteq> [] \<and> length d \<le> 0xFFFF"
    using u(6) by (simp add: whole_datagrams_def)
  from bufsess.tunnel_recv_all [OF ok es client(6), of ?a] obtain b where
    r: "recv_all (tunnel_read (bufio_read (sess_read ?a))) (new_bufrd s1) ns =
      Some (map2 datagram_result (whole_datagrams (u_inbox u)) ns, b)" by blast
  have "\<forall>d\<in>set (whole_datagrams ds). length d \<le> 0xFFFF" "whole_datagrams (whole_datagrams ds) = whole_datagrams ds"
    using ds by (simp_all add: whole_datagrams_def)
  with udp_node_session(1) [OF h(1-3) node(1) h(4) node(2,4) _ node(5,6) u(1-3,6,5), of pid region] u(4) node(3)
  obtain oc u' where n: "handleProxyStream ev srv pid region w = Some oc" "oc_returned oc" "oc_udp oc = Some u'"
    "u_sent u' = whole_datagrams ds" "u_closed u'" "closed (oc_stream oc)"
    "tx (oc_stream oc) = concat (map udp_frame (whole_datagrams (u_inbox u)))" by auto
  show ?thesis
    using bare_DialUDP [OF client(1,2), of host port] s1 r n client(4,5) node(1,4) by (auto simp: dial_ok_def)
qed

definition wit_udp_env :: "err + udp_conn \<Rightarrow> env" where
  "wit_udp_env u = (wit_env [])\<lparr>e_dial_udp := (\<lambda>_ _. u)\<rparr>"

lemma wit_udp_line: "request_line ''UDP'' ''a.b'' 53 = ''UDP a.b 53'' @ nl" "host_ok ''a.b''"
proof -
  have "itoa 53 = ''53''" by code_simp
  then show "request_line ''UDP'' ''a.b'' 53 = ''UDP a.b 53'' @ nl" by (simp add: request_line_def)
  show "host_ok ''a.b''" by (simp add: host_ok_def plain_byte_def)
qed

lemma udp_session_end_to_end_witness:
  "\<exists>d s s1 b oc u'. DialUDP wit_client (wit_net (wire_of [udp_frame ''pong''] None)) ''a.b'' 53 = Some d \<and> d_stream d = Some s \<and>
     send_all (tunnel_write (sess_write tag_aead)) s [''ping'', ''''] = ([(4, None), (0, None)], s1) \<and>
     recv_all (tunnel_read (bufio_read (sess_read tag_aead))) (new_bufrd s1) [9] = Some ([(''pong'', None)], b) \<and>
     handleProxyStream (wit_udp_env (Inr (wit_udp [''pong'']))) NewServer ''peer1'' ''de''
       (wire_of [request_line ''UDP'' ''a.b'' 53, udp_frame ''ping''] (Some EOF)) = Some oc \<and>
     oc_udp oc = Some u' \<and> u_sent u' = [''ping'']"
proof -
  let ?cw = "wire_of [udp_frame ''pong''] None" and ?u = "wit_udp [''pong'']"
  have u: "whole_datagrams (u_inbox ?u) = [''pong'']" "u_end ?u = Some EOF" "u_sent ?u = []" "\<not> u_closed ?u" "u_room ?u = None"
    by (simp_all add: wit_udp_def whole_datagrams_def)
  have c: "wire_up ?cw" "wire_live ?cw" "tx ?cw = []" "rx ?cw = [udp_frame ''pong'']"
    by (simp_all add: wire_of_def wire_up_def wire_live_def udp_frame_def)
  have w: "wire_steady (wire_of [request_line ''UDP'' ''a.b'' 53, udp_frame ''ping''] (Some EOF))"
    by (simp add: wire_steady_def ends_well_def wire_of_def udp_frame_def wit_udp_line nl_def)
  have g: "e_gcm (n_env (wit_net ?cw)) = tag_aead" by (simp add: wit_net_def wit_env_def)
  have "\<exists>d s s1 b oc u'. DialUDP wit_client (wit_net ?cw) ''a.b'' 53 = Some d \<and> d_err d = None \<and> d_stream d = Some s \<and>
    send_all (tunnel_write (sess_write (e_gcm (n_env (wit_net ?cw))))) s [''ping'', ''''] =
      (map (\<lambda>d. (length d, None)) [''ping'', ''''], s1) \<and>
    tx (sess_wire s1) = concat (rx (wire_of [request_line ''UDP'' ''a.b'' 53, udp_frame ''ping''] (Some EOF))) \<and>
    recv_all (tunnel_read (bufio_read (sess_read (e_gcm (n_env (wit_net ?cw)))))) (new_bufrd s1) [9] =
      Some (map2 datagram_result (whole_datagrams (u_inbox ?u)) [9], b) \<and>
    handleProxyStream (wit_udp_env (Inr ?u)) NewServer ''peer1'' ''de''
       (wire_of [request_line ''UDP'' ''a.b'' 53, udp_frame ''ping''] (Some EOF)) = Some oc \<and> oc_returned oc \<and>
    oc_udp oc = Some u' \<and> u_sent u' = whole_datagrams [''ping'', ''''] \<and> u_closed u' \<and> closed (oc_stream oc) \<and>
    tx (oc_stream oc) = concat (rx ?cw)"
    by (rule udp_session_end_to_end [OF wit_udp_line(2) _ _ _ _ wit_bare c(1-3) _ _ _ w _ _ _ _ _ u(5,4,3,2),
          where segs = "[udp_frame ''ping'']"])
      (auto simp: u c wit_udp_line nl_def bufio_size_def wire_of_def whole_datagrams_def NewServer_def wit_udp_env_def wit_udp_def)
  then show ?thesis unfolding g u by (auto simp: datagram_result_def whole_datagrams_def)
qed

section \<open>Sessions that go wrong\<close>

text \<open>
  A UDP session outlives its client. The goroutine that reads the socket is not told when the
  client's stream ends: as long as the target stays silent behind its last datagram, the handler waits,
  and the socket, the stream and the session's log stay open.
\<close>

theorem udp_session_outlives_client:
  assumes "host_ok host" "0 < port" "port \<le> 65535"
    and "rx w = request_line ''UDP'' host port # segs" "length (request_line ''UDP'' host port) \<le> bufio_size" "wire_steady w"
      "concat segs = concat (map udp_frame ds)" "\<forall>d\<in>set ds. length d \<le> 0xFFFF"
    and "PMax (srv_obfs srv) \<le> 0" "WDMax (srv_obfs srv) \<le> 0"
    and "e_dial_udp ev host port = Inr u" "u_room u = None" "\<not> u_closed u" "\<forall>d\<in>set (u_inbox u). length d \<le> 0xFFFF"
    and "u_end u = None"
  shows "handleProxyStream ev srv pid region w = None"
  using assms by (rule udp_node_session(2))

lemma udp_session_outlives_client_witness:
  "handleProxyStream (wit_udp_env (Inr ((wit_udp [''pong''])\<lparr>u_end := None\<rparr>))) NewServer ''peer1'' ''de''
     (wire_of [request_line ''UDP'' ''a.b'' 53, udp_frame ''ping''] (Some EOF)) = None"
  by (rule udp_session_outlives_client [OF wit_udp_line(2), where port = 53 and segs = "[udp_frame ''ping'']" and ds = "[''ping'']"])
    (auto simp: wire_steady_def ends_well_def wire_of_def udp_frame_def wit_udp_line nl_def bufio_size_def NewServer_def
      wit_udp_env_def wit_udp_def)

text \<open>A network stream of the client is a duplex stream.\<close>

interpretation netflow: duplex "sess_rwc a" "\<lambda>s. wire_content (sess_wire s)" "\<lambda>ms s. wire_sent pre ms (sess_wire s)"
  "\<lambda>s. s = Net (sess_wire s) \<and> wire_steady (sess_wire s)" "\<lambda>s. wire_work (sess_wire s)" lim for a pre lim
  by (rule duplex_image [OF flow.duplex_axioms, where con = Net])
    (simp_all add: sess_rwc_def wire_rwc_def sess_read_def sess_write_def net_read_def)

text \<open>
  C36: nobody learns of a UDP dial that failed. The node writes its error message into the tunnel, where
  the client takes the first two letters for the length of a datagram and then finds the stream cut
  off; the client's dial has succeeded, and the node logs the session as a success without a reason.
\<close>

theorem udp_dial_failure_unseen:
  fixes c :: ProxyClient and nt :: net
  assumes h: "host_ok host" "0 < port" "port \<le> 65535" "length (request_line ''UDP'' host port) \<le> bufio_size"
    and node: "rx w = request_line ''UDP'' host port # segs" "ends_well w" "tx w = []"
      "PMax (srv_obfs srv) \<le> 0" "WDMax (srv_obfs srv) \<le> 0"
    and e: "e_dial_udp ev host port = Inl e" "length (err_msg e) < 17000"
    and client: "bare_dial c nt cw" "wire_steady cw" "concat (rx cw) = ''ERR dial udp target: '' @ err_msg e @ nl"
  shows "\<exists>oc d s b. handleProxyStream ev srv pid region w = Some oc \<and> oc_returned oc \<and> tx (oc_stream oc) = concat (rx cw) \<and>
    (has_metrics srv \<longrightarrow> last (log_events (oc_log oc)) = MEnd 0 0 True '''') \<and>
    DialUDP c nt host port = Some d \<and> d_err d = None \<and> d_stream d = Some s \<and>
    tunnel_read (bufio_read (sess_read (e_gcm (n_env nt)))) (new_bufrd s) n = Some ([], Some ErrUnexpectedEOF, b)"
proof -
  let ?s = "Net (cw\<lparr>tx := tx cw @ request_line ''UDP'' host port\<rparr>)"
  have cl: "\<not> closed w" using node(2) by (simp add: ends_well_def)
  have "handleUDPProxy wire_rwc ev \<lparr>Proto = ''UDP'', Host = host, Port = port\<rparr> (new_bufrd (w\<lparr>rx := segs\<rparr>)) =
      Some (new_bufrd (w\<lparr>rx := segs, tx := concat (rx cw)\<rparr>), None)"
    using e(1) node(2,3) client(3)
    by (simp add: handleUDPProxy_def write_buf_def write_string_def wire_rwc_def wire_write_def new_bufrd_def ends_well_def)
  then have n: "handleProxyStream ev srv pid region w =
      Some (stop (new_slog (has_metrics srv) (lastChosenProtocol pid srv) region) (w\<lparr>rx := segs, tx := concat (rx cw)\<rparr>))"
    by (simp add: udp_request [OF h(1-3) node(1) h(4) cl node(4,5)] new_bufrd_def stop_def)
  have live: "?s = Net (sess_wire ?s) \<and> wire_steady (sess_wire ?s)"
    using client(2) by (simp add: wire_steady_def ends_well_def)
  have i: "wire_content (sess_wire ?s) = [CHR ''E'', CHR ''R''] @ (''R dial udp target: '' @ err_msg e @ nl)"
    using client(3) by (simp add: wire_content_def)
  have "be_get [CHR ''E'', CHR ''R''] = 17746" by code_simp
  then have "be_get [CHR ''E'', CHR ''R''] > length (''R dial udp target: '' @ err_msg e @ nl)"
    using e(2) by (simp add: nl_def)
  from netflow.tunnel_read_text [OF live i this, of "e_gcm (n_env nt)" n] obtain b where
    "tunnel_read (bufio_read (sess_read (e_gcm (n_env nt)))) (new_bufrd ?s) n = Some ([], Some ErrUnexpectedEOF, b)"
    by (auto simp: sess_rwc_def)
  moreover have "wire_up cw" using client(2) by (simp add: wire_steady_def ends_well_def wire_up_def)
  ultimately show ?thesis
    using bare_DialUDP [OF client(1), of host port] n
    by (auto simp: dial_ok_def stop_def wire_close_def end_session_def new_slog_def)
qed

lemma udp_dial_failure_unseen_witness:
  "\<exists>oc d s b. handleProxyStream (wit_udp_env (Inl (Err ''refused''))) (NewServer\<lparr>has_metrics := True\<rparr>) ''peer1'' ''de''
       (wire_of [request_line ''UDP'' ''a.b'' 53] (Some EOF)) = Some oc \<and>
     last (log_events (oc_log oc)) = MEnd 0 0 True '''' \<and>
     DialUDP wit_client (wit_net (wire_of [''ERR dial udp target: refused'' @ nl] (Some EOF))) ''a.b'' 53 = Some d \<and>
     d_stream d = Some s \<and> tunnel_read (bufio_read (sess_read tag_aead)) (new_bufrd s) 100 = Some ([], Some ErrUnexpectedEOF, b)"
proof -
  let ?cw = "wire_of [''ERR dial udp target: refused'' @ nl] (Some EOF)"
  have g: "e_gcm (n_env (wit_net ?cw)) = tag_aead" by (simp add: wit_net_def wit_env_def)
  have w: "ends_well (wire_of [request_line ''UDP'' ''a.b'' 53] (Some EOF))" "wire_steady ?cw"
    by (simp_all add: wire_steady_def ends_well_def wire_of_def)
  show ?thesis
    using udp_dial_failure_unseen [OF wit_udp_line(2) _ _ _ _ w(1) _ _ _ _ _ wit_bare w(2), of 53 "[]"
        "NewServer\<lparr>has_metrics := True\<rparr>" "wit_udp_env (Inl (Err ''refused''))" "Err ''refused''" "''peer1''" "''de''" 100] g
    by (auto simp: wit_udp_line nl_def bufio_size_def wire_of_def NewServer_def wit_udp_env_def)
qed

end
