(* ===== verification/GoIP.thy ===== *)
theory GoIP
  imports GoNet
begin

text \<open>
  \<open>net.ParseIP\<close>, with the parser of package \<open>net/netip\<close> below it, and the region of a client as
  \<open>handleProxyStream\<close> of \<open>hypernet/services/proxy/server/proxy.go\<close> finds it: the address of the
  peer, looked up in the GeoIP database. The multiaddress library and the database are arguments.
\<close>

section \<open>Parsing an address\<close>

text \<open>\<open>parseIPv4Fields\<close>: four fields of digits up to 255, none with a leading zero.\<close>

definition ip4_field :: "bytes \<Rightarrow> byte option" where
  "ip4_field f =
     (if f \<noteq> [] \<and> list_all is_digit f \<and> (hd f = CHR ''0'' \<longrightarrow> length f = 1) \<and> dec_val f \<le> 255
      then Some (char_of (dec_val f)) else None)"

definition parse_ip4 :: "bytes \<Rightarrow> bytes option" where
  "parse_ip4 s =
     (case map ip4_field (go_split (CHR ''.'') s) of
        [Some a, Some b, Some c, Some d] \<Rightarrow> Some [a, b, c, d]
      | _ \<Rightarrow> None)"

definition hex_val1 :: "byte \<Rightarrow> nat option" where
  "hex_val1 c =
     (if is_digit c then Some (of_char c - 48)
      else if 97 \<le> (of_char c :: nat) \<and> (of_char c :: nat) \<le> 102 then Some (of_char c - 87)
      else if 65 \<le> (of_char c :: nat) \<and> (of_char c :: nat) \<le> 70 then Some (of_char c - 55)
      else None)"

definition hex_group :: "bytes \<Rightarrow> nat" where
  "hex_group h = fold (\<lambda>c a. a * 16 + (case hex_val1 c of None \<Rightarrow> 0 | Some v \<Rightarrow> v)) h 0"

text \<open>
  The loop of \<open>parseIPv6\<close>: the groups there is still room for, the bytes so far, the place of the
  ellipsis, and what is left of the text. It returns the bytes, the ellipsis and the rest.
\<close>

fun ip6_loop :: "nat \<Rightarrow> bytes \<Rightarrow> nat option \<Rightarrow> bytes \<Rightarrow> (bytes \<times> nat option \<times> bytes) option" where
  "ip6_loop 0 out ell s = Some (out, ell, s)"
| "ip6_loop (Suc k) out ell s =
     (let h = takeWhile (\<lambda>c. hex_val1 c \<noteq> None) s; rest = drop (length h) s; out' = out @ be_put 2 (hex_group h)
      in if h = [] \<or> length h > 4 then None
         else case rest of
           [] \<Rightarrow> Some (out', ell, [])
         | c # r \<Rightarrow>
             if c = CHR ''.'' then
               (if ell = None \<and> length out \<noteq> 12 \<or> length out + 4 > 16 then None
                else map_option (\<lambda>q. (out @ q, ell, [])) (parse_ip4 s))
             else if c \<noteq> CHR '':'' \<or> r = [] then None
             else if hd r = CHR '':'' then
               (if ell \<noteq> None then None
                else if tl r = [] then Some (out', Some (length out'), [])
                else ip6_loop k out' (Some (length out')) (tl r))
             else ip6_loop k out' ell r)"

definition parse_ip6 :: "bytes \<Rightarrow> bytes option" where
  "parse_ip6 s =
     (let dots = has_prefix s ''::'' in
      if dots \<and> length s = 2 then Some (replicate 16 (CHR 0x00))
      else case ip6_loop 8 [] (if dots then Some 0 else None) (if dots then drop 2 s else s) of
             None \<Rightarrow> None
           | Some (out, ell, rest) \<Rightarrow>
               if rest \<noteq> [] then None
               else if length out < 16 then
                 map_option (\<lambda>e. take e out @ replicate (16 - length out) (CHR 0x00) @ drop e out) ell
               else if ell \<noteq> None then None else Some out)"

text \<open>
  \<open>net.ParseIP\<close>: the address in sixteen bytes. The first of \<open>.\<close>, \<open>:\<close> and \<open>%\<close> decides what the
  text is; a zone is refused.
\<close>

definition ParseIP :: "bytes \<Rightarrow> bytes option" where
  "ParseIP s =
     (case dropWhile (\<lambda>c. c \<notin> {CHR ''.'', CHR '':'', CHR ''%''}) s of
        [] \<Rightarrow> None
      | c # _ \<Rightarrow>
          if c = CHR ''.'' then map_option (\<lambda>q. v4_in_v6 @ q) (parse_ip4 s)
          else if c = CHR '':'' \<and> CHR ''%'' \<notin> set s then parse_ip6 s
          else None)"

section \<open>The region of a client\<close>

text \<open>
  \<open>ma\<close> is the remote multiaddress, if there is one, by its components \<open>ip4\<close> and \<open>ip6\<close>; \<open>geo\<close> the
  database, if one is open, whose \<open>City\<close> gives the code of a country or fails.
\<close>

definition client_region ::
  "(bytes \<Rightarrow> string option) option \<Rightarrow> (string option \<times> string option) option \<Rightarrow> string"
where
  "client_region geo ma =
     (case (geo, ma) of
        (Some city, Some (ip4, ip6)) \<Rightarrow>
          let ipStr = (case ip4 of Some v \<Rightarrow> v | None \<Rightarrow> (case ip6 of Some v6 \<Rightarrow> v6 | None \<Rightarrow> ''''))
          in if ipStr = '''' then ''''
             else (case ParseIP ipStr of
                     None \<Rightarrow> ''''
                   | Some ip \<Rightarrow>
                       (case city ip of
                          None \<Rightarrow> ''''
                        | Some code \<Rightarrow> if code \<noteq> '''' then to_lower code else ''''))
      | _ \<Rightarrow> '''')"

section \<open>Reading what was printed\<close>

lemma go_split_join:
  "\<forall>w\<in>set (w0 # ws). sep \<notin> set w \<Longrightarrow> go_split sep (join_with [sep] (w0 # ws)) = w0 # ws"
proof (induction ws arbitrary: w0)
  case Nil
  then have "sep \<notin> set w0" by simp
  then show ?case by (induction w0) auto
next
  case (Cons w ws)
  then have "sep \<notin> set w0" by simp
  with Cons.IH [of w] Cons.prems show ?case by (induction w0) auto
qed

lemma digits_no_dot: "list_all is_digit s \<Longrightarrow> CHR ''.'' \<notin> set s"
  by (auto simp: list_all_iff is_digit_def)

lemma dec_of_nat_lead: "dec_of_nat n \<noteq> [] \<and> (hd (dec_of_nat n) = CHR ''0'' \<longrightarrow> n = 0)"
proof (induction n rule: dec_of_nat.induct)
  case (1 n)
  show ?case
  proof (cases "n < 10")
    case True
    have "digit d = CHR ''0'' \<longrightarrow> d = 0" if "d < 10" for d
    proof -
      have "list_all (\<lambda>d. digit d = CHR ''0'' \<longrightarrow> d = 0) [0..<10]" by code_simp
      with that show ?thesis by (auto simp: list_all_iff)
    qed
    with True show ?thesis by (subst (1 2) dec_of_nat.simps) simp
  next
    case False
    with 1 have "dec_of_nat (n div 10) \<noteq> []" "hd (dec_of_nat (n div 10)) = CHR ''0'' \<longrightarrow> n div 10 = 0" by auto
    with False show ?thesis by (subst (1 2) dec_of_nat.simps) auto
  qed
qed

lemma ip4_field_dec: "n \<le> 255 \<Longrightarrow> ip4_field (dec_of_nat n) = Some (char_of n)"
  using dec_of_nat_lead [of n] by (auto simp: ip4_field_def dec_of_nat.simps [of 0])

lemma parse_ip4_string: "length bs = 4 \<Longrightarrow> parse_ip4 (ip4_string bs) = Some bs"
proof -
  assume "length bs = 4"
  then obtain a b c d where bs: "bs = [a, b, c, d]" by (auto simp: length_Suc_conv eval_nat_numeral)
  let ?t = "\<lambda>b :: byte. dec_of_nat (of_char b)"
  have "go_split (CHR ''.'') (ip4_string bs) = [?t a, ?t b, ?t c, ?t d]"
    unfolding ip4_string_def bs list.map
    by (rule go_split_join) (use digits_no_dot in auto)
  moreover have "ip4_field (?t b) = Some b" for b :: byte
  proof -
    have "of_char b < (256 :: nat)" by (rule of_char_less_256)
    then have "ip4_field (?t b) = Some (char_of (of_char b :: nat))" by (intro ip4_field_dec) linarith
    then show ?thesis by simp
  qed
  ultimately show ?thesis by (simp add: parse_ip4_def bs)
qed

text \<open>The printed text of an IPv4 address is read back.\<close>

lemma ParseIP_ip4: "length bs = 4 \<Longrightarrow> ParseIP (ip4_string bs) = Some (v4_in_v6 @ bs)"
proof -
  assume l: "length bs = 4"
  then obtain a cs where bs: "bs = a # cs" "cs \<noteq> []" by (cases bs; cases "tl bs") auto
  let ?d = "dec_of_nat (of_char a)"
  have s: "ip4_string bs = ?d @ CHR ''.'' # join_with ''.'' (map (\<lambda>b. dec_of_nat (of_char b)) cs)"
    using bs by (cases cs) (simp_all add: ip4_string_def)
  have "list_all is_digit ?d" by simp
  then have "\<forall>c\<in>set ?d. c \<notin> {CHR ''.'', CHR '':'', CHR ''%''}" by (auto simp: list_all_iff is_digit_def)
  then have "dropWhile (\<lambda>c. c \<notin> {CHR ''.'', CHR '':'', CHR ''%''}) (ip4_string bs) =
      CHR ''.'' # join_with ''.'' (map (\<lambda>b. dec_of_nat (of_char b)) cs)"
    unfolding s by (subst dropWhile_append2) auto
  with parse_ip4_string [OF l] show ?thesis by (simp add: ParseIP_def)
qed

lemma ParseIP_Nil: "ParseIP '''' = None"
  by (simp add: ParseIP_def)

text \<open>A client that is connected over IPv4 is given the country of its address, in lower case.\<close>

lemma client_region_ip4:
  "length bs = 4 \<Longrightarrow> city (v4_in_v6 @ bs) = Some code \<Longrightarrow>
     client_region (Some city) (Some (Some (ip4_string bs), x)) = to_lower code"
  using ParseIP_ip4 [of bs] by (cases "ip4_string bs = ''''") (auto simp: client_region_def ParseIP_Nil)

end
