(* ===== verification/Recorded.thy ===== *)
theory Recorded
  imports ProxyServer Metrics GoIP
begin

text \<open>
  The sessions of \<open>hypernet/services/proxy/server/proxy.go\<close> in front of the store of
  \<open>hypernet/services/proxy/metrics/store.go\<close>: the handlers of many streams run at the same time and
  each makes its calls of the store in the order of its log, the quality loops add samples, the
  writer goroutine works, and at the end the daemon closes the store. The encoding of the details of
  an event (\<open>json.Marshal\<close>) and the outcomes of transactions are arguments.
\<close>

section \<open>The calls of a handler\<close>

text \<open>What is fixed for a session: its fresh UUID, the node, the protocol ID of the stream.\<close>

record session_ctx =
  sx_id :: string
  sx_entry :: string
  sx_stream :: string
  sx_region :: string

definition session_ctx_of :: "string \<Rightarrow> string option \<Rightarrow> string \<Rightarrow> Server \<Rightarrow> session_ctx" where
  "session_ctx_of uuid host_id stream_proto srv =
     \<lparr>sx_id = uuid, sx_entry = (case host_id of None \<Rightarrow> '''' | Some i \<Rightarrow> i), sx_stream = stream_proto,
      sx_region = nodeRegion srv\<rparr>"

definition session_start :: "session_ctx \<Rightarrow> string \<Rightarrow> string \<Rightarrow> int \<Rightarrow> SessionStart" where
  "session_start sx proto region t =
     \<lparr>ss_ID = sx_id sx, EntryNodePeer = sx_entry sx, ss_Protocol = proto, ss_Transport = sx_stream sx,
      ClientRegion = region, NodeRegion = sx_region sx, StartedAt = t\<rparr>"

definition session_end :: "session_ctx \<Rightarrow> nat \<Rightarrow> nat \<Rightarrow> bool \<Rightarrow> string \<Rightarrow> int \<Rightarrow> SessionEnd" where
  "session_end sx up down ok reason t =
     \<lparr>se_ID = sx_id sx, BytesUp = int up, BytesDown = int down, Success = ok, ErrorReason = reason,
      EndedAt = t\<rparr>"

type_synonym marshal = "(string \<times> string) list \<Rightarrow> string option"

text \<open>The call behind an entry of the log, made at time \<open>t\<close>.\<close>

fun report :: "marshal \<Rightarrow> session_ctx \<Rightarrow> int \<Rightarrow> mevent \<Rightarrow> store option \<Rightarrow> sent \<times> store option" where
  "report M sx t (MStart proto region) = StartSession (session_start sx proto region t)"
| "report M sx t (MEvent kind details) = AddEvent (sx_id sx) kind t (M details)"
| "report M sx t (MEnd up down ok reason) = EndSession (session_end sx up down ok reason t)"

text \<open>The entries a handler has for the store; one that is still waiting has made its first call.\<close>

definition handler_log :: "Server \<Rightarrow> peer \<Rightarrow> string \<Rightarrow> outcome option \<Rightarrow> mevent list" where
  "handler_log srv pid region r =
     (case r of
        None \<Rightarrow> [MStart (lastChosenProtocol pid srv) region]
      | Some oc \<Rightarrow> log_events (oc_log oc))"

section \<open>The node at work\<close>

record node_metrics =
  nm_store :: store
  nm_logs :: "string \<Rightarrow> (session_ctx \<times> mevent list) option"
  nm_todo :: "string \<Rightarrow> mevent list"
  nm_lost :: "string set"
  nm_acc :: "op list"

definition node_metrics0 :: "store \<Rightarrow> node_metrics" where
  "node_metrics0 s = \<lparr>nm_store = s, nm_logs = (\<lambda>_. None), nm_todo = (\<lambda>_. []), nm_lost = {}, nm_acc = []\<rparr>"

text \<open>
  The operation a call queues. \<open>nm_acc\<close> collects those the store took, \<open>nm_lost\<close> the sessions of
  which it dropped one.
\<close>

fun report_op :: "marshal \<Rightarrow> session_ctx \<Rightarrow> int \<Rightarrow> mevent \<Rightarrow> op" where
  "report_op M sx t (MStart proto region) = OpStart (session_start sx proto region t)"
| "report_op M sx t (MEvent kind details) =
     OpEvent (sx_id sx) t kind (case M details of None \<Rightarrow> '''' | Some j \<Rightarrow> j)"
| "report_op M sx t (MEnd up down ok reason) = OpEnd (session_end sx up down ok reason t)"

definition note_call :: "string \<Rightarrow> sent \<Rightarrow> op \<Rightarrow> store \<Rightarrow> node_metrics \<Rightarrow> node_metrics" where
  "note_call sid r x s n =
     n\<lparr>nm_store := s, nm_lost := (if r = Sent then nm_lost n else insert sid (nm_lost n)),
       nm_acc := (if r = Sent then nm_acc n @ [x] else nm_acc n)\<rparr>"

inductive metrics_run :: "marshal \<Rightarrow> (tx_env \<Rightarrow> bool) \<Rightarrow> store \<Rightarrow> node_metrics \<Rightarrow> bool"
  for M :: marshal and P :: "tx_env \<Rightarrow> bool" and s0 :: store
where
  nm_init: "metrics_run M P s0 (node_metrics0 s0)"
| nm_session: "metrics_run M P s0 n \<Longrightarrow> has_metrics srv \<Longrightarrow> sx_id sx \<noteq> '''' \<Longrightarrow> nm_logs n (sx_id sx) = None \<Longrightarrow>
    evs = handler_log srv pid region (handleProxyStream ev srv pid region w) \<Longrightarrow>
    metrics_run M P s0
      (n\<lparr>nm_logs := (nm_logs n)(sx_id sx \<mapsto> (sx, evs)), nm_todo := (nm_todo n)(sx_id sx := evs)\<rparr>)"
| nm_report: "metrics_run M P s0 n \<Longrightarrow> nm_logs n sid = Some (sx, evs) \<Longrightarrow> nm_todo n sid = e # es \<Longrightarrow>
    report M sx t e (Some (nm_store n)) = (r, Some s') \<Longrightarrow> r \<noteq> Panic \<Longrightarrow>
    metrics_run M P s0 ((note_call sid r (report_op M sx t e) s' n)\<lparr>nm_todo := (nm_todo n)(sid := es)\<rparr>)"
| nm_sample: "metrics_run M P s0 n \<Longrightarrow> nm_logs n sid \<noteq> None \<Longrightarrow>
    AddQualitySample sid t rtt jitter lost (Some (nm_store n)) = (Sent, Some s') \<Longrightarrow>
    metrics_run M P s0 (note_call sid Sent (OpQuality sid t rtt jitter lost) s' n)"
| nm_recv: "metrics_run M P s0 n \<Longrightarrow> P te \<Longrightarrow> writer_recv te (nm_store n) = Some s' \<Longrightarrow>
    metrics_run M P s0 (n\<lparr>nm_store := s'\<rparr>)"
| nm_tick: "metrics_run M P s0 n \<Longrightarrow> P te \<Longrightarrow> writer_tick te (nm_store n) = Some s' \<Longrightarrow>
    metrics_run M P s0 (n\<lparr>nm_store := s'\<rparr>)"
| nm_close: "metrics_run M P s0 n \<Longrightarrow> metrics_run M P s0 (n\<lparr>nm_store := close_chan (nm_store n)\<rparr>)"

section \<open>The log behind the store\<close>

lemma report_send:
  assumes "report M sx t e (Some s) = (r, Some s')"
  shows "r = Skipped \<and> s' = s \<or> send (report_op M sx t e) s = (r, s')"
  using assms
  by (cases e) (auto simp: StartSession_def EndSession_def AddEvent_def queue_op_def split: if_splits prod.splits)

lemma sent_only: "send x s = (r, s') \<Longrightarrow> r \<noteq> Sent \<Longrightarrow> s' = s"
  by (auto simp: send_def split: if_splits)

text \<open>The node's runs are runs of the store, with the operations its handlers had taken.\<close>

lemma metrics_run_store: "metrics_run M P s0 n \<Longrightarrow> store_reach P s0 (nm_acc n) (nm_store n)"
proof (induction rule: metrics_run.induct)
  case nm_init
  show ?case by (simp add: node_metrics0_def reach_start)
next
  case (nm_report n sid sx evs e es t r s')
  from report_send [OF nm_report.hyps(4)] sent_only [of _ "nm_store n" r s']
  show ?case
    by (cases "r = Sent") (auto simp: note_call_def intro: reach_send [OF nm_report.IH] nm_report.IH)
next
  case (nm_sample n sid t rtt jitter lost s')
  then show ?case
    by (auto simp: note_call_def AddQualitySample_def queue_op_def intro: reach_send [OF nm_sample.IH]
        split: if_splits prod.splits)
qed (auto intro: reach_recv reach_tick reach_close)

definition log_shape :: "mevent list \<Rightarrow> bool" where
  "log_shape evs \<longleftrightarrow>
     (\<exists>p rg mid fin. evs = MStart p rg # mid @ fin \<and> (\<forall>e\<in>set mid. \<exists>k d. e = MEvent k d) \<and>
        (fin = [] \<or> (\<exists>u d ok rs. fin = [MEnd u d ok rs])))"

lemma handler_log_shape:
  assumes "has_metrics srv"
  shows "log_shape (handler_log srv pid region (handleProxyStream ev srv pid region w))"
proof (cases "handleProxyStream ev srv pid region w")
  case None
  then show ?thesis by (auto simp: handler_log_def log_shape_def)
next
  case (Some oc)
  note ok = handle_outcome [of srv pid region ev w, unfolded outcome_ok_def, rule_format, OF Some]
  have "log_shape (log_events (oc_log oc))"
  proof (cases "oc_returned oc")
    case True
    with ok assms have "log_closed True (lastChosenProtocol pid srv) region (oc_log oc)" by simp
    then show ?thesis unfolding log_closed_def log_shape_def if_True by blast
  next
    case False
    with ok assms have "log_open True (lastChosenProtocol pid srv) region (oc_log oc)" by simp
    then obtain evs where "log_events (oc_log oc) = MStart (lastChosenProtocol pid srv) region # evs @ []"
      "\<forall>e\<in>set evs. \<exists>k d. e = MEvent k d"
      unfolding log_open_def by auto
    then show ?thesis unfolding log_shape_def by blast
  qed
  with Some show ?thesis by (simp add: handler_log_def)
qed


text \<open>
  What the accepted operations have of one session: a subsequence of those of its log so far, and all
  of them when none was dropped.
\<close>

abbreviation row_ops :: "string \<Rightarrow> op list \<Rightarrow> op list" where
  "row_ops sid xs \<equiv> filter (\<lambda>x. op_sid x = Some sid) xs"

definition reported :: "marshal \<Rightarrow> session_ctx \<Rightarrow> mevent list \<Rightarrow> op list \<Rightarrow> bool" where
  "reported M sx evs xs \<longleftrightarrow> list_all2 (\<lambda>e x. \<exists>t. x = report_op M sx t e) evs xs"

definition session_inv :: "marshal \<Rightarrow> node_metrics \<Rightarrow> string \<Rightarrow> bool" where
  "session_inv M n sid \<longleftrightarrow>
     (case nm_logs n sid of
        None \<Rightarrow> row_ops sid (nm_acc n) = []
      | Some (sx, evs) \<Rightarrow> sx_id sx = sid \<and> log_shape evs \<and>
          (\<exists>pre xs. evs = pre @ nm_todo n sid \<and> reported M sx pre xs \<and>
             subseq (row_ops sid (nm_acc n)) (row_ops sid xs) \<and>
             (sid \<notin> nm_lost n \<longrightarrow> row_ops sid (nm_acc n) = row_ops sid xs)))"

lemma session_invI:
  "nm_logs n sid = Some (sx, evs) \<Longrightarrow> sx_id sx = sid \<Longrightarrow> log_shape evs \<Longrightarrow> evs = pre @ nm_todo n sid \<Longrightarrow>
     reported M sx pre xs \<Longrightarrow> subseq (row_ops sid (nm_acc n)) (row_ops sid xs) \<Longrightarrow>
     (sid \<notin> nm_lost n \<longrightarrow> row_ops sid (nm_acc n) = row_ops sid xs) \<Longrightarrow> session_inv M n sid"
  unfolding session_inv_def by simp blast

lemma op_sid_report: "op_sid (report_op M sx t e) = Some sid \<Longrightarrow> sid = sx_id sx"
  by (cases e) (auto simp: session_start_def session_end_def)

lemma reported_snoc: "reported M sx pre xs \<Longrightarrow> reported M sx (pre @ [e]) (xs @ [report_op M sx t e])"
  by (auto simp: reported_def intro: list_all2_appendI)

lemma session_inv_other:
  "session_inv M n sid \<Longrightarrow> nm_logs n' sid = nm_logs n sid \<Longrightarrow> nm_todo n' sid = nm_todo n sid \<Longrightarrow>
     row_ops sid (nm_acc n') = row_ops sid (nm_acc n) \<Longrightarrow> nm_lost n \<subseteq> nm_lost n' \<Longrightarrow> session_inv M n' sid"
  unfolding session_inv_def by (cases "nm_logs n sid") auto

lemma session_inv_store [simp]: "session_inv M (n\<lparr>nm_store := s\<rparr>) sid = session_inv M n sid"
  by (simp add: session_inv_def split: option.split)

lemma session_inv_report:
  assumes "session_inv M n sid" "nm_logs n sid = Some (sx, evs)" "nm_todo n sid = e # es"
  shows "session_inv M ((note_call sid r (report_op M sx t e) s n)\<lparr>nm_todo := (nm_todo n)(sid := es)\<rparr>) sid"
proof -
  let ?x = "report_op M sx t e"
  from assms obtain pre xs where q: "sx_id sx = sid" "log_shape evs" "evs = pre @ e # es" "reported M sx pre xs"
    "subseq (row_ops sid (nm_acc n)) (row_ops sid xs)"
    "sid \<notin> nm_lost n \<longrightarrow> row_ops sid (nm_acc n) = row_ops sid xs"
    by (auto simp: session_inv_def)
  have "subseq (row_ops sid (nm_acc n)) (row_ops sid (xs @ [?x]))"
    using list_emb_append_mono [OF q(5) list_emb_Nil, of "row_ops sid [?x]"] by simp
  moreover have "subseq (row_ops sid (nm_acc n @ [?x])) (row_ops sid (xs @ [?x]))"
    using list_emb_append_mono [OF q(5) subseq_order.order_refl, of "row_ops sid [?x]"] by simp
  ultimately have "subseq (row_ops sid (nm_acc n)) (row_ops sid (xs @ [?x]))"
    "subseq (row_ops sid (nm_acc n @ [?x])) (row_ops sid (xs @ [?x]))" .
  with q reported_snoc [OF q(4), of e t] assms(2) show ?thesis
    by (intro session_invI [where pre = "pre @ [e]" and xs = "xs @ [?x]"]) (auto simp: note_call_def)
qed

lemma metrics_run_inv: "metrics_run M P s0 n \<Longrightarrow> session_inv M n sid"
proof (induction arbitrary: sid rule: metrics_run.induct)
  case nm_init
  show ?case by (simp add: session_inv_def node_metrics0_def)
next
  case (nm_session n srv sx evs pid region ev w sid)
  show ?case
  proof (cases "sid = sx_id sx")
    case True
    with nm_session.IH [of sid] nm_session.hyps(4) have "row_ops sid (nm_acc n) = []" by (simp add: session_inv_def)
    moreover have "log_shape evs" using handler_log_shape [OF nm_session.hyps(2)] nm_session.hyps(5) by simp
    moreover have "reported M sx [] []" by (simp add: reported_def)
    ultimately show ?thesis using True by (intro session_invI [where pre = "[]" and xs = "[]"]) simp_all
  next
    case False
    then show ?thesis by (intro session_inv_other [OF nm_session.IH]) auto
  qed
next
  case (nm_report n i sx evs e es t r s' sid)
  show ?case
  proof (cases "sid = i")
    case True
    with session_inv_report [OF nm_report.IH nm_report.hyps(2,3)] show ?thesis by simp
  next
    case False
    have "sx_id sx = i" using nm_report.IH [of i] nm_report.hyps(2) by (simp add: session_inv_def)
    with False have "op_sid (report_op M sx t e) \<noteq> Some sid" by (metis op_sid_report)
    with False show ?thesis by (intro session_inv_other [OF nm_report.IH]) (auto simp: note_call_def)
  qed
next
  case (nm_sample n i t rtt jitter lost s' sid)
  show ?case by (rule session_inv_other [OF nm_sample.IH]) (auto simp: note_call_def)
qed simp_all


section \<open>The row of a session\<close>

fun row_ev :: "mevent \<Rightarrow> bool" where
  "row_ev (MEvent k d) = False"
| "row_ev _ = True"

lemma reported_rows: "reported M sx pre xs \<Longrightarrow> reported M sx (filter row_ev pre) (row_ops (sx_id sx) xs)"
  unfolding reported_def
proof (induction rule: list_all2_induct)
  case (Cons e es x xs)
  then show ?case by (cases e) (auto simp: session_start_def session_end_def)
qed simp

definition open_row :: "SessionStart \<Rightarrow> session_row" where
  "open_row st =
     \<lparr>row_start = st, end_time = None, bytes_up = None, bytes_down = None, success = None, error_reason = None\<rparr>"

text \<open>
  A row tells what the handler of its session did: the session as it started, and its end, if it
  shows one, as the handler logged it.
\<close>

definition row_true :: "session_ctx \<Rightarrow> mevent list \<Rightarrow> session_row \<Rightarrow> bool" where
  "row_true sx evs r \<longleftrightarrow>
     (\<exists>p rg t. hd evs = MStart p rg \<and>
        (r = open_row (session_start sx p rg t) \<or>
         (\<exists>u d ok rs t'. last evs = MEnd u d ok rs \<and>
            r = end_row (session_end sx u d ok rs t') (open_row (session_start sx p rg t)))))"

lemma shape_rows:
  assumes "log_shape evs"
  obtains p rg fin where "hd evs = MStart p rg" "filter row_ev evs = MStart p rg # fin"
    "fin = [] \<or> (\<exists>u d ok rs. fin = [MEnd u d ok rs] \<and> last evs = MEnd u d ok rs)"
proof -
  from assms obtain p rg mid fin where e: "evs = MStart p rg # mid @ fin" "\<forall>e\<in>set mid. \<exists>k d. e = MEvent k d"
    "fin = [] \<or> (\<exists>u d ok rs. fin = [MEnd u d ok rs])" unfolding log_shape_def by blast
  from e(2) have "filter row_ev mid = []" by (auto simp: filter_empty_conv)
  with e show ?thesis by (intro that [of p rg fin]) auto
qed

lemma reported_shape:
  assumes "log_shape evs" "evs = pre @ todo" "reported M sx pre xs"
  obtains p rg t where "hd evs = MStart p rg"
    "row_ops (sx_id sx) xs = [] \<or> row_ops (sx_id sx) xs = [OpStart (session_start sx p rg t)] \<or>
     (\<exists>u d ok rs t'. last evs = MEnd u d ok rs \<and>
       row_ops (sx_id sx) xs = [OpStart (session_start sx p rg t), OpEnd (session_end sx u d ok rs t')])"
proof -
  from shape_rows [OF assms(1)] obtain p rg fin where f: "hd evs = MStart p rg" "filter row_ev evs = MStart p rg # fin"
    "fin = [] \<or> (\<exists>u d ok rs. fin = [MEnd u d ok rs] \<and> last evs = MEnd u d ok rs)" by blast
  note r = reported_rows [OF assms(3)]
  from f(2) assms(2) have "filter row_ev pre @ filter row_ev todo = MStart p rg # fin" by simp
  with f(3) consider "filter row_ev pre = []" | "filter row_ev pre = [MStart p rg]"
    | u d ok rs where "filter row_ev pre = [MStart p rg, MEnd u d ok rs]" "last evs = MEnd u d ok rs"
    by (cases "filter row_ev pre"; cases "tl (filter row_ev pre)") auto
  then show ?thesis
  proof cases
    case 1
    with r f(1) show ?thesis by (intro that [of p rg]) (auto simp: reported_def)
  next
    case 2
    with r f(1) show ?thesis by (auto simp: reported_def list_all2_Cons1 intro!: that)
  next
    case 3
    with r f(1) show ?thesis by (auto simp: reported_def list_all2_Cons1 intro!: that)
  qed
qed

lemma row_after:
  assumes "subseq ys zs" "zs = [] \<or> zs = [OpStart st] \<or> zs = [OpStart st, OpEnd e]" "fold row_op ys None = Some r"
  shows "r = open_row st \<or> zs = [OpStart st, OpEnd e] \<and> r = end_row e (open_row st)"
proof -
  have "ys \<in> set (subseqs zs)" using assms(1) by simp
  with assms(2) have "ys = [] \<or> ys = [OpStart st] \<or> ys = [OpEnd e] \<or> ys = [OpStart st, OpEnd e] \<and> zs = [OpStart st, OpEnd e]"
    by (elim disjE) (auto simp: Let_def simp del: in_set_subseqs)
  with assms(3) show ?thesis by (elim disjE) (simp_all add: open_row_def)
qed


lemma row_in:
  assumes "metrics_run M P s0 n" "subseq ds (nm_acc n)" "sessions d sid = None"
    "sessions (apply_ops ds d) sid = Some r"
  shows "\<exists>sx evs. nm_logs n sid = Some (sx, evs) \<and> sx_id sx = sid \<and> row_true sx evs r"
proof -
  have fold: "fold row_op (row_ops sid ds) None = Some r" using assms(3,4) by (simp add: sessions_apply_ops)
  have sub: "subseq (row_ops sid ds) (row_ops sid (nm_acc n))" using assms(2) by (rule subseq_filter)
  have "nm_logs n sid \<noteq> None"
  proof
    assume "nm_logs n sid = None"
    with metrics_run_inv [OF assms(1), of sid] have "row_ops sid (nm_acc n) = []" by (simp add: session_inv_def)
    with sub fold show False by (auto dest: list_emb_Nil2)
  qed
  then obtain sx evs where l: "nm_logs n sid = Some (sx, evs)" by auto
  with metrics_run_inv [OF assms(1), of sid] obtain pre xs where i: "sx_id sx = sid" "log_shape evs"
    "evs = pre @ nm_todo n sid" "reported M sx pre xs" "subseq (row_ops sid (nm_acc n)) (row_ops sid xs)"
    by (auto simp: session_inv_def)
  from reported_shape [OF i(2-4)] i(1) obtain p rg t where hd: "hd evs = MStart p rg"
    "row_ops sid xs = [] \<or> row_ops sid xs = [OpStart (session_start sx p rg t)] \<or>
     (\<exists>u d ok rs t'. last evs = MEnd u d ok rs \<and>
       row_ops sid xs = [OpStart (session_start sx p rg t), OpEnd (session_end sx u d ok rs t')])" by metis
  from subseq_order.order_trans [OF sub i(5)] have s: "subseq (row_ops sid ds) (row_ops sid xs)" .
  have "row_true sx evs r"
    using hd(2)
  proof (elim disjE exE conjE)
    fix u d ok rs t'
    assume e: "last evs = MEnd u d ok rs"
      "row_ops sid xs = [OpStart (session_start sx p rg t), OpEnd (session_end sx u d ok rs t')]"
    from row_after [OF s _ fold] e(2) have "r = open_row (session_start sx p rg t) \<or>
        r = end_row (session_end sx u d ok rs t') (open_row (session_start sx p rg t))" by blast
    with hd(1) e(1) show ?thesis unfolding row_true_def by blast
  qed (use row_after [OF s _ fold] hd(1) in \<open>auto simp: row_true_def\<close>)
  with l i(1) show ?thesis by blast
qed

text \<open>
  C17: the database tells the truth. Whatever sessions run at the same time, whatever the store drops and
  whatever transaction fails, a row of the table of sessions that was not there before belongs to
  a session of this node: it shows the protocol and region its handler logged, and it is either still
  open or ended with exactly the counts, the verdict and the reason of that handler.
\<close>

theorem rows_truthful:
  assumes "NewStore path None None d interval = Inr s0" "metrics_run M P s0 n"
    and "sessions d sid = None" "sessions (db (nm_store n)) sid = Some r"
  shows "\<exists>sx evs. nm_logs n sid = Some (sx, evs) \<and> sx_id sx = sid \<and> row_true sx evs r"
proof -
  from store_reach_stored [OF metrics_run_store [OF assms(2)]] NewStore_stored [OF assms(1), of P]
  obtain hs ds where s: "nm_acc n = hs @ batch (nm_store n) @ chan (nm_store n)" "subseq ds hs"
    "db (nm_store n) = apply_ops ds d" by (auto simp: stored_def)
  have "subseq ds (nm_acc n)"
    unfolding s(1) using list_emb_append_mono [OF s(2) list_emb_Nil] by simp
  from row_in [OF assms(2) this assms(3)] assms(4) s(3) show ?thesis by simp
qed

lemma complete_row:
  assumes "metrics_run M P s0 n" "sessions d sid = None"
    and "nm_logs n sid = Some (sx, evs)" "nm_todo n sid = []" "sid \<notin> nm_lost n"
    and "hd evs = MStart p rg" "last evs = MEnd u b ok rs"
  shows "\<exists>t t'. sessions (apply_ops (nm_acc n) d) sid =
    Some (end_row (session_end sx u b ok rs t') (open_row (session_start sx p rg t)))"
proof -
  from metrics_run_inv [OF assms(1), of sid] assms(3-5) obtain xs where i: "sx_id sx = sid" "log_shape evs"
    "reported M sx evs xs" "row_ops sid (nm_acc n) = row_ops sid xs" by (auto simp: session_inv_def)
  from i(2) have "evs \<noteq> []" by (auto simp: log_shape_def)
  with assms(7) have "filter row_ev evs = filter row_ev (butlast evs) @ [MEnd u b ok rs]"
    by (metis append_butlast_last_id filter.simps filter_append row_ev.simps(3))
  with shape_rows [OF i(2)] assms(6,7) have "filter row_ev evs = [MStart p rg, MEnd u b ok rs]"
    by (metis append_self_conv2 last_snoc mevent.inject(3) mevent.inject(1) mevent.distinct(3) list.inject last.simps)
  with reported_rows [OF i(3)] i(1) obtain t t' where
    "row_ops sid xs = [OpStart (session_start sx p rg t), OpEnd (session_end sx u b ok rs t')]"
    by (auto simp: reported_def list_all2_Cons1)
  then show ?thesis using i(4) assms(2) by (auto simp: sessions_apply_ops open_row_def)
qed

lemma recorded_row:
  assumes "NewStore path None None d interval = Inr s0" "metrics_run M all_ok s0 n" "sessions d sid = None"
    and "nm_logs n sid = Some (sx, evs)" "nm_todo n sid = []" "sid \<notin> nm_lost n"
    and "hd evs = MStart p rg" "last evs = MEnd u b ok rs"
    and "all_ok te" "chan_closed (nm_store n)" "writer_live (nm_store n)"
  shows "\<exists>t t'. sessions (db (drain te (nm_store n))) sid =
    Some (end_row (session_end sx u b ok rs t') (open_row (session_start sx p rg t)))"
proof -
  have "stored all_ok d (nm_acc n) (nm_store n)"
    using store_reach_stored [OF metrics_run_store [OF assms(2)]] NewStore_stored [OF assms(1)] by auto
  from drain_stored [OF this assms(9,11,10)]
  have "db (drain te (nm_store n)) = apply_ops (nm_acc n) d" by (auto simp: stored_def)
  with complete_row [OF assms(2-8)] show ?thesis by simp
qed


text \<open>
  C16: a proxied TCP session, down to the database. The session of a plain request that reaches its
  target, on a node that keeps metrics, in any run of the node in which no transaction fails, none
  of its calls was dropped and all have been made; other sessions may be interleaved. Once the
  store is closed and its writer has ended, the table has one row for the session: started with
  the protocol negotiated with the peer and its region, and ended, a success without a reason, with
  exactly the numbers of bytes the target and the client were sent.
\<close>

theorem tcp_session_recorded:
  assumes p: "p = ''TCP'' \<or> p = ''DIRECT''" and h: "host_ok host" "0 < port" "port \<le> 65535"
    and w: "rx w = request_line p host port # segs" "length (request_line p host port) \<le> bufio_size"
      "ends_well w"
    and o: "PMax (srv_obfs srv) \<le> 0" "WDMax (srv_obfs srv) \<le> 0" "has_metrics srv"
    and d: "e_dial_tcp ev host port = Inr t" "ends_well t"
    and s: "1 + length segs + length (concat segs) \<le> turns True (e_sched ev)"
      "1 + length (rx t) + length (concat (rx t)) \<le> turns False (e_sched ev)"
    and n: "NewStore path None None db0 interval = Inr s0" "metrics_run M all_ok s0 n" "sessions db0 sid = None"
      "nm_logs n sid = Some (sx, handler_log srv pid region (handleProxyStream ev srv pid region w))"
      "nm_todo n sid = []" "sid \<notin> nm_lost n"
    and c: "all_ok te" "chan_closed (nm_store n)" "writer_live (nm_store n)"
  shows "\<exists>oc t' t0 t1. handleProxyStream ev srv pid region w = Some oc \<and>
    oc_target oc = Some t' \<and> tx t' = tx t @ concat segs \<and>
    tx (oc_stream oc) = tx w @ ''OK'' @ nl @ concat (rx t) \<and>
    sessions (db (drain te (nm_store n))) sid =
      Some \<lparr>row_start = session_start sx (lastChosenProtocol pid srv) region t0, end_time = Some t1,
            bytes_up = Some (int (length (concat segs))), bytes_down = Some (int (length (concat (rx t)))),
            success = Some True, error_reason = Some ''''\<rparr>"
proof -
  from plain_session [OF p h w o(1,2) d s, of pid region] o(3) obtain oc t' where
    oc: "handleProxyStream ev srv pid region w = Some oc" "oc_target oc = Some t'" "tx t' = tx t @ concat segs"
      "tx (oc_stream oc) = tx w @ ''OK'' @ nl @ concat (rx t)"
      "log_events (oc_log oc) =
         [MStart (lastChosenProtocol pid srv) region,
          MEvent ''session_closed'' [(''host'', host), (''port'', itoa port)],
          MEnd (length (concat segs)) (length (concat (rx t))) True '''']" by blast
  from recorded_row [OF n(1-6) _ _ c, of "lastChosenProtocol pid srv" region
      "length (concat segs)" "length (concat (rx t))" True "''''"] oc(1,5)
  show ?thesis using oc(1-4) by (auto simp: handler_log_def end_row_def open_row_def session_end_def)
qed

section \<open>A node that runs\<close>

text \<open>With an idle store a handler can always make its next call, and the writer takes it.\<close>

definition idle :: "node_metrics \<Rightarrow> bool" where
  "idle n \<longleftrightarrow> chan (nm_store n) = [] \<and> \<not> chan_closed (nm_store n) \<and> writer_live (nm_store n)"

lemma node_reports:
  assumes "metrics_run M P s0 n" "idle n" "P te" "nm_logs n sid = Some (sx, evs)" "nm_todo n sid = es"
    "sx_id sx \<noteq> ''''" "\<forall>k d. MEvent k d \<in> set es \<longrightarrow> k \<noteq> ''''"
  shows "\<exists>n'. metrics_run M P s0 n' \<and> idle n' \<and> nm_logs n' = nm_logs n \<and> nm_todo n' = (nm_todo n)(sid := []) \<and>
    nm_lost n' = nm_lost n"
  using assms
proof (induction es arbitrary: n)
  case Nil
  then show ?case by (metis fun_upd_triv)
next
  case (Cons e es)
  let ?x = "report_op M sx 0 e" and ?s = "nm_store n"
  have r: "report M sx 0 e (Some ?s) = (Sent, Some (?s\<lparr>chan := [?x]\<rparr>))"
    using Cons.prems(2,6,7) by (cases e) (auto simp: StartSession_def EndSession_def AddEvent_def queue_op_def
        send_def idle_def chan_cap_def)
  define n1 where "n1 = (note_call sid Sent ?x (?s\<lparr>chan := [?x]\<rparr>) n)\<lparr>nm_todo := (nm_todo n)(sid := es)\<rparr>"
  have n1: "metrics_run M P s0 n1"
    unfolding n1_def by (rule nm_report [OF Cons.prems(1,4,5) r]) simp
  obtain s' where s': "writer_recv te (nm_store n1) = Some s'"
    using Cons.prems(2) by (auto simp: n1_def note_call_def writer_recv_def idle_def Let_def)
  have "idle (n1\<lparr>nm_store := s'\<rparr>)"
    using s' Cons.prems(2) by (auto simp: n1_def note_call_def writer_recv_def idle_def Let_def split: if_splits)
  moreover have "nm_logs (n1\<lparr>nm_store := s'\<rparr>) sid = Some (sx, evs)" "nm_todo (n1\<lparr>nm_store := s'\<rparr>) sid = es"
    "\<forall>k d. MEvent k d \<in> set es \<longrightarrow> k \<noteq> ''''"
    using Cons.prems(4,7) by (simp_all add: n1_def note_call_def)
  ultimately obtain n' where n': "metrics_run M P s0 n'" "idle n'" "nm_logs n' = nm_logs (n1\<lparr>nm_store := s'\<rparr>)"
    "nm_todo n' = (nm_todo (n1\<lparr>nm_store := s'\<rparr>))(sid := [])" "nm_lost n' = nm_lost (n1\<lparr>nm_store := s'\<rparr>)"
    using Cons.IH [OF nm_recv [OF n1 Cons.prems(3) s'] _ Cons.prems(3)] Cons.prems(6) by blast
  moreover have "(nm_todo (n1\<lparr>nm_store := s'\<rparr>))(sid := []) = (nm_todo n)(sid := [])"
    by (simp add: n1_def note_call_def fun_upd_upd)
  ultimately show ?case by (intro exI [of _ n']) (simp add: n1_def note_call_def)
qed


definition wit_sx :: session_ctx where
  "wit_sx = session_ctx_of ''u1'' (Some ''node'') ''/proxy/1.0.0'' wit_server_state"

definition wit_recorded_request :: wire where
  "wit_recorded_request = wire_of [request_line ''TCP'' ''example.com'' 80, ''GET /''] (Some EOF)"

abbreviation wit_turns :: env where
  "wit_turns \<equiv> wit_env (replicate 7 True @ replicate 9 False)"

lemma wit_recorded_log:
  "\<exists>oc t'. handleProxyStream wit_turns wit_server_state ''peer1'' ''de'' wit_recorded_request = Some oc \<and>
     log_events (oc_log oc) =
       [MStart ''vless'' ''de'', MEvent ''session_closed'' [(''host'', ''example.com''), (''port'', itoa 80)],
        MEnd 5 6 True '''']"
proof -
  have h: "host_ok ''example.com''" by (simp add: host_ok_def plain_byte_def)
  have i: "itoa 80 = ''80''" by code_simp
  show ?thesis
    using plain_session [of "''TCP''" "''example.com''" 80 wit_recorded_request "[''GET /'']" wit_server_state
        wit_turns wit_target "''peer1''" "''de''"] h
    by (auto simp: wit_recorded_request_def wire_of_def ends_well_def wit_env_def wit_server_state_def RememberChosenProtocol_def
        SetVLESSAuthToken_def NewServer_def wit_target_def turns_def request_line_def nl_def i bufio_size_def
        lastChosenProtocol_def)
qed

lemma wit_started:
  "\<exists>n. metrics_run (\<lambda>_. Some ''{}'') all_ok wit_store n \<and> idle n \<and> ''u1'' \<notin> nm_lost n \<and>
     nm_todo n ''u1'' = handler_log wit_server_state ''peer1'' ''de''
       (handleProxyStream wit_turns wit_server_state ''peer1'' ''de'' wit_recorded_request) \<and>
     nm_logs n ''u1'' = Some (wit_sx, handler_log wit_server_state ''peer1'' ''de''
       (handleProxyStream wit_turns wit_server_state ''peer1'' ''de'' wit_recorded_request))"
proof -
  let ?evs = "handler_log wit_server_state ''peer1'' ''de''
    (handleProxyStream wit_turns wit_server_state ''peer1'' ''de'' wit_recorded_request)"
  let ?n0 = "node_metrics0 wit_store"
  define n1 where "n1 = ?n0\<lparr>nm_logs := (nm_logs ?n0)(sx_id wit_sx \<mapsto> (wit_sx, ?evs)),
    nm_todo := (nm_todo ?n0)(sx_id wit_sx := ?evs)\<rparr>"
  have id: "sx_id wit_sx = ''u1''" by (simp add: wit_sx_def session_ctx_of_def)
  have "metrics_run (\<lambda>_. Some ''{}'') all_ok wit_store n1"
    unfolding n1_def
    by (rule nm_session [OF nm_init])
      (simp_all add: id node_metrics0_def wit_server_state_def RememberChosenProtocol_def SetVLESSAuthToken_def)
  moreover have "idle n1" by (simp add: n1_def node_metrics0_def idle_def wit_store_def)
  ultimately show ?thesis
    by (intro exI [of _ n1]) (simp add: n1_def id node_metrics0_def)
qed

lemma wit_reported:
  "\<exists>n. metrics_run (\<lambda>_. Some ''{}'') all_ok wit_store n \<and> idle n \<and> nm_todo n ''u1'' = [] \<and> ''u1'' \<notin> nm_lost n \<and>
     nm_logs n ''u1'' = Some (wit_sx, handler_log wit_server_state ''peer1'' ''de''
       (handleProxyStream wit_turns wit_server_state ''peer1'' ''de'' wit_recorded_request))"
proof -
  let ?evs = "handler_log wit_server_state ''peer1'' ''de''
    (handleProxyStream wit_turns wit_server_state ''peer1'' ''de'' wit_recorded_request)"
  from wit_started obtain n1 where n1: "metrics_run (\<lambda>_. Some ''{}'') all_ok wit_store n1" and i: "idle n1" and
    l: "nm_logs n1 ''u1'' = Some (wit_sx, ?evs)" "nm_todo n1 ''u1'' = ?evs" "''u1'' \<notin> nm_lost n1" by blast
  have id: "sx_id wit_sx = ''u1''" by (simp add: wit_sx_def session_ctx_of_def)
  have "\<forall>k d. MEvent k d \<in> set ?evs \<longrightarrow> k \<noteq> ''''" using wit_recorded_log by (auto simp: handler_log_def)
  moreover have "all_ok tx_good" by (simp add: all_ok_def tx_good_def)
  ultimately obtain n' where "metrics_run (\<lambda>_. Some ''{}'') all_ok wit_store n'" "idle n'" "nm_logs n' = nm_logs n1"
    "nm_todo n' = (nm_todo n1)(''u1'' := [])" "nm_lost n' = nm_lost n1"
    using node_reports [OF n1 i _ l(1,2), of tx_good] id by auto
  with l show ?thesis by auto
qed

lemma rows_truthful_witness:
  "\<exists>n r. metrics_run (\<lambda>_. Some ''{}'') all_ok wit_store n \<and> sessions (db (nm_store n)) ''u1'' = Some r \<and>
     (\<exists>sx evs. nm_logs n ''u1'' = Some (sx, evs) \<and> row_true sx evs r)"
proof -
  let ?M = "\<lambda>_ :: (string \<times> string) list. Some ''{}''"
  from wit_reported wit_recorded_log obtain n where n: "metrics_run ?M all_ok wit_store n" "idle n" "nm_todo n ''u1'' = []"
    "''u1'' \<notin> nm_lost n" "nm_logs n ''u1'' = Some (wit_sx,
       [MStart ''vless'' ''de'', MEvent ''session_closed'' [(''host'', ''example.com''), (''port'', itoa 80)],
        MEnd 5 6 True ''''])" by (auto simp: handler_log_def)
  let ?n = "n\<lparr>nm_store := flush tx_good (nm_store n)\<rparr>"
  have r: "metrics_run ?M all_ok wit_store ?n"
    by (rule nm_tick [OF n(1), of tx_good]) (use n(2) in \<open>simp_all add: tx_good_def all_ok_def writer_tick_def idle_def\<close>)
  have s0: "stored all_ok (db wit_store) [] wit_store" "db wit_store = empty_db"
    using NewStore_stored [OF wit_store_new, of all_ok] by blast+
  have "stored all_ok empty_db (nm_acc ?n) (nm_store ?n)"
    using store_reach_stored [OF metrics_run_store [OF r] s0(1)] unfolding s0(2) .
  then have db: "db (nm_store ?n) = apply_ops (nm_acc ?n) empty_db" using n(2) by (auto simp: stored_def idle_def)
  have e: "sessions empty_db ''u1'' = None" by (simp add: empty_db_def)
  have "\<exists>r. sessions (db (nm_store ?n)) ''u1'' = Some r"
    using complete_row [OF r e, of wit_sx _ "''vless''" "''de''" 5 6 True "''''"] n(3-5) db by auto
  with rows_truthful [OF wit_store_new r e] r show ?thesis by blast
qed

lemma tcp_session_recorded_witness:
  "\<exists>n t0 t1. metrics_run (\<lambda>_. Some ''{}'') all_ok wit_store n \<and>
     sessions (db (drain tx_good (nm_store n))) ''u1'' =
      Some \<lparr>row_start = session_start wit_sx ''vless'' ''de'' t0, end_time = Some t1,
            bytes_up = Some 5, bytes_down = Some 6, success = Some True, error_reason = Some ''''\<rparr>"
proof -
  from wit_reported obtain n where n: "metrics_run (\<lambda>_. Some ''{}'') all_ok wit_store n" "idle n" "nm_todo n ''u1'' = []"
    "''u1'' \<notin> nm_lost n" "nm_logs n ''u1'' = Some (wit_sx, handler_log wit_server_state ''peer1'' ''de''
       (handleProxyStream wit_turns wit_server_state ''peer1'' ''de'' wit_recorded_request))" by blast
  let ?n = "n\<lparr>nm_store := close_chan (nm_store n)\<rparr>"
  have h: "host_ok ''example.com''" by (simp add: host_ok_def plain_byte_def)
  have i: "itoa 80 = ''80''" by code_simp
  have "\<exists>t0 t1. sessions (db (drain tx_good (nm_store ?n))) ''u1'' =
      Some \<lparr>row_start = session_start wit_sx ''vless'' ''de'' t0, end_time = Some t1,
            bytes_up = Some 5, bytes_down = Some 6, success = Some True, error_reason = Some ''''\<rparr>"
    using tcp_session_recorded [of "''TCP''" "''example.com''" 80 wit_recorded_request "[''GET /'']" wit_server_state
        wit_turns wit_target "''m.db''" empty_db 0 wit_store "\<lambda>_. Some ''{}''" ?n "''u1''" wit_sx "''peer1''" "''de''"
        tx_good] h nm_close [OF n(1)] n(2-5) wit_store_new
    by (auto simp: wit_recorded_request_def wire_of_def ends_well_def wit_env_def wit_server_state_def RememberChosenProtocol_def
        SetVLESSAuthToken_def NewServer_def wit_target_def turns_def request_line_def nl_def i bufio_size_def
        lastChosenProtocol_def empty_db_def all_ok_def tx_good_def close_chan_def idle_def)
  with nm_close [OF n(1)] show ?thesis by blast
qed


section \<open>Shutting down\<close>

text \<open>
  What \<open>Run\<close> of \<open>hypernet/node/daemon/run.go\<close> has deferred when it returns, in the order it runs: the
  node, the store if one was opened, the GeoIP database if it is configured and can be opened.
\<close>

datatype closing = CloseNode | CloseMetrics | CloseGeo

definition geo_opened :: "string \<Rightarrow> (string \<Rightarrow> bool) \<Rightarrow> bool" where
  "geo_opened path can_open \<longleftrightarrow> path \<noteq> '''' \<and> can_open path"

definition Run_deferred :: "bool \<Rightarrow> bool \<Rightarrow> closing list" where
  "Run_deferred has_store has_geo =
     rev ([CloseNode] @ (if has_store then [CloseMetrics] else []) @ (if has_geo then [CloseGeo] else []))"

text \<open>
  A session that outlives the store brings the daemon down. \<open>Run\<close> closes the store before the node,
  so handlers still run then; and whatever a handler has left to report to the closed store, its
  call panics: it sends on a closed channel, inside a \<open>select\<close> whose default does not prevent it.
\<close>

theorem late_report_panics:
  assumes "metrics_run M P s0 n" "nm_logs n sid = Some (sx, evs)" "nm_todo n sid = e # es"
    and "sx_id sx \<noteq> ''''" "\<forall>k d. e = MEvent k d \<longrightarrow> k \<noteq> ''''" "chan_closed (nm_store n)"
  shows "report M sx t e (Some (nm_store n)) = (Panic, Some (nm_store n)) \<and>
    (\<exists>xs ys. Run_deferred True geo = xs @ CloseMetrics # ys \<and> CloseNode \<in> set ys)"
proof
  show "report M sx t e (Some (nm_store n)) = (Panic, Some (nm_store n))"
    using assms(4-6) by (cases e) (auto simp: StartSession_def EndSession_def AddEvent_def queue_op_def send_def)
  show "\<exists>xs ys. Run_deferred True geo = xs @ CloseMetrics # ys \<and> CloseNode \<in> set ys"
    by (cases geo) (auto simp: Run_deferred_def Cons_eq_append_conv)
qed

lemma late_report_panics_witness:
  "\<exists>n e. metrics_run (\<lambda>_. Some ''{}'') all_ok wit_store n \<and> hd (nm_todo n ''u1'') = e \<and>
     report (\<lambda>_. Some ''{}'') wit_sx 7 e (Some (nm_store n)) = (Panic, Some (nm_store n))"
proof -
  from wit_started wit_recorded_log obtain n es where n: "metrics_run (\<lambda>_. Some ''{}'') all_ok wit_store n"
    "nm_todo n ''u1'' = MStart ''vless'' ''de'' # es" "nm_logs n ''u1'' = Some (wit_sx, MStart ''vless'' ''de'' # es)"
    by (auto simp: handler_log_def)
  show ?thesis
    using late_report_panics [OF nm_close [OF n(1)], of "''u1''" wit_sx "MStart ''vless'' ''de'' # es"
        "MStart ''vless'' ''de''" es 7] nm_close [OF n(1)] n(2,3)
    by (intro exI [of _ "n\<lparr>nm_store := close_chan (nm_store n)\<rparr>"])
      (simp add: wit_sx_def session_ctx_of_def close_chan_def)
qed

end
