(* ===== verification/NameDht.thy ===== *)
theory NameDht
  imports Dns
begin

text \<open>
  The name system of several nodes over one DHT: the operations of
  \<open>hypernet/services/dns/namesystem.go\<close>, run by different nodes one after the other, and the records
  that other peers put, all checked by the validator of \<open>dht_validator.go\<close>.

  The DHT is a library. Here it holds one value for a key and answers every node alike, and a
  parameter says which values it takes in place of the value it has; it is documented to take a value
  exactly when the validator accepts it and, asked to select between the new and the old one, picks
  the new one.
\<close>

section \<open>Nodes, operations and the store\<close>

record dns_node =
  dn_id :: string
  dn_key :: "bytes option"
  dn_addrs :: "string list"

datatype name_op = RegisterName string "string list" duration | UnregisterName string | RefreshName string

text \<open>An operation of a node, with the clock at its first and its last reading; or a put of any peer.\<close>

datatype dht_event = NodeOp dns_node name_op int int | PeerPut string bytes

type_synonym dht_store = "string \<Rightarrow> bytes option"

type_synonym dht_accept = "string \<Rightarrow> bytes option \<Rightarrow> bytes \<Rightarrow> bool"

definition dht_not_found :: err where
  "dht_not_found = Err ''routing: not found''"

definition dht_older :: err where
  "dht_older = Err ''can't replace a newer value with an older value''"

definition dht_env :: "dht_accept \<Rightarrow> dht_store \<Rightarrow> dns_node \<Rightarrow> int \<Rightarrow> int \<Rightarrow> dns_env" where
  "dht_env acc st nd t t2 =
     \<lparr>d_get = (\<lambda>k. case st k of None \<Rightarrow> Inl dht_not_found | Some v \<Rightarrow> Inr v),
      d_search = (\<lambda>k. Inr (case st k of None \<Rightarrow> [] | Some v \<Rightarrow> [v])),
      d_put = (\<lambda>k v. if acc k (st k) v then None else Some dht_older),
      h_id = dn_id nd, h_key = dn_key nd, h_addrs = dn_addrs nd, t_now = t, t_then = t2\<rparr>"

lemma dht_env_simps [simp]:
  "d_get (dht_env acc st nd t t2) k = (case st k of None \<Rightarrow> Inl dht_not_found | Some v \<Rightarrow> Inr v)"
  "d_search (dht_env acc st nd t t2) k = Inr (case st k of None \<Rightarrow> [] | Some v \<Rightarrow> [v])"
  "d_put (dht_env acc st nd t t2) k v = (if acc k (st k) v then None else Some dht_older)"
  "h_id (dht_env acc st nd t t2) = dn_id nd" "h_key (dht_env acc st nd t t2) = dn_key nd"
  "h_addrs (dht_env acc st nd t t2) = dn_addrs nd" "t_now (dht_env acc st nd t t2) = t" "t_then (dht_env acc st nd t t2) = t2"
  by (simp_all add: dht_env_def)

definition run_op :: "dns_lib \<Rightarrow> dht_accept \<Rightarrow> dht_store \<Rightarrow> dns_node \<Rightarrow> name_op \<Rightarrow> int \<Rightarrow> int \<Rightarrow> published" where
  "run_op l acc st nd op t t2 =
     (let ns = NewNameSystem True True; ev = dht_env acc st nd t t2
      in case op of
           RegisterName name addrs ttl \<Rightarrow> Register l ns ev name addrs ttl
         | UnregisterName name \<Rightarrow> Unregister l ns ev name
         | RefreshName name \<Rightarrow> Refresh l ns ev name)"

definition op_name :: "name_op \<Rightarrow> string" where
  "op_name op = (case op of RegisterName n _ _ \<Rightarrow> n | UnregisterName n \<Rightarrow> n | RefreshName n \<Rightarrow> n)"

fun dht_step :: "dns_lib \<Rightarrow> dht_accept \<Rightarrow> dht_event \<Rightarrow> dht_store \<Rightarrow> dht_store" where
  "dht_step l acc (NodeOp nd op t t2) st =
     (case run_op l acc st nd op t t2 of
        (None, Some (k, r)) \<Rightarrow> st(k \<mapsto> j_marshal l r)
      | _ \<Rightarrow> st)"
| "dht_step l acc (PeerPut k v) st = (if acc k (st k) v then st(k \<mapsto> v) else st)"

fun dht_run :: "dns_lib \<Rightarrow> dht_accept \<Rightarrow> dht_event list \<Rightarrow> dht_store \<Rightarrow> dht_store" where
  "dht_run l acc [] st = st"
| "dht_run l acc (ev # evs) st = dht_run l acc evs (dht_step l acc ev st)"

text \<open>The records the nodes' operations of a run put into the DHT.\<close>

fun put_records :: "dns_lib \<Rightarrow> dht_accept \<Rightarrow> dht_event list \<Rightarrow> dht_store \<Rightarrow> dns_rec list" where
  "put_records l acc [] st = []"
| "put_records l acc (ev # evs) st =
     (case ev of
        NodeOp nd op t t2 \<Rightarrow>
          (case run_op l acc st nd op t t2 of (None, Some (k, r)) \<Rightarrow> [r] | _ \<Rightarrow> [])
      | PeerPut k v \<Rightarrow> []) @ put_records l acc evs (dht_step l acc ev st)"

text \<open>The documented behaviour of the DHT, in its two directions.\<close>

definition takes_only_selected :: "dns_lib \<Rightarrow> dht_accept \<Rightarrow> bool" where
  "takes_only_selected l acc \<longleftrightarrow>
     (\<forall>k old v. acc k old v \<longrightarrow> Validate l k v = None \<and> (\<forall>w. old = Some w \<longrightarrow> v = w \<or> Select l k [v, w] = Inr 0))"

definition takes_selected :: "dns_lib \<Rightarrow> dht_accept \<Rightarrow> bool" where
  "takes_selected l acc \<longleftrightarrow>
     (\<forall>k old v. Validate l k v = None \<and> (\<forall>w. old = Some w \<longrightarrow> Select l k [v, w] = Inr 0) \<longrightarrow> acc k old v)"

text \<open>A DHT that behaves exactly so.\<close>

definition libp2p_accept :: "dns_lib \<Rightarrow> dht_accept" where
  "libp2p_accept l k old v \<longleftrightarrow>
     Validate l k v = None \<and> (case old of None \<Rightarrow> True | Some w \<Rightarrow> v = w \<or> Select l k [v, w] = Inr 0)"

lemma libp2p_accept_takes: "takes_only_selected l (libp2p_accept l)" "takes_selected l (libp2p_accept l)"
  by (auto simp: takes_only_selected_def takes_selected_def libp2p_accept_def split: option.splits)

lemma dht_run_append: "dht_run l acc (xs @ ys) st = dht_run l acc ys (dht_run l acc xs st)"
  by (induction xs arbitrary: st) auto

lemma put_records_append:
  "put_records l acc (xs @ ys) st = put_records l acc xs st @ put_records l acc ys (dht_run l acc xs st)"
  by (induction xs arbitrary: st) auto

section \<open>What the validator guards\<close>

text \<open>Between a new and an old value the validator picks the new one unless the old one is newer.\<close>

lemma Select_pair:
  assumes "j_unmarshal l v = Inr r" "j_unmarshal l w = Inr x"
  shows "Select l k [v, w] = Inr 0 \<longleftrightarrow> Timestamp x \<le> Timestamp r"
  using assms by (auto simp: Select_def)

lemma Validate_iff:
  "Validate l k v = None \<longleftrightarrow> v \<noteq> [] \<and> (\<exists>r. j_unmarshal l v = Inr r \<and> Signature r \<noteq> '''')"
  by (auto simp: Validate_def split: sum.splits)

lemma Select_undecoded:
  assumes "j_unmarshal l v = Inr r" "j_unmarshal l w = Inl e"
  shows "Select l k [v, w] = Inr 0"
  using assms by (simp add: Select_def)

section \<open>Single operations\<close>

text \<open>What an operation has put, when it succeeds.\<close>

definition put_of :: "dht_store \<Rightarrow> dns_lib \<Rightarrow> dns_node \<Rightarrow> name_op \<Rightarrow> int \<Rightarrow> int \<Rightarrow> string \<Rightarrow> dns_rec \<Rightarrow> bool" where
  "put_of st l nd op t t2 k r \<longleftrightarrow>
     (\<exists>norm priv r0. NormalizeName (op_name op) = Inr norm \<and> k = DHTKey norm \<and> dn_key nd = Some priv \<and>
        Sign l priv r0 = Inr r \<and> Owner r0 = dn_id nd \<and> Timestamp r0 \<in> {unix t, unix t2} \<and>
        (Name r0 = norm \<or> (\<exists>v x. st k = Some v \<and> j_unmarshal l v = Inr x \<and> Name r0 = Name x)))"

lemma put_ofI:
  assumes "NormalizeName (op_name op) = Inr norm" "sign_and_put l (dht_env acc st nd t t2) wrap norm r0 = (None, Some (k, r))"
    and "Owner r0 = dn_id nd" "Timestamp r0 \<in> {unix t, unix t2}"
    and "Name r0 = norm \<or> (\<exists>v x. st (DHTKey norm) = Some v \<and> j_unmarshal l v = Inr x \<and> Name r0 = Name x)"
  shows "put_of st l nd op t t2 k r"
  using sign_and_put_ok [OF assms(2)] assms(1,3-5) unfolding put_of_def dht_env_simps by blast

lemma Register_put:
  "Register l (NewNameSystem True True) (dht_env acc st nd t t2) name addrs ttl = (None, Some (k, r)) \<Longrightarrow>
     put_of st l nd (RegisterName name addrs ttl) t t2 k r"
  by (auto simp: Register_def op_name_def NewNameSystem_def Let_def split: if_splits sum.splits intro: put_ofI)

lemma Unregister_put:
  "Unregister l (NewNameSystem True True) (dht_env acc st nd t t2) name = (None, Some (k, r)) \<Longrightarrow>
     put_of st l nd (UnregisterName name) t t2 k r"
  by (auto simp: Unregister_def op_name_def NewNameSystem_def Let_def split: if_splits sum.splits intro: put_ofI)

lemma Refresh_put:
  "Refresh l (NewNameSystem True True) (dht_env acc st nd t t2) name = (None, Some (k, r)) \<Longrightarrow>
     put_of st l nd (RefreshName name) t t2 k r"
  by (auto simp: Refresh_def op_name_def NewNameSystem_def split: if_splits sum.splits option.splits elim!: put_ofI [rotated])

lemma run_op_put: "run_op l acc st nd op t t2 = (None, Some (k, r)) \<Longrightarrow> put_of st l nd op t t2 k r"
  by (auto simp: run_op_def Let_def Register_put Unregister_put Refresh_put split: name_op.splits)

text \<open>What it put was taken by the DHT.\<close>

lemma sign_and_put_taken:
  "sign_and_put l (dht_env acc st nd t t2) wrap norm r0 = (None, Some (k, r)) \<Longrightarrow> acc k (st k) (j_marshal l r)"
  by (auto simp: sign_and_put_def split: option.splits sum.splits if_splits)

lemma run_op_taken:
  assumes "run_op l acc st nd op t t2 = (None, Some (k, r))"
  shows "acc k (st k) (j_marshal l r)"
  using assms
  by (cases op)
    (auto simp: run_op_def Let_def Register_def Unregister_def Refresh_def split: if_splits sum.splits
      dest!: sign_and_put_taken)

text \<open>A name that is held by another owner refuses every operation.\<close>

definition held :: "dns_lib \<Rightarrow> dht_store \<Rightarrow> string \<Rightarrow> dns_rec \<Rightarrow> bool" where
  "held l st k r \<longleftrightarrow> (\<exists>v. st k = Some v \<and> v \<noteq> [] \<and> j_unmarshal l v = Inr r)"

lemma run_op_foreign:
  assumes "held l st (DHTKey norm) r" "NormalizeName (op_name op) = Inr norm"
    and "Owner r \<noteq> dn_id nd" "\<not> Expired r t2"
  shows "\<exists>e. run_op l acc st nd op t t2 = (Some e, None)"
  using assms
  by (cases op)
    (auto simp: run_op_def op_name_def Let_def Register_def Unregister_def Refresh_def NewNameSystem_def held_def)

lemma DHTKey_inj: "DHTKey a = DHTKey b \<longleftrightarrow> a = b"
  by (simp add: DHTKey_def)

lemma dht_step_other:
  assumes "held l st (DHTKey norm) r" "Owner r \<noteq> dn_id nd" "\<not> Expired r t2"
  shows "dht_step l acc (NodeOp nd op t t2) st (DHTKey norm) = st (DHTKey norm)"
proof -
  have "k \<noteq> DHTKey norm" if p: "run_op l acc st nd op t t2 = (None, Some (k, x))" for k x
  proof
    assume k: "k = DHTKey norm"
    with run_op_put [OF p] have "NormalizeName (op_name op) = Inr norm" by (auto simp: put_of_def DHTKey_inj)
    from run_op_foreign [OF assms(1) this assms(2,3), of acc t] p show False by auto
  qed
  then show ?thesis by (auto split: option.splits prod.splits)
qed

section \<open>Runs\<close>

text \<open>The stored record of a key, in any run, gives way only to one that is not older.\<close>

lemma taken_not_older:
  assumes "takes_only_selected l acc" "acc k (Some w) v" "j_unmarshal l w = Inr x"
  shows "\<exists>r. v \<noteq> [] \<and> j_unmarshal l v = Inr r \<and> Signature r \<noteq> '''' \<and> Timestamp x \<le> Timestamp r"
proof -
  from assms(1,2) have a: "Validate l k v = None" "v = w \<or> Select l k [v, w] = Inr 0"
    by (auto simp: takes_only_selected_def)
  from a(1) obtain r where r: "v \<noteq> []" "j_unmarshal l v = Inr r" "Signature r \<noteq> ''''" unfolding Validate_iff by blast
  with a(2) assms(3) Select_pair [OF r(2) assms(3), of k] show ?thesis by auto
qed

lemma dht_step_not_older:
  assumes "takes_only_selected l acc" "held l st k r"
  shows "\<exists>r'. held l (dht_step l acc ev st) k r' \<and> Timestamp r \<le> Timestamp r'"
proof (cases "dht_step l acc ev st k = st k")
  case True
  with assms(2) show ?thesis by (auto simp: held_def)
next
  case False
  then obtain v where v: "acc k (st k) v" "dht_step l acc ev st k = Some v"
    by (cases ev) (auto split: option.splits prod.splits if_splits dest: run_op_taken)
  from assms(2) obtain w where w: "st k = Some w" "j_unmarshal l w = Inr r" by (auto simp: held_def)
  from taken_not_older [OF assms(1) _ w(2)] v w(1) show ?thesis by (auto simp: held_def)
qed

lemma dht_run_not_older:
  "takes_only_selected l acc \<Longrightarrow> held l st k r \<Longrightarrow> \<exists>r'. held l (dht_run l acc evs st) k r' \<and> Timestamp r \<le> Timestamp r'"
proof (induction evs arbitrary: st r)
  case (Cons ev evs)
  from dht_step_not_older [OF Cons.prems] obtain r1 where "held l (dht_step l acc ev st) k r1" "Timestamp r \<le> Timestamp r1"
    by blast
  with Cons.IH [OF Cons.prems(1)] show ?case by (fastforce intro: order_trans)
qed auto

text \<open>While a record has not expired, the operations of nodes other than its owner leave it in place.\<close>

definition others_while :: "dns_rec \<Rightarrow> dht_event list \<Rightarrow> bool" where
  "others_while r evs \<longleftrightarrow>
     list_all (\<lambda>ev. case ev of NodeOp nd op t t2 \<Rightarrow> Owner r \<noteq> dn_id nd \<and> \<not> Expired r t2 | PeerPut k v \<Rightarrow> False) evs"

lemma dht_run_others:
  "held l st (DHTKey norm) r \<Longrightarrow> others_while r evs \<Longrightarrow> dht_run l acc evs st (DHTKey norm) = st (DHTKey norm)"
proof (induction evs arbitrary: st)
  case (Cons ev evs)
  then obtain nd op t t2 where ev: "ev = NodeOp nd op t t2" "Owner r \<noteq> dn_id nd" "\<not> Expired r t2"
    by (auto simp: others_while_def split: dht_event.splits)
  from dht_step_other [OF Cons.prems(1) ev(2,3)] have
    s: "dht_step l acc ev st (DHTKey norm) = st (DHTKey norm)" unfolding ev(1) .
  then have "held l (dht_step l acc ev st) (DHTKey norm) r" using Cons.prems(1) by (simp add: held_def)
  from Cons.IH [OF this] Cons.prems(2) s show ?case by (simp add: others_while_def)
qed simp

text \<open>What a node that has not cached the name gets from the store.\<close>

lemma resolve_stored:
  assumes "ns_dht ns" "NormalizeName name = Inr norm" "ns_cache ns norm = None \<or> bypass"
    and "st (DHTKey norm) = Some v"
  shows "fst (Resolve l bypass (dht_env acc st nd t t2) name ns) =
    (case usable l t v of
       None \<Rightarrow> Inl (Err msg_not_found)
     | Some r \<Rightarrow>
         if parse_addrs l (Addrs r) = [] then Inl (Err (''dns: no valid addresses in record for '' @ go_quote name))
         else Inr (parse_addrs l (Addrs r)))"
  using assms by (auto simp: Resolve_uncached resolve_dht_def Let_def split: option.splits)

lemma resolve_empty:
  assumes "ns_dht ns" "NormalizeName name = Inr norm" "ns_cache ns norm = None \<or> bypass" "st (DHTKey norm) = None"
  shows "fst (Resolve l bypass (dht_env acc st nd t t2) name ns) = Inl (Err msg_not_found)"
  using assms by (auto simp: Resolve_uncached resolve_dht_def)

section \<open>Authentic names\<close>

text \<open>A node whose key signs, and whose identity leads everyone to the public key.\<close>

definition node_ok :: "dns_lib \<Rightarrow> dns_node \<Rightarrow> bool" where
  "node_ok l nd \<longleftrightarrow>
     (\<exists>priv pub p. dn_key nd = Some priv \<and> dns_lib_ok l priv pub \<and> p_decode l (dn_id nd) = Inr p \<and>
        p_pubkey l p = Inr (Some pub))"

definition authentic :: "dns_lib \<Rightarrow> string set \<Rightarrow> string \<Rightarrow> bytes \<Rightarrow> bool" where
  "authentic l ids k v \<longleftrightarrow>
     v \<noteq> [] \<and> (\<exists>r p pub. j_unmarshal l v = Inr r \<and> k = DHTKey (Name r) \<and> Owner r \<in> ids \<and>
       p_decode l (Owner r) = Inr p \<and> p_pubkey l p = Inr (Some pub) \<and> Verify l pub r = None)"

definition honest :: "dns_lib \<Rightarrow> string set \<Rightarrow> dht_event list \<Rightarrow> bool" where
  "honest l ids evs \<longleftrightarrow>
     list_all (\<lambda>ev. case ev of NodeOp nd op t t2 \<Rightarrow> node_ok l nd \<and> dn_id nd \<in> ids | PeerPut k v \<Rightarrow> False) evs"

lemma authentic_put:
  assumes "put_of st l nd op t t2 k r" "node_ok l nd" "dn_id nd \<in> ids" "json_ok l r"
    and "\<And>k v. st k = Some v \<Longrightarrow> authentic l ids k v"
  shows "authentic l ids k (j_marshal l r)"
proof -
  from assms(1) obtain norm priv r0 where r0: "k = DHTKey norm" "dn_key nd = Some priv" "Sign l priv r0 = Inr r"
    "Owner r0 = dn_id nd"
    "Name r0 = norm \<or> (\<exists>v x. st k = Some v \<and> j_unmarshal l v = Inr x \<and> Name r0 = Name x)"
    by (auto simp: put_of_def)
  from assms(2) r0(2) obtain pub p where pub: "dns_lib_ok l priv pub" "p_decode l (dn_id nd) = Inr p"
    "p_pubkey l p = Inr (Some pub)" by (auto simp: node_ok_def)
  from Sign_verifies [OF pub(1) r0(3)] have s: "Verify l pub r = None" "Name r = Name r0" "Owner r = dn_id nd"
    using r0(4) by auto
  have "Name x = norm" if "st k = Some v" "j_unmarshal l v = Inr x" for v x
    using assms(5) [OF that(1)] that(2) r0(1) by (auto simp: authentic_def DHTKey_inj)
  with r0(1,5) s(2) have "k = DHTKey (Name r)" by auto
  with s pub assms(3,4) show ?thesis by (auto simp: authentic_def json_ok_def)
qed

lemma dht_run_authentic:
  "honest l ids evs \<Longrightarrow> \<forall>r\<in>set (put_records l acc evs st). json_ok l r \<Longrightarrow> (\<And>k v. st k = Some v \<Longrightarrow> authentic l ids k v) \<Longrightarrow>
     dht_run l acc evs st k = Some v \<Longrightarrow> authentic l ids k v"
proof (induction evs arbitrary: st)
  case (Cons ev evs)
  then obtain nd op t t2 where ev: "ev = NodeOp nd op t t2" "node_ok l nd" "dn_id nd \<in> ids"
    by (auto simp: honest_def split: dht_event.splits)
  have "authentic l ids k' v'" if s: "dht_step l acc ev st k' = Some v'" for k' v'
  proof (cases "st k' = Some v'")
    case True
    then show ?thesis by (rule Cons.prems(3))
  next
    case False
    with s obtain r where r: "run_op l acc st nd op t t2 = (None, Some (k', r))" "v' = j_marshal l r"
      by (auto simp: ev(1) split: option.splits prod.splits if_splits)
    with Cons.prems(2) ev(1) have "json_ok l r" by simp
    from authentic_put [OF run_op_put [OF r(1)] ev(2,3) this Cons.prems(3)] r(2) show ?thesis by simp
  qed
  with Cons show ?case by (auto simp: honest_def)
qed simp

lemma usable_authentic:
  assumes "authentic l ids k v"
  shows "\<exists>r. j_unmarshal l v = Inr r \<and> k = DHTKey (Name r) \<and> Owner r \<in> ids \<and>
    usable l t v = (if Expired r t then None else Some r)"
  using assms by (auto simp: authentic_def usable_def)

section \<open>Properties\<close>

text \<open>
  C10: honest nodes make honest names. In every run of the operations of nodes whose keys are known,
  starting from an empty DHT, whatever these nodes register, refresh and withdraw and in whatever
  order, a node that has not cached a name gets as answer the addresses of a record that one of the
  nodes has signed for this very name and that has not expired, or no answer: there is no record, or
  it has expired, or none of its addresses can be read.
\<close>

theorem names_authentic:
  assumes "honest l ids evs" "\<forall>r\<in>set (put_records l acc evs (\<lambda>_. None)). json_ok l r"
    and "ns_dht ns" "NormalizeName name = Inr norm" "ns_cache ns norm = None \<or> bypass"
  shows "case fst (Resolve l bypass (dht_env acc (dht_run l acc evs (\<lambda>_. None)) nd t t2) name ns) of
      Inr addrs \<Rightarrow> \<exists>v r p pub. dht_run l acc evs (\<lambda>_. None) (DHTKey norm) = Some v \<and> j_unmarshal l v = Inr r \<and>
        Name r = norm \<and> Owner r \<in> ids \<and> p_decode l (Owner r) = Inr p \<and> p_pubkey l p = Inr (Some pub) \<and>
        Verify l pub r = None \<and> \<not> Expired r t \<and> addrs = parse_addrs l (Addrs r)
    | Inl e \<Rightarrow> dht_run l acc evs (\<lambda>_. None) (DHTKey norm) = None \<or>
        (\<exists>v r. dht_run l acc evs (\<lambda>_. None) (DHTKey norm) = Some v \<and> j_unmarshal l v = Inr r \<and>
           (Expired r t \<or> parse_addrs l (Addrs r) = []))"
proof (cases "dht_run l acc evs (\<lambda>_. None) (DHTKey norm)")
  case None
  from resolve_empty [where st = "dht_run l acc evs (\<lambda>_. None)", OF assms(3-5) this] None show ?thesis by simp
next
  case (Some v)
  from dht_run_authentic [OF assms(1,2) _ Some] have a: "authentic l ids (DHTKey norm) v" by simp
  from a obtain r p pub where r: "j_unmarshal l v = Inr r" "Name r = norm" "Owner r \<in> ids" "p_decode l (Owner r) = Inr p"
    "p_pubkey l p = Inr (Some pub)" "Verify l pub r = None" by (auto simp: authentic_def DHTKey_inj)
  from usable_authentic [OF a, of t] r(1) have u: "usable l t v = (if Expired r t then None else Some r)" by auto
  note s = resolve_stored [where st = "dht_run l acc evs (\<lambda>_. None)", OF assms(3-5) Some, of l acc nd t t2]
  show ?thesis
  proof (cases "Expired r t \<or> parse_addrs l (Addrs r) = []")
    case True
    with r(1) Some show ?thesis unfolding s u by auto
  next
    case False
    with r Some show ?thesis unfolding s u by auto
  qed
qed

text \<open>
  A registered name is held until it expires. Once \<open>Register\<close> has succeeded, no operation of
  another node on that name succeeds, and none on any name changes the record, until its time to live
  is over; and every node that has not cached the name resolves it to the registered addresses.
\<close>

theorem registered_name_held:
  assumes reg: "run_op l acc st owner (RegisterName name addrs ttl) t t2 = (None, Some (k, r))"
    and pub: "published_by l priv pub (dht_env acc st owner t t2) addrs ttl r"
    and evs: "list_all (\<lambda>ev. case ev of NodeOp nd op u u2 \<Rightarrow> dn_id nd \<noteq> dn_id owner \<and> unix u2 \<le> unix t + ttl_seconds ttl
      | PeerPut _ _ \<Rightarrow> False) evs"
    and rd: "ns_dht ns" "ns_cache ns norm = None \<or> bypass" "NormalizeName name = Inr norm"
      "unix u \<le> unix t + ttl_seconds ttl"
    and st': "st' = dht_run l acc (NodeOp owner (RegisterName name addrs ttl) t t2 # evs) st"
  shows "fst (Resolve l bypass (dht_env acc st' nd u u2) name ns) = Inr addrs \<and>
    (\<forall>nd op v v2. dn_id nd \<noteq> dn_id owner \<and> NormalizeName (op_name op) = Inr norm \<and> unix v2 \<le> unix t + ttl_seconds ttl \<longrightarrow>
       (\<exists>e. run_op l acc st' nd op v v2 = (Some e, None)))"
proof -
  from reg have reg': "Register l (NewNameSystem True True) (dht_env acc st owner t t2) name addrs ttl = (None, Some (k, r))"
    by (simp add: run_op_def Let_def)
  from Register_ok [OF reg'] pub rd(3) obtain r0 where
    r0: "k = DHTKey norm" "Sign l priv r0 = Inr r" "r0 = \<lparr>Name = norm, Owner = dn_id owner, Addrs = addrs, TTL = ttl_seconds ttl,
      Timestamp = unix t, Signature = ''''\<rparr>" "addrs \<noteq> []" by (auto simp: published_by_def)
  with pub Sign_verifies [of l priv pub r0 r] have f: "Owner r = dn_id owner" "Addrs r = addrs" "TTL r = ttl_seconds ttl"
    "Timestamp r = unix t" by (auto simp: published_by_def)
  have unexp: "\<not> Expired r v" if "unix v \<le> unix t + ttl_seconds ttl" for v
    using f pub that by (simp add: Expired_def published_by_def)
  define st1 where "st1 = st(DHTKey norm \<mapsto> j_marshal l r)"
  have h1: "held l st1 (DHTKey norm) r" using pub by (auto simp: held_def st1_def published_by_def json_ok_def)
  have s': "st' = dht_run l acc evs st1" using reg r0(1) by (simp add: st' st1_def)
  have "others_while r evs"
    using evs unexp f(1) by (auto simp: others_while_def list_all_iff split: dht_event.splits)
  from dht_run_others [OF h1 this, of acc] have keep: "st' (DHTKey norm) = Some (j_marshal l r)" by (simp add: s' st1_def)
  then have h': "held l st' (DHTKey norm) r" using h1 by (simp add: held_def st1_def)
  have "usable l u (j_marshal l r) = Some r"
    using usable_registered [of l priv pub r r0] pub r0(2) f(1) unexp [OF rd(4)] by (auto simp: published_by_def)
  moreover have "parse_addrs l (Addrs r) = addrs" using pub f parse_addrs_all [of addrs l] by (simp add: published_by_def)
  ultimately have "fst (Resolve l bypass (dht_env acc st' nd u u2) name ns) = Inr addrs"
    using resolve_stored [where st = st' and acc = acc and nd = nd and t = u and ?t2.0 = u2, OF rd(1,3,2) keep] r0(4) by simp
  moreover have "\<exists>e. run_op l acc st' nd' op v v2 = (Some e, None)"
    if "dn_id nd' \<noteq> dn_id owner \<and> NormalizeName (op_name op) = Inr norm \<and> unix v2 \<le> unix t + ttl_seconds ttl" for nd' op v v2
    by (rule run_op_foreign [OF h']) (use that f(1) unexp in \<open>simp_all add: eq_commute\<close>)
  ultimately show ?thesis by blast
qed

text \<open>
  C23: a name is not protected against a direct put. The validator of the DHT checks neither the owner
  nor the signature of a record, only that it has one, and prefers the later time: a record that any
  peer puts, made up for any owner and not older than the registered one, replaces it. From then on
  the operations of all other nodes on that name, the owner's among them, fail until the time to
  live in the made-up record is over, and the name resolves to that record's addresses when its
  signature is one of the owner it names, and not at all when it is not.
\<close>

theorem put_takes_name_over:
  assumes "takes_selected l acc" "held l st (DHTKey norm) r"
    and "v \<noteq> []" "j_unmarshal l v = Inr f" "Signature f \<noteq> ''''" "Timestamp r \<le> Timestamp f"
    and "others_while f evs"
    and "ns_dht ns" "NormalizeName name = Inr norm" "ns_cache ns norm = None \<or> bypass"
    and "st' = dht_run l acc (PeerPut (DHTKey norm) v # evs) st"
  shows "(\<forall>nd op u u2. Owner f \<noteq> dn_id nd \<and> \<not> Expired f u2 \<and> NormalizeName (op_name op) = Inr norm \<longrightarrow>
       (\<exists>e. run_op l acc st' nd op u u2 = (Some e, None))) \<and>
    fst (Resolve l bypass (dht_env acc st' nd t t2) name ns) =
      (case usable l t v of
         None \<Rightarrow> Inl (Err msg_not_found)
       | Some x \<Rightarrow>
           if parse_addrs l (Addrs x) = [] then Inl (Err (''dns: no valid addresses in record for '' @ go_quote name))
           else Inr (parse_addrs l (Addrs x)))"
proof -
  from assms(2) obtain w where w: "st (DHTKey norm) = Some w" "j_unmarshal l w = Inr r" by (auto simp: held_def)
  have "Validate l (DHTKey norm) v = None" using assms(3-5) by (simp add: Validate_iff)
  moreover have "Select l (DHTKey norm) [v, w] = Inr 0" using Select_pair [OF assms(4) w(2)] assms(6) by simp
  ultimately have "acc (DHTKey norm) (st (DHTKey norm)) v" using assms(1) w(1) by (simp add: takes_selected_def)
  then have s: "st' = dht_run l acc evs (st(DHTKey norm \<mapsto> v))" by (simp add: assms(11))
  have h: "held l (st(DHTKey norm \<mapsto> v)) (DHTKey norm) f" using assms(3,4) by (simp add: held_def)
  from dht_run_others [OF h assms(7), of acc] have k: "st' (DHTKey norm) = Some v" by (simp add: s)
  then have h': "held l st' (DHTKey norm) f" using assms(3,4) by (simp add: held_def)
  note res = resolve_stored [where st = st' and acc = acc and nd = nd and t = t and ?t2.0 = t2, OF assms(8-10) k, of l]
  show ?thesis
  proof (rule conjI; (intro allI impI)?)
    fix nd' :: dns_node and op u u2
    assume "Owner f \<noteq> dn_id nd' \<and> \<not> Expired f u2 \<and> NormalizeName (op_name op) = Inr norm"
    then show "\<exists>e. run_op l acc st' nd' op u u2 = (Some e, None)" by (intro run_op_foreign [OF h']) simp_all
  qed (rule res)
qed

text \<open>
  What the DHT holds for a name never gets older. In every run, the puts of arbitrary peers
  included, a key that holds a decodable record keeps holding one, and its timestamp never decreases.
\<close>

theorem names_never_older:
  assumes "takes_only_selected l acc" "held l st k r"
  shows "\<exists>v r'. dht_run l acc evs st k = Some v \<and> v \<noteq> [] \<and> j_unmarshal l v = Inr r' \<and> Timestamp r \<le> Timestamp r'"
  using dht_run_not_older [OF assms, of evs] by (auto simp: held_def)

section \<open>Runs at concrete inputs\<close>

definition wit_nodeA :: dns_node where
  "wit_nodeA = \<lparr>dn_id = ''peerA'', dn_key = Some ''k'', dn_addrs = [''/ip4/1.2.3.4'']\<rparr>"

definition wit_nodeB :: dns_node where
  "wit_nodeB = \<lparr>dn_id = ''peerB'', dn_key = Some ''k'', dn_addrs = [''/ip4/5.6.7.8'']\<rparr>"

abbreviation wit_acc :: dht_accept where
  "wit_acc \<equiv> libp2p_accept wit_lib"

lemma wit_rec_put: "Validate wit_lib k ''1'' = None" "j_marshal wit_lib wit_rec = ''1''" "j_unmarshal wit_lib ''1'' = Inr wit_rec"
  by (auto simp: Validate_iff wit_lib_def wit_rec_def)

lemma wit_run_register:
  "run_op wit_lib wit_acc (\<lambda>_. None) wit_nodeA (RegisterName ''node1'' [''/ip4/1.2.3.4''] (3600 * Second)) (1000 * Second) (1000 * Second) =
     (None, Some (DHTKey ''node1'', wit_rec))"
proof -
  have s: "Sign wit_lib ''k'' \<lparr>Name = ''node1'', Owner = ''peerA'', Addrs = [''/ip4/1.2.3.4''], TTL = 3600, Timestamp = 1000,
      Signature = ''''\<rparr> = Inr wit_rec"
    by (simp add: Sign_def wit_lib_def signablePayload_def wit_rec_def)
  have u: "ttl_seconds (3600 * Second) = 3600" "unix (1000 * Second) = 1000" "\<not> Second \<le> 0"
    by (simp_all add: ttl_seconds_def unix_def Second_def)
  show ?thesis
    using wit_rec_put by (simp add: run_op_def Register_def NewNameSystem_def wit_names(1) sign_and_put_def s u wit_nodeA_def
        libp2p_accept_def Let_def)
qed

lemma wit_first:
  "dht_run wit_lib wit_acc [NodeOp wit_nodeA (RegisterName ''node1'' [''/ip4/1.2.3.4''] (3600 * Second)) (1000 * Second) (1000 * Second)]
     (\<lambda>_. None) = [DHTKey ''node1'' \<mapsto> ''1'']"
  by (simp add: wit_run_register wit_rec_put)

lemma names_authentic_witness:
  "case fst (Resolve wit_lib False (dht_env wit_acc (dht_run wit_lib wit_acc
        [NodeOp wit_nodeA (RegisterName ''node1'' [''/ip4/1.2.3.4''] (3600 * Second)) (1000 * Second) (1000 * Second)] (\<lambda>_. None))
        wit_nodeB (1500 * Second) (1500 * Second)) ''node1'' (NewNameSystem True True)) of
      Inr addrs \<Rightarrow> addrs = [''/ip4/1.2.3.4''] | Inl e \<Rightarrow> False"
proof -
  let ?evs = "[NodeOp wit_nodeA (RegisterName ''node1'' [''/ip4/1.2.3.4''] (3600 * Second)) (1000 * Second) (1000 * Second)]"
  have ok: "node_ok wit_lib wit_nodeA"
    using wit_lib_ok(1) by (auto simp: node_ok_def wit_nodeA_def) (simp add: wit_lib_def)
  have h: "honest wit_lib {''peerA''} ?evs" using ok by (simp add: honest_def) (simp add: wit_nodeA_def)
  have j: "\<forall>r\<in>set (put_records wit_lib wit_acc ?evs (\<lambda>_. None)). json_ok wit_lib r"
    using wit_lib_ok(2) by (simp add: wit_run_register)
  have n: "ns_dht (NewNameSystem True True)" "ns_cache (NewNameSystem True True) ''node1'' = None \<or> False"
    by (simp_all add: NewNameSystem_def)
  have e: "\<not> Expired wit_rec (1500 * Second)" "parse_addrs wit_lib (Addrs wit_rec) = [''/ip4/1.2.3.4'']"
    by (simp add: Expired_def wit_fields unix_def Second_def in_int64_def) (simp add: wit_lib_def wit_rec_def)
  show ?thesis
    using names_authentic [OF h j n(1) wit_names(1) n(2), where nd = wit_nodeB and t = "1500 * Second" and ?t2.0 = "1500 * Second"]
      e wit_rec_put(3)
    unfolding wit_first by (auto split: sum.splits)
qed

lemma registered_name_held_witness:
  "fst (Resolve wit_lib False (dht_env wit_acc [DHTKey ''node1'' \<mapsto> ''1''] wit_nodeB (1500 * Second) (1500 * Second)) ''node1''
     (NewNameSystem True True)) = Inr [''/ip4/1.2.3.4''] \<and>
   (\<exists>e. run_op wit_lib wit_acc [DHTKey ''node1'' \<mapsto> ''1''] wit_nodeB
      (RegisterName ''node1'' [''/ip4/5.6.7.8''] Second) (1500 * Second) (1500 * Second) = (Some e, None))"
proof -
  let ?op = "RegisterName ''node1'' [''/ip4/1.2.3.4''] (3600 * Second)"
  have p: "published_by wit_lib ''k'' ''k'' (dht_env wit_acc (\<lambda>_. None) wit_nodeA (1000 * Second) (1000 * Second))
      [''/ip4/1.2.3.4''] (3600 * Second) wit_rec"
    using wit_lib_ok by (simp add: published_by_def wit_nodeA_def)
      (simp add: wit_lib_def ttl_seconds_def unix_def Second_def in_int64_def)
  have u: "unix (1500 * Second) \<le> unix (1000 * Second) + ttl_seconds (3600 * Second)"
    by (simp add: unix_def Second_def ttl_seconds_def)
  have n: "ns_dht (NewNameSystem True True)" "ns_cache (NewNameSystem True True) ''node1'' = None \<or> False"
    by (simp_all add: NewNameSystem_def)
  have b: "list_all (\<lambda>ev. case ev of NodeOp nd op u u2 \<Rightarrow> dn_id nd \<noteq> dn_id wit_nodeA \<and>
        unix u2 \<le> unix (1000 * Second) + ttl_seconds (3600 * Second) | PeerPut _ _ \<Rightarrow> False)
      [NodeOp wit_nodeB (UnregisterName ''node1'') (1500 * Second) (1500 * Second)]"
    using u by (simp add: wit_nodeA_def wit_nodeB_def)
  have h: "held wit_lib [DHTKey ''node1'' \<mapsto> ''1''] (DHTKey ''node1'') wit_rec" by (simp add: held_def wit_rec_put)
  have x: "Owner wit_rec \<noteq> dn_id wit_nodeB" "\<not> Expired wit_rec (1500 * Second)"
    by (simp add: wit_fields wit_nodeB_def, simp add: Expired_def wit_fields unix_def Second_def in_int64_def)
  obtain e where "run_op wit_lib wit_acc [DHTKey ''node1'' \<mapsto> ''1''] wit_nodeB (UnregisterName ''node1'') (1500 * Second)
      (1500 * Second) = (Some e, None)"
    using run_op_foreign [OF h _ x, of "UnregisterName ''node1''"] wit_names(1) by (auto simp: op_name_def)
  then have st: "[DHTKey ''node1'' \<mapsto> ''1''] = dht_run wit_lib wit_acc (NodeOp wit_nodeA ?op (1000 * Second) (1000 * Second) #
      [NodeOp wit_nodeB (UnregisterName ''node1'') (1500 * Second) (1500 * Second)]) (\<lambda>_. None)"
    by (simp add: wit_run_register wit_rec_put)
  have d: "dn_id wit_nodeB \<noteq> dn_id wit_nodeA" by (simp add: wit_nodeA_def wit_nodeB_def)
  from registered_name_held [OF wit_run_register p b n(1,2) wit_names(1) u st, of wit_nodeB "1500 * Second"] d u
  show ?thesis by (auto simp: op_name_def wit_names(1))
qed

text \<open>A library that also decodes a record somebody made up.\<close>

definition wit_forged :: dns_rec where
  "wit_forged = wit_rec\<lparr>Owner := ''peerZ'', Timestamp := 2000, TTL := 1000000, Signature := ''x''\<rparr>"

definition wit_lib2 :: dns_lib where
  "wit_lib2 = wit_lib\<lparr>j_unmarshal := (\<lambda>d. if d = ''2'' then Inr wit_forged else j_unmarshal wit_lib d)\<rparr>"

lemma wit_forged_fields: "Owner wit_forged = ''peerZ''" "Timestamp wit_forged = 2000" "TTL wit_forged = 1000000" "Signature wit_forged = ''x''"
  by (simp_all add: wit_forged_def)

lemma wit_held2: "held wit_lib2 [DHTKey ''node1'' \<mapsto> ''1''] (DHTKey ''node1'') wit_rec"
  using wit_rec_put(3) by (simp add: held_def wit_lib2_def)

lemma put_takes_name_over_witness:
  "fst (Resolve wit_lib2 False (dht_env (libp2p_accept wit_lib2) (dht_run wit_lib2 (libp2p_accept wit_lib2)
     [PeerPut (DHTKey ''node1'') ''2''] [DHTKey ''node1'' \<mapsto> ''1'']) wit_nodeB (2500 * Second) (2500 * Second))
     ''node1'' (NewNameSystem True True)) = Inl (Err msg_not_found) \<and>
   (\<exists>e. run_op wit_lib2 (libp2p_accept wit_lib2) (dht_run wit_lib2 (libp2p_accept wit_lib2)
     [PeerPut (DHTKey ''node1'') ''2''] [DHTKey ''node1'' \<mapsto> ''1'']) wit_nodeA (RefreshName ''node1'') (2500 * Second) (2500 * Second) =
     (Some e, None))"
proof -
  have n: "ns_dht (NewNameSystem True True)" "ns_cache (NewNameSystem True True) ''node1'' = None \<or> False"
    by (simp_all add: NewNameSystem_def)
  have f: "j_unmarshal wit_lib2 ''2'' = Inr wit_forged" by (simp add: wit_lib2_def)
  have u: "usable wit_lib2 (2500 * Second) ''2'' = None"
    by (simp add: usable_def f wit_forged_fields) (simp add: wit_lib2_def wit_lib_def)
  have e: "\<not> Expired wit_forged (2500 * Second)" "Owner wit_forged \<noteq> dn_id wit_nodeA"
    by (simp add: Expired_def wit_forged_fields unix_def Second_def in_int64_def, simp add: wit_forged_fields wit_nodeA_def)
  have s: "Signature wit_forged \<noteq> ''''" "Timestamp wit_rec \<le> Timestamp wit_forged" by (simp_all add: wit_forged_fields wit_fields)
  have v: "''2'' \<noteq> ''''" "others_while wit_forged []" by (simp_all add: others_while_def)
  from put_takes_name_over [OF libp2p_accept_takes(2) wit_held2 v(1) f s v(2) n(1) wit_names(1) n(2) refl, where nd = wit_nodeB and t = "2500 * Second" and ?t2.0 = "2500 * Second"]
    u e wit_names(1)
  show ?thesis by (auto simp: op_name_def)
qed

lemma names_never_older_witness:
  "\<exists>v r'. dht_run wit_lib2 (libp2p_accept wit_lib2) [PeerPut (DHTKey ''node1'') ''0'', PeerPut (DHTKey ''node1'') ''2'']
     [DHTKey ''node1'' \<mapsto> ''1''] (DHTKey ''node1'') = Some v \<and> j_unmarshal wit_lib2 v = Inr r' \<and> 1000 \<le> Timestamp r'"
  using names_never_older [OF libp2p_accept_takes(1) wit_held2] unfolding wit_fields by blast

end
