(* ===== verification/NameRegister.thy ===== *)
theory NameRegister
  imports NameDht "HOL-Library.Multiset"
begin

text \<open>
  What the validator of \<open>hypernet/services/dns/dht_validator.go\<close> makes of the DHT: its selection is the
  first newest record, and a DHT that follows it is a register per key that the last writer wins,
  by the time in the record and not by the order of arrival.
\<close>

section \<open>The selection\<close>

definition stamp :: "dns_lib \<Rightarrow> bytes \<Rightarrow> int option" where
  "stamp l v = (case j_unmarshal l v of Inl e \<Rightarrow> None | Inr r \<Rightarrow> Some (Timestamp r))"

text \<open>The specification: the indices of the records no other record of the set is newer than.\<close>

definition is_newest :: "dns_lib \<Rightarrow> bytes list \<Rightarrow> bytes \<Rightarrow> bool" where
  "is_newest l vs v \<longleftrightarrow>
     (case stamp l v of
        None \<Rightarrow> False
      | Some t \<Rightarrow> list_all (\<lambda>w. case stamp l w of None \<Rightarrow> True | Some t' \<Rightarrow> t' \<le> t) vs)"

definition Select_spec :: "dns_lib \<Rightarrow> bytes list \<Rightarrow> err + nat" where
  "Select_spec l vs =
     (case filter (\<lambda>i. is_newest l vs (vs ! i)) [0..<length vs] of
        i # _ \<Rightarrow> Inr i
      | [] \<Rightarrow> Inl (Err (if vs = [] then ''dns: no values to select'' else ''dns: no valid record in set'')))"

lemma select_loop_append:
  "select_loop l i b (vs @ ws) = select_loop l (i + length vs) (select_loop l i b vs) ws"
  by (induction vs arbitrary: i b) (auto split: sum.split)

lemma select_loop_snoc:
  "select_loop l 0 None (vs @ [v]) =
     (case stamp l v of
        None \<Rightarrow> select_loop l 0 None vs
      | Some t \<Rightarrow> Some (case select_loop l 0 None vs of
                        None \<Rightarrow> (length vs, t)
                      | Some (b, ts) \<Rightarrow> if t > ts then (length vs, t) else (b, ts)))"
  by (auto simp: select_loop_append stamp_def split: sum.split option.split)

text \<open>The loop: the first index of the greatest time so far.\<close>

definition best_at :: "dns_lib \<Rightarrow> bytes list \<Rightarrow> (nat \<times> int) option \<Rightarrow> bool" where
  "best_at l vs r \<longleftrightarrow>
     (case r of
        None \<Rightarrow> \<forall>v\<in>set vs. stamp l v = None
      | Some (i, t) \<Rightarrow> i < length vs \<and> stamp l (vs ! i) = Some t \<and>
          (\<forall>j t'. j < length vs \<longrightarrow> stamp l (vs ! j) = Some t' \<longrightarrow> t' \<le> t \<and> (j < i \<longrightarrow> t' < t)))"

lemma select_loop_best: "best_at l vs (select_loop l 0 None vs)"
proof (induction vs rule: rev_induct)
  case Nil
  then show ?case by (simp add: best_at_def)
next
  case (snoc v vs)
  show ?case
  proof (cases "stamp l v")
    case None
    with snoc show ?thesis
      by (auto simp: select_loop_snoc best_at_def nth_append less_Suc_eq split: option.splits)
  next
    case (Some t)
    show ?thesis
    proof (cases "select_loop l 0 None vs")
      case None
      with snoc have "\<forall>j < length vs. stamp l (vs ! j) = None" by (simp add: best_at_def)
      with None Some show ?thesis
        by (auto simp: select_loop_snoc best_at_def nth_append less_Suc_eq)
    next
      case b: (Some r)
      then obtain i ts where r: "r = (i, ts)" by (cases r)
      with b snoc have "i < length vs" "stamp l (vs ! i) = Some ts"
        "\<And>j t'. j < length vs \<Longrightarrow> stamp l (vs ! j) = Some t' \<Longrightarrow> t' \<le> ts \<and> (j < i \<longrightarrow> t' < ts)"
        by (auto simp: best_at_def)
      with b r Some show ?thesis
        by (fastforce simp: select_loop_snoc best_at_def nth_append less_Suc_eq)
    qed
  qed
qed

text \<open>
  C20: the selection of the validator is its specification: of any set of values, the first of those
  records that no other record of the set is newer than; values that cannot be decoded are passed
  over, and without a record, or without a value, it is the error that says so.
\<close>

theorem select_first_newest: "Select l key vs = Select_spec l vs"
proof (cases "select_loop l 0 None vs")
  case None
  with select_loop_best [of l vs] have "\<forall>v\<in>set vs. stamp l v = None" by (simp add: best_at_def)
  then have "filter (\<lambda>i. is_newest l vs (vs ! i)) [0..<length vs] = []"
    by (auto simp: filter_empty_conv is_newest_def)
  with None show ?thesis by (simp add: Select_def Select_spec_def)
next
  case (Some r)
  then obtain i t where r: "r = (i, t)" by (cases r)
  from select_loop_best [of l vs] Some r have b: "i < length vs" "stamp l (vs ! i) = Some t"
    "\<And>j t'. j < length vs \<Longrightarrow> stamp l (vs ! j) = Some t' \<Longrightarrow> t' \<le> t \<and> (j < i \<longrightarrow> t' < t)"
    by (auto simp: best_at_def)
  have new: "is_newest l vs (vs ! i)"
    using b(2,3) by (fastforce simp: is_newest_def list_all_length split: option.split)
  have old: "\<not> is_newest l vs (vs ! j)" if j: "j < i" for j
  proof
    assume "is_newest l vs (vs ! j)"
    then obtain t' where "stamp l (vs ! j) = Some t'" "t \<le> t'"
      using b(1,2) by (fastforce simp: is_newest_def list_all_length split: option.splits)
    with b(1) b(3) [of j t'] j show False by simp
  qed
  have "[0..<length vs] = [0..<i] @ i # [Suc i..<length vs]"
    using b(1) upt_add_eq_append [of 0 i "length vs - i"] upt_conv_Cons [of i "length vs"] by simp
  moreover have "filter (\<lambda>i. is_newest l vs (vs ! i)) [0..<i] = []" using old by (auto simp: filter_empty_conv)
  ultimately have "filter (\<lambda>i. is_newest l vs (vs ! i)) [0..<length vs] =
      i # filter (\<lambda>i. is_newest l vs (vs ! i)) [Suc i..<length vs]" using new by simp
  then show ?thesis using Some r b(1) by (auto simp: Select_def Select_spec_def)
qed


section \<open>The DHT as a register\<close>

text \<open>
  The abstract store: per key the newest record written and its time. A write of an older record is
  without effect; among records of the same time the last one written stays.
\<close>

type_synonym register = "string \<Rightarrow> (int \<times> bytes) option"

definition write_newer :: "string \<times> int \<times> bytes \<Rightarrow> register \<Rightarrow> register" where
  "write_newer w reg =
     (case w of (k, t, v) \<Rightarrow>
        (case reg k of
           Some (t', v') \<Rightarrow> if t' \<le> t then reg(k \<mapsto> (t, v)) else reg
         | None \<Rightarrow> reg(k \<mapsto> (t, v))))"

definition register_of :: "dns_lib \<Rightarrow> dht_store \<Rightarrow> register" where
  "register_of l st = (\<lambda>k. case st k of None \<Rightarrow> None | Some v \<Rightarrow> map_option (\<lambda>t. (t, v)) (stamp l v))"

text \<open>Every value the DHT holds is a record with a time.\<close>

definition stamped :: "dns_lib \<Rightarrow> dht_store \<Rightarrow> bool" where
  "stamped l st \<longleftrightarrow> (\<forall>k v. st k = Some v \<longrightarrow> stamp l v \<noteq> None)"

definition write_of :: "dns_lib \<Rightarrow> string \<Rightarrow> bytes \<Rightarrow> (string \<times> int \<times> bytes) list" where
  "write_of l k v =
     (if Validate l k v \<noteq> None then [] else case stamp l v of None \<Rightarrow> [] | Some t \<Rightarrow> [(k, t, v)])"

text \<open>What an event writes: a put its record, an operation of a node the record it published.\<close>

definition writes_of :: "dns_lib \<Rightarrow> dht_event \<Rightarrow> dht_store \<Rightarrow> (string \<times> int \<times> bytes) list" where
  "writes_of l ev st =
     (case ev of
        PeerPut k v \<Rightarrow> write_of l k v
      | NodeOp nd op t t2 \<Rightarrow>
          (case run_op l (libp2p_accept l) st nd op t t2 of
             (None, Some (k, r)) \<Rightarrow> write_of l k (j_marshal l r)
           | _ \<Rightarrow> []))"

lemma Validate_stamp: "Validate l k v = None \<Longrightarrow> \<exists>t. stamp l v = Some t"
  by (auto simp: Validate_iff stamp_def)

lemma accept_stamps:
  assumes "stamp l w = Some t'"
  shows "libp2p_accept l k (Some w) v \<longleftrightarrow> Validate l k v = None \<and> (\<forall>t. stamp l v = Some t \<longrightarrow> t' \<le> t)"
proof -
  from assms obtain x where x: "j_unmarshal l w = Inr x" "t' = Timestamp x" by (auto simp: stamp_def split: sum.splits)
  have "v = w \<or> Select l k [v, w] = Inr 0 \<longleftrightarrow> Timestamp x \<le> Timestamp r" if "j_unmarshal l v = Inr r" for r
    using Select_pair [OF that x(1)] that x(1) by auto
  then show ?thesis using x(2) by (auto simp: libp2p_accept_def Validate_iff stamp_def)
qed

lemma put_refines:
  assumes "stamped l st"
  shows "(if libp2p_accept l k (st k) v then register_of l (st(k \<mapsto> v)) else register_of l st) =
    fold write_newer (write_of l k v) (register_of l st)"
proof (cases "Validate l k v = None")
  case False
  then show ?thesis by (auto simp: libp2p_accept_def write_of_def)
next
  case True
  from Validate_stamp [OF this] obtain t where t: "stamp l v = Some t" ..
  have upd: "register_of l (st(k \<mapsto> v)) = (register_of l st)(k \<mapsto> (t, v))"
    using t by (auto simp: register_of_def)
  show ?thesis
  proof (cases "st k")
    case None
    with True t upd show ?thesis by (simp add: libp2p_accept_def write_of_def write_newer_def register_of_def)
  next
    case (Some w)
    with assms obtain t' where "stamp l w = Some t'" by (fastforce simp: stamped_def)
    with Some True t upd accept_stamps [of l w t' k v] show ?thesis
      by (simp add: write_of_def write_newer_def register_of_def)
  qed
qed

lemma step_as_put:
  "run_op l acc st nd op t t2 = (None, Some (k, r)) \<Longrightarrow>
     dht_step l acc (NodeOp nd op t t2) st = dht_step l acc (PeerPut k (j_marshal l r)) st"
  by (auto dest: run_op_taken)

lemma step_stamped:
  assumes "stamped l st"
  shows "stamped l (dht_step l (libp2p_accept l) ev st)"
proof -
  have "\<exists>t. stamp l v = Some t" if "dht_step l (libp2p_accept l) ev st k = Some v" "st k \<noteq> Some v" for k v
  proof -
    from that have "\<exists>old. libp2p_accept l k old v"
      by (cases ev) (auto split: option.splits prod.splits if_splits dest: run_op_taken)
    then show ?thesis by (auto simp: libp2p_accept_def dest: Validate_stamp)
  qed
  with assms show ?thesis by (fastforce simp: stamped_def)
qed

lemma step_refines:
  assumes "stamped l st"
  shows "register_of l (dht_step l (libp2p_accept l) ev st) = fold write_newer (writes_of l ev st) (register_of l st)"
proof (cases ev)
  case (PeerPut k v)
  with put_refines [OF assms, of k v] show ?thesis by (auto simp: writes_of_def)
next
  case (NodeOp nd op t t2)
  consider k r where "run_op l (libp2p_accept l) st nd op t t2 = (None, Some (k, r))"
    | "\<And>k r. run_op l (libp2p_accept l) st nd op t t2 \<noteq> (None, Some (k, r))" by blast
  then show ?thesis
  proof cases
    case 1
    with put_refines [OF assms, of k "j_marshal l r"] NodeOp run_op_taken [OF 1] show ?thesis
      by (simp add: writes_of_def)
  next
    case 2
    then show ?thesis
      unfolding NodeOp by (cases "run_op l (libp2p_accept l) st nd op t t2")
        (auto simp: writes_of_def split: option.splits prod.splits)
  qed
qed


text \<open>The writes of a run.\<close>

fun run_writes :: "dns_lib \<Rightarrow> dht_event list \<Rightarrow> dht_store \<Rightarrow> (string \<times> int \<times> bytes) list" where
  "run_writes l [] st = []"
| "run_writes l (ev # evs) st = writes_of l ev st @ run_writes l evs (dht_step l (libp2p_accept l) ev st)"

lemma run_refines:
  "stamped l st \<Longrightarrow> stamped l (dht_run l (libp2p_accept l) evs st) \<and>
     register_of l (dht_run l (libp2p_accept l) evs st) = fold write_newer (run_writes l evs st) (register_of l st)"
  by (induction evs arbitrary: st) (simp_all add: step_refines step_stamped)

text \<open>
  C18: the names of the DHT refine a register that the newest record wins. In any run of the operations
  of nodes and the puts of arbitrary peers, from an empty DHT that follows the validator, the DHT
  holds only records, and it holds exactly what the register holds after the writes of the events
  in their order.
\<close>

theorem names_refine_register:
  "stamped l (dht_run l (libp2p_accept l) evs (\<lambda>_. None)) \<and>
   register_of l (dht_run l (libp2p_accept l) evs (\<lambda>_. None)) =
     fold write_newer (run_writes l evs (\<lambda>_. None)) (\<lambda>_. None)"
proof -
  have "stamped l (\<lambda>_. None)" "register_of l (\<lambda>_. None) = (\<lambda>_. None)" by (auto simp: stamped_def register_of_def)
  with run_refines [of l "\<lambda>_. None" evs] show ?thesis by simp
qed

section \<open>The order of arrival\<close>

lemma newest_write:
  "case fold write_newer ws (\<lambda>_. None) k of
     None \<Rightarrow> \<forall>t v. (k, t, v) \<notin> set ws
   | Some (t, v) \<Rightarrow> (k, t, v) \<in> set ws \<and> (\<forall>t' v'. (k, t', v') \<in> set ws \<longrightarrow> t' \<le> t)"
proof (induction ws rule: rev_induct)
  case Nil
  then show ?case by simp
next
  case (snoc w ws)
  obtain k1 t1 v1 where w: "w = (k1, t1, v1)" by (cases w)
  show ?case
  proof (cases "k1 = k")
    case False
    have "fold write_newer (ws @ [w]) (\<lambda>_. None) k = fold write_newer ws (\<lambda>_. None) k"
      using False by (auto simp: w write_newer_def split: option.split)
    with snoc False w show ?thesis by (auto split: option.splits)
  next
    case True
    with snoc w show ?thesis by (fastforce simp: write_newer_def split: option.splits)
  qed
qed

text \<open>A record that was put: its key, and its bytes.\<close>

definition puts :: "(string \<times> bytes) list \<Rightarrow> dht_event list" where
  "puts ps = map (\<lambda>(k, v). PeerPut k v) ps"

lemma put_writes: "run_writes l (puts ps) st = concat (map (\<lambda>(k, v). write_of l k v) ps)"
  by (induction ps arbitrary: st) (auto simp: puts_def writes_of_def)

lemma put_write_set:
  "(k, t, v) \<in> set (run_writes l (puts ps) st) \<longleftrightarrow> (k, v) \<in> set ps \<and> Validate l k v = None \<and> stamp l v = Some t"
  by (fastforce simp: put_writes write_of_def split: option.splits if_splits)

lemma register_value:
  assumes "stamped l st"
  shows "register_of l st k = None \<longleftrightarrow> st k = None"
    and "register_of l st k = Some (t, v) \<longleftrightarrow> st k = Some v \<and> stamp l v = Some t"
  using assms by (auto simp: register_of_def stamped_def split: option.splits)

text \<open>What the puts leave for a key: the newest valid record.\<close>

definition newest_put :: "dns_lib \<Rightarrow> (string \<times> bytes) list \<Rightarrow> string \<Rightarrow> bytes option \<Rightarrow> bool" where
  "newest_put l ps k r \<longleftrightarrow>
     (case r of
        None \<Rightarrow> \<forall>v. (k, v) \<in> set ps \<longrightarrow> Validate l k v \<noteq> None
      | Some v \<Rightarrow> (k, v) \<in> set ps \<and> Validate l k v = None \<and>
          (\<exists>t. stamp l v = Some t \<and>
            (\<forall>w t'. (k, w) \<in> set ps \<and> Validate l k w = None \<and> stamp l w = Some t' \<longrightarrow> t' \<le> t)))"

lemma puts_newest: "newest_put l ps k (dht_run l (libp2p_accept l) (puts ps) (\<lambda>_. None) k)"
proof -
  let ?st = "dht_run l (libp2p_accept l) (puts ps) (\<lambda>_. None)" and ?ws = "run_writes l (puts ps) (\<lambda>_. None)"
  have e: "stamped l (\<lambda>_. None)" "register_of l (\<lambda>_. None) = (\<lambda>_. None)" by (auto simp: stamped_def register_of_def)
  from run_refines [OF e(1), of "puts ps"] e(2) have
    r: "stamped l ?st" "register_of l ?st = fold write_newer ?ws (\<lambda>_. None)" by simp_all
  note n = newest_write [where ws = ?ws and k = k, folded r(2)]
  show ?thesis
  proof (cases "?st k")
    case None
    then have "register_of l ?st k = None" by (simp add: register_of_def)
    with n have "\<forall>t v. (k, t, v) \<notin> set ?ws" by simp
    then have "Validate l k v \<noteq> None" if "(k, v) \<in> set ps" for v
      using that Validate_stamp [of l k v] by (auto simp: put_write_set)
    with None show ?thesis by (simp add: newest_put_def)
  next
    case (Some v)
    with r(1) obtain t where t: "stamp l v = Some t" by (fastforce simp: stamped_def)
    with Some have "register_of l ?st k = Some (t, v)" by (simp add: register_of_def)
    with n have "(k, t, v) \<in> set ?ws" "\<forall>t' v'. (k, t', v') \<in> set ?ws \<longrightarrow> t' \<le> t" by simp_all
    with Some t show ?thesis by (auto simp: put_write_set newest_put_def)
  qed
qed

text \<open>
  C19: replicas that receive the same records converge. Two peers that hold nothing and receive the same
  puts, in any two orders, end with the newest valid record that was put for each key: both hold
  none, or records of the same time; and they hold the same record when no two valid records that
  were put for the key have the same time.
\<close>

theorem replicas_converge:
  assumes "mset qs = mset ps"
    and "st = dht_run l (libp2p_accept l) (puts ps) (\<lambda>_. None)"
    and "st' = dht_run l (libp2p_accept l) (puts qs) (\<lambda>_. None)"
  shows "newest_put l ps k (st k) \<and> map_option (stamp l) (st k) = map_option (stamp l) (st' k) \<and>
    ((\<forall>v w. (k, v) \<in> set ps \<and> (k, w) \<in> set ps \<and> Validate l k v = None \<and> Validate l k w = None \<and>
        stamp l v = stamp l w \<longrightarrow> v = w) \<longrightarrow> st k = st' k)"
proof -
  have s: "set qs = set ps" using assms(1) by (rule mset_eq_setD)
  have n: "newest_put l ps k (st k)" "newest_put l ps k (st' k)"
    using puts_newest [of l ps k] puts_newest [of l qs k] s by (simp_all add: assms(2,3) newest_put_def split: option.splits)
  show ?thesis
  proof (cases "st k")
    case None
    with n have "st' k = None" by (auto simp: newest_put_def split: option.splits)
    with None n(1) show ?thesis by simp
  next
    case (Some v)
    with n(1) obtain t where v: "(k, v) \<in> set ps" "Validate l k v = None" "stamp l v = Some t"
      "\<And>w t'. (k, w) \<in> set ps \<Longrightarrow> Validate l k w = None \<Longrightarrow> stamp l w = Some t' \<Longrightarrow> t' \<le> t"
      by (auto simp: newest_put_def)
    with n(2) obtain w t' where w: "st' k = Some w" "(k, w) \<in> set ps" "Validate l k w = None" "stamp l w = Some t'"
      "\<And>u t2. (k, u) \<in> set ps \<Longrightarrow> Validate l k u = None \<Longrightarrow> stamp l u = Some t2 \<Longrightarrow> t2 \<le> t'"
      by (auto simp: newest_put_def split: option.splits)
    from v(4) [OF w(2-4)] w(5) [OF v(1-3)] have "t' = t" by simp
    with Some v w n(1) show ?thesis by auto
  qed
qed

lemma replicas_converge_witness:
  "newest_put wit_lib2 [(DHTKey ''node1'', ''2''), (DHTKey ''node1'', ''1'')] (DHTKey ''node1'')
     (dht_run wit_lib2 (libp2p_accept wit_lib2) (puts [(DHTKey ''node1'', ''2''), (DHTKey ''node1'', ''1'')]) (\<lambda>_. None) (DHTKey ''node1'')) \<and>
   dht_run wit_lib2 (libp2p_accept wit_lib2) (puts [(DHTKey ''node1'', ''2''), (DHTKey ''node1'', ''1'')]) (\<lambda>_. None) (DHTKey ''node1'') =
   dht_run wit_lib2 (libp2p_accept wit_lib2) (puts [(DHTKey ''node1'', ''1''), (DHTKey ''node1'', ''2'')]) (\<lambda>_. None) (DHTKey ''node1'')"
proof -
  have t: "stamp wit_lib2 ''1'' = Some 1000" "stamp wit_lib2 ''2'' = Some 2000"
    using wit_rec_put(3) wit_forged_fields(2) by (simp_all add: stamp_def wit_lib2_def wit_fields)
  show ?thesis
    using replicas_converge [of "[(DHTKey ''node1'', ''1''), (DHTKey ''node1'', ''2'')]"
        "[(DHTKey ''node1'', ''2''), (DHTKey ''node1'', ''1'')]", OF _ refl refl, of wit_lib2 "DHTKey ''node1''"] t
    by (auto simp: add_mset_commute)
qed

end
