(* ===== verification/NameKeep.thy ===== *)
theory NameKeep
  imports NameDht
begin

text \<open>
  A name over the time its owner keeps it: the registration and the refreshes of
  \<open>hypernet/services/dns/namesystem.go\<close>, which the daemon makes at every tick, interleaved with the
  operations of other nodes. Every refresh begins a new lease of the record's time to live.
\<close>

section \<open>Leases\<close>

definition full_addrs :: "dns_node \<Rightarrow> string list" where
  "full_addrs nd = map (\<lambda>a. a @ ''/p2p/'' @ dn_id nd) (dn_addrs nd)"

text \<open>An event that renews the lease of \<open>norm\<close>: a refresh the owner makes, on whatever addresses it has.\<close>

definition renews :: "dns_node \<Rightarrow> string \<Rightarrow> dns_node \<Rightarrow> name_op \<Rightarrow> bool" where
  "renews ow norm nd op \<longleftrightarrow>
     dn_id nd = dn_id ow \<and> dn_key nd = dn_key ow \<and> dn_addrs nd \<noteq> [] \<and>
     (case op of RefreshName n \<Rightarrow> NormalizeName n = Inr norm | _ \<Rightarrow> False)"

text \<open>
  The runs in which the name is kept: other nodes come within the lease, the owner renews it by a clock
  that does not run backwards, and does nothing else to the name.
\<close>

fun leased :: "dns_node \<Rightarrow> string \<Rightarrow> int \<Rightarrow> int \<Rightarrow> dht_event list \<Rightarrow> bool" where
  "leased ow norm ttl since [] = True"
| "leased ow norm ttl since (PeerPut k v # evs) = False"
| "leased ow norm ttl since (NodeOp nd op t t2 # evs) =
     (if dn_id nd \<noteq> dn_id ow then unix t2 \<le> since + ttl \<and> leased ow norm ttl since evs
      else if NormalizeName (op_name op) \<noteq> Inr norm then leased ow norm ttl since evs
      else renews ow norm nd op \<and> since \<le> unix t2 \<and> in_int64 (unix t2 + ttl) \<and>
        leased ow norm ttl (unix t2) evs)"

text \<open>The last lease: when it began, and the addresses of the record.\<close>

fun lease :: "dns_node \<Rightarrow> string \<Rightarrow> int \<times> string list \<Rightarrow> dht_event list \<Rightarrow> int \<times> string list" where
  "lease ow norm x [] = x"
| "lease ow norm x (NodeOp nd op t t2 # evs) =
     lease ow norm (if renews ow norm nd op then (unix t2, full_addrs nd) else x) evs"
| "lease ow norm x (PeerPut k v # evs) = lease ow norm x evs"

definition renewal :: "string \<Rightarrow> int \<Rightarrow> dns_node \<Rightarrow> int \<Rightarrow> dns_rec" where
  "renewal norm ttl nd t2 =
     \<lparr>Name = norm, Owner = dn_id nd, Addrs = full_addrs nd, TTL = ttl, Timestamp = unix t2, Signature = ''''\<rparr>"

fun renewals :: "dns_node \<Rightarrow> string \<Rightarrow> int \<Rightarrow> dht_event list \<Rightarrow> dns_rec list" where
  "renewals ow norm ttl [] = []"
| "renewals ow norm ttl (NodeOp nd op t t2 # evs) =
     (if renews ow norm nd op then [renewal norm ttl nd t2] else []) @ renewals ow norm ttl evs"
| "renewals ow norm ttl (PeerPut k v # evs) = renewals ow norm ttl evs"

text \<open>A record the owner's key signs and JSON encodes.\<close>

definition renewable :: "dns_lib \<Rightarrow> bytes \<Rightarrow> dns_rec \<Rightarrow> bool" where
  "renewable l priv r0 \<longleftrightarrow> (\<exists>r. Sign l priv r0 = Inr r \<and> json_ok l r)"

section \<open>The record of a lease\<close>

definition lease_rec :: "dns_lib \<Rightarrow> bytes \<Rightarrow> dns_node \<Rightarrow> string \<Rightarrow> int \<Rightarrow> int \<times> string list \<Rightarrow> dht_store \<Rightarrow> dns_rec \<Rightarrow> bool" where
  "lease_rec l priv ow norm ttl x st r \<longleftrightarrow>
     st (DHTKey norm) = Some (j_marshal l r) \<and> json_ok l r \<and> (\<exists>r0. Sign l priv r0 = Inr r) \<and>
     Name r = norm \<and> Owner r = dn_id ow \<and> Addrs r = snd x \<and> TTL r = ttl \<and> Timestamp r = fst x"

lemma lease_held: "lease_rec l priv ow norm ttl x st r \<Longrightarrow> held l st (DHTKey norm) r"
  by (auto simp: lease_rec_def held_def json_ok_def)

lemma lease_unexpired:
  "lease_rec l priv ow norm ttl x st r \<Longrightarrow> 0 < ttl \<Longrightarrow> in_int64 (fst x + ttl) \<Longrightarrow> unix u \<le> fst x + ttl \<Longrightarrow> \<not> Expired r u"
  by (simp add: lease_rec_def Expired_def)

lemma Sign_fields: "Sign l priv r0 = Inr r \<Longrightarrow> r = r0\<lparr>Signature := Signature r\<rparr>"
  by (auto simp: Sign_def split: sum.splits)

lemma Sign_any: "Sign l priv r0 = Inr r \<Longrightarrow> Sign l priv (r0\<lparr>Signature := s\<rparr>) = Inr r"
  by (auto simp: Sign_def signablePayload_def split: sum.splits)

text \<open>A refresh of the owner succeeds and begins the next lease.\<close>

lemma refresh_renews:
  assumes x: "lease_rec l priv ow norm ttl x st r" "dn_key ow = Some priv" "dns_lib_ok l priv pub"
    and acc: "takes_selected l acc" and op: "renews ow norm nd op" "fst x \<le> unix t2" "0 < ttl"
    and ok: "renewable l priv (renewal norm ttl nd t2)"
  shows "\<exists>r'. lease_rec l priv ow norm ttl (unix t2, full_addrs nd) (dht_step l acc (NodeOp nd op t t2) st) r'"
proof -
  from ok obtain r' where r': "Sign l priv (renewal norm ttl nd t2) = Inr r'" "json_ok l r'" by (auto simp: renewable_def)
  have f: "Name r' = norm" "Owner r' = dn_id nd" "Addrs r' = full_addrs nd" "TTL r' = ttl" "Timestamp r' = unix t2"
    using Sign_fields [OF r'(1)] by (metis dns_rec.select_convs dns_rec.update_convs(6) renewal_def)+
  have nd: "dn_id nd = dn_id ow" "dn_key nd = Some priv" "dn_addrs nd \<noteq> []" using op(1) x(2) by (auto simp: renews_def)
  obtain n where n: "op = RefreshName n" "NormalizeName n = Inr norm"
    using op(1) by (auto simp: renews_def split: name_op.splits)
  have st: "st (DHTKey norm) = Some (j_marshal l r)" "j_unmarshal l (j_marshal l r) = Inr r" "j_marshal l r \<noteq> []"
    "Name r = norm" "Owner r = dn_id ow" "TTL r = ttl" "Timestamp r = fst x"
    using x(1) by (simp_all add: lease_rec_def json_ok_def)
  let ?r = "r\<lparr>Addrs := map (\<lambda>a. a @ ''/p2p/'' @ dn_id nd) (dn_addrs nd), Timestamp := unix t2, TTL := ttl\<rparr>"
  have "?r = (renewal norm ttl nd t2)\<lparr>Signature := Signature r\<rparr>"
    using st nd(1) by (simp add: renewal_def full_addrs_def)
  then have s: "Sign l priv ?r = Inr r'" using Sign_any [OF r'(1)] by metis
  have "Validate l (DHTKey norm) (j_marshal l r') = None"
    using r'(2) Sign_verifies [OF x(3) r'(1)] by (auto simp: Validate_iff json_ok_def)
  moreover have "Select l (DHTKey norm) [j_marshal l r', j_marshal l r] = Inr 0"
    using Select_pair [of l "j_marshal l r'" r' "j_marshal l r" r] r'(2) st f op(2) by (simp add: json_ok_def)
  ultimately have a: "acc (DHTKey norm) (st (DHTKey norm)) (j_marshal l r')"
    using acc st(1) by (simp add: takes_selected_def)
  have "run_op l acc st nd op t t2 = (None, Some (DHTKey norm, r'))"
    using n st nd op(3) s a
    by (simp add: run_op_def Refresh_def NewNameSystem_def sign_and_put_def Let_def)
  then have "dht_step l acc (NodeOp nd op t t2) st = st(DHTKey norm \<mapsto> j_marshal l r')" by simp
  with r' f nd(1) show ?thesis by (auto simp: lease_rec_def)
qed

lemma step_elsewhere:
  assumes "NormalizeName (op_name op) \<noteq> Inr norm"
  shows "dht_step l acc (NodeOp nd op t t2) st (DHTKey norm) = st (DHTKey norm)"
proof -
  have "k \<noteq> DHTKey norm" if "run_op l acc st nd op t t2 = (None, Some (k, r))" for k r
    using run_op_put [OF that] assms by (auto simp: put_of_def DHTKey_inj)
  then show ?thesis by (auto split: option.splits prod.splits)
qed


lemma lease_run:
  assumes "dn_key ow = Some priv" "dns_lib_ok l priv pub" "takes_selected l acc" "0 < ttl"
  shows "lease_rec l priv ow norm ttl x st r \<Longrightarrow> in_int64 (fst x + ttl) \<Longrightarrow> leased ow norm ttl (fst x) evs \<Longrightarrow>
    \<forall>r0\<in>set (renewals ow norm ttl evs). renewable l priv r0 \<Longrightarrow>
    (\<exists>r'. lease_rec l priv ow norm ttl (lease ow norm x evs) (dht_run l acc evs st) r') \<and>
    in_int64 (fst (lease ow norm x evs) + ttl)"
proof (induction evs arbitrary: x st r)
  case Nil
  then show ?case by auto
next
  case (Cons ev evs)
  from Cons.prems(3) obtain nd op t t2 where ev: "ev = NodeOp nd op t t2" by (cases ev) auto
  show ?case
  proof (cases "renews ow norm nd op")
    case True
    then have id: "dn_id nd = dn_id ow" "NormalizeName (op_name op) = Inr norm"
      by (auto simp: renews_def op_name_def split: name_op.splits)
    with Cons.prems(3) ev have t: "fst x \<le> unix t2" "in_int64 (unix t2 + ttl)" "leased ow norm ttl (unix t2) evs" by auto
    have "renewable l priv (renewal norm ttl nd t2)" using Cons.prems(4) ev True by simp
    from refresh_renews [OF Cons.prems(1) assms(1-3) True t(1) assms(4) this] obtain r' where
      "lease_rec l priv ow norm ttl (unix t2, full_addrs nd) (dht_step l acc ev st) r'" unfolding ev by blast
    from Cons.IH [OF this] t Cons.prems(4) ev True show ?thesis by simp
  next
    case False
    have "dht_step l acc ev st (DHTKey norm) = st (DHTKey norm)"
    proof (cases "dn_id nd = dn_id ow")
      case True
      with False Cons.prems(3) ev have "NormalizeName (op_name op) \<noteq> Inr norm" by (auto split: if_splits)
      then show ?thesis unfolding ev by (rule step_elsewhere)
    next
      case other: False
      with Cons.prems(3) ev have "unix t2 \<le> fst x + ttl" by simp
      with lease_unexpired [OF Cons.prems(1) assms(4) Cons.prems(2)] have "\<not> Expired r t2" by blast
      with other Cons.prems(1) show ?thesis
        unfolding ev by (intro dht_step_other [OF lease_held [OF Cons.prems(1)]]) (auto simp: lease_rec_def)
    qed
    with Cons.prems(1) have "lease_rec l priv ow norm ttl x (dht_step l acc ev st) r" by (simp add: lease_rec_def)
    moreover have "leased ow norm ttl (fst x) evs" using Cons.prems(3) ev False by (auto split: if_splits)
    ultimately show ?thesis using Cons.IH Cons.prems(2,4) ev False by simp
  qed
qed


lemma lease_nonempty: "snd x \<noteq> [] \<Longrightarrow> snd (lease ow norm x evs) \<noteq> []"
  by (induction ow norm x evs rule: lease.induct) (auto simp: renews_def full_addrs_def)

section \<open>Properties\<close>

text \<open>
  C9: a name lasts as long as its owner refreshes it. After \<open>Register\<close> has succeeded, in any run in
  which the other nodes, whatever they do, come within the current lease and the owner refreshes the
  name by a clock that does not run backwards, the DHT holds the record of the last lease: until that
  lease is over every node that has not cached the name resolves it to the addresses the owner had at
  the last refresh, and no operation of another node on the name succeeds.
\<close>

theorem name_kept_alive:
  assumes reg: "run_op l acc st owner (RegisterName name addrs ttl) t t2 = (None, Some (k, r))"
    and pub: "published_by l priv pub (dht_env acc st owner t t2) addrs ttl r" "takes_selected l acc"
    and evs: "NormalizeName name = Inr norm" "leased owner norm (ttl_seconds ttl) (unix t) evs"
      "\<forall>r0\<in>set (renewals owner norm (ttl_seconds ttl) evs). renewable l priv r0"
      "lease owner norm (unix t, addrs) evs = (since, addrs')" "\<forall>a\<in>set addrs'. m_parse l a = Inr a"
    and rd: "ns_dht ns" "ns_cache ns norm = None \<or> bypass" "unix u \<le> since + ttl_seconds ttl"
      "st' = dht_run l acc (NodeOp owner (RegisterName name addrs ttl) t t2 # evs) st"
  shows "fst (Resolve l bypass (dht_env acc st' nd u u2) name ns) = Inr addrs' \<and>
    (\<forall>nd op v v2. dn_id nd \<noteq> dn_id owner \<and> NormalizeName (op_name op) = Inr norm \<and> unix v2 \<le> since + ttl_seconds ttl \<longrightarrow>
       (\<exists>e. run_op l acc st' nd op v v2 = (Some e, None)))"
proof -
  let ?ttl = "ttl_seconds ttl"
  have lib: "dns_lib_ok l priv pub" "dn_key owner = Some priv" "0 < ?ttl" "in_int64 (unix t + ?ttl)" "json_ok l r"
    and id: "\<exists>p. p_decode l (dn_id owner) = Inr p \<and> p_pubkey l p = Inr (Some pub)"
    using pub(1) by (simp_all add: published_by_def)
  from reg have reg': "Register l (NewNameSystem True True) (dht_env acc st owner t t2) name addrs ttl = (None, Some (k, r))"
    by (simp add: run_op_def Let_def)
  from Register_ok [OF reg'] evs(1) lib(2) obtain r0 where
    r0: "k = DHTKey norm" "Sign l priv r0 = Inr r" "r0 = \<lparr>Name = norm, Owner = dn_id owner, Addrs = addrs, TTL = ?ttl,
      Timestamp = unix t, Signature = ''''\<rparr>" "addrs \<noteq> []" by auto
  have ne: "addrs' \<noteq> []" using lease_nonempty [of "(unix t, addrs)" owner norm evs] r0(4) evs(4) by simp
  let ?st1 = "dht_step l acc (NodeOp owner (RegisterName name addrs ttl) t t2) st"
  have "lease_rec l priv owner norm ?ttl (unix t, addrs) ?st1 r"
    using Sign_fields [OF r0(2)] r0 lib(5) reg by (auto simp: lease_rec_def) (metis dns_rec.select_convs dns_rec.update_convs(6))+
  from lease_run [OF lib(2,1) pub(2) lib(3) this, of evs] evs(2-4) lib(4) rd(4) obtain x where
    x: "lease_rec l priv owner norm ?ttl (since, addrs') st' x" "in_int64 (since + ?ttl)" by auto
  have ex: "\<not> Expired x v" if "unix v \<le> since + ?ttl" for v
    using lease_unexpired [OF x(1) lib(3), of v] x(2) that by simp
  from x(1) obtain s0 where s0: "Sign l priv s0 = Inr x" "json_ok l x" "Owner x = dn_id owner" "Addrs x = addrs'"
    "st' (DHTKey norm) = Some (j_marshal l x)" by (auto simp: lease_rec_def)
  from id obtain p where p: "p_decode l (dn_id owner) = Inr p" "p_pubkey l p = Inr (Some pub)" by blast
  have "usable l u (j_marshal l x) = Some x"
    using usable_registered [OF lib(1) s0(2,1)] p s0(3) ex [OF rd(3)] by simp
  then have "fst (Resolve l bypass (dht_env acc st' nd u u2) name ns) = Inr addrs'"
    using resolve_stored [where st = st' and acc = acc and nd = nd and t = u and ?t2.0 = u2, OF rd(1) evs(1) rd(2) s0(5)]
      parse_addrs_all [OF evs(5)] s0(4) ne by simp
  moreover have "\<exists>e. run_op l acc st' nd op v v2 = (Some e, None)"
    if "dn_id nd \<noteq> dn_id owner \<and> NormalizeName (op_name op) = Inr norm \<and> unix v2 \<le> since + ?ttl" for nd op v v2
    by (rule run_op_foreign [OF lease_held [OF x(1)]]) (use that ex s0(3) in auto)
  ultimately show ?thesis by blast
qed


text \<open>A library with a second record, the one the node \<open>A\<close> makes of its name at second 3000.\<close>

definition wit_renewed :: dns_rec where
  "wit_renewed = wit_rec\<lparr>Addrs := [''/ip4/1.2.3.4/p2p/peerA''], Timestamp := 3000\<rparr>"

definition wit_lib3 :: dns_lib where
  "wit_lib3 = wit_lib\<lparr>j_marshal := (\<lambda>r. if Timestamp r = 1000 then ''1'' else ''3''),
     j_unmarshal := (\<lambda>d. if d = ''3'' then Inr wit_renewed else j_unmarshal wit_lib d)\<rparr>"

lemma wit_lib3_sign: "Sign wit_lib3 ''k'' r = Sign wit_lib ''k'' r"
  by (simp add: Sign_def signablePayload_def wit_lib3_def wit_lib_def)

lemma wit_lib3_ok: "dns_lib_ok wit_lib3 ''k'' ''k''" "json_ok wit_lib3 wit_rec" "json_ok wit_lib3 wit_renewed"
  using wit_lib_ok(1) wit_rec_put(3) wit_fields(2)
  by (simp_all add: dns_lib_ok_def json_ok_def wit_lib3_def) (simp_all add: wit_renewed_def wit_lib_def)

lemma name_kept_alive_witness:
  "\<exists>st. fst (Resolve wit_lib3 False (dht_env (libp2p_accept wit_lib3) st wit_nodeB (6000 * Second) (6000 * Second)) ''node1''
     (NewNameSystem True True)) = Inr [''/ip4/1.2.3.4/p2p/peerA'']"
proof -
  let ?acc = "libp2p_accept wit_lib3" and ?reg = "RegisterName ''node1'' [''/ip4/1.2.3.4''] (3600 * Second)"
  let ?evs = "[NodeOp wit_nodeB (UnregisterName ''node1'') (1500 * Second) (1500 * Second),
    NodeOp wit_nodeA (RefreshName ''node1'') (3000 * Second) (3000 * Second),
    NodeOp wit_nodeB ?reg (5000 * Second) (5000 * Second)]"
  have u: "ttl_seconds (3600 * Second) = 3600" "\<And>n. unix (n * Second) = n" "\<not> Second \<le> 0"
    by (simp_all add: ttl_seconds_def unix_def Second_def)
  have s: "Sign wit_lib3 ''k'' \<lparr>Name = ''node1'', Owner = ''peerA'', Addrs = a, TTL = 3600, Timestamp = t, Signature = ''''\<rparr> =
      Inr (wit_rec\<lparr>Addrs := a, Timestamp := t\<rparr>)" for a t
    unfolding wit_lib3_sign by (simp add: Sign_def wit_lib_def signablePayload_def wit_rec_def)
  have w: "wit_rec\<lparr>Addrs := [''/ip4/1.2.3.4''], Timestamp := 1000\<rparr> = wit_rec" by (simp add: wit_rec_def)
  have put: "Validate wit_lib3 k ''1'' = None" "j_marshal wit_lib3 wit_rec = ''1''" for k
    using wit_rec_put wit_fields(2) by (simp_all add: Validate_iff wit_lib3_def)
  have reg: "run_op wit_lib3 ?acc (\<lambda>_. None) wit_nodeA ?reg (1000 * Second) (1000 * Second) =
      (None, Some (DHTKey ''node1'', wit_rec))"
    using put u by (simp add: run_op_def Register_def NewNameSystem_def wit_names(1) sign_and_put_def s w wit_nodeA_def
        libp2p_accept_def Let_def)
  have pub: "published_by wit_lib3 ''k'' ''k'' (dht_env ?acc (\<lambda>_. None) wit_nodeA (1000 * Second) (1000 * Second))
      [''/ip4/1.2.3.4''] (3600 * Second) wit_rec"
    using wit_lib3_ok u by (simp add: published_by_def wit_nodeA_def) (simp add: wit_lib3_def wit_lib_def in_int64_def)
  have rn: "renews wit_nodeA ''node1'' wit_nodeA (RefreshName ''node1'')" "\<not> renews wit_nodeA ''node1'' wit_nodeB op" for op
    by (simp_all add: renews_def wit_nodeA_def wit_nodeB_def wit_names)
  have id: "dn_id wit_nodeB \<noteq> dn_id wit_nodeA" by (simp add: wit_nodeA_def wit_nodeB_def)
  have "renewal ''node1'' 3600 wit_nodeA (3000 * Second) =
      \<lparr>Name = ''node1'', Owner = ''peerA'', Addrs = [''/ip4/1.2.3.4/p2p/peerA''], TTL = 3600, Timestamp = 3000, Signature = ''''\<rparr>"
    by (simp add: renewal_def full_addrs_def wit_nodeA_def u)
  then have ok: "renewable wit_lib3 ''k'' (renewal ''node1'' 3600 wit_nodeA (3000 * Second))"
    using wit_lib3_ok(3) s by (simp add: renewable_def wit_renewed_def)
  have l: "leased wit_nodeA ''node1'' (ttl_seconds (3600 * Second)) (unix (1000 * Second)) ?evs"
    "\<forall>r0\<in>set (renewals wit_nodeA ''node1'' (ttl_seconds (3600 * Second)) ?evs). renewable wit_lib3 ''k'' r0"
    "lease wit_nodeA ''node1'' (unix (1000 * Second), [''/ip4/1.2.3.4'']) ?evs = (3000, [''/ip4/1.2.3.4/p2p/peerA''])"
    using id rn u ok by (simp_all add: op_name_def wit_names(1) in_int64_def) (simp add: full_addrs_def wit_nodeA_def)
  have n: "ns_dht (NewNameSystem True True)" "ns_cache (NewNameSystem True True) ''node1'' = None \<or> False"
    by (simp_all add: NewNameSystem_def)
  have m: "\<forall>a\<in>set [''/ip4/1.2.3.4/p2p/peerA'']. m_parse wit_lib3 a = Inr a" "unix (6000 * Second) \<le> 3000 + ttl_seconds (3600 * Second)"
    using u by (simp_all add: wit_lib3_def wit_lib_def)
  from name_kept_alive [OF reg pub libp2p_accept_takes(2) wit_names(1) l m(1) n(1,2) m(2) refl] show ?thesis by blast
qed

end
