(* ===== verification/Guard.thy ===== *)
theory Guard
  imports ProxyServer "HOL-Library.Sublist"
begin

text \<open>
  What the token of a node guards. The handler of \<open>hypernet/services/proxy/server/proxy.go\<close> checks it for
  the protocols that have a check, and only behind a first line that is no request. The locale \<open>thin\<close>
  is the contract of a reader that invents nothing: what it delivers was sent, in this order. Every
  layer in front of the handshake keeps it.
\<close>

section \<open>Readers that invent nothing\<close>

text \<open>
  \<open>src\<close> is what is left to deliver, \<open>le\<close> how what is delivered compares with it, and \<open>P\<close> tells behind
  which errors the state of the reader can still be relied on.
\<close>

lemma line_split:
  assumes "newline \<in> set xs"
  shows "(takeWhile (\<lambda>c. c \<noteq> newline) xs @ [newline]) @ drop (length (takeWhile (\<lambda>c. c \<noteq> newline) xs @ [newline])) xs = xs"
  using assms by (induction xs) auto

locale thin =
  fixes rd :: "'s reader"
    and src :: "'s \<Rightarrow> bytes"
    and le :: "bytes \<Rightarrow> bytes \<Rightarrow> bool"
    and P :: "err option \<Rightarrow> bool"
  assumes le_refl: "le xs xs"
    and le_trans: "le xs ys \<Longrightarrow> le ys zs \<Longrightarrow> le xs zs"
    and le_prefix: "le xs ys \<Longrightarrow> le (zs @ xs) (zs @ ys)"
    and le_drop: "\<not> P e \<Longrightarrow> le [] xs"
    and P_none: "P None"
    and read_thin: "rd s n = Some (bs, e, s') \<Longrightarrow> le (bs @ (if P e then src s' else [])) (src s)"
begin

definition bufsrc :: "'s bufrd \<Rightarrow> bytes" where
  "bufsrc b = b_buf b @ (if P (b_err b) then src (b_src b) else [])"

lemma bufsrc_new: "bufsrc (new_bufrd s) = src s"
  by (simp add: bufsrc_def new_bufrd_def P_none)

lemma fill_thin: "bufio_fill k rd b = Some b' \<Longrightarrow> b_err b = None \<Longrightarrow> le (bufsrc b') (bufsrc b)"
proof (induction k arbitrary: b)
  case 0
  then show ?case using le_drop [of "Some ErrNoProgress"] le_prefix [of "[]"]
    by (cases "P (Some ErrNoProgress)") (auto simp: bufsrc_def P_none le_refl)
next
  case (Suc k)
  from Suc.prems obtain bs e s' where r: "rd (b_src b) (bufio_size - length (b_buf b)) = Some (bs, e, s')"
    by (auto split: option.splits)
  let ?b1 = "b\<lparr>b_src := s', b_buf := b_buf b @ bs, b_err := e\<rparr>"
  from le_prefix [OF read_thin [OF r], of "b_buf b"] Suc.prems(2) have t: "le (bufsrc ?b1) (bufsrc b)"
    by (cases "P e") (simp_all add: bufsrc_def P_none)
  show ?case
  proof (cases e)
    case (Some x)
    with Suc.prems r t show ?thesis by simp
  next
    case None
    then have b1: "?b1 = b\<lparr>b_src := s', b_buf := b_buf b @ bs\<rparr>" using Suc.prems(2) by simp
    show ?thesis
    proof (cases "bs = []")
      case True
      with Suc.prems r None have "bufio_fill k rd (b\<lparr>b_src := s', b_buf := b_buf b @ bs\<rparr>) = Some b'" by simp
      from Suc.IH [OF this] Suc.prems(2) t b1 show ?thesis by (auto intro: le_trans)
    next
      case False
      with Suc.prems r None t b1 show ?thesis by simp
    qed
  qed
qed

lemma line_thin:
  assumes "read_string rd b acc = Some (l, e, b')"
  shows "le (l @ (if P e then bufsrc b' else [])) (acc @ bufsrc b)"
proof -
  let ?Q = "\<lambda>rd' b (a :: bytes) (r :: bytes \<times> err option \<times> 's bufrd).
    rd' = rd \<longrightarrow> le (fst r @ (if P (fst (snd r)) then bufsrc (snd (snd r)) else [])) (a @ bufsrc b)"
  have "?Q rd b acc (l, e, b')"
  proof (rule read_string.raw_induct [of ?Q, OF _ assms])
    fix f rd' b a r
    assume IH: "\<And>rd' b a r. f rd' b a = Some r \<Longrightarrow> ?Q rd' b a r"
      and s: "(if newline \<in> set (b_buf b) then
        let l = takeWhile (\<lambda>c. c \<noteq> newline) (b_buf b) @ [newline]
        in Some (a @ l, None, b\<lparr>b_buf := drop (length l) (b_buf b)\<rparr>)
      else case b_err b of
        None \<Rightarrow>
          if bufio_size \<le> length (b_buf b) then f rd' (b\<lparr>b_buf := []\<rparr>) (a @ b_buf b)
          else (case bufio_fill 100 rd' b of None \<Rightarrow> None | Some b' \<Rightarrow> f rd' b' a)
      | Some e \<Rightarrow> Some (a @ b_buf b, Some e, b\<lparr>b_buf := [], b_err := None\<rparr>)) = Some r"
    show "?Q rd' b a r"
    proof
      assume rd: "rd' = rd"
      consider (found) "newline \<in> set (b_buf b)" | (err) x where "newline \<notin> set (b_buf b)" "b_err b = Some x"
        | (full) "newline \<notin> set (b_buf b)" "b_err b = None" "bufio_size \<le> length (b_buf b)"
        | (fill) "newline \<notin> set (b_buf b)" "b_err b = None" "\<not> bufio_size \<le> length (b_buf b)"
        by (cases "b_err b") blast+
      then show "le (fst r @ (if P (fst (snd r)) then bufsrc (snd (snd r)) else [])) (a @ bufsrc b)"
      proof cases
        case found
        let ?l = "takeWhile (\<lambda>c. c \<noteq> newline) (b_buf b) @ [newline]"
        have l: "?l @ drop (length ?l) (b_buf b) = b_buf b" by (rule line_split [OF found])
        from s found have r: "r = (a @ ?l, None, b\<lparr>b_buf := drop (length ?l) (b_buf b)\<rparr>)" by (simp add: Let_def)
        have "fst r @ bufsrc (snd (snd r)) = a @ (?l @ drop (length ?l) (b_buf b)) @ (if P (b_err b) then src (b_src b) else [])"
          unfolding r by (simp add: bufsrc_def)
        also have "\<dots> = a @ bufsrc b" unfolding l by (simp add: bufsrc_def)
        finally show ?thesis using r le_refl by (simp add: P_none)
      next
        case err
        with s le_refl show ?thesis by (auto simp: bufsrc_def P_none)
      next
        case full
        with s have "f rd' (b\<lparr>b_buf := []\<rparr>) (a @ b_buf b) = Some r" by simp
        moreover have "a @ bufsrc b = (a @ b_buf b) @ bufsrc (b\<lparr>b_buf := []\<rparr>)" by (simp add: bufsrc_def)
        ultimately show ?thesis using IH [of rd' "b\<lparr>b_buf := []\<rparr>" "a @ b_buf b" r] rd by (simp only: simp_thms)
      next
        case fill
        with s rd obtain b1 where b1: "bufio_fill 100 rd b = Some b1" "f rd' b1 a = Some r"
          by (auto split: option.splits)
        from IH [OF b1(2)] rd le_prefix [OF fill_thin [OF b1(1) fill(2)], of a] show ?thesis by (auto intro: le_trans)
      qed
    qed
  qed
  then show ?thesis by (cases "P e") simp_all
qed

lemma byte_thin:
  assumes "read_byte rd b = Some (x, b')" "b_err b = None"
  shows "(\<forall>c. x = Inr c \<longrightarrow> le (c # bufsrc b') (bufsrc b)) \<and>
    (\<forall>e. x = Inl e \<and> (\<forall>e. P e) \<longrightarrow> le (src (b_src b')) (bufsrc b))"
proof (cases "b_buf b")
  case (Cons c cs)
  with assms show ?thesis by (auto simp: read_byte_def take_byte_def bufsrc_def le_refl)
next
  case Nil
  with assms obtain b1 where b1: "bufio_fill 100 rd b = Some b1" "take_byte b1 = (x, b')" by (auto simp: read_byte_def)
  from fill_thin [OF b1(1) assms(2)] b1(2) show ?thesis
    by (auto simp: take_byte_def bufsrc_def split: list.splits)
qed

lemma full_thin:
  assumes "read_full rd s k = Some (bs, e, s')" "\<forall>e. P e"
  shows "le (bs @ src s') (src s)"
proof -
  let ?Q = "\<lambda>rd' s (l :: nat) (c :: nat) (a :: bytes) (r :: bytes \<times> err option \<times> 's).
    rd' = rd \<longrightarrow> le (fst r @ src (snd (snd r))) (a @ src s)"
  have st: "le ((a @ bs) @ src s') (a @ src s)" if "rd s n = Some (bs, e, s')" for s n bs e s' a
    using le_prefix [OF read_thin [OF that], of a] assms(2) by simp
  from assms(1) have h: "read_loop rd s k k [] = Some (bs, e, s')" by (simp add: read_full_def read_at_least_def)
  have "?Q rd s k k [] (bs, e, s')"
  proof (rule read_loop.raw_induct [of ?Q, OF _ h])
    fix f rd' s l c a r
    assume IH: "\<And>rd' s l c a r. f rd' s l c a = Some r \<Longrightarrow> ?Q rd' s l c a r"
      and s: "(if length a < l then case rd' s (c - length a) of None \<Rightarrow> None
        | Some (bs, None, s') \<Rightarrow> f rd' s' l c (a @ bs)
        | Some (bs, Some x, s') \<Rightarrow> Some (a @ bs, at_least_err (a @ bs) l x, s')
        else Some (a, None, s)) = Some r"
    show "?Q rd' s l c a r"
    proof
      assume rd: "rd' = rd"
      show "le (fst r @ src (snd (snd r))) (a @ src s)"
      proof (cases "length a < l")
        case False
        with s le_refl show ?thesis by auto
      next
        case True
        with s rd obtain bs x s1 where r: "rd s (c - length a) = Some (bs, x, s1)" by (auto split: option.splits)
        show ?thesis
        proof (cases x)
          case None
          with s r rd True have "f rd' s1 l c (a @ bs) = Some r" by simp
          from IH [OF this] rd st [OF r, of a] show ?thesis by (auto intro: le_trans)
        next
          case (Some y)
          with s r rd True st [OF r, of a] show ?thesis by auto
        qed
      qed
    qed
  qed
  then show ?thesis by simp
qed

end

section \<open>The layers in front of the handshake\<close>

abbreviation wire_src :: "wire \<Rightarrow> bytes" where
  "wire_src w \<equiv> concat (rx w)"

lemma wire_read_takes: "wire_read w n = Some (bs, e, w') \<Longrightarrow> bs @ wire_src w' = wire_src w"
  by (auto simp: wire_read_def split: if_splits list.splits option.splits)

interpretation wire_exact: thin wire_read wire_src "(=)" "\<lambda>_. True"
  by unfold_locales (auto dest: wire_read_takes)

lemma subseq_prefix: "subseq xs ys \<Longrightarrow> subseq (zs @ xs) (zs @ ys)"
  by (rule list_emb_append_mono) auto

interpretation wire_thin: thin wire_read wire_src subseq "\<lambda>_. True"
  by unfold_locales (auto intro: subseq_order.order_trans subseq_prefix dest: wire_read_takes)

lemma take_then_drop: "take n (drop k xs) @ drop (k + min (length xs - k) n) xs @ ys = drop k xs @ ys"
proof -
  have "drop (k + min (length xs - k) n) xs = drop n (drop k xs)"
    by (cases "n \<le> length xs - k") (auto simp: add.commute)
  then show ?thesis by (metis append_assoc append_take_drop_id)
qed

lemma take_then_drop': "take n (drop k xs) @ drop (k + n) xs @ ys = drop k xs @ ys"
  by (metis add.commute append_assoc append_take_drop_id drop_drop)

definition prefix_src :: "prefix_conn \<times> wire \<Rightarrow> bytes" where
  "prefix_src cs = drop (pc_off (fst cs)) (pc_prefix (fst cs)) @ wire_src (snd cs)"

interpretation prefix_thin: thin "prefix_read wire_read" prefix_src subseq "\<lambda>_. True"
proof
  fix s n bs e s'
  assume "prefix_read wire_read s n = Some (bs, e, s')"
  then have "bs @ prefix_src s' = prefix_src s"
    by (cases s) (auto simp: prefix_read_def prefix_src_def Let_def take_then_drop
        split: if_splits option.splits dest!: wire_read_takes)
  then show "subseq (bs @ (if True then prefix_src s' else [])) (prefix_src s)" by simp
qed (auto intro: subseq_order.order_trans subseq_prefix)

definition pad_src :: "padding \<times> wire \<Rightarrow> bytes" where
  "pad_src cs =
     (if PaddingMax (fst cs) \<le> 0 then [] else drop (readOff (fst cs)) (readBuf (fst cs))) @ wire_src (snd cs)"

lemma subseq_tail: "subseq (xs @ ys) zs \<Longrightarrow> subseq ys zs"
  by (rule subseq_order.order_trans [OF list_emb_append2 [OF subseq_order.order_refl]])

lemma full_leaves: "read_full wire_read w k = Some (bs, e, w') \<Longrightarrow> subseq (wire_src w') (wire_src w)"
  by (rule subseq_tail [OF wire_thin.full_thin]) auto

lemma skip_thin: "skip_padding wire_read w = Some (e, w') \<Longrightarrow> subseq (wire_src w') (wire_src w)"
  by (auto simp: skip_padding_def split: option.splits prod.splits if_splits
      dest!: full_leaves intro: subseq_order.order_trans)

interpretation pad_thin: thin "padding_read wire_read" pad_src subseq "\<lambda>e. e = None"
proof
  fix s n bs e s'
  assume r: "padding_read wire_read s n = Some (bs, e, s')"
  obtain c w where s: "s = (c, w)" by (cases s)
  show "subseq (bs @ (if e = None then pad_src s' else [])) (pad_src s)"
  proof (cases "PaddingMax c \<le> 0")
    case True
    with r s obtain w1 where w1: "wire_read w n = Some (bs, e, w1)" "s' = (c, w1)"
      by (auto simp: padding_read_def split: option.splits)
    from wire_read_takes [OF w1(1)] have t: "wire_src w = bs @ wire_src w1" by simp
    have "subseq bs (bs @ wire_src w1)" using list_emb_append_mono [OF subseq_order.order_refl list_emb_Nil, of bs] by simp
    with True t show ?thesis by (cases "e = None") (auto simp: pad_src_def s w1(2))
  next
    case pos: False
    show ?thesis
    proof (cases "readOff c < length (readBuf c)")
      case True
      with r s pos show ?thesis
        by (auto simp: padding_read_def pad_src_def Let_def take_then_drop take_then_drop' split: if_splits)
    next
      case False
      with pos have src: "pad_src s = wire_src w" by (simp add: pad_src_def s)
      from False pos r s obtain hdr x1 w1 where h: "read_full wire_read w 2 = Some (hdr, x1, w1)"
        by (auto simp: padding_read_def split: option.splits)
      note t1 = full_leaves [OF h]
      consider (err) x where "x1 = Some x" | (none) "x1 = None" "be_get hdr = 0" | (body) "x1 = None" "be_get hdr \<noteq> 0"
        by (cases x1) auto
      then show ?thesis
      proof cases
        case err
        with False pos r s h show ?thesis by (auto simp: padding_read_def)
      next
        case none
        with False pos r s h obtain w2 where w2: "skip_padding wire_read w1 = Some (e, w2)" "bs = []" "s' = (c, w2)"
          by (auto simp: padding_read_def split: option.splits)
        from subseq_order.order_trans [OF skip_thin [OF w2(1)] t1] False pos show ?thesis
          unfolding src by (simp add: w2(2,3) pad_src_def)
      next
        case body
        with False pos r s h obtain got x2 w2 where b: "read_full wire_read w1 (be_get hdr) = Some (got, x2, w2)"
          by (auto simp: padding_read_def split: option.splits)
        have t2: "subseq (got @ wire_src w2) (wire_src w)"
          by (rule subseq_order.order_trans [OF wire_thin.full_thin [OF b] t1]) simp
        show ?thesis
        proof (cases x2)
          case (Some x)
          with body False pos r s h b show ?thesis by (auto simp: padding_read_def)
        next
          case None
          with body False pos r s h b obtain y w3 where y: "skip_padding wire_read w2 = Some (y, w3)"
            by (auto simp: padding_read_def split: option.splits)
          have t3: "subseq (got @ wire_src w3) (wire_src w)"
            by (rule subseq_order.order_trans [OF subseq_prefix [OF skip_thin [OF y]] t2])
          have td: "take n got @ drop n got @ zs = got @ zs" for zs by (metis append_assoc append_take_drop_id)
          from None body False pos r s h b y t3 show ?thesis
            by (cases y) (auto simp: padding_read_def src, simp add: pad_src_def td)
        qed
      qed
    qed
  qed
qed (auto intro: subseq_order.order_trans subseq_prefix)


lemma delay_thin: "thin rd src le P \<Longrightarrow> thin (delay_read rd) (src \<circ> snd) le P"
proof (rule thin.intro)
  assume t: "thin rd src le P"
  show "le xs xs" "le xs ys \<Longrightarrow> le ys zs \<Longrightarrow> le xs zs" "le xs ys \<Longrightarrow> le (zs @ xs) (zs @ ys)" "\<not> P e \<Longrightarrow> le [] xs" "P None" for xs ys zs e
    using thin.le_refl [OF t] thin.le_trans [OF t] thin.le_prefix [OF t] thin.le_drop [OF t] thin.P_none [OF t] by blast+
  show "le (bs @ (if P e then (src \<circ> snd) s' else [])) ((src \<circ> snd) s)" if "delay_read rd s n = Some (bs, e, s')" for s n bs e s'
  proof -
    from that have "rd (snd s) n = Some (bs, e, snd s')"
      by (auto simp: delay_read_def split: option.splits prod.splits)
    from thin.read_thin [OF t this] show ?thesis by (cases "P e") simp_all
  qed
qed

section \<open>The token\<close>

lemma subseq_drop: "subseq (drop n xs) xs"
  by (rule subseq_tail [of "take n xs"]) simp

lemma subseq_trim_left: "subseq (trim_left s) s"
proof (induction s rule: trim_left.induct)
  case (1 s)
  show ?case
  proof (cases "space_len s = 0 \<or> s = []")
    case True
    then show ?thesis by (subst trim_left.simps) auto
  next
    case False
    with 1 subseq_drop [of "space_len s" s] show ?thesis
      by (subst trim_left.simps) (auto intro: subseq_order.order_trans)
  qed
qed

lemma subseq_rtrim: "subseq (rtrim s) s"
proof (induction s rule: rtrim.induct)
  case (1 s)
  show ?case
  proof (cases "rspace_len s = 0 \<or> s = []")
    case True
    then show ?thesis by (subst rtrim.simps) auto
  next
    case False
    with 1 subseq_drop [of "rspace_len s" s] show ?thesis
      by (subst rtrim.simps) (auto intro: subseq_order.order_trans)
  qed
qed

lemma subseq_rev: "subseq xs ys \<Longrightarrow> subseq (rev xs) (rev ys)"
proof (induction rule: list_emb.induct)
  case (list_emb_Cons xs ys y)
  then show ?case using list_emb_append_mono [OF _ list_emb_Nil, of _ "rev xs" "rev ys" "[y]"] by simp
next
  case (list_emb_Cons2 x y xs ys)
  then show ?case by (auto intro: list_emb_append_mono)
qed simp

lemma subseq_trim: "subseq (trim_space s) s"
proof -
  have "subseq (rev (rtrim (rev (trim_left s)))) (rev (rev (trim_left s)))" by (rule subseq_rev [OF subseq_rtrim])
  with subseq_trim_left [of s] show ?thesis by (auto simp: trim_space_def intro: subseq_order.order_trans)
qed

lemma vless_needs_token:
  assumes t: "thin (s_read io) src subseq P" and d: "\<And>d s. src (s_deadline io d s) = src s"
    and h: "vless_handshake io (Some (role_config tok timeout ''server'')) s = Some (None, s1)"
  shows "subseq (trim_space tok) (src s)"
proof -
  let ?s = "if timeout > 0 then s_deadline io timeout s else s"
  from h have "token_server ''vless'' io (trim_space tok) ?s = Some (None, s1)"
    by (auto simp: vless_handshake_def role_config_def raw_get_def Let_def vless_server_def split: if_splits)
  then obtain line br where l: "read_line (s_read io) (new_bufrd ?s) = Some (line, None, br)" "trim_space line = trim_space tok"
    by (auto simp: token_server_def split: option.splits prod.splits if_splits)
  from thin.line_thin [OF t l(1) [unfolded read_line_def]] thin.P_none [OF t]
  have "subseq (line @ thin.bufsrc src P br) (src ?s)" by (simp add: thin.bufsrc_new [OF t])
  then have "subseq line (src ?s)"
    using list_emb_append_mono [OF subseq_order.order_refl list_emb_Nil, of line] by (auto intro: subseq_order.order_trans)
  with subseq_trim [of line] l(2) d show ?thesis by (auto intro: subseq_order.order_trans split: if_splits)
qed


text \<open>A connection behind the handshake, and what it takes.\<close>

definition reached :: "outcome option \<Rightarrow> bool" where
  "reached r \<longleftrightarrow> (\<exists>oc. r = Some oc \<and> (oc_target oc \<noteq> None \<or> oc_udp oc \<noteq> None))"

lemma stop_not_reached [simp]: "\<not> reached (Some (stop lg w))" "\<not> reached None"
  by (simp_all add: reached_def stop_def)

lemma handshake_needs_token:
  assumes "reached (handshake_phase io base ev srv ''vless'' ag [] s lg)" "vlessToken srv \<noteq> ''''"
    and "thin (s_read io) src subseq P" "\<And>d s. src (s_deadline io d s) = src s" "subseq (src s) all"
  shows "subseq (trim_space (vlessToken srv)) all"
proof -
  from assms(1,2) obtain s1 where
    "vless_handshake io (Some (role_config (vlessToken srv) (5 * Second) ''server'')) s = Some (None, s1)"
    by (auto simp: handshake_phase_def Let_def split: option.splits prod.splits)
  from vless_needs_token [OF assms(3,4) this] assms(5) show ?thesis by (auto intro: subseq_order.order_trans)
qed

lemma layer_reads [simp]:
  "s_read wire_rwc = wire_read" "s_read (pad_rwc io) = padding_read (s_read io)"
  "s_read (delay_rwc io) = delay_read (s_read io)" "s_read (prefix_rwc io) = prefix_read (s_read io)"
  "s_deadline (pad_rwc io) d x = x" "s_deadline (delay_rwc io) d y = y" "s_deadline (prefix_rwc io) d z = z"
  "wire_src (s_deadline wire_rwc d w) = wire_src w"
  by (simp_all add: wire_rwc_def pad_rwc_def delay_rwc_def prefix_rwc_def)

lemma new_padding_src: "pad_src (new_padding pmin pmax g, w) = wire_src w"
  by (simp add: pad_src_def new_padding_def Let_def)

lemma agreed_needs_token:
  assumes "reached (agreed_phase ev srv ''vless'' ob w lg)" "vlessToken srv \<noteq> ''''" "subseq (wire_src w) all"
  shows "subseq (trim_space (vlessToken srv)) all"
proof -
  note hs = handshake_needs_token [OF _ assms(2)]
  have t: "thin (s_read (delay_rwc (pad_rwc wire_rwc))) (pad_src \<circ> snd) subseq (\<lambda>e. e = None)"
    "thin (s_read (pad_rwc wire_rwc)) pad_src subseq (\<lambda>e. e = None)"
    "thin (s_read (delay_rwc wire_rwc)) (wire_src \<circ> snd) subseq (\<lambda>_. True)"
    "thin (s_read wire_rwc) wire_src subseq (\<lambda>_. True)"
    by (simp_all only: layer_reads delay_thin pad_thin.thin_axioms wire_thin.thin_axioms)
  show ?thesis
  proof (cases "PMax ob > 0")
    case pad: True
    show ?thesis
    proof (cases "WDMax ob > 0")
      case True
      with pad assms(1) have r: "reached (handshake_phase (delay_rwc (pad_rwc wire_rwc)) (snd \<circ> snd) ev srv ''vless'' True []
          (new_delay (WDMin ob) (WDMax ob) (e_delay_rng ev), (new_padding (PMin ob) (PMax ob) (e_pad_rng ev), w)) lg)"
        by (simp add: agreed_phase_def Let_def)
      show ?thesis by (rule hs [OF r t(1)]) (simp_all add: new_padding_src assms(3))
    next
      case False
      with pad assms(1) have r: "reached (handshake_phase (pad_rwc wire_rwc) snd ev srv ''vless'' True []
          (new_padding (PMin ob) (PMax ob) (e_pad_rng ev), w) lg)"
        by (simp add: agreed_phase_def Let_def)
      show ?thesis by (rule hs [OF r t(2)]) (simp_all add: new_padding_src assms(3))
    qed
  next
    case pad: False
    show ?thesis
    proof (cases "WDMax ob > 0")
      case True
      with pad assms(1) have r: "reached (handshake_phase (delay_rwc wire_rwc) snd ev srv ''vless'' True []
          (new_delay (WDMin ob) (WDMax ob) (e_delay_rng ev), w) lg)"
        by (simp add: agreed_phase_def Let_def)
      show ?thesis by (rule hs [OF r t(3)]) (simp_all add: assms(3))
    next
      case False
      with pad assms(1) have r: "reached (handshake_phase wire_rwc (\<lambda>w. w) ev srv ''vless'' True [] w lg)"
        by (simp add: agreed_phase_def Let_def)
      show ?thesis by (rule hs [OF r t(4)]) (simp_all add: assms(3))
    qed
  qed
qed

lemma write_string_src: "write_string wire_rwc w bs = (e, w') \<Longrightarrow> wire_src w' = wire_src w"
  by (auto simp: write_string_def wire_rwc_def wire_write_def split: if_splits option.splits nat.splits)

definition plain_start :: "bytes \<Rightarrow> bool" where
  "plain_start bs \<longleftrightarrow> has_prefix bs ''TCP '' \<or> has_prefix bs ''UDP '' \<or> has_prefix bs ''DIRECT ''"

lemma prefixed_needs_token:
  assumes "reached (with_prefix ev srv ''vless'' pre w lg)" "vlessToken srv \<noteq> ''''" "subseq (pre @ wire_src w) all"
  shows "subseq (trim_space (vlessToken srv)) all"
proof -
  have "thin (s_read (prefix_rwc wire_rwc)) prefix_src subseq (\<lambda>_. True)"
    by (simp only: layer_reads prefix_thin.thin_axioms)
  from handshake_needs_token [OF assms(1) [unfolded with_prefix_def] assms(2) this] assms(3) show ?thesis
    by (simp add: prefix_src_def)
qed

lemma first_line_needs_token:
  assumes "reached (first_line_phase ev srv ''vless'' line w lg)" "vlessToken srv \<noteq> ''''" "subseq (line @ wire_src w) all"
  shows "plain_start line \<or> subseq (trim_space (vlessToken srv)) all"
proof -
  have t: "thin (s_read wire_rwc) wire_src subseq (\<lambda>_. True)" by (simp only: layer_reads wire_thin.thin_axioms)
  from subseq_tail [OF assms(3)] have src: "subseq (wire_src w) all" .
  consider (obfs) "has_prefix line obfs_prefix" | (plain) "plain_start line"
    | (other) "\<not> has_prefix line obfs_prefix" "\<not> plain_start line" by blast
  then show ?thesis
  proof cases
    case obfs
    show ?thesis
    proof (cases "ParseObfsLine line")
      case None
      with obfs assms(1) have "reached (handshake_phase wire_rwc (\<lambda>w. w) ev srv ''vless'' False [] w lg)"
        by (simp add: first_line_phase_def)
      from handshake_needs_token [OF this assms(2) t _ src] show ?thesis by simp
    next
      case (Some ob)
      obtain e w1 where w1: "write_string wire_rwc w (FormatObfsLine (AgreeObfs (srv_obfs srv) ob)) = (e, w1)" by fastforce
      with Some obfs assms(1) have "reached (agreed_phase ev srv ''vless'' (AgreeObfs (srv_obfs srv) ob) w1 lg)"
        by (auto simp: first_line_phase_def Let_def split: option.splits)
      from agreed_needs_token [OF this assms(2)] write_string_src [OF w1] src show ?thesis by simp
    qed
  next
    case other
    with assms(1) have "reached (with_prefix ev srv ''vless'' line w lg)"
      by (simp add: first_line_phase_def plain_start_def)
    from prefixed_needs_token [OF this assms(2,3)] show ?thesis by blast
  qed blast
qed

text \<open>
  C11: a token guards the streams of a peer that negotiated vless, except those that begin with a
  request: when the handler reaches a target, or opens a socket, on a node with a token, the client
  has sent the bytes of the token in their order, whatever obfuscation was agreed in between, or the
  stream began with \<open>TCP\<close>, \<open>UDP\<close> or \<open>DIRECT\<close>, for which the token is not looked at.
\<close>

theorem token_guards_vless:
  assumes "lastChosenProtocol pid srv = ''vless''" "vlessToken srv \<noteq> ''''"
    and "handleProxyStream ev srv pid region w = Some oc" "oc_target oc \<noteq> None \<or> oc_udp oc \<noteq> None"
  shows "plain_start (concat (rx w)) \<or> subseq (trim_space (vlessToken srv)) (concat (rx w))"
proof -
  let ?lg = "new_slog (has_metrics srv) ''vless'' region" and ?all = "concat (rx w)"
  have r: "reached (handleProxyStream ev srv pid region w)" using assms(3,4) by (auto simp: reached_def)
  obtain x br where b: "read_byte wire_read (new_bufrd w) = Some (x, br)"
    using assms(3) by (cases "read_byte wire_read (new_bufrd w)") (auto simp: handleProxyStream_def Let_def)
  have new: "wire_exact.bufsrc (new_bufrd w) = ?all" by (rule wire_exact.bufsrc_new)
  have bt: "\<forall>c. x = Inr c \<longrightarrow> c # wire_exact.bufsrc br = ?all" "\<forall>e. x = Inl e \<longrightarrow> wire_src (b_src br) = ?all"
    using wire_exact.byte_thin [OF b] new by (simp_all add: new_bufrd_def)
  have sub: "subseq (wire_src (b_src b)) (wire_exact.bufsrc b)" for b
    by (simp add: wire_exact.bufsrc_def list_emb_append2)
  show ?thesis
  proof (cases x)
    case (Inl e)
    with r b assms(1) have h: "reached (handshake_phase wire_rwc (\<lambda>w. w) ev srv ''vless'' False [] (b_src br) ?lg)"
      by (simp add: handleProxyStream_def Let_def)
    have t: "thin (s_read wire_rwc) wire_src subseq (\<lambda>_. True)" by (simp only: layer_reads wire_thin.thin_axioms)
    from handshake_needs_token [OF h assms(2) t] bt(2) Inl show ?thesis by simp
  next
    case (Inr c)
    with bt(1) have c: "c # wire_exact.bufsrc br = ?all" by blast
    show ?thesis
    proof (cases "text_start c")
      case False
      with Inr r b assms(1) have h: "reached (with_prefix ev srv ''vless'' [c] (b_src br) ?lg)"
        by (simp add: handleProxyStream_def Let_def)
      have "subseq ([c] @ wire_src (b_src br)) ?all"
        unfolding c [symmetric] using sub [of br] by simp
      from prefixed_needs_token [OF h assms(2) this] show ?thesis ..
    next
      case True
      with Inr r b obtain rest e br2 where l: "read_line wire_read br = Some (rest, e, br2)"
        by (cases "read_line wire_read br") (auto simp: handleProxyStream_def Let_def)
      with True Inr r b assms(1) have h: "reached (first_line_phase ev srv ''vless'' (c # rest) (b_src br2) ?lg)"
        by (simp add: handleProxyStream_def Let_def)
      from wire_exact.line_thin [OF l [unfolded read_line_def]]
      have a: "(c # rest) @ wire_exact.bufsrc br2 = ?all" using c by simp
      have "subseq ((c # rest) @ wire_src (b_src br2)) ?all"
        unfolding a [symmetric] by (rule subseq_prefix [OF sub])
      from first_line_needs_token [OF h assms(2) this]
      have "plain_start (c # rest) \<or> subseq (trim_space (vlessToken srv)) ?all" .
      moreover have "plain_start ?all" if "plain_start (c # rest)"
        using that unfolding a [symmetric] plain_start_def has_prefix_iff by (metis append_assoc)
      ultimately show ?thesis by blast
    qed
  qed
qed


section \<open>A client that has the token\<close>

lemma prefix_line:
  assumes "rx w = (cs @ nl) # segs" "c \<noteq> newline" "newline \<notin> set cs" "length (cs @ nl) < bufio_size" "\<not> closed w"
  shows "read_line (prefix_read wire_read) (new_bufrd (\<lparr>pc_prefix = [c], pc_off = 0\<rparr>, w)) =
    Some (c # cs @ nl, None, \<lparr>b_src = (\<lparr>pc_prefix = [c], pc_off = 1\<rparr>, w\<lparr>rx := segs\<rparr>), b_buf = [], b_err = None\<rparr>)"
proof -
  let ?p = "\<lparr>pc_prefix = [c], pc_off = 1\<rparr>"
  let ?b1 = "\<lparr>b_src = (?p, w), b_buf = [c], b_err = None\<rparr>"
  let ?b2 = "\<lparr>b_src = (?p, w\<lparr>rx := segs\<rparr>), b_buf = c # cs @ newline # [], b_err = None\<rparr>"
  have f1: "bufio_fill 100 (prefix_read wire_read) (new_bufrd (\<lparr>pc_prefix = [c], pc_off = 0\<rparr>, w)) = Some ?b1"
    by (simp add: bufio_fill_numeral new_bufrd_def bufio_size_def prefix_read_def Let_def)
  have f2: "bufio_fill 100 (prefix_read wire_read) ?b1 = Some ?b2"
    using assms(1,4,5) by (simp add: bufio_fill_numeral prefix_read_def wire_read_def bufio_size_def nl_def)
  have "read_line (prefix_read wire_read) (new_bufrd (\<lparr>pc_prefix = [c], pc_off = 0\<rparr>, w)) =
      read_line (prefix_read wire_read) ?b2"
    unfolding read_line_def
    by (subst read_string.simps, subst read_string.simps)
      (use f1 f2 assms(2) in \<open>simp add: new_bufrd_def bufio_size_def\<close>)
  also have "\<dots> = Some ((c # cs) @ nl, None, ?b2\<lparr>b_buf := []\<rparr>)"
    by (rule buffered_line) (use assms(2,3) in auto)
  finally show ?thesis by simp
qed

lemma spent_prefix_line:
  assumes "rx w = (l @ nl) # segs" "newline \<notin> set l" "length (l @ nl) \<le> bufio_size" "\<not> closed w"
  shows "read_line (prefix_read wire_read) (new_bufrd (\<lparr>pc_prefix = [c], pc_off = 1\<rparr>, w)) =
    Some (l @ nl, None, new_bufrd (\<lparr>pc_prefix = [c], pc_off = 1\<rparr>, w\<lparr>rx := segs\<rparr>))"
proof -
  let ?p = "\<lparr>pc_prefix = [c], pc_off = 1\<rparr>"
  let ?b = "\<lparr>b_src = (?p, w\<lparr>rx := segs\<rparr>), b_buf = l @ newline # [], b_err = None\<rparr>"
  have "bufio_fill 100 (prefix_read wire_read) (new_bufrd (?p, w)) = Some ?b"
    using assms(1,3,4) by (simp add: bufio_fill_numeral new_bufrd_def bufio_size_def prefix_read_def wire_read_def nl_def)
  then have "read_line (prefix_read wire_read) (new_bufrd (?p, w)) = read_line (prefix_read wire_read) ?b"
    unfolding read_line_def by (subst read_string.simps) (simp add: new_bufrd_def bufio_size_def)
  also have "\<dots> = Some (l @ nl, None, ?b\<lparr>b_buf := []\<rparr>)"
    by (rule buffered_line) (simp_all add: assms(2))
  finally show ?thesis by (simp add: new_bufrd_def)
qed

text \<open>
  The token admits: sent with its first byte in a segment of its own, which is what the handler
  needs, it is answered, and the request behind it reaches its target.
\<close>

lemma token_admits:
  assumes s: "lastChosenProtocol pid srv = ''vless''" "vlessToken srv = c # cs" "token_ok (c # cs)" "\<not> text_start c"
    and o: "PMax (srv_obfs srv) \<le> 0" "WDMax (srv_obfs srv) \<le> 0"
    and w: "rx w = [c] # (cs @ nl) # request_line p host port # segs" "length (cs @ nl) < bufio_size" "wire_up w"
      "length (request_line p host port) \<le> bufio_size"
    and p: "p = ''TCP'' \<or> p = ''DIRECT''" and h: "host_ok host" "0 < port" "port \<le> 65535"
    and d: "e_dial_tcp ev host port = Inr t"
  shows "\<exists>oc. handleProxyStream ev srv pid region w = Some oc \<and> oc_target oc \<noteq> None"
proof -
  let ?lg = "new_slog (has_metrics srv) ''vless'' region" and ?io = "prefix_rwc wire_rwc"
  let ?w1 = "w\<lparr>rx := (cs @ nl) # request_line p host port # segs\<rparr>"
  let ?w2 = "w\<lparr>rx := request_line p host port # segs, tx := tx w @ ''OK'' @ nl\<rparr>" and ?q = "\<lparr>pc_prefix = [c], pc_off = 1\<rparr>"
  have up: "\<not> closed w" "tx_room w = None" using w(3) by (simp_all add: wire_up_def)
  have cs: "c \<noteq> newline" "newline \<notin> set cs" "trim_space (c # cs) = c # cs" "trim_space (c # cs @ nl) = c # cs"
    using token_okD [OF s(3)] by auto
  have p3: "p = ''TCP'' \<or> p = ''UDP'' \<or> p = ''DIRECT''" using p by blast
  from request_line_shape(1) [OF p3 h(1)] obtain d' l' where
    "request_line p host port = d' # l' @ nl" "text_start d'" "newline \<notin> set l'" by blast
  then have "request_line p host port = (d' # l') @ nl" "newline \<notin> set (d' # l')" by (auto simp: text_start_def)
  then obtain l where l: "request_line p host port = l @ nl" "newline \<notin> set l" by blast
  have "handleProxyStream ev srv pid region w = with_prefix ev srv ''vless'' [c] ?w1 ?lg"
    using handle_binary_first [of w c "[]", OF _ _ up(1) s(4)] w(1) s(1) by (simp add: bufio_size_def)
  also have "\<dots> = obfs_phase ?io snd ev srv False [] (?q, ?w2) ?lg"
  proof -
    have "token_server ''vless'' ?io (c # cs) (\<lparr>pc_prefix = [c], pc_off = 0\<rparr>, ?w1) = Some (None, (?q, ?w2))"
      using prefix_line [of ?w1 cs "request_line p host port # segs" c] cs w(2) up
      by (simp add: token_server_def write_string_def wire_write_up wire_up_def under_def prefix_rwc_def wire_rwc_def)
    then show ?thesis using s(2) cs(3)
      by (simp add: with_prefix_def handshake_phase_def vless_handshake_def vless_server_def role_config_def
          raw_get_def Let_def prefix_rwc_def Second_def)
  qed
  also have "\<dots> = request_phase ?io snd ev [] (?q, ?w2) ?lg" by (rule obfs_off [OF o])
  also have "\<dots> = serve_request ?io snd ev (request_line p host port)
      (new_bufrd (?q, ?w2\<lparr>rx := segs\<rparr>)) ?lg"
    using spent_prefix_line [of ?w2 l segs c] l w(4) up(1)
    by (simp add: request_phase_def layer_reads)
  finally have r: "handleProxyStream ev srv pid region w = \<dots>" .
  have "to_upper p = ''TCP'' \<or> to_upper p = ''DIRECT''" using p request_line_shape(4) [OF p3 h(1)] by simp
  then show ?thesis using d up
    by (simp add: r serve_request_def ParseRequest_line [OF p3 h] handleTCPProxy_def tcp_outcome_def Let_def
        split: prod.splits option.splits)
qed

lemma token_guards_vless_witness:
  "\<exists>oc w. w = wire_of [''s'', ''ecret'' @ nl, request_line ''TCP'' ''example.com'' 80, ''GET /''] (Some EOF) \<and>
    handleProxyStream (wit_env []) wit_server_state ''peer1'' ''de'' w = Some oc \<and> oc_target oc \<noteq> None \<and>
    (plain_start (concat (rx w)) \<or> subseq (trim_space ''secret'') (concat (rx w)))"
proof -
  let ?w = "wire_of [''s'', ''ecret'' @ nl, request_line ''TCP'' ''example.com'' 80, ''GET /''] (Some EOF)"
  have i: "itoa 80 = ''80''" by code_simp
  have s: "lastChosenProtocol ''peer1'' wit_server_state = ''vless''" "vlessToken wit_server_state = ''secret''"
    by code_simp+
  have "\<exists>oc. handleProxyStream (wit_env []) wit_server_state ''peer1'' ''de'' ?w = Some oc \<and> oc_target oc \<noteq> None"
    by (rule token_admits [OF s(1,2), where p = "''TCP''" and segs = "[''GET /'']" and t = wit_target])
      (simp_all add: wit_server_state_def RememberChosenProtocol_def SetVLESSAuthToken_def NewServer_def token_ok_def
        solid_def plain_byte_def text_start_def bufio_size_def nl_def wire_of_def wire_up_def host_ok_def
        request_line_def i wit_env_def)
  then obtain oc where r: "handleProxyStream (wit_env []) wit_server_state ''peer1'' ''de'' ?w = Some oc"
    "oc_target oc \<noteq> None" by blast
  from token_guards_vless [OF s(1) _ r(1)] r s show ?thesis by auto
qed

section \<open>Protocols without a check\<close>

text \<open>
  For a peer that negotiated anything but vless, vmess and shadowsocks, trojan included, the token of
  the node changes nothing.
\<close>

lemma token_no_matter_obfs: "obfs_phase io base ev (srv\<lparr>vlessToken := t\<rparr>) ag fl s lg = obfs_phase io base ev srv ag fl s lg"
  by (simp add: obfs_phase_def)

lemma token_no_matter_hs:
  assumes "ch \<noteq> ''vless''" "ch \<noteq> ''vmess''" "ch \<noteq> ''shadowsocks''"
  shows "handshake_phase io base ev (srv\<lparr>vlessToken := t\<rparr>) ch ag fl s lg = handshake_phase io base ev srv ch ag fl s lg"
  using assms by (simp add: handshake_phase_def Let_def token_no_matter_obfs split: sum.split)

lemma token_unchecked:
  assumes "lastChosenProtocol pid srv = ch" "ch \<noteq> ''vless''" "ch \<noteq> ''vmess''" "ch \<noteq> ''shadowsocks''"
  shows "handleProxyStream ev (SetVLESSAuthToken t srv) pid region w = handleProxyStream ev srv pid region w"
proof -
  note hs = token_no_matter_hs [OF assms(2-4)]
  have "first_line_phase ev (srv\<lparr>vlessToken := t\<rparr>) ch line w' lg = first_line_phase ev srv ch line w' lg" for line w' lg
    by (simp add: first_line_phase_def agreed_phase_def with_prefix_def Let_def hs split: option.split prod.split)
  with assms(1) show ?thesis
    by (simp add: handleProxyStream_def SetVLESSAuthToken_def lastChosenProtocol_def with_prefix_def hs Let_def
        split: option.split sum.split)
qed

end
