(* ===== verification/GoAddr.thy ===== *)
theory GoAddr
  imports GoNet
begin

text \<open>
  What the code uses of package \<open>net\<close> to take addresses apart: \<open>net.SplitHostPort\<close> and
  \<open>net.LookupPort\<close>, whose table of named services belongs to the system.
\<close>

section \<open>Host and port\<close>

definition addr_err :: "string \<Rightarrow> string \<Rightarrow> err" where
  "addr_err addr why = Err (if addr = '''' then why else ''address '' @ addr @ '': '' @ why)"

definition brackets :: "string \<Rightarrow> bool" where
  "brackets s \<longleftrightarrow> CHR ''['' \<in> set s \<or> CHR '']'' \<in> set s"

definition SplitHostPort :: "string \<Rightarrow> err + (string \<times> string)" where
  "SplitHostPort s =
     (case cut_last (CHR '':'') s of
        None \<Rightarrow> Inl (addr_err s ''missing port in address'')
      | Some (front, port) \<Rightarrow>
          if hd s = CHR ''['' then
            (case cut_first (CHR '']'') s of
               None \<Rightarrow> Inl (addr_err s ''missing ']' in address'')
             | Some (h, behind) \<Rightarrow>
                 if behind = '''' then Inl (addr_err s ''missing port in address'')
                 else if Suc (length h) \<noteq> length front then
                   (if hd behind = CHR '':'' then Inl (addr_err s ''too many colons in address'')
                    else Inl (addr_err s ''missing port in address''))
                 else if CHR ''['' \<in> set (tl s) then Inl (addr_err s ''unexpected '[' in address'')
                 else if CHR '']'' \<in> set behind then Inl (addr_err s ''unexpected ']' in address'')
                 else Inr (tl h, port))
          else if CHR '':'' \<in> set front then Inl (addr_err s ''too many colons in address'')
          else if CHR ''['' \<in> set s then Inl (addr_err s ''unexpected '[' in address'')
          else if CHR '']'' \<in> set s then Inl (addr_err s ''unexpected ']' in address'')
          else Inr (front, port))"

section \<open>Ports\<close>

text \<open>
  The digits of a port, in 32 bits; None means that the text is not a number. From \<open>2^30\<close> on the
  number counts as too large, whatever follows.
\<close>

fun port_digits :: "nat \<Rightarrow> bytes \<Rightarrow> nat option" where
  "port_digits n [] = Some n"
| "port_digits n (d # s) =
     (if \<not> is_digit d then None
      else if 2 ^ 30 \<le> n then Some (2 ^ 32 - 1)
      else
        let m = n * 10 mod 2 ^ 32; nn = (m + digit_val d) mod 2 ^ 32
        in if nn < m then Some (2 ^ 32 - 1) else port_digits nn s)"

definition parsePort :: "string \<Rightarrow> int option" where
  "parsePort s =
     (if s = '''' then Some 0
      else
        let neg = (hd s = CHR ''-'');
            ds = (if hd s = CHR ''+'' \<or> neg then tl s else s)
        in case port_digits 0 ds of
             None \<Rightarrow> None
           | Some n \<Rightarrow>
               if neg then Some (- int (if 2 ^ 30 < n then 2 ^ 30 else n))
               else Some (int (if 2 ^ 30 \<le> n then 2 ^ 30 - 1 else n)))"

definition LookupPort :: "(string \<Rightarrow> err + int) \<Rightarrow> string \<Rightarrow> err + int" where
  "LookupPort services s =
     (case (case parsePort s of Some p \<Rightarrow> Inr p | None \<Rightarrow> services s) of
        Inl e \<Rightarrow> Inl e
      | Inr p \<Rightarrow> if p < 0 \<or> p > 65535 then Inl (addr_err s ''invalid port'') else Inr p)"

section \<open>Taking apart what was put together\<close>

lemma cut_last_colon: "CHR '':'' \<notin> set b \<Longrightarrow> cut_last (CHR '':'') (a @ CHR '':'' # b) = Some (a, b)"
  by (rule cut_last_hit)

text \<open>An address made of a host and a port is split into the two again, IPv6 addresses included.\<close>

lemma split_join:
  assumes "\<not> brackets host" "\<not> brackets port" "CHR '':'' \<notin> set port"
  shows "SplitHostPort (join_host_port host port) = Inr (host, port)"
proof (cases "CHR '':'' \<in> set host")
  case True
  let ?s = "CHR ''['' # host @ CHR '']'' # CHR '':'' # port"
  have s: "join_host_port host port = ?s" using True by (simp add: join_host_port_def)
  have "cut_last (CHR '':'') ((CHR ''['' # host @ [CHR '']'']) @ CHR '':'' # port) =
      Some (CHR ''['' # host @ [CHR '']''], port)" by (rule cut_last_hit [OF assms(3)])
  moreover have "cut_first (CHR '']'') ((CHR ''['' # host) @ CHR '']'' # (CHR '':'' # port)) =
      Some (CHR ''['' # host, CHR '':'' # port)" by (rule cut_first_hit) (use assms(1) in \<open>simp add: brackets_def\<close>)
  ultimately show ?thesis using assms by (simp add: s SplitHostPort_def brackets_def)
next
  case False
  have s: "join_host_port host port = host @ CHR '':'' # port" using False by (simp add: join_host_port_def)
  have "hd (host @ CHR '':'' # port) \<noteq> CHR ''[''"
    using assms(1) by (cases host) (auto simp: brackets_def)
  with cut_last_hit [OF assms(3), of host] False assms(1,2) show ?thesis
    by (simp add: s SplitHostPort_def brackets_def)
qed

lemma port_digits_value:
  "list_all is_digit s \<Longrightarrow> dec_val_acc n s < 2 ^ 30 \<Longrightarrow> port_digits n s = Some (dec_val_acc n s)"
proof (induction s arbitrary: n)
  case (Cons d s)
  have mono: "n \<le> dec_val_acc n s" for n s
  proof (induction s arbitrary: n)
    case (Cons d s)
    from Cons.IH [of "n * 10 + digit_val d"] show ?case by simp
  qed simp
  from mono [of "n * 10 + digit_val d" s] Cons.prems have "n * 10 + digit_val d < 2 ^ 30" by simp
  with Cons show ?case by (simp add: Let_def)
qed simp

text \<open>A printed port is looked up as itself.\<close>

lemma LookupPort_itoa:
  assumes "0 \<le> p" "p \<le> 65535"
  shows "LookupPort services (itoa p) = Inr p"
proof -
  have d: "itoa p = dec_of_nat (nat p)" "list_all is_digit (itoa p)" "itoa p \<noteq> ''''" using assms by (simp_all add: itoa_def)
  from d(2,3) have h: "hd (itoa p) \<noteq> CHR ''-''" "hd (itoa p) \<noteq> CHR ''+''"
    by (cases "itoa p"; auto simp: is_digit_def)+
  have v: "dec_val_acc 0 (itoa p) = nat p" using dec_val_dec_of_nat [of "nat p"] by (simp add: d(1) dec_val_def)
  have "port_digits 0 (itoa p) = Some (nat p)"
    using port_digits_value [OF d(2), of 0] assms(2) v by simp
  with d(3) h assms show ?thesis by (auto simp: LookupPort_def parsePort_def Let_def)
qed

end
