(* ===== verification/Forwarder.thy ===== *)
theory Forwarder
  imports GoAddr ObfsSession TlsFront ClientApp
begin

text \<open>
  \<open>cmd/proxy-forwarder/main.go\<close>: a local TCP port whose connections are carried to one target through
  a proxy node, each over a session of its own; and how the node dials that target, \<open>dialTCP\<close> and
  \<open>dialUDP\<close> of \<open>hypernet/services/proxy/server/proxy.go\<close>. Sockets and signals are parameters.
\<close>

section \<open>Dialling on the node\<close>

definition dialTCP :: "(string \<Rightarrow> err + 'c) \<Rightarrow> string \<Rightarrow> int \<Rightarrow> err + 'c" where
  "dialTCP dial host port = dial (join_host_port host (itoa port))"

text \<open>The address is resolved first; a dialled connection that is not a UDP connection is closed.\<close>

definition dialUDP :: "(string \<Rightarrow> err + string) \<Rightarrow> (string \<Rightarrow> err + ('c + string)) \<Rightarrow> string \<Rightarrow> int \<Rightarrow> err + 'c" where
  "dialUDP resolve dial host port =
     (case resolve (join_host_port host (itoa port)) of
        Inl e \<Rightarrow> Inl e
      | Inr raddr \<Rightarrow>
          (case dial raddr of
             Inl e \<Rightarrow> Inl e
           | Inr (Inl conn) \<Rightarrow> Inr conn
           | Inr (Inr type) \<Rightarrow> Inl (Err (''expected *net.UDPConn, got '' @ type))))"

section \<open>The arguments\<close>

definition fwd_splitHostPort :: "(string \<Rightarrow> err + int) \<Rightarrow> string \<Rightarrow> err + (string \<times> int)" where
  "fwd_splitHostPort svc addr =
     (case SplitHostPort addr of
        Inl e \<Rightarrow> Inl e
      | Inr (host, portStr) \<Rightarrow>
          (case LookupPort svc portStr of Inl e \<Rightarrow> Inl e | Inr port \<Rightarrow> Inr (host, port)))"

definition fwd_config :: node_config where
  "fwd_config = zero_config\<lparr>Port := 0, KeyPath := ''proxy-forwarder.key''\<rparr>"

text \<open>\<open>main\<close> up to the listener: how it exits, or the client and the target.\<close>

definition fwd_main ::
  "node_lib \<Rightarrow> peer_parser \<Rightarrow> bool \<Rightarrow> (string \<Rightarrow> err + int) \<Rightarrow> (string \<Rightarrow> err option) \<Rightarrow> environ \<Rightarrow>
     string \<Rightarrow> string \<Rightarrow> string \<Rightarrow> cli_exit + (ProxyClient \<times> string \<times> int)"
where
  "fwd_main nlib parse plain_only svc lstn env nodeAddr listen upstr =
     (if nodeAddr = '''' \<or> upstr = '''' then Inl Usage
      else case fwd_splitHostPort svc upstr of
        Inl e \<Rightarrow> Inl (Fatal (wrap_err ''invalid upstream'' e))
      | Inr (upHost, upPort) \<Rightarrow>
          (case fst (New nlib fwd_config) of
             Inl e \<Rightarrow> Inl (Fatal (wrap_err ''create node'' e))
           | Inr n \<Rightarrow>
               (case NewProxyClient parse nodeAddr plain_only
                       (getenv env ''HYPERNET_VLESS_TOKEN'') of
                  Inl e \<Rightarrow> Inl (Fatal (wrap_err ''NewProxyClient'' e))
                | Inr pc \<Rightarrow>
                    (case lstn listen of
                       Some e \<Rightarrow> Inl (Fatal (wrap_err (''listen '' @ listen) e))
                     | None \<Rightarrow> Inr (pc, upHost, upPort)))))"

text \<open>
  The accept loop: a failed accept ends it when the context has been cancelled, and is skipped
  otherwise. The result is the connections handed to \<open>handleConn\<close>, and whether the loop has ended.
\<close>

fun fwd_accept :: "(bool + wire) list \<Rightarrow> wire list \<times> bool" where
  "fwd_accept [] = ([], False)"
| "fwd_accept (Inr conn # evs) = (case fwd_accept evs of (cs, e) \<Rightarrow> (conn # cs, e))"
| "fwd_accept (Inl cancelled # evs) = (if cancelled then ([], True) else fwd_accept evs)"

section \<open>A connection\<close>

text \<open>The two copies of a connection, and whether each has reported its end.\<close>

record 's fwd =
  fw_conn :: wire
  fw_stream :: 's
  fw_up_done :: bool
  fw_down_done :: bool

definition fwd_start :: "wire \<Rightarrow> 's \<Rightarrow> 's fwd" where
  "fwd_start conn s = \<lparr>fw_conn = conn, fw_stream = s, fw_up_done = False, fw_down_done = False\<rparr>"

definition fwd_up :: "'s rwc \<Rightarrow> 's fwd \<Rightarrow> 's fwd option" where
  "fwd_up io f =
     (if fw_up_done f then None
      else case copy_round wire_read (s_write io) (fw_conn f) (fw_stream f) 0 of
        None \<Rightarrow> None
      | Some (x, c, s) \<Rightarrow> Some (f\<lparr>fw_conn := c, fw_stream := s, fw_up_done := (case x of Inl _ \<Rightarrow> True | Inr _ \<Rightarrow> False)\<rparr>))"

definition fwd_down :: "'s rwc \<Rightarrow> 's fwd \<Rightarrow> 's fwd option" where
  "fwd_down io f =
     (if fw_down_done f then None
      else case copy_round (s_read io) wire_write (fw_stream f) (fw_conn f) 0 of
        None \<Rightarrow> None
      | Some (x, s, c) \<Rightarrow> Some (f\<lparr>fw_conn := c, fw_stream := s, fw_down_done := (case x of Inl _ \<Rightarrow> True | Inr _ \<Rightarrow> False)\<rparr>))"

definition fwd_over :: "'s fwd \<Rightarrow> bool" where
  "fwd_over f \<longleftrightarrow> fw_up_done f \<or> fw_down_done f"

text \<open>Turns of the two copies, and the same up to the first of them that ends.\<close>

fun fwd_run :: "'s rwc \<Rightarrow> bool list \<Rightarrow> 's fwd \<Rightarrow> 's fwd" where
  "fwd_run io [] f = f"
| "fwd_run io (up # sched) f =
     fwd_run io sched (case (if up then fwd_up io f else fwd_down io f) of None \<Rightarrow> f | Some f' \<Rightarrow> f')"

fun fwd_first :: "'s rwc \<Rightarrow> bool list \<Rightarrow> 's fwd \<Rightarrow> 's fwd" where
  "fwd_first io [] f = f"
| "fwd_first io (up # sched) f =
     (if fwd_over f then f
      else fwd_first io sched (case (if up then fwd_up io f else fwd_down io f) of None \<Rightarrow> f | Some f' \<Rightarrow> f'))"

text \<open>
  \<open>handleConn\<close>: the dial, then the two copies until the first of them ends or the context is
  cancelled; then both ends are closed. \<open>late\<close> are the turns the copies still get before the closes
  take effect. The result has the client, the connection and the stream as
  the handler leaves them, and whether it has returned.
\<close>

record fwd_result =
  fr_client :: ProxyClient
  fr_conn :: wire
  fr_stream :: "sess option"
  fr_returned :: bool

definition handleConn ::
  "ProxyClient \<Rightarrow> (nat \<Rightarrow> net) \<Rightarrow> aead \<Rightarrow> bool list \<Rightarrow> bool list \<Rightarrow> bool \<Rightarrow> wire \<Rightarrow> string \<Rightarrow> int \<Rightarrow> fwd_result option"
where
  "handleConn pc nts gcm sched late cancelled conn upHost upPort =
     (case DialTCPWithFallback pc nts upHost upPort 0 of
        None \<Rightarrow> None
      | Some d \<Rightarrow>
          (case (d_err d, d_stream d) of
             (None, Some s) \<Rightarrow>
               (let f = fwd_first (sess_rwc gcm) sched (fwd_start conn s)
                in if fwd_over f \<or> cancelled
                   then let g = fwd_run (sess_rwc gcm) late f
                        in Some \<lparr>fr_client = d_client d, fr_conn = wire_close (fw_conn g),
                                 fr_stream = Some (sess_close (fw_stream g)), fr_returned = True\<rparr>
                   else Some \<lparr>fr_client = d_client d, fr_conn = fw_conn f, fr_stream = Some (fw_stream f),
                              fr_returned = False\<rparr>)
           | _ \<Rightarrow> Some \<lparr>fr_client = d_client d, fr_conn = wire_close conn, fr_stream = None, fr_returned = True\<rparr>))"

section \<open>The two copies over a duplex stream\<close>

definition fwd_up_left :: "'s fwd \<Rightarrow> nat" where
  "fwd_up_left f = (if fw_up_done f then 0 else 1 + length (rx (fw_conn f)) + length (concat (rx (fw_conn f))))"

context duplex
begin

text \<open>
  \<open>C\<close> and \<open>D\<close> are what the connection and the stream bring: of either, what has been written and
  what is unread.
\<close>

definition forwarding :: "bytes \<Rightarrow> bytes \<Rightarrow> bytes \<Rightarrow> bytes list \<Rightarrow> 's fwd \<Rightarrow> bool" where
  "forwarding C D c0 m0 f \<longleftrightarrow>
     live (fw_stream f) \<and> ends_well (fw_conn f) \<and>
     (\<exists>ms. sent (m0 @ ms) (fw_stream f) \<and> C = concat ms @ concat (rx (fw_conn f))) \<and>
     (\<exists>x. tx (fw_conn f) = c0 @ x \<and> D = x @ inp (fw_stream f)) \<and>
     (fw_up_done f \<longrightarrow> rx (fw_conn f) = []) \<and> (fw_down_done f \<longrightarrow> inp (fw_stream f) = [])"

definition fwd_down_left :: "'s fwd \<Rightarrow> nat" where
  "fwd_down_left f = (if fw_down_done f then 0 else 1 + work (fw_stream f))"

lemma forward_up:
  assumes lim: "copy_buf_size \<le> lim" and c: "forwarding C D c0 m0 f" and nd: "\<not> fw_up_done f"
  shows "\<exists>f'. fwd_up io f = Some f' \<and> forwarding C D c0 m0 f' \<and> fwd_up_left f' < fwd_up_left f \<and>
    fwd_down_left f' = fwd_down_left f \<and> tx (fw_conn f') = tx (fw_conn f)"
proof -
  let ?c = "fw_conn f" and ?s = "fw_stream f"
  from c obtain ms x where h: "live ?s" "ends_well ?c" "sent (m0 @ ms) ?s" "C = concat ms @ concat (rx ?c)"
    "tx ?c = c0 @ x" "D = x @ inp ?s" "fw_down_done f \<longrightarrow> inp ?s = []" by (auto simp: forwarding_def)
  show ?thesis
  proof (cases "rx ?c")
    case Nil
    then have r: "wire_read ?c copy_buf_size = Some ([], Some EOF, ?c)"
      using h(2) by (simp add: wire_read_def ends_well_def copy_buf_size_def)
    let ?f = "f\<lparr>fw_conn := ?c, fw_stream := ?s, fw_up_done := True\<rparr>"
    have "fwd_up io f = Some ?f" using nd r by (simp add: fwd_up_def copy_round_def)
    moreover have "forwarding C D c0 m0 ?f" using h Nil by (auto simp: forwarding_def)
    ultimately show ?thesis using nd by (intro exI [of _ ?f]) (simp add: fwd_up_left_def fwd_down_left_def)
  next
    case (Cons seg segs)
    define rest where "rest = (if length seg \<le> copy_buf_size then segs else drop copy_buf_size seg # segs)"
    let ?bs = "take copy_buf_size seg" and ?c1 = "?c\<lparr>rx := rest\<rparr>"
    have big: "0 < copy_buf_size" by (simp add: copy_buf_size_def)
    have r: "wire_read ?c copy_buf_size = Some (?bs, None, ?c1)"
      using h(2) Cons by (simp add: wire_read_def ends_well_def copy_buf_size_def rest_def)
    have rest: "?bs @ concat rest = concat (rx ?c)"
      "length rest + length (concat rest) < length (rx ?c) + length (concat (rx ?c))"
      using Cons big by (auto simp: rest_def append_assoc [symmetric] simp del: append_assoc)
    have e1: "ends_well ?c1" using h(2) by simp
    show ?thesis
    proof (cases "?bs = []")
      case True
      let ?f = "f\<lparr>fw_conn := ?c1, fw_stream := ?s, fw_up_done := False\<rparr>"
      have "fwd_up io f = Some ?f" using nd r True by (simp add: fwd_up_def copy_round_def)
      moreover have "forwarding C D c0 m0 ?f" using h e1 rest(1) True by (auto simp: forwarding_def)
      ultimately show ?thesis using nd rest(2) by (intro exI [of _ ?f]) (simp add: fwd_up_left_def fwd_down_left_def)
    next
      case False
      have "length ?bs \<le> lim" using lim by simp
      from write_data [OF h(1) False this] obtain s' where
        w: "s_write io ?s ?bs = (length ?bs, None, s')" "live s'" "\<forall>ms. sent ms ?s \<longrightarrow> sent (ms @ [?bs]) s'"
        "inp s' = inp ?s" "work s' = work ?s" by blast
      let ?f = "f\<lparr>fw_conn := ?c1, fw_stream := s', fw_up_done := False\<rparr>"
      have "fwd_up io f = Some ?f" using nd r w(1) False by (simp add: fwd_up_def copy_round_def)
      moreover have "forwarding C D c0 m0 ?f"
      proof -
        have "sent (m0 @ ms @ [?bs]) s'" using w(3) h(3) by fastforce
        moreover have "C = concat (ms @ [?bs]) @ concat rest" using h(4) rest(1) by simp
        ultimately have "\<exists>ms. sent (m0 @ ms) s' \<and> C = concat ms @ concat rest" by blast
        with h e1 w show ?thesis by (simp add: forwarding_def)
      qed
      ultimately show ?thesis using nd rest(2) w(5) by (intro exI [of _ ?f]) (simp add: fwd_up_left_def fwd_down_left_def)
    qed
  qed
qed

lemma forward_down:
  assumes c: "forwarding C D c0 m0 f" and nd: "\<not> fw_down_done f"
  shows "\<exists>f'. fwd_down io f = Some f' \<and> forwarding C D c0 m0 f' \<and> fwd_down_left f' < fwd_down_left f \<and>
    fwd_up_left f' = fwd_up_left f"
proof -
  let ?c = "fw_conn f" and ?s = "fw_stream f"
  from c obtain ms x where h: "live ?s" "ends_well ?c" "sent (m0 @ ms) ?s" "C = concat ms @ concat (rx ?c)"
    "tx ?c = c0 @ x" "D = x @ inp ?s" "fw_up_done f \<longrightarrow> rx ?c = []" by (auto simp: forwarding_def)
  have big: "0 < copy_buf_size" by (simp add: copy_buf_size_def)
  show ?thesis
  proof (cases "inp ?s = []")
    case True
    from read_end [OF h(1) big True] obtain s' where r: "s_read io ?s copy_buf_size = Some ([], Some EOF, s')" "inp s' = []" by blast
    from read_keep [OF h(1) r(1)] have k: "live s'" "\<And>ms. sent ms ?s \<Longrightarrow> sent ms s'" by auto
    let ?f = "f\<lparr>fw_conn := ?c, fw_stream := s', fw_down_done := True\<rparr>"
    have "fwd_down io f = Some ?f" using nd r by (simp add: fwd_down_def copy_round_def)
    moreover have "forwarding C D c0 m0 ?f" using h k(1) k(2) [OF h(3)] r(2) True by (auto simp: forwarding_def)
    ultimately show ?thesis using nd by (intro exI [of _ ?f]) (simp add: fwd_up_left_def fwd_down_left_def)
  next
    case False
    from read_data [OF h(1) big False] obtain bs s' where
      r: "s_read io ?s copy_buf_size = Some (bs, None, s')" "bs \<noteq> []" "inp ?s = bs @ inp s'" "work s' < work ?s" by blast
    from read_keep [OF h(1) r(1)] have k: "live s'" "\<And>ms. sent ms ?s \<Longrightarrow> sent ms s'" by auto
    let ?f = "f\<lparr>fw_conn := ?c\<lparr>tx := tx ?c @ bs\<rparr>, fw_stream := s', fw_down_done := False\<rparr>"
    have "fwd_down io f = Some ?f"
      using nd r(1,2) by (simp add: fwd_down_def copy_round_def ends_well_write [OF h(2)])
    moreover have "forwarding C D c0 m0 ?f" using h k(1) k(2) [OF h(3)] r(3) by (auto simp: forwarding_def)
    ultimately show ?thesis using nd r(4) by (intro exI [of _ ?f]) (simp add: fwd_up_left_def fwd_down_left_def)
  qed
qed

text \<open>So the two copies are a race that either of them may win.\<close>

lemma forward_race:
  assumes "copy_buf_size \<le> lim"
  shows "race (fwd_up io) (fwd_down io) (fwd_run io) (forwarding C D c0 m0) fwd_up_left fwd_down_left
    (fwd_first io) fwd_over"
proof unfold_locales
  fix f :: "'s fwd"
  assume c: "forwarding C D c0 m0 f"
  show "fwd_up_left f = 0 \<Longrightarrow> fwd_up io f = None" by (simp add: fwd_up_left_def fwd_up_def split: if_splits)
  show "fwd_down_left f = 0 \<Longrightarrow> fwd_down io f = None" by (simp add: fwd_down_left_def fwd_down_def split: if_splits)
  show "0 < fwd_up_left f \<Longrightarrow> \<exists>f'. fwd_up io f = Some f' \<and> forwarding C D c0 m0 f' \<and> fwd_up_left f' < fwd_up_left f \<and>
      fwd_down_left f' = fwd_down_left f"
    using forward_up [OF assms c] by (auto simp: fwd_up_left_def split: if_splits)
  show "0 < fwd_down_left f \<Longrightarrow> \<exists>f'. fwd_down io f = Some f' \<and> forwarding C D c0 m0 f' \<and>
      fwd_down_left f' < fwd_down_left f \<and> fwd_up_left f' = fwd_up_left f"
    using forward_down [OF c] by (simp add: fwd_down_left_def split: if_splits)
  show "fwd_over f \<longleftrightarrow> fwd_up_left f = 0 \<or> fwd_down_left f = 0"
    by (auto simp: fwd_over_def fwd_up_left_def fwd_down_left_def)
qed simp_all

lemma forward_ends:
  assumes "copy_buf_size \<le> lim" "live s" "sent m0 s" "ends_well conn"
    and "1 + length (rx conn) + length (concat (rx conn)) \<le> turns True sched \<or> 1 + work s \<le> turns False sched"
  shows "fwd_over (fwd_first io sched (fwd_start conn s))"
    "forwarding (concat (rx conn)) (inp s) (tx conn) m0 (fwd_run io late (fwd_first io sched (fwd_start conn s)))"
    "fwd_over (fwd_run io late (fwd_first io sched (fwd_start conn s)))"
proof -
  have "\<exists>ms. sent (m0 @ ms) s \<and> concat ms = []" using assms(3) by (intro exI [of _ "[]"]) simp
  then have g: "forwarding (concat (rx conn)) (inp s) (tx conn) m0 (fwd_start conn s)"
    using assms(2,4) by (auto simp: forwarding_def fwd_start_def)
  note race = forward_race [OF assms(1)]
  have e: "forwarding (concat (rx conn)) (inp s) (tx conn) m0 (fwd_first io sched (fwd_start conn s)) \<and>
      fwd_over (fwd_first io sched (fwd_start conn s))"
    using race.ends [OF race g, of sched] assms(5) by (simp add: fwd_up_left_def fwd_down_left_def fwd_start_def)
  then show "fwd_over (fwd_first io sched (fwd_start conn s))" ..
  from e race.late [OF race] show "forwarding (concat (rx conn)) (inp s) (tx conn) m0 (fwd_run io late (fwd_first io sched (fwd_start conn s)))"
    "fwd_over (fwd_run io late (fwd_first io sched (fwd_start conn s)))" by blast+
qed

text \<open>When the first turns are upward ones that reach the end, nothing comes down.\<close>

lemma forward_up_only:
  assumes "copy_buf_size \<le> lim"
  shows "forwarding C D c0 m0 f \<Longrightarrow> tx (fw_conn (fwd_first io (replicate n True) f)) = tx (fw_conn f)"
proof (induction n arbitrary: f)
  case (Suc n)
  show ?case
  proof (cases "fwd_over f")
    case False
    then have "\<not> fw_up_done f" by (simp add: fwd_over_def)
    from forward_up [OF assms Suc.prems this] obtain f' where
      "fwd_up io f = Some f'" "forwarding C D c0 m0 f'" "tx (fw_conn f') = tx (fw_conn f)" by blast
    with Suc.IH False show ?thesis by simp
  qed simp
qed simp

lemma forward_cut:
  assumes "copy_buf_size \<le> lim" "live s" "sent m0 s" "ends_well conn"
    and "1 + length (rx conn) + length (concat (rx conn)) \<le> n"
  shows "tx (fw_conn (fwd_first io (replicate n True @ rest) (fwd_start conn s))) = tx conn"
proof -
  note r = forward_race [OF assms(1)]
  have t: "turns True (replicate n True) = n" by (simp add: turns_def)
  from forward_ends(1) [OF assms(1-4), of "replicate n True"] assms(5) t
  have o: "fwd_over (fwd_first io (replicate n True) (fwd_start conn s))" by simp
  have "\<exists>ms. sent (m0 @ ms) s \<and> concat ms = []" using assms(3) by (intro exI [of _ "[]"]) simp
  then have g: "forwarding (concat (rx conn)) (inp s) (tx conn) m0 (fwd_start conn s)"
    using assms(2,4) by (auto simp: forwarding_def fwd_start_def)
  have "tx (fw_conn (fwd_first io (replicate n True) (fwd_start conn s))) = tx conn"
    using forward_up_only [OF assms(1) g] by (simp add: fwd_start_def)
  then show ?thesis by (simp add: race.race_append [OF r] race.race_over [OF r o])
qed

end

section \<open>Connections through a node\<close>

text \<open>The first successful dial is taken: without a threshold no latency is too high.\<close>

lemma fallback_first:
  assumes "DialTCP c (nts 0) host port = Some d" "d_err d = None"
  shows "\<exists>d'. DialTCPWithFallback c nts host port 0 = Some d' \<and> d_err d' = None \<and> d_stream d' = d_stream d \<and> d_client d' = d_client d"
proof (cases "cl_preferred c")
  case Nil
  with assms show ?thesis by (auto simp: DialTCPWithFallback_def)
next
  case (Cons p ps)
  with assms show ?thesis by (simp add: DialTCPWithFallback_def after_def)
qed

lemma forwarder_over_session:
  assumes d: "DialTCPWithFallback pc nts host port 0 = Some d" "d_err d = None" "d_stream d = Some s"
    and e: "endpoint gcm dep lim enc pre s m0 D None" "copy_buf_size \<le> lim" and c: "ends_well conn"
  shows "\<exists>N. \<forall>sched late cancelled.
    1 + length (rx conn) + length (concat (rx conn)) \<le> turns True sched \<or> N \<le> turns False sched \<longrightarrow>
    (\<exists>r s' ms ys x. handleConn pc nts gcm sched late cancelled conn host port = Some r \<and> fr_returned r \<and> closed (fr_conn r) \<and>
       fr_stream r = Some (sess_close s') \<and> tx (sess_wire s') = pre @ ys \<and> enc (m0 @ ms) ys \<and>
       tx (fr_conn r) = tx conn @ x \<and> (concat ms = concat (rx conn) \<or> x = D) \<and>
       (\<exists>y. concat (rx conn) = concat ms @ y) \<and> (\<exists>z. D = x @ z) \<and>
       (\<forall>n rest. sched = replicate n True @ rest \<and> late = [] \<and> 1 + length (rx conn) + length (concat (rx conn)) \<le> n \<longrightarrow> x = []))"
proof -
  from endpoint_messages [OF e(1)] obtain inp sent live work nxt where m: "messages (sess_rwc gcm) inp sent live work lim nxt"
    "\<forall>ms s. live s \<longrightarrow> sent ms s \<longrightarrow> (\<exists>ys. tx (sess_wire s) = pre @ ys \<and> enc ms ys)" "live s" "sent m0 s" "inp s = D" by blast
  note dup = messages.axioms(1) [OF m(1)]
  show ?thesis
  proof (intro exI [of _ "1 + work s"] allI impI)
    fix sched late cancelled
    assume t: "1 + length (rx conn) + length (concat (rx conn)) \<le> turns True sched \<or> 1 + work s \<le> turns False sched"
    define f where "f = fwd_run (sess_rwc gcm) late (fwd_first (sess_rwc gcm) sched (fwd_start conn s))"
    note ends = duplex.forward_ends [OF dup e(2) m(3,4) c t]
    from ends(2,3) [of late] m(5)
    have g: "duplex.forwarding inp sent live (concat (rx conn)) D (tx conn) m0 f" "fwd_over f" by (simp_all add: f_def)
    from g(1) obtain ms x where h: "live (fw_stream f)" "sent (m0 @ ms) (fw_stream f)"
      "concat (rx conn) = concat ms @ concat (rx (fw_conn f))" "tx (fw_conn f) = tx conn @ x" "D = x @ inp (fw_stream f)"
      "fw_up_done f \<longrightarrow> rx (fw_conn f) = []" "fw_down_done f \<longrightarrow> inp (fw_stream f) = []"
      by (auto simp: duplex.forwarding_def [OF dup])
    from m(2) h(1,2) obtain ys where y: "tx (sess_wire (fw_stream f)) = pre @ ys" "enc (m0 @ ms) ys" by blast
    have w: "concat ms = concat (rx conn) \<or> x = D" using g(2) h(3,5-7) by (auto simp: fwd_over_def)
    have cut: "x = []" if "sched = replicate n True @ rest" "late = []" "1 + length (rx conn) + length (concat (rx conn)) \<le> n" for n rest
      using duplex.forward_cut [OF dup e(2) m(3,4) c that(3), of rest] h(4) by (simp add: f_def that(1,2))
    let ?r = "\<lparr>fr_client = d_client d, fr_conn = wire_close (fw_conn f), fr_stream = Some (sess_close (fw_stream f)), fr_returned = True\<rparr>"
    have "handleConn pc nts gcm sched late cancelled conn host port = Some ?r"
      using d ends(1) by (simp add: handleConn_def f_def Let_def)
    moreover have "fr_returned ?r" "closed (fr_conn ?r)" "fr_stream ?r = Some (sess_close (fw_stream f))" "tx (fr_conn ?r) = tx conn @ x"
      by (simp_all add: h(4))
    ultimately show "\<exists>r s' ms ys x. handleConn pc nts gcm sched late cancelled conn host port = Some r \<and> fr_returned r \<and>
       closed (fr_conn r) \<and> fr_stream r = Some (sess_close s') \<and> tx (sess_wire s') = pre @ ys \<and> enc (m0 @ ms) ys \<and>
       tx (fr_conn r) = tx conn @ x \<and> (concat ms = concat (rx conn) \<or> x = D) \<and>
       (\<exists>y. concat (rx conn) = concat ms @ y) \<and> (\<exists>z. D = x @ z) \<and>
       (\<forall>n rest. sched = replicate n True @ rest \<and> late = [] \<and> 1 + length (rx conn) + length (concat (rx conn)) \<le> n \<longrightarrow> x = [])"
      using y w h(3,5) cut by blast
  qed
qed

text \<open>
  C25: a forwarded connection ends with the first of its two directions. When the local connection
  and the session both end what they bring, and one of the two copies gets enough turns, the handler
  returns with both closed; the node has been sent the request and then the start of what the local
  client sent, the local client has got the start of what the target sent, in order and unchanged,
  and one of the two is complete. So a client that ends its input first may get nothing of its answer:
  when its input takes all the turns, and the other copy gets none before the closes.
\<close>

theorem forwarder_first_end:
  assumes "bare_dial pc (nts 0) w" "wire_steady w" "rx w = (''OK'' @ nl) # segs" "ends_well conn"
  shows "\<exists>N. \<forall>sched late cancelled.
    1 + length (rx conn) + length (concat (rx conn)) \<le> turns True sched \<or> N \<le> turns False sched \<longrightarrow>
    (\<exists>r s' up down. handleConn pc nts gcm sched late cancelled conn host port = Some r \<and> fr_returned r \<and> closed (fr_conn r) \<and>
       fr_stream r = Some (sess_close s') \<and> tx (sess_wire s') = tx w @ request_line ''TCP'' host port @ up \<and>
       tx (fr_conn r) = tx conn @ down \<and> (up = concat (rx conn) \<or> down = concat segs) \<and>
       (\<exists>y. concat (rx conn) = up @ y) \<and> (\<exists>z. concat segs = down @ z) \<and>
       (\<forall>n rest. sched = replicate n True @ rest \<and> late = [] \<and> 1 + length (rx conn) + length (concat (rx conn)) \<le> n \<longrightarrow> down = []))"
proof -
  let ?w = "w\<lparr>tx := tx w @ request_line ''TCP'' host port, rx := segs\<rparr>"
  have "rx w = (''OK'' @ nl @ []) # segs" "length (''OK'' @ nl @ []) \<le> bufio_size" "wire_up w"
    using assms(2,3) by (simp_all add: nl_def bufio_size_def wire_steady_def ends_well_def wire_up_def)
  from bare_dial_segment [OF assms(1) this(3,1,2), of host port]
  have "DialTCP pc (nts 0) host port = Some (dial_ok (negotiated pc (nts 0)) (nts 0) (Net ?w))" .
  from fallback_first [where nts = nts, OF this] obtain d where
    d: "DialTCPWithFallback pc nts host port 0 = Some d" "d_err d = None" "d_stream d = Some (Net ?w)"
    by (auto simp: dial_ok_def)
  have "wire_steady ?w" using assms(2,3) by (simp add: wire_steady_def ends_well_def)
  then have "endpoint gcm 0 copy_buf_size (\<lambda>ms ys. ys = concat ms) (tx w @ request_line ''TCP'' host port) (Net ?w) []
      (concat segs) None"
    using endpoint_net [of ?w "tx w @ request_line ''TCP'' host port" None gcm copy_buf_size] by (simp add: wire_content_def)
  note over = forwarder_over_session [OF d this order_refl assms(4)]
  from over show ?thesis
  proof (rule ex_forward, intro allI impI)
    fix N sched late cancelled
    assume A: "\<forall>sched late cancelled. 1 + length (rx conn) + length (concat (rx conn)) \<le> turns True sched \<or> N \<le> turns False sched \<longrightarrow>
      (\<exists>r s' ms ys x. handleConn pc nts gcm sched late cancelled conn host port = Some r \<and> fr_returned r \<and> closed (fr_conn r) \<and>
       fr_stream r = Some (sess_close s') \<and> tx (sess_wire s') = (tx w @ request_line ''TCP'' host port) @ ys \<and> ys = concat ([] @ ms) \<and>
       tx (fr_conn r) = tx conn @ x \<and> (concat ms = concat (rx conn) \<or> x = concat segs) \<and>
       (\<exists>y. concat (rx conn) = concat ms @ y) \<and> (\<exists>z. concat segs = x @ z) \<and>
       (\<forall>n rest. sched = replicate n True @ rest \<and> late = [] \<and> 1 + length (rx conn) + length (concat (rx conn)) \<le> n \<longrightarrow> x = []))"
    assume "1 + length (rx conn) + length (concat (rx conn)) \<le> turns True sched \<or> N \<le> turns False sched"
    from A [rule_format, OF this, of late cancelled] obtain r s' ms ys x where
      h: "handleConn pc nts gcm sched late cancelled conn host port = Some r" "fr_returned r" "closed (fr_conn r)"
       "fr_stream r = Some (sess_close s')" "tx (sess_wire s') = (tx w @ request_line ''TCP'' host port) @ ys" "ys = concat ([] @ ms)"
       "tx (fr_conn r) = tx conn @ x" "concat ms = concat (rx conn) \<or> x = concat segs"
       "\<exists>y. concat (rx conn) = concat ms @ y" "\<exists>z. concat segs = x @ z"
       "\<forall>n rest. sched = replicate n True @ rest \<and> late = [] \<and> 1 + length (rx conn) + length (concat (rx conn)) \<le> n \<longrightarrow> x = []"
      by (elim exE conjE) (rule that, (assumption | rule exI, assumption)+)
    have "tx (sess_wire s') = tx w @ request_line ''TCP'' host port @ concat ms" using h(5,6) by simp
    with h(1-4,7-11) show "\<exists>r s' up down. handleConn pc nts gcm sched late cancelled conn host port = Some r \<and> fr_returned r \<and>
       closed (fr_conn r) \<and> fr_stream r = Some (sess_close s') \<and> tx (sess_wire s') = tx w @ request_line ''TCP'' host port @ up \<and>
       tx (fr_conn r) = tx conn @ down \<and> (up = concat (rx conn) \<or> down = concat segs) \<and>
       (\<exists>y. concat (rx conn) = up @ y) \<and> (\<exists>z. concat segs = down @ z) \<and>
       (\<forall>n rest. sched = replicate n True @ rest \<and> late = [] \<and> 1 + length (rx conn) + length (concat (rx conn)) \<le> n \<longrightarrow> down = [])"
      by - (rule exI [of _ r], rule exI [of _ s'], rule exI [of _ "concat ms"], rule exI [of _ x], intro conjI; assumption)
  qed
qed

lemma forwarder_first_end_witness:
  "\<exists>r. handleConn wit_client (\<lambda>_. wit_net (wire_of [''OK'' @ nl, ''200 OK''] (Some EOF))) tag_aead (replicate 9 True) [] False
      (wire_of [''GET /''] (Some EOF)) ''example.com'' 80 = Some r \<and> fr_returned r \<and> tx (fr_conn r) = []"
proof -
  let ?w = "wire_of [''OK'' @ nl, ''200 OK''] (Some EOF)" and ?c = "wire_of [''GET /''] (Some EOF)"
  have s: "wire_steady ?w" "rx ?w = (''OK'' @ nl) # [''200 OK'']" "ends_well ?c" "tx ?c = []"
    by (simp_all add: wire_of_def wire_steady_def ends_well_def)
  have t: "1 + length (rx ?c) + length (concat (rx ?c)) \<le> 9" "turns True (replicate 9 True) = 9"
    by (simp_all add: wire_of_def turns_def)
  from forwarder_first_end [where nts = "\<lambda>_. wit_net ?w" and gcm = tag_aead and host = "''example.com''" and port = 80,
      OF wit_bare s(1,2,3)]
  obtain N where N: "\<And>sched late cancelled. 1 + length (rx ?c) + length (concat (rx ?c)) \<le> turns True sched \<or> N \<le> turns False sched \<Longrightarrow>
    (\<exists>r s' up down. handleConn wit_client (\<lambda>_. wit_net ?w) tag_aead sched late cancelled ?c ''example.com'' 80 = Some r \<and>
       fr_returned r \<and> closed (fr_conn r) \<and>
       fr_stream r = Some (sess_close s') \<and> tx (sess_wire s') = tx ?w @ request_line ''TCP'' ''example.com'' 80 @ up \<and>
       tx (fr_conn r) = tx ?c @ down \<and> (up = concat (rx ?c) \<or> down = concat [''200 OK'']) \<and>
       (\<exists>y. concat (rx ?c) = up @ y) \<and> (\<exists>z. concat [''200 OK''] = down @ z) \<and>
       (\<forall>n rest. sched = replicate n True @ rest \<and> late = [] \<and> 1 + length (rx ?c) + length (concat (rx ?c)) \<le> n \<longrightarrow> down = []))"
    by (elim exE) (rule that, blast)
  have "1 + length (rx ?c) + length (concat (rx ?c)) \<le> turns True (replicate 9 True) \<or> N \<le> turns False (replicate 9 True)"
    using t by simp
  from N [OF this, of "[]" False] obtain r down where
    r: "handleConn wit_client (\<lambda>_. wit_net ?w) tag_aead (replicate 9 True) [] False ?c ''example.com'' 80 = Some r" "fr_returned r"
      "tx (fr_conn r) = tx ?c @ down"
      "\<forall>n rest. replicate 9 True = replicate n True @ rest \<and> ([] :: bool list) = [] \<and> 1 + length (rx ?c) + length (concat (rx ?c)) \<le> n \<longrightarrow> down = []"
    by (elim exE conjE) (rule that)
  have "down = []" using r(4) [rule_format, of 9 "[]"] t(1) by simp
  with r(1-3) s(4) show ?thesis by simp
qed

text \<open>
  The target given on the command line is the one the node dials: the address that is printed for a
  host and a port is taken apart into the same two, and the node puts it together again for its dialler.
\<close>

theorem upstream_address_kept:
  assumes "\<not> brackets host" "0 \<le> port" "port \<le> 65535"
  shows "fwd_splitHostPort svc (join_host_port host (itoa port)) = Inr (host, port) \<and>
    dialTCP dial host port = dial (join_host_port host (itoa port))"
proof -
  have "list_all is_digit (itoa port)" using assms(2) by (simp add: itoa_def)
  then have "\<not> brackets (itoa port)" by (auto simp: brackets_def list_all_iff is_digit_def)
  with split_join [OF assms(1)] itoa_no_colon [OF assms(2)] LookupPort_itoa [OF assms(2,3), of svc]
  show ?thesis by (simp add: fwd_splitHostPort_def dialTCP_def)
qed

lemma upstream_address_kept_witness:
  "fwd_splitHostPort svc (join_host_port ''::1'' (itoa 5201)) = Inr (''::1'', 5201)"
  using upstream_address_kept [of "''::1''" 5201 svc "\<lambda>_. Inr ()"] by (simp add: brackets_def)

end
