(* ===== verification/LoadTools.thy ===== *)
theory LoadTools
  imports Forwarder
begin

text \<open>
  The tools that put load on a proxy node: \<open>cmd/proxy-load/main.go\<close> (concurrent echo requests),
  \<open>cmd/longrun-tester/main.go\<close> (small requests over a long time) and \<open>cmd/proxy-bench/main.go\<close> (one
  large transfer). Clocks, tickers and random bytes are parameters; logs and statistics are left out.
\<close>

section \<open>proxy-load: the arguments\<close>

definition netSplit :: "string \<Rightarrow> err + (string \<times> string)" where
  "netSplit addr =
     (case go_split (CHR '':'') addr of
        [h, p] \<Rightarrow> Inr (h, p)
      | _ \<Rightarrow> Inl (Err (''invalid host:port '' @ go_quote addr)))"

definition netSplitHostPort :: "string \<Rightarrow> err + (string \<times> string)" where
  "netSplitHostPort addr = netSplit addr"

definition load_splitHostPort :: "string \<Rightarrow> err + (string \<times> string)" where
  "load_splitHostPort addr =
     (case netSplitHostPort addr of Inl e \<Rightarrow> Inl e | Inr (host, port) \<Rightarrow> Inr (host, port))"

text \<open>The levels; the text of a level that is not a positive number ends the program.\<close>

fun parse_levels :: "string list \<Rightarrow> string + int list" where
  "parse_levels [] = Inr []"
| "parse_levels (part # parts) =
     (let part = trim_space part
      in if part = '''' then parse_levels parts
         else case atoi part of
           None \<Rightarrow> Inl part
         | Some n \<Rightarrow>
             if n \<le> 0 then Inl part
             else case parse_levels parts of Inl x \<Rightarrow> Inl x | Inr ns \<Rightarrow> Inr (n # ns))"

text \<open>\<open>main\<close> up to the first level: how it exits, or the client, the target and the levels.\<close>

text \<open>
  The value of \<open>strconv.Atoi\<close> when its error is ignored: 0 for a text that is no number, the nearest
  value of the type for one that is too large.
\<close>

definition atoi_val :: "bytes \<Rightarrow> int" where
  "atoi_val s =
     (let neg = (take 1 s = ''-'');
          body = (if take 1 s = ''-'' \<or> take 1 s = ''+'' then drop 1 s else s);
          v = int (dec_val body)
      in if body = [] \<or> \<not> list_all is_digit body then 0
         else if neg then max (- (2 ^ 63)) (- v) else min (2 ^ 63 - 1) v)"

lemma atoi_val: "atoi s = Some i \<Longrightarrow> atoi_val s = i"
  by (auto simp: atoi_def atoi_val_def Let_def split: if_splits)

definition load_main ::
  "node_lib \<Rightarrow> (err + node_config) \<Rightarrow> peer_parser \<Rightarrow> bool \<Rightarrow> string \<Rightarrow> string \<Rightarrow> string \<Rightarrow>
     cli_exit + (ProxyClient \<times> string \<times> int \<times> int list)"
where
  "load_main nlib loaded parse plain_only nodeAddr tgt levels =
     (if nodeAddr = '''' \<or> tgt = '''' then Inl Usage
      else case load_splitHostPort tgt of
        Inl e \<Rightarrow> Inl (Fatal (wrap_err ''invalid target'' e))
      | Inr (host, portStr) \<Rightarrow>
          let port = atoi_val portStr
          in case parse_levels (go_split (CHR '','') levels) of
               Inl part \<Rightarrow> Inl (Fatal (Err (''invalid level '' @ go_quote part)))
             | Inr ls \<Rightarrow>
                 if ls = [] then Inl (Fatal (Err (''no valid levels parsed from '' @ go_quote levels)))
                 else case loaded of
                   Inl e \<Rightarrow> Inl (Fatal (wrap_err ''load config'' e))
                 | Inr cfg \<Rightarrow>
                     (case fst (New nlib cfg) of
                        Inl e \<Rightarrow> Inl (Fatal (wrap_err ''create node'' e))
                      | Inr n \<Rightarrow>
                          (case NewProxyClient parse nodeAddr plain_only '''' of
                             Inl e \<Rightarrow> Inl (Fatal (wrap_err ''NewProxyClient'' e))
                           | Inr pc \<Rightarrow> Inr (pc, host, port, ls))))"

section \<open>proxy-load: a level\<close>

definition conn_err :: "nat \<Rightarrow> string \<Rightarrow> err \<Rightarrow> err" where
  "conn_err i what e = wrap_err (''conn '' @ dec_of_nat i @ '': '' @ what) e"

text \<open>One request of a worker: its error, the client and the stream as it leaves it.\<close>

definition load_request ::
  "nat \<Rightarrow> string \<Rightarrow> int \<Rightarrow> ProxyClient \<Rightarrow> net \<Rightarrow> (err option \<times> ProxyClient \<times> sess option) option"
where
  "load_request i host port pc nt =
     (case DialTCP pc nt host port of
        None \<Rightarrow> None
      | Some d \<Rightarrow>
          (case (d_err d, d_stream d) of
             (None, Some s) \<Rightarrow>
               (case write_string (io_of nt) s ''hello'' of
                  (Some e, s1) \<Rightarrow> Some (Some (conn_err i ''write'' e), d_client d, Some (sess_close s1))
                | (None, s1) \<Rightarrow>
                    (case read_full (s_read (io_of nt)) s1 5 of
                       None \<Rightarrow> None
                     | Some (buf, Some e, s2) \<Rightarrow> Some (Some (conn_err i ''read'' e), d_client d, Some (sess_close s2))
                     | Some (buf, None, s2) \<Rightarrow>
                         Some (if buf = ''hello'' then None
                               else Some (Err (''conn '' @ dec_of_nat i @ '': expected echo 'hello', got '' @ go_quote buf)),
                               d_client d, Some (sess_close s2))))
           | (Some e, _) \<Rightarrow> Some (Some (conn_err i ''dial'' e), d_client d, None)
           | (None, None) \<Rightarrow> None))"

text \<open>
  A worker: before each request it reads the clock, and what the request meets is the second part of
  the entry. The result is what it sends into the channel; None means that it does not come to that.
\<close>

fun load_worker :: "nat \<Rightarrow> string \<Rightarrow> int \<Rightarrow> int \<Rightarrow> ProxyClient \<Rightarrow> (int \<times> net) list \<Rightarrow> err option option" where
  "load_worker i host port until pc [] = None"
| "load_worker i host port until pc ((now, nt) # reqs) =
     (if \<not> now < until then Some None
      else case load_request i host port pc nt of
        None \<Rightarrow> None
      | Some (Some e, _, _) \<Rightarrow> Some (Some e)
      | Some (None, pc', _) \<Rightarrow> load_worker i host port until pc' reqs)"

text \<open>
  \<open>runLevel\<close>: the reports of the workers in the order in which they arrive; the first error is the
  result. Without an error it returns when every worker has reported: None is that one never does. The
  channel has room for one report of each worker, so no worker waits to send its own. The workers share
  the client; here each has a copy of its own.
\<close>

definition first_error :: "err option list \<Rightarrow> err option" where
  "first_error reports = (case filter (\<lambda>r. r \<noteq> None) reports of [] \<Rightarrow> None | r # _ \<Rightarrow> r)"

definition runLevel ::
  "string \<Rightarrow> int \<Rightarrow> nat \<Rightarrow> int \<Rightarrow> ProxyClient \<Rightarrow> (nat \<Rightarrow> (int \<times> net) list) \<Rightarrow> nat list \<Rightarrow> err option option"
where
  "runLevel host port level until pc reqs arrivals =
     (let report = (\<lambda>i. load_worker i host port until pc (reqs i))
      in case first_error (List.map_filter report arrivals) of
           Some e \<Rightarrow> Some (Some e)
         | None \<Rightarrow> if list_all (\<lambda>i. report i \<noteq> None) [0..<level] then Some None else None)"

text \<open>
  \<open>printSelfStats\<close>: the line that is logged, if any, for the lines of \<open>/proc/self/status\<close>; the last of
  several lines with a key counts.
\<close>

definition status_field :: "string \<Rightarrow> string list \<Rightarrow> string" where
  "status_field key ls = (case filter (\<lambda>l. has_prefix l key) ls of [] \<Rightarrow> '''' | m # ms \<Rightarrow> trim_space (last (m # ms)))"

definition printSelfStats :: "err + string list \<Rightarrow> string option" where
  "printSelfStats status =
     (case status of
        Inl e \<Rightarrow> Some (err_msg (wrap_err ''cannot read /proc/self/status'' e))
      | Inr ls \<Rightarrow>
          (let vmRSS = status_field ''VmRSS:'' ls; fdSize = status_field ''FDSize:'' ls
           in if vmRSS \<noteq> '''' \<or> fdSize \<noteq> '''' then Some (''self stats: '' @ vmRSS @ '', '' @ fdSize) else None))"

section \<open>longrun-tester\<close>

definition long_splitHostPort :: "string \<Rightarrow> err + (string \<times> string)" where
  "long_splitHostPort addr = (case SplitHostPort addr of Inl e \<Rightarrow> Inl e | Inr (host, port) \<Rightarrow> Inr (host, port))"

text \<open>\<open>payload\<close> are the random bytes, or the error of reading them; the stream is closed whatever happens.\<close>

definition doOnce ::
  "ProxyClient \<Rightarrow> net \<Rightarrow> string \<Rightarrow> int \<Rightarrow> err + bytes \<Rightarrow> (err option \<times> ProxyClient \<times> sess option) option"
where
  "doOnce pc nt host port payload =
     (case DialTCP pc nt host port of
        None \<Rightarrow> None
      | Some d \<Rightarrow>
          (case (d_err d, d_stream d) of
             (None, Some s) \<Rightarrow>
               (case payload of
                  Inl e \<Rightarrow> Some (Some e, d_client d, Some (sess_close s))
                | Inr bs \<Rightarrow>
                    (case s_write (io_of nt) s bs of
                       (_, Some e, s1) \<Rightarrow> Some (Some e, d_client d, Some (sess_close s1))
                     | (_, None, s1) \<Rightarrow>
                         (case read_full (s_read (io_of nt)) s1 (length bs) of
                            None \<Rightarrow> None
                          | Some (_, e, s2) \<Rightarrow> Some (e, d_client d, Some (sess_close s2)))))
           | (Some e, _) \<Rightarrow> Some (Some (wrap_err ''DialTCP'' e), d_client d, None)
           | (None, None) \<Rightarrow> None))"

text \<open>
  The loop: a tick of the ticker with its time and what the request meets, or the cancelled context.
  The result is the outcome of each request made, and whether the loop has ended.
\<close>

datatype long_event = LongCancelled | LongTick int net "err + bytes"

fun long_loop ::
  "string \<Rightarrow> int \<Rightarrow> int \<Rightarrow> ProxyClient \<Rightarrow> long_event list \<Rightarrow> err option list \<times> bool"
where
  "long_loop host port until pc [] = ([], False)"
| "long_loop host port until pc (LongCancelled # evs) = ([], True)"
| "long_loop host port until pc (LongTick now nt payload # evs) =
     (if now > until then ([], True)
      else case doOnce pc nt host port payload of
        None \<Rightarrow> ([], False)
      | Some (e, pc', _) \<Rightarrow> (case long_loop host port until pc' evs of (es, over) \<Rightarrow> (e # es, over)))"

definition long_main ::
  "node_lib \<Rightarrow> (err + node_config) \<Rightarrow> peer_parser \<Rightarrow> bool \<Rightarrow> string \<Rightarrow> string \<Rightarrow>
     cli_exit + (ProxyClient \<times> string \<times> int)"
where
  "long_main nlib loaded parse plain_only nodeAddr tgt =
     (if nodeAddr = '''' \<or> tgt = '''' then Inl Usage
      else case long_splitHostPort tgt of
        Inl e \<Rightarrow> Inl (Fatal (wrap_err ''invalid target'' e))
      | Inr (host, portStr) \<Rightarrow>
          let port = atoi_val portStr
          in case loaded of
               Inl e \<Rightarrow> Inl (Fatal (wrap_err ''load config'' e))
             | Inr cfg \<Rightarrow>
                 (case fst (New nlib cfg) of
                    Inl e \<Rightarrow> Inl (Fatal (wrap_err ''create node'' e))
                  | Inr n \<Rightarrow>
                      (case NewProxyClient parse nodeAddr plain_only '''' of
                         Inl e \<Rightarrow> Inl (Fatal (wrap_err ''NewProxyClient'' e))
                       | Inr pc \<Rightarrow> Inr (pc, host, port))))"

section \<open>proxy-bench\<close>

definition bench_buf :: bytes where
  "bench_buf = replicate 65536 (CHR 0x00)"

definition bench_total :: "int \<Rightarrow> int" where
  "bench_total megabytes = wrap64 (wrap64 (megabytes * 1024) * 1024)"

text \<open>The send loop; a writer that takes nothing without an error keeps it going for ever.\<close>

partial_function (option) bench_send :: "'s writer \<Rightarrow> int \<Rightarrow> 's \<Rightarrow> int \<Rightarrow> ((err + int) \<times> 's) option" where
  "bench_send wr tot s n =
     (if \<not> n < tot then Some (Inr n, s)
      else case wr s bench_buf of
        (k, Some e, s1) \<Rightarrow> Some (Inl (wrap_err (''write failed after '' @ itoa n @ '' bytes'') e), s1)
      | (k, None, s1) \<Rightarrow> bench_send wr tot s1 (wrap64 (n + int k)))"

definition bench_main ::
  "node_lib \<Rightarrow> (err + node_config) \<Rightarrow> peer_parser \<Rightarrow> bool \<Rightarrow> (err + int) \<Rightarrow> (nat \<Rightarrow> net) \<Rightarrow>
     string \<Rightarrow> int \<Rightarrow> string \<Rightarrow> (cli_exit + int) option"
where
  "bench_main nlib loaded parse plain_only listened nts nodeAddr megabytes gateway =
     (if nodeAddr = '''' then Some (Inl Usage)
      else if megabytes \<le> 0 then Some (Inl (Fatal (Err (''invalid megabytes: '' @ itoa megabytes))))
      else case loaded of
        Inl e \<Rightarrow> Some (Inl (Fatal (wrap_err ''load config'' e)))
      | Inr cfg \<Rightarrow>
          (case fst (New nlib cfg) of
             Inl e \<Rightarrow> Some (Inl (Fatal (wrap_err ''create node'' e)))
           | Inr n \<Rightarrow>
               (case listened of
                  Inl e \<Rightarrow> Some (Inl (Fatal (wrap_err ''listen upstream'' e)))
                | Inr upPort \<Rightarrow>
                    (case NewProxyClient parse nodeAddr plain_only '''' of
                       Inl e \<Rightarrow> Some (Inl (Fatal (wrap_err ''NewProxyClient'' e)))
                     | Inr pc \<Rightarrow>
                         (case DialTCPWithFallback pc nts gateway upPort (2 * Second) of
                            None \<Rightarrow> None
                          | Some d \<Rightarrow>
                              (case (d_err d, d_stream d) of
                                 (None, Some s) \<Rightarrow>
                                   (case bench_send (s_write (sess_rwc (e_gcm (n_env (nts 0))))) (bench_total megabytes) s 0 of
                                      None \<Rightarrow> None
                                    | Some (Inl e, _) \<Rightarrow> Some (Inl (Fatal e))
                                    | Some (Inr sent, _) \<Rightarrow> Some (Inr sent))
                               | (Some e, _) \<Rightarrow> Some (Inl (Fatal (wrap_err ''DialTCPWithFallback'' e)))
                               | (None, None) \<Rightarrow> None))))))"

section \<open>Addresses\<close>

lemma go_split_nonempty [simp]: "go_split sep s \<noteq> []"
  by (cases s) (auto split: list.splits)

lemma go_split_one: "go_split sep s = [x] \<longleftrightarrow> sep \<notin> set s \<and> x = s"
proof (induction s arbitrary: x)
  case (Cons c s)
  obtain w ws where "go_split sep s = w # ws" by (cases "go_split sep s") auto
  with Cons.IH [of s] Cons.IH [of w] show ?case by auto
qed auto

lemma go_split_two: "go_split sep s = [h, p] \<longleftrightarrow> s = h @ sep # p \<and> sep \<notin> set h \<and> sep \<notin> set p"
proof (induction s arbitrary: h)
  case (Cons c s)
  obtain w ws where w: "go_split sep s = w # ws" by (cases "go_split sep s") auto
  show ?case
  proof (cases h)
    case Nil
    with w go_split_one [of sep s p] show ?thesis by auto
  next
    case (Cons a h')
    with w Cons.IH [of h'] show ?thesis by auto
  qed
qed simp

text \<open>
  The tools take an address apart alike unless it has brackets: then the load tool, which splits at
  every colon, refuses the address of an IPv6 target, which the others accept.
\<close>

theorem address_splitters_agree:
  assumes "\<not> brackets addr"
  shows "load_splitHostPort addr = Inr (h, p) \<longleftrightarrow> long_splitHostPort addr = Inr (h, p)"
proof
  assume "load_splitHostPort addr = Inr (h, p)"
  then have "go_split (CHR '':'') addr = [h, p]"
    by (auto simp: load_splitHostPort_def netSplitHostPort_def netSplit_def split: list.splits sum.splits)
  then have a: "addr = h @ CHR '':'' # p" "CHR '':'' \<notin> set h" "CHR '':'' \<notin> set p" by (simp_all add: go_split_two)
  then have "addr = join_host_port h p" by (simp add: join_host_port_def)
  moreover have "\<not> brackets h" "\<not> brackets p" using assms a(1) by (auto simp: brackets_def)
  ultimately show "long_splitHostPort addr = Inr (h, p)" using split_join a(3) by (simp add: long_splitHostPort_def)
next
  assume "long_splitHostPort addr = Inr (h, p)"
  then have s: "SplitHostPort addr = Inr (h, p)" by (auto simp: long_splitHostPort_def split: sum.splits)
  then obtain front port where c: "cut_last (CHR '':'') addr = Some (front, port)"
    by (auto simp: SplitHostPort_def split: option.splits)
  from cut_last_Some [OF this] have a: "addr = front @ CHR '':'' # port" "CHR '':'' \<notin> set port" by auto
  have "hd addr \<noteq> CHR ''[''" using assms a(1) by (cases front) (auto simp: brackets_def)
  with s c have "h = front" "p = port" "CHR '':'' \<notin> set front" by (auto simp: SplitHostPort_def split: if_splits)
  with a have "go_split (CHR '':'') addr = [h, p]" by (simp add: go_split_two)
  then show "load_splitHostPort addr = Inr (h, p)"
    by (simp add: load_splitHostPort_def netSplitHostPort_def netSplit_def)
qed

lemma address_splitters_agree_witness:
  "load_splitHostPort ''a.b:80'' = Inr (''a.b'', ''80'') \<and> long_splitHostPort ''a.b:80'' = Inr (''a.b'', ''80'')"
proof -
  have "load_splitHostPort ''a.b:80'' = Inr (''a.b'', ''80'')"
    by (simp add: load_splitHostPort_def netSplitHostPort_def netSplit_def)
  moreover have "\<not> brackets ''a.b:80''" by (simp add: brackets_def)
  ultimately show ?thesis using address_splitters_agree [of "''a.b:80''" "''a.b''" "''80''"] by simp
qed

lemma load_refuses_ipv6: "CHR '':'' \<in> set host \<Longrightarrow> \<exists>e. load_splitHostPort (join_host_port host port) = Inl e"
proof -
  assume h: "CHR '':'' \<in> set host"
  have "go_split (CHR '':'') (join_host_port host port) \<noteq> [a, b]" for a b
  proof
    assume "go_split (CHR '':'') (join_host_port host port) = [a, b]"
    then have s: "join_host_port host port = a @ CHR '':'' # b" "CHR '':'' \<notin> set a" "CHR '':'' \<notin> set b" by (simp_all add: go_split_two)
    from h obtain x y where "host = x @ CHR '':'' # y" by (meson split_list)
    with h s(1) have "count_list (a @ CHR '':'' # b) (CHR '':'') \<ge> 2" by (simp add: s(1) [symmetric] join_host_port_def)
    moreover have "count_list a (CHR '':'') = 0" "count_list b (CHR '':'') = 0" using s(2,3) by (simp_all add: count_list_0_iff)
    ultimately show False by simp
  qed
  then show ?thesis
    by (auto simp: load_splitHostPort_def netSplitHostPort_def netSplit_def split: list.splits)
qed

section \<open>The benchmark\<close>

lemma bench_total_exact: "0 < mb \<Longrightarrow> mb < 2 ^ 43 \<Longrightarrow> bench_total mb = mb * 1048576"
  by (simp add: bench_total_def in_int64_def)

context byte_sink
begin

lemma bench_send_step:
  "up s \<Longrightarrow> n < t \<Longrightarrow> \<exists>s'. bench_send wr t s n = bench_send wr t s' (wrap64 (n + 65536)) \<and> sent s' = sent s @ bench_buf \<and> up s'"
proof -
  assume h: "up s" "n < t"
  from write_sent [OF h(1), of bench_buf] obtain s' where
    w: "wr s bench_buf = (length bench_buf, None, s')" "sent s' = sent s @ bench_buf" "up s'" by blast
  have "int (length bench_buf) = 65536" by (simp add: bench_buf_def)
  with w h(2) show ?thesis by (intro exI [of _ s']) (subst bench_send.simps, simp)
qed

lemma bench_send_rounds:
  "up s \<Longrightarrow> n + 65536 * int m < 2 ^ 63 \<Longrightarrow> 0 \<le> n \<Longrightarrow>
     \<exists>s'. bench_send wr (n + 65536 * int m) s n = Some (Inr (n + 65536 * int m), s') \<and>
       sent s' = sent s @ concat (replicate m bench_buf) \<and> up s'"
proof (induction m arbitrary: s n)
  case 0
  then show ?case by (subst bench_send.simps) simp
next
  case (Suc m)
  have lt: "n < n + 65536 * int (Suc m)" by simp
  from bench_send_step [OF Suc.prems(1) lt] obtain s1 where
    s1: "bench_send wr (n + 65536 * int (Suc m)) s n = bench_send wr (n + 65536 * int (Suc m)) s1 (wrap64 (n + 65536))"
      "sent s1 = sent s @ bench_buf" "up s1" by blast
  have "in_int64 (n + 65536)" using Suc.prems(2,3) by (simp add: in_int64_def)
  then have w: "wrap64 (n + 65536) = n + 65536" by simp
  have e: "n + 65536 * int (Suc m) = (n + 65536) + 65536 * int m" by simp
  from Suc.IH [OF s1(3), of "n + 65536"] Suc.prems(2,3) obtain s2 where
    "bench_send wr ((n + 65536) + 65536 * int m) s1 (n + 65536) = Some (Inr ((n + 65536) + 65536 * int m), s2)"
    "sent s2 = sent s1 @ concat (replicate m bench_buf)" "up s2" by auto
  with s1 w show ?case unfolding e by (intro exI [of _ s2]) simp
qed

lemma bench_send_total:
  assumes "up s" "0 < mb" "mb < 2 ^ 43"
  shows "\<exists>s'. bench_send wr (bench_total mb) s 0 = Some (Inr (mb * 1048576), s') \<and>
    sent s' = sent s @ concat (replicate (nat mb * 16) bench_buf)"
proof -
  have e: "0 + 65536 * int (nat mb * 16) = mb * 1048576" using assms(2) by simp
  from bench_send_rounds [OF assms(1), of 0 "nat mb * 16"] assms show ?thesis
    unfolding e bench_total_exact [OF assms(2,3)] by auto
qed

end

text \<open>
  The benchmark ends and sends exactly what it was asked for. Over a stream that takes what it is
  given, for every amount that 64 bits hold in bytes, the send loop ends, reports the amount, and has
  written that many bytes.
\<close>

theorem bench_sends_all:
  assumes "wire_up w" "0 < mb" "mb < 2 ^ 43"
  shows "\<exists>w'. bench_send wire_write (bench_total mb) w 0 = Some (Inr (mb * 1048576), w') \<and>
    tx w' = tx w @ concat (replicate (nat mb * 16) bench_buf) \<and>
    int (length (tx w')) = int (length (tx w)) + mb * 1048576"
proof -
  from wiresink.bench_send_total [OF assms] obtain w' where
    w: "bench_send wire_write (bench_total mb) w 0 = Some (Inr (mb * 1048576), w')"
      "tx w' = tx w @ concat (replicate (nat mb * 16) bench_buf)" by blast
  have "length (concat (replicate k bench_buf)) = k * 65536" for k
    by (induction k) (simp_all add: bench_buf_def)
  with w assms(2) show ?thesis by (intro exI [of _ w']) simp
qed

lemma bench_sends_all_witness:
  "\<exists>w'. bench_send wire_write (bench_total 512) (wire_of [] None) 0 = Some (Inr 536870912, w') \<and>
     length (tx w') = 536870912"
  using bench_sends_all [of "wire_of [] None" 512] by (auto simp: wire_up_def wire_of_def)

text \<open>An amount whose number of bytes does not fit 64 bits may make the loop send nothing at all.\<close>

theorem bench_total_wraps: "bench_total (2 ^ 43) < 0 \<and> bench_send wr (bench_total (2 ^ 43)) s 0 = Some (Inr 0, s)"
proof -
  have "bench_total (2 ^ 43) < 0" by (simp add: bench_total_def wrap64_def)
  then show ?thesis by (subst bench_send.simps) simp
qed

section \<open>Requests over a bare session\<close>

lemma bare_request:
  assumes "bare_dial c nt w" "wire_steady w" "rx w = (''OK'' @ nl) # segs"
  shows "DialTCP c nt host port = Some (dial_ok (negotiated c nt) nt
    (Net (w\<lparr>tx := tx w @ request_line ''TCP'' host port, rx := segs\<rparr>)))"
proof -
  have "rx w = (''OK'' @ nl @ []) # segs" "length (''OK'' @ nl @ []) \<le> bufio_size" "wire_up w"
    using assms(2,3) by (simp_all add: nl_def bufio_size_def wire_steady_def ends_well_def wire_up_def)
  from bare_dial_segment [OF assms(1) this(3,1,2)] show ?thesis .
qed

text \<open>A session that answers \<open>reply\<close> to what it is sent: what is written is taken, and the reply is read.\<close>

lemma bare_exchange:
  assumes "bare_dial c nt w" "wire_steady w" "rx w = (''OK'' @ nl) # segs" "concat segs = reply"
    and "m \<noteq> []" "length m = length reply" "length m \<le> copy_buf_size"
  shows "\<exists>s s1 s2. DialTCP c nt host port = Some (dial_ok (negotiated c nt) nt s) \<and>
    sess_write (e_gcm (n_env nt)) s m = (length m, None, s1) \<and>
    read_full (sess_read (e_gcm (n_env nt))) s1 (length m) = Some (reply, None, s2)"
proof -
  let ?w = "w\<lparr>tx := tx w @ request_line ''TCP'' host port, rx := segs\<rparr>"
  have "wire_steady ?w" using assms(2,3) by (simp add: wire_steady_def ends_well_def)
  then have e: "endpoint (e_gcm (n_env nt)) 0 copy_buf_size (\<lambda>ms ys. ys = concat ms) (tx ?w) (Net ?w) [] reply None"
    using endpoint_net [of ?w "tx ?w" None "e_gcm (n_env nt)" copy_buf_size] assms(4) by (simp add: wire_content_def)
  from endpoint_write [OF e assms(5,7)] obtain s1 where
    s1: "sess_write (e_gcm (n_env nt)) (Net ?w) m = (length m, None, s1)"
      "endpoint (e_gcm (n_env nt)) 0 copy_buf_size (\<lambda>ms ys. ys = concat ms) (tx ?w) s1 ([] @ [m]) reply None" by blast
  from endpoint_read [OF s1(2), of "length m"] assms(6) obtain s2 where
    "read_full (sess_read (e_gcm (n_env nt))) s1 (length m) = Some (reply, None, s2)" by auto
  with s1(1) bare_request [OF assms(1-3)] show ?thesis by blast
qed

section \<open>Verdicts\<close>

lemma hello_conn: "(''hello'' :: string) \<noteq> ''''" "length ''hello'' \<le> copy_buf_size" "length ''hello'' = 5"
  by (simp_all add: copy_buf_size_def)

text \<open>One request over a session that answers five bytes fails exactly when they are not the greeting.\<close>

lemma load_request_verdict:
  assumes "bare_dial c nt w" "wire_steady w" "rx w = (''OK'' @ nl) # segs" "concat segs = reply" "length reply = 5"
  shows "\<exists>s. load_request i host port c nt =
    Some (if reply = ''hello'' then None
          else Some (Err (''conn '' @ dec_of_nat i @ '': expected echo 'hello', got '' @ go_quote reply)),
          (negotiated c nt)\<lparr>lastDialLatency := n_latency nt\<rparr>, Some s)"
proof -
  from bare_exchange [OF assms(1-4) hello_conn(1) _ hello_conn(2)] assms(5) hello_conn(3) obtain s s1 s2 where
    "DialTCP c nt host port = Some (dial_ok (negotiated c nt) nt s)"
    "sess_write (e_gcm (n_env nt)) s ''hello'' = (5, None, s1)"
    "read_full (sess_read (e_gcm (n_env nt))) s1 5 = Some (reply, None, s2)" by metis
  then show ?thesis by (simp add: load_request_def dial_ok_def write_string_def sess_rwc_def)
qed

lemma doOnce_verdict:
  assumes "bare_dial c nt w" "wire_steady w" "rx w = (''OK'' @ nl) # segs" "concat segs = reply"
    and "bs \<noteq> []" "length bs = length reply" "length bs \<le> copy_buf_size"
  shows "\<exists>s. doOnce c nt host port (Inr bs) = Some (None, (negotiated c nt)\<lparr>lastDialLatency := n_latency nt\<rparr>, Some s)"
proof -
  from bare_exchange [OF assms] obtain s s1 s2 where
    "DialTCP c nt host port = Some (dial_ok (negotiated c nt) nt s)"
    "sess_write (e_gcm (n_env nt)) s bs = (length bs, None, s1)"
    "read_full (sess_read (e_gcm (n_env nt))) s1 (length bs) = Some (reply, None, s2)" by blast
  then show ?thesis by (simp add: doOnce_def dial_ok_def sess_rwc_def)
qed

text \<open>
  The two testers judge an echo differently. Over a session that answers a request with as many
  bytes as were sent, the load tool reports success exactly when the answer is the greeting; the
  long-run tester reports success whatever the bytes are.
\<close>

theorem testers_judge_echo:
  assumes "bare_dial c nt w" "wire_steady w" "rx w = (''OK'' @ nl) # segs"
    and "length (concat segs) = length payload" "payload \<noteq> []" "length payload \<le> copy_buf_size"
  shows "(\<exists>c' s. doOnce c nt host port (Inr payload) = Some (None, c', Some s)) \<and>
    (length payload = 5 \<longrightarrow>
       (\<exists>e c' s. load_request i host port c nt = Some (e, c', Some s) \<and> (e = None \<longleftrightarrow> concat segs = ''hello'')))"
proof -
  from doOnce_verdict [OF assms(1-3) refl assms(5) _ assms(6)] assms(4)
  have d: "\<exists>c' s. doOnce c nt host port (Inr payload) = Some (None, c', Some s)" by fastforce
  have "\<exists>e c' s. load_request i host port c nt = Some (e, c', Some s) \<and> (e = None \<longleftrightarrow> concat segs = ''hello'')"
    if "length payload = 5"
  proof -
    from that assms(4) have five: "length (concat segs) = 5" by simp
    define e where "e = (if concat segs = ''hello'' then None
      else Some (Err (''conn '' @ dec_of_nat i @ '': expected echo 'hello', got '' @ go_quote (concat segs))))"
    from load_request_verdict [OF assms(1-3) refl five, of i host port] obtain s where
      s: "load_request i host port c nt = Some (e, (negotiated c nt)\<lparr>lastDialLatency := n_latency nt\<rparr>, Some s)"
      unfolding e_def by blast
    have "e = None \<longleftrightarrow> concat segs = ''hello''" by (simp add: e_def)
    with s show ?thesis by blast
  qed
  with d show ?thesis by blast
qed

lemma testers_judge_echo_witness:
  "\<exists>c' s e c2 s2. doOnce wit_client (wit_net (wire_of [''OK'' @ nl, ''olleh''] (Some EOF))) ''a.b'' 7 (Inr ''hello'') =
       Some (None, c', Some s) \<and>
     load_request 1 ''a.b'' 7 wit_client (wit_net (wire_of [''OK'' @ nl, ''olleh''] (Some EOF))) = Some (Some e, c2, Some s2)"
proof -
  let ?w = "wire_of [''OK'' @ nl, ''olleh''] (Some EOF)"
  have w: "wire_steady ?w" "rx ?w = (''OK'' @ nl) # [''olleh'']" by (simp_all add: wire_of_def wire_steady_def ends_well_def)
  have l: "length (concat [''olleh'']) = length ''hello''" by simp
  note t = testers_judge_echo [OF wit_bare w l hello_conn(1,2), where host = "''a.b''" and port = 7 and i = 1]
  then obtain c' s where d: "doOnce wit_client (wit_net ?w) ''a.b'' 7 (Inr ''hello'') = Some (None, c', Some s)" by blast
  from t hello_conn(3) obtain e c2 s2 where
    r: "load_request 1 ''a.b'' 7 wit_client (wit_net ?w) = Some (e, c2, Some s2)" "e = None \<longleftrightarrow> concat [''olleh''] = ''hello''" by blast
  have "concat [''olleh''] \<noteq> ''hello''" by simp
  with r(2) obtain e' where "e = Some e'" by blast
  with d r(1) show ?thesis by blast
qed

text \<open>The loop of the long-run tester makes one request for each tick that is not too late, and no more.\<close>

theorem long_loop_bounded:
  "long_loop host port limit pc evs = (es, over) \<Longrightarrow>
     length es \<le> length (takeWhile (\<lambda>ev. case ev of LongTick now _ _ \<Rightarrow> now \<le> limit | LongCancelled \<Rightarrow> False) evs)"
proof (induction evs arbitrary: pc es)
  case (Cons ev evs)
  show ?case
  proof (cases ev)
    case (LongTick now nt payload)
    with Cons show ?thesis
      by (auto split: if_splits option.splits prod.splits)
  qed (use Cons.prems in auto)
qed simp

lemma first_error_None: "first_error rs = None \<longleftrightarrow> (\<forall>r\<in>set rs. r = None)"
  by (auto simp: first_error_def filter_empty_conv split: list.splits dest: filter_eq_ConsD)

lemma first_error_report: "first_error (List.map_filter f is) = None \<longleftrightarrow> (\<forall>i\<in>set is. \<forall>e. f i \<noteq> Some (Some e))"
  by (auto simp: first_error_None List.map_filter_def split: option.splits)

text \<open>
  A level is done exactly when every worker reports that it went well, in whatever order the reports
  arrive; without an error one worker that never reports keeps it waiting for ever.
\<close>

lemma level_verdict:
  assumes "set arrivals = {i. i < level \<and> load_worker i host port until pc (reqs i) \<noteq> None}"
  shows "runLevel host port level until pc reqs arrivals = Some None \<longleftrightarrow>
      (\<forall>i<level. load_worker i host port until pc (reqs i) = Some None)" (is ?done)
    and "runLevel host port level until pc reqs arrivals = None \<longleftrightarrow>
      (\<exists>i<level. load_worker i host port until pc (reqs i) = None) \<and>
      (\<forall>i<level. \<forall>e. load_worker i host port until pc (reqs i) \<noteq> Some (Some e))" (is ?waits)
proof -
  let ?rep = "\<lambda>i. load_worker i host port until pc (reqs i)"
  have f: "first_error (List.map_filter ?rep arrivals) = None \<longleftrightarrow> (\<forall>i<level. \<forall>e. ?rep i \<noteq> Some (Some e))"
    using assms by (auto simp: first_error_report)
  have l: "list_all (\<lambda>i. ?rep i \<noteq> None) [0..<level] \<longleftrightarrow> (\<forall>i<level. ?rep i \<noteq> None)"
    by (auto simp: list_all_iff)
  have "x = Some None \<longleftrightarrow> x \<noteq> None \<and> (\<forall>e. x \<noteq> Some (Some e))" for x :: "err option option"
    by (cases x) auto
  then have n: "?rep i = Some None \<longleftrightarrow> ?rep i \<noteq> None \<and> (\<forall>e. ?rep i \<noteq> Some (Some e))" for i .
  show ?done unfolding n unfolding runLevel_def Let_def using f l by (auto split: option.splits if_splits)
  show ?waits unfolding runLevel_def Let_def using f l by (auto split: option.splits if_splits)
qed

end
