(* ===== verification/Endpoints.thy ===== *)
theory Endpoints
  imports Transport Listeners Padding
begin

text \<open>
  The ends of the transports beside their addresses: the uTLS client of
  \<open>hypernet/core/network/obfuscate/utls.go\<close>, which the secure WebSocket transport may dial with, the
  listeners of \<open>hypernet/core/network/transport/ws.go\<close> and \<open>grpc.go\<close>, the response writer that hands a
  connection to the WebSocket upgrade, and the byte stream that WebSocket messages carry. Sockets, TLS
  and the WebSocket protocol are library code.
\<close>

section \<open>uTLS\<close>

record tls_config =
  RootCAs :: "bytes option"
  InsecureSkipVerify :: bool
  NextProtos :: "string list"
  TlsServerName :: string

definition tlsConfigToUtls :: "tls_config option \<Rightarrow> string \<Rightarrow> tls_config" where
  "tlsConfigToUtls c serverName =
     (let uc = \<lparr>RootCAs = None, InsecureSkipVerify = False, NextProtos = [], TlsServerName = ''''\<rparr>;
          uc = (case c of None \<Rightarrow> uc
                | Some c \<Rightarrow> \<lparr>RootCAs = RootCAs c, InsecureSkipVerify = InsecureSkipVerify c,
                             NextProtos = NextProtos c, TlsServerName = TlsServerName c\<rparr>)
      in if serverName \<noteq> '''' then uc\<lparr>TlsServerName := serverName\<rparr> else uc)"

text \<open>
  \<open>DialUTLS\<close>: \<open>dial\<close> opens the raw connection, \<open>shake\<close> is the handshake with a configuration and a
  fingerprint. The result has the connection or the error, and the counter of the fingerprints.
\<close>

definition DialUTLS ::
  "(string \<Rightarrow> string \<Rightarrow> err option) \<Rightarrow> (tls_config \<Rightarrow> hello_id \<Rightarrow> err + 'c) \<Rightarrow> nat \<Rightarrow> string \<Rightarrow> string \<Rightarrow> string \<Rightarrow>
     tls_config option \<Rightarrow> 'c dialled \<times> nat"
where
  "DialUTLS dial shake idx network addr serverName baseCfg =
     (case dial network addr of
        Some e \<Rightarrow> (\<lparr>dl_result = Inl e, dl_opened = [], dl_closed = []\<rparr>, idx)
      | None \<Rightarrow>
          (case RandomClientHelloID idx of (hello, idx') \<Rightarrow>
             (case shake (tlsConfigToUtls baseCfg serverName) hello of
                Inl e \<Rightarrow> (\<lparr>dl_result = Inl e, dl_opened = [RawConn], dl_closed = [RawConn]\<rparr>, idx')
              | Inr c \<Rightarrow> (\<lparr>dl_result = Inr c, dl_opened = [RawConn], dl_closed = []\<rparr>, idx'))))"

section \<open>Dialling and listening for WebSockets\<close>

text \<open>
  The raw connection of a WebSocket dial: plain TCP, the TLS of the standard library, or uTLS when it
  was switched on; the TLS dialers are given the host as the name to verify.
\<close>

definition ws_raw ::
  "bool \<Rightarrow> bool \<Rightarrow> (string \<Rightarrow> err option) \<Rightarrow> (tls_config \<Rightarrow> string \<Rightarrow> err option) \<Rightarrow>
     (string \<Rightarrow> string \<Rightarrow> string \<Rightarrow> tls_config option \<Rightarrow> err option) \<Rightarrow> string \<Rightarrow> string \<Rightarrow> err option"
where
  "ws_raw secure useUTLSForWSS tcp tls utls host addrStr =
     (if secure then
        (let tlsCfg = \<lparr>RootCAs = None, InsecureSkipVerify = False, NextProtos = [], TlsServerName = host\<rparr>
         in if useUTLSForWSS then utls ''tcp'' addrStr host (Some tlsCfg) else tls tlsCfg addrStr)
      else tcp addrStr)"

definition ws_listen :: "(string \<Rightarrow> err + 'l) \<Rightarrow> multiaddr option \<Rightarrow> err + 'l" where
  "ws_listen listen ma =
     (case parseWSMultiaddr ma of Inl e \<Rightarrow> Inl e | Inr (host, port) \<Rightarrow> listen (join_host_port host port))"

definition grpc_listen :: "(string \<Rightarrow> err option) \<Rightarrow> multiaddr option \<Rightarrow> err + 'c grpc_listener" where
  "grpc_listen listen ma =
     (case parseGRPCMultiaddr ma of
        Inl e \<Rightarrow> Inl e
      | Inr (host, port) \<Rightarrow>
          (case listen (join_host_port host port) of
             Some e \<Rightarrow> Inl e
           | None \<Rightarrow> Inr \<lparr>gl_chan = [], gl_closed = False\<rparr>))"

text \<open>\<open>hijackRW\<close>: the response writer that gives its connection away.\<close>

record 'c hijackRW =
  hj_conn :: 'c
  hj_header :: "(string \<Rightarrow> string list option) option"
  hj_code :: int

definition hj_Header :: "'c hijackRW \<Rightarrow> (string \<Rightarrow> string list option) \<times> 'c hijackRW" where
  "hj_Header h = (case hj_header h of None \<Rightarrow> (\<lambda>_. None, h\<lparr>hj_header := Some (\<lambda>_. None)\<rparr>) | Some m \<Rightarrow> (m, h))"

definition hj_Write :: "'c writer \<Rightarrow> 'c hijackRW writer" where
  "hj_Write wr h p = (case wr (hj_conn h) p of (n, e, c) \<Rightarrow> (n, e, h\<lparr>hj_conn := c\<rparr>))"

definition hj_WriteHeader :: "int \<Rightarrow> 'c hijackRW \<Rightarrow> 'c hijackRW" where
  "hj_WriteHeader code h = h\<lparr>hj_code := code\<rparr>"

text \<open>The connection comes with a new reader: what an earlier reader has buffered is not in it.\<close>

definition hj_Hijack :: "'c hijackRW \<Rightarrow> 'c \<times> 'c bufrd" where
  "hj_Hijack h = (hj_conn h, new_bufrd (hj_conn h))"

text \<open>
  The upgrade of an accepted connection: \<open>parse\<close> reads the request through a reader of its own, and
  the upgrade goes on with what \<open>Hijack\<close> returns.
\<close>

definition ws_handover :: "('c bufrd \<Rightarrow> ((err + 'q) \<times> 'c bufrd) option) \<Rightarrow> 'c \<Rightarrow> (err + 'q \<times> 'c bufrd) option" where
  "ws_handover parse conn =
     (case parse (new_bufrd conn) of
        None \<Rightarrow> None
      | Some (Inl e, b) \<Rightarrow> Some (Inl e)
      | Some (Inr q, b) \<Rightarrow> Some (Inr (q, snd (hj_Hijack \<lparr>hj_conn = b_src b, hj_header = None, hj_code = 0\<rparr>))))"

text \<open>What the reader of the request had buffered behind it is not read again.\<close>

lemma ws_handover_drops:
  assumes "ws_handover parse conn = Some (Inr (q, b'))"
  shows "\<exists>b. parse (new_bufrd conn) = Some (Inr q, b) \<and> b' = b\<lparr>b_buf := [], b_err := None\<rparr>"
  using assms by (auto simp: ws_handover_def hj_Hijack_def new_bufrd_def split: option.splits sum.splits prod.splits)

section \<open>Messages as a byte stream\<close>

text \<open>
  The messages on their way: a queue that \<open>WriteMessage\<close> adds to, and \<open>ReadMessage\<close>, which waits on an
  empty queue, takes from.
\<close>

definition queue_recv :: "bytes list \<Rightarrow> ((err + bytes) \<times> bytes list) option" where
  "queue_recv q = (case q of [] \<Rightarrow> None | m # ms \<Rightarrow> Some (Inr m, ms))"

definition queue_send :: "bytes list \<Rightarrow> bytes \<Rightarrow> err option \<times> bytes list" where
  "queue_send q b = (None, q @ [b])"

lemma ws_fill_queue:
  "concat q \<noteq> [] \<Longrightarrow> \<exists>m ms. ws_fill queue_recv q = Some (Inr m, ms) \<and> m \<noteq> [] \<and> concat q = m @ concat ms \<and>
     length ms < length q"
proof (induction q)
  case (Cons a q)
  show ?case
  proof (cases "a = []")
    case True
    with Cons obtain m ms where "ws_fill queue_recv q = Some (Inr m, ms)" "m \<noteq> []" "concat q = m @ concat ms"
      "length ms < length q" by auto
    with True show ?thesis by (subst ws_fill.simps) (simp add: queue_recv_def)
  next
    case False
    then show ?thesis by (subst ws_fill.simps) (simp add: queue_recv_def)
  qed
qed simp

interpretation ws_stream: byte_stream "ws_read queue_recv" "\<lambda>(buf, q). buf @ concat q" "\<lambda>_. True"
  "\<lambda>(buf, q). length buf + length q + length (concat q)"
proof unfold_locales
  fix s :: "bytes \<times> bytes list" and n :: nat
  assume n: "0 < n" and c: "(case s of (buf, q) \<Rightarrow> buf @ concat q) \<noteq> []"
  obtain buf q where s: "s = (buf, q)" by fastforce
  show "\<exists>bs s'. ws_read queue_recv s n = Some (bs, None, s') \<and>
      (case s of (buf, q) \<Rightarrow> buf @ concat q) = bs @ (case s' of (buf, q) \<Rightarrow> buf @ concat q) \<and> length bs \<le> n \<and> True \<and>
      (case s' of (buf, q) \<Rightarrow> length buf + length q + length (concat q)) <
      (case s of (buf, q) \<Rightarrow> length buf + length q + length (concat q))"
  proof (cases "buf = []")
    case False
    then have "0 < length buf" by simp
    with n False show ?thesis
      by (auto simp: s ws_read_def append_assoc [symmetric] simp del: append_assoc)
  next
    case True
    with c s ws_fill_queue [of q] obtain m ms where f: "ws_fill queue_recv q = Some (Inr m, ms)" "m \<noteq> []"
      "concat q = m @ concat ms" "length ms < length q" by auto
    then have "0 < length m" by simp
    with True f n show ?thesis
      by (auto simp: s ws_read_def append_assoc [symmetric] simp del: append_assoc)
  qed
qed

text \<open>The peer's queue takes what is written; \<open>buf\<close> is the reader's side of the same connection.\<close>

interpretation ws_sink: byte_sink "ws_write queue_send" "\<lambda>(buf, q). concat q" "\<lambda>_. True"
  by unfold_locales (auto simp: ws_write_def queue_send_def)

text \<open>
  The WebSocket transport carries a byte stream. Whatever is written, in writes of any length,
  empty ones included, the peer reads the same bytes in the same order, however many it asks for at a
  time: the boundaries of the messages do not show.
\<close>

theorem websocket_roundtrip:
  assumes "send_all (ws_write queue_send) ([], []) ds = (rs, (buf, q))" "k \<le> length (concat ds)"
  shows "rs = map (\<lambda>d. (length d, None)) ds \<and>
    (\<exists>s'. read_full (ws_read queue_recv) ([], q) k = Some (take k (concat ds), None, s') \<and>
       (case s' of (buf', q') \<Rightarrow> buf' @ concat q') = drop k (concat ds))"
proof -
  from ws_sink.sent_send_all [OF _ assms(1)] have w: "rs = map (\<lambda>d. (length d, None)) ds" "concat q = concat ds" by auto
  from ws_stream.read_full_content [of k "([], q)"] assms(2) w(2) have
    "\<exists>s'. read_full (ws_read queue_recv) ([], q) k = Some (take k (concat ds), None, s') \<and>
       (case s' of (buf', q') \<Rightarrow> buf' @ concat q') = drop k (concat ds)" by auto
  with w(1) show ?thesis by blast
qed

lemma websocket_roundtrip_witness:
  "\<exists>q s'. send_all (ws_write queue_send) ([], []) [''ab'', '''', ''cde''] = ([(2, None), (0, None), (3, None)], ([], q)) \<and>
     read_full (ws_read queue_recv) ([], q) 4 = Some (''abcd'', None, s')"
proof -
  have s: "send_all (ws_write queue_send) ([], []) [''ab'', '''', ''cde''] =
      ([(2, None), (0, None), (3, None)], ([], [''ab'', '''', ''cde'']))"
    by (simp add: ws_write_def queue_send_def)
  from websocket_roundtrip [OF s, of 4] show ?thesis unfolding s by auto
qed

end
