(* ===== verification/Commands.thy ===== *)
theory Commands
  imports ClientApp NodeRun TlsFront
begin

text \<open>
  The programs around the node: \<open>cmd/node/main.go\<close>, which runs the daemon, the start of
  \<open>cmd/tls-front/main.go\<close>, and \<open>cmd/dhtdemo/main.go\<close>, which starts four nodes and checks that they find
  each other through the DHT. Signals, sleeps and logs are left out; a program that ends in
  \<open>log.Fatalf\<close> ends in \<open>Fatal\<close>.
\<close>

section \<open>The node\<close>

definition pprof_addr :: "environ \<Rightarrow> string" where
  "pprof_addr env = (let a = getenv env ''PPROF_ADDR'' in if a = '''' then ''127.0.0.1:6060'' else a)"

text \<open>The address the profiler is served on, if it is, and how the program ends.\<close>

definition node_main :: "(err + node_config) \<Rightarrow> (node_config \<Rightarrow> run_end option) \<Rightarrow> environ \<Rightarrow> string option \<times> (cli_exit + run_end) option" where
  "node_main loaded run env =
     (case loaded of
        Inl e \<Rightarrow> (None, Some (Inl (Fatal (wrap_err ''failed to load config'' e))))
      | Inr cfg \<Rightarrow>
          (if getenv env ''PPROF_ENABLE'' = ''1'' then Some (pprof_addr env) else None,
           case run cfg of
             None \<Rightarrow> None
           | Some (RunFailed e) \<Rightarrow> Some (Inl (Fatal (wrap_err ''run'' e)))
           | Some r \<Rightarrow> Some (Inr r)))"

section \<open>The TLS front\<close>

record front_flags =
  ff_listen :: string
  ff_http :: string
  ff_domains :: string
  ff_backend :: string

text \<open>
  How the program exits, or the domains, the address of the challenge server, the connections it
  handles and whether its accept loop has ended.
\<close>

definition front_main ::
  "(string \<Rightarrow> err option) \<Rightarrow> front_flags \<Rightarrow> 'c accepted list \<Rightarrow>
     cli_exit + (string list \<times> string option \<times> 'c list \<times> bool)"
where
  "front_main lstn fl evs =
     (if ff_domains fl = '''' then Inl Usage
      else
        let domains = parseDomains (ff_domains fl)
        in if domains = [] then Inl Usage
           else case lstn (ff_listen fl) of
             Some e \<Rightarrow> Inl (Fatal (wrap_err (''tls-front: listen '' @ ff_listen fl) e))
           | None \<Rightarrow>
               Inr (domains, if ff_http fl = '''' then None else Some (ff_http fl), fst (front_loop evs), snd (front_loop evs)))"

section \<open>The DHT demonstration\<close>

text \<open>\<open>strings.Replace\<close> of the first occurrence.\<close>

fun replace_first :: "string \<Rightarrow> string \<Rightarrow> string \<Rightarrow> string" where
  "replace_first old new [] = (if old = [] then new else [])"
| "replace_first old new (c # s) =
     (if has_prefix (c # s) old then new @ drop (length old) (c # s) else c # replace_first old new s)"

definition localBootstrapAddr :: "AddrInfo \<Rightarrow> string" where
  "localBootstrapAddr h =
     (case ai_addrs h of
        [] \<Rightarrow> ''''
      | a # _ \<Rightarrow> replace_first ''/ip4/0.0.0.0/'' ''/ip4/127.0.0.1/'' a @ ''/p2p/'' @ ai_id h)"

definition demo_config :: "string \<Rightarrow> string \<Rightarrow> string list \<Rightarrow> node_config" where
  "demo_config key m boot = zero_config\<lparr>Port := 0, KeyPath := key, EnableDHT := True, DHTMode := m, BootstrapPeers := boot\<rparr>"

definition must_new :: "(node_config \<Rightarrow> err + AddrInfo) \<Rightarrow> string \<Rightarrow> node_config \<Rightarrow> err + AddrInfo" where
  "must_new mk name cfg = (case mk cfg of Inl e \<Rightarrow> Inl (wrap_err (''create node '' @ name) e) | Inr h \<Rightarrow> Inr h)"

text \<open>The connections that are opened, in order; the first that fails ends the program.\<close>

fun demo_connect :: "(string \<Rightarrow> string \<Rightarrow> err option) \<Rightarrow> (string \<times> string) list \<Rightarrow> err option" where
  "demo_connect conn [] = None"
| "demo_connect conn ((a, b) # ps) =
     (case conn a b of Some e \<Rightarrow> Some (wrap_err (''connect '' @ a @ '' -> '' @ b) e) | None \<Rightarrow> demo_connect conn ps)"

definition demo_setup ::
  "(node_config \<Rightarrow> err + AddrInfo) \<Rightarrow> (string \<Rightarrow> string \<Rightarrow> err option) \<Rightarrow> err + (AddrInfo \<times> AddrInfo \<times> AddrInfo \<times> AddrInfo)"
where
  "demo_setup mk conn =
     (case must_new mk ''A'' (demo_config ''dhtdemo-a.key'' ''server'' []) of
        Inl e \<Rightarrow> Inl e
      | Inr a \<Rightarrow>
          if ai_addrs a = [] then Inl (Err ''node A has no listen addrs'')
          else
            let bootA = localBootstrapAddr a
            in if bootA = '''' then Inl (Err ''node A: could not build bootstrap addr'')
               else (case must_new mk ''B'' (demo_config ''dhtdemo-b.key'' ''server'' [bootA]) of
                 Inl e \<Rightarrow> Inl e
               | Inr b \<Rightarrow>
                   (case must_new mk ''C'' (demo_config ''dhtdemo-c.key'' ''server'' [bootA]) of
                      Inl e \<Rightarrow> Inl e
                    | Inr c \<Rightarrow>
                        let boots = [bootA] @ filter (\<lambda>x. x \<noteq> '''') [localBootstrapAddr b, localBootstrapAddr c]
                        in (case must_new mk ''D'' (demo_config ''dhtdemo-d.key'' ''client'' boots) of
                              Inl e \<Rightarrow> Inl e
                            | Inr d \<Rightarrow>
                                (case demo_connect conn [(''B'', ''A''), (''C'', ''A''), (''B'', ''C''), (''D'', ''A'')] of
                                   Some e \<Rightarrow> Inl e
                                 | None \<Rightarrow> Inr (a, b, c, d))))))"

definition testFindPeer :: "err + AddrInfo \<Rightarrow> err option" where
  "testFindPeer found =
     (case found of
        Inl e \<Rightarrow> Some (wrap_err ''FindPeer'' e)
      | Inr info \<Rightarrow>
          if ai_addrs info = [] then Some (Err (''FindPeer returned zero addresses for '' @ ai_id info)) else None)"

definition demo_keys :: "string list" where
  "demo_keys = [''my-file'', ''test-key-123'']"

text \<open>The loop over the keys: A and C provide each, and the client must find one of them.\<close>

fun provide_and_find ::
  "('c, 'd) dht option \<Rightarrow> ('c, 'd) dht option \<Rightarrow> ('c, 'd) dht option \<Rightarrow> string \<Rightarrow> string \<Rightarrow> string list \<Rightarrow> 'd \<Rightarrow> err option \<times> 'd"
where
  "provide_and_find hA hC hD idA idC [] st = (None, st)"
| "provide_and_find hA hC hD idA idC (key # keys) st =
     (case ProvideKey hA st key of
        (Some e, st1) \<Rightarrow> (Some (wrap_err (''ProvideKey on A for '' @ go_quote key) e), st1)
      | (None, st1) \<Rightarrow>
          (case ProvideKey hC st1 key of
             (Some e, st2) \<Rightarrow> (Some (wrap_err (''ProvideKey on C for '' @ go_quote key) e), st2)
           | (None, st2) \<Rightarrow>
               (case ProvidersForKey hD st2 key 10 of
                  Inl e \<Rightarrow> (Some (wrap_err (''ProvidersForKey for '' @ go_quote key) e), st2)
                | Inr ps \<Rightarrow>
                    if ps = []
                    then (Some (Err (''expected at least 1 provider for key '' @ go_quote key @ '', got '' @ itoa 0)), st2)
                    else if idA \<notin> set (map ai_id ps) \<and> idC \<notin> set (map ai_id ps)
                    then (Some (Err (''expected at least one of A ('' @ idA @ '') or C ('' @ idC @ '') as provider for key '' @
                            go_quote key @ '', got '' @ itoa (int (length ps)) @ '' provider(s)'')), st2)
                    else provide_and_find hA hC hD idA idC keys st2)))"

definition testRoutingPeers :: "string list \<Rightarrow> err option" where
  "testRoutingPeers peers = (if peers = [] then Some (Err ''expected to know at least one peer in DHT/network'') else None)"

text \<open>The whole program: None is the line that all tests passed.\<close>

definition demo_main ::
  "(node_config \<Rightarrow> err + AddrInfo) \<Rightarrow> (string \<Rightarrow> string \<Rightarrow> err option) \<Rightarrow> (AddrInfo \<Rightarrow> string \<Rightarrow> err + AddrInfo) \<Rightarrow>
     (AddrInfo \<Rightarrow> ('c, 'd) dht option) \<Rightarrow> (AddrInfo \<Rightarrow> string list) \<Rightarrow> 'd \<Rightarrow> err option"
where
  "demo_main mk conn fp dht_of peers st =
     (case demo_setup mk conn of
        Inl e \<Rightarrow> Some e
      | Inr (a, b, c, d) \<Rightarrow>
          (case testFindPeer (fp d (ai_id c)) of
             Some e \<Rightarrow> Some (wrap_err ''FindPeer test failed'' e)
           | None \<Rightarrow>
               (case fst (provide_and_find (dht_of a) (dht_of c) (dht_of d) (ai_id a) (ai_id c) demo_keys st) of
                  Some e \<Rightarrow> Some (wrap_err ''Provide/FindProviders test failed'' e)
                | None \<Rightarrow>
                    (case testRoutingPeers (peers d) of
                       Some e \<Rightarrow> Some (wrap_err ''routing peers test failed'' e)
                     | None \<Rightarrow> None))))"

section \<open>Properties\<close>

text \<open>
  The TLS front starts only with at least one domain, and none of its domains is empty; then it tries
  to listen, and the accept loop decides what it handles.
\<close>

theorem front_main_starts:
  "front_main lstn fl evs = Inr (ds, http, cs, over) \<longleftrightarrow>
     ds = parseDomains (ff_domains fl) \<and> ds \<noteq> [] \<and> '''' \<notin> set ds \<and> lstn (ff_listen fl) = None \<and>
     http = (if ff_http fl = '''' then None else Some (ff_http fl)) \<and> (cs, over) = front_loop evs"
proof -
  have "'''' \<notin> set (parseDomains s)" for s by (simp add: parseDomains_def)
  moreover have "parseDomains '''' = []"
  proof -
    have "trim_space [] = []" by code_simp
    then show ?thesis by (simp add: parseDomains_def)
  qed
  ultimately show ?thesis
    by (cases "front_loop evs") (auto simp: front_main_def Let_def split: option.splits)
qed

text \<open>
  What the demonstration relies on: the nodes share a network that keeps what is provided and has no
  more than ten providers for a CID, which is how many the demonstration asks for.
\<close>

definition shared_dht :: "('c, 'd) dht \<Rightarrow> AddrInfo \<Rightarrow> ('c, 'd) dht \<Rightarrow> ('d \<Rightarrow> 'c \<Rightarrow> AddrInfo set) \<Rightarrow> bool" where
  "shared_dht h self hD provs \<longleftrightarrow>
     d_hash h = d_hash hD \<and> provides_law (h\<lparr>d_find := d_find hD\<rparr>) self provs \<and> (\<forall>st. few_providers provs 10 st) \<and>
     (\<forall>st c. case fst (d_provide h st c) of None \<Rightarrow> True
             | Some x \<Rightarrow> go_contains (err_msg x) ''failed to find any peer in table'')"

lemma shared_provide:
  assumes "shared_dht h self hD provs" "stringKeyToCID hD key = Inr c"
  shows "\<exists>st'. ProvideKey (Some h) st key = (None, st') \<and> key_held hD self provs st' key \<and>
    (\<forall>k. key_held hD self provs st k \<longrightarrow> key_held hD self provs st' k)"
proof -
  obtain e st' where p: "ProvideKey (Some h) st key = (e, st')" by fastforce
  have e: "e = None"
  proof -
    have "stringKeyToCID h key = Inr c" using assms by (auto simp: shared_dht_def stringKeyToCID_def)
    moreover have "case fst (d_provide h st c) of None \<Rightarrow> True
             | Some x \<Rightarrow> go_contains (err_msg x) ''failed to find any peer in table''"
      using assms(1) by (auto simp: shared_dht_def)
    ultimately show ?thesis using p by (auto simp: ProvideKey_def split: option.splits prod.splits if_splits)
  qed
  have p2: "ProvideKey (Some (h\<lparr>d_find := d_find hD\<rparr>)) st key = (e, st')"
  proof -
    have "stringKeyToCID (h\<lparr>d_find := d_find hD\<rparr>) key = stringKeyToCID h key" by (simp add: stringKeyToCID_def)
    then show ?thesis using p by (cases "stringKeyToCID h key") (simp_all add: ProvideKey_def)
  qed
  have law: "provides_law (h\<lparr>d_find := d_find hD\<rparr>) self provs" using assms(1) by (simp add: shared_dht_def)
  have "d_hash h = d_hash hD" using assms(1) by (simp add: shared_dht_def)
  then have "key_held (h\<lparr>d_find := d_find hD\<rparr>) self provs = key_held hD self provs"
    by (intro ext) (simp add: key_held_def stringKeyToCID_def)
  with ProvideKey_held [OF law p2] p e show ?thesis by auto
qed

lemma provide_and_find_passes:
  assumes a: "shared_dht hA iA hD provs" and c: "shared_dht hC iC hD provs"
    and k: "\<forall>key\<in>set keys. \<exists>c. stringKeyToCID hD key = Inr c"
  shows "\<exists>st'. provide_and_find (Some hA) (Some hC) (Some hD) (ai_id iA) (ai_id iC) keys st = (None, st')"
  using k
proof (induction keys arbitrary: st)
  case (Cons key keys)
  then obtain x where x: "stringKeyToCID hD key = Inr x" by auto
  from shared_provide [OF a x, of st] obtain st1 where s1: "ProvideKey (Some hA) st key = (None, st1)" by blast
  from shared_provide [OF c x, of st1] obtain st2 where s2: "ProvideKey (Some hC) st1 key = (None, st2)"
    "key_held hD iC provs st2 key" by blast
  have law: "provides_law (hC\<lparr>d_find := d_find hD\<rparr>) iC provs" using c by (simp add: shared_dht_def)
  have same: "stringKeyToCID (hC\<lparr>d_find := d_find hD\<rparr>) key = stringKeyToCID hD key"
    using c by (simp add: stringKeyToCID_def shared_dht_def)
  with s2(2) have held: "key_held (hC\<lparr>d_find := d_find hD\<rparr>) iC provs st2 key" by (simp add: key_held_def)
  from c have "few_providers provs 10 st2" by (simp add: shared_dht_def)
  with held_found [OF law held, of 10] same x
  obtain ps where ps: "ProvidersForKey (Some hD) st2 key 10 = Inr ps" "iC \<in> set ps"
    by (simp add: ProvidersForKey_def)
  have f: "ps \<noteq> []" "ai_id iC \<in> set (map ai_id ps)" using ps(2) by auto
  from Cons.IH [of st2] Cons.prems obtain st' where
    "provide_and_find (Some hA) (Some hC) (Some hD) (ai_id iA) (ai_id iC) keys st2 = (None, st')" by auto
  with s1 s2(1) ps(1) f show ?case by simp
qed simp

text \<open>
  The demonstration passes on a network that works: when the four nodes start and connect, A and C
  share a network with D that keeps what they provide and hashes every key, the search for C returns an
  address and D knows a peer, no test fails.
\<close>

theorem demo_passes:
  assumes "demo_setup mk conn = Inr (a, b, c, d)"
    and "fp d (ai_id c) = Inr info" "ai_addrs info \<noteq> []"
    and "dht_of a = Some hA" "dht_of c = Some hC" "dht_of d = Some hD"
    and "shared_dht hA a hD provs" "shared_dht hC c hD provs"
    and "\<forall>key\<in>set demo_keys. \<exists>x. stringKeyToCID hD key = Inr x" "peers d \<noteq> []"
  shows "demo_main mk conn fp dht_of peers st = None"
proof -
  from provide_and_find_passes [OF assms(7-9), of st] obtain st' where
    "provide_and_find (Some hA) (Some hC) (Some hD) (ai_id a) (ai_id c) demo_keys st = (None, st')" by blast
  with assms(1-6,10) show ?thesis by (simp add: demo_main_def testFindPeer_def testRoutingPeers_def)
qed

definition wit_demo_dht :: "(string, string list) dht" where
  "wit_demo_dht = (list_dht (wit_info ''a''))\<lparr>d_find := \<lambda>st c m. if c \<in> set st then [wit_info ''dhtdemo-a.key'', wit_info ''dhtdemo-c.key''] else []\<rparr>"

lemma demo_passes_witness:
  "demo_main (\<lambda>cfg. Inr (wit_info (KeyPath cfg))) (\<lambda>_ _. None) (\<lambda>_ i. Inr (wit_info i)) (\<lambda>_. Some wit_demo_dht) (\<lambda>_. [''p'']) [] = None"
proof -
  have s: "demo_setup (\<lambda>cfg. Inr (wit_info (KeyPath cfg))) (\<lambda>_ _. None) =
      Inr (wit_info ''dhtdemo-a.key'', wit_info ''dhtdemo-b.key'', wit_info ''dhtdemo-c.key'', wit_info ''dhtdemo-d.key'')"
    by (simp add: demo_setup_def must_new_def demo_config_def wit_info_def localBootstrapAddr_def Let_def)
  have law: "shared_dht wit_demo_dht (wit_info ''dhtdemo-a.key'') wit_demo_dht (\<lambda>st c. if c \<in> set st then {wit_info ''dhtdemo-a.key'', wit_info ''dhtdemo-c.key''} else {})"
    "shared_dht wit_demo_dht (wit_info ''dhtdemo-c.key'') wit_demo_dht (\<lambda>st c. if c \<in> set st then {wit_info ''dhtdemo-a.key'', wit_info ''dhtdemo-c.key''} else {})"
    by (auto simp: shared_dht_def few_providers_def wit_info_def provides_law_def wit_demo_dht_def list_dht_def has_prefix_def)
  have k: "\<forall>key\<in>set demo_keys. \<exists>x. stringKeyToCID wit_demo_dht key = Inr x"
    by (simp add: demo_keys_def stringKeyToCID_def wit_demo_dht_def list_dht_def)
  show ?thesis
    by (rule demo_passes [OF s _ _ _ _ _ law k, where info = "wit_info ''dhtdemo-c.key''"]) (simp_all add: wit_info_def)
qed

end
