(* ===== verification/Spec2Isabelle.thy ===== *)
theory Spec2Isabelle
  imports GoDuration GoIO Framing Padding Plain ObfsNegotiate Shadowsocks Hysteria2 TokenAuth Vmess
    ProtoManager Negotiate Pipe ProxyServer ProxyClient Dns Metrics SmartClient NodeConfig Daemon
    Inbound Transport Ping HostNode Reality TlsFront ClientApp Listeners NodeRun
    Adapters Sessions Layers ObfsSession UdpSession Recorded NameDht NameRegister NameKeep Guard GoIP GoAddr Forwarder LoadTools Endpoints Commands
begin

text \<open>
  The hyper-net node and client: a proxy network over libp2p.

  The program. A node (\<open>cmd/node\<close>, \<open>hypernet/node/daemon\<close>) reads its configuration, builds a libp2p
  host, announces the protocols it speaks in a DHT, registers names there, and serves streams: the
  negotiation of a protocol, the proxy protocol itself, and pings. It also starts local listeners
  (SOCKS5, HTTP CONNECT, dokodemo, REALITY). A client (\<open>pkg/client\<close>, \<open>hypernet/apps/cli\<close>) finds a
  node by address, by name or by protocol (\<open>smartclient\<close>), negotiates, authenticates and sends a
  request line; the node dials the target and relays, with optional padding, delays and dummy
  traffic, and records the session in a metrics store.

  Theories and sources. Under the programs' own parts lie models of what they use of the Go library:
  \<^item> \<open>Prelude\<close>, \<open>GoStrings\<close>, \<open>GoDuration\<close>, \<open>GoNet\<close>, \<open>GoIP\<close>, \<open>GoAddr\<close>: big-endian integers, results and
    errors; package strings, \<open>strconv\<close>, quoting; durations; IP addresses, printed and parsed, with the
    region of a client, and host:port, which \<open>GoAddr\<close> takes apart.
  \<^item> \<open>GoIO\<close>, \<open>IOFrame\<close>, \<open>Framing\<close>: readers and writers as functions on an explicit state, \<open>bufio\<close>,
    \<open>io.ReadFull\<close>, \<open>io.Copy\<close>; a wire is a connection as one end sees it: the segments still to come
    and how they end, what was written, whether it was closed. The locales \<open>byte_stream\<close> and the one
    for framed sessions state the contracts that connections and sessions keep and are interpreted on
    each of them. \<open>Tasks\<close> is the contract of two goroutines that take turns.
  \<^item> \<open>Padding\<close> (\<open>obfuscate/padding.go\<close>, \<open>delay.go\<close>, \<open>utls.go\<close>), \<open>ProtoIface\<close> (\<open>protoiface\<close>),
    \<open>CryptoIface\<close> (the laws of AEAD ciphers), and the protocol adapters \<open>Plain\<close>, \<open>Shadowsocks\<close>,
    \<open>Hysteria2\<close>, \<open>TokenAuth\<close> (vless and trojan), \<open>Vmess\<close> (\<open>pkg/protoadapters\<close>): handshakes and framed
    sessions; \<open>Adapters\<close> is the interface they share.
  \<^item> \<open>ProtoManager\<close> (\<open>protomanager/manager.go\<close>), \<open>Negotiate\<close> (\<open>protonegotiate/negotiate.go\<close>),
    \<open>ObfsNegotiate\<close> (\<open>server/obfs_negotiate.go\<close>): the registry of protocols and both negotiations.
  \<^item> \<open>Pipe\<close> and \<open>ProxyServer\<close> (\<open>server/proxy.go\<close>): the relay, the UDP loops, and the handler of a stream
    in the phases the code has, with the log of its session. \<open>Metrics\<close> (\<open>metrics/store.go\<close>): the
    buffered writer of that log.
  \<^item> \<open>ProxyClient\<close> (\<open>pkg/client/proxy.go\<close>), \<open>SmartClient\<close> (\<open>smartclient.go\<close>), \<open>ClientApp\<close>
    (\<open>apps/cli/client.go\<close>): dialling, fallback, choice of a provider, and the command line client.
  \<^item> \<open>Dns\<close> (\<open>services/dns\<close>), \<open>HostNode\<close> (\<open>core/network/node\<close>, \<open>core/routing\<close>, \<open>core/identity\<close>,
    \<open>services/relay\<close>), \<open>Ping\<close> (\<open>core/network/ping\<close>), \<open>NodeConfig\<close> (\<open>pkg/config\<close>), \<open>Daemon\<close>
    and \<open>NodeRun\<close> (\<open>node/daemon/run.go\<close>): names, the node and its start.
  \<^item> \<open>Inbound\<close>, \<open>Listeners\<close> (\<open>proxy/inbound\<close>), \<open>Transport\<close> and \<open>Listeners\<close> (\<open>core/network/transport\<close>),
    \<open>Reality\<close> (\<open>services/vpn/reality\<close>), \<open>TlsFront\<close> (\<open>cmd/tls-front\<close>), \<open>Endpoints\<close> (uTLS, the ends of the
    WebSocket and gRPC transports): local proxies, transports and fronts.
  \<^item> What the parts make together. \<open>Sessions\<close> interleaves the negotiations and the streams of a node, in
    the steps of its concurrent handlers. \<open>Layers\<close> states what a connection promises to the code above
    it (the locale \<open>duplex\<close>) and how padding, delays and ciphers pass that promise on (\<open>layer\<close>);
    \<open>ObfsSession\<close> stacks them to an obfuscated session between a client and a node, and \<open>UdpSession\<close>
    follows datagrams from the client to the node's socket and back. \<open>Recorded\<close> puts the handlers of
    many streams, the writer and the shutdown of the daemon around the metrics store. \<open>Guard\<close> shows what
    the token of a node guards, with the locale \<open>thin\<close> of readers that invent nothing. \<open>NameDht\<close> lets any
    number of nodes, honest or not, work on the names of one DHT, \<open>NameRegister\<close> states what the
    validator makes of it, and \<open>NameKeep\<close> follows a name through the leases of its refreshes.
  \<^item> \<open>Forwarder\<close> (\<open>cmd/proxy-forwarder\<close>), \<open>LoadTools\<close> (\<open>cmd/proxy-load\<close>, \<open>longrun-tester\<close>, \<open>proxy-bench\<close>)
    and \<open>Commands\<close> (\<open>cmd/node\<close>, \<open>cmd/dhtdemo\<close>, the start of \<open>cmd/tls-front\<close>): the programs on top.

  Correspondence. A struct is a record, a method a function that returns the changed record, and an
  error a value: \<open>err + 'a\<close>, or \<open>err option\<close> where the code returns only an error. A call that can
  block for ever returns an option, and None is that it does not return; a handler that did not
  finish on its schedule says so in its result. Texts are lists of bytes. Machine integers are \<open>int\<close>
  or \<open>nat\<close> with the wrap-around written out where it can occur (durations, Unix times, the lengths in
  frames). A definition has the name of the function it models unless the name is taken.

  Concurrency. Two goroutines that copy are rounds of \<open>io.Copy\<close> interleaved by a schedule, a list of
  turns; the theorems hold for every schedule, and those that promise an end for every schedule with
  at least as many turns for each direction as it has segments and bytes, and one or two more. The two
  UDP loops of a session, which read and write different ends, are run one after the other. No
  fuel is used elsewhere: loops that may not end are partial functions into option. Fallback, retry
  and registration loops have the bounds of the code (the length of the preferences, 5 attempts per
  bootstrap peer, 25 attempts for names). The mutexes of the code make its operations single steps,
  except where a theorem is about them (\<open>Transport.write_during_read\<close>).

  Parameters. Third-party code is an argument of the definitions that use it, with its laws as named
  hypotheses where a theorem needs them: the ciphers, hashes and signatures, JSON, the libp2p host,
  DHT and multiaddr parser, HTTP, WebSocket, HTTP/2, KCP, REALITY and SQLite, and of the system the
  clock, random numbers, the network and the environment.

  What is shown. Round trips: padding, plain, shadowsocks and gRPC sessions deliver what was written
  whatever the segmentation; requests, OBFS lines, UDP datagrams and names survive their formats.
  Agreement: the two ends of each handshake and negotiation, for every configuration of a node.
  End to end: a TCP session through the node and down to its row in the database, a tunnel from client to target, SOCKS5 and CONNECT
  sessions, datagrams between a client and a socket, a registered name whose peer a client dials, the
  keys a node announces and those a smart client looks up, and an obfuscated session, of any protocol
  but vless, vmess and hysteria2, through every layer the two sides agree on.
  Invariants and bounds: the accounting of the relay in every reachable state, the session log, the
  counters of the client, the registry, the parsed configuration and what it depends on, the attempts
  and pauses of the start of a node.
  Refinement: the metrics store implements an append-only log, and closing it loses nothing; the names
  of the DHT are a register the newest record wins, so replicas that receive the same records in any
  order converge. Under drops, failing transactions and any interleaving of sessions the table of
  sessions never shows anything but what the handlers did.
  Histories: what is stored under a name stays authentic and never gets older while every writer keeps
  to the protocol, a name lasts as long as its owner refreshes it, and what one peer that does not keep
  to the protocol can do; settled sessions of a node are served with
  the protocol negotiated, and an unsettled one need not be. A token keeps out who does not have it,
  under vless and behind anything but a plain request. Errors:
  lemmas that pin down what goes wrong where the code does not do what it means to, among them lost
  bytes behind a first line, relays that do not pass on the end of a stream, tombstones that are
  skipped, and connections that block or are dropped.

  Not modelled. The packages under \<open>pkg/dns\<close>, \<open>pkg/inbound\<close>, \<open>pkg/reality\<close> and \<open>proxy/adapters\<close>: no
  program imports them, and they repeat line by line what is modelled from the packages in use.
  Interfaces and constants without code (\<open>roles\<close>, \<open>economy\<close>); opening databases, signals, printing and
  logging to the console, and the memory figures that \<open>proxy-load\<close> prints. Time passes only as the
  values the clock returns, so deadlines are recorded and not enforced.
\<close>

end
